(* ===== verification/M6_Prelude.thy ===== *)
theory M6_Prelude
  imports Main "HOL-Library.Word" "HOL-Library.Sublist" "HOL-Library.Code_Target_Numeral" "HOL-Library.AList"
begin

text \<open>
  The shared ground of the development.

  \<^item> \<open>outcome\<close> is the result of Rust code that may panic. The workspace's release
    profile sets \<open>overflow-checks = true\<close> and \<open>panic = "abort"\<close> (\<open>src/Cargo.toml\<close>), so an
    arithmetic overflow ends the whole process; it is a value of the model and never hidden.
  \<^item> A Rust \<open>String\<close>, \<open>&str\<close>, \<open>Vec<u8>\<close> or \<open>&[u8]\<close> is the list of its bytes, a \<open>string\<close>
    (a \<open>char\<close> of HOL is exactly one byte). What the source does with the standard library on
    them (\<open>trim\<close>, \<open>split\<close>, \<open>split_once\<close>, \<open>find\<close>, \<open>strip_prefix\<close>, \<open>eq_ignore_ascii_case\<close>,
    \<open>parse\<close>, \<open>windows(n).position\<close>, \<open>from_utf8\<close>) is defined here on bytes.
  \<^item> An \<open>Instant\<close> is the number of nanoseconds since a fixed origin and a \<open>Duration\<close> a number
    of nanoseconds, both of type \<open>nat\<close>.
\<close>

section \<open>Collections of facts\<close>

named_theorems outcome_simps \<open>rewriting of computations that may panic\<close>
named_theorems byte_simps \<open>evaluation of byte and character tests\<close>
named_theorems str_simps \<open>rewriting of the string operations\<close>

section \<open>Code that may panic\<close>

datatype 'a outcome = Val 'a | Panic

primrec bind_outcome :: "'a outcome \<Rightarrow> ('a \<Rightarrow> 'b outcome) \<Rightarrow> 'b outcome" where
  "bind_outcome (Val x) f = f x"
| "bind_outcome Panic f = Panic"

primrec map_outcome_val :: "('a \<Rightarrow> 'b) \<Rightarrow> 'a outcome \<Rightarrow> 'b outcome" where
  "map_outcome_val f (Val x) = Val (f x)"
| "map_outcome_val f Panic = Panic"

definition returns :: "'a outcome \<Rightarrow> bool" where
  "returns m \<longleftrightarrow> m \<noteq> Panic"

lemma returns_simps [simp, outcome_simps]:
  "returns (Val x)" "\<not> returns Panic"
  by (simp_all add: returns_def)

lemma returns_iff_ex: "returns m \<longleftrightarrow> (\<exists>x. m = Val x)"
  by (cases m) auto

lemma bind_outcome_eq_Val [outcome_simps]:
  "bind_outcome m f = Val y \<longleftrightarrow> (\<exists>x. m = Val x \<and> f x = Val y)"
  by (cases m) auto

lemma bind_outcome_eq_Panic [outcome_simps]:
  "bind_outcome m f = Panic \<longleftrightarrow> m = Panic \<or> (\<exists>x. m = Val x \<and> f x = Panic)"
  by (cases m) auto

section \<open>Machine integers\<close>

abbreviation usize_limit :: nat where
  "usize_limit \<equiv> 2 ^ 64"

text \<open>\<open>a + b\<close> on \<open>usize\<close> or \<open>u64\<close> with overflow checks on.\<close>

definition usize_add :: "nat \<Rightarrow> nat \<Rightarrow> nat outcome" where
  "usize_add a b = (if a + b < usize_limit then Val (a + b) else Panic)"

text \<open>\<open>checked_add\<close> and \<open>checked_mul\<close> on \<open>usize\<close>.\<close>

definition checked_add :: "nat \<Rightarrow> nat \<Rightarrow> nat option" where
  "checked_add a b = (if a + b < usize_limit then Some (a + b) else None)"

definition checked_mul :: "nat \<Rightarrow> nat \<Rightarrow> nat option" where
  "checked_mul a b = (if a * b < usize_limit then Some (a * b) else None)"

definition i32_max :: int where
  "i32_max = 2147483647"

definition i32_min :: int where
  "i32_min = - 2147483648"

text \<open>A result of \<open>i32\<close> arithmetic with overflow checks on.\<close>

definition i32_checked :: "int \<Rightarrow> int outcome" where
  "i32_checked x = (if i32_min \<le> x \<and> x \<le> i32_max then Val x else Panic)"

lemma usize_add_Val [outcome_simps]: "usize_add a b = Val c \<longleftrightarrow> c = a + b \<and> a + b < usize_limit"
  by (auto simp: usize_add_def)

lemma i32_checked_Val [outcome_simps]:
  "i32_checked x = Val y \<longleftrightarrow> y = x \<and> i32_min \<le> x \<and> x \<le> i32_max"
  by (auto simp: i32_checked_def)

lemma i32_checked_Panic [outcome_simps]:
  "i32_checked x = Panic \<longleftrightarrow> x < i32_min \<or> i32_max < x"
  by (auto simp: i32_checked_def)

section \<open>Bytes\<close>

type_synonym byte = char
type_synonym bytes = string

definition byte_val :: "char \<Rightarrow> nat" where
  "byte_val c = of_char c"

definition is_ascii_digit :: "char \<Rightarrow> bool" where
  "is_ascii_digit c \<longleftrightarrow> 48 \<le> byte_val c \<and> byte_val c \<le> 57"

definition is_ascii_uppercase :: "char \<Rightarrow> bool" where
  "is_ascii_uppercase c \<longleftrightarrow> 65 \<le> byte_val c \<and> byte_val c \<le> 90"

definition is_ascii_lowercase :: "char \<Rightarrow> bool" where
  "is_ascii_lowercase c \<longleftrightarrow> 97 \<le> byte_val c \<and> byte_val c \<le> 122"

definition is_ascii_alphabetic :: "char \<Rightarrow> bool" where
  "is_ascii_alphabetic c \<longleftrightarrow> is_ascii_uppercase c \<or> is_ascii_lowercase c"

definition is_ascii_alphanumeric :: "char \<Rightarrow> bool" where
  "is_ascii_alphanumeric c \<longleftrightarrow> is_ascii_alphabetic c \<or> is_ascii_digit c"

definition is_ascii_hexdigit :: "char \<Rightarrow> bool" where
  "is_ascii_hexdigit c \<longleftrightarrow> is_ascii_digit c \<or> (65 \<le> byte_val c \<and> byte_val c \<le> 70) \<or>
     (97 \<le> byte_val c \<and> byte_val c \<le> 102)"

definition is_ascii_graphic :: "char \<Rightarrow> bool" where
  "is_ascii_graphic c \<longleftrightarrow> 33 \<le> byte_val c \<and> byte_val c \<le> 126"

text \<open>\<open>u8::is_ascii_whitespace\<close>: space, tab, line feed, form feed, carriage return (no
  vertical tab).\<close>

definition is_ascii_whitespace :: "char \<Rightarrow> bool" where
  "is_ascii_whitespace c \<longleftrightarrow> byte_val c \<in> {32, 9, 10, 12, 13}"

definition ascii_lower :: "char \<Rightarrow> char" where
  "ascii_lower c = (if is_ascii_uppercase c then char_of (byte_val c + 32) else c)"

definition to_ascii_lowercase :: "string \<Rightarrow> string" where
  "to_ascii_lowercase s = map ascii_lower s"

definition eq_ignore_ascii_case :: "string \<Rightarrow> string \<Rightarrow> bool" where
  "eq_ignore_ascii_case s t \<longleftrightarrow> to_ascii_lowercase s = to_ascii_lowercase t"

definition CR :: char where "CR = CHR 0x0D"
definition LF :: char where "LF = CHR 0x0A"
definition NUL :: char where "NUL = CHR 0x00"

definition CRLF :: string where "CRLF = [CR, LF]"

lemmas ascii_class_defs =
  is_ascii_digit_def is_ascii_uppercase_def is_ascii_lowercase_def is_ascii_alphabetic_def
  is_ascii_alphanumeric_def is_ascii_hexdigit_def is_ascii_graphic_def is_ascii_whitespace_def

section \<open>String operations of the standard library\<close>

text \<open>\<open>str::strip_prefix\<close> and \<open>strip_suffix\<close>.\<close>

fun strip_prefix :: "string \<Rightarrow> string \<Rightarrow> string option" where
  "strip_prefix [] s = Some s"
| "strip_prefix (p # ps) [] = None"
| "strip_prefix (p # ps) (c # cs) = (if p = c then strip_prefix ps cs else None)"

definition strip_suffix :: "string \<Rightarrow> string \<Rightarrow> string option" where
  "strip_suffix p s = map_option rev (strip_prefix (rev p) (rev s))"

definition starts_with :: "string \<Rightarrow> string \<Rightarrow> bool" where
  "starts_with p s \<longleftrightarrow> strip_prefix p s \<noteq> None"

definition ends_with :: "string \<Rightarrow> string \<Rightarrow> bool" where
  "ends_with p s \<longleftrightarrow> strip_suffix p s \<noteq> None"

text \<open>The offset of the first byte that satisfies a test (\<open>iter().position\<close>, \<open>find(char)\<close>) and
  of the first occurrence of a pattern (\<open>find(&str)\<close>, \<open>windows(n).position\<close>).\<close>

fun position :: "('a \<Rightarrow> bool) \<Rightarrow> 'a list \<Rightarrow> nat option" where
  "position P [] = None"
| "position P (x # xs) = (if P x then Some 0 else map_option Suc (position P xs))"

definition find_char :: "char \<Rightarrow> string \<Rightarrow> nat option" where
  "find_char d s = position (\<lambda>c. c = d) s"

fun find_sub :: "string \<Rightarrow> string \<Rightarrow> nat option" where
  "find_sub p [] = (if p = [] then Some 0 else None)"
| "find_sub p (c # cs) = (if starts_with p (c # cs) then Some 0 else map_option Suc (find_sub p cs))"

definition contains_sub :: "string \<Rightarrow> string \<Rightarrow> bool" where
  "contains_sub p s \<longleftrightarrow> find_sub p s \<noteq> None"

text \<open>\<open>split(char)\<close>, which always yields at least one piece, and \<open>split_once(char)\<close>.\<close>

fun split_on :: "char \<Rightarrow> string \<Rightarrow> string list" where
  "split_on d [] = [[]]"
| "split_on d (c # cs) =
     (if c = d then [] # split_on d cs
      else (case split_on d cs of [] \<Rightarrow> [[c]] | p # ps \<Rightarrow> (c # p) # ps))"

fun split_once :: "char \<Rightarrow> string \<Rightarrow> (string \<times> string) option" where
  "split_once d [] = None"
| "split_once d (c # cs) =
     (if c = d then Some ([], cs)
      else map_option (\<lambda>(a, b). (c # a, b)) (split_once d cs))"

text \<open>
  \<open>str::trim\<close> removes Unicode \<open>White_Space\<close>. On UTF-8 bytes that is the encodings below: the
  six ASCII ones, U+0085, U+00A0, U+1680, U+2000 to U+200A, U+2028, U+2029, U+202F, U+205F and
  U+3000. UTF-8 is self-synchronising, so removing an encoding from either end of a valid
  string removes a whole character.
\<close>

definition ws_encodings :: "string list" where
  "ws_encodings =
     [[CHR 0x20], [CHR 0x09], [CHR 0x0A], [CHR 0x0B], [CHR 0x0C], [CHR 0x0D],
      [CHR 0xC2, CHR 0x85], [CHR 0xC2, CHR 0xA0], [CHR 0xE1, CHR 0x9A, CHR 0x80],
      [CHR 0xE2, CHR 0x80, CHR 0x80], [CHR 0xE2, CHR 0x80, CHR 0x81],
      [CHR 0xE2, CHR 0x80, CHR 0x82], [CHR 0xE2, CHR 0x80, CHR 0x83],
      [CHR 0xE2, CHR 0x80, CHR 0x84], [CHR 0xE2, CHR 0x80, CHR 0x85],
      [CHR 0xE2, CHR 0x80, CHR 0x86], [CHR 0xE2, CHR 0x80, CHR 0x87],
      [CHR 0xE2, CHR 0x80, CHR 0x88], [CHR 0xE2, CHR 0x80, CHR 0x89],
      [CHR 0xE2, CHR 0x80, CHR 0x8A], [CHR 0xE2, CHR 0x80, CHR 0xA8],
      [CHR 0xE2, CHR 0x80, CHR 0xA9], [CHR 0xE2, CHR 0x80, CHR 0xAF],
      [CHR 0xE2, CHR 0x81, CHR 0x9F], [CHR 0xE3, CHR 0x80, CHR 0x80]]"

fun strip_first :: "string list \<Rightarrow> string \<Rightarrow> string option" where
  "strip_first [] s = None"
| "strip_first (w # ws) s =
     (case strip_prefix w s of None \<Rightarrow> strip_first ws s | Some r \<Rightarrow> Some r)"

lemma strip_prefix_Some: "strip_prefix p s = Some r \<longleftrightarrow> s = p @ r"
  by (induction p s rule: strip_prefix.induct) auto

lemma strip_prefix_append [simp, str_simps]: "strip_prefix p (p @ r) = Some r"
  by (simp add: strip_prefix_Some)

lemma strip_first_Some: "strip_first ws s = Some r \<Longrightarrow> \<exists>w \<in> set ws. s = w @ r"
  by (induction ws) (auto simp: strip_prefix_Some split: option.splits)

function trim_with :: "string list \<Rightarrow> string \<Rightarrow> string" where
  "trim_with ws s =
     (case strip_first ws s of
        None \<Rightarrow> s
      | Some r \<Rightarrow> if length r < length s then trim_with ws r else s)"
  by pat_completeness auto
termination
  by (relation "measure (\<lambda>(ws, s). length s)") auto

declare trim_with.simps [simp del]

definition trim_start :: "string \<Rightarrow> string" where
  "trim_start s = trim_with ws_encodings s"

definition trim_end :: "string \<Rightarrow> string" where
  "trim_end s = rev (trim_with (map rev ws_encodings) (rev s))"

definition trim :: "string \<Rightarrow> string" where
  "trim s = trim_end (trim_start s)"

text \<open>\<open>str::from_utf8\<close> succeeds exactly on these byte strings (RFC 3629, table 3-7 of Unicode).\<close>

definition utf8_cont :: "char \<Rightarrow> bool" where
  "utf8_cont c \<longleftrightarrow> 128 \<le> byte_val c \<and> byte_val c \<le> 191"

function valid_utf8 :: "bytes \<Rightarrow> bool" where
  "valid_utf8 s =
     (case s of
        [] \<Rightarrow> True
      | a # r \<Rightarrow>
          (let v = byte_val a in
           if v < 128 then valid_utf8 r
           else if 194 \<le> v \<and> v \<le> 223 then
             (case r of b # r1 \<Rightarrow> utf8_cont b \<and> valid_utf8 r1 | _ \<Rightarrow> False)
           else if 224 \<le> v \<and> v \<le> 239 then
             (case r of
                b # c # r2 \<Rightarrow>
                  utf8_cont b \<and> utf8_cont c \<and> (v = 224 \<longrightarrow> 160 \<le> byte_val b) \<and>
                  (v = 237 \<longrightarrow> byte_val b \<le> 159) \<and> valid_utf8 r2
              | _ \<Rightarrow> False)
           else if 240 \<le> v \<and> v \<le> 244 then
             (case r of
                b # c # d # r3 \<Rightarrow>
                  utf8_cont b \<and> utf8_cont c \<and> utf8_cont d \<and> (v = 240 \<longrightarrow> 144 \<le> byte_val b) \<and>
                  (v = 244 \<longrightarrow> byte_val b \<le> 143) \<and> valid_utf8 r3
              | _ \<Rightarrow> False)
           else False))"
  by pat_completeness auto
termination
  by (relation "measure length") auto

declare valid_utf8.simps [simp del]

text \<open>\<open>String::from_utf8_lossy\<close>: the valid characters, and U+FFFD for every maximal part of a
  sequence that breaks off. \<open>utf8_chunk\<close> says whether the bytes start with a character and how many
  bytes belong to it or to the part that is replaced.\<close>

definition byte_at :: "bytes \<Rightarrow> nat \<Rightarrow> nat" where
  "byte_at s i = (if i < length s then byte_val (s ! i) else 0)"

definition utf8_chunk :: "bytes \<Rightarrow> bool \<times> nat" where
  "utf8_chunk s =
     (let b = byte_at s 0; n1 = byte_at s 1; cont = (\<lambda>i. 128 \<le> byte_at s i \<and> byte_at s i \<le> 191) in
      if b < 128 then (True, 1)
      else if 194 \<le> b \<and> b \<le> 223 then (if cont 1 then (True, 2) else (False, 1))
      else if 224 \<le> b \<and> b \<le> 239 then
        (if cont 1 \<and> (b = 224 \<longrightarrow> 160 \<le> n1) \<and> (b = 237 \<longrightarrow> n1 \<le> 159)
         then (if cont 2 then (True, 3) else (False, 2)) else (False, 1))
      else if 240 \<le> b \<and> b \<le> 244 then
        (if cont 1 \<and> (b = 240 \<longrightarrow> 144 \<le> n1) \<and> (b = 244 \<longrightarrow> n1 \<le> 143)
         then (if cont 2 then (if cont 3 then (True, 4) else (False, 3)) else (False, 2)) else (False, 1))
      else (False, 1))"

lemma utf8_chunk_pos: "0 < snd (utf8_chunk s)"
  by (simp add: utf8_chunk_def Let_def)

function from_utf8_lossy :: "bytes \<Rightarrow> string" where
  "from_utf8_lossy s =
     (if s = [] then []
      else (if fst (utf8_chunk s) then take (snd (utf8_chunk s)) s else [CHR 0xEF, CHR 0xBF, CHR 0xBD]) @
           from_utf8_lossy (drop (snd (utf8_chunk s)) s))"
  by pat_completeness auto
termination
  by (relation "measure length") (auto simp: utf8_chunk_pos)

declare from_utf8_lossy.simps [simp del]

section \<open>Numbers as text\<close>

definition digit_val :: "char \<Rightarrow> nat" where
  "digit_val c = byte_val c - 48"

definition digits_val :: "nat \<Rightarrow> string \<Rightarrow> nat" where
  "digits_val n s = foldl (\<lambda>n c. n * 10 + digit_val c) n s"

text \<open>\<open>str::parse\<close> for an unsigned type of \<open>w\<close> bits: an optional \<open>+\<close>, then one or more digits,
  and an error when the value does not fit.\<close>

definition parse_uint :: "nat \<Rightarrow> string \<Rightarrow> nat option" where
  "parse_uint w s =
     (let ds = (case strip_prefix ''+'' s of Some r \<Rightarrow> r | None \<Rightarrow> s)
      in if ds = [] \<or> \<not> list_all is_ascii_digit ds then None
         else if digits_val 0 ds < 2 ^ w then Some (digits_val 0 ds) else None)"

text \<open>\<open>join\<close> with a separator, and \<open>str::replace\<close>.\<close>

definition join_with :: "string \<Rightarrow> string list \<Rightarrow> string" where
  "join_with sep xs = (case xs of [] \<Rightarrow> [] | x # r \<Rightarrow> x @ concat (map (\<lambda>y. sep @ y) r))"

function replace_all :: "string \<Rightarrow> string \<Rightarrow> string \<Rightarrow> string" where
  "replace_all pat rep s = (if s = [] \<or> pat = [] then s
     else case strip_prefix pat s of
       Some r \<Rightarrow> rep @ replace_all pat rep r
     | None \<Rightarrow> hd s # replace_all pat rep (tl s))"
  by pat_completeness auto
termination
  by (relation "measure (\<lambda>(_, _, s). length s)") (auto simp: strip_prefix_Some)

declare replace_all.simps [simp del]

definition digit_char :: "nat \<Rightarrow> char" where
  "digit_char n = char_of (48 + n)"

fun show_nat :: "nat \<Rightarrow> string" where
  "show_nat n = (if n < 10 then [digit_char n] else show_nat (n div 10) @ [digit_char (n mod 10)])"

declare show_nat.simps [simp del]

section \<open>Lemmas on bytes and case\<close>

lemma byte_val_less [simp]: "byte_val c < 256"
  by (simp add: byte_val_def)

lemma byte_val_inject [simp]: "byte_val a = byte_val b \<longleftrightarrow> a = b"
  by (simp add: byte_val_def)

lemma byte_val_char_of [simp]: "n < 256 \<Longrightarrow> byte_val (char_of n) = n"
  by (simp add: byte_val_def)

lemma ascii_lower_idem [simp]: "ascii_lower (ascii_lower c) = ascii_lower c"
  by (simp add: ascii_lower_def is_ascii_uppercase_def)

lemma to_ascii_lowercase_idem [simp]: "to_ascii_lowercase (to_ascii_lowercase s) = to_ascii_lowercase s"
  by (simp add: to_ascii_lowercase_def)

lemma length_to_ascii_lowercase [simp]: "length (to_ascii_lowercase s) = length s"
  by (simp add: to_ascii_lowercase_def)

lemma eq_ignore_ascii_case_refl [simp, intro]: "eq_ignore_ascii_case s s"
  by (simp add: eq_ignore_ascii_case_def)

lemma eq_ignore_ascii_case_sym: "eq_ignore_ascii_case s t \<longleftrightarrow> eq_ignore_ascii_case t s"
  by (auto simp: eq_ignore_ascii_case_def)

lemma eq_ignore_ascii_case_trans [trans]:
  "eq_ignore_ascii_case s t \<Longrightarrow> eq_ignore_ascii_case t u \<Longrightarrow> eq_ignore_ascii_case s u"
  by (simp add: eq_ignore_ascii_case_def)

lemma eq_ignore_ascii_case_cong:
  "eq_ignore_ascii_case s t \<Longrightarrow> eq_ignore_ascii_case s u \<longleftrightarrow> eq_ignore_ascii_case t u"
  by (auto simp: eq_ignore_ascii_case_def)

lemma eq_ignore_ascii_case_lower [simp]:
  "eq_ignore_ascii_case (to_ascii_lowercase s) t \<longleftrightarrow> eq_ignore_ascii_case s t"
  by (simp add: eq_ignore_ascii_case_def)

section \<open>Lemmas on searching and splitting\<close>

lemma position_None [simp]: "position P xs = None \<longleftrightarrow> (\<forall>x \<in> set xs. \<not> P x)"
  by (induction xs) auto

lemma position_SomeD:
  "position P xs = Some n \<Longrightarrow> n < length xs \<and> P (xs ! n) \<and> (\<forall>x \<in> set (take n xs). \<not> P x)"
proof (induction xs arbitrary: n)
  case Nil
  then show ?case by simp
next
  case (Cons x xs)
  show ?case
  proof (cases "P x")
    case True
    with Cons.prems show ?thesis by simp
  next
    case False
    with Cons.prems obtain m where "position P xs = Some m" "n = Suc m" by auto
    with Cons.IH [of m] False show ?thesis by simp
  qed
qed

lemma starts_with_iff: "starts_with p s \<longleftrightarrow> (\<exists>r. s = p @ r)"
  by (auto simp: starts_with_def strip_prefix_Some)

lemma starts_with_prefix: "starts_with p s \<longleftrightarrow> prefix p s"
  by (auto simp: starts_with_iff prefix_def)

lemma starts_with_take: "starts_with p s \<longleftrightarrow> take (length p) s = p"
  by (auto simp: starts_with_iff) (metis append_take_drop_id)

lemma starts_with_length: "starts_with p s \<Longrightarrow> length p \<le> length s"
  by (auto simp: starts_with_iff)

lemma starts_with_append: "starts_with p s \<Longrightarrow> starts_with p (s @ t)"
  by (auto simp: starts_with_iff)

lemma strip_suffix_Some: "strip_suffix p s = Some r \<longleftrightarrow> s = r @ p"
  by (auto simp: strip_suffix_def strip_prefix_Some) (metis rev_append rev_rev_ident)

lemma ends_with_iff: "ends_with p s \<longleftrightarrow> (\<exists>r. s = r @ p)"
  by (auto simp: ends_with_def strip_suffix_Some)

lemma find_sub_SomeD:
  "find_sub p s = Some n \<Longrightarrow> n + length p \<le> length s \<and> take (length p) (drop n s) = p"
proof (induction p s arbitrary: n rule: find_sub.induct)
  case (1 p)
  then show ?case by (auto split: if_splits)
next
  case (2 p c cs)
  show ?case
  proof (cases "starts_with p (c # cs)")
    case True
    with "2.prems" have "n = 0" by simp
    with True starts_with_length [OF True] show ?thesis by (simp add: starts_with_take)
  next
    case False
    with "2.prems" obtain m where "find_sub p cs = Some m" "n = Suc m" by auto
    with "2.IH" [OF False, of m] show ?thesis by simp
  qed
qed

lemma find_sub_first:
  "find_sub p s = Some n \<Longrightarrow> m < n \<Longrightarrow> take (length p) (drop m s) \<noteq> p"
proof (induction p s arbitrary: n m rule: find_sub.induct)
  case (1 p)
  then show ?case by (auto split: if_splits)
next
  case (2 p c cs)
  then have ns: "\<not> starts_with p (c # cs)" by (auto split: if_splits)
  with "2.prems" obtain k where k: "find_sub p cs = Some k" "n = Suc k" by auto
  show ?case
  proof (cases m)
    case 0
    with ns show ?thesis by (simp add: starts_with_take)
  next
    case (Suc j)
    with "2.IH" [OF ns k(1), of j] "2.prems"(2) k(2) show ?thesis by simp
  qed
qed

text \<open>Bytes that arrive later do not move an occurrence already found.\<close>

lemma find_sub_append:
  "find_sub p s = Some n \<Longrightarrow> find_sub p (s @ t) = Some n"
proof (induction p s arbitrary: n rule: find_sub.induct)
  case (1 p)
  then have p: "p = []" and n: "n = 0" by (auto split: if_splits)
  show ?case by (cases t) (simp_all add: p n starts_with_iff)
next
  case (2 p c cs)
  show ?case
  proof (cases "starts_with p (c # cs)")
    case True
    then have "starts_with p (c # cs @ t)" using starts_with_append [OF True, of t] by simp
    with True "2.prems" show ?thesis by simp
  next
    case False
    with "2.prems" obtain m where m: "find_sub p cs = Some m" "n = Suc m" by auto
    have "length p \<le> length cs" using find_sub_SomeD [OF m(1)] by simp
    then have "\<not> starts_with p (c # cs @ t)"
      using False by (cases p) (auto simp: starts_with_take)
    with "2.IH" [OF False m(1)] m(2) show ?thesis by simp
  qed
qed

lemma split_on_nonempty [simp]: "split_on d s \<noteq> []"
  by (cases s) (auto split: list.splits)

lemma split_on_no_delim: "d \<notin> set s \<Longrightarrow> split_on d s = [s]"
  by (induction s) auto

lemma split_on_pieces: "p \<in> set (split_on d s) \<Longrightarrow> d \<notin> set p"
proof (induction s arbitrary: p)
  case Nil
  then show ?case by simp
next
  case (Cons c cs)
  then show ?case by (cases "split_on d cs") (auto split: if_splits)
qed

lemma split_on_append: "d \<notin> set s \<Longrightarrow> split_on d (s @ d # t) = s # split_on d t"
  by (induction s) auto

lemma split_once_Some: "split_once d s = Some (a, b) \<longleftrightarrow> s = a @ d # b \<and> d \<notin> set a"
proof (induction s arbitrary: a b)
  case Nil
  then show ?case by simp
next
  case (Cons c cs)
  show ?case
  proof (cases "c = d")
    case True
    then show ?thesis by (cases a) auto
  next
    case False
    then show ?thesis using Cons.IH by (cases a) auto
  qed
qed

lemma split_once_None: "split_once d s = None \<longleftrightarrow> d \<notin> set s"
  by (induction s) auto

section \<open>Lemmas on trimming\<close>

lemma trim_with_stop: "strip_first ws s = None \<Longrightarrow> trim_with ws s = s"
  by (subst trim_with.simps) simp

lemma strip_first_None: "strip_first ws s = None \<longleftrightarrow> (\<forall>w \<in> set ws. \<not> prefix w s)"
  by (induction ws) (auto simp: strip_prefix_Some prefix_def split: option.splits)

lemma trim_with_Nil: "[] \<notin> set ws \<Longrightarrow> trim_with ws [] = []"
  by (rule trim_with_stop) (auto simp: strip_first_None)

lemma trim_Nil [simp]: "trim [] = []"
  by (simp add: trim_def trim_start_def trim_end_def trim_with_Nil ws_encodings_def)

lemma suffix_trim_with: "suffix (trim_with ws s) s"
proof (induction ws s rule: trim_with.induct)
  case (1 ws s)
  show ?case
  proof (cases "strip_first ws s")
    case None
    then show ?thesis by (simp add: trim_with_stop)
  next
    case (Some r)
    then obtain w where s: "s = w @ r" using strip_first_Some by blast
    show ?thesis
    proof (cases "length r < length s")
      case True
      then have "trim_with ws s = trim_with ws r" using Some by (subst trim_with.simps) simp
      then show ?thesis using "1.IH" [OF Some True] s suffix_appendI by metis
    next
      case False
      then have "trim_with ws s = s" using Some by (subst trim_with.simps) simp
      then show ?thesis by simp
    qed
  qed
qed

text \<open>A string with no whitespace encoding at either end is its own trimming; a string that
  starts and ends in a graphic ASCII byte is one.\<close>

lemma ws_encodings_heads:
  "w \<in> set ws_encodings \<Longrightarrow> w \<noteq> [] \<and> (\<not> is_ascii_graphic (hd w)) \<and> (\<not> is_ascii_graphic (last w))"
proof -
  have "\<forall>w \<in> set ws_encodings. w \<noteq> [] \<and> (\<not> is_ascii_graphic (hd w)) \<and> (\<not> is_ascii_graphic (last w))"
    by (simp add: ws_encodings_def is_ascii_graphic_def byte_val_def)
  then show "w \<in> set ws_encodings \<Longrightarrow> ?thesis" by blast
qed

lemma trim_graphic_ends:
  assumes "s \<noteq> []" "is_ascii_graphic (hd s)" "is_ascii_graphic (last s)"
  shows "trim s = s"
proof -
  have "strip_first ws_encodings s = None"
    using assms(1,2) ws_encodings_heads by (auto simp: strip_first_None prefix_def)
  moreover have "strip_first (map rev ws_encodings) (rev s) = None"
  proof (clarsimp simp: strip_first_None prefix_def)
    fix w r
    assume w: "w \<in> set ws_encodings" and "rev s = rev w @ r"
    then have "s = rev r @ w" by (metis rev_append rev_rev_ident)
    with w assms(3) ws_encodings_heads [OF w] show False by simp
  qed
  ultimately show ?thesis by (simp add: trim_def trim_start_def trim_end_def trim_with_stop)
qed

lemma trim_space: "trim (CHR '' '' # s) = trim s"
proof -
  have "strip_first ws_encodings (CHR '' '' # s) = Some s" by (simp add: ws_encodings_def)
  then have "trim_start (CHR '' '' # s) = trim_start s"
    by (simp add: trim_start_def trim_with.simps [of _ "CHR '' '' # s"])
  then show ?thesis by (simp add: trim_def)
qed

lemma strip_first_trim_with: "[] \<notin> set ws \<Longrightarrow> strip_first ws (trim_with ws s) = None"
proof (induction ws s rule: trim_with.induct)
  case (1 ws s)
  show ?case
  proof (cases "strip_first ws s")
    case None
    then show ?thesis by (simp add: trim_with_stop)
  next
    case (Some r)
    then obtain w where "w \<in> set ws" "s = w @ r" using strip_first_Some by blast
    then have l: "length r < length s" using 1(2) by (cases w) auto
    then have "trim_with ws s = trim_with ws r" using Some by (subst trim_with.simps) simp
    then show ?thesis using "1.IH" [OF Some l] 1(2) by simp
  qed
qed

lemma prefix_trim_end: "prefix (trim_end s) s"
  using suffix_trim_with [of "map rev ws_encodings" "rev s"] by (simp add: trim_end_def suffix_to_prefix)

lemma trim_idem [simp]: "trim (trim s) = trim s"
proof -
  have ne: "[] \<notin> set ws_encodings" using ws_encodings_heads by blast
  have "\<not> prefix w (trim s)" if "w \<in> set ws_encodings" for w
  proof
    assume "prefix w (trim s)"
    then have "prefix w (trim_start s)" using prefix_trim_end prefix_order.trans unfolding trim_def by blast
    with that strip_first_trim_with [OF ne, of s] show False by (simp add: strip_first_None trim_start_def)
  qed
  then have "trim_start (trim s) = trim s" by (simp add: trim_start_def trim_with_stop strip_first_None)
  moreover have "trim_end (trim_end t) = trim_end t" for t
    using strip_first_trim_with [of "map rev ws_encodings" "rev t"] ne by (simp add: trim_end_def trim_with_stop image_iff)
  ultimately show ?thesis by (simp add: trim_def)
qed

lemma set_trim: "set (trim s) \<subseteq> set s"
  using prefix_trim_end [of "trim_start s"] suffix_trim_with [of ws_encodings s]
  by (auto simp: trim_def trim_start_def dest: set_mono_prefix set_mono_suffix)

section \<open>Lemmas on decimal numbers\<close>

lemma digit_val_digit_char [simp]: "n < 10 \<Longrightarrow> digit_val (digit_char n) = n"
  by (simp add: digit_val_def digit_char_def)

lemma is_ascii_digit_digit_char [simp]: "n < 10 \<Longrightarrow> is_ascii_digit (digit_char n)"
  by (simp add: is_ascii_digit_def digit_char_def)

lemma digits_val_snoc: "digits_val n (s @ [c]) = digits_val n s * 10 + digit_val c"
  by (simp add: digits_val_def)

lemma show_nat_props:
  "show_nat n \<noteq> [] \<and> list_all is_ascii_digit (show_nat n) \<and> digits_val 0 (show_nat n) = n"
proof (induction n rule: show_nat.induct)
  case (1 n)
  show ?case
  proof (cases "n < 10")
    case True
    then show ?thesis by (subst (1 2 3) show_nat.simps) (simp add: digits_val_def)
  next
    case False
    with "1.IH" show ?thesis by (subst (1 2 3) show_nat.simps) (simp add: digits_val_snoc)
  qed
qed

lemma show_nat_nonempty [simp]: "show_nat n \<noteq> []"
  and show_nat_digits: "list_all is_ascii_digit (show_nat n)"
  and digits_val_show_nat: "digits_val 0 (show_nat n) = n"
  using show_nat_props by auto

lemma parse_uint_show_nat: "n < 2 ^ w \<Longrightarrow> parse_uint w (show_nat n) = Some n"
proof -
  have "strip_prefix ''+'' (show_nat n) = None"
    using show_nat_digits [of n]
    by (cases "show_nat n") (auto simp: is_ascii_digit_def byte_val_def)
  then show "n < 2 ^ w \<Longrightarrow> ?thesis"
    using show_nat_digits [of n] by (simp add: parse_uint_def digits_val_show_nat)
qed

lemma parse_uint_bound: "parse_uint w s = Some n \<Longrightarrow> n < 2 ^ w"
  by (auto simp: parse_uint_def Let_def split: if_splits)

lemma trim_show_nat [simp]: "trim (show_nat n) = show_nat n"
proof (rule trim_graphic_ends)
  have "\<And>c. c \<in> set (show_nat n) \<Longrightarrow> is_ascii_graphic c"
    using show_nat_digits [of n]
    by (auto simp: list_all_iff is_ascii_digit_def is_ascii_graphic_def)
  then show "is_ascii_graphic (hd (show_nat n))" "is_ascii_graphic (last (show_nat n))"
    by simp_all
qed simp

section \<open>Hash maps as association lists with distinct keys\<close>

lemma map_of_filter_distinct:
  "distinct (map fst m) \<Longrightarrow>
   map_of (filter P m) k = (case map_of m k of Some v \<Rightarrow> if P (k, v) then Some v else None | None \<Rightarrow> None)"
proof (induction m)
  case (Cons x m)
  have "fst x \<notin> fst ` set m \<Longrightarrow> map_of (filter P m) (fst x) = None" by (auto simp: map_of_eq_None_iff)
  with Cons show ?case by (cases x) (auto split: option.splits)
qed simp

text \<open>\<open>u32\<close> addition with overflow checks on.\<close>

definition u32_add :: "nat \<Rightarrow> nat \<Rightarrow> nat outcome" where
  "u32_add a b = (if a + b < 2 ^ 32 then Val (a + b) else Panic)"

lemma u32_add_Val [outcome_simps]: "u32_add a b = Val c \<longleftrightarrow> c = a + b \<and> a + b < 2 ^ 32"
  by (auto simp: u32_add_def)

section \<open>Lemmas on association lists\<close>

lemma sum_list_update:
  "sum_list (map f (AList.update k v al)) + (case map_of al k of Some old \<Rightarrow> f (k, old) | None \<Rightarrow> (0::nat)) =
   sum_list (map f al) + f (k, v)"
  by (induction al) auto

lemma sum_list_map_of: "map_of al k = Some v \<Longrightarrow> f (k, v) \<le> (sum_list (map f al) :: nat)"
  by (drule map_of_SomeD) (simp add: member_le_sum_list)

lemma delete_filter: "AList.delete k al = filter (\<lambda>kv. fst kv \<noteq> k) al"
  by (induction al) auto

lemma filter_distinct_key:
  "distinct (map fst al) \<Longrightarrow> map_of al k = Some e \<Longrightarrow> filter (\<lambda>kv. fst kv = k) al = [(k, e)]"
proof (induction al)
  case (Cons x al)
  have "filter (\<lambda>kv. fst kv = k) al = []" if "fst x = k"
    using Cons.prems(1) that by (force simp: filter_empty_conv image_iff)
  with Cons show ?case by (cases x) (auto split: if_splits)
qed simp

end
