(* ===== verification/Io_Model.thy ===== *)
theory Io_Model
  imports M6_Prelude
begin

text \<open>
  The two ends of a byte stream as the code sees them through \<open>std::io::Read\<close> and
  \<open>std::io::Write\<close>.

  \<^item> A reader is the list of what its successive \<open>read\<close> calls find: \<open>RData\<close> (bytes that are
    ready), \<open>RErr\<close> (an error kind). The end of the list, and an empty \<open>RData\<close>, is \<open>Ok(0)\<close>. A call
    with a buffer of \<open>m\<close> bytes takes at most \<open>m\<close> of the ready bytes and leaves the others.
  \<^item> A writer is what has reached the peer and the number of bytes the peer still takes before
    the connection fails with \<open>sk_fail\<close> (\<open>None\<close>: it never fails). \<open>write_all\<close> delivers what fits and
    then reports the error, as a socket that is reset in the middle of a response does.
\<close>

datatype io_error =
  UnexpectedEof | WouldBlock | TimedOut | InvalidData | InvalidInput | BrokenPipe | ConnectionReset
| OtherIo

datatype read_event = RData bytes | RErr io_error

type_synonym reader = "read_event list"

fun read_some :: "nat \<Rightarrow> reader \<Rightarrow> (io_error + bytes) \<times> reader" where
  "read_some m [] = (Inr [], [])"
| "read_some m (RErr e # es) = (Inl e, es)"
| "read_some m (RData b # es) =
     (Inr (take m b), if drop m b = [] then es else RData (drop m b) # es)"

text \<open>The bytes a reader delivers before its end or its first error.\<close>

fun stream_data :: "reader \<Rightarrow> bytes" where
  "stream_data [] = []"
| "stream_data (RErr e # es) = []"
| "stream_data (RData b # es) = (if b = [] then [] else b @ stream_data es)"

text \<open>How it ends: \<open>None\<close> is the end of the stream.\<close>

fun stream_end :: "reader \<Rightarrow> io_error option" where
  "stream_end [] = None"
| "stream_end (RErr e # es) = Some e"
| "stream_end (RData b # es) = (if b = [] then None else stream_end es)"

text \<open>\<open>read_exact\<close> into a buffer of \<open>n\<close> bytes, and \<open>take(limit).read_to_end\<close>.\<close>

definition read_exact :: "nat \<Rightarrow> reader \<Rightarrow> io_error + bytes" where
  "read_exact n es =
     (if n \<le> length (stream_data es) then Inr (take n (stream_data es))
      else (case stream_end es of None \<Rightarrow> Inl UnexpectedEof | Some e \<Rightarrow> Inl e))"

definition read_to_end_limited :: "nat \<Rightarrow> reader \<Rightarrow> io_error + bytes" where
  "read_to_end_limited limit es =
     (if limit \<le> length (stream_data es) then Inr (take limit (stream_data es))
      else (case stream_end es of None \<Rightarrow> Inr (stream_data es) | Some e \<Rightarrow> Inl e))"

fun reader_size :: "reader \<Rightarrow> nat" where
  "reader_size [] = 0"
| "reader_size (RErr e # es) = Suc (reader_size es)"
| "reader_size (RData b # es) = Suc (length b + reader_size es)"

record sink =
  sk_data :: bytes
  sk_room :: "nat option"
  sk_fail :: io_error

definition new_sink :: "nat option \<Rightarrow> sink" where
  "new_sink r = \<lparr>sk_data = [], sk_room = r, sk_fail = OtherIo\<rparr>"

definition write_all :: "sink \<Rightarrow> bytes \<Rightarrow> (io_error + unit) \<times> sink" where
  "write_all s b =
     (case sk_room s of
        None \<Rightarrow> (Inr (), s\<lparr>sk_data := sk_data s @ b\<rparr>)
      | Some r \<Rightarrow>
          if length b \<le> r then (Inr (), s\<lparr>sk_data := sk_data s @ b, sk_room := Some (r - length b)\<rparr>)
          else (Inl (sk_fail s), s\<lparr>sk_data := sk_data s @ take r b, sk_room := Some 0\<rparr>))"

lemma read_some_length: "read_some m es = (Inr b, es') \<Longrightarrow> length b \<le> m"
  by (cases es rule: reader_size.cases) auto

lemma read_some_decreases:
  "read_some m es = (Inr b, es') \<Longrightarrow> b \<noteq> [] \<Longrightarrow> reader_size es' < reader_size es"
  by (cases es rule: reader_size.cases) (auto split: if_splits)

lemma read_some_data:
  "0 < m \<Longrightarrow> read_some m es = (Inr b, es') \<Longrightarrow> b \<noteq> [] \<Longrightarrow> stream_data es = b @ stream_data es'"
proof (cases es rule: reader_size.cases)
  case (3 c ds)
  assume "0 < m" "read_some m es = (Inr b, es')" "b \<noteq> []"
  with 3 show ?thesis by (auto split: if_splits)
qed auto

lemma read_some_end: "0 < m \<Longrightarrow> read_some m es = (Inr [], es') \<Longrightarrow> stream_data es = []"
  by (cases es rule: reader_size.cases) auto

lemma read_some_error: "read_some m es = (Inl e, es') \<Longrightarrow> stream_data es = []"
  by (cases es rule: reader_size.cases) auto

lemma write_all_None: "sk_room s = None \<Longrightarrow> write_all s b = (Inr (), s\<lparr>sk_data := sk_data s @ b\<rparr>)"
  by (simp add: write_all_def)

text \<open>A write that succeeds delivered all the bytes, one that fails a proper prefix.\<close>

lemma write_all_Inr: "write_all s b = (Inr u, s') \<Longrightarrow> sk_data s' = sk_data s @ b"
  by (auto simp: write_all_def split: option.splits if_splits)

lemma write_all_prefix: "write_all s b = (r, s') \<Longrightarrow> \<exists>p. prefix p b \<and> sk_data s' = sk_data s @ p"
  by (auto simp: write_all_def take_is_prefix split: option.splits if_splits)

lemma write_all_room: "sk_room s = None \<Longrightarrow> write_all s b = (r, s') \<Longrightarrow> sk_room s' = None"
  by (auto simp: write_all_def)

lemma write_all_append:
  "write_all s (a @ b) =
     (case write_all s a of (Inl e, s') \<Rightarrow> (Inl e, s') | (Inr _, s') \<Rightarrow> write_all s' b)"
  by (auto simp: write_all_def split: option.split)

end
