(* ===== verification/H1_Chunked.thy ===== *)
theory H1_Chunked
  imports M6_Prelude
begin

text \<open>
  The chunked transfer-coding decoder of the HTTP/1.1 ingress parser,
  \<open>decode_chunked\<close> of \<open>src/m6-core/src/h1.rs\<close>. The buffer stays whole and the index \<open>i\<close>
  moves through it as in the source; the two loops are recursive functions that end because
  every step moves \<open>i\<close> forward. The sum \<open>out.len() + size\<close> is computed on \<open>usize\<close> with
  overflow checks, so it may panic.
\<close>

definition MAX_CHUNKED_BODY :: nat where
  "MAX_CHUNKED_BODY = 16 * 1024 * 1024"

datatype chunked = Done bytes | Incomplete | Bad

definition find_crlf :: "bytes \<Rightarrow> nat option" where
  "find_crlf buf = find_sub CRLF buf"

definition hex_digit_value :: "char \<Rightarrow> nat option" where
  "hex_digit_value c =
     (let v = byte_val c in
      if 48 \<le> v \<and> v \<le> 57 then Some (v - 48)
      else if 97 \<le> v \<and> v \<le> 102 then Some (v - 97 + 10)
      else if 65 \<le> v \<and> v \<le> 70 then Some (v - 65 + 10)
      else None)"

text \<open>The \<open>for &c in size_str\<close> loop; \<open>None\<close> is the \<open>return Chunked::Bad\<close>.\<close>

fun chunk_size :: "bytes \<Rightarrow> nat \<Rightarrow> nat option" where
  "chunk_size [] sz = Some sz"
| "chunk_size (c # cs) sz =
     (case hex_digit_value c of
        None \<Rightarrow> None
      | Some d \<Rightarrow>
          (case Option.bind (checked_mul sz 16) (\<lambda>v. checked_add v d) of
             None \<Rightarrow> None
           | Some v \<Rightarrow> chunk_size cs v))"

lemma find_crlf_bound: "find_crlf (drop i buf) = Some eol \<Longrightarrow> i + eol + 2 \<le> length buf"
  using find_sub_SomeD [of CRLF "drop i buf" eol] by (simp add: find_crlf_def CRLF_def) linarith

text \<open>The trailer section after the last chunk: field lines up to an empty line.\<close>

function trailer_loop :: "bytes \<Rightarrow> nat \<Rightarrow> bytes \<Rightarrow> chunked" where
  "trailer_loop buf i out =
     (case find_crlf (drop i buf) of
        None \<Rightarrow> Incomplete
      | Some eol \<Rightarrow> if eol = 0 then Done out else trailer_loop buf (i + (eol + 2)) out)"
  by pat_completeness auto
termination
  by (relation "measure (\<lambda>(buf, i, out). length buf - i)") (auto dest: find_crlf_bound)

declare trailer_loop.simps [simp del]

text \<open>The chunk-size field of a size line ends at the first \<open>;\<close>.\<close>

definition size_field :: "bytes \<Rightarrow> bytes" where
  "size_field line = (case position (\<lambda>c. c = CHR '';'') line of Some semi \<Rightarrow> take semi line | None \<Rightarrow> line)"

function chunk_loop :: "bytes \<Rightarrow> nat \<Rightarrow> bytes \<Rightarrow> chunked outcome" where
  "chunk_loop buf i out =
     (case find_crlf (drop i buf) of
        None \<Rightarrow> Val Incomplete
      | Some eol \<Rightarrow>
          (let line = take eol (drop i buf); size_str = size_field line in
           if size_str = [] \<or> length size_str > 16 then Val Bad
           else
             (case chunk_size size_str 0 of
                None \<Rightarrow> Val Bad
              | Some sz \<Rightarrow>
                  (let i = i + (eol + 2) in
                   if sz = 0 then Val (trailer_loop buf i out)
                   else
                     (case usize_add (length out) sz of
                        Panic \<Rightarrow> Panic
                      | Val held \<Rightarrow>
                          if held > MAX_CHUNKED_BODY then Val Bad
                          else if length buf < i + sz + 2 then Val Incomplete
                          else
                            (let out = out @ take sz (drop i buf); i = i + sz in
                             if take 2 (drop i buf) \<noteq> CRLF then Val Bad
                             else chunk_loop buf (i + 2) out))))))"
  by pat_completeness auto
termination
  by (relation "measure (\<lambda>(buf, i, out). length buf - i)") (auto dest: find_crlf_bound)

declare chunk_loop.simps [simp del]

definition decode_chunked :: "bytes \<Rightarrow> chunked outcome" where
  "decode_chunked buf = chunk_loop buf 0 []"

section \<open>A reference encoder\<close>

text \<open>The chunked coding as RFC 9112 7.1 writes it: each chunk is its length in hexadecimal,
  the data and a line end, and a zero chunk with an empty trailer section ends the body.\<close>

definition hex_char :: "nat \<Rightarrow> char" where
  "hex_char d = (if d < 10 then char_of (48 + d) else char_of (87 + d))"

fun show_hex :: "nat \<Rightarrow> bytes" where
  "show_hex n = (if n < 16 then [hex_char n] else show_hex (n div 16) @ [hex_char (n mod 16)])"

declare show_hex.simps [simp del]

definition encode_chunk :: "bytes \<Rightarrow> bytes" where
  "encode_chunk c = show_hex (length c) @ CRLF @ c @ CRLF"

definition encode_chunked :: "bytes list \<Rightarrow> bytes" where
  "encode_chunked cs = concat (map encode_chunk cs) @ ''0'' @ CRLF @ CRLF"

section \<open>Lemmas\<close>

lemma hex_digit_value_hex_char [simp]: "d < 16 \<Longrightarrow> hex_digit_value (hex_char d) = Some d"
  by (auto simp: hex_digit_value_def hex_char_def Let_def)

lemma hex_char_plain: "d < 16 \<Longrightarrow> hex_char d \<noteq> CR \<and> hex_char d \<noteq> CHR '';''"
proof -
  assume d: "d < 16"
  have "byte_val (hex_char d) \<noteq> byte_val CR" "byte_val (hex_char d) \<noteq> byte_val CHR '';''"
    using d by (auto simp: hex_char_def CR_def byte_val_def)
  then show ?thesis by auto
qed

lemma show_hex_plain: "c \<in> set (show_hex n) \<Longrightarrow> c \<noteq> CR \<and> c \<noteq> CHR '';''"
proof (induction n rule: show_hex.induct)
  case (1 n)
  then show ?case
    by (cases "n < 16") (auto simp: show_hex.simps [of n] hex_char_plain)
qed

lemma show_hex_nonempty [simp]: "show_hex n \<noteq> []"
  by (subst show_hex.simps) simp

lemma chunk_size_append:
  "chunk_size (xs @ ys) s = Option.bind (chunk_size xs s) (chunk_size ys)"
  by (induction xs arbitrary: s) (auto split: option.splits)

lemma chunk_size_show_hex: "n < usize_limit \<Longrightarrow> chunk_size (show_hex n) 0 = Some n"
proof (induction n rule: show_hex.induct)
  case (1 n)
  show ?case
  proof (cases "n < 16")
    case True
    then show ?thesis
      by (simp add: show_hex.simps [of n] checked_mul_def checked_add_def)
  next
    case False
    have "chunk_size (show_hex (n div 16)) 0 = Some (n div 16)"
      using "1.IH" [OF False] "1.prems" by simp
    moreover have "n div 16 * 16 + n mod 16 = n" by simp
    ultimately show ?thesis
      using False "1.prems"
      by (simp add: show_hex.simps [of n] chunk_size_append checked_mul_def checked_add_def)
  qed
qed

lemma length_show_hex: "0 < k \<Longrightarrow> n < 16 ^ k \<Longrightarrow> length (show_hex n) \<le> k"
proof (induction k arbitrary: n)
  case 0
  then show ?case by simp
next
  case (Suc k)
  show ?case
  proof (cases "n < 16")
    case True
    then show ?thesis by (simp add: show_hex.simps [of n])
  next
    case False
    then have "0 < k" using Suc.prems by (cases k) auto
    moreover have "n div 16 < 16 ^ k" using Suc.prems by (simp add: less_mult_imp_div_less mult.commute)
    ultimately have "length (show_hex (n div 16)) \<le> k" by (rule Suc.IH)
    with False show ?thesis by (simp add: show_hex.simps [of n])
  qed
qed

lemma find_crlf_plain: "CR \<notin> set s \<Longrightarrow> find_crlf (s @ CRLF @ t) = Some (length s)"
proof (induction s)
  case Nil
  show ?case by (simp add: find_crlf_def CRLF_def starts_with_def)
next
  case (Cons c s)
  then show ?case by (simp add: find_crlf_def CRLF_def starts_with_def)
qed

lemma find_crlf_append: "find_crlf s = Some n \<Longrightarrow> find_crlf (s @ t) = Some n"
  by (simp add: find_crlf_def find_sub_append)

lemma size_field_plain: "CHR '';'' \<notin> set s \<Longrightarrow> size_field s = s"
proof -
  assume "CHR '';'' \<notin> set s"
  then have "position (\<lambda>c. c = CHR '';'') s = None" by auto
  then show ?thesis by (simp add: size_field_def del: position_None)
qed

lemma usize_add_small: "a + b \<le> MAX_CHUNKED_BODY \<Longrightarrow> usize_add a b = Val (a + b)"
  by (simp add: usize_add_def MAX_CHUNKED_BODY_def)

text \<open>One unfolding of the loop, branch by branch. \<open>chunk_head\<close> collects what the size line
  at the index says: where it ends and the size it declares.\<close>

definition chunk_head :: "bytes \<Rightarrow> nat \<Rightarrow> (nat \<times> nat option) option" where
  "chunk_head buf i =
     (case find_crlf (drop i buf) of
        None \<Rightarrow> None
      | Some eol \<Rightarrow>
          (let f = size_field (take eol (drop i buf)) in
           Some (i + (eol + 2), if f = [] \<or> length f > 16 then None else chunk_size f 0)))"

lemma chunk_loop_unfold:
  "chunk_loop buf i out =
     (case chunk_head buf i of
        None \<Rightarrow> Val Incomplete
      | Some (j, None) \<Rightarrow> Val Bad
      | Some (j, Some sz) \<Rightarrow>
          if sz = 0 then Val (trailer_loop buf j out)
          else if usize_limit \<le> length out + sz then Panic
          else if MAX_CHUNKED_BODY < length out + sz then Val Bad
          else if length buf < j + sz + 2 then Val Incomplete
          else if take 2 (drop (j + sz) buf) \<noteq> CRLF then Val Bad
          else chunk_loop buf (j + sz + 2) (out @ take sz (drop j buf)))"
  by (subst chunk_loop.simps)
    (auto simp: chunk_head_def Let_def usize_add_def not_less split: option.split)

lemma chunk_head_bound: "chunk_head buf i = Some (j, r) \<Longrightarrow> i < j \<and> j \<le> length buf"
  by (auto simp: chunk_head_def Let_def dest: find_crlf_bound split: option.splits)

lemma chunk_head_append:
  "i \<le> length buf \<Longrightarrow> chunk_head buf i = Some h \<Longrightarrow> chunk_head (buf @ ext) i = Some h"
proof -
  assume i: "i \<le> length buf" and h: "chunk_head buf i = Some h"
  then obtain eol where eol: "find_crlf (drop i buf) = Some eol"
    by (auto simp: chunk_head_def split: option.splits)
  then have f: "find_crlf (drop i (buf @ ext)) = Some eol" using i find_crlf_append by simp
  have t: "take eol (drop i (buf @ ext)) = take eol (drop i buf)"
    using find_crlf_bound [OF eol] i by simp
  show ?thesis using h by (simp only: chunk_head_def f t eol option.case)
qed

lemma chunk_head_plain:
  assumes "drop i buf = f @ CRLF @ t" "f \<noteq> []" "length f \<le> 16" "CR \<notin> set f" "CHR '';'' \<notin> set f"
  shows "chunk_head buf i = Some (i + (length f + 2), chunk_size f 0)"
  using assms by (simp add: chunk_head_def find_crlf_plain size_field_plain)

text \<open>One well-formed chunk at the index moves the index past it and appends its data.\<close>

lemma chunk_loop_chunk:
  assumes c: "c \<noteq> []" and fits: "length out + length c \<le> MAX_CHUNKED_BODY"
  shows "chunk_loop (pre @ encode_chunk c @ rest) (length pre) out =
         chunk_loop (pre @ encode_chunk c @ rest) (length pre + length (encode_chunk c)) (out @ c)"
proof -
  define h where "h = show_hex (length c)"
  define buf where "buf = pre @ encode_chunk c @ rest"
  have buf: "buf = pre @ h @ CRLF @ c @ CRLF @ rest"
    by (simp add: buf_def h_def encode_chunk_def)
  have no: "CR \<notin> set h" "CHR '';'' \<notin> set h" using show_hex_plain by (auto simp: h_def)
  have small: "length c < 16 ^ 16" using fits by (simp add: MAX_CHUNKED_BODY_def)
  have head: "chunk_head buf (length pre) = Some (length pre + (length h + 2), chunk_size h 0)"
    using no length_show_hex [OF _ small]
    by (intro chunk_head_plain [where t = "c @ CRLF @ rest"]) (auto simp: buf h_def)
  have size: "chunk_size h 0 = Some (length c)"
    using fits by (auto simp: h_def MAX_CHUNKED_BODY_def intro!: chunk_size_show_hex)
  have lim: "\<not> usize_limit \<le> length out + length c" "\<not> MAX_CHUNKED_BODY < length out + length c"
    using fits by (simp_all add: MAX_CHUNKED_BODY_def)
  have len: "\<not> length buf < length pre + (length h + 2) + length c + 2"
    by (simp add: buf CRLF_def)
  have d2: "take (length c) (drop (length pre + (length h + 2)) buf) = c"
    by (simp add: buf CRLF_def)
  have d3: "take 2 (drop (length pre + (length h + 2) + length c) buf) = CRLF"
    by (simp add: buf CRLF_def)
  have e: "length (encode_chunk c) = length h + 2 + length c + 2"
    by (simp add: h_def encode_chunk_def CRLF_def)
  have "chunk_loop buf (length pre) out =
      chunk_loop buf (length pre + (length h + 2) + length c + 2) (out @ c)"
    using c head size lim len d2 d3 chunk_loop_unfold [of buf "length pre" out] by simp
  then show ?thesis by (simp add: buf_def e add.assoc)
qed

lemma chunk_loop_chunks:
  assumes "list_all (\<lambda>c. c \<noteq> []) cs" and "length out + length (concat cs) \<le> MAX_CHUNKED_BODY"
  shows "chunk_loop (pre @ concat (map encode_chunk cs) @ rest) (length pre) out =
         chunk_loop (pre @ concat (map encode_chunk cs) @ rest)
           (length pre + length (concat (map encode_chunk cs))) (out @ concat cs)"
  using assms
proof (induction cs arbitrary: pre out)
  case Nil
  show ?case by simp
next
  case (Cons c cs)
  let ?r = "concat (map encode_chunk cs) @ rest"
  have "chunk_loop (pre @ encode_chunk c @ ?r) (length pre) out =
        chunk_loop (pre @ encode_chunk c @ ?r) (length pre + length (encode_chunk c)) (out @ c)"
    using Cons.prems by (intro chunk_loop_chunk) auto
  also have "\<dots> = chunk_loop ((pre @ encode_chunk c) @ concat (map encode_chunk cs) @ rest)
      (length (pre @ encode_chunk c)) (out @ c)" by simp
  also have "\<dots> = chunk_loop ((pre @ encode_chunk c) @ concat (map encode_chunk cs) @ rest)
      (length (pre @ encode_chunk c) + length (concat (map encode_chunk cs))) ((out @ c) @ concat cs)"
    using Cons.prems by (intro Cons.IH) auto
  finally show ?case by (simp add: add.assoc)
qed

lemma chunk_loop_last:
  "chunk_loop (pre @ ''0'' @ CRLF @ CRLF @ rest) (length pre) out = Val (Done out)"
proof -
  define buf where "buf = pre @ ''0'' @ CRLF @ CRLF @ rest"
  have head: "chunk_head buf (length pre) = Some (length pre + 3, Some 0)"
  proof -
    have "chunk_head buf (length pre) = Some (length pre + (length ''0'' + 2), chunk_size ''0'' 0)"
      by (rule chunk_head_plain [where t = "CRLF @ rest"]) (simp_all add: buf_def CR_def)
    moreover have "chunk_size ''0'' 0 = Some 0"
      by (simp add: hex_digit_value_def byte_val_def checked_mul_def checked_add_def)
    ultimately show ?thesis by simp
  qed
  have "find_crlf (drop (length pre + 3) buf) = Some 0"
    using find_crlf_plain [of "[]" rest] by (simp add: buf_def CRLF_def)
  then have "trailer_loop buf (length pre + 3) out = Done out" by (simp add: trailer_loop.simps)
  then show ?thesis unfolding buf_def [symmetric] by (subst chunk_loop_unfold) (simp add: head)
qed

text \<open>Decoding inverts encoding: any sequence of non-empty chunks whose total is within the
  limit decodes to the concatenation of the chunks, and bytes after the body are left alone.\<close>

theorem decode_encode_chunked:
  assumes "list_all (\<lambda>c. c \<noteq> []) cs" and "length (concat cs) \<le> MAX_CHUNKED_BODY"
  shows "decode_chunked (encode_chunked cs @ rest) = Val (Done (concat cs))"
proof -
  let ?e = "concat (map encode_chunk cs)"
  have "decode_chunked (encode_chunked cs @ rest) =
        chunk_loop ([] @ ?e @ (''0'' @ CRLF @ CRLF @ rest)) (length ([] :: bytes)) []"
    by (simp add: decode_chunked_def encode_chunked_def)
  also have "\<dots> = chunk_loop ([] @ ?e @ (''0'' @ CRLF @ CRLF @ rest))
      (length ([] :: bytes) + length ?e) ([] @ concat cs)"
    using assms by (intro chunk_loop_chunks) auto
  also have "\<dots> = chunk_loop (?e @ ''0'' @ CRLF @ CRLF @ rest) (length ?e) (concat cs)" by simp
  finally show ?thesis by (simp only: chunk_loop_last)
qed

theorem decode_encode_chunked_witness:
  "decode_chunked (encode_chunked [''hello'', ''!''] @ ''GET'') = Val (Done ''hello!'')"
  using decode_encode_chunked [of "[''hello'', ''!'']" "''GET''"] by (simp add: MAX_CHUNKED_BODY_def)

text \<open>A body that starts with a well-formed chunk and goes on with a chunk of declared size
  \<open>ffffffffffffffff\<close> makes the process panic: the size passes the \<open>checked_mul\<close> and
  \<open>checked_add\<close> of the digit loop, and \<open>out.len() + size\<close> then overflows before it is compared
  with the limit.\<close>

theorem decode_chunked_overflow:
  assumes "c \<noteq> []" and "length c \<le> MAX_CHUNKED_BODY"
  shows "decode_chunked (encode_chunk c @ replicate 16 CHR ''f'' @ CRLF @ rest) = Panic"
proof -
  define f where "f = replicate 16 CHR ''f''"
  define buf where "buf = encode_chunk c @ f @ CRLF @ rest"
  let ?i = "length (encode_chunk c)"
  have "chunk_head buf ?i = Some (?i + (length f + 2), chunk_size f 0)"
    by (rule chunk_head_plain [where t = rest]) (simp_all add: buf_def f_def CR_def)
  moreover have "chunk_size f 0 = Some (2 ^ 64 - 1)" unfolding f_def by code_simp
  moreover have "usize_limit \<le> length c + (2 ^ 64 - 1)" using assms(1) by (cases c) simp_all
  ultimately have "chunk_loop buf ?i c = Panic" by (subst chunk_loop_unfold) simp
  then show ?thesis
    using chunk_loop_chunk [OF assms(1), of "[]" "[]" "f @ CRLF @ rest"] assms(2)
    by (simp add: decode_chunked_def buf_def f_def)
qed

theorem decode_chunked_overflow_witness:
  "decode_chunked (encode_chunk ''h'' @ replicate 16 CHR ''f'' @ CRLF @ []) = Panic"
  by (rule decode_chunked_overflow) (simp_all add: MAX_CHUNKED_BODY_def)

section \<open>Answers already given stand when more bytes arrive\<close>

lemma trailer_loop_append:
  "i \<le> length buf \<Longrightarrow> trailer_loop buf i out \<noteq> Incomplete \<Longrightarrow>
   trailer_loop (buf @ ext) i out = trailer_loop buf i out"
proof (induction buf i out rule: trailer_loop.induct)
  case (1 buf i out)
  then obtain eol where eol: "find_crlf (drop i buf) = Some eol"
    by (cases "find_crlf (drop i buf)") (simp_all add: trailer_loop.simps)
  have eol': "find_crlf (drop i (buf @ ext)) = Some eol"
    using find_crlf_append [OF eol] "1.prems"(1) by simp
  have b: "i + (eol + 2) \<le> length buf" using find_crlf_bound [OF eol] by simp
  show ?case
  proof (cases "eol = 0")
    case True
    with eol eol' show ?thesis by (simp add: trailer_loop.simps)
  next
    case False
    then have "trailer_loop buf i out = trailer_loop buf (i + (eol + 2)) out"
      using eol by (subst trailer_loop.simps) simp
    moreover have "trailer_loop (buf @ ext) i out = trailer_loop (buf @ ext) (i + (eol + 2)) out"
      using eol' False by (subst trailer_loop.simps) simp
    ultimately show ?thesis using "1.IH" [OF eol False b] "1.prems"(2) by simp
  qed
qed

lemma chunk_loop_append:
  "i \<le> length buf \<Longrightarrow> chunk_loop buf i out \<noteq> Val Incomplete \<Longrightarrow>
   chunk_loop (buf @ ext) i out = chunk_loop buf i out"
proof (induction "length buf - i" arbitrary: i out rule: less_induct)
  case less
  obtain j r where h: "chunk_head buf i = Some (j, r)"
    using less.prems(2) by (cases "chunk_head buf i") (auto simp: chunk_loop_unfold [of buf])
  have h': "chunk_head (buf @ ext) i = Some (j, r)" using chunk_head_append [OF less.prems(1) h] .
  have j: "i < j" "j \<le> length buf" using chunk_head_bound [OF h] by auto
  show ?case
  proof (cases r)
    case None
    with h h' show ?thesis by (simp add: chunk_loop_unfold)
  next
    case (Some sz)
    note unf = chunk_loop_unfold [of buf i out] chunk_loop_unfold [of "buf @ ext" i out]
    show ?thesis
    proof (cases "sz = 0 \<or> usize_limit \<le> length out + sz \<or> MAX_CHUNKED_BODY < length out + sz")
      case True
      have "sz = 0 \<Longrightarrow> trailer_loop buf j out \<noteq> Incomplete"
        using less.prems(2) unf(1) h Some by simp
      with True trailer_loop_append [OF j(2)] show ?thesis using unf h h' Some by auto
    next
      case False
      then have n: "j + sz + 2 \<le> length buf"
        using less.prems(2) unf(1) h Some by (simp split: if_splits)
      have eq: "take 2 (drop (j + sz) (buf @ ext)) = take 2 (drop (j + sz) buf)"
          "take sz (drop j (buf @ ext)) = take sz (drop j buf)" using n by simp_all
      show ?thesis
      proof (cases "take 2 (drop (j + sz) buf) = CRLF")
        case crlf: True
        have "chunk_loop buf i out = chunk_loop buf (j + sz + 2) (out @ take sz (drop j buf))"
          using unf(1) h Some False n crlf by simp
        moreover have "chunk_loop (buf @ ext) i out =
            chunk_loop (buf @ ext) (j + sz + 2) (out @ take sz (drop j buf))"
          using unf(2) h' Some False n crlf eq by simp
        ultimately show ?thesis using less.hyps [of "j + sz + 2"] less.prems j n by simp
      next
        case nocrlf: False
        then show ?thesis using unf h h' Some False n eq by simp
      qed
    qed
  qed
qed

section \<open>Bounds\<close>

lemma trailer_loop_Done: "trailer_loop buf i out = Done b \<Longrightarrow> b = out"
proof (induction buf i out rule: trailer_loop.induct)
  case (1 buf i out)
  then show ?case
    by (cases "find_crlf (drop i buf)") (auto simp: trailer_loop.simps [of buf i out] split: if_splits)
qed

lemma chunk_loop_Done_bound:
  "chunk_loop buf i out = Val (Done b) \<Longrightarrow> length out \<le> MAX_CHUNKED_BODY \<Longrightarrow>
   length b \<le> MAX_CHUNKED_BODY"
proof (induction "length buf - i" arbitrary: i out rule: less_induct)
  case less
  obtain j sz where h: "chunk_head buf i = Some (j, Some sz)"
    using less.prems(1)
    by (auto simp: chunk_loop_unfold [of buf i] split: option.splits prod.splits)
  have j: "i < j" "j \<le> length buf" using chunk_head_bound [OF h] by auto
  show ?case
  proof (cases "sz = 0")
    case True
    with less.prems h show ?thesis
      by (auto simp: chunk_loop_unfold [of buf i] dest: trailer_loop_Done)
  next
    case False
    then have rec: "chunk_loop buf (j + sz + 2) (out @ take sz (drop j buf)) = Val (Done b)"
      and fits: "length out + sz \<le> MAX_CHUNKED_BODY" and n: "j + sz + 2 \<le> length buf"
      using less.prems(1) h by (auto simp: chunk_loop_unfold [of buf i] split: if_splits)
    have "length (out @ take sz (drop j buf)) \<le> MAX_CHUNKED_BODY" using fits by simp
    with less.hyps [OF _ rec] j n show ?thesis by simp
  qed
qed

end
