(* ===== verification/Http_Headers.thy ===== *)
theory Http_Headers
  imports M6_Prelude
begin

text \<open>
  The header list and the wire types of \<open>src/m6-core/src/http.rs\<close> and
  \<open>src/m6-core/src/headers.rs\<close>: a header list is an association list in wire order, with
  duplicates, looked up by ASCII case-insensitive name. The locale \<open>header_map\<close> states what
  every caller relies on; its interpretation on the functions below discharges the laws.
\<close>

type_synonym headers = "(string \<times> string) list"

section \<open>Wire types\<close>

record raw_request =
  rq_method :: string
  rq_path :: string
  rq_query :: "string option"
  rq_version :: string
  rq_headers :: headers
  rq_body :: bytes

record raw_response =
  rs_status :: nat
  rs_headers :: headers
  rs_body :: bytes

section \<open>Reading and writing a header list\<close>

definition name_is :: "string \<Rightarrow> string \<times> string \<Rightarrow> bool" where
  "name_is name kv \<longleftrightarrow> eq_ignore_ascii_case (fst kv) name"

definition find_header :: "headers \<Rightarrow> string \<Rightarrow> string option" where
  "find_header hs name = map_option snd (List.find (name_is name) hs)"

definition find_all :: "headers \<Rightarrow> string \<Rightarrow> string list" where
  "find_all hs name = map snd (filter (name_is name) hs)"

definition header :: "headers \<Rightarrow> string \<Rightarrow> string option" where
  "header hs name = find_header hs name"

definition headers_get :: "headers \<Rightarrow> string \<Rightarrow> string option" where
  "headers_get hs name = find_header hs name"

definition get_all :: "headers \<Rightarrow> string \<Rightarrow> string list" where
  "get_all hs name = map snd (filter (\<lambda>kv. eq_ignore_ascii_case (fst kv) name) hs)"

definition headers_contains :: "headers \<Rightarrow> string \<Rightarrow> bool" where
  "headers_contains hs name \<longleftrightarrow> find_header hs name \<noteq> None"

definition NEVER_COMBINED :: "string list" where
  "NEVER_COMBINED = [''set-cookie'']"

definition may_combine :: "string \<Rightarrow> bool" where
  "may_combine name \<longleftrightarrow> \<not> list_ex (\<lambda>n. eq_ignore_ascii_case name n) NEVER_COMBINED"

fun combine_loop :: "string option \<Rightarrow> string list \<Rightarrow> string option" where
  "combine_loop out [] = out"
| "combine_loop out (v # vs) =
     combine_loop (case out of None \<Rightarrow> Some v | Some acc \<Rightarrow> Some (acc @ '', '' @ v)) vs"

definition combine :: "headers \<Rightarrow> string \<Rightarrow> string option" where
  "combine hs name = (if \<not> may_combine name then None else combine_loop None (get_all hs name))"

text \<open>The \<open>while j < headers.len()\<close> loop of \<open>set\<close>, which deletes every later line of the same
  name in place.\<close>

function set_loop :: "headers \<Rightarrow> nat \<Rightarrow> string \<Rightarrow> headers" where
  "set_loop hs j name =
     (if j < length hs then
        (if eq_ignore_ascii_case (fst (hs ! j)) name
         then set_loop (take j hs @ drop (Suc j) hs) j name
         else set_loop hs (Suc j) name)
      else hs)"
  by pat_completeness auto
termination
  by (relation "measure (\<lambda>(hs, j, name). length hs - j)") auto

declare set_loop.simps [simp del]

definition headers_set :: "headers \<Rightarrow> string \<Rightarrow> string \<Rightarrow> headers" where
  "headers_set hs name value =
     (case position (\<lambda>kv. eq_ignore_ascii_case (fst kv) name) hs of
        Some i \<Rightarrow> set_loop (hs[i := (name, value)]) (i + 1) name
      | None \<Rightarrow> hs @ [(name, value)])"

definition headers_append :: "headers \<Rightarrow> string \<Rightarrow> string \<Rightarrow> headers" where
  "headers_append hs name value = hs @ [(name, value)]"

definition set_if_absent :: "headers \<Rightarrow> string \<Rightarrow> string \<Rightarrow> headers \<times> bool" where
  "set_if_absent hs name value =
     (if list_ex (\<lambda>kv. eq_ignore_ascii_case (fst kv) name) hs then (hs, False)
      else (hs @ [(name, value)], True))"

definition headers_remove :: "headers \<Rightarrow> string \<Rightarrow> headers \<times> nat" where
  "headers_remove hs name =
     (let kept = filter (\<lambda>kv. \<not> eq_ignore_ascii_case (fst kv) name) hs
      in (kept, length hs - length kept))"

definition is_same_origin_path :: "string \<Rightarrow> bool" where
  "is_same_origin_path candidate =
     (case candidate of
        [] \<Rightarrow> False
      | c # r \<Rightarrow>
          if c \<noteq> CHR ''/'' then False
          else (case r of [] \<Rightarrow> True | d # _ \<Rightarrow> d \<noteq> CHR ''/'' \<and> d \<noteq> CHR 0x5C))"

text \<open>Which statuses may carry \<open>Content-Length\<close>, and the configured fields that a response does not
  set itself; every protocol uses both when it writes a response.\<close>

definition status_may_have_content_length :: "nat \<Rightarrow> bool" where
  "status_may_have_content_length status \<longleftrightarrow> \<not> (status = 204 \<or> status = 304 \<or> (100 \<le> status \<and> status < 200))"

definition absent_from :: "headers \<Rightarrow> headers \<Rightarrow> headers" where
  "absent_from pairs existing = filter (\<lambda>kv. \<not> headers_contains existing (fst kv)) pairs"

text \<open>\<open>RawRequest\<close>'s accessors and \<open>RawResponse\<close>'s builders.\<close>

definition request_header :: "raw_request \<Rightarrow> string \<Rightarrow> string option" where
  "request_header r name = header (rq_headers r) name"

definition request_query :: "raw_request \<Rightarrow> string" where
  "request_query r = (case rq_query r of Some q \<Rightarrow> q | None \<Rightarrow> [])"

definition response_new :: "nat \<Rightarrow> raw_response" where
  "response_new status = \<lparr>rs_status = status, rs_headers = [], rs_body = []\<rparr>"

definition response_header :: "raw_response \<Rightarrow> string \<Rightarrow> string \<Rightarrow> raw_response" where
  "response_header r name value = r\<lparr>rs_headers := rs_headers r @ [(name, value)]\<rparr>"

definition response_body :: "raw_response \<Rightarrow> bytes \<Rightarrow> raw_response" where
  "response_body r b = r\<lparr>rs_body := b\<rparr>"

section \<open>The contract of a header list\<close>

locale header_map =
  fixes hget :: "'h \<Rightarrow> string \<Rightarrow> string option"
    and hset :: "'h \<Rightarrow> string \<Rightarrow> string \<Rightarrow> 'h"
    and hdel :: "'h \<Rightarrow> string \<Rightarrow> 'h"
  assumes get_set: "hget (hset h n v) m = (if eq_ignore_ascii_case n m then Some v else hget h m)"
    and get_del: "hget (hdel h n) m = (if eq_ignore_ascii_case n m then None else hget h m)"
    and get_cong: "eq_ignore_ascii_case n m \<Longrightarrow> hget h n = hget h m"
begin

lemma set_twice: "eq_ignore_ascii_case n n' \<Longrightarrow> hget (hset (hset h n v) n' w) m = hget (hset h n' w) m"
  using eq_ignore_ascii_case_cong by (auto simp: get_set)

lemma set_commute:
  "\<not> eq_ignore_ascii_case n n' \<Longrightarrow>
   hget (hset (hset h n v) n' w) m = hget (hset (hset h n' w) n v) m"
proof -
  assume "\<not> eq_ignore_ascii_case n n'"
  then have "\<not> (eq_ignore_ascii_case n m \<and> eq_ignore_ascii_case n' m)"
    by (auto simp: eq_ignore_ascii_case_def)
  then show ?thesis by (auto simp: get_set)
qed

lemma del_set: "eq_ignore_ascii_case n n' \<Longrightarrow> hget (hdel (hset h n v) n') m = hget (hdel h n') m"
  using eq_ignore_ascii_case_cong by (auto simp: get_set get_del)

text \<open>A field that has been deleted and set again has exactly the new value, whatever case
  the reader spells it in.\<close>

lemma replace_field: "eq_ignore_ascii_case n m \<Longrightarrow> hget (hset (hdel h n) n v) m = Some v"
  by (simp add: get_set)

end

section \<open>The functions of the source satisfy it\<close>

lemma set_loop_eq:
  "j \<le> length hs \<Longrightarrow>
   set_loop hs j name =
     take j hs @ filter (\<lambda>kv. \<not> eq_ignore_ascii_case (fst kv) name) (drop j hs)"
proof (induction hs j name rule: set_loop.induct)
  case (1 hs j name)
  let ?P = "\<lambda>kv. \<not> eq_ignore_ascii_case (fst kv) name"
  show ?case
  proof (cases "j < length hs")
    case False
    with "1.prems" show ?thesis by (subst set_loop.simps) simp
  next
    case True
    have d: "drop j hs = hs ! j # drop (Suc j) hs" using True by (rule Cons_nth_drop_Suc [symmetric])
    show ?thesis
    proof (cases "eq_ignore_ascii_case (fst (hs ! j)) name")
      case hit: True
      have "set_loop hs j name = set_loop (take j hs @ drop (Suc j) hs) j name"
        using True hit by (subst set_loop.simps) simp
      also have "\<dots> = take j hs @ filter ?P (drop (Suc j) hs)"
        using "1.IH"(1) [OF True hit] True by simp
      finally show ?thesis using d hit by simp
    next
      case miss: False
      have "set_loop hs j name = set_loop hs (Suc j) name"
        using True miss by (subst set_loop.simps) simp
      also have "\<dots> = take (Suc j) hs @ filter ?P (drop (Suc j) hs)"
        using "1.IH"(2) [OF True miss] True by simp
      finally show ?thesis using d miss True by (simp add: take_Suc_conv_app_nth)
    qed
  qed
qed

lemma get_all_append: "get_all (xs @ ys) n = get_all xs n @ get_all ys n"
  by (simp add: get_all_def)

lemma find_header_append:
  "find_header (xs @ ys) m = (case find_header xs m of Some v \<Rightarrow> Some v | None \<Rightarrow> find_header ys m)"
  by (induction xs) (auto simp: find_header_def)

lemma find_header_Cons:
  "find_header (kv # xs) m = (if eq_ignore_ascii_case (fst kv) m then Some (snd kv) else find_header xs m)"
  by (simp add: find_header_def name_is_def)

lemma find_header_Nil [simp]: "find_header [] m = None"
  by (simp add: find_header_def)

lemma find_header_None: "find_header hs m = None \<longleftrightarrow> (\<forall>kv \<in> set hs. \<not> eq_ignore_ascii_case (fst kv) m)"
  by (induction hs) (auto simp: find_header_Cons)

lemma find_header_filter_other:
  assumes "\<not> eq_ignore_ascii_case n m"
  shows "find_header (filter (\<lambda>kv. \<not> eq_ignore_ascii_case (fst kv) n) hs) m = find_header hs m"
proof (induction hs)
  case Nil
  show ?case by simp
next
  case (Cons kv hs)
  have "eq_ignore_ascii_case (fst kv) n \<Longrightarrow> \<not> eq_ignore_ascii_case (fst kv) m"
    using assms eq_ignore_ascii_case_cong by blast
  with Cons show ?case by (auto simp: find_header_Cons)
qed

lemma find_header_filter_same:
  "eq_ignore_ascii_case n m \<Longrightarrow>
   find_header (filter (\<lambda>kv. \<not> eq_ignore_ascii_case (fst kv) n) hs) m = None"
  by (auto simp: find_header_None dest: eq_ignore_ascii_case_trans eq_ignore_ascii_case_sym [THEN iffD1])

lemma find_header_cong: "eq_ignore_ascii_case n m \<Longrightarrow> find_header hs n = find_header hs m"
proof -
  assume nm: "eq_ignore_ascii_case n m"
  have "\<And>k. eq_ignore_ascii_case k n \<longleftrightarrow> eq_ignore_ascii_case k m"
    using nm by (simp add: eq_ignore_ascii_case_def)
  then show ?thesis by (simp add: find_header_def name_is_def [abs_def])
qed

lemma headers_get_cong: "eq_ignore_ascii_case n m \<Longrightarrow> headers_get hs n = headers_get hs m"
  by (simp add: headers_get_def find_header_cong)

text \<open>\<open>set\<close> replaces the first line of the name in place and drops the others; every other line
  keeps its place.\<close>

lemma headers_set_split:
  "headers_set hs name value =
     (case position (\<lambda>kv. eq_ignore_ascii_case (fst kv) name) hs of
        Some i \<Rightarrow> take i hs @ (name, value) #
                  filter (\<lambda>kv. \<not> eq_ignore_ascii_case (fst kv) name) (drop (Suc i) hs)
      | None \<Rightarrow> hs @ [(name, value)])"
proof (cases "position (\<lambda>kv. eq_ignore_ascii_case (fst kv) name) hs")
  case None
  then show ?thesis by (simp add: headers_set_def del: position_None)
next
  case (Some i)
  then have i: "i < length hs" using position_SomeD by blast
  then have "take (Suc i) (hs[i := (name, value)]) = take i hs @ [(name, value)]"
    by (simp add: take_Suc_conv_app_nth)
  with Some i show ?thesis by (simp add: headers_set_def set_loop_eq)
qed

lemma headers_get_set:
  "headers_get (headers_set hs n v) m = (if eq_ignore_ascii_case n m then Some v else headers_get hs m)"
proof (cases "position (\<lambda>kv. eq_ignore_ascii_case (fst kv) n) hs")
  case None
  then have no: "\<forall>kv \<in> set hs. \<not> eq_ignore_ascii_case (fst kv) n" by simp
  have "eq_ignore_ascii_case n m \<Longrightarrow> find_header hs m = None"
    using no find_header_None find_header_cong by metis
  with None show ?thesis
    by (auto simp: headers_set_split headers_get_def find_header_append find_header_Cons
        simp del: position_None split: option.splits)
next
  case (Some i)
  have i: "i < length hs" "eq_ignore_ascii_case (fst (hs ! i)) n"
    and before: "\<forall>kv \<in> set (take i hs). \<not> eq_ignore_ascii_case (fst kv) n"
    using position_SomeD [OF Some] by auto
  have hs: "hs = take i hs @ hs ! i # drop (Suc i) hs" using i by (simp add: id_take_nth_drop [symmetric])
  show ?thesis
  proof (cases "eq_ignore_ascii_case n m")
    case True
    have "find_header (take i hs) m = None"
      using before find_header_None find_header_cong [OF True] by metis
    with Some True show ?thesis
      by (simp add: headers_set_split headers_get_def find_header_append find_header_Cons)
  next
    case False
    then have "\<not> eq_ignore_ascii_case (fst (hs ! i)) m" using i(2) eq_ignore_ascii_case_cong by blast
    then have "find_header hs m =
        (case find_header (take i hs) m of Some v \<Rightarrow> Some v | None \<Rightarrow> find_header (drop (Suc i) hs) m)"
      by (subst hs) (simp add: find_header_append find_header_Cons split: option.split)
    with Some False show ?thesis
      by (simp add: headers_set_split headers_get_def find_header_append find_header_Cons
          find_header_filter_other split: option.split)
  qed
qed

lemma headers_get_remove:
  "headers_get (fst (headers_remove hs n)) m =
     (if eq_ignore_ascii_case n m then None else headers_get hs m)"
  by (simp add: headers_remove_def headers_get_def Let_def find_header_filter_other
      find_header_filter_same)

interpretation hdrs: header_map headers_get headers_set "\<lambda>hs n. fst (headers_remove hs n)"
  by unfold_locales
    (simp_all add: headers_get_set headers_get_remove headers_get_def [symmetric] headers_get_cong)

section \<open>Further facts the other components use\<close>

lemma headers_contains_iff: "headers_contains hs n \<longleftrightarrow> (\<exists>kv \<in> set hs. eq_ignore_ascii_case (fst kv) n)"
  unfolding headers_contains_def using find_header_None by metis

lemma get_all_headers_set:
  "get_all (headers_set hs n v) n = [v]"
proof (cases "position (\<lambda>kv. eq_ignore_ascii_case (fst kv) n) hs")
  case None
  then have "\<forall>kv \<in> set hs. \<not> eq_ignore_ascii_case (fst kv) n" by simp
  with None show ?thesis
    by (auto simp: headers_set_split get_all_def filter_empty_conv simp del: position_None)
next
  case (Some i)
  then have "\<forall>kv \<in> set (take i hs). \<not> eq_ignore_ascii_case (fst kv) n" using position_SomeD by blast
  with Some show ?thesis by (auto simp: headers_set_split get_all_def filter_empty_conv)
qed

lemma combine_loop_Some: "combine_loop (Some a) vs = Some (concat (a # map ((@) '', '') vs))"
  by (induction vs arbitrary: a) auto

lemma combine_value:
  "combine hs n =
     (if \<not> may_combine n then None
      else (case get_all hs n of [] \<Rightarrow> None | v # vs \<Rightarrow> Some (concat (v # map ((@) '', '') vs))))"
  by (cases "get_all hs n") (simp_all add: combine_def combine_loop_Some)

end
