(* ===== verification/H1_Request.thy ===== *)
theory H1_Request
  imports H1_Chunked Http_Headers
begin

text \<open>
  The HTTP/1.1 request parser of \<open>src/m6-core/src/h1.rs\<close>: \<open>host_is_valid\<close>, \<open>expectation\<close>,
  \<open>strip_absolute_form\<close>, the framing decision of \<open>parse_request\<close> and \<open>keep_alive\<close>.

  The head itself is tokenised by the \<open>httparse\<close> crate, which is not part of the repository: it
  is the argument \<open>hp\<close> of \<open>parse_request\<close>. What the parser relies on is stated as
  \<open>httparse_offset\<close> (a complete head ends inside the buffer) and \<open>httparse_stable\<close> (an answer
  about a head does not change when more bytes follow it).
\<close>

section \<open>Host\<close>

definition reg_name_byte :: "char \<Rightarrow> bool" where
  "reg_name_byte b \<longleftrightarrow> is_ascii_alphanumeric b \<or> b \<in> set ''-._~%!$&()*+,;='' \<or> b = CHR 0x27"

definition host_split :: "string \<Rightarrow> (string option \<times> string) option" where
  "host_split v =
     (case strip_prefix ''['' v of
        Some rest \<Rightarrow>
          (case split_once CHR '']'' rest of
             Some (inside, after) \<Rightarrow>
               if \<not> list_all (\<lambda>b. is_ascii_hexdigit b \<or> b = CHR '':'' \<or> b = CHR ''.'') inside then None
               else Some (None, after)
           | None \<Rightarrow> None)
      | None \<Rightarrow>
          (case split_once CHR '':'' v of
             Some (h, p) \<Rightarrow> Some (Some h, p)
           | None \<Rightarrow> Some (Some v, [])))"

definition host_is_valid :: "string \<Rightarrow> bool" where
  "host_is_valid v =
     (if length v > 253 then False
      else
        (case host_split v of
           None \<Rightarrow> False
         | Some (host, port) \<Rightarrow>
             (case host of
                None \<Rightarrow> True
              | Some h \<Rightarrow> h \<noteq> [] \<and> list_all reg_name_byte h) \<and>
             (let port = (case strip_prefix '':'' port of Some p \<Rightarrow> p | None \<Rightarrow> port) in
              port = [] \<or> (length port \<le> 5 \<and> list_all is_ascii_digit port))))"

section \<open>Expect\<close>

definition CONTINUE_RESPONSE :: bytes where
  "CONTINUE_RESPONSE = ''HTTP/1.1 100 Continue'' @ CRLF @ CRLF"

datatype expect_kind = ExpNone | ExpContinue | ExpUnsupported

definition trim_ascii :: "bytes \<Rightarrow> bytes" where
  "trim_ascii b = rev (dropWhile is_ascii_whitespace (rev (dropWhile is_ascii_whitespace b)))"

text \<open>\<open>None\<close> in the two loops is \<open>return Some(Expectation::Unsupported)\<close>.\<close>

fun expect_members :: "expect_kind \<Rightarrow> bytes list \<Rightarrow> expect_kind option" where
  "expect_members found [] = Some found"
| "expect_members found (m # ms) =
     (let member = trim_ascii m in
      if member = [] then expect_members found ms
      else if eq_ignore_ascii_case member ''100-continue'' then
        expect_members (if found = ExpNone then ExpContinue else found) ms
      else None)"

fun expect_lines :: "expect_kind \<Rightarrow> bytes list \<Rightarrow> expect_kind option" where
  "expect_lines found [] = Some found"
| "expect_lines found (line # ls) =
     (case position (\<lambda>b. b = CHR '':'') line of
        None \<Rightarrow> expect_lines found ls
      | Some colon \<Rightarrow>
          if \<not> eq_ignore_ascii_case (take colon line) ''expect'' then expect_lines found ls
          else
            (case expect_members found (split_on CHR '','' (drop (colon + 1) line)) of
               None \<Rightarrow> None
             | Some found \<Rightarrow> expect_lines found ls))"

definition head_end :: "bytes \<Rightarrow> nat option" where
  "head_end buf = find_sub (CRLF @ CRLF) buf"

definition expectation :: "bytes \<Rightarrow> expect_kind option" where
  "expectation buf =
     (case head_end buf of
        None \<Rightarrow> None
      | Some e \<Rightarrow>
          (case split_on LF (take e buf) of
             [] \<Rightarrow> None
           | request_line # lines \<Rightarrow>
               if \<not> ends_with (''HTTP/1.1'' @ [CR]) request_line \<and> \<not> ends_with ''HTTP/1.1'' request_line
               then Some ExpNone
               else (case expect_lines ExpNone lines of None \<Rightarrow> Some ExpUnsupported | Some f \<Rightarrow> Some f)))"

section \<open>The request target\<close>

definition strip_absolute_form :: "string \<Rightarrow> string" where
  "strip_absolute_form target =
     (case find_sub ''://'' target of
        None \<Rightarrow> target
      | Some scheme_end \<Rightarrow>
          (let scheme = take scheme_end target in
           if scheme = [] \<or> \<not> is_ascii_alphabetic (hd scheme) \<or>
              \<not> list_all (\<lambda>c. is_ascii_alphanumeric c \<or> c = CHR ''+'' \<or> c = CHR ''-'' \<or> c = CHR ''.'') scheme
           then target
           else
             (let after_scheme = drop (scheme_end + 3) target in
              case find_char CHR ''/'' after_scheme of
                Some slash \<Rightarrow> drop slash after_scheme
              | None \<Rightarrow> ''/'')))"

definition split_target :: "string \<Rightarrow> string \<times> string option" where
  "split_target target =
     (case find_char CHR ''?'' target of
        Some q \<Rightarrow> (take q target, Some (drop (q + 1) target))
      | None \<Rightarrow> (target, None))"

section \<open>Framing\<close>

text \<open>What \<open>httparse\<close> reports. A header value is raw bytes.\<close>

record http_head =
  hh_method :: "string option"
  hh_path :: "string option"
  hh_version :: "nat option"
  hh_headers :: "(string \<times> bytes) list"

datatype httparse_status = Partial | Complete nat http_head | ParseErr

type_synonym httparse = "bytes \<Rightarrow> httparse_status"

definition httparse_offset :: "httparse \<Rightarrow> bool" where
  "httparse_offset hp \<longleftrightarrow> (\<forall>buf n h. hp buf = Complete n h \<longrightarrow> n \<le> length buf)"

definition httparse_stable :: "httparse \<Rightarrow> bool" where
  "httparse_stable hp \<longleftrightarrow> (\<forall>buf ext. hp buf \<noteq> Partial \<longrightarrow> hp (buf @ ext) = hp buf)"

fun no_bare_lf :: "char option \<Rightarrow> bytes \<Rightarrow> bool" where
  "no_bare_lf prev [] \<longleftrightarrow> True"
| "no_bare_lf prev (c # cs) \<longleftrightarrow> (c = LF \<longrightarrow> prev = Some CR) \<and> no_bare_lf (Some c) cs"

text \<open>The variables of the header loop.\<close>

record framing =
  first_cl :: "string option"
  saw_cl :: bool
  host_count :: nat
  host_empty :: bool
  saw_te :: bool
  fwd_headers :: headers

definition framing_init :: framing where
  "framing_init =
     \<lparr>first_cl = None, saw_cl = False, host_count = 0, host_empty = False, saw_te = False,
      fwd_headers = []\<rparr>"

definition step_transfer_encoding :: "framing \<Rightarrow> bytes \<Rightarrow> framing option" where
  "step_transfer_encoding f v =
     (if \<not> valid_utf8 v then None
      else if \<not> eq_ignore_ascii_case (trim (last (split_on CHR '','' v))) ''chunked'' then None
      else if length (split_on CHR '','' v) > 1 then None
      else Some (f\<lparr>saw_te := True\<rparr>))"

definition step_content_length :: "framing \<Rightarrow> bytes \<Rightarrow> framing option" where
  "step_content_length f v =
     (if \<not> valid_utf8 v then None
      else
        (let value = trim v in
         case first_cl f of
           Some prev \<Rightarrow> if prev \<noteq> value then None else Some (f\<lparr>saw_cl := True\<rparr>)
         | None \<Rightarrow> Some (f\<lparr>first_cl := Some value, saw_cl := True\<rparr>)))"

definition step_host :: "framing \<Rightarrow> bytes \<Rightarrow> framing option" where
  "step_host f v =
     (let f = f\<lparr>host_count := host_count f + 1\<rparr> in
      if valid_utf8 v \<and> trim v \<noteq> [] then
        (if \<not> host_is_valid (trim v) then None else Some f)
      else Some (f\<lparr>host_empty := True\<rparr>))"

text \<open>One header of the loop; \<open>None\<close> is \<open>return ParseResult::Error\<close>.\<close>

definition header_step :: "framing \<Rightarrow> string \<times> bytes \<Rightarrow> framing option" where
  "header_step f h =
     (let name = fst h; v = snd h in
      if eq_ignore_ascii_case name ''transfer-encoding'' then step_transfer_encoding f v
      else
        Option.bind
          (if eq_ignore_ascii_case name ''content-length'' then step_content_length f v else Some f)
          (\<lambda>f. Option.bind
             (if eq_ignore_ascii_case name ''host'' then step_host f v else Some f)
             (\<lambda>f. if \<not> valid_utf8 v then Some f
                  else Some (f\<lparr>fwd_headers := fwd_headers f @ [(name, v)]\<rparr>))))"

fun header_loop :: "framing \<Rightarrow> (string \<times> bytes) list \<Rightarrow> framing option" where
  "header_loop f [] = Some f"
| "header_loop f (h # hs) = (case header_step f h of None \<Rightarrow> None | Some f \<Rightarrow> header_loop f hs)"

datatype parse_result = ReqIncomplete | ReqError | ReqComplete raw_request

definition http_version :: "bool \<Rightarrow> string" where
  "http_version is_http11 = (if is_http11 then ''HTTP/1.1'' else ''HTTP/1.0'')"

definition make_request :: "http_head \<Rightarrow> headers \<Rightarrow> bytes \<Rightarrow> raw_request" where
  "make_request h hdrs body =
     (let target = split_target (strip_absolute_form (case hh_path h of Some p \<Rightarrow> p | None \<Rightarrow> ''/'')) in
      \<lparr>rq_method = (case hh_method h of Some m \<Rightarrow> m | None \<Rightarrow> ''GET''),
       rq_path = fst target, rq_query = snd target,
       rq_version = http_version (hh_version h = Some 1), rq_headers = hdrs, rq_body = body\<rparr>)"

definition content_length :: "framing \<Rightarrow> nat option" where
  "content_length f =
     (case first_cl f of
        Some v \<Rightarrow> parse_uint 64 v
      | None \<Rightarrow> if saw_cl f then None else Some 0)"

text \<open>The part of \<open>parse_request\<close> after the head has been accepted.\<close>

definition frame_body :: "bytes \<Rightarrow> nat \<Rightarrow> http_head \<Rightarrow> framing \<Rightarrow> parse_result outcome" where
  "frame_body buf body_offset h f =
     (let is_http11 = (hh_version h = Some 1) in
      if host_count f > 1 then Val ReqError
      else if is_http11 \<and> (host_count f = 0 \<or> host_empty f) then Val ReqError
      else if saw_te f \<and> \<not> is_http11 then Val ReqError
      else if saw_te f \<and> saw_cl f then Val ReqError
      else
        (case content_length f of
           None \<Rightarrow> Val ReqError
         | Some n \<Rightarrow>
             if saw_te f then
               (case decode_chunked (drop body_offset buf) of
                  Panic \<Rightarrow> Panic
                | Val Incomplete \<Rightarrow> Val ReqIncomplete
                | Val Bad \<Rightarrow> Val ReqError
                | Val (Done body) \<Rightarrow>
                    Val (ReqComplete (make_request h
                      (fwd_headers f @ [(''Content-Length'', show_nat (length body))]) body)))
             else if length buf - body_offset < n then Val ReqIncomplete
             else Val (ReqComplete (make_request h (fwd_headers f) (take n (drop body_offset buf))))))"

definition parse_request :: "httparse \<Rightarrow> bytes \<Rightarrow> parse_result outcome" where
  "parse_request hp buf =
     (case hp buf of
        Partial \<Rightarrow> Val ReqIncomplete
      | ParseErr \<Rightarrow> Val ReqError
      | Complete body_offset h \<Rightarrow>
          if length buf < body_offset then Panic
          else if \<not> no_bare_lf None (take body_offset buf) then Val ReqError
          else
            (case header_loop framing_init (hh_headers h) of
               None \<Rightarrow> Val ReqError
             | Some f \<Rightarrow> frame_body buf body_offset h f))"

section \<open>Persistence\<close>

definition connection_has :: "headers \<Rightarrow> string \<Rightarrow> bool" where
  "connection_has hs tok \<longleftrightarrow>
     list_ex (\<lambda>t. eq_ignore_ascii_case (trim t) tok)
       (concat (map (\<lambda>kv. split_on CHR '','' (snd kv))
          (filter (\<lambda>kv. eq_ignore_ascii_case (fst kv) ''connection'') hs)))"

definition keep_alive :: "raw_request \<Rightarrow> bool" where
  "keep_alive req =
     (if eq_ignore_ascii_case (rq_version req) ''HTTP/1.1'' then
        \<not> connection_has (rq_headers req) ''close''
      else if eq_ignore_ascii_case (rq_version req) ''HTTP/1.0'' then
        connection_has (rq_headers req) ''keep-alive''
      else False)"

section \<open>What the header loop computes\<close>

text \<open>A closed form of the loop: the framing variables as functions of the whole header list,
  and the condition under which no header makes the loop return an error.\<close>

definition is_te :: "string \<times> bytes \<Rightarrow> bool" where
  "is_te h \<longleftrightarrow> eq_ignore_ascii_case (fst h) ''transfer-encoding''"

definition is_cl :: "string \<times> bytes \<Rightarrow> bool" where
  "is_cl h \<longleftrightarrow> eq_ignore_ascii_case (fst h) ''content-length''"

definition is_host :: "string \<times> bytes \<Rightarrow> bool" where
  "is_host h \<longleftrightarrow> eq_ignore_ascii_case (fst h) ''host''"

definition cl_values :: "(string \<times> bytes) list \<Rightarrow> string list" where
  "cl_values hs = map (\<lambda>h. trim (snd h)) (filter is_cl hs)"

definition host_blank :: "bytes \<Rightarrow> bool" where
  "host_blank v \<longleftrightarrow> \<not> (valid_utf8 v \<and> trim v \<noteq> [])"

definition te_ok :: "bytes \<Rightarrow> bool" where
  "te_ok v \<longleftrightarrow> valid_utf8 v \<and> eq_ignore_ascii_case (trim v) ''chunked'' \<and> CHR '','' \<notin> set v"

definition headers_ok :: "(string \<times> bytes) list \<Rightarrow> bool" where
  "headers_ok hs \<longleftrightarrow>
     (\<forall>h \<in> set hs. (is_te h \<longrightarrow> te_ok (snd h)) \<and> (is_cl h \<longrightarrow> valid_utf8 (snd h)) \<and>
        (is_host h \<longrightarrow> host_blank (snd h) \<or> host_is_valid (trim (snd h)))) \<and>
     (\<exists>v. set (cl_values hs) \<subseteq> {v})"

definition framing_of :: "(string \<times> bytes) list \<Rightarrow> framing" where
  "framing_of hs =
     \<lparr>first_cl = (case cl_values hs of [] \<Rightarrow> None | v # _ \<Rightarrow> Some v),
      saw_cl = list_ex is_cl hs,
      host_count = length (filter is_host hs),
      host_empty = list_ex (\<lambda>h. is_host h \<and> host_blank (snd h)) hs,
      saw_te = list_ex is_te hs,
      fwd_headers = filter (\<lambda>h. \<not> is_te h \<and> valid_utf8 (snd h)) hs\<rparr>"

lemma split_on_count: "length (split_on d s) > 1 \<longleftrightarrow> d \<in> set s"
proof (induction s)
  case Nil
  show ?case by simp
next
  case (Cons c s)
  have "length (split_on d s) \<ge> 1" by (cases "split_on d s") (simp_all add: split_on_nonempty [simplified])
  then show ?case using Cons.IH by (cases "split_on d s") auto
qed

lemma step_transfer_encoding_eq:
  "step_transfer_encoding f v = (if te_ok v then Some (f\<lparr>saw_te := True\<rparr>) else None)"
proof (cases "CHR '','' \<in> set v")
  case True
  then show ?thesis using split_on_count [of "CHR '',''" v] by (simp add: step_transfer_encoding_def te_ok_def)
next
  case False
  then show ?thesis by (simp add: step_transfer_encoding_def te_ok_def split_on_no_delim)
qed

lemma name_classes_disjoint:
  "is_te h \<Longrightarrow> \<not> is_cl h" "is_te h \<Longrightarrow> \<not> is_host h" "is_cl h \<Longrightarrow> \<not> is_host h"
proof -
  have ne: "\<not> eq_ignore_ascii_case ''transfer-encoding'' ''content-length''"
    "\<not> eq_ignore_ascii_case ''transfer-encoding'' ''host''"
    "\<not> eq_ignore_ascii_case ''content-length'' ''host''" by code_simp+
  have cl: "\<And>n s t. eq_ignore_ascii_case n s \<Longrightarrow> \<not> eq_ignore_ascii_case s t \<Longrightarrow>
      \<not> eq_ignore_ascii_case n t" using eq_ignore_ascii_case_cong by blast
  show "is_te h \<Longrightarrow> \<not> is_cl h" "is_te h \<Longrightarrow> \<not> is_host h" "is_cl h \<Longrightarrow> \<not> is_host h"
    using ne by (auto simp: is_te_def is_cl_def is_host_def dest: cl)
qed

lemma header_loop_append:
  "header_loop f (xs @ ys) = Option.bind (header_loop f xs) (\<lambda>f. header_loop f ys)"
  by (induction xs arbitrary: f) (auto split: option.split)

lemma cl_values_snoc:
  "cl_values (hs @ [h]) = cl_values hs @ (if is_cl h then [trim (snd h)] else [])"
  by (simp add: cl_values_def)

lemma cl_values_ex: "list_ex is_cl hs \<longleftrightarrow> cl_values hs \<noteq> []"
  by (auto simp: cl_values_def list_ex_iff filter_empty_conv)

lemma headers_ok_snoc:
  "headers_ok (hs @ [h]) \<longleftrightarrow>
     headers_ok hs \<and> (is_te h \<longrightarrow> te_ok (snd h)) \<and> (is_cl h \<longrightarrow> valid_utf8 (snd h)) \<and>
     (is_host h \<longrightarrow> host_blank (snd h) \<or> host_is_valid (trim (snd h))) \<and>
     (is_cl h \<longrightarrow> set (cl_values hs) \<subseteq> {trim (snd h)})"
  unfolding headers_ok_def cl_values_snoc by (cases "is_cl h") auto

lemma header_step_cases:
  "header_step f h =
     (if is_te h then step_transfer_encoding f (snd h)
      else Option.bind (if is_cl h then step_content_length f (snd h) else Some f)
        (\<lambda>f. Option.bind (if is_host h then step_host f (snd h) else Some f)
          (\<lambda>f. if \<not> valid_utf8 (snd h) then Some f
               else Some (f\<lparr>fwd_headers := fwd_headers f @ [h]\<rparr>))))"
  by (simp add: header_step_def is_te_def is_cl_def is_host_def Let_def)

lemma step_content_length_framing_of:
  assumes "is_cl h" "headers_ok hs"
  shows "step_content_length (framing_of hs) (snd h) =
    (if valid_utf8 (snd h) \<and> set (cl_values hs) \<subseteq> {trim (snd h)}
     then Some ((framing_of hs)\<lparr>first_cl := Some (trim (snd h)), saw_cl := True\<rparr>) else None)"
proof (cases "cl_values hs")
  case Nil
  then show ?thesis by (simp add: step_content_length_def framing_of_def)
next
  case (Cons a as)
  obtain v where "set (cl_values hs) \<subseteq> {v}" using assms(2) by (auto simp: headers_ok_def)
  with Cons have "set (cl_values hs) \<subseteq> {trim (snd h)} \<longleftrightarrow> a = trim (snd h)" by auto
  with Cons show ?thesis
    by (auto simp: step_content_length_def framing_of_def Let_def cl_values_ex simp del: set_simps)
qed

text \<open>One header, against the closed form.\<close>

lemma header_step_framing_of:
  assumes "headers_ok hs"
  shows "header_step (framing_of hs) h = (if headers_ok (hs @ [h]) then Some (framing_of (hs @ [h])) else None)"
proof -
  consider (te) "is_te h" "\<not> is_cl h" "\<not> is_host h" | (cl) "\<not> is_te h" "is_cl h" "\<not> is_host h"
    | (host) "\<not> is_te h" "\<not> is_cl h" "is_host h" | (other) "\<not> is_te h" "\<not> is_cl h" "\<not> is_host h"
    using name_classes_disjoint [of h] by blast
  then show ?thesis
  proof cases
    case te
    with assms show ?thesis
      by (simp add: headers_ok_snoc header_step_cases step_transfer_encoding_eq framing_of_def cl_values_snoc)
  next
    case cl
    have first: "set (cl_values hs) \<subseteq> {v} \<Longrightarrow>
        (case cl_values hs @ [v] of [] \<Rightarrow> None | v # _ \<Rightarrow> Some v) = Some v" for v
      by (cases "cl_values hs") auto
    have "header_step (framing_of hs) h =
      (if headers_ok (hs @ [h]) then Some ((framing_of hs)\<lparr>first_cl := Some (trim (snd h)),
         saw_cl := True, fwd_headers := fwd_headers (framing_of hs) @ [h]\<rparr>) else None)"
      using cl assms by (simp add: headers_ok_snoc header_step_cases step_content_length_framing_of)
    with cl first show ?thesis by (auto simp: framing_of_def cl_values_snoc headers_ok_snoc)
  next
    case host
    with assms show ?thesis
      by (auto simp: headers_ok_snoc header_step_cases step_host_def host_blank_def framing_of_def
          cl_values_snoc Let_def)
  next
    case other
    with assms show ?thesis
      by (simp add: headers_ok_snoc header_step_cases framing_of_def cl_values_snoc)
  qed
qed

lemma header_loop_closed_form:
  "header_loop framing_init hs = (if headers_ok hs then Some (framing_of hs) else None)"
proof (induction hs rule: rev_induct)
  case Nil
  show ?case by (simp add: headers_ok_def cl_values_def framing_of_def framing_init_def)
next
  case (snoc h hs)
  show ?case
  proof (cases "headers_ok hs")
    case True
    then show ?thesis
      using snoc header_step_framing_of [OF True, of h]
      by (simp add: header_loop_append split: option.split)
  next
    case False
    then show ?thesis using snoc by (simp add: header_loop_append headers_ok_snoc)
  qed
qed

section \<open>Accepted requests\<close>

lemma parse_request_CompleteE:
  assumes "parse_request hp buf = Val (ReqComplete r)"
  obtains n h where
    "hp buf = Complete n h" "n \<le> length buf" "no_bare_lf None (take n buf)"
    "headers_ok (hh_headers h)" "frame_body buf n h (framing_of (hh_headers h)) = Val (ReqComplete r)"
  using assms
  by (auto simp: parse_request_def header_loop_closed_form split: httparse_status.splits if_splits)

text \<open>The two ways an accepted request gets its body.\<close>

lemma frame_body_CompleteE:
  assumes "frame_body buf n h f = Val (ReqComplete r)"
  obtains
    (chunked) body where "saw_te f" "\<not> saw_cl f" "decode_chunked (drop n buf) = Val (Done body)"
      "r = make_request h (fwd_headers f @ [(''Content-Length'', show_nat (length body))]) body"
  | (sized) cl where "\<not> saw_te f" "content_length f = Some cl" "n + cl \<le> length buf \<or> cl = 0"
      "r = make_request h (fwd_headers f) (take cl (drop n buf))"
proof -
  have te: "saw_te f \<Longrightarrow> \<not> saw_cl f" and "content_length f \<noteq> None"
    using assms by (auto simp: frame_body_def Let_def split: if_splits option.splits)
  then obtain cl where cl: "content_length f = Some cl" by blast
  show ?thesis
  proof (cases "saw_te f")
    case True
    with assms cl te that(1) show ?thesis
      by (auto simp: frame_body_def Let_def split: if_splits outcome.splits chunked.splits)
  next
    case False
    with assms cl have "\<not> length buf - n < cl" "r = make_request h (fwd_headers f) (take cl (drop n buf))"
      by (auto simp: frame_body_def Let_def split: if_splits)
    with False cl that(2) show ?thesis by force
  qed
qed

lemma frame_body_host:
  "frame_body buf n h f = Val (ReqComplete r) \<Longrightarrow> hh_version h = Some 1 \<Longrightarrow>
   host_count f = 1 \<and> \<not> host_empty f"
  by (auto simp: frame_body_def Let_def split: if_splits)

lemma make_request_sel [simp]:
  "rq_headers (make_request h hs b) = hs" "rq_body (make_request h hs b) = b"
  "rq_version (make_request h hs b) = http_version (hh_version h = Some 1)"
  by (simp_all add: make_request_def Let_def)

lemma decode_chunked_bound: "decode_chunked buf = Val (Done b) \<Longrightarrow> length b \<le> MAX_CHUNKED_BODY"
  using chunk_loop_Done_bound by (auto simp: decode_chunked_def)

lemma content_length_framing_of:
  assumes "headers_ok hs" "content_length (framing_of hs) = Some n" "h \<in> set hs" "is_cl h"
  shows "parse_uint 64 (trim (snd h)) = Some n"
proof -
  obtain v where v: "set (cl_values hs) \<subseteq> {v}" using assms(1) by (auto simp: headers_ok_def)
  have m: "trim (snd h) \<in> set (cl_values hs)" using assms(3,4) by (auto simp: cl_values_def)
  then obtain w ws where "cl_values hs = w # ws" by (cases "cl_values hs") auto
  with assms(2) v m show ?thesis by (auto simp: content_length_def framing_of_def)
qed

lemma content_length_absent:
  assumes "content_length (framing_of hs) = Some n" "\<not> list_ex is_cl hs"
  shows "n = 0"
  using assms cl_values_ex [of hs] by (simp add: content_length_def framing_of_def)

lemma fwd_headers_framing_of [simp]:
  "fwd_headers (framing_of hs) = filter (\<lambda>h. \<not> is_te h \<and> valid_utf8 (snd h)) hs"
  "saw_te (framing_of hs) = list_ex is_te hs" "saw_cl (framing_of hs) = list_ex is_cl hs"
  by (simp_all add: framing_of_def)

lemma length_decimal:
  "length b \<le> MAX_CHUNKED_BODY \<Longrightarrow> parse_uint 64 (trim (show_nat (length b))) = Some (length b)"
  by (simp add: parse_uint_show_nat MAX_CHUNKED_BODY_def)

text \<open>C1. The framing of every accepted request is unambiguous for the next hop: no
  \<open>Transfer-Encoding\<close> line is handed on, every \<open>Content-Length\<close> line (there may be several) is
  a number equal to the length of the body, and a request with no such line has no body.\<close>

theorem parse_request_framing:
  assumes "parse_request hp buf = Val (ReqComplete r)"
  shows "(\<forall>kv \<in> set (rq_headers r).
           \<not> eq_ignore_ascii_case (fst kv) ''transfer-encoding'' \<and>
           (eq_ignore_ascii_case (fst kv) ''content-length'' \<longrightarrow>
            parse_uint 64 (trim (snd kv)) = Some (length (rq_body r)))) \<and>
         (get_all (rq_headers r) ''content-length'' = [] \<longrightarrow> rq_body r = [])"
proof -
  obtain n h where ok: "headers_ok (hh_headers h)"
    and fb: "frame_body buf n h (framing_of (hh_headers h)) = Val (ReqComplete r)"
    using assms by (rule parse_request_CompleteE)
  let ?hs = "hh_headers h"
  have fwd: "kv \<in> set (fwd_headers (framing_of ?hs)) \<Longrightarrow>
      kv \<in> set ?hs \<and> \<not> eq_ignore_ascii_case (fst kv) ''transfer-encoding''" for kv
    by (auto simp: is_te_def)
  from fb show ?thesis
  proof (cases rule: frame_body_CompleteE)
    case (chunked body)
    have ne: "\<not> eq_ignore_ascii_case ''Content-Length'' ''transfer-encoding''"
      "eq_ignore_ascii_case ''Content-Length'' ''content-length''" by code_simp+
    have "\<forall>kv \<in> set (fwd_headers (framing_of ?hs)).
        \<not> eq_ignore_ascii_case (fst kv) ''content-length''"
      using chunked(2) by (auto simp: list_ex_iff is_cl_def)
    moreover have "rq_headers r = fwd_headers (framing_of ?hs) @ [(''Content-Length'', show_nat (length (rq_body r)))]"
      "parse_uint 64 (trim (show_nat (length (rq_body r)))) = Some (length (rq_body r))"
      using chunked(4) length_decimal [OF decode_chunked_bound [OF chunked(3)]] by simp_all
    ultimately show ?thesis
      using fwd ne by (simp add: get_all_def ball_Un del: fwd_headers_framing_of)
  next
    case (sized cl)
    have cl: "kv \<in> set (fwd_headers (framing_of ?hs)) \<Longrightarrow>
        eq_ignore_ascii_case (fst kv) ''content-length'' \<Longrightarrow>
        parse_uint 64 (trim (snd kv)) = Some cl" for kv
      by (rule content_length_framing_of [OF ok sized(2)]) (simp_all add: is_cl_def)
    have len: "length (rq_body r) = cl" using sized(3,4) by auto
    have hs: "rq_headers r = fwd_headers (framing_of ?hs)" using sized(4) by simp
    have "get_all (rq_headers r) ''content-length'' \<noteq> []" if some: "list_ex is_cl ?hs"
    proof -
      obtain kv where kv: "kv \<in> set ?hs" "is_cl kv" using some unfolding list_ex_iff by blast
      then have "valid_utf8 (snd kv)" "\<not> is_te kv"
        using ok name_classes_disjoint(1) [of kv] by (auto simp: headers_ok_def)
      with kv hs show ?thesis by (auto simp: get_all_def filter_empty_conv is_cl_def)
    qed
    then have "get_all (rq_headers r) ''content-length'' = [] \<longrightarrow> rq_body r = []"
      using content_length_absent [OF sized(2)] len by auto
    with cl fwd len hs show ?thesis by (simp del: fwd_headers_framing_of)
  qed
qed

section \<open>A tokeniser that satisfies the hypotheses\<close>

text \<open>A small request tokeniser with the two documented properties of \<open>httparse\<close>. It is used to
  evaluate the theorems on concrete bytes and by no definition above.\<close>

definition line_httparse :: httparse where
  "line_httparse buf =
     (case head_end buf of
        None \<Rightarrow> Partial
      | Some e \<Rightarrow>
          (case split_on LF (take e buf) of
             [] \<Rightarrow> ParseErr
           | rl # ls \<Rightarrow>
               (case split_on CHR '' '' (filter (\<lambda>c. c \<noteq> CR) rl) of
                  [m, p, v] \<Rightarrow>
                    if list_all (\<lambda>l. split_once CHR '':'' l \<noteq> None) ls then
                      Complete (e + 4)
                        \<lparr>hh_method = Some m, hh_path = Some p,
                         hh_version = (if v = ''HTTP/1.1'' then Some 1 else Some 0),
                         hh_headers = map (\<lambda>l. case split_once CHR '':'' l of
                             Some (n, w) \<Rightarrow> (n, trim_ascii w) | None \<Rightarrow> (l, [])) ls\<rparr>
                    else ParseErr
                | _ \<Rightarrow> ParseErr)))"

lemma head_end_bound: "head_end buf = Some e \<Longrightarrow> e + 4 \<le> length buf"
  using find_sub_SomeD [of "CRLF @ CRLF" buf e] by (simp add: head_end_def CRLF_def)

lemma httparse_offset_line: "httparse_offset line_httparse"
  unfolding httparse_offset_def
  by (auto simp: line_httparse_def dest: head_end_bound split: option.splits list.splits if_splits)

lemma httparse_stable_line: "httparse_stable line_httparse"
  unfolding httparse_stable_def
proof (intro allI impI)
  fix buf ext
  assume "line_httparse buf \<noteq> Partial"
  then obtain e where e: "head_end buf = Some e"
    by (cases "head_end buf") (simp_all add: line_httparse_def)
  then have "head_end (buf @ ext) = Some e" by (simp add: head_end_def find_sub_append)
  moreover have "take e (buf @ ext) = take e buf" using head_end_bound [OF e] by simp
  ultimately show "line_httparse (buf @ ext) = line_httparse buf"
    using e by (simp only: line_httparse_def option.case)
qed

definition demo_get :: bytes where
  "demo_get = ''GET http://a.example/p?q=1 HTTP/1.1'' @ CRLF @ ''Host: a.example:80'' @ CRLF @ CRLF"

definition demo_post :: bytes where
  "demo_post = ''POST /f HTTP/1.1'' @ CRLF @ ''Host: h'' @ CRLF @ ''Content-Length: 2'' @ CRLF @ CRLF @ ''hi''"

definition demo_chunked :: bytes where
  "demo_chunked =
     ''POST /f HTTP/1.1'' @ CRLF @ ''Host: h'' @ CRLF @ ''Transfer-Encoding: chunked'' @ CRLF @ CRLF @
     ''2'' @ CRLF @ ''hi'' @ CRLF @ ''0'' @ CRLF @ CRLF"


section \<open>Properties\<close>

theorem parse_request_framing_witness:
  "\<exists>r. parse_request line_httparse demo_chunked = Val (ReqComplete r) \<and> rq_body r = ''hi'' \<and>
     (\<forall>kv \<in> set (rq_headers r). \<not> eq_ignore_ascii_case (fst kv) ''transfer-encoding'')"
proof -
  have "case parse_request line_httparse demo_chunked of
      Val (ReqComplete r) \<Rightarrow> rq_body r = ''hi'' | _ \<Rightarrow> False" by code_simp
  then obtain r where "parse_request line_httparse demo_chunked = Val (ReqComplete r)" "rq_body r = ''hi''"
    by (auto split: outcome.splits parse_result.splits)
  with parse_request_framing [OF this(1)] show ?thesis by blast
qed

text \<open>Every accepted HTTP/1.1 request carries exactly one \<open>Host\<close> line, its value is a
  well-formed host, and the head it came from has no line feed without a carriage return.\<close>

theorem parse_request_host:
  assumes "parse_request hp buf = Val (ReqComplete r)" and "rq_version r = ''HTTP/1.1''"
  shows "\<exists>v n. get_all (rq_headers r) ''host'' = [v] \<and> host_is_valid (trim v) \<and>
           no_bare_lf None (take n buf) \<and> n \<le> length buf \<and> (\<exists>h. hp buf = Complete n h)"
proof -
  obtain n h where hp: "hp buf = Complete n h" "n \<le> length buf" "no_bare_lf None (take n buf)"
    and ok: "headers_ok (hh_headers h)"
    and fb: "frame_body buf n h (framing_of (hh_headers h)) = Val (ReqComplete r)"
    using assms(1) by (rule parse_request_CompleteE)
  let ?hs = "hh_headers h" and ?p = "\<lambda>h. \<not> is_te h \<and> valid_utf8 (snd h)"
  have v: "rq_version r = http_version (hh_version h = Some 1)"
    using fb by (cases rule: frame_body_CompleteE) simp_all
  then have "hh_version h = Some 1"
    using assms(2) by (auto simp: http_version_def split: if_splits)
  then have one: "length (filter is_host ?hs) = 1" "\<not> host_empty (framing_of ?hs)"
    using frame_body_host [OF fb] by (simp_all add: framing_of_def)
  then obtain kv where kv: "filter is_host ?hs = [kv]" by (auto simp: length_Suc_conv)
  then have mem: "kv \<in> set ?hs" "is_host kv" by (auto dest: filter_eq_ConsD)
  then have blank: "\<not> host_blank (snd kv)"
    using one(2) by (auto simp: framing_of_def list_ex_iff)
  have good: "host_is_valid (trim (snd kv))" "?p kv"
    using ok mem blank name_classes_disjoint(2) [of kv] by (auto simp: headers_ok_def host_blank_def)
  have "filter is_host (filter ?p ?hs) = filter ?p (filter is_host ?hs)"
    by (simp add: conj_commute)
  then have *: "get_all (filter ?p ?hs) ''host'' = [snd kv]"
    using good(2) kv by (simp add: get_all_def is_host_def [symmetric])
  have "\<not> eq_ignore_ascii_case ''Content-Length'' ''host''" by code_simp
  with fb * have "get_all (rq_headers r) ''host'' = [snd kv]"
    by (cases rule: frame_body_CompleteE) (simp_all add: get_all_def)
  with hp good(1) show ?thesis by blast
qed

theorem parse_request_host_witness:
  "\<exists>r v. parse_request line_httparse demo_get = Val (ReqComplete r) \<and>
     get_all (rq_headers r) ''host'' = [v] \<and> host_is_valid (trim v)"
proof -
  have "case parse_request line_httparse demo_get of
      Val (ReqComplete r) \<Rightarrow> rq_version r = ''HTTP/1.1'' | _ \<Rightarrow> False" by code_simp
  then obtain r where "parse_request line_httparse demo_get = Val (ReqComplete r)"
    "rq_version r = ''HTTP/1.1''"
    by (auto split: outcome.splits parse_result.splits)
  with parse_request_host [OF this] show ?thesis by blast
qed

lemma frame_body_stable:
  assumes "n \<le> length buf" and "frame_body buf n h f \<noteq> Val ReqIncomplete"
  shows "frame_body (buf @ ext) n h f = frame_body buf n h f"
proof (cases "content_length f")
  case None
  then show ?thesis by (simp add: frame_body_def Let_def)
next
  case (Some cl)
  have c: "decode_chunked (drop n buf) \<noteq> Val Incomplete \<Longrightarrow>
      decode_chunked (drop n (buf @ ext)) = decode_chunked (drop n buf)"
    using chunk_loop_append [of 0 "drop n buf" "[]" ext] assms(1) by (simp add: decode_chunked_def)
  show ?thesis
  proof (cases "saw_te f")
    case True
    have "decode_chunked (drop n buf) = Val Incomplete \<Longrightarrow> frame_body (buf @ ext) n h f = frame_body buf n h f"
      using assms(2) Some True by (auto simp: frame_body_def Let_def split: if_splits)
    with c show ?thesis by (cases "decode_chunked (drop n buf) = Val Incomplete") (simp_all add: frame_body_def Let_def Some True)
  next
    case False
    show ?thesis
    proof (cases "length buf - n < cl")
      case True
      with assms(2) Some False show ?thesis by (simp add: frame_body_def Let_def split: if_splits)
    next
      case enough: False
      then have "take cl (drop n (buf @ ext)) = take cl (drop n buf)" "\<not> length (buf @ ext) - n < cl"
        using assms(1) by simp_all
      with False enough Some show ?thesis by (simp only: frame_body_def Let_def option.case if_False)
    qed
  qed
qed

lemma parse_request_stable_aux:
  assumes "httparse_stable hp" and "httparse_offset hp" and "parse_request hp buf \<noteq> Val ReqIncomplete"
  shows "parse_request hp (buf @ ext) = parse_request hp buf"
proof (cases "hp buf")
  case Partial
  with assms(3) show ?thesis by (simp add: parse_request_def)
next
  case ParseErr
  with assms(1) have "hp (buf @ ext) = ParseErr" by (simp add: httparse_stable_def)
  with ParseErr show ?thesis by (simp add: parse_request_def)
next
  case (Complete n h)
  with assms have e: "hp (buf @ ext) = Complete n h" and n: "n \<le> length buf"
    by (auto simp: httparse_stable_def httparse_offset_def)
  show ?thesis
    using Complete e n assms(3) frame_body_stable [OF n]
    by (auto simp: parse_request_def split: if_splits option.splits)
qed

text \<open>The parser is incremental: once it has accepted or refused a buffer, bytes that arrive
  later (the next pipelined request, say) do not change the answer.\<close>

theorem parse_request_stable:
  assumes "httparse_stable hp" and "httparse_offset hp" and "parse_request hp buf \<noteq> Val ReqIncomplete"
  shows "parse_request hp (buf @ ext) = parse_request hp buf"
  using assms by (rule parse_request_stable_aux)

theorem parse_request_stable_witness:
  "parse_request line_httparse (demo_post @ demo_get) = parse_request line_httparse demo_post \<and>
   parse_request line_httparse demo_post \<noteq> Val ReqIncomplete"
proof -
  have "case parse_request line_httparse demo_post of Val ReqIncomplete \<Rightarrow> False | _ \<Rightarrow> True" by code_simp
  then have "parse_request line_httparse demo_post \<noteq> Val ReqIncomplete" by auto
  with parse_request_stable [OF httparse_stable_line httparse_offset_line this] show ?thesis by blast
qed

text \<open>A head whose framing is ambiguous is refused whatever follows it: two
  \<open>Content-Length\<close> values that differ, a \<open>Content-Length\<close> beside a \<open>Transfer-Encoding\<close>, a
  transfer coding other than a single \<open>chunked\<close>, chunked on HTTP/1.0, or two \<open>Host\<close> lines.\<close>

theorem parse_request_refuses:
  assumes "hp buf = Complete n h" and "n \<le> length buf"
    and "(\<exists>a \<in> set (hh_headers h). \<exists>b \<in> set (hh_headers h). is_cl a \<and> is_cl b \<and> trim (snd a) \<noteq> trim (snd b)) \<or>
         (list_ex is_te (hh_headers h) \<and> list_ex is_cl (hh_headers h)) \<or>
         (\<exists>a \<in> set (hh_headers h). is_te a \<and> \<not> te_ok (snd a)) \<or>
         (list_ex is_te (hh_headers h) \<and> hh_version h \<noteq> Some 1) \<or>
         2 \<le> length (filter is_host (hh_headers h))"
  shows "parse_request hp buf = Val ReqError"
proof (cases "headers_ok (hh_headers h)")
  case False
  with assms(1,2) show ?thesis by (simp add: parse_request_def header_loop_closed_form)
next
  case True
  then obtain v where v: "set (cl_values (hh_headers h)) \<subseteq> {v}" by (auto simp: headers_ok_def)
  have cl: "trim (snd a) = v" if "a \<in> set (hh_headers h)" "is_cl a" for a
    using v that by (auto simp: cl_values_def)
  have te: "te_ok (snd a)" if "a \<in> set (hh_headers h)" "is_te a" for a
    using True that by (auto simp: headers_ok_def)
  have "(saw_te (framing_of (hh_headers h)) \<and> saw_cl (framing_of (hh_headers h))) \<or>
      (saw_te (framing_of (hh_headers h)) \<and> hh_version h \<noteq> Some 1) \<or>
      1 < host_count (framing_of (hh_headers h))"
    using assms(3) cl te by (auto simp: framing_of_def)
  with True assms(1,2) show ?thesis
    by (auto simp: parse_request_def header_loop_closed_form frame_body_def Let_def)
qed

definition demo_smuggle :: bytes where
  "demo_smuggle =
     ''POST /f HTTP/1.1'' @ CRLF @ ''Host: h'' @ CRLF @ ''Transfer-Encoding: chunked'' @ CRLF @
     ''Content-Length: 2'' @ CRLF @ CRLF @ ''hi''"

theorem parse_request_refuses_witness: "parse_request line_httparse demo_smuggle = Val ReqError"
proof -
  have "case line_httparse demo_smuggle of
      Complete n h \<Rightarrow> n \<le> length demo_smuggle \<and> list_ex is_te (hh_headers h) \<and> list_ex is_cl (hh_headers h)
    | _ \<Rightarrow> False" by code_simp
  then obtain n h where "line_httparse demo_smuggle = Complete n h" "n \<le> length demo_smuggle"
    "list_ex is_te (hh_headers h) \<and> list_ex is_cl (hh_headers h)"
    by (auto split: httparse_status.splits)
  with parse_request_refuses [where hp = line_httparse, OF this(1,2)] show ?thesis by blast
qed

text \<open>Two spellings the parser lets through: a \<open>Content-Length\<close> with a leading plus sign is
  read as a number and the line is handed on as received, and a host with two colons before the
  port passes the host check.\<close>

theorem parse_request_lenient:
  "host_is_valid ''a::80'' \<and>
   parse_request line_httparse
     (''POST / HTTP/1.1'' @ CRLF @ ''Host: h'' @ CRLF @ ''Content-Length: +2'' @ CRLF @ CRLF @ ''hi'') =
   Val (ReqComplete \<lparr>rq_method = ''POST'', rq_path = ''/'', rq_query = None, rq_version = ''HTTP/1.1'',
     rq_headers = [(''Host'', ''h''), (''Content-Length'', ''+2'')], rq_body = ''hi''\<rparr>)"
  by code_simp

end
