(* ===== verification/H1_Reader.thy ===== *)
theory H1_Reader
  imports Io_Model H1_Request
begin

text \<open>
  Reading one request off a blocking stream, \<open>src/m6-core/src/parse.rs\<close>: the loop that asks the
  parser of \<open>H1_Request\<close> after every \<open>read\<close>, with the two size caps, the answer to
  \<open>Expect: 100-continue\<close> and the distinction between an idle connection and a request that
  stopped halfway. The loop ends because every round that goes on has consumed some of the
  reader. Besides its result it returns what it has buffered and the stream it wrote to, which
  the caller still holds.
\<close>

definition MAX_HEADER_BYTES :: nat where
  "MAX_HEADER_BYTES = 8 * 1024"

definition MAX_BODY_BYTES :: nat where
  "MAX_BODY_BYTES = 16 * 1024 * 1024"

datatype parse_error =
  ConnectionClosed | InvalidRequestLine | InvalidHeader | RequestTooLarge | RequestTimeout
| ExpectationFailed | Io io_error

fun parse_error_status :: "parse_error \<Rightarrow> nat" where
  "parse_error_status RequestTooLarge = 413"
| "parse_error_status ExpectationFailed = 417"
| "parse_error_status RequestTimeout = 408"
| "parse_error_status _ = 400"

definition parse_error_reason :: "parse_error \<Rightarrow> string" where
  "parse_error_reason e =
     (let s = parse_error_status e in
      if s = 413 then ''Payload Too Large'' else if s = 417 then ''Expectation Failed''
      else if s = 408 then ''Request Timeout'' else ''Bad Request'')"

definition buffer_cap :: "bytes \<Rightarrow> nat" where
  "buffer_cap buf =
     (if contains_sub (CRLF @ CRLF) buf then MAX_HEADER_BYTES + MAX_BODY_BYTES else MAX_HEADER_BYTES)"

definition answer_expectation :: "bool \<Rightarrow> bytes \<Rightarrow> sink \<Rightarrow> (parse_error + bool) \<times> sink" where
  "answer_expectation answered buf s =
     (if answered then (Inr True, s)
      else
        (case expectation buf of
           None \<Rightarrow> (Inr False, s)
         | Some ExpNone \<Rightarrow> (Inr True, s)
         | Some ExpContinue \<Rightarrow>
             (case write_all s CONTINUE_RESPONSE of
                (Inl e, s) \<Rightarrow> (Inl (Io e), s)
              | (Inr _, s) \<Rightarrow> (Inr True, s))
         | Some ExpUnsupported \<Rightarrow> (Inl ExpectationFailed, s)))"

definition read_failure :: "bytes \<Rightarrow> io_error \<Rightarrow> parse_error" where
  "read_failure buf e =
     (if e = WouldBlock \<or> e = TimedOut then (if buf = [] then ConnectionClosed else RequestTimeout)
      else Io e)"

type_synonym read_result = "(parse_error + raw_request) \<times> bytes \<times> sink"

function read_loop :: "httparse \<Rightarrow> bytes \<Rightarrow> bool \<Rightarrow> sink \<Rightarrow> reader \<Rightarrow> read_result outcome" where
  "read_loop hp buf answered s es =
     (case parse_request hp buf of
        Panic \<Rightarrow> Panic
      | Val (ReqComplete r) \<Rightarrow> Val (Inr r, buf, s)
      | Val ReqError \<Rightarrow> Val (Inl InvalidHeader, buf, s)
      | Val ReqIncomplete \<Rightarrow>
          if length buf > buffer_cap buf then Val (Inl RequestTooLarge, buf, s)
          else
            (case answer_expectation answered buf s of
               (Inl e, s) \<Rightarrow> Val (Inl e, buf, s)
             | (Inr answered, s) \<Rightarrow>
                 (case read_some 1024 es of
                    (Inl e, es') \<Rightarrow> Val (Inl (read_failure buf e), buf, s)
                  | (Inr b, es') \<Rightarrow>
                      if b = [] then
                        Val (Inl (if buf = [] then ConnectionClosed else InvalidRequestLine), buf, s)
                      else read_loop hp (buf @ b) answered s es')))"
  by pat_completeness auto
termination
  by (relation "measure (\<lambda>(hp, buf, answered, s, es). reader_size es)")
    (auto dest: read_some_decreases [OF sym])

declare read_loop.simps [simp del]

definition read_request :: "httparse \<Rightarrow> sink \<Rightarrow> reader \<Rightarrow> read_result outcome" where
  "read_request hp s es = read_loop hp [] False s es"

section \<open>One round of the loop\<close>

lemma read_loop_cases:
  obtains
    (stop) res s' where "read_loop hp buf answered s es = Val (res, buf, s')"
      "\<And>r. res = Inr r \<Longrightarrow> parse_request hp buf = Val (ReqComplete r)"
      "s' = s \<or> s' = snd (answer_expectation answered buf s)"
  | (panic) "read_loop hp buf answered s es = Panic" "parse_request hp buf = Panic"
  | (go) b es' answered' s' where "parse_request hp buf = Val ReqIncomplete"
      "length buf \<le> buffer_cap buf" "answer_expectation answered buf s = (Inr answered', s')"
      "read_some 1024 es = (Inr b, es')" "b \<noteq> []"
      "read_loop hp buf answered s es = read_loop hp (buf @ b) answered' s' es'"
proof -
  note unf = read_loop.simps [of hp buf answered s es]
  consider (p) "parse_request hp buf = Panic" | (c) r where "parse_request hp buf = Val (ReqComplete r)"
    | (e) "parse_request hp buf = Val ReqError" | (i) "parse_request hp buf = Val ReqIncomplete"
    by (metis outcome.exhaust parse_result.exhaust)
  then show ?thesis
  proof cases
    case p
    then show ?thesis using unf that(2) by simp
  next
    case c
    then show ?thesis using unf by (intro that(1)) auto
  next
    case e
    then show ?thesis using unf by (intro that(1)) auto
  next
    case i
    obtain a s' where a: "answer_expectation answered buf s = (a, s')" by fastforce
    obtain x es' where x: "read_some 1024 es = (x, es')" by fastforce
    show ?thesis
    proof (cases "length buf \<le> buffer_cap buf \<and> (\<exists>y. a = Inr y) \<and> (\<exists>b. x = Inr b \<and> b \<noteq> [])")
      case True
      then show ?thesis using unf i a x that(3) by auto
    next
      case False
      then have "\<exists>e t. read_loop hp buf answered s es = Val (Inl e, buf, t) \<and> (t = s \<or> t = s')"
        using unf i a x by (cases a; cases x) auto
      then show ?thesis using a that(1) by auto
    qed
  qed
qed

section \<open>What the loop keeps\<close>

text \<open>The variables of the loop as one state: what is buffered, whether the expectation has been
  answered, what has been written since the start.\<close>

lemma answer_expectation_writes:
  assumes "answer_expectation answered buf s = (r, s')"
  shows "\<exists>p. sk_data s' = sk_data s @ p \<and> prefix p CONTINUE_RESPONSE \<and> (answered \<longrightarrow> p = [] \<and> r = Inr True) \<and>
    (r = Inr False \<longrightarrow> p = [])"
proof (cases "\<not> answered \<and> expectation buf = Some ExpContinue")
  case False
  with assms show ?thesis
    by (auto simp: answer_expectation_def split: if_splits option.splits expect_kind.splits)
next
  case True
  obtain w t where w: "write_all s CONTINUE_RESPONSE = (w, t)" by fastforce
  with True assms have "s' = t" "r = Inr True \<or> (\<exists>e. r = Inl e)" "\<not> answered"
    by (auto simp: answer_expectation_def split: sum.splits)
  with write_all_prefix [OF w] show ?thesis by auto
qed

lemma read_loop_output:
  "read_loop hp buf answered s es = Val (res, held, s') \<Longrightarrow>
   \<exists>p. sk_data s' = sk_data s @ p \<and> prefix p CONTINUE_RESPONSE \<and> (answered \<longrightarrow> p = [])"
proof (induction "reader_size es" arbitrary: buf answered s es rule: less_induct)
  case less
  obtain a t where at: "answer_expectation answered buf s = (a, t)" by fastforce
  obtain p where p: "sk_data t = sk_data s @ p" "prefix p CONTINUE_RESPONSE"
    "answered \<Longrightarrow> p = []" "answered \<Longrightarrow> a = Inr True" "a = Inr False \<Longrightarrow> p = []"
    using answer_expectation_writes [OF at] by blast
  show ?case
  proof (cases rule: read_loop_cases [of hp buf answered s es])
    case (stop res' s'')
    with less.prems at p show ?thesis by auto
  next
    case panic
    with less.prems show ?thesis by simp
  next
    case (go b es' answered' s'')
    have eq: "a = Inr answered'" "t = s''" using go(3) at by auto
    have "reader_size es' < reader_size es" using go(4,5) by (rule read_some_decreases)
    from less.hyps [OF this] go(6) less.prems obtain q where q: "sk_data s' = sk_data s'' @ q"
      "prefix q CONTINUE_RESPONSE" "answered' \<Longrightarrow> q = []" by metis
    show ?thesis
    proof (cases answered')
      case True
      with q p eq show ?thesis by auto
    next
      case False
      with q p eq show ?thesis by auto
    qed
  qed
qed

lemma read_loop_buffer:
  "read_loop hp buf answered s es = Val (res, held, s') \<Longrightarrow>
   length buf \<le> MAX_HEADER_BYTES + MAX_BODY_BYTES + 1024 \<Longrightarrow>
   \<exists>got. held = buf @ got \<and> prefix got (stream_data es) \<and>
     length held \<le> MAX_HEADER_BYTES + MAX_BODY_BYTES + 1024 \<and>
     (\<forall>r. res = Inr r \<longrightarrow> parse_request hp held = Val (ReqComplete r))"
proof (induction "reader_size es" arbitrary: buf answered s es rule: less_induct)
  case less
  show ?case
  proof (cases rule: read_loop_cases [of hp buf answered s es])
    case (stop res' s'')
    with less.prems show ?thesis by auto
  next
    case panic
    with less.prems show ?thesis by simp
  next
    case (go b es' answered' s'')
    have d: "reader_size es' < reader_size es" using go(4,5) by (rule read_some_decreases)
    have "length b \<le> 1024" using go(4) by (rule read_some_length)
    moreover have "length buf \<le> MAX_HEADER_BYTES + MAX_BODY_BYTES"
      using go(2) by (auto simp: buffer_cap_def split: if_splits)
    ultimately have l: "length (buf @ b) \<le> MAX_HEADER_BYTES + MAX_BODY_BYTES + 1024" by simp
    have "read_loop hp (buf @ b) answered' s'' es' = Val (res, held, s')"
      using go(6) less.prems(1) by simp
    from less.hyps [OF d this l] obtain got where "held = (buf @ b) @ got" "prefix got (stream_data es')"
      "length held \<le> MAX_HEADER_BYTES + MAX_BODY_BYTES + 1024"
      "\<forall>r. res = Inr r \<longrightarrow> parse_request hp held = Val (ReqComplete r)" by blast
    moreover have "stream_data es = b @ stream_data es'" using read_some_data [OF _ go(4,5)] by simp
    ultimately show ?thesis by (intro exI [of _ "b @ got"]) (auto simp: prefix_def)
  qed
qed

text \<open>Reading a request is bounded and leaves the peer's view of the connection clean: the
  buffer never exceeds the two caps and one read, what it holds is what the stream delivered, an
  accepted request is the parser's answer on exactly these bytes, and nothing but (a prefix of)
  a single \<open>100 Continue\<close> has been written.\<close>

theorem read_request_safe:
  assumes "read_request hp s es = Val (res, held, s')"
  shows "prefix held (stream_data es) \<and> length held \<le> 16 * 1024 * 1024 + 9 * 1024 \<and>
         (\<forall>r. res = Inr r \<longrightarrow> parse_request hp held = Val (ReqComplete r)) \<and>
         (\<exists>p. prefix p CONTINUE_RESPONSE \<and> sk_data s' = sk_data s @ p)"
  using read_loop_buffer [of hp "[]" False s es res held s'] read_loop_output [of hp "[]" False s es res held s'] assms
  by (auto simp: read_request_def MAX_HEADER_BYTES_def MAX_BODY_BYTES_def)

text \<open>A connection on which nothing has arrived is closed without a byte being written,
  whether the peer closed it or the read timed out; a request that started and then stopped is a
  timeout or an invalid request instead.\<close>

theorem read_request_idle:
  assumes "parse_request hp [] = Val ReqIncomplete" and "es = [] \<or> es = RErr WouldBlock # rest \<or> es = RErr TimedOut # rest"
  shows "read_request hp s es = Val (Inl ConnectionClosed, [], s) \<and>
         (b \<noteq> [] \<longrightarrow> length b \<le> 1024 \<longrightarrow> parse_request hp b = Val ReqIncomplete \<longrightarrow>
          \<not> contains_sub (CRLF @ CRLF) b \<longrightarrow>
          read_request hp s (RData b # es) =
            Val (Inl (if es = [] then InvalidRequestLine else RequestTimeout), b, s))"
proof -
  have none: "expectation b = None" if "\<not> contains_sub (CRLF @ CRLF) b" for b
    using that by (simp add: contains_sub_def expectation_def head_end_def)
  have nil: "\<not> contains_sub (CRLF @ CRLF) []" by (simp add: contains_sub_def CRLF_def)
  have idle: "read_loop hp b False s es = Val (Inl (if b = [] then ConnectionClosed
      else if es = [] then InvalidRequestLine else RequestTimeout), b, s)"
    if "parse_request hp b = Val ReqIncomplete" "length b \<le> 1024" "\<not> contains_sub (CRLF @ CRLF) b" for b
    using that assms(2) none [of b]
    by (subst read_loop.simps) (auto simp: buffer_cap_def MAX_HEADER_BYTES_def answer_expectation_def read_failure_def)
  have step: "read_request hp s (RData b # es) = read_loop hp b False s es"
    if "b \<noteq> []" "length b \<le> 1024"
    using that assms(1) none [OF nil]
    by (simp add: read_request_def read_loop.simps [of hp "[]"] answer_expectation_def)
  show ?thesis using idle [OF assms(1) _ nil] idle [of b] step by (auto simp: read_request_def)
qed

theorem read_request_safe_witness:
  "\<exists>r held s'. read_request line_httparse (new_sink None) [RData demo_post] = Val (Inr r, held, s') \<and>
     parse_request line_httparse held = Val (ReqComplete r)"
proof -
  have "case read_request line_httparse (new_sink None) [RData demo_post] of
      Val (Inr r, held, s') \<Rightarrow> True | _ \<Rightarrow> False" by code_simp
  then obtain r held s' where "read_request line_httparse (new_sink None) [RData demo_post] = Val (Inr r, held, s')"
    by (auto split: outcome.splits sum.splits) (metis sum.exhaust)
  with read_request_safe [OF this] show ?thesis by blast
qed

theorem read_request_idle_witness:
  "read_request line_httparse (new_sink None) [RErr TimedOut] = Val (Inl ConnectionClosed, [], new_sink None)"
proof -
  have "parse_request line_httparse [] = Val ReqIncomplete" by code_simp
  from read_request_idle [OF this, of "[RErr TimedOut]" "[]" "new_sink None" "[]"] show ?thesis by simp
qed

lemma expectation_append: "expectation buf = Some e \<Longrightarrow> expectation (buf @ ext) = Some e"
proof -
  assume e: "expectation buf = Some e"
  then obtain n where n: "head_end buf = Some n" by (auto simp: expectation_def split: option.splits)
  then have "head_end (buf @ ext) = Some n" by (simp add: head_end_def find_sub_append)
  moreover have "take n (buf @ ext) = take n buf" using head_end_bound [OF n] by simp
  ultimately show ?thesis using e n by (simp only: expectation_def option.case)
qed

lemma answer_expectation_goes_on:
  assumes "sk_room s = None" "expectation buf \<noteq> Some ExpUnsupported"
  shows "\<exists>a s'. answer_expectation answered buf s = (Inr a, s') \<and> sk_room s' = None"
  using assms by (auto simp: answer_expectation_def write_all_None split: option.splits expect_kind.splits)

lemma read_loop_segments:
  assumes "httparse_stable hp" "httparse_offset hp" "parse_request hp d = Val (ReqComplete r)"
    "length d \<le> MAX_HEADER_BYTES" "expectation d \<noteq> Some ExpUnsupported"
  shows "d = buf @ stream_data es \<Longrightarrow> sk_room s = None \<Longrightarrow>
    \<exists>held s'. read_loop hp buf answered s es = Val (Inr r, held, s')"
proof (induction "reader_size es" arbitrary: buf answered s es rule: less_induct)
  case less
  show ?case
  proof (cases "parse_request hp buf = Val ReqIncomplete")
    case False
    with parse_request_stable_aux [OF assms(1,2) False] less.prems assms(3)
    show ?thesis by (subst read_loop.simps) simp
  next
    case True
    have "length buf \<le> buffer_cap buf" using less.prems(1) assms(4) by (simp add: buffer_cap_def)
    moreover have "expectation buf \<noteq> Some ExpUnsupported"
      using expectation_append assms(5) less.prems(1) by metis
    then obtain a s' where a: "answer_expectation answered buf s = (Inr a, s')" "sk_room s' = None"
      using answer_expectation_goes_on less.prems(2) by blast
    moreover obtain x es' where x: "read_some 1024 es = (x, es')" by fastforce
    moreover have ne: "stream_data es \<noteq> []" using True assms(3) less.prems(1) by auto
    then obtain b where b: "x = Inr b" "b \<noteq> []"
      using x read_some_error [of 1024 es] read_some_end [of 1024 es es'] by (cases x) auto
    ultimately have "read_loop hp buf answered s es = read_loop hp (buf @ b) a s' es'"
      using True by (subst read_loop.simps) simp
    moreover have "reader_size es' < reader_size es" "stream_data es = b @ stream_data es'"
      using read_some_decreases read_some_data [of 1024 es b es'] x b by auto
    ultimately show ?thesis using less.hyps [of es' "buf @ b" s' a] less.prems a(2) by simp
  qed
qed



end
