(* ===== verification/H2_Frames.thy ===== *)
theory H2_Frames
  imports M6_Prelude
begin

text \<open>
  The wire level of HTTP/2 in \<open>src/m6-http/src/http2.rs\<close>: the constants, the layout of a frame, and
  the walk over an HPACK block that checks its dynamic table size updates before the decoder
  sees it.
\<close>

unbundle bit_operations_syntax

section \<open>Constants\<close>

definition TYPE_DATA :: nat where "TYPE_DATA = 0"
definition TYPE_HEADERS :: nat where "TYPE_HEADERS = 1"
definition TYPE_PRIORITY :: nat where "TYPE_PRIORITY = 2"
definition TYPE_RST_STREAM :: nat where "TYPE_RST_STREAM = 3"
definition TYPE_SETTINGS :: nat where "TYPE_SETTINGS = 4"
definition TYPE_PUSH_PROMISE :: nat where "TYPE_PUSH_PROMISE = 5"
definition TYPE_PING :: nat where "TYPE_PING = 6"
definition TYPE_GOAWAY :: nat where "TYPE_GOAWAY = 7"
definition TYPE_WINDOW_UPDATE :: nat where "TYPE_WINDOW_UPDATE = 8"
definition TYPE_CONTINUATION :: nat where "TYPE_CONTINUATION = 9"

definition FLAG_END_STREAM :: nat where "FLAG_END_STREAM = 1"
definition FLAG_END_HEADERS :: nat where "FLAG_END_HEADERS = 4"
definition FLAG_PADDED :: nat where "FLAG_PADDED = 8"
definition FLAG_PRIORITY :: nat where "FLAG_PRIORITY = 0x20"
definition FLAG_ACK :: nat where "FLAG_ACK = 1"

definition SETTING_HEADER_TABLE_SIZE :: nat where "SETTING_HEADER_TABLE_SIZE = 1"
definition SETTING_ENABLE_PUSH :: nat where "SETTING_ENABLE_PUSH = 2"
definition SETTING_MAX_CONCURRENT_STREAMS :: nat where "SETTING_MAX_CONCURRENT_STREAMS = 3"
definition SETTING_INITIAL_WINDOW_SIZE :: nat where "SETTING_INITIAL_WINDOW_SIZE = 4"
definition SETTING_MAX_FRAME_SIZE :: nat where "SETTING_MAX_FRAME_SIZE = 5"

definition CLIENT_PREFACE :: bytes where
  "CLIENT_PREFACE = ''PRI * HTTP/2.0'' @ CRLF @ CRLF @ ''SM'' @ CRLF @ CRLF"

definition FRAME_HDR :: nat where "FRAME_HDR = 9"
definition DEFAULT_WINDOW :: int where "DEFAULT_WINDOW = 65535"
definition DEFAULT_MAX_FRAME :: nat where "DEFAULT_MAX_FRAME = 16384"
definition MAX_CONCURRENT :: nat where "MAX_CONCURRENT = 100"
definition MAX_H2_BODY :: nat where "MAX_H2_BODY = 20 * 1024 * 1024"
definition MAX_FRAME_SIZE :: nat where "MAX_FRAME_SIZE = 16384"
definition MAX_HEADER_BLOCK :: nat where "MAX_HEADER_BLOCK = 256 * 1024"

definition ERR_NO_ERROR :: nat where "ERR_NO_ERROR = 0"
definition ERR_PROTOCOL_ERROR :: nat where "ERR_PROTOCOL_ERROR = 1"
definition ERR_STREAM_CLOSED :: nat where "ERR_STREAM_CLOSED = 5"
definition ERR_REFUSED_STREAM :: nat where "ERR_REFUSED_STREAM = 7"
definition ERR_FRAME_SIZE :: nat where "ERR_FRAME_SIZE = 6"
definition ERR_FLOW_CONTROL :: nat where "ERR_FLOW_CONTROL = 3"
definition ERR_ENHANCE_YOUR_CALM :: nat where "ERR_ENHANCE_YOUR_CALM = 0xb"
definition ERR_COMPRESSION :: nat where "ERR_COMPRESSION = 9"

definition HPACK_MAX_TABLE_SIZE :: nat where "HPACK_MAX_TABLE_SIZE = 4096"
definition RESET_MEMORY :: nat where "RESET_MEMORY = 128"
definition RESET_DECAY :: nat where "RESET_DECAY = 1000000000"
definition MAX_REFUSED_STREAK :: nat where "MAX_REFUSED_STREAK = 50"

lemmas type_defs =
  TYPE_DATA_def TYPE_HEADERS_def TYPE_PRIORITY_def TYPE_RST_STREAM_def TYPE_SETTINGS_def
  TYPE_PUSH_PROMISE_def TYPE_PING_def TYPE_GOAWAY_def TYPE_WINDOW_UPDATE_def TYPE_CONTINUATION_def

section \<open>Frames\<close>

text \<open>\<open>to_be_bytes\<close> and \<open>from_be_bytes\<close>; \<open>u24_be\<close> is the latter on three bytes.\<close>

fun be_bytes :: "nat \<Rightarrow> nat \<Rightarrow> bytes" where
  "be_bytes 0 n = []"
| "be_bytes (Suc k) n = char_of ((n div 256 ^ k) mod 256) # be_bytes k n"

definition from_be :: "bytes \<Rightarrow> nat" where
  "from_be b = foldl (\<lambda>n c. n * 256 + byte_val c) 0 b"

definition u24_be :: "bytes \<Rightarrow> nat" where
  "u24_be b = from_be (take 3 b)"

definition has_flag :: "nat \<Rightarrow> nat \<Rightarrow> bool" where
  "has_flag flags f \<longleftrightarrow> flags AND f \<noteq> 0"

record frame =
  fr_type :: nat
  fr_flags :: nat
  fr_stream :: nat
  fr_payload :: bytes

text \<open>The bytes that \<open>push_frame\<close> appends.\<close>

definition frame_bytes :: "frame \<Rightarrow> bytes" where
  "frame_bytes f =
     be_bytes 3 (length (fr_payload f)) @ be_bytes 1 (fr_type f) @ be_bytes 1 (fr_flags f) @
     be_bytes 4 (fr_stream f mod 2 ^ 31) @ fr_payload f"

definition setting_bytes :: "nat \<Rightarrow> nat \<Rightarrow> bytes" where
  "setting_bytes sid val = be_bytes 2 sid @ be_bytes 4 val"

text \<open>The reading side: the head of the frame at the start of a buffer (the first bit of the
  stream id is ignored), and the cut once the whole payload is there.\<close>

definition head_length :: "bytes \<Rightarrow> nat" where
  "head_length buf = u24_be buf"

definition cut_frame :: "bytes \<Rightarrow> frame \<times> bytes" where
  "cut_frame buf =
     (\<lparr>fr_type = byte_val (buf ! 3), fr_flags = byte_val (buf ! 4),
       fr_stream = from_be (take 4 (drop 5 buf)) mod 2 ^ 31,
       fr_payload = take (head_length buf) (drop FRAME_HDR buf)\<rparr>,
      drop (FRAME_HDR + head_length buf) buf)"

section \<open>HPACK integers and the block walk\<close>

function int_loop :: "bytes \<Rightarrow> nat \<Rightarrow> nat \<Rightarrow> nat \<Rightarrow> string + (nat \<times> nat)" where
  "int_loop b i v m =
     (if length b \<le> i then Inl ''HPACK: truncated integer''
      else if m > 21 then Inl ''HPACK: integer too large''
      else
        (let byte = byte_val (b ! i) in
         case checked_add v ((byte AND 0x7f) * 2 ^ m) of
           None \<Rightarrow> Inl ''HPACK: integer overflow''
         | Some v \<Rightarrow> if byte AND 0x80 = 0 then Inr (v, i + 1) else int_loop b (i + 1) v (m + 7)))"
  by pat_completeness auto
termination
  by (relation "measure (\<lambda>(b, i, v, m). length b - i)") auto

declare int_loop.simps [simp del]

definition hpack_prefix_int :: "bytes \<Rightarrow> nat \<Rightarrow> nat \<Rightarrow> string + (nat \<times> nat)" where
  "hpack_prefix_int b i n =
     (let mask = 2 ^ n - 1 in
      if length b \<le> i then Inl ''HPACK: truncated integer''
      else
        (let v = byte_val (b ! i) AND mask in
         if v < mask then Inr (v, i + 1) else int_loop b (i + 1) v 0))"

definition hpack_skip_string :: "bytes \<Rightarrow> nat \<Rightarrow> string + nat" where
  "hpack_skip_string b i =
     (case hpack_prefix_int b i 7 of
        Inl e \<Rightarrow> Inl e
      | Inr (len, i) \<Rightarrow> if i + len > length b then Inl ''HPACK: truncated string'' else Inr (i + len))"

text \<open>One representation: the index after it and whether it is a field.\<close>

definition hpack_step :: "bytes \<Rightarrow> nat \<Rightarrow> nat \<Rightarrow> bool \<Rightarrow> string + (nat \<times> bool)" where
  "hpack_step block max_table_size i seen_field =
     (let first = byte_val (block ! i) in
      if first AND 0x80 \<noteq> 0 then
        (case hpack_prefix_int block i 7 of Inl e \<Rightarrow> Inl e | Inr (_, i) \<Rightarrow> Inr (i, True))
      else if first AND 0xe0 = 0x20 then
        (if seen_field then Inl ''HPACK: dynamic table size update after a field''
         else
           (case hpack_prefix_int block i 5 of
              Inl e \<Rightarrow> Inl e
            | Inr (sz, i) \<Rightarrow>
                if sz > max_table_size
                then Inl ''HPACK: dynamic table size update exceeds the advertised maximum''
                else Inr (i, seen_field)))
      else
        (case hpack_prefix_int block i (if first AND 0xc0 = 0x40 then 6 else 4) of
           Inl e \<Rightarrow> Inl e
         | Inr (idx, i) \<Rightarrow>
             (case (if idx = 0 then hpack_skip_string block i else Inr i) of
                Inl e \<Rightarrow> Inl e
              | Inr i \<Rightarrow> (case hpack_skip_string block i of Inl e \<Rightarrow> Inl e | Inr i \<Rightarrow> Inr (i, True)))))"

lemma int_loop_index: "int_loop b i v m = Inr (w, j) \<Longrightarrow> i < j \<and> j \<le> length b"
proof (induction b i v m rule: int_loop.induct)
  case (1 b i v m)
  from "1.prems" have g: "\<not> length b \<le> i" "\<not> m > 21" by (auto simp: int_loop.simps [of b i v m] split: if_splits)
  with "1.prems" obtain v' where v': "checked_add v ((byte_val (b ! i) AND 0x7f) * 2 ^ m) = Some v'"
    by (auto simp: int_loop.simps [of b i v m] Let_def split: option.splits)
  show ?case
  proof (cases "byte_val (b ! i) AND 0x80 = 0")
    case True
    with "1.prems" g v' show ?thesis by (auto simp: int_loop.simps [of b i v m] Let_def)
  next
    case False
    with "1.prems" g v' have "int_loop b (i + 1) v' (m + 7) = Inr (w, j)"
      by (auto simp: int_loop.simps [of b i v m] Let_def)
    from "1.IH" [OF g refl v' False this] show ?thesis by simp
  qed
qed

lemma hpack_prefix_int_index: "hpack_prefix_int b i n = Inr (v, j) \<Longrightarrow> i < j \<and> j \<le> length b"
  by (auto simp: hpack_prefix_int_def Let_def not_le dest: int_loop_index split: if_splits)

lemma hpack_skip_string_index: "hpack_skip_string b i = Inr j \<Longrightarrow> i < j \<and> j \<le> length b"
  by (auto simp: hpack_skip_string_def dest!: hpack_prefix_int_index split: sum.splits if_splits)

lemma hpack_step_index: "hpack_step b t i s = Inr (j, s') \<Longrightarrow> i < j \<and> j \<le> length b"
  by (auto simp: hpack_step_def Let_def dest!: hpack_prefix_int_index hpack_skip_string_index
      split: sum.splits if_splits)

function hpack_walk :: "bytes \<Rightarrow> nat \<Rightarrow> nat \<Rightarrow> bool \<Rightarrow> string + unit" where
  "hpack_walk block max_table_size i seen_field =
     (if i < length block then
        (case hpack_step block max_table_size i seen_field of
           Inl e \<Rightarrow> Inl e
         | Inr (i, seen_field) \<Rightarrow> hpack_walk block max_table_size i seen_field)
      else Inr ())"
  by pat_completeness auto
termination
  by (relation "measure (\<lambda>(block, t, i, s). length block - i)") (auto dest: hpack_step_index)

declare hpack_walk.simps [simp del]

definition validate_hpack_block :: "bytes \<Rightarrow> nat \<Rightarrow> string + unit" where
  "validate_hpack_block block max_table_size = hpack_walk block max_table_size 0 False"

section \<open>Frames are read back\<close>

lemma length_be_bytes [simp]: "length (be_bytes k n) = k"
  by (induction k) simp_all

lemma from_be_acc: "foldl (\<lambda>n c. n * 256 + byte_val c) a (be_bytes k n) = a * 256 ^ k + n mod 256 ^ k"
proof (induction k arbitrary: a)
  case 0
  show ?case by simp
next
  case (Suc k)
  let ?d = "(n div 256 ^ k) mod 256"
  have "n mod 256 ^ Suc k = ?d * 256 ^ k + n mod 256 ^ k"
    using mod_mult2_eq [of n "256 ^ k" 256] by (simp add: mult.commute)
  moreover have "byte_val (char_of ?d) = ?d" by (rule byte_val_char_of) simp
  ultimately show ?case by (simp only: be_bytes.simps foldl.simps Suc.IH) (simp add: distrib_right)
qed

lemma from_be_be_bytes: "n < 256 ^ k \<Longrightarrow> from_be (be_bytes k n) = n"
  by (simp add: from_be_def from_be_acc)

lemma from_be_bound: "from_be b < 256 ^ length b"
proof -
  have "foldl (\<lambda>n c. n * 256 + byte_val c) a b < (a + 1) * 256 ^ length b" for a
  proof (induction b arbitrary: a)
    case (Cons c b)
    have "a * 256 + byte_val c + 1 \<le> (a + 1) * 256" using byte_val_less [of c] by (simp add: distrib_right Suc_le_eq [symmetric])
    from less_le_trans [OF Cons.IH mult_le_mono1 [OF this]] show ?case by (simp add: distrib_right)
  qed simp
  from this [of 0] show ?thesis by (simp add: from_be_def)
qed

text \<open>A frame that is sent is read back: whatever follows it in the buffer, the length field is
  the payload's length, and the cut gives the frame and leaves what follows.\<close>

theorem cut_frame_bytes:
  assumes "fr_type f < 256" "fr_flags f < 256" "fr_stream f < 2 ^ 31" "length (fr_payload f) < 2 ^ 24"
  shows "head_length (frame_bytes f @ rest) = length (fr_payload f) \<and> cut_frame (frame_bytes f @ rest) = (f, rest)"
proof -
  let ?l = "be_bytes 3 (length (fr_payload f))" and ?s = "be_bytes 4 (fr_stream f)"
  have l: "from_be ?l = length (fr_payload f)" using assms(4) by (intro from_be_be_bytes) simp
  have s: "from_be ?s = fr_stream f" using assms(3) by (intro from_be_be_bytes) simp
  have split: "frame_bytes f @ rest = ?l @ char_of (fr_type f) # char_of (fr_flags f) # ?s @ fr_payload f @ rest"
    using assms(1-3) by (simp add: frame_bytes_def)
  have hl: "head_length (frame_bytes f @ rest) = length (fr_payload f)"
    unfolding split head_length_def u24_be_def by (simp add: l)
  have d5: "drop 5 (frame_bytes f @ rest) = ?s @ fr_payload f @ rest"
    and d9: "drop 9 (frame_bytes f @ rest) = fr_payload f @ rest" unfolding split by simp_all
  have n3: "(frame_bytes f @ rest) ! 3 = char_of (fr_type f)" and n4: "(frame_bytes f @ rest) ! 4 = char_of (fr_flags f)"
    unfolding split by (simp_all add: nth_append)
  have "drop (9 + length (fr_payload f)) (frame_bytes f @ rest) = rest"
    unfolding add.commute [of 9] drop_drop [symmetric] d9 by simp
  with hl show ?thesis
    unfolding cut_frame_def hl d5 n3 n4 FRAME_HDR_def d9 using assms s by (simp add: drop_drop)
qed

theorem cut_frame_bytes_witness:
  "cut_frame (frame_bytes \<lparr>fr_type = 8, fr_flags = 0, fr_stream = 3, fr_payload = be_bytes 4 65535\<rparr> @ ''xyz'') =
     (\<lparr>fr_type = 8, fr_flags = 0, fr_stream = 3, fr_payload = be_bytes 4 65535\<rparr>, ''xyz'')"
  by (rule conjunct2, rule cut_frame_bytes) simp_all

section \<open>What the block walk accepts\<close>

text \<open>RFC 7541: an integer with an \<open>n\<close>-bit prefix below the bits \<open>hi\<close>, a string literal (with or
  without the Huffman bit), and the representations of a header block.\<close>

function int_tail :: "nat \<Rightarrow> bytes" where
  "int_tail v = (if v < 128 then [char_of v] else char_of (128 + v mod 128) # int_tail (v div 128))"
  by pat_completeness auto
termination
  by (relation "measure id") auto

declare int_tail.simps [simp del]

definition int_bytes :: "nat \<Rightarrow> nat \<Rightarrow> nat \<Rightarrow> bytes" where
  "int_bytes n hi v =
     (if v < 2 ^ n - 1 then [char_of (hi + v)] else char_of (hi + (2 ^ n - 1)) # int_tail (v - (2 ^ n - 1)))"

type_synonym literal = "bool \<times> bytes"

definition literal_bytes :: "literal \<Rightarrow> bytes" where
  "literal_bytes s = int_bytes 7 (if fst s then 128 else 0) (length (snd s)) @ snd s"

datatype field_name = Name_Index nat | Name_Literal literal

datatype rep =
  Indexed nat
| Size_Update nat
| Incremental field_name literal
| Not_Indexed bool field_name literal

fun name_bytes :: "nat \<Rightarrow> nat \<Rightarrow> field_name \<Rightarrow> bytes" where
  "name_bytes n hi (Name_Index x) = int_bytes n hi x"
| "name_bytes n hi (Name_Literal s) = int_bytes n hi 0 @ literal_bytes s"

fun rep_bytes :: "rep \<Rightarrow> bytes" where
  "rep_bytes (Indexed x) = int_bytes 7 128 x"
| "rep_bytes (Size_Update x) = int_bytes 5 32 x"
| "rep_bytes (Incremental f v) = name_bytes 6 64 f @ literal_bytes v"
| "rep_bytes (Not_Indexed never f v) = name_bytes 4 (if never then 16 else 0) f @ literal_bytes v"

text \<open>The numbers within what four continuation bytes carry.\<close>

definition small_int :: "nat \<Rightarrow> bool" where
  "small_int v \<longleftrightarrow> v < 2 ^ 28"

fun small_name :: "field_name \<Rightarrow> bool" where
  "small_name (Name_Index x) \<longleftrightarrow> 0 < x \<and> small_int x"
| "small_name (Name_Literal s) \<longleftrightarrow> small_int (length (snd s))"

fun small_rep :: "rep \<Rightarrow> bool" where
  "small_rep (Indexed x) \<longleftrightarrow> small_int x"
| "small_rep (Size_Update x) \<longleftrightarrow> small_int x"
| "small_rep (Incremental f v) \<longleftrightarrow> small_name f \<and> small_int (length (snd v))"
| "small_rep (Not_Indexed never f v) \<longleftrightarrow> small_name f \<and> small_int (length (snd v))"

fun is_update :: "rep \<Rightarrow> bool" where
  "is_update (Size_Update x) = True"
| "is_update _ = False"

fun reps_ok :: "nat \<Rightarrow> bool \<Rightarrow> rep list \<Rightarrow> bool" where
  "reps_ok t seen [] = True"
| "reps_ok t seen (Size_Update x # rs) = (\<not> seen \<and> x \<le> t \<and> reps_ok t seen rs)"
| "reps_ok t seen (r # rs) = reps_ok t True rs"

lemma byte_masks:
  fixes x :: nat
  assumes "x < 256"
  shows "x AND 0x7f = x mod 128" "x AND 0x80 = 0 \<longleftrightarrow> x < 128" "x AND (2 ^ n - 1) = x mod 2 ^ n"
    "x AND (2 ^ n - Suc 0) = x mod 2 ^ n" "x AND 0xe0 = 0x20 \<longleftrightarrow> x div 32 = 1" "x AND 0xc0 = 0x40 \<longleftrightarrow> x div 64 = 1"
proof -
  have all: "list_all (\<lambda>x::nat. (x AND 0x80 = 0 \<longleftrightarrow> x < 128) \<and> (x AND 0xe0 = 0x20 \<longleftrightarrow> x div 32 = 1) \<and>
      (x AND 0xc0 = 0x40 \<longleftrightarrow> x div 64 = 1)) [0..<256]" by code_simp
  with assms show "x AND 0x80 = 0 \<longleftrightarrow> x < 128" "x AND 0xe0 = 0x20 \<longleftrightarrow> x div 32 = 1" "x AND 0xc0 = 0x40 \<longleftrightarrow> x div 64 = 1"
    by (auto simp: list_all_iff)
  show m: "x AND (2 ^ n - 1) = x mod 2 ^ n" for n
    using take_bit_eq_mask [of n x] by (simp add: take_bit_eq_mod mask_eq_exp_minus_1)
  from m [of 7] show "x AND 0x7f = x mod 128" by simp
  from m show "x AND (2 ^ n - Suc 0) = x mod 2 ^ n" by simp
qed

lemma int_tail_nonempty [simp]: "int_tail v \<noteq> []"
  by (simp add: int_tail.simps [of v])

lemma int_bytes_nonempty [simp]: "int_bytes n hi v \<noteq> []"
  by (simp add: int_bytes_def)

lemma int_loop_tail:
  "x < 2 ^ (28 - m) \<Longrightarrow> 7 dvd m \<Longrightarrow> m \<le> 21 \<Longrightarrow> v + x * 2 ^ m < usize_limit \<Longrightarrow>
     int_loop (pre @ int_tail x @ suf) (length pre) v m = Inr (v + x * 2 ^ m, length pre + length (int_tail x))"
proof (induction x arbitrary: pre v m rule: int_tail.induct)
  case (1 x)
  let ?b = "pre @ int_tail x @ suf"
  have in_b: "\<not> length ?b \<le> length pre" using int_tail_nonempty [of x] by (cases "int_tail x") simp_all
  show ?case
  proof (cases "x < 128")
    case True
    then have t: "int_tail x = [char_of x]" by (simp add: int_tail.simps [of x])
    have "checked_add v ((byte_val (?b ! length pre) AND 0x7f) * 2 ^ m) = Some (v + x * 2 ^ m)"
      using True "1.prems"(4) by (simp add: t checked_add_def byte_masks)
    with in_b "1.prems"(3) True show ?thesis
      by (subst int_loop.simps) (simp add: t byte_masks Let_def)
  next
    case False
    then have t: "int_tail x = char_of (128 + x mod 128) # int_tail (x div 128)" by (simp add: int_tail.simps [of x])
    have m: "m + 7 \<le> 21"
    proof -
      have "\<not> 28 - m \<le> 7"
        using False "1.prems"(1) power_increasing [of "28 - m" 7 "2::nat"] by auto
      then show ?thesis using "1.prems"(2) by presburger
    qed
    have e: "28 - m = 7 + (28 - (m + 7))" using m by simp
    have "x < 128 * 2 ^ (28 - (m + 7))" using "1.prems"(1) unfolding e power_add by simp
    then have small: "x div 128 < 2 ^ (28 - (m + 7))" by (simp add: less_mult_imp_div_less mult.commute)
    have sum: "v + x mod 128 * 2 ^ m + x div 128 * 2 ^ (m + 7) = v + x * 2 ^ m"
    proof -
      have "x * 2 ^ m = (x mod 128 + x div 128 * 128) * 2 ^ m" by simp
      also have "\<dots> = x mod 128 * 2 ^ m + x div 128 * 2 ^ (m + 7)"
        unfolding distrib_right power_add by simp
      finally show ?thesis by simp
    qed
    have "checked_add v ((byte_val (?b ! length pre) AND 0x7f) * 2 ^ m) = Some (v + x mod 128 * 2 ^ m)"
      using "1.prems"(4) sum by (simp add: t checked_add_def byte_masks)
    moreover have "int_loop ?b (length pre + 1) (v + x mod 128 * 2 ^ m) (m + 7) =
        Inr (v + x * 2 ^ m, length pre + length (int_tail x))"
      using "1.IH" [OF False small, of "v + x mod 128 * 2 ^ m" "pre @ [char_of (128 + x mod 128)]"]
        "1.prems"(2,4) m by (simp add: sum t)
    ultimately show ?thesis using in_b m
      by (subst int_loop.simps) (simp add: t byte_masks Let_def)
  qed
qed

lemma prefix_int_bytes:
  assumes "small_int v" "2 ^ n dvd hi" "hi + 2 ^ n \<le> 256" "n \<le> 8"
  shows "hpack_prefix_int (pre @ int_bytes n hi v @ suf) (length pre) n = Inr (v, length pre + length (int_bytes n hi v))"
proof (cases "v < 2 ^ n - 1")
  case True
  then have "hi + v < 256" "(hi + v) mod 2 ^ n = v" using assms by (auto simp: dvd_def)
  with True show ?thesis by (simp add: hpack_prefix_int_def int_bytes_def byte_masks Let_def)
next
  case False
  have hi: "hi + (2 ^ n - 1) < 256" "(hi + (2 ^ n - 1)) mod 2 ^ n = 2 ^ n - 1"
  proof -
    show "hi + (2 ^ n - 1) < 256" using assms(3) by simp
    obtain k where "hi = 2 ^ n * k" using assms(2) by (auto simp: dvd_def)
    then show "(hi + (2 ^ n - 1)) mod 2 ^ n = 2 ^ n - 1" by (simp only: mod_mult_self4) simp
  qed
  have "v - (2 ^ n - 1) < 2 ^ 28" using assms(1) diff_le_self [of v "2 ^ n - 1"] unfolding small_int_def by linarith
  then have "int_loop ((pre @ [char_of (hi + (2 ^ n - 1))]) @ int_tail (v - (2 ^ n - 1)) @ suf)
      (length (pre @ [char_of (hi + (2 ^ n - 1))])) (2 ^ n - 1) 0 =
      Inr (2 ^ n - 1 + (v - (2 ^ n - 1)) * 2 ^ 0, length (pre @ [char_of (hi + (2 ^ n - 1))]) + length (int_tail (v - (2 ^ n - 1))))"
    using False assms(1) by (intro int_loop_tail) (simp_all add: small_int_def)
  with False hi show ?thesis by (simp add: hpack_prefix_int_def int_bytes_def byte_masks Let_def)
qed

lemma skip_literal:
  assumes "small_int (length (snd s))"
  shows "hpack_skip_string (pre @ literal_bytes s @ suf) (length pre) = Inr (length pre + length (literal_bytes s))"
proof -
  let ?hi = "if fst s then 128 else 0 :: nat"
  have "hpack_prefix_int (pre @ int_bytes 7 ?hi (length (snd s)) @ (snd s @ suf)) (length pre) 7 =
      Inr (length (snd s), length pre + length (int_bytes 7 ?hi (length (snd s))))"
    by (rule prefix_int_bytes [OF assms]) auto
  then show ?thesis by (simp add: hpack_skip_string_def literal_bytes_def)
qed

lemma int_bytes_first:
  "byte_val ((pre @ int_bytes n hi v @ suf) ! length pre) = (if v < 2 ^ n - 1 then hi + v else hi + (2 ^ n - 1))"
  if "hi + 2 ^ n \<le> 256"
proof -
  have "hi + (2 ^ n - 1) < 256" using that by (cases "2 ^ n :: nat") auto
  moreover from this have "v < 2 ^ n - 1 \<Longrightarrow> hi + v < 256" by simp
  ultimately show ?thesis by (simp add: int_bytes_def)
qed

lemma name_step:
  assumes "small_name f" "small_int (length (snd v))" "n = 4 \<or> n = 6" "hi = 64 \<longleftrightarrow> n = 6" "hi \<in> {0, 16, 64}"
  shows "hpack_step (pre @ (name_bytes n hi f @ literal_bytes v) @ suf) t (length pre) seen =
     Inr (length pre + length (name_bytes n hi f @ literal_bytes v), True)"
proof -
  let ?x = "case f of Name_Index x \<Rightarrow> x | Name_Literal s \<Rightarrow> 0"
  let ?r = "(case f of Name_Index x \<Rightarrow> [] | Name_Literal s \<Rightarrow> literal_bytes s) @ literal_bytes v @ suf"
  have nb: "pre @ (name_bytes n hi f @ literal_bytes v) @ suf = pre @ int_bytes n hi ?x @ ?r"
    by (cases f) simp_all
  have p: "2 ^ n dvd hi" "hi + 2 ^ n \<le> 256" "n \<le> 8" "hi + 2 ^ n \<le> 128" using assms(3-5) by auto
  let ?b = "pre @ int_bytes n hi ?x @ ?r"
  define d where "d = byte_val (?b ! length pre)"
  have first: "d = (if ?x < 2 ^ n - 1 then hi + ?x else hi + (2 ^ n - 1))"
    unfolding d_def by (rule int_bytes_first [OF p(2)])
  have d: "d < 256" by (simp add: d_def)
  have cls: "d < 128" "d div 32 \<noteq> 1" "d div 64 = 1 \<longleftrightarrow> n = 6" using first assms(3-5) by auto
  have i: "hpack_prefix_int ?b (length pre) n = Inr (?x, length pre + length (int_bytes n hi ?x))"
    using assms(1) p by (intro prefix_int_bytes) (auto simp: small_int_def split: field_name.split)
  have v: "hpack_skip_string ((pre @ name_bytes n hi f) @ literal_bytes v @ suf) (length (pre @ name_bytes n hi f)) =
      Inr (length (pre @ name_bytes n hi f) + length (literal_bytes v))" by (rule skip_literal [OF assms(2)])
  have s: "hpack_skip_string ((pre @ int_bytes n hi 0) @ literal_bytes s @ (literal_bytes v @ suf)) (length (pre @ int_bytes n hi 0)) =
      Inr (length (pre @ int_bytes n hi 0) + length (literal_bytes s))" if "f = Name_Literal s" for s
    using assms(1) that by (intro skip_literal) simp
  have w: "(if d AND 0xc0 = 0x40 then 6 else 4) = n" using assms(3) cls(3) by (auto simp: byte_masks [OF d])
  have "hpack_step ?b t (length pre) seen =
      (case hpack_prefix_int ?b (length pre) n of
           Inl e \<Rightarrow> Inl e
         | Inr (idx, i) \<Rightarrow>
             (case (if idx = 0 then hpack_skip_string ?b i else Inr i) of
                Inl e \<Rightarrow> Inl e
              | Inr i \<Rightarrow> (case hpack_skip_string ?b i of Inl e \<Rightarrow> Inl e | Inr i \<Rightarrow> Inr (i, True))))"
    unfolding hpack_step_def Let_def d_def [symmetric] w using cls(1,2) by (simp add: byte_masks [OF d])
  also have "\<dots> = Inr (length pre + length (name_bytes n hi f @ literal_bytes v), True)"
    using assms(1) v s unfolding i by (cases f) (simp_all add: add.assoc)
  finally show ?thesis unfolding nb .
qed

lemma rep_step:
  assumes "small_rep r"
  shows "hpack_step (pre @ rep_bytes r @ suf) t (length pre) seen =
    (case r of
       Size_Update x \<Rightarrow>
         if seen then Inl ''HPACK: dynamic table size update after a field''
         else if x > t then Inl ''HPACK: dynamic table size update exceeds the advertised maximum''
         else Inr (length pre + length (rep_bytes r), seen)
     | _ \<Rightarrow> Inr (length pre + length (rep_bytes r), True))"
proof (cases r)
  case (Indexed x)
  have "hpack_prefix_int (pre @ int_bytes 7 128 x @ suf) (length pre) 7 = Inr (x, length pre + length (int_bytes 7 128 x))"
    using assms Indexed by (intro prefix_int_bytes) simp_all
  moreover have "byte_val ((pre @ int_bytes 7 128 x @ suf) ! length pre) AND 0x80 \<noteq> 0"
    by (subst byte_masks(2), simp, subst int_bytes_first) simp_all
  ultimately show ?thesis by (simp add: Indexed hpack_step_def Let_def)
next
  case (Size_Update x)
  have "hpack_prefix_int (pre @ int_bytes 5 32 x @ suf) (length pre) 5 = Inr (x, length pre + length (int_bytes 5 32 x))"
    using assms Size_Update by (intro prefix_int_bytes) simp_all
  moreover define d where "d = byte_val ((pre @ int_bytes 5 32 x @ suf) ! length pre)"
  moreover have "d < 128 \<and> d div 32 = 1"
    unfolding d_def using int_bytes_first [of 32 5 pre x suf] by (auto split: if_splits)
  moreover have "d < 256" by (simp add: d_def)
  ultimately have "d AND 0x80 = 0" "d AND 0xe0 = 0x20"
    "hpack_prefix_int (pre @ int_bytes 5 32 x @ suf) (length pre) 5 = Inr (x, length pre + length (int_bytes 5 32 x))"
    by (simp_all add: byte_masks)
  then show ?thesis
    by (simp add: Size_Update hpack_step_def d_def [symmetric] Let_def)
next
  case (Incremental f v)
  with assms name_step [of f v 6 64 pre suf t seen] show ?thesis by simp
next
  case (Not_Indexed never f v)
  with assms name_step [of f v 4 "if never then 16 else 0" pre suf t seen] show ?thesis by simp
qed

lemma literal_bytes_nonempty [simp]: "literal_bytes s \<noteq> []"
  by (simp add: literal_bytes_def)

lemma rep_bytes_nonempty: "rep_bytes r \<noteq> []"
  by (cases r) simp_all

lemma walk_reps:
  "list_all small_rep rs \<Longrightarrow>
     hpack_walk (pre @ concat (map rep_bytes rs)) t (length pre) seen = Inr () \<longleftrightarrow> reps_ok t seen rs"
proof (induction rs arbitrary: pre seen)
  case Nil
  show ?case by (simp add: hpack_walk.simps)
next
  case (Cons r rs)
  have lt: "length pre < length (pre @ concat (map rep_bytes (r # rs)))" using rep_bytes_nonempty [of r] by simp
  have step: "hpack_step (pre @ concat (map rep_bytes (r # rs))) t (length pre) seen =
      hpack_step (pre @ rep_bytes r @ concat (map rep_bytes rs)) t (length pre) seen" by simp
  have IH: "hpack_walk (pre @ concat (map rep_bytes (r # rs))) t (length pre + length (rep_bytes r)) s = Inr () \<longleftrightarrow> reps_ok t s rs" for s
    using Cons.IH [of "pre @ rep_bytes r" s] Cons.prems by simp
  from Cons.prems show ?case
    by (subst hpack_walk.simps, cases r) (use lt IH rep_step [of r pre "concat (map rep_bytes rs)" t seen] in auto)
qed

lemma reps_ok_seen: "reps_ok t True rs \<longleftrightarrow> list_all (\<lambda>f. \<not> is_update f) rs"
proof (induction rs)
  case (Cons r rs)
  then show ?case by (cases r) simp_all
qed simp

lemma reps_ok_split:
  "reps_ok t False rs \<longleftrightarrow>
     (\<exists>us fs. rs = us @ fs \<and> list_all (\<lambda>u. \<exists>x \<le> t. u = Size_Update x) us \<and> list_all (\<lambda>f. \<not> is_update f) fs)"
proof (induction rs)
  case Nil
  show ?case by simp
next
  case (Cons r rs)
  have field: "\<not> is_update r \<Longrightarrow>
     (\<exists>us fs. r # rs = us @ fs \<and> list_all (\<lambda>u. \<exists>x \<le> t. u = Size_Update x) us \<and> list_all (\<lambda>f. \<not> is_update f) fs) \<longleftrightarrow>
       list_all (\<lambda>f. \<not> is_update f) rs"
    unfolding Cons_eq_append_conv by fastforce
  show ?case
  proof (cases r)
    case (Size_Update x)
    have "(\<exists>us fs. Size_Update x # rs = us @ fs \<and> list_all (\<lambda>u. \<exists>x \<le> t. u = Size_Update x) us \<and> list_all (\<lambda>f. \<not> is_update f) fs) \<longleftrightarrow>
        x \<le> t \<and> (\<exists>us fs. rs = us @ fs \<and> list_all (\<lambda>u. \<exists>x \<le> t. u = Size_Update x) us \<and> list_all (\<lambda>f. \<not> is_update f) fs)"
      (is "?l \<longleftrightarrow> ?r")
    proof
      show "?l \<Longrightarrow> ?r" unfolding Cons_eq_append_conv by fastforce
      assume ?r
      then obtain us fs where "x \<le> t" "rs = us @ fs" "list_all (\<lambda>u. \<exists>x \<le> t. u = Size_Update x) us" "list_all (\<lambda>f. \<not> is_update f) fs"
        by blast
      then show ?l by (intro exI [of _ "Size_Update x # us"] exI [of _ fs]) simp
    qed
    with Cons.IH Size_Update show ?thesis by simp
  qed (use field in \<open>simp_all add: reps_ok_seen\<close>)
qed

text \<open>C11. On every header block that is a sequence of HPACK representations (indexed fields,
  literals with an index or a name, table size updates, Huffman coded or not) the walk
  accepts exactly the blocks whose size updates all come before the first field and are within the
  advertised maximum.\<close>

theorem validate_hpack_block_iff:
  assumes "list_all small_rep rs"
  shows "validate_hpack_block (concat (map rep_bytes rs)) t = Inr () \<longleftrightarrow>
     (\<exists>us fs. rs = us @ fs \<and> list_all (\<lambda>u. \<exists>x \<le> t. u = Size_Update x) us \<and> list_all (\<lambda>f. \<not> is_update f) fs)"
proof -
  have "validate_hpack_block (concat (map rep_bytes rs)) t = Inr () \<longleftrightarrow> reps_ok t False rs"
    using walk_reps [OF assms, of "[]" t False] by (simp add: validate_hpack_block_def)
  then show ?thesis by (simp only: reps_ok_split)
qed

theorem validate_hpack_block_iff_witness:
  "validate_hpack_block (concat (map rep_bytes [Size_Update 4096, Indexed 2, Incremental (Name_Literal (False, ''x'')) (True, ''yz'')])) 4096 = Inr () \<and>
   validate_hpack_block (concat (map rep_bytes [Indexed 2, Size_Update 0])) 4096 \<noteq> Inr ()"
proof
  have "list_all small_rep [Size_Update 4096, Indexed 2, Incremental (Name_Literal (False, ''x'')) (True, ''yz'')]"
    by (simp add: small_int_def)
  from validate_hpack_block_iff [OF this, of 4096] show
    "validate_hpack_block (concat (map rep_bytes [Size_Update 4096, Indexed 2, Incremental (Name_Literal (False, ''x'')) (True, ''yz'')])) 4096 = Inr ()"
    by (rule iffD2) (rule exI [of _ "[Size_Update 4096]"], simp)
  show "validate_hpack_block (concat (map rep_bytes [Indexed 2, Size_Update 0])) 4096 \<noteq> Inr ()" by code_simp
qed

end
