(* ===== verification/H2_Fields.thy ===== *)
theory H2_Fields
  imports Http_Headers
begin

text \<open>
  Validation of a decoded request header list, \<open>src/m6-http/src/fields.rs\<close>, shared by HTTP/2 and
  HTTP/3. The loop over the fields keeps the variables of the source in the record \<open>fields\<close>; an
  error is \<open>Inl\<close> of the reason.
\<close>

definition CONNECTION_SPECIFIC :: "bytes list" where
  "CONNECTION_SPECIFIC = [''connection'', ''keep-alive'', ''proxy-connection'', ''transfer-encoding'', ''upgrade'']"

record fields =
  fl_seen_regular :: bool
  fl_method :: nat
  fl_scheme :: nat
  fl_path :: nat
  fl_authority :: nat
  fl_path_value :: "bytes option"
  fl_method_value :: "bytes option"
  fl_scheme_value :: "bytes option"
  fl_seen_host :: bool

definition fields_init :: fields where
  "fields_init =
     \<lparr>fl_seen_regular = False, fl_method = 0, fl_scheme = 0, fl_path = 0, fl_authority = 0,
      fl_path_value = None, fl_method_value = None, fl_scheme_value = None, fl_seen_host = False\<rparr>"

definition pseudo_step :: "fields \<Rightarrow> bytes \<Rightarrow> bytes \<Rightarrow> string + fields" where
  "pseudo_step f pseudo v =
     (if fl_seen_regular f then Inl ''pseudo-header after regular field''
      else if pseudo = ''method'' then Inr (f\<lparr>fl_method := fl_method f + 1, fl_method_value := Some v\<rparr>)
      else if pseudo = ''scheme'' then Inr (f\<lparr>fl_scheme := fl_scheme f + 1, fl_scheme_value := Some v\<rparr>)
      else if pseudo = ''path'' then Inr (f\<lparr>fl_path := fl_path f + 1, fl_path_value := Some v\<rparr>)
      else if pseudo = ''authority'' then Inr (f\<lparr>fl_authority := fl_authority f + 1\<rparr>)
      else if pseudo = ''status'' then Inl ''response pseudo-header in request''
      else Inl ''unknown pseudo-header'')"

definition regular_step :: "fields \<Rightarrow> bytes \<Rightarrow> bytes \<Rightarrow> string + fields" where
  "regular_step f name v =
     (let f = f\<lparr>fl_seen_regular := True\<rparr> in
      if name \<in> set CONNECTION_SPECIFIC then Inl ''connection-specific header field''
      else
        (let f = (if name = ''host'' then f\<lparr>fl_seen_host := True\<rparr> else f) in
         if name = ''te'' \<and> v \<noteq> ''trailers'' then Inl ''TE header with a value other than trailers''
         else Inr f))"

fun field_loop :: "fields \<Rightarrow> (bytes \<times> bytes) list \<Rightarrow> string + fields" where
  "field_loop f [] = Inr f"
| "field_loop f ((name, v) # hs) =
     (if name = [] then Inl ''empty field name''
      else if list_ex is_ascii_uppercase name then Inl ''uppercase field name''
      else
        (case (if hd name = CHR '':'' then pseudo_step f (tl name) v else regular_step f name v) of
           Inl e \<Rightarrow> Inl e
         | Inr f \<Rightarrow> field_loop f hs))"

text \<open>The checks after the loop.\<close>

definition final_check :: "fields \<Rightarrow> string + unit" where
  "final_check f =
     (if fl_method f > 1 \<or> fl_scheme f > 1 \<or> fl_path f > 1 \<or> fl_authority f > 1
      then Inl ''duplicate pseudo-header''
      else if fl_method_value f = Some ''CONNECT'' then
        (if fl_scheme f \<noteq> 0 \<or> fl_path f \<noteq> 0 then Inl ''CONNECT with :scheme or :path''
         else if fl_authority f = 0 then Inl ''CONNECT without :authority''
         else Inr ())
      else if fl_method f = 0 then Inl ''missing :method''
      else if fl_scheme f = 0 then Inl ''missing :scheme''
      else if fl_path f = 0 then Inl ''missing :path''
      else if fl_path_value f = Some [] then Inl ''empty :path''
      else if fl_path_value f = Some ''*'' \<and> fl_method_value f \<noteq> Some ''OPTIONS''
      then Inl ''asterisk :path on non-OPTIONS''
      else if (fl_scheme_value f = Some ''http'' \<or> fl_scheme_value f = Some ''https'') \<and>
              fl_authority f = 0 \<and> \<not> fl_seen_host f
      then Inl ''neither :authority nor Host''
      else Inr ())"

definition validate_request_header_bytes :: "(bytes \<times> bytes) list \<Rightarrow> string + unit" where
  "validate_request_header_bytes hs =
     (case field_loop fields_init hs of Inl e \<Rightarrow> Inl e | Inr f \<Rightarrow> final_check f)"

definition validate_request_headers :: "headers \<Rightarrow> string + unit" where
  "validate_request_headers hs = validate_request_header_bytes hs"

section \<open>What an accepted list looks like\<close>

definition is_pseudo :: "bytes \<times> bytes \<Rightarrow> bool" where
  "is_pseudo kv \<longleftrightarrow> fst kv \<noteq> [] \<and> hd (fst kv) = CHR '':''"

definition count_name :: "bytes \<Rightarrow> (bytes \<times> bytes) list \<Rightarrow> nat" where
  "count_name n hs = length (filter (\<lambda>kv. fst kv = n) hs)"

definition known_pseudo :: "bytes \<times> bytes \<Rightarrow> bool" where
  "known_pseudo kv \<longleftrightarrow> fst kv \<in> {'':method'', '':scheme'', '':path'', '':authority''}"

definition plain_field :: "bytes \<times> bytes \<Rightarrow> bool" where
  "plain_field kv \<longleftrightarrow> fst kv \<noteq> [] \<and> \<not> is_pseudo kv \<and> fst kv \<notin> set CONNECTION_SPECIFIC \<and>
     (fst kv = ''te'' \<longrightarrow> snd kv = ''trailers'')"

definition order_ok :: "(bytes \<times> bytes) list \<Rightarrow> bool \<Rightarrow> bool" where
  "order_ok hs seen \<longleftrightarrow>
     (\<exists>ps rs. hs = ps @ rs \<and> list_all known_pseudo ps \<and> list_all plain_field rs \<and> (seen \<longleftrightarrow> rs \<noteq> []))"

lemma order_ok_pseudo: "order_ok hs False \<Longrightarrow> known_pseudo kv \<Longrightarrow> order_ok (hs @ [kv]) False"
  by (force simp: order_ok_def)

lemma order_ok_regular:
  assumes "order_ok hs seen" and "plain_field kv"
  shows "order_ok (hs @ [kv]) True"
proof -
  obtain ps rs where "hs = ps @ rs" "list_all known_pseudo ps" "list_all plain_field rs"
    using assms(1) by (auto simp: order_ok_def)
  with assms(2) show ?thesis
    unfolding order_ok_def by (intro exI [of _ ps] exI [of _ "rs @ [kv]"]) simp
qed

text \<open>One of the values the loop keeps: it comes from a field of that name, and is there when the
  count is positive.\<close>

definition kept_value :: "bytes \<Rightarrow> (bytes \<times> bytes) list \<Rightarrow> nat \<Rightarrow> bytes option \<Rightarrow> bool" where
  "kept_value n hs c v \<longleftrightarrow> c = count_name n hs \<and> (0 < c \<longrightarrow> v \<noteq> None) \<and> (\<forall>x. v = Some x \<longrightarrow> (n, x) \<in> set hs)"

lemma kept_value_other: "kept_value n hs c v \<Longrightarrow> fst kv \<noteq> n \<Longrightarrow> kept_value n (hs @ [kv]) c v"
  by (simp add: kept_value_def count_name_def)

lemma kept_value_same: "kept_value n hs c v \<Longrightarrow> kept_value n (hs @ [(n, x)]) (Suc c) (Some x)"
  by (simp add: kept_value_def count_name_def)

text \<open>The loop's variables as functions of the fields read so far.\<close>

definition fields_spec :: "(bytes \<times> bytes) list \<Rightarrow> fields \<Rightarrow> bool" where
  "fields_spec hs f \<longleftrightarrow>
     order_ok hs (fl_seen_regular f) \<and> (\<forall>kv \<in> set hs. \<not> list_ex is_ascii_uppercase (fst kv)) \<and>
     kept_value '':method'' hs (fl_method f) (fl_method_value f) \<and>
     kept_value '':scheme'' hs (fl_scheme f) (fl_scheme_value f) \<and>
     kept_value '':path'' hs (fl_path f) (fl_path_value f) \<and>
     fl_authority f = count_name '':authority'' hs \<and>
     (fl_seen_host f \<longleftrightarrow> 0 < count_name ''host'' hs)"

lemma count_name_snoc: "count_name n (hs @ [kv]) = count_name n hs + (if fst kv = n then 1 else 0)"
  by (simp add: count_name_def)

lemma pseudo_step_spec:
  assumes "fields_spec hs f" "pseudo_step f p v = Inr f'" "\<not> list_ex is_ascii_uppercase (CHR '':'' # p)"
  shows "fields_spec (hs @ [(CHR '':'' # p, v)]) f'"
proof -
  have no: "\<not> fl_seen_regular f" and
    p: "p \<in> {''method'', ''scheme'', ''path'', ''authority''}"
    using assms(2) by (auto simp: pseudo_step_def split: if_splits)
  have ord: "order_ok (hs @ [(CHR '':'' # p, v)]) False"
    using assms(1) no p by (intro order_ok_pseudo) (auto simp: fields_spec_def known_pseudo_def)
  have k: "kept_value '':method'' hs (fl_method f) (fl_method_value f)"
    "kept_value '':scheme'' hs (fl_scheme f) (fl_scheme_value f)"
    "kept_value '':path'' hs (fl_path f) (fl_path_value f)"
    and rest: "\<forall>kv \<in> set hs. \<not> list_ex is_ascii_uppercase (fst kv)"
      "fl_authority f = count_name '':authority'' hs" "fl_seen_host f \<longleftrightarrow> 0 < count_name ''host'' hs"
    using assms(1) by (auto simp: fields_spec_def)
  consider "p = ''method''" | "p = ''scheme''" | "p = ''path''" | "p = ''authority''" using p by blast
  then show ?thesis
    using assms(2,3) ord no rest
    by cases (auto simp: fields_spec_def pseudo_step_def count_name_snoc kept_value_other k
        kept_value_same [OF k(1)] kept_value_same [OF k(2)] kept_value_same [OF k(3)])
qed

lemma regular_step_spec:
  assumes "fields_spec hs f" "regular_step f n v = Inr f'" "\<not> list_ex is_ascii_uppercase n"
    "n \<noteq> []" "hd n \<noteq> CHR '':''"
  shows "fields_spec (hs @ [(n, v)]) f'"
proof -
  have "plain_field (n, v)"
    using assms(2,4,5) by (auto simp: regular_step_def plain_field_def is_pseudo_def Let_def split: if_splits)
  then have ord: "order_ok (hs @ [(n, v)]) True"
    using assms(1) order_ok_regular by (auto simp: fields_spec_def)
  have f': "f' = f\<lparr>fl_seen_regular := True, fl_seen_host := (fl_seen_host f \<or> n = ''host'')\<rparr>"
    using assms(2) by (auto simp: regular_step_def Let_def split: if_splits)
  have ne: "n \<noteq> '':method''" "n \<noteq> '':scheme''" "n \<noteq> '':path''" "n \<noteq> '':authority''" using assms(5) by auto
  have k: "kept_value '':method'' hs (fl_method f) (fl_method_value f)"
    "kept_value '':scheme'' hs (fl_scheme f) (fl_scheme_value f)"
    "kept_value '':path'' hs (fl_path f) (fl_path_value f)"
    and rest: "\<forall>kv \<in> set hs. \<not> list_ex is_ascii_uppercase (fst kv)"
      "fl_authority f = count_name '':authority'' hs" "fl_seen_host f \<longleftrightarrow> 0 < count_name ''host'' hs"
    using assms(1) by (auto simp: fields_spec_def)
  show ?thesis
    unfolding f' using assms(3) ord ne rest
    by (simp add: fields_spec_def count_name_snoc kept_value_other k)
qed

lemma field_loop_spec:
  "fields_spec hs f \<Longrightarrow> field_loop f ts = Inr f' \<Longrightarrow> fields_spec (hs @ ts) f'"
proof (induction ts arbitrary: hs f)
  case Nil
  then show ?case by simp
next
  case (Cons t ts)
  obtain n v where t: "t = (n, v)" by fastforce
  have n: "n \<noteq> []" "\<not> list_ex is_ascii_uppercase n" using Cons.prems(2) t by (auto split: if_splits)
  obtain f1 where f1: "(if hd n = CHR '':'' then pseudo_step f (tl n) v else regular_step f n v) = Inr f1"
    "field_loop f1 ts = Inr f'"
    using Cons.prems(2) t n by (auto split: sum.splits)
  have "fields_spec (hs @ [(n, v)]) f1"
  proof (cases "hd n = CHR '':''")
    case True
    then have "n = CHR '':'' # tl n" using n(1) by (cases n) auto
    with True f1(1) n(2) pseudo_step_spec [OF Cons.prems(1)] show ?thesis by metis
  next
    case False
    with f1(1) n regular_step_spec [OF Cons.prems(1)] show ?thesis by simp
  qed
  from Cons.IH [OF this f1(2)] t show ?case by simp
qed

text \<open>Every request that HTTP/2 or HTTP/3 accepts is well formed: all field names are lower
  case, the pseudo-headers come first and are known request ones, none is repeated, no
  connection-specific field appears, \<open>te\<close> is only \<open>trailers\<close>; a request other than CONNECT has
  exactly one \<open>:method\<close>, \<open>:scheme\<close> and non-empty \<open>:path\<close>, and for \<open>http\<close> and \<open>https\<close> an origin; and
  CONNECT has an \<open>:authority\<close> and neither of the others.\<close>

theorem validate_request_headers_ok:
  assumes "validate_request_headers hs = Inr ()"
  shows "(\<exists>ps rs. hs = ps @ rs \<and> list_all known_pseudo ps \<and> list_all plain_field rs) \<and>
    (\<forall>kv \<in> set hs. \<not> list_ex is_ascii_uppercase (fst kv)) \<and>
    count_name '':method'' hs \<le> 1 \<and> count_name '':authority'' hs \<le> 1 \<and>
    (if ('':method'', ''CONNECT'') \<in> set hs
     then count_name '':scheme'' hs = 0 \<and> count_name '':path'' hs = 0 \<and> count_name '':authority'' hs = 1
     else count_name '':method'' hs = 1 \<and> count_name '':scheme'' hs = 1 \<and> count_name '':path'' hs = 1 \<and>
       (\<forall>v. ('':path'', v) \<in> set hs \<longrightarrow> v \<noteq> [] \<and> (v = ''*'' \<longrightarrow> ('':method'', ''OPTIONS'') \<in> set hs)) \<and>
       (('':scheme'', ''http'') \<in> set hs \<or> ('':scheme'', ''https'') \<in> set hs \<longrightarrow>
          count_name '':authority'' hs = 1 \<or> 0 < count_name ''host'' hs))"
proof -
  obtain f where f: "field_loop fields_init hs = Inr f" "final_check f = Inr ()"
    using assms by (auto simp: validate_request_headers_def validate_request_header_bytes_def split: sum.splits)
  have "fields_spec [] fields_init"
    by (simp add: fields_spec_def fields_init_def order_ok_def kept_value_def count_name_def)
  from field_loop_spec [OF this f(1)] have sp: "fields_spec hs f" by simp
  have once: "(n, x) \<in> set hs \<Longrightarrow> v = Some x" if "kept_value n hs c v" "c \<le> 1" for n c v x
  proof -
    assume m: "(n, x) \<in> set hs"
    have "filter (\<lambda>kv. fst kv = n) hs \<noteq> []" using m by (force simp: filter_empty_conv)
    with that have "length (filter (\<lambda>kv. fst kv = n) hs) = 1" "v \<noteq> None"
      by (auto simp: kept_value_def count_name_def Suc_le_eq le_Suc_eq)
    then obtain kv y where kv: "filter (\<lambda>kv. fst kv = n) hs = [kv]" "v = Some y" by (auto simp: length_Suc_conv)
    have "(n, x) \<in> set (filter (\<lambda>kv. fst kv = n) hs)" "(n, y) \<in> set (filter (\<lambda>kv. fst kv = n) hs)"
      using m that kv(2) by (auto simp: kept_value_def)
    with kv show ?thesis by auto
  qed
  have le: "fl_method f \<le> 1" "fl_scheme f \<le> 1" "fl_path f \<le> 1" "fl_authority f \<le> 1"
    using f(2) by (auto simp: final_check_def split: if_splits)
  have val: "(n, x) \<in> set hs \<longleftrightarrow> v = Some x" if "kept_value n hs c v" "c \<le> 1" for n c v x
    using once [OF that, of x] that(1) by (auto simp: kept_value_def)
  note mv = val [of "'':method''" "fl_method f" "fl_method_value f"]
    and pv = val [of "'':path''" "fl_path f" "fl_path_value f"]
    and sv = val [of "'':scheme''" "fl_scheme f" "fl_scheme_value f"]
  have k: "kept_value '':method'' hs (fl_method f) (fl_method_value f)"
    "kept_value '':scheme'' hs (fl_scheme f) (fl_scheme_value f)"
    "kept_value '':path'' hs (fl_path f) (fl_path_value f)" using sp by (auto simp: fields_spec_def)
  have c: "count_name '':method'' hs = fl_method f" "count_name '':scheme'' hs = fl_scheme f"
    "count_name '':path'' hs = fl_path f" "count_name '':authority'' hs = fl_authority f"
    "0 < count_name ''host'' hs \<longleftrightarrow> fl_seen_host f"
    using sp by (auto simp: fields_spec_def kept_value_def)
  have order: "\<exists>ps rs. hs = ps @ rs \<and> list_all known_pseudo ps \<and> list_all plain_field rs"
    "\<forall>kv \<in> set hs. \<not> list_ex is_ascii_uppercase (fst kv)"
    using sp by (auto simp: fields_spec_def order_ok_def)
  show ?thesis
    unfolding c mv [OF k(1) le(1)] pv [OF k(3) le(3)] sv [OF k(2) le(2)]
    using order le f(2) by (auto simp: final_check_def split: if_splits)
qed

theorem validate_request_headers_ok_witness:
  "count_name '':path'' [('':method'', ''GET''), ('':scheme'', ''https''), ('':path'', ''/''), ('':authority'', ''a''), (''te'', ''trailers'')] = 1"
proof -
  let ?hs = "[('':method'', ''GET''), ('':scheme'', ''https''), ('':path'', ''/''), ('':authority'', ''a''), (''te'', ''trailers'')]"
  have "validate_request_headers ?hs = Inr ()" by code_simp
  from validate_request_headers_ok [OF this] show ?thesis by simp
qed

end
