(* ===== verification/H1_Responder.thy ===== *)
theory H1_Responder
  imports Io_Model Http_Headers
begin

text \<open>
  \<open>Responder\<close> of \<open>src/m6-core/src/h1.rs\<close>, the one way a backend answers a request:
  \<open>write_head\<close>, \<open>send\<close>, \<open>error\<close>, \<open>send_with_length\<close> and \<open>send_stream\<close>. The \<open>BufWriter\<close> of
  \<open>write_head\<close> hands the head to the stream in pieces; a stream takes the same bytes whether it
  is given them in one piece or several (lemma \<open>write_all_append\<close>), so the head is one
  \<open>write_all\<close>. \<open>written\<close> counts the bytes sent in one response and is a \<open>nat\<close>.
\<close>

definition status_reason :: "nat \<Rightarrow> string" where
  "status_reason s =
     (case map_of
        [(100, ''Continue''), (200, ''OK''), (201, ''Created''), (204, ''No Content''),
         (206, ''Partial Content''), (301, ''Moved Permanently''), (302, ''Found''),
         (304, ''Not Modified''), (400, ''Bad Request''), (401, ''Unauthorized''),
         (403, ''Forbidden''), (404, ''Not Found''), (405, ''Method Not Allowed''),
         (412, ''Precondition Failed''), (413, ''Payload Too Large''),
         (417, ''Expectation Failed''), (429, ''Too Many Requests''),
         (500, ''Internal Server Error''), (501, ''Not Implemented''), (502, ''Bad Gateway''),
         (503, ''Service Unavailable''), (504, ''Gateway Timeout'')] s of
        Some r \<Rightarrow> r
      | None \<Rightarrow> ''Unknown'')"

record responder =
  rp_sink :: sink
  rp_is_head :: bool
  rp_keep_alive :: bool
  rp_written :: nat

definition responder_new :: "sink \<Rightarrow> string \<Rightarrow> bool \<Rightarrow> responder" where
  "responder_new w m ka =
     \<lparr>rp_sink = w, rp_is_head = eq_ignore_ascii_case m ''HEAD'', rp_keep_alive = ka, rp_written = 0\<rparr>"

definition keeps_alive :: "responder \<Rightarrow> bool" where
  "keeps_alive r = rp_keep_alive r"

definition body_bytes :: "responder \<Rightarrow> nat" where
  "body_bytes r = rp_written r"

definition field_line :: "string \<times> string \<Rightarrow> bytes" where
  "field_line kv = fst kv @ '': '' @ snd kv @ CRLF"

definition status_line :: "nat \<Rightarrow> bytes" where
  "status_line status = ''HTTP/1.1 '' @ show_nat status @ '' '' @ status_reason status @ CRLF"

text \<open>The loop over the caller's headers, with the \<open>continue\<close> for the two fields the function
  writes itself.\<close>

fun caller_lines :: "headers \<Rightarrow> bytes" where
  "caller_lines [] = []"
| "caller_lines ((k, v) # hs) =
     (if eq_ignore_ascii_case k ''content-length'' \<or> eq_ignore_ascii_case k ''connection''
      then caller_lines hs
      else k @ '': '' @ v @ CRLF @ caller_lines hs)"

definition head_bytes :: "bool \<Rightarrow> nat \<Rightarrow> headers \<Rightarrow> nat \<Rightarrow> bytes" where
  "head_bytes ka status hs len =
     status_line status @ caller_lines hs @
     ''Content-Length: '' @ show_nat len @ CRLF @
     ''Connection: '' @ (if ka then ''keep-alive'' else ''close'') @ CRLF @ CRLF"

definition bodyless :: "bool \<Rightarrow> nat \<Rightarrow> bool" where
  "bodyless is_head status \<longleftrightarrow>
     is_head \<or> status = 204 \<or> status = 304 \<or> (100 \<le> status \<and> status < 200)"

definition write_head :: "responder \<Rightarrow> nat \<Rightarrow> headers \<Rightarrow> nat \<Rightarrow> (io_error + bool) \<times> responder" where
  "write_head r status hs len =
     (case write_all (rp_sink r) (head_bytes (rp_keep_alive r) status hs len) of
        (Inl e, s) \<Rightarrow> (Inl e, r\<lparr>rp_sink := s\<rparr>)
      | (Inr _, s) \<Rightarrow> (Inr (bodyless (rp_is_head r) status), r\<lparr>rp_sink := s\<rparr>))"

definition send_with_length ::
  "responder \<Rightarrow> nat \<Rightarrow> headers \<Rightarrow> bytes \<Rightarrow> nat \<Rightarrow> (io_error + unit) \<times> responder" where
  "send_with_length r status hs body len =
     (case write_head r status hs len of
        (Inl e, r) \<Rightarrow> (Inl e, r)
      | (Inr True, r) \<Rightarrow> (Inr (), r)
      | (Inr False, r) \<Rightarrow>
          (case write_all (rp_sink r) body of
             (Inl e, s) \<Rightarrow> (Inl e, r\<lparr>rp_sink := s\<rparr>)
           | (Inr _, s) \<Rightarrow>
               (Inr (), r\<lparr>rp_sink := s, rp_written := rp_written r + length body\<rparr>)))"

definition send :: "responder \<Rightarrow> nat \<Rightarrow> headers \<Rightarrow> bytes \<Rightarrow> (io_error + unit) \<times> responder" where
  "send r status hs body = send_with_length r status hs body (length body)"

definition send_error :: "responder \<Rightarrow> nat \<Rightarrow> (io_error + unit) \<times> responder" where
  "send_error r status =
     send r status [(''Content-Type'', ''text/plain'')] (show_nat status @ '' '' @ status_reason status)"

text \<open>The copy loop. \<open>reader\<close> is \<open>body.take(length)\<close>, so a call asks the inner reader for at most
  \<open>min 65536 remaining\<close> bytes.\<close>

definition COPY_BUF :: nat where
  "COPY_BUF = 64 * 1024"

function copy_loop :: "responder \<Rightarrow> nat \<Rightarrow> reader \<Rightarrow> (io_error + unit) \<times> responder" where
  "copy_loop r remaining es =
     (if remaining = 0 then (Inr (), r)
      else
        (case read_some (min COPY_BUF remaining) es of
           (Inl e, es') \<Rightarrow> (Inl e, r)
         | (Inr b, es') \<Rightarrow>
             if b = [] then (Inl UnexpectedEof, r)
             else
               (case write_all (rp_sink r) b of
                  (Inl e, s) \<Rightarrow> (Inl e, r\<lparr>rp_sink := s\<rparr>)
                | (Inr _, s) \<Rightarrow>
                    copy_loop (r\<lparr>rp_sink := s, rp_written := rp_written r + length b\<rparr>)
                      (remaining - length b) es')))"
  by pat_completeness auto
termination
  by (relation "measure (\<lambda>(r, remaining, es). remaining)") auto

declare copy_loop.simps [simp del]

definition send_stream ::
  "responder \<Rightarrow> nat \<Rightarrow> headers \<Rightarrow> nat \<Rightarrow> reader \<Rightarrow> (io_error + unit) \<times> responder" where
  "send_stream r status hs len body =
     (case write_head r status hs len of
        (Inl e, r) \<Rightarrow> (Inl e, r)
      | (Inr True, r) \<Rightarrow> (Inr (), r)
      | (Inr False, r) \<Rightarrow> copy_loop r len body)"

section \<open>The head that is written\<close>

definition head_fields :: "bool \<Rightarrow> headers \<Rightarrow> nat \<Rightarrow> headers" where
  "head_fields ka hs len =
     filter (\<lambda>kv. \<not> eq_ignore_ascii_case (fst kv) ''content-length'' \<and>
                  \<not> eq_ignore_ascii_case (fst kv) ''connection'') hs @
     [(''Content-Length'', show_nat len), (''Connection'', if ka then ''keep-alive'' else ''close'')]"

lemma caller_lines_fields:
  "caller_lines hs =
     concat (map field_line (filter (\<lambda>kv. \<not> eq_ignore_ascii_case (fst kv) ''content-length'' \<and>
        \<not> eq_ignore_ascii_case (fst kv) ''connection'') hs))"
  by (induction hs rule: caller_lines.induct) (auto simp: field_line_def)

lemma head_bytes_fields:
  "head_bytes ka status hs len =
     status_line status @ concat (map field_line (head_fields ka hs len)) @ CRLF"
  by (simp add: head_bytes_def head_fields_def caller_lines_fields field_line_def)

lemma head_fields_own:
  "get_all (head_fields ka hs len) ''content-length'' = [show_nat len]"
  "get_all (head_fields ka hs len) ''connection'' = [if ka then ''keep-alive'' else ''close'']"
proof -
  have ev: "eq_ignore_ascii_case ''Content-Length'' ''content-length''"
    "eq_ignore_ascii_case ''Connection'' ''connection''"
    "\<not> eq_ignore_ascii_case ''Content-Length'' ''connection''"
    "\<not> eq_ignore_ascii_case ''Connection'' ''content-length''" by code_simp+
  show "get_all (head_fields ka hs len) ''content-length'' = [show_nat len]"
    "get_all (head_fields ka hs len) ''connection'' = [if ka then ''keep-alive'' else ''close'']"
    using ev by (auto simp: get_all_def head_fields_def filter_empty_conv)
qed

lemma write_head_ok:
  "write_head r status hs len = (Inr b, r') \<Longrightarrow>
   b = bodyless (rp_is_head r) status \<and> r' = r\<lparr>rp_sink := rp_sink r'\<rparr> \<and>
   sk_data (rp_sink r') = sk_data (rp_sink r) @ head_bytes (rp_keep_alive r) status hs len"
  by (auto simp: write_head_def dest: write_all_Inr split: prod.splits sum.splits)

lemma write_head_reliable:
  "sk_room (rp_sink r) = None \<Longrightarrow>
   write_head r status hs len =
     (Inr (bodyless (rp_is_head r) status),
      r\<lparr>rp_sink := (rp_sink r)\<lparr>sk_data := sk_data (rp_sink r) @ head_bytes (rp_keep_alive r) status hs len\<rparr>\<rparr>)"
  by (simp add: write_head_def write_all_None)

section \<open>Properties\<close>

lemma send_bytes:
  assumes "send r status hs body = (Inr (), r')"
  shows "\<exists>fields. sk_data (rp_sink r') =
           sk_data (rp_sink r) @ status_line status @ concat (map field_line fields) @ CRLF @
           (if bodyless (rp_is_head r) status then [] else body) \<and>
         get_all fields ''content-length'' = [show_nat (length body)] \<and>
         get_all fields ''connection'' = [if rp_keep_alive r then ''keep-alive'' else ''close''] \<and>
         body_bytes r' = body_bytes r + (if bodyless (rp_is_head r) status then 0 else length body)"
proof -
  obtain b r1 where h: "write_head r status hs (length body) = (Inr b, r1)"
    using assms by (auto simp: send_def send_with_length_def split: prod.splits sum.splits)
  note ok = write_head_ok [OF h]
  let ?f = "head_fields (rp_keep_alive r) hs (length body)"
  have head: "sk_data (rp_sink r1) =
      sk_data (rp_sink r) @ status_line status @ concat (map field_line ?f) @ CRLF"
    using ok by (simp add: head_bytes_fields)
  have w: "rp_written r1 = rp_written r"
    using ok by (metis responder.ext_inject responder.surjective responder.update_convs(1))
  have "sk_data (rp_sink r') = sk_data (rp_sink r1) @ (if bodyless (rp_is_head r) status then [] else body) \<and>
      rp_written r' = rp_written r1 + (if bodyless (rp_is_head r) status then 0 else length body)"
    using assms h ok
    by (auto simp: send_def send_with_length_def dest: write_all_Inr split: prod.splits sum.splits bool.splits)
  with head w head_fields_own [of "rp_keep_alive r" hs "length body"] show ?thesis
    by (intro exI [of _ ?f]) (simp add: body_bytes_def)
qed



lemma copy_loop_reliable:
  "sk_room (rp_sink r) = None \<Longrightarrow>
   (let d = stream_data es; (res, r') = copy_loop r n es in
    sk_data (rp_sink r') = sk_data (rp_sink r) @ take n d \<and>
    rp_written r' = rp_written r + min n (length d) \<and>
    (res = Inr () \<longleftrightarrow> n \<le> length d))"
proof (induction r n es rule: copy_loop.induct)
  case (1 r n es)
  show ?case
  proof (cases "n = 0")
    case True
    then show ?thesis by (simp add: copy_loop.simps)
  next
    case False
    obtain x es' where rd: "read_some (min COPY_BUF n) es = (x, es')" by fastforce
    have pos: "0 < min COPY_BUF n" using False by (simp add: COPY_BUF_def)
    show ?thesis
    proof (cases x)
      case (Inl e)
      with rd False read_some_error [of "min COPY_BUF n" es e es'] show ?thesis by (simp add: copy_loop.simps [of r n es])
    next
      case (Inr b)
      show ?thesis
      proof (cases "b = []")
        case True
        with Inr rd False read_some_end [OF pos, of es es'] show ?thesis
          by (simp add: copy_loop.simps [of r n es])
      next
        case ne: False
        let ?r = "r\<lparr>rp_sink := (rp_sink r)\<lparr>sk_data := sk_data (rp_sink r) @ b\<rparr>, rp_written := rp_written r + length b\<rparr>"
        have w: "write_all (rp_sink r) b = (Inr (), (rp_sink r)\<lparr>sk_data := sk_data (rp_sink r) @ b\<rparr>)"
          using "1.prems" by (rule write_all_None)
        have step: "copy_loop r n es = copy_loop ?r (n - length b) es'"
          using False rd Inr ne w by (subst copy_loop.simps) simp
        have d: "stream_data es = b @ stream_data es'" "length b \<le> n"
          using read_some_data [OF pos] read_some_length rd Inr ne by (auto dest: read_some_length)
        show ?thesis
          using "1.IH" [OF False rd [symmetric] Inr ne w [symmetric] refl] "1.prems" d
          unfolding step by (auto simp: Let_def split: prod.splits)
      qed
    qed
  qed
qed

text \<open>A streamed body never breaks the framing already promised: on a connection that does not
  fail, \<open>send_stream\<close> reports success exactly when the reader delivers at least \<open>length\<close> bytes,
  and then it has written the head and exactly the first \<open>length\<close> of them; when the reader ends
  early it reports an error, after writing what there was.\<close>

theorem send_stream_exact:
  assumes "sk_room (rp_sink r) = None" and "\<not> bodyless (rp_is_head r) status"
    and "send_stream r status hs len es = (res, r')"
  shows "(res = Inr () \<longleftrightarrow> len \<le> length (stream_data es)) \<and>
         sk_data (rp_sink r') =
           sk_data (rp_sink r) @ head_bytes (rp_keep_alive r) status hs len @ take len (stream_data es) \<and>
         body_bytes r' = body_bytes r + min len (length (stream_data es))"
  using assms copy_loop_reliable [of "r\<lparr>rp_sink := (rp_sink r)\<lparr>sk_data := sk_data (rp_sink r) @ head_bytes (rp_keep_alive r) status hs len\<rparr>\<rparr>" es len]
  by (auto simp: send_stream_def write_head_reliable body_bytes_def Let_def split: prod.splits)

theorem send_stream_exact_witness:
  "\<exists>r'. send_stream (responder_new (new_sink None) ''GET'' True) 200 [] 5 [RData ''he'', RData ''llo!''] = (Inr (), r') \<and>
     body_bytes r' = 5"
proof -
  let ?r = "responder_new (new_sink None) ''GET'' True"
  obtain res r' where e: "send_stream ?r 200 [] 5 [RData ''he'', RData ''llo!''] = (res, r')" by fastforce
  have "sk_room (rp_sink ?r) = None" "\<not> bodyless (rp_is_head ?r) 200" "body_bytes ?r = 0" by code_simp+
  with send_stream_exact [OF this(1,2) e] e show ?thesis by auto
qed

end
