(* ===== verification/Forwarding.thy ===== *)
theory Forwarding
  imports H1_Responder H1_Chunked
begin

text \<open>
  The proxy's leg to a backend, \<open>src/m6-http/src/forward.rs\<close>: which headers a client may never
  supply and which are not forwarded, the check that nothing written can change the framing, the
  bytes of the forwarded request, and the reader that frames the backend's response.

  Parsing an IP address (\<open>str::parse::<IpAddr>\<close>) only decides between two strings and is the
  argument \<open>is_ip\<close>. Errors are the kinds of \<open>io::Error\<close>; the messages are for the log.
\<close>

section \<open>Header classes\<close>

definition HOP_BY_HOP :: "string list" where
  "HOP_BY_HOP = [''connection'', ''upgrade'', ''keep-alive'', ''transfer-encoding'', ''te'', ''trailer'',
     ''proxy-authorization'', ''proxy-connection'']"

definition UNTRUSTED_INBOUND :: "string list" where
  "UNTRUSTED_INBOUND = [''x-auth-claims'', ''x-forwarded-for'', ''x-forwarded-proto'', ''x-forwarded-host'', ''x-real-ip'']"

definition MAX_BACKEND_BODY :: nat where
  "MAX_BACKEND_BODY = 128 * 1024 * 1024"

datatype forwarded_trust = TrustNever | TrustBackbone

definition sole_forwarded_ip :: "(string \<Rightarrow> bool) \<Rightarrow> string \<Rightarrow> string option" where
  "sole_forwarded_ip is_ip v =
     (let candidate = trim v in
      if CHR '','' \<in> set candidate then None else if \<not> is_ip candidate then None else Some candidate)"

definition attributed_client_ip :: "(string \<Rightarrow> bool) \<Rightarrow> string option \<Rightarrow> string \<Rightarrow> forwarded_trust \<Rightarrow> string" where
  "attributed_client_ip is_ip forwarded peer_ip trust =
     (if trust = TrustNever then peer_ip
      else (case Option.bind forwarded (sole_forwarded_ip is_ip) of Some ip \<Rightarrow> ip | None \<Rightarrow> peer_ip))"

definition is_untrusted_inbound :: "string \<Rightarrow> bool" where
  "is_untrusted_inbound name \<longleftrightarrow> list_ex (\<lambda>h. eq_ignore_ascii_case name h) UNTRUSTED_INBOUND"

definition strip_untrusted_inbound :: "headers \<Rightarrow> headers" where
  "strip_untrusted_inbound hs = filter (\<lambda>kv. \<not> is_untrusted_inbound (fst kv)) hs"

definition proxy_owned_request_header :: "string \<Rightarrow> bool" where
  "proxy_owned_request_header name \<longleftrightarrow>
     eq_ignore_ascii_case name ''content-length'' \<or> eq_ignore_ascii_case name ''x-forwarded-for'' \<or>
     eq_ignore_ascii_case name ''x-forwarded-proto'' \<or> eq_ignore_ascii_case name ''x-forwarded-host'' \<or>
     eq_ignore_ascii_case name ''x-real-ip''"

definition is_proxy_emitted_hop_header :: "string \<Rightarrow> bool" where
  "is_proxy_emitted_hop_header name = proxy_owned_request_header name"

definition skip_when_forwarding :: "string \<Rightarrow> bool" where
  "skip_when_forwarding name \<longleftrightarrow>
     list_ex (\<lambda>h. eq_ignore_ascii_case name h) HOP_BY_HOP \<or> proxy_owned_request_header name"

definition VIA_PSEUDONYM :: string where
  "VIA_PSEUDONYM = ''m6''"

definition nominated_tokens :: "string \<Rightarrow> string list" where
  "nominated_tokens v =
     map to_ascii_lowercase
       (filter (\<lambda>t. \<not> (t = [] \<or> eq_ignore_ascii_case t ''close'' \<or> eq_ignore_ascii_case t ''keep-alive'' \<or>
                       eq_ignore_ascii_case t ''upgrade''))
         (map trim (split_on CHR '','' v)))"

definition connection_nominated :: "headers \<Rightarrow> string list" where
  "connection_nominated hs =
     concat (map (\<lambda>kv. if eq_ignore_ascii_case (fst kv) ''connection'' then nominated_tokens (snd kv) else []) hs)"

definition via_value :: "string option \<Rightarrow> string \<Rightarrow> string" where
  "via_value existing version =
     (let proto = (if eq_ignore_ascii_case version ''HTTP/2'' \<or> version = ''2'' then ''2''
                   else if eq_ignore_ascii_case version ''HTTP/3'' \<or> version = ''3'' then ''3''
                   else if eq_ignore_ascii_case version ''HTTP/1.0'' then ''1.0'' else ''1.1'');
          mine = proto @ '' '' @ VIA_PSEUDONYM
      in case existing of
           Some prev \<Rightarrow> if trim prev \<noteq> [] then trim prev @ '', '' @ mine else mine
         | None \<Rightarrow> mine)"

section \<open>The check before anything is written\<close>

definition h1_field_value_is_safe :: "string \<Rightarrow> bool" where
  "h1_field_value_is_safe v \<longleftrightarrow> \<not> list_ex (\<lambda>b. b = CR \<or> b = LF \<or> b = NUL) v"

definition token_byte :: "char \<Rightarrow> bool" where
  "token_byte b \<longleftrightarrow> is_ascii_alphanumeric b \<or> b \<in> set ''!#$%&*+-.^_|~'' \<or> b = CHR 0x27 \<or> b = CHR 0x60"

definition h1_field_name_is_safe :: "string \<Rightarrow> bool" where
  "h1_field_name_is_safe name \<longleftrightarrow> name \<noteq> [] \<and> list_all token_byte name"

definition target_part_is_safe :: "string \<Rightarrow> bool" where
  "target_part_is_safe s \<longleftrightarrow> \<not> list_ex (\<lambda>b. b = CR \<or> b = LF \<or> b = NUL \<or> b = CHR '' '') s"

definition check_forwardable :: "raw_request \<Rightarrow> string \<Rightarrow> string \<Rightarrow> bool" where
  "check_forwardable req client_ip original_host =
     (if rq_method req = [] \<or> \<not> list_all (\<lambda>b. is_ascii_graphic b \<and> b \<noteq> CHR ''/'') (rq_method req) then False
      else if \<not> target_part_is_safe (rq_path req) then False
      else if \<not> target_part_is_safe (request_query req) then False
      else if \<not> h1_field_value_is_safe client_ip then False
      else if \<not> h1_field_value_is_safe original_host then False
      else list_all (\<lambda>kv. skip_when_forwarding (fst kv) \<or>
                          (h1_field_name_is_safe (fst kv) \<and> h1_field_value_is_safe (snd kv))) (rq_headers req))"

section \<open>The forwarded request\<close>

text \<open>\<open>write_decimal\<close> fills the buffer from its end.\<close>

function write_decimal_loop :: "nat \<Rightarrow> bytes \<Rightarrow> bytes" where
  "write_decimal_loop n acc =
     (if n > 0 then write_decimal_loop (n div 10) (char_of (48 + n mod 10) # acc) else acc)"
  by pat_completeness auto
termination
  by (relation "measure fst") auto

declare write_decimal_loop.simps [simp del]

definition write_decimal :: "nat \<Rightarrow> bytes" where
  "write_decimal n = (if n = 0 then ''0'' else write_decimal_loop n [])"

definition request_line :: "raw_request \<Rightarrow> bytes" where
  "request_line req =
     rq_method req @ '' '' @ rq_path req @
     (case rq_query req of Some q \<Rightarrow> if q \<noteq> [] then ''?'' @ q else [] | None \<Rightarrow> []) @ '' HTTP/1.1''"

text \<open>The loop over the request's headers: the bytes written and the last \<open>Via\<close> seen.\<close>

fun forward_headers :: "string list \<Rightarrow> headers \<Rightarrow> bytes \<times> string option \<Rightarrow> bytes \<times> string option" where
  "forward_headers nominated [] st = st"
| "forward_headers nominated ((name, v) # hs) (buf, via) =
     (if eq_ignore_ascii_case name ''via'' then forward_headers nominated hs (buf, Some v)
      else if skip_when_forwarding name \<or> list_ex (\<lambda>n. eq_ignore_ascii_case name n) nominated
      then forward_headers nominated hs (buf, via)
      else forward_headers nominated hs (buf @ name @ '': '' @ v @ CRLF, via))"

definition host_if_absent :: "raw_request \<Rightarrow> string \<Rightarrow> bytes" where
  "host_if_absent req original_host =
     (if original_host = [] \<or> headers_contains (rq_headers req) ''host'' then []
      else ''Host: '' @ original_host @ CRLF)"

definition forward_bytes :: "raw_request \<Rightarrow> string \<Rightarrow> string \<Rightarrow> bytes" where
  "forward_bytes req client_ip original_host =
     (let (buf, via) = forward_headers (connection_nominated (rq_headers req)) (rq_headers req)
                         (request_line req @ CRLF, None) in
      buf @ ''Via: '' @ via_value via (rq_version req) @ CRLF @
      host_if_absent req original_host @
      ''X-Forwarded-For: '' @ client_ip @ CRLF @ ''X-Forwarded-Proto: https'' @ CRLF @
      ''X-Forwarded-Host: '' @ original_host @ CRLF @
      (if rq_body req \<noteq> [] then ''Content-Length: '' @ write_decimal (length (rq_body req)) @ CRLF else []) @
      ''Connection: close'' @ CRLF @ CRLF @
      (if rq_body req \<noteq> [] then rq_body req else []))"

section \<open>What the backend reads\<close>

lemma write_decimal_loop_show: "0 < n \<Longrightarrow> write_decimal_loop n acc = show_nat n @ acc"
proof (induction n acc rule: write_decimal_loop.induct)
  case (1 n acc)
  have "write_decimal_loop n acc = write_decimal_loop (n div 10) (digit_char (n mod 10) # acc)"
    using "1.prems" by (subst write_decimal_loop.simps) (simp add: digit_char_def)
  also have "\<dots> = show_nat n @ acc"
  proof (cases "n < 10")
    case True
    then show ?thesis by (simp add: write_decimal_loop.simps [of 0] show_nat.simps [of n])
  next
    case False
    then show ?thesis using "1.IH" by (simp add: show_nat.simps [of n] digit_char_def)
  qed
  finally show ?case .
qed

lemma write_decimal_show: "write_decimal n = show_nat n"
proof (cases "n = 0")
  case True
  have "write_decimal 0 = show_nat 0" by code_simp
  with True show ?thesis by simp
next
  case False
  then show ?thesis by (simp add: write_decimal_def write_decimal_loop_show)
qed

definition forwarded :: "raw_request \<Rightarrow> string \<times> string \<Rightarrow> bool" where
  "forwarded req kv \<longleftrightarrow>
     \<not> eq_ignore_ascii_case (fst kv) ''via'' \<and> \<not> skip_when_forwarding (fst kv) \<and>
     \<not> list_ex (\<lambda>n. eq_ignore_ascii_case (fst kv) n) (connection_nominated (rq_headers req))"

definition last_via :: "headers \<Rightarrow> string option" where
  "last_via hs = (case rev (get_all hs ''via'') of [] \<Rightarrow> None | v # _ \<Rightarrow> Some v)"

definition forwarded_fields :: "raw_request \<Rightarrow> string \<Rightarrow> string \<Rightarrow> headers" where
  "forwarded_fields req ip host =
     filter (forwarded req) (rq_headers req) @
     [(''Via'', via_value (last_via (rq_headers req)) (rq_version req))] @
     (if host = [] \<or> headers_contains (rq_headers req) ''host'' then [] else [(''Host'', host)]) @
     [(''X-Forwarded-For'', ip), (''X-Forwarded-Proto'', ''https''), (''X-Forwarded-Host'', host)] @
     (if rq_body req \<noteq> [] then [(''Content-Length'', show_nat (length (rq_body req)))] else []) @
     [(''Connection'', ''close'')]"

lemma forward_headers_eq:
  "forward_headers nom hs (buf, via) =
     (buf @ concat (map field_line (filter (\<lambda>kv. \<not> eq_ignore_ascii_case (fst kv) ''via'' \<and>
        \<not> skip_when_forwarding (fst kv) \<and> \<not> list_ex (\<lambda>n. eq_ignore_ascii_case (fst kv) n) nom) hs)),
      (case rev (get_all hs ''via'') of [] \<Rightarrow> via | v # _ \<Rightarrow> Some v))"
proof (induction hs arbitrary: buf via)
  case Nil
  show ?case by (simp add: get_all_def)
next
  case (Cons kv hs)
  show ?case
    by (cases kv; cases "rev (get_all hs ''via'')")
      (simp_all add: Cons.IH get_all_def field_line_def)
qed

lemma forward_bytes_fields:
  "forward_bytes req ip host =
     request_line req @ CRLF @ concat (map field_line (forwarded_fields req ip host)) @ CRLF @ rq_body req"
  by (simp add: forward_bytes_def forward_headers_eq forwarded_fields_def forwarded_def [abs_def] last_via_def
      host_if_absent_def write_decimal_show field_line_def)

lemma value_safe_iff: "h1_field_value_is_safe v \<longleftrightarrow> CR \<notin> set v \<and> LF \<notin> set v \<and> NUL \<notin> set v"
  by (auto simp: h1_field_value_is_safe_def list_ex_iff)

lemma via_value_safe:
  assumes "\<And>v. via = Some v \<Longrightarrow> h1_field_value_is_safe v"
  shows "h1_field_value_is_safe (via_value via version)"
proof -
  have lit: "CR \<notin> set s \<and> LF \<notin> set s \<and> NUL \<notin> set s" if "s \<in> {''2 m6'', ''3 m6'', ''1.0 m6'', ''1.1 m6'', '', ''}" for s
    using that by (auto simp: CR_def LF_def NUL_def)
  have "\<exists>m \<in> {''2 m6'', ''3 m6'', ''1.0 m6'', ''1.1 m6''}.
      via_value via version = m \<or> (\<exists>v. via = Some v \<and> via_value via version = trim v @ '', '' @ m)"
    by (auto simp: via_value_def VIA_PSEUDONYM_def Let_def split: option.splits)
  then obtain m where m: "m \<in> {''2 m6'', ''3 m6'', ''1.0 m6'', ''1.1 m6''}"
    "via_value via version = m \<or> (\<exists>v. via = Some v \<and> via_value via version = trim v @ '', '' @ m)" by blast
  have "CR \<notin> set (trim v) \<and> LF \<notin> set (trim v) \<and> NUL \<notin> set (trim v)" if "via = Some v" for v
    using assms [OF that] set_trim [of v] by (auto simp: value_safe_iff)
  with m lit [of m] lit [of "'', ''"] show ?thesis by (auto simp: value_safe_iff)
qed

lemma last_via_mem: "last_via hs = Some v \<Longrightarrow> \<exists>kv \<in> set hs. eq_ignore_ascii_case (fst kv) ''via'' \<and> snd kv = v"
proof -
  assume "last_via hs = Some v"
  then have "v \<in> set (get_all hs ''via'')" by (auto simp: last_via_def split: list.splits dest: arg_cong [of _ _ set])
  then show ?thesis by (auto simp: get_all_def)
qed

lemma digits_safe: "list_all is_ascii_digit v \<Longrightarrow> h1_field_value_is_safe v"
  by (auto simp: value_safe_iff list_all_iff is_ascii_digit_def byte_val_def CR_def LF_def NUL_def)

lemma own_fields:
  "\<not> skip_when_forwarding ''via''"
  "h1_field_name_is_safe ''Via''" "h1_field_name_is_safe ''Host''" "h1_field_name_is_safe ''X-Forwarded-For''"
  "h1_field_name_is_safe ''X-Forwarded-Proto''" "h1_field_name_is_safe ''X-Forwarded-Host''"
  "h1_field_name_is_safe ''Content-Length''" "h1_field_name_is_safe ''Connection''"
  "h1_field_value_is_safe ''https''" "h1_field_value_is_safe ''close''"
  by code_simp+

lemma skip_cong: "eq_ignore_ascii_case n m \<Longrightarrow> skip_when_forwarding n \<longleftrightarrow> skip_when_forwarding m"
  using eq_ignore_ascii_case_cong
  by (simp add: skip_when_forwarding_def proxy_owned_request_header_def HOP_BY_HOP_def) blast

lemma check_forwardableD:
  assumes "check_forwardable req ip host"
  shows "rq_method req \<noteq> []" "list_all (\<lambda>b. is_ascii_graphic b \<and> b \<noteq> CHR ''/'') (rq_method req)"
    "target_part_is_safe (rq_path req)" "target_part_is_safe (request_query req)"
    "h1_field_value_is_safe ip" "h1_field_value_is_safe host"
    "\<And>kv. kv \<in> set (rq_headers req) \<Longrightarrow> \<not> skip_when_forwarding (fst kv) \<Longrightarrow>
       h1_field_name_is_safe (fst kv) \<and> h1_field_value_is_safe (snd kv)"
  using assms by (auto simp: check_forwardable_def list_all_iff split: if_splits)

lemma forwarded_fields_safe:
  assumes "check_forwardable req ip host" and "kv \<in> set (forwarded_fields req ip host)"
  shows "h1_field_name_is_safe (fst kv) \<and> h1_field_value_is_safe (snd kv)"
proof -
  note ok = check_forwardableD [OF assms(1)]
  have "h1_field_value_is_safe v" if via: "last_via (rq_headers req) = Some v" for v
  proof -
    obtain kv where "kv \<in> set (rq_headers req)" "eq_ignore_ascii_case (fst kv) ''via''" "snd kv = v"
      using last_via_mem [OF via] by blast
    with ok(7) [of kv] own_fields(1) skip_cong show ?thesis by blast
  qed
  then have "h1_field_value_is_safe (via_value (last_via (rq_headers req)) (rq_version req))"
    by (rule via_value_safe)
  with assms(2) ok(5,6) ok(7) [of kv] own_fields(2-) digits_safe [OF show_nat_digits]
  show ?thesis by (auto simp: forwarded_fields_def forwarded_def split: if_splits)
qed

text \<open>The fields the backend relies on, whatever the client sent.\<close>

lemma get_all_Cons: "get_all ((k, v) # xs) n = (if eq_ignore_ascii_case k n then [v] else []) @ get_all xs n"
  by (simp add: get_all_def)

lemma get_all_Nil [simp]: "get_all [] n = []"
  by (simp add: get_all_def)

text \<open>Which of the proxy's own names are which; evaluated once.\<close>

lemma own_names:
  "eq_ignore_ascii_case ''Via'' n = (to_ascii_lowercase n = ''via'')"
  "eq_ignore_ascii_case ''Host'' n = (to_ascii_lowercase n = ''host'')"
  "eq_ignore_ascii_case ''X-Forwarded-For'' n = (to_ascii_lowercase n = ''x-forwarded-for'')"
  "eq_ignore_ascii_case ''X-Forwarded-Proto'' n = (to_ascii_lowercase n = ''x-forwarded-proto'')"
  "eq_ignore_ascii_case ''X-Forwarded-Host'' n = (to_ascii_lowercase n = ''x-forwarded-host'')"
  "eq_ignore_ascii_case ''Content-Length'' n = (to_ascii_lowercase n = ''content-length'')"
  "eq_ignore_ascii_case ''Connection'' n = (to_ascii_lowercase n = ''connection'')"
proof -
  have "to_ascii_lowercase ''Via'' = ''via''" "to_ascii_lowercase ''Host'' = ''host''"
    "to_ascii_lowercase ''X-Forwarded-For'' = ''x-forwarded-for''"
    "to_ascii_lowercase ''X-Forwarded-Proto'' = ''x-forwarded-proto''"
    "to_ascii_lowercase ''X-Forwarded-Host'' = ''x-forwarded-host''"
    "to_ascii_lowercase ''Content-Length'' = ''content-length''"
    "to_ascii_lowercase ''Connection'' = ''connection''" by code_simp+
  then show
    "eq_ignore_ascii_case ''Via'' n = (to_ascii_lowercase n = ''via'')"
    "eq_ignore_ascii_case ''Host'' n = (to_ascii_lowercase n = ''host'')"
    "eq_ignore_ascii_case ''X-Forwarded-For'' n = (to_ascii_lowercase n = ''x-forwarded-for'')"
    "eq_ignore_ascii_case ''X-Forwarded-Proto'' n = (to_ascii_lowercase n = ''x-forwarded-proto'')"
    "eq_ignore_ascii_case ''X-Forwarded-Host'' n = (to_ascii_lowercase n = ''x-forwarded-host'')"
    "eq_ignore_ascii_case ''Content-Length'' n = (to_ascii_lowercase n = ''content-length'')"
    "eq_ignore_ascii_case ''Connection'' n = (to_ascii_lowercase n = ''connection'')"
    by (auto simp: eq_ignore_ascii_case_def)
qed

lemma lower_names:
  "to_ascii_lowercase ''via'' = ''via''" "to_ascii_lowercase ''x-forwarded-for'' = ''x-forwarded-for''"
  "to_ascii_lowercase ''x-forwarded-proto'' = ''x-forwarded-proto''"
  "to_ascii_lowercase ''x-forwarded-host'' = ''x-forwarded-host''"
  "to_ascii_lowercase ''content-length'' = ''content-length''" "to_ascii_lowercase ''connection'' = ''connection''"
  "to_ascii_lowercase ''transfer-encoding'' = ''transfer-encoding''" "to_ascii_lowercase ''host'' = ''host''"
  by code_simp+

lemma token_not_CR: "token_byte c \<Longrightarrow> c \<noteq> CR"
  by (auto simp: token_byte_def CR_def is_ascii_alphanumeric_def is_ascii_alphabetic_def is_ascii_uppercase_def
      is_ascii_lowercase_def is_ascii_digit_def byte_val_def)

lemma get_all_forwarded_skip:
  "skip_when_forwarding n \<Longrightarrow> get_all (filter (forwarded req) hs) n = []"
  by (auto simp: get_all_def filter_empty_conv forwarded_def dest: skip_cong)

lemma find_sub_skip: "CR \<notin> set l \<Longrightarrow> find_sub (CR # p) (l @ t) = map_option ((+) (length l)) (find_sub (CR # p) t)"
proof (induction l)
  case Nil
  show ?case by (cases "find_sub (CR # p) t") simp_all
next
  case (Cons a l)
  then have "\<not> starts_with (CR # p) (a # l @ t)" by (auto simp: starts_with_iff)
  with Cons show ?case by (cases "find_sub (CR # p) t") simp_all
qed

text \<open>Lines without a carriage return, none of them empty, are followed by the first empty line
  exactly where they end.\<close>

lemma head_end_lines:
  assumes "ls \<noteq> []" "\<forall>l \<in> set ls. l \<noteq> [] \<and> CR \<notin> set l"
  shows "find_sub (CRLF @ CRLF) (concat (map (\<lambda>l. l @ CRLF) ls) @ CRLF @ rest) =
    Some (length (concat (map (\<lambda>l. l @ CRLF) ls)) - 2)"
  using assms
proof (induction ls)
  case Nil
  then show ?case by simp
next
  case (Cons l ls)
  let ?t = "concat (map (\<lambda>l. l @ CRLF) ls) @ CRLF @ rest"
  have l: "CR \<notin> set l" using Cons.prems by simp
  have "find_sub (CRLF @ CRLF) (l @ CRLF @ ?t) = map_option ((+) (length l)) (find_sub (CRLF @ CRLF) (CRLF @ ?t))"
    using find_sub_skip [OF l, of "[LF] @ CRLF" "CRLF @ ?t"] by (simp add: CRLF_def)
  also have "find_sub (CRLF @ CRLF) (CRLF @ ?t) = Some (length (concat (map (\<lambda>l. l @ CRLF) ls)))"
  proof (cases ls)
    case Nil
    then show ?thesis by (simp add: CRLF_def starts_with_def)
  next
    case (Cons m ms)
    obtain c cs where m: "m = c # cs" "c \<noteq> CR" using Cons Cons.prems by (cases m) auto
    have "find_sub (CRLF @ CRLF) ?t = Some (length (concat (map (\<lambda>l. l @ CRLF) ls)) - 2)"
      using Cons Cons.prems by (intro Cons.IH) auto
    moreover have "find_sub (CRLF @ CRLF) (CRLF @ ?t) = map_option (\<lambda>n. n + 2) (find_sub (CRLF @ CRLF) ?t)"
      using Cons m by (simp add: CRLF_def starts_with_def option.map_comp comp_def CR_def LF_def)
    moreover have "length (concat (map (\<lambda>l. l @ CRLF) ls)) \<ge> 2" using Cons by (simp add: CRLF_def)
    ultimately show ?thesis by simp
  qed
  finally show ?case by (simp add: CRLF_def)
qed

text \<open>C7. Nothing a client can put into a request changes the shape of what the backend reads. A
  request that passes \<open>check_forwardable\<close> is written as one request line with exactly two
  spaces, field lines whose names are tokens and whose values have no CR, LF or NUL, an empty
  line that is the first empty line of the message, and the body. The forwarded address, host and
  protocol are the proxy's own and appear once; there is no \<open>Transfer-Encoding\<close>, one
  \<open>Connection: close\<close>, one \<open>Via\<close>, and the \<open>Content-Length\<close> of the body.\<close>

theorem forward_injection_free:
  assumes "check_forwardable req ip host"
  shows "\<exists>fields.
    forward_bytes req ip host = request_line req @ CRLF @ concat (map field_line fields) @ CRLF @ rq_body req \<and>
    find_sub (CRLF @ CRLF) (forward_bytes req ip host) =
      Some (length (forward_bytes req ip host) - length (rq_body req) - 4) \<and>
    h1_field_value_is_safe (request_line req) \<and> length (filter (\<lambda>c. c = CHR '' '') (request_line req)) = 2 \<and>
    (\<forall>kv \<in> set fields. h1_field_name_is_safe (fst kv) \<and> h1_field_value_is_safe (snd kv)) \<and>
    get_all fields ''x-forwarded-for'' = [ip] \<and> get_all fields ''x-forwarded-proto'' = [''https''] \<and>
    get_all fields ''x-forwarded-host'' = [host] \<and> get_all fields ''connection'' = [''close''] \<and>
    get_all fields ''transfer-encoding'' = [] \<and> length (get_all fields ''via'') = 1 \<and>
    get_all fields ''content-length'' = (if rq_body req = [] then [] else [show_nat (length (rq_body req))])"
proof -
  let ?f = "forwarded_fields req ip host"
  note ok = check_forwardableD [OF assms]
  have m: "CHR '' '' \<notin> set (rq_method req)" "CR \<notin> set (rq_method req)" "LF \<notin> set (rq_method req)" "NUL \<notin> set (rq_method req)"
  proof -
    have "\<not> is_ascii_graphic CHR '' ''" "\<not> is_ascii_graphic CR" "\<not> is_ascii_graphic LF" "\<not> is_ascii_graphic NUL"
      by code_simp+
    with ok(2) show "CHR '' '' \<notin> set (rq_method req)" "CR \<notin> set (rq_method req)" "LF \<notin> set (rq_method req)"
      "NUL \<notin> set (rq_method req)" unfolding list_all_iff by blast+
  qed
  have t: "CHR '' '' \<notin> set s" "CR \<notin> set s" "LF \<notin> set s" "NUL \<notin> set s" if "target_part_is_safe s" for s
    using that by (auto simp: target_part_is_safe_def list_ex_iff)
  let ?q = "case rq_query req of Some q \<Rightarrow> if q \<noteq> [] then ''?'' @ q else [] | None \<Rightarrow> []"
  have q: "CHR '' '' \<notin> set ?q" "CR \<notin> set ?q" "LF \<notin> set ?q" "NUL \<notin> set ?q"
    using t [OF ok(4)] by (auto simp: request_query_def CR_def LF_def NUL_def split: option.splits)
  have rl: "h1_field_value_is_safe (request_line req)"
  proof -
    have "CR \<notin> set '' HTTP/1.1''" "LF \<notin> set '' HTTP/1.1''" "NUL \<notin> set '' HTTP/1.1''"
      "CR \<notin> set '' ''" "LF \<notin> set '' ''" "NUL \<notin> set '' ''" by (simp_all add: CR_def LF_def NUL_def)
    with m(2-4) t(2-4) [OF ok(3)] q(2-4) show ?thesis
      unfolding value_safe_iff request_line_def set_append by blast
  qed
  have f0: "c \<notin> set s \<Longrightarrow> filter (\<lambda>x. x = c) s = []" for c :: char and s by (auto simp: filter_empty_conv)
  have two: "length (filter (\<lambda>c. c = CHR '' '') (request_line req)) = 2"
    using f0 [OF m(1)] f0 [OF t(1) [OF ok(3)]] f0 [OF q(1)] by (simp add: request_line_def)
  have safe: "\<forall>kv \<in> set ?f. h1_field_name_is_safe (fst kv) \<and> h1_field_value_is_safe (snd kv)"
    using forwarded_fields_safe [OF assms] by blast
  have line: "CR \<notin> set (fst kv @ '': '' @ snd kv)" if "kv \<in> set ?f" for kv
  proof -
    have "CR \<notin> set (fst kv)"
      using safe that token_not_CR by (auto simp: h1_field_name_is_safe_def list_all_iff)
    with safe that show ?thesis by (auto simp: value_safe_iff CR_def)
  qed
  let ?ls = "request_line req # map (\<lambda>kv. fst kv @ '': '' @ snd kv) ?f"
  have bytes: "forward_bytes req ip host = concat (map (\<lambda>l. l @ CRLF) ?ls) @ CRLF @ rq_body req"
    by (simp add: forward_bytes_fields comp_def field_line_def [abs_def])
  have "find_sub (CRLF @ CRLF) (forward_bytes req ip host) = Some (length (concat (map (\<lambda>l. l @ CRLF) ?ls)) - 2)"
    unfolding bytes using line rl by (intro head_end_lines) (auto simp: value_safe_iff request_line_def)
  then have he: "find_sub (CRLF @ CRLF) (forward_bytes req ip host) =
      Some (length (forward_bytes req ip host) - length (rq_body req) - 4)"
    unfolding bytes by (simp add: CRLF_def)
  have names: "skip_when_forwarding ''x-forwarded-for''" "skip_when_forwarding ''x-forwarded-proto''"
    "skip_when_forwarding ''x-forwarded-host''" "skip_when_forwarding ''connection''"
    "skip_when_forwarding ''transfer-encoding''" "skip_when_forwarding ''content-length''" by code_simp+
  have novia: "get_all (filter (forwarded req) (rq_headers req)) ''via'' = []"
    by (auto simp: get_all_def filter_empty_conv forwarded_def)
  have gets: "get_all ?f ''x-forwarded-for'' = [ip] \<and> get_all ?f ''x-forwarded-proto'' = [''https''] \<and>
    get_all ?f ''x-forwarded-host'' = [host] \<and> get_all ?f ''connection'' = [''close''] \<and>
    get_all ?f ''transfer-encoding'' = [] \<and> length (get_all ?f ''via'') = 1 \<and>
    get_all ?f ''content-length'' = (if rq_body req = [] then [] else [show_nat (length (rq_body req))])"
    by (simp add: forwarded_fields_def get_all_append get_all_Cons names get_all_forwarded_skip novia
        own_names lower_names)
  show ?thesis using forward_bytes_fields he rl two safe gets by blast
qed

definition demo_req :: raw_request where
  "demo_req = \<lparr>rq_method = ''POST'', rq_path = ''/a'', rq_query = Some ''x=1'', rq_version = ''HTTP/2'',
     rq_headers = [(''host'', ''h''), (''X-Forwarded-For'', ''9.9.9.9''), (''x-auth-claims'', ''c''), (''accept'', ''*'')], rq_body = ''hi''\<rparr>"

theorem forward_injection_free_witness:
  "\<exists>fields. forward_bytes demo_req ''1.2.3.4'' ''h'' =
     request_line demo_req @ CRLF @ concat (map field_line fields) @ CRLF @ ''hi'' \<and>
     get_all fields ''x-forwarded-for'' = [''1.2.3.4'']"
proof -
  have c: "check_forwardable demo_req ''1.2.3.4'' ''h''" by code_simp
  have b: "rq_body demo_req = ''hi''" by (simp add: demo_req_def)
  from forward_injection_free [OF c] obtain fields where
    "forward_bytes demo_req ''1.2.3.4'' ''h'' = request_line demo_req @ CRLF @ concat (map field_line fields) @ CRLF @ rq_body demo_req"
    "get_all fields ''x-forwarded-for'' = [''1.2.3.4'']" by blast
  then show ?thesis unfolding b by blast
qed

text \<open>A client chooses what its \<open>Connection\<close> header removes: nominating \<open>x-auth-claims\<close> drops the
  identity that the proxy itself verified and added, nominating \<open>host\<close> sends the backend a request
  with no \<open>Host\<close> at all, and of several \<open>Via\<close> lines only the last survives.\<close>

theorem nominated_strips:
  "forwarded_fields (demo_req\<lparr>rq_headers := (''connection'', ''X-Auth-Claims, Host'') #
       (''Via'', ''1.1 a'') # (''Via'', ''1.1 b'') # rq_headers demo_req\<rparr>) ip ''h'' =
     [(''accept'', ''*''), (''Via'', ''1.1 b, 2 m6''), (''X-Forwarded-For'', ip), (''X-Forwarded-Proto'', ''https''),
      (''X-Forwarded-Host'', ''h''), (''Content-Length'', ''2''), (''Connection'', ''close'')]"
proof -
  let ?r = "demo_req\<lparr>rq_headers := (''connection'', ''X-Auth-Claims, Host'') #
       (''Via'', ''1.1 a'') # (''Via'', ''1.1 b'') # rq_headers demo_req\<rparr>"
  have "filter (forwarded ?r) (rq_headers ?r) = [(''accept'', ''*'')]"
    "via_value (last_via (rq_headers ?r)) (rq_version ?r) = ''1.1 b, 2 m6''"
    "headers_contains (rq_headers ?r) ''host''" "rq_body ?r = ''hi''" "show_nat (length ''hi'') = ''2''" by code_simp+
  then show ?thesis unfolding forwarded_fields_def by simp
qed

section \<open>Reading the response\<close>

record http_response =
  hr_status :: nat
  hr_reason :: string
  hr_headers :: headers
  hr_body :: bytes

definition HEADER_BUF :: nat where
  "HEADER_BUF = 8192"

definition find_header_end :: "bytes \<Rightarrow> nat option" where
  "find_header_end buf = find_sub (CRLF @ CRLF) buf"

function read_head :: "bytes \<Rightarrow> reader \<Rightarrow> io_error + (bytes \<times> nat \<times> reader)" where
  "read_head buf es =
     (case read_some (HEADER_BUF - length buf) es of
        (Inl e, es') \<Rightarrow> Inl e
      | (Inr b, es') \<Rightarrow>
          if b = [] then Inl UnexpectedEof
          else
            (case find_header_end (buf @ b) of
               Some pos \<Rightarrow> Inr (buf @ b, pos, es')
             | None \<Rightarrow>
                 if HEADER_BUF \<le> length (buf @ b) then Inl InvalidData else read_head (buf @ b) es'))"
  by pat_completeness auto
termination
  by (relation "measure (\<lambda>(buf, es). reader_size es)") (auto dest: read_some_decreases [OF sym])

declare read_head.simps [simp del]

text \<open>\<open>split("\r\n")\<close>.\<close>

function split_crlf :: "bytes \<Rightarrow> bytes list" where
  "split_crlf s = (case find_crlf s of None \<Rightarrow> [s] | Some n \<Rightarrow> take n s # split_crlf (drop (n + 2) s))"
  by pat_completeness auto
termination
proof (relation "measure length")
  fix s :: bytes and n
  assume "find_crlf s = Some n"
  then show "(drop (n + 2) s, s) \<in> measure length" using find_crlf_bound [of 0 s n] by simp
qed simp

declare split_crlf.simps [simp del]

definition parse_status_line :: "string \<Rightarrow> io_error + (nat \<times> string)" where
  "parse_status_line line =
     (case split_once CHR '' '' line of
        None \<Rightarrow> Inl InvalidData
      | Some (_, r) \<Rightarrow>
          (let (code, reason) = (case split_once CHR '' '' r of Some p \<Rightarrow> p | None \<Rightarrow> (r, [])) in
           case parse_uint 16 code of None \<Rightarrow> Inl InvalidData | Some s \<Rightarrow> Inr (s, reason)))"

record resp_framing =
  rf_headers :: headers
  rf_cl :: "nat option"
  rf_te :: bool
  rf_chunked :: bool

definition resp_init :: resp_framing where
  "resp_init = \<lparr>rf_headers = [], rf_cl = None, rf_te = False, rf_chunked = False\<rparr>"

fun cl_parts :: "nat option \<Rightarrow> string list \<Rightarrow> io_error + nat option" where
  "cl_parts cl [] = Inr cl"
| "cl_parts cl (p # ps) =
     (let part = trim p in
      if part = [] \<or> \<not> list_all is_ascii_digit part then Inl InvalidData
      else
        (case parse_uint 64 part of
           None \<Rightarrow> Inl InvalidData
         | Some n \<Rightarrow>
             (case cl of
                Some prev \<Rightarrow> if prev \<noteq> n then Inl InvalidData else cl_parts (Some n) ps
              | None \<Rightarrow> cl_parts (Some n) ps)))"

definition resp_line :: "resp_framing \<Rightarrow> string \<Rightarrow> io_error + resp_framing" where
  "resp_line f line =
     (case split_once CHR '':'' line of
        None \<Rightarrow> Inr f
      | Some (n, v) \<Rightarrow>
          (let name = trim n; v = trim v in
           case (if eq_ignore_ascii_case name ''content-length''
                 then cl_parts (rf_cl f) (split_on CHR '','' v) else Inr (rf_cl f)) of
             Inl e \<Rightarrow> Inl e
           | Inr cl \<Rightarrow>
               (let te = eq_ignore_ascii_case name ''transfer-encoding'' in
                Inr (f\<lparr>rf_cl := cl, rf_te := (rf_te f \<or> te),
                       rf_chunked := (rf_chunked f \<or> (te \<and> eq_ignore_ascii_case (trim (last (split_on CHR '','' v))) ''chunked'')),
                       rf_headers := rf_headers f @ [(name, v)]\<rparr>))))"

fun resp_lines :: "resp_framing \<Rightarrow> string list \<Rightarrow> io_error + resp_framing" where
  "resp_lines f [] = Inr f"
| "resp_lines f (l # ls) =
     (if l = [] then Inr f else (case resp_line f l of Inl e \<Rightarrow> Inl e | Inr f \<Rightarrow> resp_lines f ls))"

subsection \<open>The chunked body\<close>

definition from_str_radix_16 :: "string \<Rightarrow> nat option" where
  "from_str_radix_16 s = (if s = [] \<or> \<not> list_all is_ascii_hexdigit s then None else chunk_size s 0)"

function backend_chunks :: "bytes \<Rightarrow> nat \<Rightarrow> bytes \<Rightarrow> (io_error + (nat \<times> bytes)) outcome" where
  "backend_chunks pending pos body =
     (case find_crlf (drop pos pending) of
        None \<Rightarrow> Val (Inl InvalidData)
      | Some crlf \<Rightarrow>
          (let size_line = take crlf (drop pos pending); size_str = trim (hd (split_on CHR '';'' size_line)) in
           if \<not> valid_utf8 size_line then Val (Inl InvalidData)
           else
             (case from_str_radix_16 size_str of
                None \<Rightarrow> Val (Inl InvalidData)
              | Some sz \<Rightarrow>
                  (let pos = pos + (crlf + 2) in
                   if sz = 0 then Val (Inr (pos, body))
                   else
                     (case usize_add pos sz of
                        Panic \<Rightarrow> Panic
                      | Val e \<Rightarrow>
                          if length pending < e then Val (Inl UnexpectedEof)
                          else if length pending < e + 2 \<or> take 2 (drop e pending) \<noteq> CRLF then Val (Inl InvalidData)
                          else backend_chunks pending (e + 2) (body @ take sz (drop pos pending)))))))"
  by pat_completeness auto
termination
  by (relation "measure (\<lambda>(pending, pos, body). length pending - pos)")
    (auto dest!: find_crlf_bound simp: usize_add_def split: if_splits)

declare backend_chunks.simps [simp del]

function backend_trailers :: "bytes \<Rightarrow> nat \<Rightarrow> io_error + unit" where
  "backend_trailers pending pos =
     (case find_crlf (drop pos pending) of
        None \<Rightarrow> Inl UnexpectedEof
      | Some crlf \<Rightarrow>
          if crlf = 0 then Inr ()
          else
            (let line = take crlf (drop pos pending) in
             if \<not> valid_utf8 line then Inl InvalidData
             else
               (case split_once CHR '':'' line of
                  None \<Rightarrow> Inl InvalidData
                | Some (name, _) \<Rightarrow>
                    if h1_field_name_is_safe (trim name) then backend_trailers pending (pos + (crlf + 2))
                    else Inl InvalidData)))"
  by pat_completeness auto
termination
  by (relation "measure (\<lambda>(pending, pos). length pending - pos)") (auto dest!: find_crlf_bound)

declare backend_trailers.simps [simp del]

definition read_chunked_body :: "reader \<Rightarrow> bytes \<Rightarrow> (io_error + bytes) outcome" where
  "read_chunked_body es pre =
     (case read_to_end_limited (MAX_BACKEND_BODY - length pre + 1) es of
        Inl e \<Rightarrow> Val (Inl e)
      | Inr rest \<Rightarrow>
          (let pending = pre @ rest in
           if length pending > MAX_BACKEND_BODY then Val (Inl InvalidData)
           else
             (case backend_chunks pending 0 [] of
                Panic \<Rightarrow> Panic
              | Val (Inl e) \<Rightarrow> Val (Inl e)
              | Val (Inr (pos, body)) \<Rightarrow>
                  (case backend_trailers pending pos of Inl e \<Rightarrow> Val (Inl e) | Inr _ \<Rightarrow> Val (Inr body)))))"

subsection \<open>The whole response\<close>

definition sized_body :: "nat \<Rightarrow> bytes \<Rightarrow> reader \<Rightarrow> io_error + bytes" where
  "sized_body len pre es =
     (if len > MAX_BACKEND_BODY then Inl InvalidData
      else
        (let already = min (length pre) len in
         if already < len then
           (case read_exact (len - already) es of Inl e \<Rightarrow> Inl e | Inr b \<Rightarrow> Inr (take already pre @ b))
         else Inr (take already pre)))"

definition unsized_body :: "bytes \<Rightarrow> reader \<Rightarrow> io_error + bytes" where
  "unsized_body pre es =
     (case read_to_end_limited (MAX_BACKEND_BODY - length pre + 1) es of
        Inl e \<Rightarrow> Inl e
      | Inr b \<Rightarrow> if length (pre @ b) > MAX_BACKEND_BODY then Inl InvalidData else Inr (pre @ b))"

definition read_body :: "resp_framing \<Rightarrow> bytes \<Rightarrow> reader \<Rightarrow> (io_error + bytes) outcome" where
  "read_body f pre es =
     (if rf_chunked f then read_chunked_body es pre
      else (case rf_cl f of Some len \<Rightarrow> Val (sized_body len pre es) | None \<Rightarrow> Val (unsized_body pre es)))"

definition read_response_for :: "reader \<Rightarrow> string \<Rightarrow> (io_error + http_response) outcome" where
  "read_response_for es request_method =
     (case read_head [] es of
        Inl e \<Rightarrow> Val (Inl e)
      | Inr (buf, header_end, es) \<Rightarrow>
          if \<not> valid_utf8 (take header_end buf) then Val (Inl InvalidData)
          else
            (let lines = split_crlf (take header_end buf) in
             case parse_status_line (hd lines) of
               Inl e \<Rightarrow> Val (Inl e)
             | Inr (status, reason) \<Rightarrow>
                 (case resp_lines resp_init (tl lines) of
                    Inl e \<Rightarrow> Val (Inl e)
                  | Inr f \<Rightarrow>
                      if rf_te f \<and> rf_cl f \<noteq> None then Val (Inl InvalidData)
                      else if rf_te f \<and> \<not> rf_chunked f then Val (Inl InvalidData)
                      else if bodyless (eq_ignore_ascii_case request_method ''HEAD'') status then
                        Val (Inr \<lparr>hr_status = status, hr_reason = reason, hr_headers = rf_headers f, hr_body = []\<rparr>)
                      else
                        (case read_body f (drop (header_end + 4) buf) es of
                           Panic \<Rightarrow> Panic
                         | Val (Inl e) \<Rightarrow> Val (Inl e)
                         | Val (Inr body) \<Rightarrow>
                             Val (Inr \<lparr>hr_status = status, hr_reason = reason, hr_headers = rf_headers f, hr_body = body\<rparr>)))))"

definition read_response :: "reader \<Rightarrow> (io_error + http_response) outcome" where
  "read_response es = read_response_for es ''GET''"

text \<open>The exchange: refuse before connecting, write, and read the answer even when the backend
  closed while the request was still being written.\<close>

definition forward_request_timeout ::
  "(io_error + sink \<times> reader) \<Rightarrow> raw_request \<Rightarrow> string \<Rightarrow> string \<Rightarrow> (io_error + http_response) outcome" where
  "forward_request_timeout conn req client_ip original_host =
     (if \<not> check_forwardable req client_ip original_host then Val (Inl InvalidInput)
      else
        (case conn of
           Inl e \<Rightarrow> Val (Inl e)
         | Inr (s, es) \<Rightarrow>
             (case write_all s (forward_bytes req client_ip original_host) of
                (Inl e, _) \<Rightarrow>
                  if e = BrokenPipe \<or> e = ConnectionReset then
                    (case read_response_for es (rq_method req) of
                       Panic \<Rightarrow> Panic | Val (Inl _) \<Rightarrow> Val (Inl e) | Val (Inr r) \<Rightarrow> Val (Inr r))
                  else Val (Inl e)
              | (Inr _, _) \<Rightarrow> read_response_for es (rq_method req))))"

section \<open>How a response is framed\<close>

lemma read_head_stream:
  "read_head buf es = Inr (buf', pos, es') \<Longrightarrow> length buf < HEADER_BUF \<Longrightarrow>
     buf @ stream_data es = buf' @ stream_data es' \<and> find_header_end buf' = Some pos \<and> length buf' \<le> HEADER_BUF"
proof (induction buf es rule: read_head.induct)
  case (1 buf es)
  obtain r es1 where r: "read_some (HEADER_BUF - length buf) es = (r, es1)" by fastforce
  from "1.prems" r obtain b where b: "r = Inr b" "b \<noteq> []"
    by (cases r) (auto simp: read_head.simps [of buf es] split: if_splits)
  have len: "length b \<le> HEADER_BUF - length buf" using read_some_length r b(1) by blast
  have sd: "stream_data es = b @ stream_data es1"
    using read_some_data [OF _ r [unfolded b(1)] b(2)] "1.prems"(2) by simp
  show ?case
  proof (cases "find_header_end (buf @ b)")
    case None
    with "1.prems" r b have small: "length (buf @ b) < HEADER_BUF"
      by (auto simp: read_head.simps [of buf es] split: if_splits)
    with None "1.prems" r b have "read_head (buf @ b) es1 = Inr (buf', pos, es')"
      by (auto simp: read_head.simps [of buf es] split: if_splits)
    from "1.IH" [OF r [symmetric] b(1) b(2) None _ this small] small sd show ?thesis by simp
  next
    case (Some p)
    with "1.prems" r b have "buf' = buf @ b" "pos = p" "es' = es1"
      by (auto simp: read_head.simps [of buf es] split: if_splits)
    with Some sd len "1.prems"(2) show ?thesis by auto
  qed
qed

lemma cl_parts_all:
  "cl_parts cl ps = Inr cl' \<Longrightarrow>
     (\<forall>n. cl = Some n \<longrightarrow> cl' = Some n) \<and>
     (\<forall>p \<in> set ps. list_all is_ascii_digit (trim p) \<and> parse_uint 64 (trim p) = cl' \<and> cl' \<noteq> None)"
proof (induction ps arbitrary: cl)
  case Nil
  then show ?case by simp
next
  case (Cons p ps)
  from Cons.prems obtain n where n: "list_all is_ascii_digit (trim p)" "parse_uint 64 (trim p) = Some n"
    "cl_parts (Some n) ps = Inr cl'" "cl = None \<or> cl = Some n"
    by (auto simp: Let_def split: if_splits option.splits)
  from Cons.IH [OF n(3)] n(1,2,4) show ?case by auto
qed

text \<open>What the header loop has learnt, of any response.\<close>

definition lengths_agree :: "headers \<Rightarrow> nat option \<Rightarrow> bool" where
  "lengths_agree hs cl \<longleftrightarrow>
     (\<forall>v \<in> set (get_all hs ''content-length''). \<forall>p \<in> set (split_on CHR '','' v).
        list_all is_ascii_digit (trim p) \<and> parse_uint 64 (trim p) = cl) \<and>
     (get_all hs ''content-length'' \<noteq> [] \<longleftrightarrow> cl \<noteq> None)"

definition chunked_last :: "headers \<Rightarrow> bool" where
  "chunked_last hs \<longleftrightarrow>
     (\<exists>v \<in> set (get_all hs ''transfer-encoding'').
        eq_ignore_ascii_case (trim (last (split_on CHR '','' v))) ''chunked'')"

definition rf_ok :: "resp_framing \<Rightarrow> bool" where
  "rf_ok f \<longleftrightarrow> lengths_agree (rf_headers f) (rf_cl f) \<and>
     (rf_te f \<longleftrightarrow> get_all (rf_headers f) ''transfer-encoding'' \<noteq> []) \<and>
     (rf_chunked f \<longleftrightarrow> chunked_last (rf_headers f))"

lemma resp_line_ok:
  assumes "rf_ok f" "resp_line f l = Inr f'"
  shows "rf_ok f'"
proof (cases "split_once CHR '':'' l")
  case None
  with assms show ?thesis by (simp add: resp_line_def)
next
  case (Some nv)
  obtain n v where nv: "nv = (n, v)" by fastforce
  let ?n = "trim n" and ?v = "trim v"
  have tecl: "\<not> (eq_ignore_ascii_case ?n ''content-length'' \<and> eq_ignore_ascii_case ?n ''transfer-encoding'')"
  proof -
    have "\<not> eq_ignore_ascii_case ''content-length'' ''transfer-encoding''" by code_simp
    then show ?thesis using eq_ignore_ascii_case_trans eq_ignore_ascii_case_sym by blast
  qed
  show ?thesis
  proof (cases "eq_ignore_ascii_case ?n ''content-length''")
    case True
    with assms(2) Some nv tecl obtain cl where cl: "cl_parts (rf_cl f) (split_on CHR '','' ?v) = Inr cl"
      and f': "f' = f\<lparr>rf_cl := cl, rf_headers := rf_headers f @ [(?n, ?v)]\<rparr>"
      by (auto simp: resp_line_def Let_def split: sum.splits)
    have all: "list_all is_ascii_digit (trim p)" "parse_uint 64 (trim p) = cl" if "p \<in> set (split_on CHR '','' ?v)" for p
      using cl_parts_all [OF cl] that by blast+
    have some: "cl \<noteq> None" using cl_parts_all [OF cl] split_on_nonempty [of "CHR '',''" ?v] by (meson last_in_set)
    have old: "rf_cl f = cl \<or> get_all (rf_headers f) ''content-length'' = []"
      using cl_parts_all [OF cl] assms(1) by (cases "rf_cl f") (auto simp: rf_ok_def lengths_agree_def)
    have hs: "get_all (rf_headers f') ''content-length'' = get_all (rf_headers f) ''content-length'' @ [?v]"
      "get_all (rf_headers f') ''transfer-encoding'' = get_all (rf_headers f) ''transfer-encoding''"
      using True tecl by (auto simp: f' get_all_append get_all_Cons)
    have "lengths_agree (rf_headers f') cl"
      unfolding lengths_agree_def hs using all some old assms(1) by (auto simp: rf_ok_def lengths_agree_def)
    with assms(1) show ?thesis by (simp add: rf_ok_def chunked_last_def hs) (simp add: f')
  next
    case False
    with assms(2) Some nv obtain
      f': "f' = f\<lparr>rf_te := (rf_te f \<or> eq_ignore_ascii_case ?n ''transfer-encoding''),
         rf_chunked := (rf_chunked f \<or> (eq_ignore_ascii_case ?n ''transfer-encoding'' \<and>
            eq_ignore_ascii_case (trim (last (split_on CHR '','' ?v))) ''chunked'')),
         rf_headers := rf_headers f @ [(?n, ?v)]\<rparr>"
      by (auto simp: resp_line_def Let_def)
    have hs: "get_all (rf_headers f') ''content-length'' = get_all (rf_headers f) ''content-length''"
      "get_all (rf_headers f') ''transfer-encoding'' = get_all (rf_headers f) ''transfer-encoding'' @
         (if eq_ignore_ascii_case ?n ''transfer-encoding'' then [?v] else [])" "rf_cl f' = rf_cl f"
      using False by (simp_all add: f' get_all_append get_all_Cons)
    have "lengths_agree (rf_headers f') (rf_cl f')"
      using assms(1) unfolding lengths_agree_def hs rf_ok_def by blast
    with assms(1) show ?thesis
      by (cases "eq_ignore_ascii_case ?n ''transfer-encoding''") (simp_all add: rf_ok_def chunked_last_def hs, simp_all add: f' disj_commute)
  qed
qed

lemma resp_lines_ok: "rf_ok f \<Longrightarrow> resp_lines f ls = Inr f' \<Longrightarrow> rf_ok f'"
  by (induction f ls rule: resp_lines.induct) (auto split: if_splits sum.splits dest: resp_line_ok)

lemma resp_init_ok: "rf_ok resp_init"
  by (simp add: rf_ok_def resp_init_def lengths_agree_def chunked_last_def get_all_def)

lemma backend_chunks_length:
  "backend_chunks pending pos body = Val (Inr (pos', body')) \<Longrightarrow> pos \<le> length pending \<Longrightarrow> length body \<le> pos \<Longrightarrow>
     length body' \<le> length pending"
proof (induction pending pos body rule: backend_chunks.induct)
  case (1 pending pos body)
  obtain crlf where c: "find_crlf (drop pos pending) = Some crlf"
    using "1.prems"(1) by (auto simp: backend_chunks.simps [of pending pos body] split: option.splits)
  let ?sl = "take crlf (drop pos pending)"
  obtain sz where sz: "valid_utf8 ?sl" "from_str_radix_16 (trim (hd (split_on CHR '';'' ?sl))) = Some sz"
    using "1.prems"(1) c by (auto simp: backend_chunks.simps [of pending pos body] Let_def split: if_splits option.splits)
  show ?case
  proof (cases "sz = 0")
    case True
    with "1.prems" c sz show ?thesis by (auto simp: backend_chunks.simps [of pending pos body])
  next
    case False
    with "1.prems"(1) c sz obtain e where e: "usize_add (pos + (crlf + 2)) sz = Val e"
      by (auto simp: backend_chunks.simps [of pending pos body] split: outcome.splits)
    then have e': "e = pos + (crlf + 2) + sz" by (simp add: outcome_simps)
    from "1.prems"(1) c sz False e have g: "\<not> length pending < e" "\<not> (length pending < e + 2 \<or> take 2 (drop e pending) \<noteq> CRLF)"
      "backend_chunks pending (e + 2) (body @ take sz (drop (pos + (crlf + 2)) pending)) = Val (Inr (pos', body'))"
      by (auto simp: backend_chunks.simps [of pending pos body] split: if_splits)
    from "1.IH" [OF c refl refl _ sz(2) refl False e g(1) g(2) g(3)] sz(1) g(2) e' "1.prems" show ?thesis by simp
  qed
qed

lemma read_chunked_length:
  assumes "read_chunked_body es pre = Val (Inr body)"
  shows "length body \<le> MAX_BACKEND_BODY"
proof -
  from assms obtain rest pos where "\<not> MAX_BACKEND_BODY < length (pre @ rest)"
    "backend_chunks (pre @ rest) 0 [] = Val (Inr (pos, body))"
    by (auto simp: read_chunked_body_def Let_def simp del: length_append split: sum.splits if_splits outcome.splits)
  with backend_chunks_length [of "pre @ rest" 0 "[]" pos body] show ?thesis by simp
qed

lemma sized_body_ok:
  assumes "sized_body len pre es = Inr body"
  shows "length body = len \<and> len \<le> MAX_BACKEND_BODY \<and> prefix body (pre @ stream_data es)"
proof (cases "length pre < len")
  case True
  with assms have *: "len \<le> MAX_BACKEND_BODY" "len - length pre \<le> length (stream_data es)"
    "body = pre @ take (len - length pre) (stream_data es)"
    by (auto simp: sized_body_def read_exact_def Let_def split: if_splits option.splits)
  with True show ?thesis by (auto simp: take_is_prefix)
next
  case False
  with assms have "len \<le> MAX_BACKEND_BODY" "body = take len pre"
    by (auto simp: sized_body_def Let_def split: if_splits)
  with False show ?thesis by (auto simp: prefix_prefix take_is_prefix)
qed

lemma unsized_body_ok:
  assumes "unsized_body pre es = Inr body"
  shows "length body \<le> MAX_BACKEND_BODY \<and> body = pre @ stream_data es"
  using assms by (auto simp: unsized_body_def read_to_end_limited_def split: if_splits option.splits)

lemma read_body_ok:
  assumes "read_body f pre es = Val (Inr body)"
  shows "length body \<le> MAX_BACKEND_BODY \<and>
     (rf_chunked f \<or> (case rf_cl f of Some n \<Rightarrow> n = length body \<and> prefix body (pre @ stream_data es)
                       | None \<Rightarrow> body = pre @ stream_data es))"
  using assms read_chunked_length [of es pre body] sized_body_ok [of _ pre es body] unsized_body_ok [of pre es body]
  by (auto simp: read_body_def split: if_splits option.splits)

lemma first_match:
  assumes "find_sub p s = Some n" "p \<noteq> []"
  shows "s = take n s @ p @ drop (n + length p) s \<and> \<not> contains_sub p (take n s @ take (length p - 1) p)"
proof
  have m: "n + length p \<le> length s" "take (length p) (drop n s) = p" using find_sub_SomeD [OF assms(1)] by auto
  then have "drop n s = p @ drop (n + length p) s" by (metis append_take_drop_id drop_drop add.commute)
  then show s: "s = take n s @ p @ drop (n + length p) s" by (metis append_take_drop_id)
  show "\<not> contains_sub p (take n s @ take (length p - 1) p)"
  proof
    let ?t = "take n s @ take (length p - 1) p"
    assume "contains_sub p ?t"
    then obtain k where k: "find_sub p ?t = Some k" by (auto simp: contains_sub_def)
    have "k + length p \<le> length ?t" using find_sub_SomeD [OF k] by blast
    with m assms(2) have "k < n" by (cases p) auto
    moreover have "s = ?t @ drop (length p - 1) p @ drop (n + length p) s" using s by (metis append_assoc append_take_drop_id)
    then have "find_sub p s = Some k" using find_sub_append [OF k] by metis
    ultimately show False using assms(1) by simp
  qed
qed

text \<open>A response that is handed on was framed in one way only. Its head is the backend's stream
  up to the first empty line; it never has both \<open>Transfer-Encoding\<close> and \<open>Content-Length\<close>; every
  value of every \<open>Content-Length\<close> line is the same number, and the body is exactly that many bytes
  of the stream; a chunked response names \<open>chunked\<close> as a last coding; a response with neither is
  the rest of the stream; a response that can have no body has none; and no body is above the limit.\<close>

theorem read_response_framed:
  assumes "read_response_for es m = Val (Inr r)"
  shows "\<exists>head rest. stream_data es = head @ CRLF @ CRLF @ rest \<and> \<not> contains_sub (CRLF @ CRLF) (head @ take 3 (CRLF @ CRLF)) \<and>
     length (hr_body r) \<le> MAX_BACKEND_BODY \<and>
     (get_all (hr_headers r) ''content-length'' = [] \<or> get_all (hr_headers r) ''transfer-encoding'' = []) \<and>
     (if bodyless (eq_ignore_ascii_case m ''HEAD'') (hr_status r) then hr_body r = []
      else if get_all (hr_headers r) ''transfer-encoding'' \<noteq> [] then chunked_last (hr_headers r)
      else if get_all (hr_headers r) ''content-length'' \<noteq> []
      then lengths_agree (hr_headers r) (Some (length (hr_body r))) \<and> prefix (hr_body r) rest
      else hr_body r = rest)"
proof -
  from assms obtain buf pos es' where h: "read_head [] es = Inr (buf, pos, es')"
    by (auto simp: read_response_for_def split: sum.splits)
  let ?ls = "split_crlf (take pos buf)" and ?pre = "drop (pos + 4) buf"
  let ?bl = "bodyless (eq_ignore_ascii_case m ''HEAD'')"
  from assms h obtain st rs f where p: "parse_status_line (hd ?ls) = Inr (st, rs)"
    "resp_lines resp_init (tl ?ls) = Inr f" "\<not> (rf_te f \<and> rf_cl f \<noteq> None)" "\<not> (rf_te f \<and> \<not> rf_chunked f)"
    by (auto simp: read_response_for_def Let_def split: sum.splits if_splits)
  have r: "hr_status r = st" "hr_headers r = rf_headers f"
    "if ?bl st then hr_body r = [] else read_body f ?pre es' = Val (Inr (hr_body r))"
    using assms h p by (auto simp: read_response_for_def Let_def split: sum.splits if_splits outcome.splits)
  have st: "stream_data es = buf @ stream_data es'" "find_header_end buf = Some pos"
    using read_head_stream [OF h] by (simp_all add: HEADER_BUF_def)
  from first_match [OF st(2) [unfolded find_header_end_def]] have
    b: "buf = take pos buf @ CRLF @ CRLF @ ?pre" "\<not> contains_sub (CRLF @ CRLF) (take pos buf @ take 3 (CRLF @ CRLF))"
    by (simp_all add: CRLF_def numeral_eq_Suc)
  have ok: "rf_ok f" using resp_lines_ok [OF resp_init_ok p(2)] .
  have body: "length (hr_body r) \<le> MAX_BACKEND_BODY \<and> (if ?bl st then hr_body r = []
      else if rf_te f then chunked_last (rf_headers f)
      else (case rf_cl f of Some n \<Rightarrow> n = length (hr_body r) \<and> prefix (hr_body r) (?pre @ stream_data es')
            | None \<Rightarrow> hr_body r = ?pre @ stream_data es'))"
    using r(3) ok p(3,4) read_body_ok [of f ?pre es' "hr_body r"] by (auto simp: rf_ok_def chunked_last_def split: if_splits)
  show ?thesis
    by (rule exI [of _ "take pos buf"], rule exI [of _ "?pre @ stream_data es'"])
      (use st b ok p(3) body in \<open>auto simp: r rf_ok_def lengths_agree_def split: option.splits if_splits\<close>)
qed

definition demo_answer :: bytes where
  "demo_answer = ''HTTP/1.1 200 OK'' @ CRLF @ ''Content-Length: 2, 2'' @ CRLF @ ''content-length: 2'' @ CRLF @ CRLF @ ''hi!''"

theorem read_response_framed_witness:
  "\<exists>r. read_response_for [RData (take 9 demo_answer), RData (drop 9 demo_answer)] ''GET'' = Val (Inr r) \<and>
     length (hr_body r) \<le> MAX_BACKEND_BODY \<and> get_all (hr_headers r) ''transfer-encoding'' = []"
proof -
  let ?r = "\<lparr>hr_status = 200, hr_reason = ''OK'', hr_headers = [(''Content-Length'', ''2, 2''), (''content-length'', ''2'')], hr_body = ''hi''\<rparr>"
  have r: "read_response_for [RData (take 9 demo_answer), RData (drop 9 demo_answer)] ''GET'' = Val (Inr ?r)" by code_simp
  have g: "get_all (hr_headers ?r) ''content-length'' \<noteq> []" by code_simp
  from read_response_framed [OF r] g r show ?thesis by blast
qed

text \<open>The chunk reader adds the announced size to its position without a check: a backend whose
  first chunk announces \<open>ffffffffffffffff\<close> bytes overflows that sum whatever follows, so with overflow
  checks on and a panic that aborts, the proxy process ends.\<close>

theorem read_chunked_overflow:
  assumes "pre @ stream_data es = ''ffffffffffffffff'' @ CRLF @ rest" "stream_end es = None"
    "length (pre @ stream_data es) \<le> MAX_BACKEND_BODY"
  shows "read_chunked_body es pre = Panic"
proof -
  have rd: "read_to_end_limited (MAX_BACKEND_BODY - length pre + 1) es = Inr (stream_data es)"
    using assms(2,3) by (auto simp: read_to_end_limited_def)
  let ?p = "''ffffffffffffffff'' @ CRLF @ rest"
  have c: "find_crlf (drop 0 ?p) = Some 16" by (simp add: find_crlf_def CRLF_def CR_def starts_with_def)
  have z: "from_str_radix_16 (trim (hd (split_on CHR '';'' ''ffffffffffffffff''))) = Some (2 ^ 64 - 1)"
    "valid_utf8 ''ffffffffffffffff''" "usize_add (0 + (16 + 2)) (2 ^ 64 - 1) = Panic" "2 ^ 64 - 1 \<noteq> (0::nat)" by code_simp+
  have t: "take 16 (drop 0 ?p) = ''ffffffffffffffff''" by simp
  have "backend_chunks ?p 0 [] = Panic"
    unfolding backend_chunks.simps [of ?p 0] c option.case Let_def t z using z by simp
  with assms(1,3) show ?thesis
    unfolding read_chunked_body_def rd by (simp add: Let_def)
qed

theorem read_chunked_overflow_witness:
  "read_chunked_body [RData (CRLF @ ''abc'')] ''ffffffffffffffff'' = Panic"
proof -
  have "length (''ffffffffffffffff'' @ stream_data [RData (CRLF @ ''abc'')]) \<le> MAX_BACKEND_BODY" by code_simp
  then show ?thesis by (intro read_chunked_overflow [of _ _ "''abc''"]) (simp_all add: CRLF_def)
qed

end
