(* ===== verification/Step_System.thy ===== *)
theory Step_System
  imports M6_Prelude
begin

text \<open>
  Components whose state lives across requests (the cache, the pool, the rate limiters, an
  HTTP/2 connection) are step systems: an initial state and a relation that one operation
  relates the state before and after. The locale states the contract of an invariant, and its
  lemma is what the component theories use through their interpretations.
\<close>

definition reachable :: "('s \<Rightarrow> bool) \<Rightarrow> ('s \<Rightarrow> 's \<Rightarrow> bool) \<Rightarrow> 's \<Rightarrow> bool" where
  "reachable init step s \<longleftrightarrow> (\<exists>i. init i \<and> rtranclp step i s)"

locale step_invariant =
  fixes init :: "'s \<Rightarrow> bool" and step :: "'s \<Rightarrow> 's \<Rightarrow> bool" and inv :: "'s \<Rightarrow> bool"
  assumes inv_init: "init s \<Longrightarrow> inv s"
    and inv_step: "inv s \<Longrightarrow> step s s' \<Longrightarrow> inv s'"
begin

lemma inv_steps: "rtranclp step s s' \<Longrightarrow> inv s \<Longrightarrow> inv s'"
  by (induction rule: rtranclp_induct) (auto intro: inv_step)

lemma inv_reachable: "reachable init step s \<Longrightarrow> inv s"
  by (auto simp: reachable_def intro: inv_init inv_steps)

end

lemma reachable_init: "init s \<Longrightarrow> reachable init step s"
  by (auto simp: reachable_def)

lemma reachable_step: "reachable init step s \<Longrightarrow> step s s' \<Longrightarrow> reachable init step s'"
  by (auto simp: reachable_def intro: rtranclp.rtrancl_into_rtrancl)

end
