(* ===== verification/H2_Conn.thy ===== *)
theory H2_Conn
  imports H2_Frames H2_Fields Forwarding Step_System "HOL-Library.AList"
begin

text \<open>
  The HTTP/2 server connection, \<open>src/m6-http/src/http2.rs\<close>: the stream state machine, the frame
  handlers, request dispatch, and the flow-controlled writer, each a function on the connection's
  state.

  \<^item> The state \<open>http2_conn\<close> has the fields of \<open>Http2Conn\<close>. \<open>h_out\<close> is the list of all frames pushed since
    the connection opened (\<open>send_buf\<close> is the part of \<open>concat (map frame_bytes h_out)\<close> that the socket has not
    yet taken), and \<open>h_calls\<close> records, for the theorems only, the requests handed to the handler.
    The map of streams is an association list; the order in which a \<open>HashMap\<close> yields its keys is
    the parameter \<open>en_keys\<close>.
  \<^item> What the connection calls outside this crate is in the record \<open>h2_env\<close>: the HPACK decoder and
    encoder (with states of their own), the request handler (any function of the calls so far, the
    request and the address), the configured security headers, \<open>str::to_lowercase\<close> and the
    parsing of an IP address.
  \<^item> A handler returns \<open>Inl\<close> of the error or \<open>Inr\<close>, with the new state in both cases, as the code's
    \<open>&mut self\<close> leaves it. Arithmetic on \<open>i32\<close> that can overflow is \<open>i32_checked\<close>. All readings of the
    clock while one frame is processed are one instant, the argument \<open>now\<close>.
\<close>

section \<open>The state\<close>

datatype stream_state = Idle | Open | HalfClosedLocal | HalfClosedRemote | Closed

datatype verdict = Allow | ConnectionError nat | StreamError nat

record h2_response =
  r2_status :: nat
  r2_headers :: headers
  r2_body :: bytes

record h2_stream =
  st_state :: stream_state
  st_headers :: headers
  st_body :: bytes
  st_headers_done :: bool
  st_send_window :: int
  st_recv_window :: int
  st_resp_body :: "bytes option"
  st_resp_sent :: nat
  st_pending :: "raw_request option"

definition stream_new :: "int \<Rightarrow> h2_stream" where
  "stream_new w =
     \<lparr>st_state = Open, st_headers = [], st_body = [], st_headers_done = False, st_send_window = w,
      st_recv_window = DEFAULT_WINDOW, st_resp_body = None, st_resp_sent = 0, st_pending = None\<rparr>"

datatype phase = Preface | Active | GoingAway | Done

record ('d, 'e) http2_conn =
  h_phase :: phase
  h_recv_buf :: bytes
  h_out :: "frame list"
  h_last_active :: nat
  h_streams :: "(nat \<times> h2_stream) list"
  h_dec :: 'd
  h_enc :: 'e
  h_last_stream_id :: nat
  h_recently_reset :: "(nat \<times> nat) list"
  h_refused_streak :: nat
  h_closed_windows :: "(nat \<times> int) list"
  h_peer_goaway :: bool
  h_goaway_sent :: bool
  h_continuation :: "nat option"
  h_header_block :: bytes
  h_peer_initial_window :: int
  h_peer_max_frame :: nat
  h_conn_recv_window :: int
  h_conn_send_window :: int
  h_trust :: forwarded_trust
  h_calls :: "(raw_request \<times> string) list"

datatype request_outcome = Ready nat headers bytes | Pending raw_request

record ('d, 'e) h2_env =
  en_decode :: "'d \<Rightarrow> bytes \<Rightarrow> headers option \<times> 'd"
  en_set_max :: "'d \<Rightarrow> nat \<Rightarrow> 'd"
  en_encode :: "'e \<Rightarrow> headers \<Rightarrow> bytes \<times> 'e"
  en_keys :: "nat list \<Rightarrow> nat list"
  en_on_request :: "(raw_request \<times> string) list \<Rightarrow> raw_request \<Rightarrow> string \<Rightarrow> request_outcome"
  en_security :: headers
  en_lower :: "string \<Rightarrow> string"
  en_is_ip :: "string \<Rightarrow> bool"

definition conn_new :: "nat \<Rightarrow> 'd \<Rightarrow> 'e \<Rightarrow> ('d, 'e) http2_conn" where
  "conn_new now dec enc =
     \<lparr>h_phase = Preface, h_recv_buf = [], h_out = [], h_last_active = now, h_streams = [], h_dec = dec,
      h_enc = enc, h_last_stream_id = 0, h_recently_reset = [], h_refused_streak = 0,
      h_closed_windows = [], h_peer_goaway = False, h_goaway_sent = False, h_continuation = None,
      h_header_block = [], h_peer_initial_window = DEFAULT_WINDOW, h_peer_max_frame = DEFAULT_MAX_FRAME,
      h_conn_recv_window = DEFAULT_WINDOW, h_conn_send_window = DEFAULT_WINDOW, h_trust = TrustNever,
      h_calls = []\<rparr>"

definition trusting_forwarded_for :: "('d, 'e) http2_conn \<Rightarrow> ('d, 'e) http2_conn" where
  "trusting_forwarded_for c = c\<lparr>h_trust := TrustBackbone\<rparr>"

definition is_done :: "('d, 'e) http2_conn \<Rightarrow> bool" where
  "is_done c \<longleftrightarrow> h_phase c = Done"

abbreviation get_stream :: "('d, 'e) http2_conn \<Rightarrow> nat \<Rightarrow> h2_stream option" where
  "get_stream c sid \<equiv> map_of (h_streams c) sid"

definition put_stream :: "nat \<Rightarrow> h2_stream \<Rightarrow> ('d, 'e) http2_conn \<Rightarrow> ('d, 'e) http2_conn" where
  "put_stream sid s c = c\<lparr>h_streams := AList.update sid s (h_streams c)\<rparr>"

definition remove_stream :: "nat \<Rightarrow> ('d, 'e) http2_conn \<Rightarrow> ('d, 'e) http2_conn" where
  "remove_stream sid c = c\<lparr>h_streams := AList.delete sid (h_streams c)\<rparr>"

section \<open>Writing frames\<close>

definition push_frame :: "nat \<Rightarrow> nat \<Rightarrow> nat \<Rightarrow> bytes \<Rightarrow> ('d, 'e) http2_conn \<Rightarrow> ('d, 'e) http2_conn" where
  "push_frame ftype flags sid payload c =
     c\<lparr>h_out := h_out c @ [\<lparr>fr_type = ftype, fr_flags = flags, fr_stream = sid mod 2 ^ 31, fr_payload = payload\<rparr>]\<rparr>"

definition push_rst :: "nat \<Rightarrow> nat \<Rightarrow> ('d, 'e) http2_conn \<Rightarrow> ('d, 'e) http2_conn" where
  "push_rst sid code c = push_frame TYPE_RST_STREAM 0 sid (be_bytes 4 code) c"

definition push_window_update :: "nat \<Rightarrow> nat \<Rightarrow> ('d, 'e) http2_conn \<Rightarrow> ('d, 'e) http2_conn" where
  "push_window_update sid inc c = push_frame TYPE_WINDOW_UPDATE 0 sid (be_bytes 4 (inc mod 2 ^ 31)) c"

definition send_server_settings :: "('d, 'e) http2_conn \<Rightarrow> ('d, 'e) http2_conn" where
  "send_server_settings c =
     push_frame TYPE_SETTINGS 0 0
       (setting_bytes SETTING_MAX_CONCURRENT_STREAMS MAX_CONCURRENT @
        setting_bytes SETTING_INITIAL_WINDOW_SIZE 1048576 @
        setting_bytes SETTING_MAX_FRAME_SIZE MAX_FRAME_SIZE) c"

definition send_goaway :: "nat \<Rightarrow> ('d, 'e) http2_conn \<Rightarrow> ('d, 'e) http2_conn" where
  "send_goaway code c =
     push_frame TYPE_GOAWAY 0 0 (be_bytes 4 (h_last_stream_id c mod 2 ^ 31) @ be_bytes 4 code) (c\<lparr>h_goaway_sent := True\<rparr>)"

text \<open>The two lines that every connection error is: a GOAWAY, and no new phase but the last.\<close>

definition go_away :: "nat \<Rightarrow> ('d, 'e) http2_conn \<Rightarrow> ('d, 'e) http2_conn" where
  "go_away code c = (send_goaway code c)\<lparr>h_phase := GoingAway\<rparr>"

section \<open>Closed and reset streams\<close>

definition push_back_bounded :: "'a list \<Rightarrow> 'a \<Rightarrow> 'a list" where
  "push_back_bounded q x = (if RESET_MEMORY \<le> length q then tl q else q) @ [x]"

definition close_stream_remembering_window :: "nat \<Rightarrow> ('d, 'e) http2_conn \<Rightarrow> ('d, 'e) http2_conn" where
  "close_stream_remembering_window sid c =
     (case get_stream c sid of
        None \<Rightarrow> remove_stream sid c
      | Some s \<Rightarrow>
          (remove_stream sid c)\<lparr>h_closed_windows := push_back_bounded (h_closed_windows c) (sid, st_send_window s)\<rparr>)"

definition note_reset :: "nat \<Rightarrow> nat \<Rightarrow> ('d, 'e) http2_conn \<Rightarrow> ('d, 'e) http2_conn" where
  "note_reset now sid c = c\<lparr>h_recently_reset := push_back_bounded (h_recently_reset c) (sid, now)\<rparr>"

definition was_reset :: "('d, 'e) http2_conn \<Rightarrow> nat \<Rightarrow> bool" where
  "was_reset c sid \<longleftrightarrow> list_ex (\<lambda>p. fst p = sid) (h_recently_reset c)"

definition active_streams :: "nat \<Rightarrow> ('d, 'e) http2_conn \<Rightarrow> nat" where
  "active_streams now c =
     length (h_streams c) +
     length (filter (\<lambda>p. fst p mod 2 = 1 \<and> now - snd p < RESET_DECAY) (h_recently_reset c))"

section \<open>Which frames are legal\<close>

definition needs_stream :: "nat \<Rightarrow> bool" where
  "needs_stream ftype \<longleftrightarrow>
     ftype \<in> {TYPE_DATA, TYPE_HEADERS, TYPE_PRIORITY, TYPE_RST_STREAM, TYPE_PUSH_PROMISE, TYPE_CONTINUATION}"

definition needs_connection :: "nat \<Rightarrow> bool" where
  "needs_connection ftype \<longleftrightarrow> ftype \<in> {TYPE_SETTINGS, TYPE_PING, TYPE_GOAWAY}"

definition fixed_length :: "nat \<Rightarrow> (nat \<times> bool) option" where
  "fixed_length ftype =
     (if ftype = TYPE_PRIORITY then Some (5, False)
      else if ftype = TYPE_RST_STREAM then Some (4, True)
      else if ftype = TYPE_PING then Some (8, True)
      else if ftype = TYPE_WINDOW_UPDATE then Some (4, True) else None)"

definition settings_shape :: "nat \<Rightarrow> nat \<Rightarrow> nat \<Rightarrow> verdict" where
  "settings_shape ftype flags len =
     (if ftype = TYPE_SETTINGS then
        (if has_flag flags FLAG_ACK \<and> len \<noteq> 0 then ConnectionError ERR_FRAME_SIZE
         else if \<not> has_flag flags FLAG_ACK \<and> len mod 6 \<noteq> 0 then ConnectionError ERR_FRAME_SIZE
         else Allow)
      else Allow)"

definition frame_shape_verdict :: "nat \<Rightarrow> nat \<Rightarrow> nat \<Rightarrow> nat \<Rightarrow> verdict" where
  "frame_shape_verdict ftype flags sid len =
     (if needs_stream ftype \<and> sid = 0 then ConnectionError ERR_PROTOCOL_ERROR
      else if needs_connection ftype \<and> sid \<noteq> 0 then ConnectionError ERR_PROTOCOL_ERROR
      else
        (case fixed_length ftype of
           Some (want, connection_level) \<Rightarrow>
             if len \<noteq> want
             then (if connection_level then ConnectionError ERR_FRAME_SIZE else StreamError ERR_FRAME_SIZE)
             else settings_shape ftype flags len
         | None \<Rightarrow> settings_shape ftype flags len))"

definition stream_state_of :: "('d, 'e) http2_conn \<Rightarrow> nat \<Rightarrow> stream_state" where
  "stream_state_of c sid =
     (case get_stream c sid of
        Some s \<Rightarrow> st_state s
      | None \<Rightarrow> if sid > h_last_stream_id c then Idle else Closed)"

definition frame_verdict :: "('d, 'e) http2_conn \<Rightarrow> nat \<Rightarrow> nat \<Rightarrow> verdict" where
  "frame_verdict c ftype sid =
     (if sid = 0 then Allow
      else if ftype = TYPE_PRIORITY then Allow
      else if ftype \<in> {TYPE_SETTINGS, TYPE_PING, TYPE_GOAWAY} then Allow
      else
        (case stream_state_of c sid of
           Idle \<Rightarrow> if ftype = TYPE_HEADERS then Allow else ConnectionError ERR_PROTOCOL_ERROR
         | Open \<Rightarrow> Allow
         | HalfClosedLocal \<Rightarrow> Allow
         | HalfClosedRemote \<Rightarrow>
             if ftype \<in> {TYPE_WINDOW_UPDATE, TYPE_RST_STREAM} then Allow else StreamError ERR_STREAM_CLOSED
         | Closed \<Rightarrow>
             if ftype \<in> {TYPE_WINDOW_UPDATE, TYPE_RST_STREAM} then Allow
             else if was_reset c sid then StreamError ERR_STREAM_CLOSED
             else ConnectionError ERR_STREAM_CLOSED))"

section \<open>Flow-controlled delivery\<close>

text \<open>What the inner loop sends next on a stream: \<open>None\<close> when it moves on to the next stream, else
  the number of bytes and whether they end the response.\<close>

definition next_chunk :: "nat \<Rightarrow> int \<Rightarrow> h2_stream \<Rightarrow> (nat \<times> bool) option" where
  "next_chunk max_frame conn_window s =
     (case st_resp_body s of
        None \<Rightarrow> None
      | Some body \<Rightarrow>
          (let remaining = length body - st_resp_sent s in
           if remaining = 0 then Some (0, True)
           else if conn_window \<le> 0 \<or> st_send_window s \<le> 0 then None
           else
             (let window = min (nat (min conn_window (st_send_window s))) max_frame; n = min remaining window in
              Some (n, st_resp_sent s + n = length body))))"

definition send_chunk :: "nat \<Rightarrow> h2_stream \<Rightarrow> nat \<Rightarrow> bool \<Rightarrow> ('d, 'e) http2_conn \<Rightarrow> ('d, 'e) http2_conn" where
  "send_chunk sid s n is_last c =
     (let chunk = take n (drop (st_resp_sent s) (the (st_resp_body s)));
          c = push_frame TYPE_DATA (if is_last then FLAG_END_STREAM else 0) sid chunk c in
      put_stream sid (s\<lparr>st_send_window := st_send_window s - int n, st_resp_sent := st_resp_sent s + n\<rparr>)
        (c\<lparr>h_conn_send_window := h_conn_send_window c - int n\<rparr>))"

definition finish_stream :: "nat \<Rightarrow> ('d, 'e) http2_conn \<Rightarrow> ('d, 'e) http2_conn" where
  "finish_stream sid c =
     (case get_stream c sid of
        None \<Rightarrow> c
      | Some s \<Rightarrow>
          if st_state s = HalfClosedRemote then
            (let c = close_stream_remembering_window sid c in
             if sid mod 2 = 1 then c\<lparr>h_last_stream_id := max (h_last_stream_id c) sid\<rparr> else c)
          else put_stream sid (s\<lparr>st_state := HalfClosedLocal\<rparr>) c)"

definition unsent :: "('d, 'e) http2_conn \<Rightarrow> nat \<Rightarrow> nat" where
  "unsent c sid =
     (case get_stream c sid of
        Some s \<Rightarrow> (case st_resp_body s of Some b \<Rightarrow> length b - st_resp_sent s | None \<Rightarrow> 0)
      | None \<Rightarrow> 0)"

lemma next_chunk_bound:
  "next_chunk m w s = Some (n, l) \<Longrightarrow>
     \<exists>b. st_resp_body s = Some b \<and> n \<le> length b - st_resp_sent s \<and> (l \<longleftrightarrow> st_resp_sent s + n = length b \<or> length b \<le> st_resp_sent s)"
  by (auto simp: next_chunk_def Let_def split: option.splits if_splits)

lemma unsent_send_chunk:
  "unsent (send_chunk sid s n l c) sid =
     (case st_resp_body s of Some b \<Rightarrow> length b - (st_resp_sent s + n) | None \<Rightarrow> 0)"
  by (simp add: unsent_def send_chunk_def put_stream_def push_frame_def update_conv' Let_def split: option.split)

text \<open>The inner loop. A chunk of no bytes that does not end the response would be sent again and
  again; it needs a peer frame size of zero, which no connection has (\<open>conn_ok\<close> below).\<close>

function flush_stream :: "nat \<Rightarrow> nat \<Rightarrow> ('d, 'e) http2_conn \<Rightarrow> ('d, 'e) http2_conn" where
  "flush_stream max_frame sid c =
     (case get_stream c sid of
        None \<Rightarrow> c
      | Some s \<Rightarrow>
          (case next_chunk max_frame (h_conn_send_window c) s of
             None \<Rightarrow> c
           | Some (n, is_last) \<Rightarrow>
               if n = 0 \<and> is_last
               then close_stream_remembering_window sid (push_frame TYPE_DATA FLAG_END_STREAM sid [] c)
               else
                 (let c' = send_chunk sid s n is_last c in
                  if is_last then finish_stream sid c'
                  else if n = 0 then c'
                  else if h_conn_send_window c' \<le> 0 then c'
                  else if (case get_stream c' sid of Some s \<Rightarrow> st_send_window s | None \<Rightarrow> 0) \<le> 0 then c'
                  else flush_stream max_frame sid c')))"
  by pat_completeness auto
termination
  by (relation "measure (\<lambda>(max_frame, sid, c). unsent c sid)")
    (simp, clarsimp simp: unsent_send_chunk, drule next_chunk_bound, auto simp: unsent_def)

declare flush_stream.simps [simp del]

definition flush_pending_streams :: "('d, 'e) h2_env \<Rightarrow> ('d, 'e) http2_conn \<Rightarrow> ('d, 'e) http2_conn" where
  "flush_pending_streams env c =
     (let max_frame = h_peer_max_frame c in
      foldl (\<lambda>c sid. flush_stream max_frame sid c) c (en_keys env (map fst (h_streams c))))"

section \<open>Responses\<close>

definition response_pairs :: "('d, 'e) h2_env \<Rightarrow> nat \<Rightarrow> headers \<Rightarrow> nat \<Rightarrow> headers" where
  "response_pairs env status hs body_len =
     (let filtered = map (\<lambda>kv. (en_lower env (fst kv), snd kv))
            (filter (\<lambda>kv. en_lower env (fst kv) \<notin> {''connection'', ''transfer-encoding'', ''keep-alive'', ''content-length''}) hs)
      in ('':status'', show_nat status) #
         (if status_may_have_content_length status then [(''content-length'', show_nat body_len)] else []) @
         filtered @ absent_from (en_security env) filtered)"

definition encode_response_headers ::
  "('d, 'e) h2_env \<Rightarrow> nat \<Rightarrow> headers \<Rightarrow> nat \<Rightarrow> ('d, 'e) http2_conn \<Rightarrow> bytes \<times> ('d, 'e) http2_conn" where
  "encode_response_headers env status hs body_len c =
     (let (block, enc) = en_encode env (h_enc c) (response_pairs env status hs body_len) in (block, c\<lparr>h_enc := enc\<rparr>))"

definition dispatch_h2_response ::
  "('d, 'e) h2_env \<Rightarrow> nat \<Rightarrow> h2_response \<Rightarrow> string \<Rightarrow> ('d, 'e) http2_conn \<Rightarrow> ('d, 'e) http2_conn" where
  "dispatch_h2_response env sid resp meth c =
     (let advertised_len = length (r2_body resp);
          body = (if eq_ignore_ascii_case meth ''HEAD'' then [] else r2_body resp);
          (block, c) = encode_response_headers env (r2_status resp) (r2_headers resp) advertised_len c;
          c = push_frame TYPE_HEADERS FLAG_END_HEADERS sid block c;
          c = (case get_stream c sid of
                 Some s \<Rightarrow> put_stream sid (s\<lparr>st_resp_body := Some body, st_resp_sent := 0\<rparr>) c
               | None \<Rightarrow> c)
      in flush_pending_streams env c)"

text \<open>One stream of \<open>poll_pending_url\<close>: \<open>arrived\<close> is the response that \<open>on_response\<close> makes of what the
  stream's receiver has, if it has anything.\<close>

definition poll_stream ::
  "('d, 'e) h2_env \<Rightarrow> (nat \<Rightarrow> h2_response option) \<Rightarrow> ('d, 'e) http2_conn \<Rightarrow> nat \<Rightarrow> ('d, 'e) http2_conn" where
  "poll_stream env arrived c sid =
     (case get_stream c sid of
        None \<Rightarrow> c
      | Some s \<Rightarrow>
          (case st_pending s of
             None \<Rightarrow> c
           | Some req \<Rightarrow>
               (case arrived sid of
                  None \<Rightarrow> c
                | Some resp \<Rightarrow>
                    dispatch_h2_response env sid resp (rq_method req) (put_stream sid (s\<lparr>st_pending := None\<rparr>) c))))"

definition poll_pending_url ::
  "('d, 'e) h2_env \<Rightarrow> (nat \<Rightarrow> h2_response option) \<Rightarrow> ('d, 'e) http2_conn \<Rightarrow> ('d, 'e) http2_conn" where
  "poll_pending_url env arrived c = foldl (poll_stream env arrived) c (en_keys env (map fst (h_streams c)))"

section \<open>Requests\<close>

fun is_headersonly :: "headers \<Rightarrow> bool" where
  "is_headersonly [] = False"
| "is_headersonly ((k, v) # hs) =
     (if k = '':method'' then v \<in> {''GET'', ''HEAD'', ''DELETE'', ''OPTIONS'', ''CONNECT''} else is_headersonly hs)"

record request_parts =
  rp_method :: string
  rp_path :: string
  rp_query :: "string option"
  rp_fwd :: headers
  rp_authority :: "string option"
  rp_forwarded_for :: "string option"

fun request_fields :: "request_parts \<Rightarrow> headers \<Rightarrow> request_parts" where
  "request_fields p [] = p"
| "request_fields p ((k, v) # hs) =
     request_fields
       (if k = '':method'' then p\<lparr>rp_method := v\<rparr>
        else if k = '':path'' then
          (case split_once CHR ''?'' v of
             Some (a, q) \<Rightarrow> p\<lparr>rp_path := a, rp_query := Some q\<rparr>
           | None \<Rightarrow> p\<lparr>rp_path := v\<rparr>)
        else if k = '':authority'' then p\<lparr>rp_authority := Some v\<rparr>
        else if starts_with '':'' k then p
        else if is_untrusted_inbound k then
          (if eq_ignore_ascii_case k ''x-forwarded-for'' then p\<lparr>rp_forwarded_for := Some v\<rparr> else p)
        else p\<lparr>rp_fwd := rp_fwd p @ [(k, v)]\<rparr>) hs"

definition build_request :: "headers \<Rightarrow> bytes \<Rightarrow> raw_request \<times> string option" where
  "build_request hs body =
     (let p = request_fields \<lparr>rp_method = [], rp_path = [], rp_query = None, rp_fwd = [], rp_authority = None,
                rp_forwarded_for = None\<rparr> hs;
          fwd = (case rp_authority p of
                   Some a \<Rightarrow> if headers_contains (rp_fwd p) ''host'' then rp_fwd p else rp_fwd p @ [(''Host'', a)]
                 | None \<Rightarrow> rp_fwd p)
      in (\<lparr>rq_method = rp_method p, rq_path = rp_path p, rq_query = rp_query p, rq_version = ''HTTP/2'',
           rq_headers = fwd, rq_body = body\<rparr>, rp_forwarded_for p))"

definition dispatch_ready :: "h2_stream \<Rightarrow> bool" where
  "dispatch_ready s \<longleftrightarrow>
     st_headers_done s \<and> (st_state s = HalfClosedRemote \<or> is_headersonly (st_headers s)) \<and>
     st_state s \<noteq> Closed \<and> st_resp_body s = None \<and> st_pending s = None"

definition declared_length :: "headers \<Rightarrow> nat option" where
  "declared_length hs =
     (case filter (\<lambda>kv. fst kv = ''content-length'') hs of
        [] \<Rightarrow> None
      | kv # _ \<Rightarrow> parse_uint 64 (trim (snd kv)))"

definition call_handler ::
  "('d, 'e) h2_env \<Rightarrow> string \<Rightarrow> nat \<Rightarrow> h2_stream \<Rightarrow> ('d, 'e) http2_conn \<Rightarrow> ('d, 'e) http2_conn" where
  "call_handler env peer_ip sid s c =
     (let (req, forwarded_for) = build_request (st_headers s) (st_body s);
          client_ip = attributed_client_ip (en_is_ip env) forwarded_for peer_ip (h_trust c);
          outcome = en_on_request env (h_calls c) req client_ip;
          c = c\<lparr>h_calls := h_calls c @ [(req, client_ip)]\<rparr>
      in case outcome of
           Ready status hs body \<Rightarrow>
             dispatch_h2_response env sid \<lparr>r2_status = status, r2_headers = hs, r2_body = body\<rparr> (rq_method req) c
         | Pending ctx_req \<Rightarrow>
             (case get_stream c sid of
                Some s \<Rightarrow> put_stream sid (s\<lparr>st_pending := Some ctx_req\<rparr>) c
              | None \<Rightarrow> c))"

definition maybe_dispatch :: "('d, 'e) h2_env \<Rightarrow> string \<Rightarrow> nat \<Rightarrow> ('d, 'e) http2_conn \<Rightarrow> ('d, 'e) http2_conn" where
  "maybe_dispatch env peer_ip sid c =
     (case get_stream c sid of
        None \<Rightarrow> c
      | Some s \<Rightarrow>
          if \<not> dispatch_ready s then c
          else if (case declared_length (st_headers s) of Some n \<Rightarrow> n \<noteq> length (st_body s) | None \<Rightarrow> False)
          then remove_stream sid (push_rst sid ERR_PROTOCOL_ERROR c)
          else if validate_request_headers (st_headers s) \<noteq> Inr ()
          then remove_stream sid (push_rst sid ERR_PROTOCOL_ERROR c)
          else call_handler env peer_ip sid s c)"

section \<open>Frame handlers\<close>

type_synonym ('d, 'e) handled = "(string + unit) \<times> ('d, 'e) http2_conn"

fun shift_windows :: "int \<Rightarrow> (nat \<times> h2_stream) list \<Rightarrow> (nat \<times> h2_stream) list outcome" where
  "shift_windows delta [] = Val []"
| "shift_windows delta ((sid, s) # rest) =
     (case i32_checked (st_send_window s + delta) of
        Panic \<Rightarrow> Panic
      | Val w \<Rightarrow>
          (case shift_windows delta rest of
             Panic \<Rightarrow> Panic
           | Val rest \<Rightarrow> Val ((sid, s\<lparr>st_send_window := w\<rparr>) # rest)))"

definition apply_setting ::
  "('d, 'e) h2_env \<Rightarrow> nat \<Rightarrow> nat \<Rightarrow> ('d, 'e) http2_conn \<Rightarrow> ('d, 'e) handled outcome" where
  "apply_setting env sid val c =
     (if sid = SETTING_HEADER_TABLE_SIZE
      then Val (Inr (), c\<lparr>h_dec := en_set_max env (h_dec c) (min val HPACK_MAX_TABLE_SIZE)\<rparr>)
      else if sid = SETTING_ENABLE_PUSH
      then Val (if val > 1 then Inl ''invalid ENABLE_PUSH'' else Inr (), c)
      else if sid = SETTING_INITIAL_WINDOW_SIZE then
        (if val > 0x7fffffff then Val (Inl ''INITIAL_WINDOW_SIZE overflow'', c)
         else
           (case i32_checked (int val - h_peer_initial_window c) of
              Panic \<Rightarrow> Panic
            | Val delta \<Rightarrow>
                (case shift_windows delta (h_streams c) of
                   Panic \<Rightarrow> Panic
                 | Val ss \<Rightarrow> Val (Inr (), c\<lparr>h_peer_initial_window := int val, h_streams := ss\<rparr>))))
      else if sid = SETTING_MAX_FRAME_SIZE then
        (if \<not> (16384 \<le> val \<and> val \<le> 16777215) then Val (Inl ''invalid MAX_FRAME_SIZE'', c)
         else Val (Inr (), c\<lparr>h_peer_max_frame := val\<rparr>))
      else Val (Inr (), c))"

function settings_loop :: "('d, 'e) h2_env \<Rightarrow> bytes \<Rightarrow> ('d, 'e) http2_conn \<Rightarrow> ('d, 'e) handled outcome" where
  "settings_loop env payload c =
     (if 6 \<le> length payload then
        (case apply_setting env (from_be (take 2 payload)) (from_be (take 4 (drop 2 payload))) c of
           Panic \<Rightarrow> Panic
         | Val (Inl e, c) \<Rightarrow> Val (Inl e, c)
         | Val (Inr _, c) \<Rightarrow> settings_loop env (drop 6 payload) c)
      else Val (Inr (), c))"
  by pat_completeness auto
termination
  by (relation "measure (\<lambda>(env, payload, c). length payload)") auto

declare settings_loop.simps [simp del]

definition handle_settings :: "('d, 'e) h2_env \<Rightarrow> nat \<Rightarrow> bytes \<Rightarrow> ('d, 'e) http2_conn \<Rightarrow> ('d, 'e) handled outcome" where
  "handle_settings env flags payload c =
     (if has_flag flags FLAG_ACK then Val (Inr (), c)
      else if length payload mod 6 \<noteq> 0 then Val (Inl ''SETTINGS payload not multiple of 6'', c)
      else
        (case settings_loop env payload c of
           Panic \<Rightarrow> Panic
         | Val (Inl e, c) \<Rightarrow> Val (Inl e, c)
         | Val (Inr _, c) \<Rightarrow> Val (Inr (), push_frame TYPE_SETTINGS FLAG_ACK 0 [] c)))"

definition handle_ping :: "nat \<Rightarrow> bytes \<Rightarrow> ('d, 'e) http2_conn \<Rightarrow> ('d, 'e) http2_conn" where
  "handle_ping flags payload c =
     (if \<not> has_flag flags FLAG_ACK \<and> length payload = 8 then push_frame TYPE_PING FLAG_ACK 0 payload c else c)"

definition MAX_WINDOW :: int where "MAX_WINDOW = 0x7fffffff"

definition handle_window_update ::
  "('d, 'e) h2_env \<Rightarrow> nat \<Rightarrow> nat \<Rightarrow> bytes \<Rightarrow> ('d, 'e) http2_conn \<Rightarrow> ('d, 'e) handled" where
  "handle_window_update env now sid payload c =
     (if length payload < 4 then (Inl ''WINDOW_UPDATE too short'', c)
      else
        (let inc = from_be (take 4 payload) mod 2 ^ 31 in
         if inc = 0 then (Inl ''zero WINDOW_UPDATE increment'', c)
         else if sid = 0 then
           (if h_conn_send_window c + int inc > MAX_WINDOW
            then (Inl ''connection flow-control window overflow'', go_away ERR_FLOW_CONTROL c)
            else (Inr (), flush_pending_streams env (c\<lparr>h_conn_send_window := h_conn_send_window c + int inc\<rparr>)))
         else
           (case get_stream c sid of
              Some s \<Rightarrow>
                if st_send_window s + int inc > MAX_WINDOW
                then (Inr (), note_reset now sid (remove_stream sid (push_rst sid ERR_FLOW_CONTROL c)))
                else (Inr (), flush_pending_streams env (put_stream sid (s\<lparr>st_send_window := st_send_window s + int inc\<rparr>) c))
            | None \<Rightarrow>
                (case position (\<lambda>p. fst p = sid) (h_closed_windows c) of
                   Some pos \<Rightarrow>
                     (let w = snd (h_closed_windows c ! pos) in
                      if w + int inc > MAX_WINDOW
                      then (Inr (), note_reset now sid
                              ((push_rst sid ERR_FLOW_CONTROL c)\<lparr>h_closed_windows :=
                                 take pos (h_closed_windows c) @ drop (pos + 1) (h_closed_windows c)\<rparr>))
                      else (Inr (), flush_pending_streams env
                              (c\<lparr>h_closed_windows := (h_closed_windows c)[pos := (sid, w + int inc)]\<rparr>)))
                 | None \<Rightarrow> (Inr (), flush_pending_streams env c)))))"

definition check_hpack_block :: "bytes \<Rightarrow> ('d, 'e) http2_conn \<Rightarrow> ('d, 'e) handled" where
  "check_hpack_block block c =
     (case validate_hpack_block block HPACK_MAX_TABLE_SIZE of
        Inl e \<Rightarrow> (Inl e, go_away ERR_COMPRESSION c)
      | Inr _ \<Rightarrow> (Inr (), c))"

definition decode_hpack ::
  "('d, 'e) h2_env \<Rightarrow> bytes \<Rightarrow> ('d, 'e) http2_conn \<Rightarrow> (string + headers) \<times> ('d, 'e) http2_conn" where
  "decode_hpack env block c =
     (case en_decode env (h_dec c) block of
        (None, d) \<Rightarrow> (Inl ''HPACK decode error'', c\<lparr>h_dec := d\<rparr>)
      | (Some hs, d) \<Rightarrow>
          (Inr (map (\<lambda>kv. (from_utf8_lossy (fst kv), from_utf8_lossy (snd kv))) hs), c\<lparr>h_dec := d\<rparr>))"

subsection \<open>HEADERS\<close>

definition refuse_stream :: "nat \<Rightarrow> nat \<Rightarrow> ('d, 'e) http2_conn \<Rightarrow> ('d, 'e) handled" where
  "refuse_stream now sid c =
     (let c = push_rst sid ERR_REFUSED_STREAM c;
          c = note_reset now sid (c\<lparr>h_last_stream_id := max (h_last_stream_id c) sid\<rparr>);
          c = c\<lparr>h_refused_streak := h_refused_streak c + 1\<rparr>
      in if h_refused_streak c \<ge> MAX_REFUSED_STREAK
         then (Inl ''stream concurrency cap ignored: reset flood'', go_away ERR_ENHANCE_YOUR_CALM c)
         else (Inr (), c))"

text \<open>The fields that the flags announce before the header block, and the padding after it.\<close>

datatype header_prefix = Block bytes | Bad string | BadPriority string | SelfDependency

definition header_block_of :: "nat \<Rightarrow> nat \<Rightarrow> bytes \<Rightarrow> header_prefix" where
  "header_block_of sid flags payload =
     (if has_flag flags FLAG_PADDED \<and> payload = [] then Bad ''HEADERS: PADDED set but no pad-length byte''
      else
        (let pad = (if has_flag flags FLAG_PADDED then byte_val (payload ! 0) else 0);
             pos = (if has_flag flags FLAG_PADDED then 1 else 0) in
         if has_flag flags FLAG_PRIORITY \<and> length payload < pos + 5
         then BadPriority ''HEADERS: PRIORITY set but payload shorter than the priority fields''
         else if has_flag flags FLAG_PRIORITY \<and> from_be (take 4 (drop pos payload)) mod 2 ^ 31 = sid
         then SelfDependency
         else
           (let pos = (if has_flag flags FLAG_PRIORITY then pos + 5 else pos) in
            if pos + pad > length payload then Bad ''HEADERS: padding exceeds payload''
            else Block (take (length payload - pad - pos) (drop pos payload)))))"

definition end_headers ::
  "('d, 'e) h2_env \<Rightarrow> string \<Rightarrow> nat \<Rightarrow> nat \<Rightarrow> bytes \<Rightarrow> ('d, 'e) http2_conn \<Rightarrow> ('d, 'e) handled" where
  "end_headers env ip sid flags block c =
     (let combined = h_header_block c @ block;
          c = c\<lparr>h_header_block := [], h_continuation := None\<rparr> in
      case check_hpack_block combined c of
        (Inl e, c) \<Rightarrow> (Inl e, c)
      | (Inr _, c) \<Rightarrow>
          (case decode_hpack env combined c of
             (Inl e, c) \<Rightarrow> (Inl e, c)
           | (Inr hs, c) \<Rightarrow>
               (case get_stream c sid of
                  None \<Rightarrow> (Inr (), c)
                | Some s \<Rightarrow>
                    if st_headers_done s \<and> \<not> has_flag flags FLAG_END_STREAM
                    then (Inr (), remove_stream sid (push_rst sid ERR_PROTOCOL_ERROR c))
                    else if st_headers_done s \<and> list_ex (\<lambda>kv. starts_with '':'' (fst kv)) hs
                    then (Inr (), remove_stream sid (push_rst sid ERR_PROTOCOL_ERROR c))
                    else (Inr (), maybe_dispatch env ip sid
                            (put_stream sid (s\<lparr>st_headers := st_headers s @ hs, st_headers_done := True\<rparr>) c)))))"

definition open_stream :: "nat \<Rightarrow> nat \<Rightarrow> ('d, 'e) http2_conn \<Rightarrow> ('d, 'e) http2_conn" where
  "open_stream sid flags c =
     (let s = (case get_stream c sid of Some s \<Rightarrow> s | None \<Rightarrow> stream_new (h_peer_initial_window c)) in
      put_stream sid (if has_flag flags FLAG_END_STREAM then s\<lparr>st_state := HalfClosedRemote\<rparr> else s) c)"

definition accept_headers ::
  "('d, 'e) h2_env \<Rightarrow> string \<Rightarrow> nat \<Rightarrow> nat \<Rightarrow> bytes \<Rightarrow> ('d, 'e) http2_conn \<Rightarrow> ('d, 'e) handled" where
  "accept_headers env ip sid flags payload c =
     (case header_block_of sid flags payload of
        Bad e \<Rightarrow> (Inl e, c)
      | BadPriority e \<Rightarrow> (Inl e, push_rst sid ERR_FRAME_SIZE c)
      | SelfDependency \<Rightarrow> (Inr (), push_rst sid ERR_PROTOCOL_ERROR c)
      | Block block \<Rightarrow>
          (let c = open_stream sid flags c in
           if has_flag flags FLAG_END_HEADERS then end_headers env ip sid flags block c
           else if length (h_header_block c) + length block > MAX_HEADER_BLOCK
           then (Inl ''header block exceeds MAX_HEADER_BLOCK'', go_away ERR_ENHANCE_YOUR_CALM c)
           else (Inr (), maybe_dispatch env ip sid
                   (c\<lparr>h_header_block := h_header_block c @ block, h_continuation := Some sid\<rparr>))))"

definition handle_headers ::
  "('d, 'e) h2_env \<Rightarrow> nat \<Rightarrow> string \<Rightarrow> nat \<Rightarrow> nat \<Rightarrow> bytes \<Rightarrow> ('d, 'e) http2_conn \<Rightarrow> ('d, 'e) handled" where
  "handle_headers env now ip sid flags payload c =
     (if sid = 0 then (Inl ''HEADERS on stream 0'', c)
      else if sid mod 2 = 0 then (Inl ''client used even stream ID'', c)
      else if sid \<le> h_last_stream_id c \<and> get_stream c sid = None then (Inr (), go_away ERR_PROTOCOL_ERROR c)
      else if h_peer_goaway c \<and> get_stream c sid = None
      then (Inr (), (push_rst sid ERR_REFUSED_STREAM c)\<lparr>h_last_stream_id := max (h_last_stream_id c) sid\<rparr>)
      else if active_streams now c \<ge> MAX_CONCURRENT then refuse_stream now sid c
      else accept_headers env ip sid flags payload
             (c\<lparr>h_refused_streak := 0, h_last_stream_id := max (h_last_stream_id c) sid\<rparr>))"

subsection \<open>CONTINUATION and DATA\<close>

definition handle_continuation ::
  "('d, 'e) h2_env \<Rightarrow> string \<Rightarrow> nat \<Rightarrow> nat \<Rightarrow> bytes \<Rightarrow> ('d, 'e) http2_conn \<Rightarrow> ('d, 'e) handled" where
  "handle_continuation env ip sid flags payload c =
     (if length (h_header_block c) + length payload > MAX_HEADER_BLOCK
      then (Inl ''header block exceeds MAX_HEADER_BLOCK'', go_away ERR_ENHANCE_YOUR_CALM c)
      else
        (let c = c\<lparr>h_header_block := h_header_block c @ payload\<rparr> in
         if \<not> has_flag flags FLAG_END_HEADERS then (Inr (), c)
         else
           (let all = h_header_block c; c = c\<lparr>h_continuation := None, h_header_block := []\<rparr> in
            case check_hpack_block all c of
              (Inl e, c) \<Rightarrow> (Inl e, c)
            | (Inr _, c) \<Rightarrow>
                (case get_stream c sid of
                   None \<Rightarrow> (Inr (), maybe_dispatch env ip sid c)
                 | Some s \<Rightarrow>
                     (case decode_hpack env all c of
                        (Inl e, c) \<Rightarrow> (Inl e, c)
                      | (Inr hs, c) \<Rightarrow>
                          (Inr (), maybe_dispatch env ip sid
                             (put_stream sid (s\<lparr>st_headers := st_headers s @ hs, st_headers_done := True\<rparr>) c)))))))"

definition data_of :: "nat \<Rightarrow> bytes \<Rightarrow> string + bytes" where
  "data_of flags payload =
     (if has_flag flags FLAG_PADDED then
        (if payload = [] then Inl ''DATA: PADDED set but no pad-length byte''
         else
           (let pad = byte_val (payload ! 0) in
            if pad \<ge> length payload then Inl ''DATA: excess padding''
            else Inr (take (length payload - pad - 1) (drop 1 payload))))
      else Inr payload)"

text \<open>Half the window, where both receive windows are topped up again.\<close>

definition credit :: "int \<Rightarrow> int" where
  "credit w = (if w < DEFAULT_WINDOW div 2 then DEFAULT_WINDOW - w else 0)"

definition charge_connection :: "nat \<Rightarrow> ('d, 'e) http2_conn \<Rightarrow> ('d, 'e) handled" where
  "charge_connection n c =
     (let w = h_conn_recv_window c - int n in
      if w < 0 then (Inl ''connection flow control exceeded'', c\<lparr>h_conn_recv_window := w\<rparr>)
      else
        (let c = c\<lparr>h_conn_recv_window := w + credit w\<rparr> in
         (Inr (), if credit w > 0 then push_window_update 0 (nat (credit w)) c else c)))"

definition stream_data_frame ::
  "('d, 'e) h2_env \<Rightarrow> string \<Rightarrow> nat \<Rightarrow> nat \<Rightarrow> nat \<Rightarrow> bytes \<Rightarrow> h2_stream \<Rightarrow> ('d, 'e) http2_conn \<Rightarrow> ('d, 'e) handled" where
  "stream_data_frame env ip sid flags charged data s c =
     (let w = st_recv_window s - int charged in
      if w < 0 then (Inl ''stream flow control exceeded'', put_stream sid (s\<lparr>st_recv_window := w\<rparr>) c)
      else if length (st_body s) + length data > MAX_H2_BODY
      then (Inr (), push_rst sid ERR_PROTOCOL_ERROR (remove_stream sid c))
      else
        (let s = s\<lparr>st_body := st_body s @ data, st_recv_window := w + credit w\<rparr>;
             s = (if has_flag flags FLAG_END_STREAM then s\<lparr>st_state := HalfClosedRemote\<rparr> else s);
             c = put_stream sid s c;
             c = (if credit w > 0 then push_window_update sid (nat (credit w)) c else c)
         in (Inr (), if has_flag flags FLAG_END_STREAM \<and> st_headers_done s then maybe_dispatch env ip sid c else c)))"

definition handle_data ::
  "('d, 'e) h2_env \<Rightarrow> string \<Rightarrow> nat \<Rightarrow> nat \<Rightarrow> bytes \<Rightarrow> ('d, 'e) http2_conn \<Rightarrow> ('d, 'e) handled" where
  "handle_data env ip sid flags payload c =
     (if sid = 0 then (Inl ''DATA on stream 0'', c)
      else
        (case data_of flags payload of
           Inl e \<Rightarrow> (Inl e, c)
         | Inr data \<Rightarrow>
             (case charge_connection (length payload) c of
                (Inl e, c) \<Rightarrow> (Inl e, c)
              | (Inr _, c) \<Rightarrow>
                  (case get_stream c sid of
                     None \<Rightarrow> (Inr (), c)
                   | Some s \<Rightarrow> stream_data_frame env ip sid flags (length payload) data s c))))"

section \<open>The frame loop\<close>

definition handle_priority :: "nat \<Rightarrow> nat \<Rightarrow> bytes \<Rightarrow> ('d, 'e) http2_conn \<Rightarrow> ('d, 'e) http2_conn" where
  "handle_priority now sid payload c =
     (if from_be (take 4 payload) mod 2 ^ 31 = sid
      then note_reset now sid (remove_stream sid (push_rst sid ERR_PROTOCOL_ERROR c)) else c)"

definition handle_rst_stream :: "nat \<Rightarrow> nat \<Rightarrow> ('d, 'e) http2_conn \<Rightarrow> ('d, 'e) http2_conn" where
  "handle_rst_stream now sid c =
     note_reset now sid ((remove_stream sid c)\<lparr>h_last_stream_id := max (h_last_stream_id c) sid\<rparr>)"

definition dispatch_frame ::
  "('d, 'e) h2_env \<Rightarrow> nat \<Rightarrow> string \<Rightarrow> frame \<Rightarrow> ('d, 'e) http2_conn \<Rightarrow> ('d, 'e) handled outcome" where
  "dispatch_frame env now ip f c =
     (let ftype = fr_type f; flags = fr_flags f; sid = fr_stream f; payload = fr_payload f in
      if ftype = TYPE_DATA then Val (handle_data env ip sid flags payload c)
      else if ftype = TYPE_HEADERS then Val (handle_headers env now ip sid flags payload c)
      else if ftype = TYPE_PRIORITY then Val (Inr (), handle_priority now sid payload c)
      else if ftype = TYPE_RST_STREAM then Val (Inr (), handle_rst_stream now sid c)
      else if ftype = TYPE_SETTINGS then handle_settings env flags payload c
      else if ftype = TYPE_PUSH_PROMISE then Val (Inl ''client sent PUSH_PROMISE'', c)
      else if ftype = TYPE_PING then Val (Inr (), handle_ping flags payload c)
      else if ftype = TYPE_GOAWAY then Val (Inr (), c\<lparr>h_peer_goaway := True\<rparr>)
      else if ftype = TYPE_WINDOW_UPDATE then Val (handle_window_update env now sid payload c)
      else if ftype = TYPE_CONTINUATION then Val (handle_continuation env ip sid flags payload c)
      else Val (Inr (), c))"

definition handle_frame ::
  "('d, 'e) h2_env \<Rightarrow> nat \<Rightarrow> string \<Rightarrow> frame \<Rightarrow> ('d, 'e) http2_conn \<Rightarrow> ('d, 'e) handled outcome" where
  "handle_frame env now ip f c =
     (let ftype = fr_type f; sid = fr_stream f in
      if (case h_continuation c of Some cont \<Rightarrow> ftype \<noteq> TYPE_CONTINUATION \<or> sid \<noteq> cont | None \<Rightarrow> False)
      then Val (Inl ''expected CONTINUATION'', c)
      else if h_continuation c = None \<and> ftype = TYPE_CONTINUATION
      then Val (Inl ''CONTINUATION without a preceding HEADERS'', c)
      else
        (case frame_shape_verdict ftype (fr_flags f) sid (length (fr_payload f)) of
           ConnectionError code \<Rightarrow> Val (Inr (), go_away code c)
         | StreamError code \<Rightarrow> Val (Inr (), note_reset now sid (remove_stream sid (push_rst sid code c)))
         | Allow \<Rightarrow>
             (case (if h_continuation c \<noteq> None then Allow else frame_verdict c ftype sid) of
                ConnectionError code \<Rightarrow> Val (Inr (), go_away code c)
              | StreamError code \<Rightarrow> Val (Inr (), remove_stream sid (push_rst sid code c))
              | Allow \<Rightarrow> dispatch_frame env now ip f c)))"

text \<open>\<open>process_frame\<close>: \<open>Inr True\<close> when a frame was processed, \<open>Inr False\<close> when more bytes are needed.\<close>

definition preface_step :: "('d, 'e) http2_conn \<Rightarrow> (string + bool) \<times> ('d, 'e) http2_conn" where
  "preface_step c =
     (if h_phase c = Preface then
        (if length (h_recv_buf c) < length CLIENT_PREFACE then (Inr False, c)
         else if \<not> starts_with CLIENT_PREFACE (h_recv_buf c) then (Inl ''bad connection preface'', c)
         else (Inr True, send_server_settings
                 (c\<lparr>h_recv_buf := drop (length CLIENT_PREFACE) (h_recv_buf c), h_phase := Active\<rparr>)))
      else (Inr True, c))"

definition process_frame ::
  "('d, 'e) h2_env \<Rightarrow> nat \<Rightarrow> string \<Rightarrow> ('d, 'e) http2_conn \<Rightarrow> ((string + bool) \<times> ('d, 'e) http2_conn) outcome" where
  "process_frame env now ip c =
     (case preface_step c of
        (Inl e, c) \<Rightarrow> Val (Inl e, c)
      | (Inr False, c) \<Rightarrow> Val (Inr False, c)
      | (Inr True, c) \<Rightarrow>
          (let len = head_length (h_recv_buf c) in
           if length (h_recv_buf c) < FRAME_HDR then Val (Inr False, c)
           else if len > MAX_FRAME_SIZE
           then Val (Inl ''frame exceeds SETTINGS_MAX_FRAME_SIZE'', go_away ERR_FRAME_SIZE c)
           else if length (h_recv_buf c) < FRAME_HDR + len then Val (Inr False, c)
           else
             (let (f, rest) = cut_frame (h_recv_buf c) in
              case handle_frame env now ip f (c\<lparr>h_recv_buf := rest\<rparr>) of
                Panic \<Rightarrow> Panic
              | Val (Inl e, c) \<Rightarrow> Val (Inl e, c)
              | Val (Inr _, c) \<Rightarrow> Val (Inr True, c))))"

end
