(* ===== verification/H2_Steps.thy ===== *)
theory H2_Steps
  imports H2_Conn
begin

text \<open>
  Every handler of the connection is a sequence of the elementary changes of \<open>micro\<close>, each with
  the guard under which the code makes it. What all of them keep is then kept by every handler,
  by rule induction on the sequence: the theorems on connections are proved over \<open>micro\<close> once and
  not handler by handler.
\<close>

definition ready_request :: "h2_stream \<Rightarrow> bool" where
  "ready_request s \<longleftrightarrow>
     dispatch_ready s \<and> (\<forall>n. declared_length (st_headers s) = Some n \<longrightarrow> n = length (st_body s)) \<and>
     validate_request_headers (st_headers s) = Inr ()"

definition the_call :: "('d, 'e) h2_env \<Rightarrow> string \<Rightarrow> forwarded_trust \<Rightarrow> h2_stream \<Rightarrow> raw_request \<times> string" where
  "the_call env ip trust s =
     (fst (build_request (st_headers s) (st_body s)),
      attributed_client_ip (en_is_ip env) (snd (build_request (st_headers s) (st_body s))) ip trust)"

inductive micro :: "('d, 'e) h2_env \<Rightarrow> string \<Rightarrow> ('d, 'e) http2_conn \<Rightarrow> ('d, 'e) http2_conn \<Rightarrow> bool" for env ip where
  m_frame: "t \<noteq> TYPE_DATA \<Longrightarrow> micro env ip c (push_frame t fl sid p c)"
| m_goaway_sent: "micro env ip c (c\<lparr>h_goaway_sent := True\<rparr>)"
| m_phase: "ph \<noteq> Preface \<Longrightarrow> micro env ip c (c\<lparr>h_phase := ph\<rparr>)"
| m_remove: "micro env ip c (remove_stream sid c)"
| m_reset: "micro env ip c (note_reset now sid c)"
| m_close: "micro env ip c (close_stream_remembering_window sid c)"
| m_last: "h_last_stream_id c \<le> n \<Longrightarrow> n < 2 ^ 31 \<or> n = h_last_stream_id c \<Longrightarrow> micro env ip c (c\<lparr>h_last_stream_id := n\<rparr>)"
| m_finish: "get_stream c sid = Some s \<Longrightarrow>
     micro env ip c ((close_stream_remembering_window sid c)\<lparr>h_last_stream_id := max (h_last_stream_id c) sid\<rparr>)"
| m_chunk: "get_stream c sid = Some s \<Longrightarrow> next_chunk (h_peer_max_frame c) (h_conn_send_window c) s = Some (n, l) \<Longrightarrow>
     n \<noteq> 0 \<or> \<not> l \<Longrightarrow> micro env ip c (send_chunk sid s n l c)"
| m_end: "get_stream c sid = Some s \<Longrightarrow> next_chunk (h_peer_max_frame c) (h_conn_send_window c) s = Some (0, True) \<Longrightarrow>
     micro env ip c (close_stream_remembering_window sid (push_frame TYPE_DATA FLAG_END_STREAM sid [] c))"
| m_state: "get_stream c sid = Some s \<Longrightarrow> x \<in> {HalfClosedLocal, HalfClosedRemote} \<Longrightarrow>
     micro env ip c (put_stream sid (s\<lparr>st_state := x\<rparr>) c)"
| m_headers: "get_stream c sid = Some s \<Longrightarrow>
     micro env ip c (put_stream sid (s\<lparr>st_headers := hs, st_headers_done := True\<rparr>) c)"
| m_body: "get_stream c sid = Some s \<Longrightarrow> n \<le> MAX_FRAME_SIZE \<Longrightarrow> 0 \<le> st_recv_window s - int n \<Longrightarrow>
     length b \<le> MAX_H2_BODY \<Longrightarrow>
     micro env ip c (put_stream sid
       (s\<lparr>st_body := b, st_recv_window := st_recv_window s - int n + credit (st_recv_window s - int n)\<rparr>) c)"
| m_recv: "n \<le> MAX_FRAME_SIZE \<Longrightarrow> 0 \<le> h_conn_recv_window c - int n \<Longrightarrow>
     micro env ip c (c\<lparr>h_conn_recv_window := h_conn_recv_window c - int n + credit (h_conn_recv_window c - int n)\<rparr>)"
| m_pending: "get_stream c sid = Some s \<Longrightarrow> micro env ip c (put_stream sid (s\<lparr>st_pending := r\<rparr>) c)"
| m_response: "get_stream c sid = Some s \<Longrightarrow>
     micro env ip c (put_stream sid (s\<lparr>st_resp_body := Some b, st_resp_sent := 0\<rparr>) c)"
| m_dec: "micro env ip c (c\<lparr>h_dec := d\<rparr>)"
| m_enc: "micro env ip c (c\<lparr>h_enc := e\<rparr>)"
| m_call: "get_stream c sid = Some s \<Longrightarrow> ready_request s \<Longrightarrow>
     micro env ip c (c\<lparr>h_calls := h_calls c @ [the_call env ip (h_trust c) s]\<rparr>)"
| m_open: "get_stream c sid = None \<Longrightarrow> length (h_streams c) < MAX_CONCURRENT \<Longrightarrow> sid mod 2 = 1 \<Longrightarrow>
     sid \<le> h_last_stream_id c \<Longrightarrow> micro env ip c (put_stream sid (stream_new (h_peer_initial_window c)) c)"
| m_conn_window: "0 \<le> inc \<Longrightarrow> h_conn_send_window c + inc \<le> MAX_WINDOW \<Longrightarrow>
     micro env ip c (c\<lparr>h_conn_send_window := h_conn_send_window c + inc\<rparr>)"
| m_stream_window: "get_stream c sid = Some s \<Longrightarrow> 0 \<le> inc \<Longrightarrow> st_send_window s + inc \<le> MAX_WINDOW \<Longrightarrow>
     micro env ip c (put_stream sid (s\<lparr>st_send_window := st_send_window s + inc\<rparr>) c)"
| m_closed: "length ws \<le> length (h_closed_windows c) \<Longrightarrow> micro env ip c (c\<lparr>h_closed_windows := ws\<rparr>)"
| m_initial: "0 \<le> v \<Longrightarrow> v \<le> MAX_WINDOW \<Longrightarrow> shift_windows (v - h_peer_initial_window c) (h_streams c) = Val ss \<Longrightarrow>
     micro env ip c (c\<lparr>h_peer_initial_window := v, h_streams := ss\<rparr>)"
| m_max_frame: "16384 \<le> v \<Longrightarrow> v \<le> 16777215 \<Longrightarrow> micro env ip c (c\<lparr>h_peer_max_frame := v\<rparr>)"
| m_streak: "n \<le> h_refused_streak c + 1 \<Longrightarrow> micro env ip c (c\<lparr>h_refused_streak := n\<rparr>)"
| m_block: "length b \<le> MAX_HEADER_BLOCK \<Longrightarrow> k = None \<longrightarrow> b = [] \<Longrightarrow>
     micro env ip c (c\<lparr>h_header_block := b, h_continuation := k\<rparr>)"
| m_peer_goaway: "micro env ip c (c\<lparr>h_peer_goaway := True\<rparr>)"

abbreviation steps :: "('d, 'e) h2_env \<Rightarrow> string \<Rightarrow> ('d, 'e) http2_conn \<Rightarrow> ('d, 'e) http2_conn \<Rightarrow> bool" where
  "steps env ip \<equiv> rtranclp (micro env ip)"

lemmas step_after = rtranclp.rtrancl_into_rtrancl [of "micro env ip" for env ip]

lemmas then_frame = step_after [OF _ m_frame]
lemmas then_goaway_sent = step_after [OF _ m_goaway_sent]
lemmas then_phase = step_after [OF _ m_phase]
lemmas then_remove = step_after [OF _ m_remove]
lemmas then_reset = step_after [OF _ m_reset]
lemmas then_close = step_after [OF _ m_close]
lemmas then_last = step_after [OF _ m_last]
lemmas then_dec = step_after [OF _ m_dec]
lemmas then_enc = step_after [OF _ m_enc]
lemmas then_streak = step_after [OF _ m_streak]
lemmas then_block = step_after [OF _ m_block]
lemmas then_closed = step_after [OF _ m_closed]

section \<open>What the operations leave alone\<close>

lemma push_frame_fields [simp]:
  "h_phase (push_frame t f i p c) = h_phase c" "h_recv_buf (push_frame t f i p c) = h_recv_buf c"
  "h_streams (push_frame t f i p c) = h_streams c" "h_last_stream_id (push_frame t f i p c) = h_last_stream_id c"
  "h_peer_max_frame (push_frame t f i p c) = h_peer_max_frame c" "h_conn_send_window (push_frame t f i p c) = h_conn_send_window c"
  "h_conn_recv_window (push_frame t f i p c) = h_conn_recv_window c" "h_header_block (push_frame t f i p c) = h_header_block c"
  "h_continuation (push_frame t f i p c) = h_continuation c" "h_refused_streak (push_frame t f i p c) = h_refused_streak c"
  "h_closed_windows (push_frame t f i p c) = h_closed_windows c" "h_calls (push_frame t f i p c) = h_calls c"
  "h_trust (push_frame t f i p c) = h_trust c" "h_recently_reset (push_frame t f i p c) = h_recently_reset c"
  "h_peer_initial_window (push_frame t f i p c) = h_peer_initial_window c"
  by (simp_all add: push_frame_def)

lemma put_stream_fields [simp]:
  "h_phase (put_stream i s c) = h_phase c" "h_recv_buf (put_stream i s c) = h_recv_buf c" "h_out (put_stream i s c) = h_out c"
  "get_stream (put_stream i s c) j = (if j = i then Some s else get_stream c j)"
  "h_last_stream_id (put_stream i s c) = h_last_stream_id c" "h_peer_max_frame (put_stream i s c) = h_peer_max_frame c"
  "h_conn_send_window (put_stream i s c) = h_conn_send_window c" "h_conn_recv_window (put_stream i s c) = h_conn_recv_window c"
  "h_header_block (put_stream i s c) = h_header_block c" "h_continuation (put_stream i s c) = h_continuation c"
  "h_refused_streak (put_stream i s c) = h_refused_streak c" "h_closed_windows (put_stream i s c) = h_closed_windows c"
  "h_calls (put_stream i s c) = h_calls c" "h_trust (put_stream i s c) = h_trust c"
  "h_recently_reset (put_stream i s c) = h_recently_reset c" "h_peer_initial_window (put_stream i s c) = h_peer_initial_window c"
  by (simp_all add: put_stream_def update_conv')

lemma remove_stream_fields [simp]:
  "h_phase (remove_stream i c) = h_phase c" "h_recv_buf (remove_stream i c) = h_recv_buf c" "h_out (remove_stream i c) = h_out c"
  "get_stream (remove_stream i c) j = (if j = i then None else get_stream c j)"
  "h_last_stream_id (remove_stream i c) = h_last_stream_id c" "h_peer_max_frame (remove_stream i c) = h_peer_max_frame c"
  "h_conn_send_window (remove_stream i c) = h_conn_send_window c" "h_conn_recv_window (remove_stream i c) = h_conn_recv_window c"
  "h_header_block (remove_stream i c) = h_header_block c" "h_continuation (remove_stream i c) = h_continuation c"
  "h_refused_streak (remove_stream i c) = h_refused_streak c" "h_closed_windows (remove_stream i c) = h_closed_windows c"
  "h_calls (remove_stream i c) = h_calls c" "h_trust (remove_stream i c) = h_trust c"
  "h_recently_reset (remove_stream i c) = h_recently_reset c" "h_peer_initial_window (remove_stream i c) = h_peer_initial_window c"
  by (simp_all add: remove_stream_def delete_conv')

lemma close_stream_fields [simp]:
  "h_phase (close_stream_remembering_window i c) = h_phase c" "h_recv_buf (close_stream_remembering_window i c) = h_recv_buf c"
  "h_out (close_stream_remembering_window i c) = h_out c"
  "h_streams (close_stream_remembering_window i c) = AList.delete i (h_streams c)"
  "h_last_stream_id (close_stream_remembering_window i c) = h_last_stream_id c"
  "h_peer_max_frame (close_stream_remembering_window i c) = h_peer_max_frame c"
  "h_conn_send_window (close_stream_remembering_window i c) = h_conn_send_window c"
  "h_conn_recv_window (close_stream_remembering_window i c) = h_conn_recv_window c"
  "h_header_block (close_stream_remembering_window i c) = h_header_block c"
  "h_continuation (close_stream_remembering_window i c) = h_continuation c"
  "h_refused_streak (close_stream_remembering_window i c) = h_refused_streak c"
  "h_calls (close_stream_remembering_window i c) = h_calls c" "h_trust (close_stream_remembering_window i c) = h_trust c"
  "h_recently_reset (close_stream_remembering_window i c) = h_recently_reset c"
  "h_peer_initial_window (close_stream_remembering_window i c) = h_peer_initial_window c"
  by (simp_all add: close_stream_remembering_window_def remove_stream_def split: option.split)

lemma note_reset_fields [simp]:
  "h_phase (note_reset n i c) = h_phase c" "h_recv_buf (note_reset n i c) = h_recv_buf c" "h_out (note_reset n i c) = h_out c"
  "h_streams (note_reset n i c) = h_streams c" "h_last_stream_id (note_reset n i c) = h_last_stream_id c"
  "h_peer_max_frame (note_reset n i c) = h_peer_max_frame c" "h_conn_send_window (note_reset n i c) = h_conn_send_window c"
  "h_conn_recv_window (note_reset n i c) = h_conn_recv_window c" "h_header_block (note_reset n i c) = h_header_block c"
  "h_continuation (note_reset n i c) = h_continuation c" "h_refused_streak (note_reset n i c) = h_refused_streak c"
  "h_closed_windows (note_reset n i c) = h_closed_windows c" "h_calls (note_reset n i c) = h_calls c"
  "h_trust (note_reset n i c) = h_trust c" "h_peer_initial_window (note_reset n i c) = h_peer_initial_window c"
  by (simp_all add: note_reset_def)

lemma send_chunk_fields [simp]:
  "h_phase (send_chunk i s n l c) = h_phase c" "h_recv_buf (send_chunk i s n l c) = h_recv_buf c"
  "get_stream (send_chunk i s n l c) j =
     (if j = i then Some (s\<lparr>st_send_window := st_send_window s - int n, st_resp_sent := st_resp_sent s + n\<rparr>) else get_stream c j)"
  "h_last_stream_id (send_chunk i s n l c) = h_last_stream_id c" "h_peer_max_frame (send_chunk i s n l c) = h_peer_max_frame c"
  "h_conn_send_window (send_chunk i s n l c) = h_conn_send_window c - int n"
  "h_conn_recv_window (send_chunk i s n l c) = h_conn_recv_window c" "h_header_block (send_chunk i s n l c) = h_header_block c"
  "h_continuation (send_chunk i s n l c) = h_continuation c" "h_refused_streak (send_chunk i s n l c) = h_refused_streak c"
  "h_closed_windows (send_chunk i s n l c) = h_closed_windows c" "h_calls (send_chunk i s n l c) = h_calls c"
  "h_trust (send_chunk i s n l c) = h_trust c" "h_recently_reset (send_chunk i s n l c) = h_recently_reset c"
  "h_peer_initial_window (send_chunk i s n l c) = h_peer_initial_window c"
  by (simp_all add: send_chunk_def Let_def)

section \<open>The operations as sequences\<close>

lemma step_one: "micro env ip c d \<Longrightarrow> steps env ip c d"
  by (rule r_into_rtranclp)

lemma steps_trans: "steps env ip c d \<Longrightarrow> steps env ip d e \<Longrightarrow> steps env ip c e"
  by (rule rtranclp_trans)

lemma push_rst_steps: "steps env ip c d \<Longrightarrow> steps env ip c (push_rst sid code d)"
  unfolding push_rst_def by (rule then_frame) (simp_all add: type_defs)

lemma push_window_update_steps: "steps env ip c d \<Longrightarrow> steps env ip c (push_window_update sid inc d)"
  unfolding push_window_update_def by (rule then_frame) (simp_all add: type_defs)

lemma go_away_steps: "steps env ip c d \<Longrightarrow> steps env ip c (go_away code d)"
  unfolding go_away_def send_goaway_def
  by (rule then_phase, rule then_frame, rule then_goaway_sent) (simp_all add: type_defs)

lemma finish_stream_steps: "steps env ip c (finish_stream sid c)"
proof (cases "get_stream c sid")
  case None
  then show ?thesis by (simp add: finish_stream_def)
next
  case (Some s)
  have "steps env ip c (close_stream_remembering_window sid c)" by (rule step_one, rule m_close)
  moreover have "steps env ip c ((close_stream_remembering_window sid c)\<lparr>h_last_stream_id := max (h_last_stream_id c) sid\<rparr>)"
    by (rule step_one, rule m_finish [OF Some])
  ultimately show ?thesis using Some
    by (auto simp: finish_stream_def Let_def intro: step_one m_state)
qed

lemma flush_stream_steps: "m = h_peer_max_frame c \<Longrightarrow> steps env ip c (flush_stream m sid c)"
proof (induction m sid c rule: flush_stream.induct)
  case (1 m sid c)
  show ?case
  proof (cases "get_stream c sid")
    case None
    then show ?thesis by (simp add: flush_stream.simps [of m])
  next
    case (Some s)
    show ?thesis
    proof (cases "next_chunk m (h_conn_send_window c) s")
      case None
      with Some show ?thesis by (simp add: flush_stream.simps [of m])
    next
      case nc: (Some nl)
      obtain n l where nl: "nl = (n, l)" by fastforce
      let ?c = "send_chunk sid s n l c"
      show ?thesis
      proof (cases "n = 0 \<and> l")
        case True
        with Some nc nl "1.prems" show ?thesis
          by (subst flush_stream.simps) (auto intro!: step_one m_end)
      next
        case False
        have one: "steps env ip c ?c" using Some nc nl False "1.prems" by (auto intro: step_one m_chunk)
        note IH = "1.IH" [OF Some nc nl [symmetric] False refl]
        have fin: "steps env ip c (finish_stream sid ?c)" by (rule steps_trans [OF one finish_stream_steps])
        show ?thesis
          using one fin IH steps_trans [OF one] Some nc nl False "1.prems"
          by (subst flush_stream.simps) (auto simp: Let_def)
      qed
    qed
  qed
qed

lemma flush_stream_max_frame [simp]: "h_peer_max_frame (flush_stream m sid c) = h_peer_max_frame c"
proof (induction m sid c rule: flush_stream.induct)
  case (1 m sid c)
  then show ?case
    by (subst flush_stream.simps) (auto simp: finish_stream_def Let_def split: option.split)
qed

lemma flush_pending_steps: "steps env ip c (flush_pending_streams env c)"
proof -
  have "m = h_peer_max_frame c \<Longrightarrow> steps env ip c (foldl (\<lambda>c sid. flush_stream m sid c) c ks)" for m ks
  proof (induction ks arbitrary: c)
    case (Cons k ks)
    from Cons.IH [of "flush_stream m k c"] Cons.prems flush_stream_steps [of m c env ip k] show ?case
      by (simp add: steps_trans)
  qed simp
  then show ?thesis by (simp add: flush_pending_streams_def)
qed

lemma dispatch_response_steps: "steps env ip c (dispatch_h2_response env sid resp meth c)"
proof -
  obtain block enc where e: "en_encode env (h_enc c) (response_pairs env (r2_status resp) (r2_headers resp) (length (r2_body resp))) = (block, enc)"
    by fastforce
  let ?c = "push_frame TYPE_HEADERS FLAG_END_HEADERS sid block (c\<lparr>h_enc := enc\<rparr>)"
  have one: "steps env ip c ?c"
    by (rule then_frame, rule step_one, rule m_enc) (simp add: type_defs)
  let ?b = "if eq_ignore_ascii_case meth ''HEAD'' then [] else r2_body resp"
  let ?d = "case get_stream c sid of
      Some s \<Rightarrow> put_stream sid (s\<lparr>st_resp_body := Some ?b, st_resp_sent := 0\<rparr>) ?c | None \<Rightarrow> ?c"
  have two: "steps env ip c ?d"
    by (cases "get_stream c sid") (use one in \<open>auto intro!: step_after [OF one m_response]\<close>)
  have "dispatch_h2_response env sid resp meth c = flush_pending_streams env ?d"
    by (simp add: dispatch_h2_response_def encode_response_headers_def e Let_def)
  then show ?thesis using steps_trans [OF two flush_pending_steps] by simp
qed

lemma call_handler_steps:
  assumes "get_stream c sid = Some s" "ready_request s"
  shows "steps env ip c (call_handler env ip sid s c)"
proof -
  let ?call = "the_call env ip (h_trust c) s"
  let ?c = "c\<lparr>h_calls := h_calls c @ [?call]\<rparr>"
  have one: "steps env ip c ?c" by (rule step_one, rule m_call [OF assms])
  obtain req ff where b: "build_request (st_headers s) (st_body s) = (req, ff)" by fastforce
  have pend: "steps env ip c (put_stream sid (s\<lparr>st_pending := r\<rparr>) ?c)" for r
    by (rule step_after [OF one m_pending]) (simp add: assms(1))
  show ?thesis
    using pend assms(1) b steps_trans [OF one dispatch_response_steps]
    by (simp add: call_handler_def the_call_def Let_def split: request_outcome.split)
qed

lemma maybe_dispatch_steps: "steps env ip c (maybe_dispatch env ip sid c)"
proof (cases "get_stream c sid")
  case None
  then show ?thesis by (simp add: maybe_dispatch_def)
next
  case (Some s)
  have rst: "steps env ip c (remove_stream sid (push_rst sid ERR_PROTOCOL_ERROR c))"
    by (rule then_remove, rule push_rst_steps) simp
  show ?thesis
  proof (cases "ready_request s")
    case True
    with Some rst call_handler_steps [OF Some True] show ?thesis
      by (auto simp: maybe_dispatch_def)
  next
    case False
    with Some rst show ?thesis by (auto simp: maybe_dispatch_def ready_request_def split: option.splits)
  qed
qed

lemma then_dispatch: "steps env ip c d \<Longrightarrow> steps env ip c (maybe_dispatch env ip sid d)"
  using maybe_dispatch_steps steps_trans by blast

lemma then_flush: "steps env ip c d \<Longrightarrow> steps env ip c (flush_pending_streams env d)"
  using flush_pending_steps steps_trans by blast

lemma poll_pending_steps: "steps env ip c (poll_pending_url env arrived c)"
proof -
  have one: "steps env ip c (poll_stream env arrived c sid)" for sid and c :: "('a, 'b) http2_conn"
    using steps_trans [OF step_one [OF m_pending] dispatch_response_steps]
    by (auto simp: poll_stream_def split: option.split)
  have "steps env ip c (foldl (poll_stream env arrived) c ks)" for ks
  proof (induction ks arbitrary: c)
    case (Cons k ks)
    from steps_trans [OF one Cons.IH] show ?case by simp
  qed simp
  then show ?thesis by (simp add: poll_pending_url_def)
qed

section \<open>The handlers as sequences\<close>

lemma handle_ping_steps: "steps env ip c (handle_ping flags payload c)"
  unfolding handle_ping_def by (auto intro!: step_one m_frame simp: type_defs)

lemma handle_priority_steps: "steps env ip c (handle_priority now sid payload c)"
  unfolding handle_priority_def by (auto intro!: then_reset then_remove push_rst_steps)

lemma handle_rst_stream_steps: "sid < 2 ^ 31 \<Longrightarrow> steps env ip c (handle_rst_stream now sid c)"
  unfolding handle_rst_stream_def
  by (rule then_reset, rule then_last, rule then_remove) (auto simp: max_def)

lemma apply_setting_steps:
  assumes "apply_setting env i v c = Val (r, c')"
  shows "steps env ip c c'"
proof -
  have "steps env ip c (c\<lparr>h_peer_initial_window := int v, h_streams := ss\<rparr>)"
    if "shift_windows (int v - h_peer_initial_window c) (h_streams c) = Val ss" "\<not> v > 0x7fffffff" for ss
    using that by (intro step_one m_initial) (simp_all add: MAX_WINDOW_def)
  with assms show ?thesis
    by (auto simp: apply_setting_def outcome_simps intro!: step_one m_dec m_max_frame split: if_splits outcome.splits)
qed

lemma settings_loop_steps:
  "settings_loop env payload c = Val (r, c') \<Longrightarrow> steps env ip c c'"
proof (induction env payload c rule: settings_loop.induct)
  case (1 env payload c)
  show ?case
  proof (cases "6 \<le> length payload")
    case True
    obtain r1 c1 where a: "apply_setting env (from_be (take 2 payload)) (from_be (take 4 (drop 2 payload))) c = Val (r1, c1)"
      using "1.prems" True by (auto simp: settings_loop.simps [of env payload c] split: outcome.splits)
    note one = apply_setting_steps [OF a, of ip]
    show ?thesis
    proof (cases r1)
      case (Inl e)
      with "1.prems" True a one show ?thesis by (simp add: settings_loop.simps [of env payload c])
    next
      case (Inr u)
      with "1.prems" True a have "settings_loop env (drop 6 payload) c1 = Val (r, c')"
        by (simp add: settings_loop.simps [of env payload c])
      with "1.IH" [OF True a refl Inr this] one show ?thesis by (blast intro: steps_trans)
    qed
  next
    case False
    with "1.prems" show ?thesis by (simp add: settings_loop.simps [of env payload c])
  qed
qed

lemma handle_settings_steps:
  "handle_settings env flags payload c = Val (r, c') \<Longrightarrow> steps env ip c c'"
  by (auto simp: handle_settings_def intro!: then_frame intro: settings_loop_steps simp: type_defs
      split: if_splits outcome.splits sum.splits)

lemma handle_window_update_steps: "steps env ip c (snd (handle_window_update env now sid payload c))"
proof -
  let ?inc = "int (from_be (take 4 payload) mod 2 ^ 31)"
  have i: "0 \<le> ?inc" by simp
  have a: "h_conn_send_window c + ?inc \<le> MAX_WINDOW \<Longrightarrow>
      steps env ip c (flush_pending_streams env (c\<lparr>h_conn_send_window := h_conn_send_window c + ?inc\<rparr>))"
    by (rule then_flush, rule step_one, rule m_conn_window [OF i])
  have b: "get_stream c sid = Some s \<Longrightarrow> st_send_window s + ?inc \<le> MAX_WINDOW \<Longrightarrow>
      steps env ip c (flush_pending_streams env (put_stream sid (s\<lparr>st_send_window := st_send_window s + ?inc\<rparr>) c))" for s
    by (rule then_flush, rule step_one, rule m_stream_window [OF _ i])
  have c: "steps env ip c (note_reset now sid (remove_stream sid (push_rst sid ERR_FLOW_CONTROL c)))"
    by (rule then_reset, rule then_remove, rule push_rst_steps) simp
  have d: "steps env ip c (note_reset now sid ((push_rst sid ERR_FLOW_CONTROL c)\<lparr>h_closed_windows :=
             take pos (h_closed_windows c) @ drop (pos + 1) (h_closed_windows c)\<rparr>))" for pos
    by (rule then_reset, rule then_closed, rule push_rst_steps) (simp_all add: push_rst_def)
  have e: "steps env ip c (flush_pending_streams env (c\<lparr>h_closed_windows := (h_closed_windows c)[pos := x]\<rparr>))" for pos x
    by (rule then_flush, rule step_one, rule m_closed) simp
  show ?thesis
    using a b c d e
    by (auto simp: handle_window_update_def Let_def not_less intro!: go_away_steps then_flush split: option.split)
qed

lemma then_hpack:
  assumes "steps env ip c d"
  shows "steps env ip c (snd (check_hpack_block b d))" "steps env ip c (snd (decode_hpack env b d))"
  using assms
  by (auto simp: check_hpack_block_def decode_hpack_def intro!: go_away_steps then_dec split: sum.split prod.split option.split)

lemma decode_hpack_fields: "decode_hpack env b c = (r, d) \<Longrightarrow> get_stream d sid = get_stream c sid"
  by (auto simp: decode_hpack_def split: prod.splits option.splits)

lemma end_headers_steps:
  assumes "steps env ip c d"
  shows "steps env ip c (snd (end_headers env ip sid flags block d))"
proof -
  let ?b = "h_header_block d @ block" and ?d = "d\<lparr>h_header_block := [], h_continuation := None\<rparr>"
  have one: "steps env ip c ?d" by (rule then_block [OF assms]) simp_all
  obtain r1 d1 where c1: "check_hpack_block ?b ?d = (r1, d1)" by fastforce
  then have two: "steps env ip c d1" using then_hpack(1) [OF one, of ?b] by simp
  obtain r2 d2 where c2: "decode_hpack env ?b d1 = (r2, d2)" by fastforce
  then have three: "steps env ip c d2" using then_hpack(2) [OF two, of ?b] by simp
  have hs: "get_stream d2 sid = Some s \<Longrightarrow>
      steps env ip c (maybe_dispatch env ip sid (put_stream sid (s\<lparr>st_headers := hs, st_headers_done := True\<rparr>) d2))" for s hs
    by (rule then_dispatch, rule step_after [OF three m_headers])
  have rst: "steps env ip c (remove_stream sid (push_rst sid ERR_PROTOCOL_ERROR d2))"
    by (rule then_remove, rule push_rst_steps, rule three)
  show ?thesis
    using one two three hs rst by (auto simp: end_headers_def c1 c2 Let_def split: sum.split option.split)
qed

lemma open_stream_steps:
  assumes "length (h_streams c) < MAX_CONCURRENT" "sid mod 2 = 1" "sid \<le> h_last_stream_id c"
  shows "steps env ip c (open_stream sid flags c)"
proof (cases "get_stream c sid")
  case None
  let ?c = "put_stream sid (stream_new (h_peer_initial_window c)) c"
  have one: "steps env ip c ?c" by (rule step_one, rule m_open [OF None assms])
  have "steps env ip c (put_stream sid ((stream_new (h_peer_initial_window c))\<lparr>st_state := HalfClosedRemote\<rparr>) ?c)"
    by (rule step_after [OF one m_state]) simp_all
  then have "steps env ip c (put_stream sid ((stream_new (h_peer_initial_window c))\<lparr>st_state := HalfClosedRemote\<rparr>) c)"
    by (simp add: put_stream_def)
  with one None show ?thesis by (simp add: open_stream_def Let_def)
next
  case (Some s)
  have same: "put_stream sid s c = c" using Some by (simp add: put_stream_def AList.update_triv)
  show ?thesis using Some by (auto simp: open_stream_def Let_def same intro!: step_one m_state)
qed

lemma open_stream_fields [simp]:
  "h_header_block (open_stream sid flags c) = h_header_block c"
  by (simp add: open_stream_def Let_def)

lemma accept_headers_steps:
  assumes "length (h_streams c) < MAX_CONCURRENT" "sid mod 2 = 1" "sid \<le> h_last_stream_id c"
  shows "steps env ip c (snd (accept_headers env ip sid flags payload c))"
proof -
  let ?c = "open_stream sid flags c"
  have one: "steps env ip c ?c" by (rule open_stream_steps [OF assms])
  have "steps env ip c (maybe_dispatch env ip sid (?c\<lparr>h_header_block := b, h_continuation := Some sid\<rparr>))"
    if "\<not> length b > MAX_HEADER_BLOCK" for b
    by (rule then_dispatch, rule then_block [OF one]) (use that in simp_all)
  with end_headers_steps [OF one] go_away_steps [OF one] push_rst_steps [of env ip c c] show ?thesis
    by (auto simp: accept_headers_def Let_def split: header_prefix.split)
qed

lemma refuse_stream_steps:
  assumes "sid < 2 ^ 31"
  shows "steps env ip c (snd (refuse_stream now sid c))"
proof -
  have "steps env ip c ((note_reset now sid ((push_rst sid ERR_REFUSED_STREAM c)\<lparr>h_last_stream_id := max (h_last_stream_id c) sid\<rparr>))
      \<lparr>h_refused_streak := h_refused_streak c + 1\<rparr>)"
    by (rule then_streak, rule then_reset, rule then_last, rule push_rst_steps)
      (use assms in \<open>auto simp: push_rst_def max_def\<close>)
  then show ?thesis
    by (auto simp: refuse_stream_def Let_def push_rst_def intro: go_away_steps)
qed

lemma handle_headers_steps:
  assumes "sid < 2 ^ 31"
  shows "steps env ip c (snd (handle_headers env now ip sid flags payload c))"
proof -
  let ?c = "c\<lparr>h_refused_streak := 0, h_last_stream_id := max (h_last_stream_id c) sid\<rparr>"
  have one: "steps env ip c ?c"
    by (rule then_last, rule step_one, rule m_streak) (use assms in \<open>auto simp: max_def\<close>)
  have "steps env ip c (snd (accept_headers env ip sid flags payload ?c))"
    if "\<not> active_streams now c \<ge> MAX_CONCURRENT" "sid mod 2 \<noteq> 0"
    using that by (intro steps_trans [OF one accept_headers_steps]) (auto simp: active_streams_def)
  moreover have "steps env ip c ((push_rst sid ERR_REFUSED_STREAM c)\<lparr>h_last_stream_id := max (h_last_stream_id c) sid\<rparr>)"
    by (rule then_last, rule push_rst_steps) (use assms in \<open>auto simp: push_rst_def max_def\<close>)
  ultimately show ?thesis
    using refuse_stream_steps [OF assms, of env ip c now] go_away_steps [of env ip c c]
    by (auto simp: handle_headers_def)
qed

lemma handle_continuation_steps:
  assumes "h_continuation c \<noteq> None"
  shows "steps env ip c (snd (handle_continuation env ip sid flags payload c))"
proof (cases "length (h_header_block c) + length payload > MAX_HEADER_BLOCK")
  case True
  then show ?thesis by (auto simp: handle_continuation_def intro: go_away_steps)
next
  case False
  let ?all = "h_header_block c @ payload"
  let ?c = "c\<lparr>h_header_block := ?all\<rparr>" and ?d = "c\<lparr>h_continuation := None, h_header_block := []\<rparr>"
  have "steps env ip c (c\<lparr>h_header_block := ?all, h_continuation := h_continuation c\<rparr>)"
    by (rule step_one, rule m_block) (use False assms in auto)
  then have zero: "steps env ip c ?c" by simp
  have "steps env ip c (c\<lparr>h_header_block := [], h_continuation := None\<rparr>)" by (rule step_one, rule m_block) simp_all
  then have one: "steps env ip c ?d" by (cases c) simp
  obtain r1 d1 where c1: "check_hpack_block ?all ?d = (r1, d1)" by fastforce
  then have two: "steps env ip c d1" using then_hpack(1) [OF one, of ?all] by simp
  obtain r2 d2 where c2: "decode_hpack env ?all d1 = (r2, d2)" by fastforce
  then have three: "steps env ip c d2" using then_hpack(2) [OF two, of ?all] by simp
  have hs: "get_stream d1 sid = Some s \<Longrightarrow>
      steps env ip c (maybe_dispatch env ip sid (put_stream sid (s\<lparr>st_headers := hs, st_headers_done := True\<rparr>) d2))" for s hs
    by (rule then_dispatch, rule step_after [OF three m_headers]) (simp add: decode_hpack_fields [OF c2])
  show ?thesis
    using False zero two three hs then_dispatch [OF two, of sid] unfolding handle_continuation_def
    by (auto simp: Let_def c1 c2 split: sum.split option.split)
qed

lemma charge_connection_steps:
  assumes "charge_connection n c = (Inr u, d)" "n \<le> MAX_FRAME_SIZE"
  shows "steps env ip c d"
proof -
  let ?w = "h_conn_recv_window c - int n"
  have "0 \<le> ?w" using assms(1) by (auto simp: charge_connection_def Let_def split: if_splits)
  then have "steps env ip c (c\<lparr>h_conn_recv_window := ?w + credit ?w\<rparr>)"
    by (intro step_one m_recv assms(2))
  then show ?thesis
    using assms(1) by (auto simp: charge_connection_def Let_def intro: push_window_update_steps split: if_splits)
qed

lemma charge_connection_fields [simp]:
  "charge_connection n c = (r, d) \<Longrightarrow> h_streams d = h_streams c"
  by (auto simp: charge_connection_def Let_def push_window_update_def split: if_splits)

lemma put_stream_twice [simp]: "put_stream i s (put_stream i t c) = put_stream i s c"
  by (simp add: put_stream_def)

lemma stream_data_steps:
  assumes "get_stream c sid = Some s" "n \<le> MAX_FRAME_SIZE" "stream_data_frame env ip sid flags n data s c = (Inr u, d)"
  shows "steps env ip c d"
proof -
  let ?w = "st_recv_window s - int n"
  let ?s = "s\<lparr>st_body := st_body s @ data, st_recv_window := ?w + credit ?w\<rparr>"
  have w: "\<not> ?w < 0" using assms(3) by (auto simp: stream_data_frame_def Let_def split: if_splits)
  show ?thesis
  proof (cases "length (st_body s) + length data > MAX_H2_BODY")
    case True
    have "steps env ip c (push_rst sid ERR_PROTOCOL_ERROR (remove_stream sid c))"
      by (rule push_rst_steps, rule then_remove) simp
    with True w assms(3) show ?thesis by (simp add: stream_data_frame_def Let_def)
  next
    case False
    have one: "steps env ip c (put_stream sid ?s c)"
      by (rule step_one, rule m_body) (use assms(1,2) w False in simp_all)
    define s' where "s' = (if has_flag flags FLAG_END_STREAM then ?s\<lparr>st_state := HalfClosedRemote\<rparr> else ?s)"
    have "steps env ip c (put_stream sid (?s\<lparr>st_state := HalfClosedRemote\<rparr>) (put_stream sid ?s c))"
      by (rule step_after [OF one m_state]) simp_all
    with one have two: "steps env ip c (put_stream sid s' c)" by (simp add: s'_def)
    define e where "e = (if credit ?w > 0 then push_window_update sid (nat (credit ?w)) (put_stream sid s' c) else put_stream sid s' c)"
    have three: "steps env ip c e" using two by (simp add: e_def push_window_update_steps)
    have "stream_data_frame env ip sid flags n data s c =
        (Inr (), if has_flag flags FLAG_END_STREAM \<and> st_headers_done s' then maybe_dispatch env ip sid e else e)"
      unfolding stream_data_frame_def Let_def s'_def e_def using w False by (simp only: if_False)
    with assms(3) three then_dispatch [OF three] show ?thesis by (auto split: if_splits)
  qed
qed

lemma handle_data_steps:
  assumes "handle_data env ip sid flags payload c = (Inr u, d)" "length payload \<le> MAX_FRAME_SIZE"
  shows "steps env ip c d"
proof -
  from assms(1) obtain data u1 d1 where a: "data_of flags payload = Inr data"
    "charge_connection (length payload) c = (Inr u1, d1)"
    by (auto simp: handle_data_def split: if_splits sum.splits prod.splits)
  have one: "steps env ip c d1" by (rule charge_connection_steps [OF a(2) assms(2)])
  show ?thesis
  proof (cases "get_stream d1 sid")
    case None
    with assms(1) a one show ?thesis by (simp add: handle_data_def split: if_splits)
  next
    case (Some s)
    with assms(1) a have "stream_data_frame env ip sid flags (length payload) data s d1 = (Inr u, d)"
      by (simp add: handle_data_def split: if_splits)
    from steps_trans [OF one stream_data_steps [OF Some assms(2) this]] show ?thesis .
  qed
qed

text \<open>A frame that is processed without an error; the one error that leaves a window below zero is a
  flow-control error, and with the invariant of the next section it does not happen.\<close>

lemma dispatch_frame_steps:
  assumes "dispatch_frame env now ip f c = Val (r, d)" "length (fr_payload f) \<le> MAX_FRAME_SIZE"
    "fr_type f = TYPE_CONTINUATION \<Longrightarrow> h_continuation c \<noteq> None"
    "fr_type f = TYPE_DATA \<Longrightarrow> r = Inr ()" "fr_stream f < 2 ^ 31"
  shows "steps env ip c d"
  using assms handle_data_steps [of env ip "fr_stream f" "fr_flags f" "fr_payload f" c "()" d]
    handle_headers_steps [of "fr_stream f" env ip c now "fr_flags f" "fr_payload f"]
    handle_priority_steps handle_rst_stream_steps [of "fr_stream f" env ip c now] handle_ping_steps
    handle_settings_steps [of env "fr_flags f" "fr_payload f" c r d ip]
    handle_window_update_steps [of env ip c now "fr_stream f" "fr_payload f"]
    handle_continuation_steps [of c env ip "fr_stream f" "fr_flags f" "fr_payload f"] step_one [OF m_peer_goaway, of env ip c]
  by (auto simp: dispatch_frame_def Let_def type_defs split: if_splits)

lemma handle_frame_steps:
  assumes "handle_frame env now ip f c = Val (r, d)" "length (fr_payload f) \<le> MAX_FRAME_SIZE"
    "fr_type f = TYPE_DATA \<Longrightarrow> r = Inr () \<or> d = c" "fr_stream f < 2 ^ 31"
  shows "steps env ip c d"
proof -
  have rst: "steps env ip c (remove_stream (fr_stream f) (push_rst (fr_stream f) code c))" for code
    by (rule then_remove, rule push_rst_steps) simp
  have reset: "steps env ip c (note_reset now (fr_stream f) (remove_stream (fr_stream f) (push_rst (fr_stream f) code c)))" for code
    by (rule then_reset, rule rst)
  have dispatch: "steps env ip c d"
    if "dispatch_frame env now ip f c = Val (r, d)" "\<not> (h_continuation c = None \<and> fr_type f = TYPE_CONTINUATION)"
    using that assms dispatch_frame_steps [OF that(1)] by auto
  show ?thesis
    using assms(1) rst reset go_away_steps [of env ip c c] dispatch
    unfolding handle_frame_def Let_def
    by (auto split: if_splits verdict.splits)
qed

lemma micro_recv_buf: "micro env ip c d \<Longrightarrow> h_recv_buf d = h_recv_buf c"
  by (induction rule: micro.induct) simp_all

lemma steps_recv_buf: "steps env ip c d \<Longrightarrow> h_recv_buf d = h_recv_buf c"
  by (induction rule: rtranclp_induct) (simp_all add: micro_recv_buf)

end
