(* ===== verification/H2_Drive.thy ===== *)
theory H2_Drive
  imports H2_Steps
begin

text \<open>
  Driving an HTTP/2 connection (\<open>Http2Conn::drive\<close>): the frame loop over the receive buffer, the
  connection as a step system whose step is one \<open>drive\<close> call with any bytes from the peer, any
  answers of the backends and any clock, and the invariant of all reachable connections.
\<close>

section \<open>The frame loop ends\<close>

lemma cut_frame_rest: "snd (cut_frame buf) = drop (FRAME_HDR + head_length buf) buf"
  by (simp add: cut_frame_def)

lemma cut_frame_payload:
  "length (fr_payload (fst (cut_frame buf))) \<le> head_length buf" "fr_stream (fst (cut_frame buf)) < 2 ^ 31"
  by (simp_all add: cut_frame_def)

lemma preface_step_recv: "preface_step c = (r, d) \<Longrightarrow> length (h_recv_buf d) \<le> length (h_recv_buf c)"
  by (auto simp: preface_step_def send_server_settings_def split: if_splits)

lemma process_frame_shrinks:
  assumes "process_frame env now ip c = Val (Inr True, d)"
  shows "length (h_recv_buf d) < length (h_recv_buf c)"
proof -
  obtain r c1 where p: "preface_step c = (r, c1)" by fastforce
  from assms p have r: "r = Inr True" by (auto simp: process_frame_def split: sum.splits bool.splits)
  let ?b = "h_recv_buf c1"
  obtain f rest where fr: "cut_frame ?b = (f, rest)" by fastforce
  from assms p r fr have g: "FRAME_HDR + head_length ?b \<le> length ?b" "head_length ?b \<le> MAX_FRAME_SIZE"
    "handle_frame env now ip f (c1\<lparr>h_recv_buf := rest\<rparr>) = Val (Inr (), d)"
    by (auto simp: process_frame_def Let_def split: if_splits outcome.splits sum.splits)
  have "steps env ip (c1\<lparr>h_recv_buf := rest\<rparr>) d"
    by (rule handle_frame_steps [OF g(3)]) (use cut_frame_payload [of ?b] fr g(2) in simp_all)
  from steps_recv_buf [OF this] have "h_recv_buf d = drop (FRAME_HDR + head_length ?b) ?b"
    using cut_frame_rest [of ?b] fr by simp
  with g(1) preface_step_recv [OF p] show ?thesis by (simp add: FRAME_HDR_def)
qed

text \<open>\<open>clock\<close> gives the time at the \<open>k\<close>-th frame of a call.\<close>

function frame_loop ::
  "('d, 'e) h2_env \<Rightarrow> (nat \<Rightarrow> nat) \<Rightarrow> string \<Rightarrow> nat \<Rightarrow> ('d, 'e) http2_conn \<Rightarrow> ('d, 'e) http2_conn outcome" where
  "frame_loop env clock ip k c =
     (case process_frame env (clock k) ip c of
        Panic \<Rightarrow> Panic
      | Val (r, d) \<Rightarrow>
          (case r of
             Inr True \<Rightarrow> frame_loop env clock ip (k + 1) d
           | Inr False \<Rightarrow> Val d
           | Inl e \<Rightarrow> Val ((if h_goaway_sent d then d else send_goaway ERR_PROTOCOL_ERROR d)\<lparr>h_phase := Done\<rparr>)))"
  by pat_completeness auto
termination
  by (relation "measure (\<lambda>(env, clock, ip, k, c). length (h_recv_buf c))") (auto dest: process_frame_shrinks)

declare frame_loop.simps [simp del]

definition H2_IDLE_TIMEOUT_SECS :: nat where
  "H2_IDLE_TIMEOUT_SECS = 300"

text \<open>\<open>input\<close> is what \<open>fill_recv\<close> found and \<open>flushed\<close> whether \<open>flush_io\<close> succeeded.\<close>

definition drive ::
  "('d, 'e) h2_env \<Rightarrow> (nat \<Rightarrow> nat) \<Rightarrow> string \<Rightarrow> io_error + bytes \<Rightarrow> (nat \<Rightarrow> h2_response option) \<Rightarrow> bool \<Rightarrow>
     ('d, 'e) http2_conn \<Rightarrow> ('d, 'e) http2_conn outcome" where
  "drive env clock ip input arrived flushed c =
     (if h_phase c = Done then Val c
      else
        (let c = poll_pending_url env arrived c in
         if (clock 0 - h_last_active c) div 1000000000 > H2_IDLE_TIMEOUT_SECS
         then Val ((send_goaway ERR_NO_ERROR c)\<lparr>h_phase := Done\<rparr>)
         else
           (case input of
              Inl e \<Rightarrow> Val (c\<lparr>h_phase := Done\<rparr>)
            | Inr b \<Rightarrow>
                (let c = (if b = [] then c else c\<lparr>h_recv_buf := h_recv_buf c @ b, h_last_active := clock 0\<rparr>) in
                 case frame_loop env clock ip 0 c of
                   Panic \<Rightarrow> Panic
                 | Val c \<Rightarrow>
                     (let c = flush_pending_streams env c;
                          c = (if flushed then c else c\<lparr>h_phase := Done\<rparr>)
                      in Val (if h_phase c = GoingAway \<and> list_all (\<lambda>p. st_state (snd p) = Closed) (h_streams c)
                              then c\<lparr>h_phase := Done\<rparr> else c))))))"

section \<open>The invariant\<close>

definition stream_ok :: "int \<Rightarrow> h2_stream \<Rightarrow> bool" where
  "stream_ok initial s \<longleftrightarrow>
     32767 \<le> st_recv_window s \<and> st_recv_window s \<le> DEFAULT_WINDOW \<and> length (st_body s) \<le> MAX_H2_BODY \<and>
     (\<forall>b. st_resp_body s = Some b \<longrightarrow> st_resp_sent s \<le> length b) \<and>
     st_send_window s \<le> MAX_WINDOW \<and> initial - MAX_WINDOW \<le> st_send_window s \<and> st_state s \<notin> {Idle, Closed}"

definition streams_ok :: "('d, 'e) http2_conn \<Rightarrow> bool" where
  "streams_ok c \<longleftrightarrow>
     distinct (map fst (h_streams c)) \<and> length (h_streams c) \<le> MAX_CONCURRENT \<and>
     (\<forall>sid s. get_stream c sid = Some s \<longrightarrow>
        sid mod 2 = 1 \<and> sid \<le> h_last_stream_id c \<and> stream_ok (h_peer_initial_window c) s)"

definition bounds_ok :: "('d, 'e) http2_conn \<Rightarrow> bool" where
  "bounds_ok c \<longleftrightarrow>
     h_last_stream_id c < 2 ^ 31 \<and> length (h_recently_reset c) \<le> RESET_MEMORY \<and> length (h_closed_windows c) \<le> RESET_MEMORY \<and>
     length (h_header_block c) \<le> MAX_HEADER_BLOCK \<and> (h_continuation c = None \<longrightarrow> h_header_block c = []) \<and>
     0 \<le> h_peer_initial_window c \<and> h_peer_initial_window c \<le> MAX_WINDOW \<and>
     16384 \<le> h_peer_max_frame c \<and> h_peer_max_frame c \<le> 16777215 \<and>
     32767 \<le> h_conn_recv_window c \<and> h_conn_recv_window c \<le> DEFAULT_WINDOW \<and>
     0 \<le> h_conn_send_window c \<and> h_conn_send_window c \<le> MAX_WINDOW"

definition conn_ok :: "('d, 'e) http2_conn \<Rightarrow> bool" where
  "conn_ok c \<longleftrightarrow> streams_ok c \<and> bounds_ok c"

lemma push_back_bounded_length: "length q \<le> RESET_MEMORY \<Longrightarrow> length (push_back_bounded q x) \<le> RESET_MEMORY"
  by (auto simp: push_back_bounded_def RESET_MEMORY_def)

lemma next_chunk_windows:
  assumes "next_chunk m w s = Some (n, l)" "n \<noteq> 0 \<or> \<not> l"
  shows "int n \<le> w \<and> int n \<le> st_send_window s \<and> n \<le> m \<and> 0 < w \<and> 0 < st_send_window s"
proof -
  obtain b where b: "st_resp_body s = Some b" using assms(1) by (cases "st_resp_body s") (simp_all add: next_chunk_def)
  let ?r = "length b - st_resp_sent s"
  have r: "?r \<noteq> 0" using assms b by (auto simp: next_chunk_def)
  then have w: "0 < w" "0 < st_send_window s" using assms(1) b by (auto simp: next_chunk_def Let_def split: if_splits)
  with r assms(1) b have "n = min ?r (min (nat (min w (st_send_window s))) m)"
    by (simp add: next_chunk_def Let_def)
  then have "n \<le> m" "n \<le> nat (min w (st_send_window s))" by (simp_all only: min.coboundedI1 min.coboundedI2 order_refl)
  with w show ?thesis by linarith
qed

lemma credit_range:
  assumes "0 \<le> w" "w \<le> DEFAULT_WINDOW"
  shows "32767 \<le> w + credit w \<and> w + credit w \<le> DEFAULT_WINDOW"
  using assms by (auto simp: credit_def DEFAULT_WINDOW_def)

lemma micro_bounds:
  assumes "micro env ip c d" "bounds_ok c" "streams_ok c"
  shows "bounds_ok d"
  using assms
proof (induction rule: micro.induct)
  case (m_chunk c sid s n l)
  with next_chunk_windows [OF m_chunk.hyps(2,3)] show ?case by (simp add: bounds_ok_def)
next
  case (m_finish c sid s)
  then have "max (h_last_stream_id c) sid = h_last_stream_id c" by (simp add: streams_ok_def)
  with m_finish show ?case
    by (auto simp: bounds_ok_def close_stream_remembering_window_def push_back_bounded_length split: option.split)
next
  case (m_close c sid)
  then show ?case
    by (auto simp: bounds_ok_def close_stream_remembering_window_def push_back_bounded_length split: option.split)
next
  case (m_end c sid s)
  then show ?case
    by (auto simp: bounds_ok_def close_stream_remembering_window_def push_back_bounded_length split: option.split)
next
  case (m_reset c now sid)
  then show ?case by (simp add: bounds_ok_def) (simp add: note_reset_def push_back_bounded_length)
next
  case (m_recv n c)
  with credit_range [of "h_conn_recv_window c - int n"] show ?case by (simp add: bounds_ok_def)
qed (auto simp: bounds_ok_def)

lemma put_stream_ok:
  assumes "streams_ok c" "get_stream c sid = Some s" "stream_ok (h_peer_initial_window c) t"
  shows "streams_ok (put_stream sid t c)"
proof -
  have "sid \<in> set (map fst (h_streams c))" using assms(2) by (metis map_of_eq_None_iff option.distinct(1) list.set_map)
  then have "map fst (h_streams (put_stream sid t c)) = map fst (h_streams c)"
    by (simp add: put_stream_def update_keys)
  moreover from this have "length (h_streams (put_stream sid t c)) = length (h_streams c)" by (metis length_map)
  ultimately show ?thesis using assms by (auto simp: streams_ok_def)
qed

lemma remove_streams_ok:
  assumes "streams_ok c" "h_streams d = AList.delete sid (h_streams c)" "h_last_stream_id d = h_last_stream_id c"
    "h_peer_initial_window d = h_peer_initial_window c"
  shows "streams_ok d"
proof -
  have "length (h_streams d) \<le> length (h_streams c)" using assms(2) length_delete_le [of sid "h_streams c"] by simp
  then have "length (h_streams d) \<le> MAX_CONCURRENT" using assms(1) by (simp add: streams_ok_def)
  with assms show ?thesis
    by (auto simp: streams_ok_def distinct_delete delete_conv' split: if_splits)
qed

lemma shift_windows_Val:
  "shift_windows delta ss = Val ts \<Longrightarrow>
     map fst ts = map fst ss \<and>
     (\<forall>sid t. map_of ts sid = Some t \<longrightarrow>
        (\<exists>s. map_of ss sid = Some s \<and> t = s\<lparr>st_send_window := st_send_window s + delta\<rparr> \<and> st_send_window s + delta \<le> MAX_WINDOW))"
proof (induction delta ss arbitrary: ts rule: shift_windows.induct)
  case (2 delta sid s rest)
  from "2.prems" obtain us where us: "shift_windows delta rest = Val us"
    "ts = (sid, s\<lparr>st_send_window := st_send_window s + delta\<rparr>) # us" "st_send_window s + delta \<le> MAX_WINDOW"
    by (auto simp: outcome_simps i32_max_def MAX_WINDOW_def split: outcome.splits)
  have "i32_checked (st_send_window s + delta) = Val (st_send_window s + delta)"
    using "2.prems" by (auto simp: outcome_simps split: outcome.splits)
  from "2.IH" [OF this us(1)] us(2,3) show ?case by auto
qed simp

lemma micro_streams:
  assumes "micro env ip c d" "streams_ok c" "bounds_ok c"
  shows "streams_ok d"
  using assms
proof (induction rule: micro.induct)
  case (m_remove c sid)
  show ?case by (rule remove_streams_ok [OF m_remove.prems(1), of _ sid]) (simp_all add: remove_stream_def)
next
  case (m_close c sid)
  show ?case by (rule remove_streams_ok [OF m_close.prems(1), of _ sid]) simp_all
next
  case (m_finish c sid s)
  then have "max (h_last_stream_id c) sid = h_last_stream_id c" by (simp add: streams_ok_def)
  then show ?case by (intro remove_streams_ok [OF m_finish.prems(1), of _ sid]) simp_all
next
  case (m_end c sid s)
  show ?case by (rule remove_streams_ok [OF m_end.prems(1), of _ sid]) simp_all
next
  case (m_chunk c sid s n l)
  note w = next_chunk_windows [OF m_chunk.hyps(2,3)]
  have ok: "stream_ok (h_peer_initial_window c) s" using m_chunk.hyps(1) m_chunk.prems(1) by (simp add: streams_ok_def)
  obtain b where "st_resp_body s = Some b" "n \<le> length b - st_resp_sent s" using next_chunk_bound [OF m_chunk.hyps(2)] by blast
  then have "stream_ok (h_peer_initial_window c) (s\<lparr>st_send_window := st_send_window s - int n, st_resp_sent := st_resp_sent s + n\<rparr>)"
    using ok w m_chunk.prems(2) by (auto simp: stream_ok_def bounds_ok_def)
  from put_stream_ok [OF m_chunk.prems(1) m_chunk.hyps(1) this] show ?case
    by (simp add: streams_ok_def send_chunk_def Let_def put_stream_def)
next
  case (m_state c sid s x)
  then show ?case by (intro put_stream_ok) (auto simp: streams_ok_def stream_ok_def)
next
  case (m_headers c sid s hs)
  then show ?case by (intro put_stream_ok) (auto simp: streams_ok_def stream_ok_def)
next
  case (m_body c sid s n b)
  then have "stream_ok (h_peer_initial_window c) s" by (simp add: streams_ok_def)
  with m_body credit_range [of "st_recv_window s - int n"] show ?case
    by (intro put_stream_ok [OF m_body.prems(1) m_body.hyps(1)]) (auto simp: stream_ok_def)
next
  case (m_pending c sid s r)
  then show ?case by (intro put_stream_ok) (auto simp: streams_ok_def stream_ok_def)
next
  case (m_response c sid s b)
  then show ?case by (intro put_stream_ok) (auto simp: streams_ok_def stream_ok_def)
next
  case (m_stream_window c sid s inc)
  then have "stream_ok (h_peer_initial_window c) s" by (simp add: streams_ok_def)
  with m_stream_window show ?case
    by (intro put_stream_ok [OF m_stream_window.prems(1) m_stream_window.hyps(1)]) (auto simp: stream_ok_def)
next
  case (m_open c sid)
  have new: "sid \<notin> set (map fst (h_streams c))" using m_open.hyps(1) by (simp add: map_of_eq_None_iff)
  let ?d = "put_stream sid (stream_new (h_peer_initial_window c)) c"
  have keys: "map fst (h_streams ?d) = map fst (h_streams c) @ [sid]" using new by (simp add: put_stream_def update_keys)
  then have "length (h_streams ?d) = Suc (length (h_streams c))" by (metis length_append_singleton length_map)
  moreover have "stream_ok (h_peer_initial_window c) (stream_new (h_peer_initial_window c))"
    using m_open.prems(2) by (simp add: stream_ok_def stream_new_def bounds_ok_def DEFAULT_WINDOW_def MAX_WINDOW_def)
  ultimately show ?case using m_open keys new by (auto simp: streams_ok_def)
next
  case (m_initial v c ss)
  note shift = shift_windows_Val [OF m_initial.hyps(3)]
  have "length ss = length (h_streams c)" using shift by (metis length_map)
  moreover have "sid mod 2 = 1 \<and> sid \<le> h_last_stream_id c \<and> stream_ok v t" if t: "map_of ss sid = Some t" for sid t
  proof -
    from shift t obtain s where s: "get_stream c sid = Some s" "t = s\<lparr>st_send_window := st_send_window s + (v - h_peer_initial_window c)\<rparr>"
      "st_send_window s + (v - h_peer_initial_window c) \<le> MAX_WINDOW" by blast
    with m_initial.prems(1) have "sid mod 2 = 1 \<and> sid \<le> h_last_stream_id c \<and> stream_ok (h_peer_initial_window c) s"
      by (simp add: streams_ok_def)
    with s show ?thesis by (auto simp: stream_ok_def)
  qed
  ultimately show ?case using m_initial.prems(1) shift by (simp add: streams_ok_def)
next
  case (m_last c n)
  have "sid \<le> n" if "get_stream c sid = Some s" for sid s
    using m_last that unfolding streams_ok_def by (meson order_trans)
  with m_last.prems(1) show ?case by (auto simp: streams_ok_def)
qed (auto simp: streams_ok_def)

lemma steps_ok: "steps env ip c d \<Longrightarrow> conn_ok c \<Longrightarrow> conn_ok d"
  by (induction rule: rtranclp_induct) (auto simp: conn_ok_def intro: micro_bounds micro_streams)

text \<open>The receive windows never run out: a frame is at most 16384 bytes and both windows are
  topped up at half of 65535, so the two flow-control errors of \<open>handle_data\<close> cannot occur.\<close>

lemma handle_data_error:
  assumes "conn_ok c" "length payload \<le> MAX_FRAME_SIZE" "handle_data env ip sid flags payload c = (Inl e, d)"
  shows "d = c \<and> (sid = 0 \<or> data_of flags payload = Inl e)"
proof -
  have w: "\<not> h_conn_recv_window c - int (length payload) < 0"
    using assms(1,2) by (simp add: conn_ok_def bounds_ok_def MAX_FRAME_SIZE_def)
  have s: "\<not> st_recv_window s - int (length payload) < 0" if "get_stream c sid = Some s" for s
  proof -
    have "stream_ok (h_peer_initial_window c) s" using assms(1) that by (simp add: conn_ok_def streams_ok_def)
    with assms(2) show ?thesis by (simp add: stream_ok_def MAX_FRAME_SIZE_def)
  qed
  obtain d1 where d1: "charge_connection (length payload) c = (Inr (), d1)"
    using w by (simp add: charge_connection_def Let_def)
  then have "get_stream d1 sid = get_stream c sid" by simp
  then have "\<not> (\<exists>s data d. get_stream d1 sid = Some s \<and>
      stream_data_frame env ip sid flags (length payload) data s d1 = (Inl e, d))"
    using s by (auto simp: stream_data_frame_def Let_def split: if_splits)
  with assms(3) d1 show ?thesis
    by (auto simp: handle_data_def split: if_splits sum.splits option.splits)
qed

lemma handle_frame_ok_steps:
  assumes "conn_ok c" "length (fr_payload f) \<le> MAX_FRAME_SIZE" "fr_stream f < 2 ^ 31"
    "handle_frame env now ip f c = Val (r, d)"
  shows "steps env ip c d"
proof (rule handle_frame_steps [OF assms(4,2)])
  assume t: "fr_type f = TYPE_DATA"
  show "r = Inr () \<or> d = c"
  proof (cases r)
    case (Inl e)
    have "dispatch_frame env now ip f c = Val (handle_data env ip (fr_stream f) (fr_flags f) (fr_payload f) c)"
      using t by (simp add: dispatch_frame_def)
    with assms(4) Inl have "handle_data env ip (fr_stream f) (fr_flags f) (fr_payload f) c = (Inl e, d) \<or> d = c"
      unfolding handle_frame_def Let_def by (auto split: if_splits verdict.splits)
    with handle_data_error [OF assms(1,2)] show ?thesis by blast
  qed simp
qed (rule assms(3))

section \<open>A connection as a step system\<close>

definition conn_init :: "('d, 'e) http2_conn \<Rightarrow> bool" where
  "conn_init c \<longleftrightarrow> (\<exists>now dec enc. c = conn_new now dec enc \<or> c = trusting_forwarded_for (conn_new now dec enc))"

definition conn_step :: "('d, 'e) h2_env \<Rightarrow> string \<Rightarrow> ('d, 'e) http2_conn \<Rightarrow> ('d, 'e) http2_conn \<Rightarrow> bool" where
  "conn_step env ip c d \<longleftrightarrow> (\<exists>clock input arrived flushed. drive env clock ip input arrived flushed c = Val d)"

lemma conn_init_ok: "conn_init c \<Longrightarrow> conn_ok c"
  by (auto simp: conn_init_def conn_new_def trusting_forwarded_for_def conn_ok_def streams_ok_def bounds_ok_def
      DEFAULT_WINDOW_def DEFAULT_MAX_FRAME_def MAX_WINDOW_def)

lemma conn_ok_fields [simp]:
  "conn_ok (c\<lparr>h_recv_buf := b\<rparr>) = conn_ok c" "conn_ok (c\<lparr>h_phase := p\<rparr>) = conn_ok c"
  "conn_ok (c\<lparr>h_last_active := t\<rparr>) = conn_ok c"
  by (simp_all add: conn_ok_def streams_ok_def bounds_ok_def)

text \<open>A property that every elementary step keeps, and that does not depend on the bytes in the
  receive buffer, the phase or the clock, holds of every reachable connection.\<close>

locale conn_invariant =
  fixes env :: "('d, 'e) h2_env" and ip :: string and P :: "('d, 'e) http2_conn \<Rightarrow> bool"
  assumes micro_keep: "micro env ip c d \<Longrightarrow> conn_ok c \<Longrightarrow> P c \<Longrightarrow> P d"
    and recv_keep: "P (c\<lparr>h_recv_buf := b\<rparr>) = P c"
    and phase_keep: "P (c\<lparr>h_phase := p\<rparr>) = P c"
    and active_keep: "P (c\<lparr>h_last_active := t\<rparr>) = P c"
    and init_keep: "conn_init c \<Longrightarrow> P c"
begin

definition kept :: "('d, 'e) http2_conn \<Rightarrow> bool" where
  "kept c \<longleftrightarrow> conn_ok c \<and> P c"

lemma kept_fields [simp]:
  "kept (c\<lparr>h_recv_buf := b\<rparr>) = kept c" "kept (c\<lparr>h_phase := p\<rparr>) = kept c" "kept (c\<lparr>h_last_active := t\<rparr>) = kept c"
  by (simp_all add: kept_def recv_keep phase_keep active_keep)

lemma steps_keep: "steps env ip c d \<Longrightarrow> kept c \<Longrightarrow> kept d"
  by (induction rule: rtranclp_induct) (auto simp: kept_def intro: micro_keep steps_ok)

lemma go_away_keep: "kept c \<Longrightarrow> kept (go_away code c)"
  by (rule steps_keep [OF go_away_steps [OF rtranclp.rtrancl_refl]])

lemma goaway_keep: "kept c \<Longrightarrow> kept (send_goaway code c)"
  unfolding send_goaway_def
  by (rule steps_keep [OF then_frame [OF then_goaway_sent [OF rtranclp.rtrancl_refl]]]) (simp_all add: type_defs)

lemma settings_keep: "kept c \<Longrightarrow> kept (send_server_settings c)"
  unfolding send_server_settings_def
  by (rule steps_keep [OF then_frame [OF rtranclp.rtrancl_refl]]) (simp_all add: type_defs)

lemma process_frame_keep:
  assumes "kept c" "process_frame env now ip c = Val (r, d)"
  shows "kept d"
proof -
  obtain r1 c1 where p: "preface_step c = (r1, c1)" by fastforce
  then have c1: "kept c1" using assms(1) by (auto simp: preface_step_def settings_keep split: if_splits)
  obtain f rest where fr: "cut_frame (h_recv_buf c1) = (f, rest)" by fastforce
  have len: "head_length (h_recv_buf c1) \<le> MAX_FRAME_SIZE \<Longrightarrow> length (fr_payload f) \<le> MAX_FRAME_SIZE" "fr_stream f < 2 ^ 31"
    using cut_frame_payload [of "h_recv_buf c1"] fr by simp_all
  have hf: "kept d2" if "handle_frame env now ip f (c1\<lparr>h_recv_buf := rest\<rparr>) = Val (r2, d2)"
    "head_length (h_recv_buf c1) \<le> MAX_FRAME_SIZE" for r2 d2
    by (rule steps_keep [OF handle_frame_ok_steps [OF _ len(1) [OF that(2)] len(2) that(1)]])
      (use c1 in \<open>simp_all add: kept_def recv_keep\<close>)
  show ?thesis
    using assms(2) c1 hf fr p go_away_keep [OF c1]
    by (auto simp: process_frame_def Let_def not_less split: sum.splits bool.splits if_splits outcome.splits)
qed

lemma frame_loop_keep: "frame_loop env clock ip k c = Val d \<Longrightarrow> kept c \<Longrightarrow> kept d"
proof (induction "length (h_recv_buf c)" arbitrary: c k rule: less_induct)
  case less
  obtain r c1 where p: "process_frame env (clock k) ip c = Val (r, c1)"
    using less.prems(1) by (auto simp: frame_loop.simps [of env clock ip k c] split: outcome.splits)
  have ok: "kept c1" by (rule process_frame_keep [OF less.prems(2) p])
  show ?case
  proof (cases "r = Inr True")
    case True
    with less.prems(1) p have "frame_loop env clock ip (k + 1) c1 = Val d"
      by (simp add: frame_loop.simps [of env clock ip k c])
    from less.hyps [OF process_frame_shrinks [OF p [unfolded True]] this ok] show ?thesis .
  next
    case False
    with less.prems(1) p ok goaway_keep [OF ok] show ?thesis
      by (auto simp: frame_loop.simps [of env clock ip k c] split: sum.splits bool.splits if_splits)
  qed
qed

lemma drive_keep:
  assumes "kept c" "drive env clock ip input arrived flushed c = Val d"
  shows "kept d"
proof -
  let ?c = "poll_pending_url env arrived c"
  have poll: "kept ?c" by (rule steps_keep [OF poll_pending_steps assms(1)])
  have loop: "kept (flush_pending_streams env e)" if "frame_loop env clock ip 0 c' = Val e" "kept c'" for c' e
    using steps_keep [OF flush_pending_steps frame_loop_keep [OF that]] .
  show ?thesis
    using assms poll loop goaway_keep [OF poll]
    by (auto simp: drive_def Let_def split: if_splits sum.splits outcome.splits)
qed

end

sublocale conn_invariant \<subseteq> step_invariant conn_init "conn_step env ip" kept
proof unfold_locales
  show "kept s" if "conn_init s" for s using that by (simp add: kept_def conn_init_ok init_keep)
  show "kept s'" if "kept s" "conn_step env ip s s'" for s s' using that by (auto simp: conn_step_def intro: drive_keep)
qed

interpretation h2: conn_invariant env ip "\<lambda>c. True" for env ip
  by unfold_locales simp_all

lemma reachable_ok: "reachable conn_init (conn_step env ip) c \<Longrightarrow> conn_ok c"
  using h2.inv_reachable by (auto simp: h2.kept_def)

section \<open>A concrete environment\<close>

text \<open>A decoder of the fields at the first indices of the HPACK static table, an encoder, and
  a handler that answers every request with a short body.\<close>

definition static_field :: "char \<Rightarrow> (string \<times> string) option" where
  "static_field b =
     (if byte_val b = 0x81 then Some ('':authority'', []) else if byte_val b = 0x82 then Some ('':method'', ''GET'')
      else if byte_val b = 0x83 then Some ('':method'', ''POST'') else if byte_val b = 0x84 then Some ('':path'', ''/'')
      else if byte_val b = 0x87 then Some ('':scheme'', ''https'') else None)"

definition demo_env :: "(unit, unit) h2_env" where
  "demo_env =
     \<lparr>en_decode = (\<lambda>d b. (if list_all (\<lambda>x. static_field x \<noteq> None) b then Some (map (the \<circ> static_field) b) else None, d)),
      en_set_max = (\<lambda>d n. d), en_encode = (\<lambda>e hs. (concat (map fst hs), e)), en_keys = (\<lambda>ks. ks),
      en_on_request = (\<lambda>calls req ip. Ready 200 [] ''hi''), en_security = [], en_lower = to_ascii_lowercase,
      en_is_ip = (\<lambda>s. True)\<rparr>"

definition demo_frame :: "nat \<Rightarrow> nat \<Rightarrow> nat \<Rightarrow> bytes \<Rightarrow> bytes" where
  "demo_frame ty fl sid p = frame_bytes \<lparr>fr_type = ty, fr_flags = fl, fr_stream = sid, fr_payload = p\<rparr>"

definition get_block :: bytes where "get_block = map char_of [0x82, 0x84, 0x87, 0x81::nat]"
definition post_block :: bytes where "post_block = map char_of [0x83, 0x84, 0x87, 0x81::nat]"

definition demo_drive :: "bytes list \<Rightarrow> (unit, unit) http2_conn outcome" where
  "demo_drive frames = drive demo_env (\<lambda>k. 0) ''192.0.2.1'' (Inr (CLIENT_PREFACE @ concat frames)) (\<lambda>s. None) True (conn_new 0 () ())"

lemma demo_reachable:
  assumes "demo_drive frames = Val c"
  shows "reachable conn_init (conn_step demo_env ''192.0.2.1'') c"
  using assms reachable_step [OF reachable_init [of conn_init "conn_new 0 () ()"], of "conn_step demo_env ''192.0.2.1''" c]
  by (auto simp: demo_drive_def conn_init_def conn_step_def)

end
