(* ===== verification/H2_Flow.thy ===== *)
theory H2_Flow
  imports H2_Drive
begin

text \<open>
  Flow control of what an HTTP/2 connection sends: what one flush writes, against an account of
  each stream and of the connection, and that it stops only where a window is used up.
\<close>

definition bytes_on :: "nat \<Rightarrow> frame list \<Rightarrow> bytes" where
  "bytes_on sid fs = concat (map fr_payload (filter (\<lambda>f. fr_stream f = sid) fs))"

definition data_bytes :: "frame list \<Rightarrow> nat" where
  "data_bytes fs = sum_list (map (\<lambda>f. length (fr_payload f)) fs)"

text \<open>A stream before and after some of its response was sent. It was sent in order, within
  the window, and the stream's account is reduced by it; a stream is dropped only when all of its
  response is out.\<close>

definition stream_flow :: "h2_stream option \<Rightarrow> bytes \<Rightarrow> h2_stream option \<Rightarrow> bool" where
  "stream_flow before sent after \<longleftrightarrow>
     (case before of
        None \<Rightarrow> sent = [] \<and> after = None
      | Some s \<Rightarrow>
          (case st_resp_body s of
             None \<Rightarrow> sent = [] \<and> after = Some s
           | Some b \<Rightarrow>
               prefix sent (drop (st_resp_sent s) b) \<and> int (length sent) \<le> max 0 (st_send_window s) \<and>
               (case after of
                  None \<Rightarrow> length b \<le> st_resp_sent s + length sent
                | Some t \<Rightarrow> st_resp_body t = Some b \<and> st_resp_sent t = st_resp_sent s + length sent \<and>
                    st_send_window t = st_send_window s - int (length sent))))"

definition flow :: "('d, 'e) http2_conn \<Rightarrow> frame list \<Rightarrow> ('d, 'e) http2_conn \<Rightarrow> bool" where
  "flow c fs d \<longleftrightarrow>
     h_out d = h_out c @ fs \<and>
     (\<forall>f \<in> set fs. fr_type f = TYPE_DATA \<and> length (fr_payload f) \<le> h_peer_max_frame c) \<and>
     h_peer_max_frame d = h_peer_max_frame c \<and>
     h_conn_send_window d = h_conn_send_window c - int (data_bytes fs) \<and>
     (\<forall>sid. stream_flow (get_stream c sid) (bytes_on sid fs) (get_stream d sid))"

definition blocked :: "('d, 'e) http2_conn \<Rightarrow> nat \<Rightarrow> bool" where
  "blocked c sid \<longleftrightarrow>
     (\<forall>s b. get_stream c sid = Some s \<longrightarrow> st_resp_body s = Some b \<longrightarrow> st_resp_sent s < length b \<longrightarrow>
        h_conn_send_window c \<le> 0 \<or> st_send_window s \<le> 0)"

section \<open>Accounts add up\<close>

lemma stream_flow_refl [simp]: "stream_flow s [] s"
  by (simp add: stream_flow_def split: option.split)

lemma stream_flow_trans:
  assumes "stream_flow s a t" "stream_flow t b u"
  shows "stream_flow s (a @ b) u"
proof (cases s)
  case None
  with assms show ?thesis by (simp add: stream_flow_def)
next
  case (Some s')
  show ?thesis
  proof (cases "st_resp_body s'")
    case None
    with Some assms show ?thesis by (simp add: stream_flow_def)
  next
    case r: (Some r)
    show ?thesis
    proof (cases t)
      case None
      with Some r assms show ?thesis by (simp add: stream_flow_def)
    next
      case t: (Some t')
      let ?o = "st_resp_sent s'"
      from Some r t assms(1) have a: "prefix a (drop ?o r)" "int (length a) \<le> max 0 (st_send_window s')"
        "st_resp_body t' = Some r" "st_resp_sent t' = ?o + length a" "st_send_window t' = st_send_window s' - int (length a)"
        by (simp_all add: stream_flow_def)
      with t assms(2) have b: "prefix b (drop (length a) (drop ?o r))" "int (length b) \<le> max 0 (st_send_window s' - int (length a))"
        by (simp_all add: stream_flow_def add.commute)
      have "prefix (a @ b) (drop ?o r)" using a(1) b(1) by (auto simp: prefix_def simp del: drop_drop)
      moreover have "int (length a + length b) \<le> max 0 (st_send_window s')" using a(2) b(2) by linarith
      ultimately show ?thesis using Some r t a assms(2)
        by (simp add: stream_flow_def add.assoc split: option.splits)
    qed
  qed
qed

lemma bytes_on_append: "bytes_on sid (fs @ gs) = bytes_on sid fs @ bytes_on sid gs"
  by (simp add: bytes_on_def)

lemma flow_refl: "flow c [] c"
  by (simp add: flow_def data_bytes_def bytes_on_def)

lemma flow_trans: "flow c fs d \<Longrightarrow> flow d gs e \<Longrightarrow> flow c (fs @ gs) e"
  by (auto simp: flow_def data_bytes_def bytes_on_append intro: stream_flow_trans)

section \<open>One chunk, one stream, all streams\<close>

lemma stream_id_bound:
  assumes "conn_ok c" "get_stream c sid = Some s"
  shows "sid mod 2 ^ 31 = sid"
proof -
  have "sid \<le> h_last_stream_id c" "h_last_stream_id c < 2 ^ 31"
    using assms unfolding conn_ok_def streams_ok_def bounds_ok_def by blast+
  then show ?thesis by simp
qed

lemma send_chunk_flow:
  assumes "conn_ok c" "get_stream c sid = Some s"
    "next_chunk (h_peer_max_frame c) (h_conn_send_window c) s = Some (n, l)" "n \<noteq> 0 \<or> \<not> l"
  shows "\<exists>fs. flow c fs (send_chunk sid s n l c)"
proof -
  obtain b where b: "st_resp_body s = Some b" "n \<le> length b - st_resp_sent s" using next_chunk_bound [OF assms(3)] by blast
  have w: "int n \<le> st_send_window s" "n \<le> h_peer_max_frame c" using next_chunk_windows [OF assms(3,4)] by simp_all
  let ?p = "take n (drop (st_resp_sent s) b)"
  let ?f = "\<lparr>fr_type = TYPE_DATA, fr_flags = if l then FLAG_END_STREAM else 0, fr_stream = sid, fr_payload = ?p\<rparr>"
  have len: "length ?p = n" using b(2) by simp
  have "h_out (send_chunk sid s n l c) = h_out c @ [?f]"
    using stream_id_bound [OF assms(1,2)] b(1) by (simp add: send_chunk_def push_frame_def Let_def)
  moreover have "bytes_on k [?f] = (if k = sid then ?p else [])" for k by (simp add: bytes_on_def)
  moreover have "stream_flow (Some s) ?p (Some (s\<lparr>st_send_window := st_send_window s - int n, st_resp_sent := st_resp_sent s + n\<rparr>))"
    unfolding stream_flow_def using b w len by (simp add: take_is_prefix)
  ultimately have "flow c [?f] (send_chunk sid s n l c)"
    unfolding flow_def using assms(2) len w(2) by (simp add: data_bytes_def)
  then show ?thesis by blast
qed

lemma end_flow:
  assumes "conn_ok c" "get_stream c sid = Some s"
    "next_chunk (h_peer_max_frame c) (h_conn_send_window c) s = Some (0, True)"
  shows "\<exists>fs. flow c fs (close_stream_remembering_window sid (push_frame TYPE_DATA FLAG_END_STREAM sid [] c))"
proof -
  obtain b where b: "st_resp_body s = Some b" "length b \<le> st_resp_sent s"
    using next_chunk_bound [OF assms(3)] by force
  let ?f = "\<lparr>fr_type = TYPE_DATA, fr_flags = FLAG_END_STREAM, fr_stream = sid, fr_payload = []\<rparr>"
  have "flow c [?f] (close_stream_remembering_window sid (push_frame TYPE_DATA FLAG_END_STREAM sid [] c))"
    using assms(2) b stream_id_bound [OF assms(1,2)]
    by (simp add: flow_def push_frame_def data_bytes_def bytes_on_def delete_conv' stream_flow_def)
      (simp add: stream_flow_def split: option.split)
  then show ?thesis by blast
qed

lemma finish_stream_flow:
  assumes "get_stream c sid = Some s" "st_resp_body s = Some b" "length b \<le> st_resp_sent s"
  shows "flow c [] (finish_stream sid c)"
  using assms stream_flow_refl
  by (auto simp: flow_def finish_stream_def data_bytes_def bytes_on_def Let_def delete_conv' stream_flow_def split: option.split)

lemma flush_stream_flow:
  "m = h_peer_max_frame c \<Longrightarrow> conn_ok c \<Longrightarrow> \<exists>fs. flow c fs (flush_stream m sid c)"
proof (induction m sid c rule: flush_stream.induct)
  case (1 m sid c)
  show ?case
  proof (cases "get_stream c sid = None \<or> (\<exists>s. get_stream c sid = Some s \<and> next_chunk m (h_conn_send_window c) s = None)")
    case True
    then have "flush_stream m sid c = c" by (auto simp: flush_stream.simps [of m])
    with flow_refl [of c] show ?thesis by metis
  next
    case False
    then obtain s n l where s: "get_stream c sid = Some s" and nc: "next_chunk m (h_conn_send_window c) s = Some (n, l)"
      by (cases "get_stream c sid") auto
    note nc' = nc [unfolded "1.prems"(1)]
    show ?thesis
    proof (cases "n = 0 \<and> l")
      case True
      with s nc end_flow [OF "1.prems"(2) s] "1.prems"(1) show ?thesis by (simp add: flush_stream.simps [of _ sid])
    next
      case False
      let ?c = "send_chunk sid s n l c"
      have nl: "n \<noteq> 0 \<or> \<not> l" using False by simp
      from send_chunk_flow [OF "1.prems"(2) s nc' nl] obtain fs where fs: "flow c fs ?c" by blast
      have "steps demo ip c ?c" for demo ip by (rule step_one, rule m_chunk [OF s nc' nl])
      then have ok: "conn_ok ?c" using steps_ok "1.prems"(2) by blast
      obtain b where b: "st_resp_body s = Some b" "l \<longrightarrow> length b \<le> st_resp_sent s + n" using next_chunk_bound [OF nc] by auto
      have fin: "\<exists>fs. flow c fs (finish_stream sid ?c)" if l
        using flow_trans [OF fs finish_stream_flow [of ?c sid _ b]] b that by auto
      have rec: "\<exists>fs. flow c fs (flush_stream m sid ?c)" if "\<not> l" "n \<noteq> 0" "\<not> h_conn_send_window ?c \<le> 0"
        "\<not> (case get_stream ?c sid of Some s \<Rightarrow> st_send_window s | None \<Rightarrow> 0) \<le> 0"
        using "1.IH" [OF s nc refl False refl that] ok "1.prems"(1) flow_trans [OF fs] by auto
      show ?thesis
        using False s nc fs fin rec by (subst flush_stream.simps) (auto simp: Let_def)
    qed
  qed
qed

lemma next_chunk_pos:
  assumes "next_chunk m w s = Some (n, l)" "\<not> (n = 0 \<and> l)" "0 < m"
  shows "n \<noteq> 0"
proof -
  obtain b where b: "st_resp_body s = Some b" using next_chunk_bound [OF assms(1)] by blast
  let ?r = "length b - st_resp_sent s"
  have r: "?r \<noteq> 0" using assms(1,2) b by (auto simp: next_chunk_def)
  then have w: "0 < w" "0 < st_send_window s" using assms(1) b by (auto simp: next_chunk_def Let_def split: if_splits)
  with r assms(1) b have "n = min ?r (min (nat (min w (st_send_window s))) m)"
    by (simp add: next_chunk_def Let_def)
  moreover have "0 < nat (min w (st_send_window s))" using w by simp
  ultimately show ?thesis using r assms(3) by linarith
qed

lemma flush_stream_blocked: "0 < m \<Longrightarrow> blocked (flush_stream m sid c) sid"
proof (induction m sid c rule: flush_stream.induct)
  case (1 m sid c)
  show ?case
  proof (cases "get_stream c sid")
    case None
    then show ?thesis by (simp add: flush_stream.simps [of m] blocked_def)
  next
    case (Some s)
    show ?thesis
    proof (cases "next_chunk m (h_conn_send_window c) s")
      case None
      with Some show ?thesis
        by (auto simp: flush_stream.simps [of m] blocked_def next_chunk_def Let_def split: if_splits)
    next
      case nc: (Some nl)
      obtain n l where nl: "nl = (n, l)" by fastforce
      obtain b where b: "st_resp_body s = Some b" "l \<longleftrightarrow> st_resp_sent s + n = length b \<or> length b \<le> st_resp_sent s"
        using next_chunk_bound nc nl by blast
      show ?thesis
      proof (cases "n = 0 \<and> l")
        case True
        with Some nc nl show ?thesis by (simp add: flush_stream.simps [of m] blocked_def delete_conv')
      next
        case False
        let ?c = "send_chunk sid s n l c"
        have n: "n \<noteq> 0" using next_chunk_pos [of m _ s n l] False nc nl "1.prems" by blast
        have fin: "blocked (finish_stream sid ?c) sid" if l
          using that b by (auto simp: blocked_def finish_stream_def Let_def delete_conv' split: option.splits)
        have stop: "blocked ?c sid" if "h_conn_send_window ?c \<le> 0 \<or> st_send_window s - int n \<le> 0"
          using that by (auto simp: blocked_def)
        note rec = "1.IH" [OF Some nc nl [symmetric] False refl]
        show ?thesis
          using False Some nc nl fin stop rec n "1.prems"
          by (subst flush_stream.simps) (auto simp: Let_def)
      qed
    qed
  qed
qed

lemma flush_stream_other: "k \<noteq> sid \<Longrightarrow> get_stream (flush_stream m k c) sid = get_stream c sid"
proof (induction m k c rule: flush_stream.induct)
  case (1 m k c)
  show ?case
  proof (cases "get_stream c k = None \<or> (\<exists>s. get_stream c k = Some s \<and> next_chunk m (h_conn_send_window c) s = None)")
    case True
    then show ?thesis by (auto simp: flush_stream.simps [of m])
  next
    case False
    then obtain s n l where s: "get_stream c k = Some s" and nc: "next_chunk m (h_conn_send_window c) s = Some (n, l)"
      by (cases "get_stream c k") auto
    have fin: "get_stream (finish_stream k d) sid = get_stream d sid" for d :: "('a, 'b) http2_conn"
      using "1.prems" by (simp add: finish_stream_def Let_def delete_conv' split: option.split)
    have rec: "get_stream (flush_stream m k (send_chunk k s n l c)) sid = get_stream c sid"
      if "\<not> (n = 0 \<and> l)" "\<not> l" "n \<noteq> 0" "\<not> h_conn_send_window (send_chunk k s n l c) \<le> 0"
        "\<not> (case get_stream (send_chunk k s n l c) k of Some s \<Rightarrow> st_send_window s | None \<Rightarrow> 0) \<le> 0"
      using "1.IH" [OF s nc refl that(1) refl that(2-5) "1.prems"] "1.prems" by simp
    show ?thesis
      using s nc fin rec "1.prems" by (subst flush_stream.simps) (simp add: Let_def delete_conv')
  qed
qed

lemma flow_window: "flow c fs d \<Longrightarrow> h_conn_send_window d \<le> h_conn_send_window c"
  by (simp add: flow_def)

lemma flush_all:
  assumes "conn_ok c" "m = h_peer_max_frame c"
  shows "(\<exists>fs. flow c fs (foldl (\<lambda>c k. flush_stream m k c) c ks)) \<and>
     (\<forall>sid. sid \<in> set ks \<or> blocked c sid \<longrightarrow> blocked (foldl (\<lambda>c k. flush_stream m k c) c ks) sid)"
  using assms
proof (induction ks arbitrary: c)
  case Nil
  with flow_refl show ?case by auto
next
  case (Cons k ks)
  let ?c = "flush_stream m k c"
  obtain fs where fs: "flow c fs ?c" using flush_stream_flow Cons.prems by blast
  have ok: "conn_ok ?c" using steps_ok flush_stream_steps [OF Cons.prems(2)] Cons.prems(1) by blast
  have m: "0 < m" using Cons.prems by (simp add: conn_ok_def bounds_ok_def)
  have "blocked ?c sid" if "sid = k \<or> blocked c sid" for sid
  proof (cases "sid = k")
    case True
    with flush_stream_blocked [OF m] show ?thesis by simp
  next
    case False
    then have same: "get_stream ?c sid = get_stream c sid" using flush_stream_other by metis
    have "blocked c sid" using that False by simp
    then show ?thesis using flow_window [OF fs] unfolding blocked_def same by (meson order_trans)
  qed
  moreover have "m = h_peer_max_frame ?c" using Cons.prems(2) by simp
  note IH = Cons.IH [OF ok this]
  obtain gs where "flow ?c gs (foldl (\<lambda>c k. flush_stream m k c) ?c ks)" using IH by blast
  from flow_trans [OF fs this] IH calculation show ?case by (simp only: foldl.simps list.set) blast
qed

text \<open>C10. One flush of all streams, in any reachable state: it appends DATA frames only, none
  larger than the peer's maximum; the connection's window falls by exactly the bytes sent and does
  not become negative; on each stream the bytes are the next ones of its response, no more
  than its window, its account moves by them, and it is dropped only when its response is
  complete; and if the map's iteration visits every stream, a response that is not finished
  afterwards waits for a window that is used up.\<close>

theorem flush_flow_control:
  assumes "reachable conn_init (conn_step env ip) c"
    and "set (en_keys env (map fst (h_streams c))) = set (map fst (h_streams c))"
  shows "\<exists>fs. flow c fs (flush_pending_streams env c) \<and> int (data_bytes fs) \<le> h_conn_send_window c \<and>
     (\<forall>sid. blocked (flush_pending_streams env c) sid)"
proof -
  have ok: "conn_ok c" using reachable_ok [OF assms(1)] .
  let ?d = "flush_pending_streams env c" and ?ks = "en_keys env (map fst (h_streams c))"
  have all: "(\<exists>fs. flow c fs ?d) \<and> (\<forall>sid. sid \<in> set ?ks \<or> blocked c sid \<longrightarrow> blocked ?d sid)"
    using flush_all [OF ok refl, of ?ks] by (simp add: flush_pending_streams_def Let_def)
  have "blocked c sid" if "sid \<notin> set ?ks" for sid
    using that unfolding assms(2) by (simp add: blocked_def map_of_eq_None_iff [symmetric])
  moreover have "0 \<le> h_conn_send_window ?d"
    using steps_ok [OF flush_pending_steps [of env ip] ok] by (simp add: conn_ok_def bounds_ok_def)
  ultimately show ?thesis using all by (fastforce simp: flow_def)
qed

definition narrow_frames :: "bytes list" where
  "narrow_frames = [demo_frame 4 0 0 (setting_bytes 4 1), demo_frame 1 5 1 get_block]"

theorem flush_flow_control_witness:
  "\<exists>c s fs. demo_drive narrow_frames = Val c \<and> get_stream c 1 = Some s \<and> st_resp_body s = Some ''hi'' \<and> st_resp_sent s = 1 \<and>
     flow c fs (flush_pending_streams demo_env c) \<and> int (data_bytes fs) \<le> h_conn_send_window c"
proof -
  have "case demo_drive narrow_frames of Val c \<Rightarrow> (case get_stream c 1 of Some s \<Rightarrow> st_resp_body s = Some ''hi'' \<and> st_resp_sent s = 1
      | None \<Rightarrow> False) | Panic \<Rightarrow> False" by code_simp
  then obtain c s where c: "demo_drive narrow_frames = Val c" "get_stream c 1 = Some s" "st_resp_body s = Some ''hi''" "st_resp_sent s = 1"
    by (auto split: outcome.splits option.splits)
  have "set (en_keys demo_env (map fst (h_streams c))) = set (map fst (h_streams c))" by (simp add: demo_env_def)
  from flush_flow_control [OF demo_reachable [OF c(1)] this] c show ?thesis by blast
qed

end
