(* ===== verification/H2_Theorems.thy ===== *)
theory H2_Theorems
  imports H2_Drive
begin

text \<open>
  What holds of every HTTP/2 connection: the bounds on what a peer can make the server keep, the
  requests that reach the handler, flow-controlled delivery, and the inputs that break what the code
  promises.
\<close>

section \<open>Bounds\<close>

text \<open>C8. Whatever bytes a peer sends, in every state that driving a connection reaches: at most
  100 streams, each opened by the peer with an odd id no larger than the last one, with at most 20 MiB
  of buffered body and a response offset inside the response; the header block under assembly is at
  most 256 KiB, and empty when no CONTINUATION is due; the memories of reset and closed streams have
  at most 128 entries; all windows are within 31 bits, the send window of the connection is never
  negative and a receive window never below half of its size.\<close>

theorem h2_bounded:
  assumes "reachable conn_init (conn_step env ip) c"
  shows "length (h_streams c) \<le> 100 \<and> distinct (map fst (h_streams c)) \<and>
     length (h_header_block c) \<le> 256 * 1024 \<and> (h_continuation c = None \<longrightarrow> h_header_block c = []) \<and>
     length (h_recently_reset c) \<le> 128 \<and> length (h_closed_windows c) \<le> 128 \<and>
     h_last_stream_id c < 2 ^ 31 \<and> 0 \<le> h_conn_send_window c \<and> h_conn_send_window c < 2 ^ 31 \<and>
     32767 \<le> h_conn_recv_window c \<and> h_conn_recv_window c \<le> 65535 \<and>
     (\<forall>sid s. get_stream c sid = Some s \<longrightarrow>
        sid mod 2 = 1 \<and> sid \<le> h_last_stream_id c \<and> length (st_body s) \<le> 20 * 1024 * 1024 \<and>
        32767 \<le> st_recv_window s \<and> st_recv_window s \<le> 65535 \<and> \<bar>st_send_window s\<bar> < 2 ^ 31 \<and>
        (\<forall>b. st_resp_body s = Some b \<longrightarrow> st_resp_sent s \<le> length b))"
proof -
  have ok: "streams_ok c" "bounds_ok c" using reachable_ok [OF assms] by (simp_all add: conn_ok_def)
  have s: "sid mod 2 = 1 \<and> sid \<le> h_last_stream_id c \<and> length (st_body s) \<le> 20 * 1024 * 1024 \<and>
        32767 \<le> st_recv_window s \<and> st_recv_window s \<le> 65535 \<and> \<bar>st_send_window s\<bar> < 2 ^ 31 \<and>
        (\<forall>b. st_resp_body s = Some b \<longrightarrow> st_resp_sent s \<le> length b)" if "get_stream c sid = Some s" for sid s
  proof -
    have "sid mod 2 = 1 \<and> sid \<le> h_last_stream_id c \<and> stream_ok (h_peer_initial_window c) s"
      using ok(1) that by (simp add: streams_ok_def)
    moreover from this ok(2) have "st_send_window s \<le> 2147483647" "- 2147483647 \<le> st_send_window s"
      by (auto simp: stream_ok_def bounds_ok_def MAX_WINDOW_def)
    then have "\<bar>st_send_window s\<bar> < 2 ^ 31" by simp
    ultimately show ?thesis
      by (simp add: stream_ok_def MAX_H2_BODY_def DEFAULT_WINDOW_def)
  qed
  from ok(1) have "length (h_streams c) \<le> 100 \<and> distinct (map fst (h_streams c))"
    by (simp add: streams_ok_def MAX_CONCURRENT_def)
  with ok(2) s show ?thesis
    by (simp add: bounds_ok_def MAX_HEADER_BLOCK_def RESET_MEMORY_def DEFAULT_WINDOW_def MAX_WINDOW_def)
qed

definition post_frames :: "bytes list" where
  "post_frames = [demo_frame 1 4 1 post_block, demo_frame 0 0 1 ''abc'', demo_frame 8 0 1 (be_bytes 4 2147418112)]"

theorem h2_bounded_witness:
  "\<exists>c s. demo_drive post_frames = Val c \<and> get_stream c 1 = Some s \<and> st_body s = ''abc'' \<and> \<bar>st_send_window s\<bar> < 2 ^ 31"
proof -
  have "case demo_drive post_frames of Val c \<Rightarrow> (case get_stream c 1 of Some s \<Rightarrow> st_body s = ''abc'' | None \<Rightarrow> False)
      | Panic \<Rightarrow> False" by code_simp
  then obtain c s where c: "demo_drive post_frames = Val c" "get_stream c 1 = Some s" "st_body s = ''abc''"
    by (auto split: outcome.splits option.splits)
  with h2_bounded [OF demo_reachable [OF c(1)]] show ?thesis by blast
qed

section \<open>Requests\<close>

lemma request_fields_fwd:
  "rp_fwd (request_fields p hs) = rp_fwd p @
     filter (\<lambda>kv. \<not> starts_with '':'' (fst kv) \<and> \<not> is_untrusted_inbound (fst kv)) hs"
proof (induction p hs rule: request_fields.induct)
  case (2 p k v hs)
  have "starts_with '':'' '':method''" "starts_with '':'' '':path''" "starts_with '':'' '':authority''" by code_simp+
  with 2 show ?case by (auto split: option.split)
qed simp

lemma build_request_headers:
  "filter (\<lambda>kv. \<not> eq_ignore_ascii_case (fst kv) ''host'') (rq_headers (fst (build_request hs body))) =
     filter (\<lambda>kv. \<not> starts_with '':'' (fst kv) \<and> \<not> is_untrusted_inbound (fst kv) \<and> \<not> eq_ignore_ascii_case (fst kv) ''host'') hs"
proof -
  have host: "eq_ignore_ascii_case ''Host'' ''host''" by code_simp
  show ?thesis
    by (auto simp: build_request_def request_fields_fwd Let_def host conj_ac intro!: filter_cong split: option.split)
qed

lemma build_request_clean:
  assumes "kv \<in> set (rq_headers (fst (build_request hs body)))"
  shows "\<not> is_untrusted_inbound (fst kv) \<and> \<not> starts_with '':'' (fst kv)"
proof -
  have host: "\<not> is_untrusted_inbound ''Host''" "\<not> starts_with '':'' ''Host''" by code_simp+
  from assms show ?thesis
    by (auto simp: build_request_def request_fields_fwd Let_def host split: option.splits if_splits)
qed

definition call_ok :: "string \<Rightarrow> forwarded_trust \<Rightarrow> raw_request \<times> string \<Rightarrow> bool" where
  "call_ok ip trust call \<longleftrightarrow>
     (\<exists>hs. validate_request_headers hs = Inr () \<and> fst call = fst (build_request hs (rq_body (fst call))) \<and>
        (\<forall>n. declared_length hs = Some n \<longrightarrow> n = length (rq_body (fst call)))) \<and>
     (\<forall>kv \<in> set (rq_headers (fst call)). \<not> is_untrusted_inbound (fst kv) \<and> \<not> starts_with '':'' (fst kv)) \<and>
     (trust = TrustNever \<longrightarrow> snd call = ip)"

lemma the_call_ok:
  assumes "ready_request s"
  shows "call_ok ip trust (the_call env ip trust s)"
proof -
  have "rq_body (fst (build_request (st_headers s) (st_body s))) = st_body s" by (simp add: build_request_def Let_def)
  with assms build_request_clean show ?thesis
    by (auto simp: call_ok_def the_call_def ready_request_def attributed_client_ip_def)
qed

definition calls_ok :: "string \<Rightarrow> ('d, 'e) http2_conn \<Rightarrow> bool" where
  "calls_ok ip c \<longleftrightarrow> (\<forall>call \<in> set (h_calls c). call_ok ip (h_trust c) call)"

lemma micro_trust: "micro env ip c d \<Longrightarrow> h_trust d = h_trust c"
  by (induction rule: micro.induct) simp_all

lemma micro_calls: "micro env ip c d \<Longrightarrow> calls_ok ip c \<Longrightarrow> calls_ok ip d"
  by (induction rule: micro.induct) (auto simp: calls_ok_def the_call_ok)

interpretation calls: conn_invariant env ip "calls_ok ip" for env ip
proof unfold_locales
  show "calls_ok ip d" if "micro env ip c d" "calls_ok ip c" for c d :: "('a, 'b) http2_conn"
    using that by (rule micro_calls)
qed (auto simp: calls_ok_def conn_init_def conn_new_def trusting_forwarded_for_def)

text \<open>C9. Every request that any sequence of frames makes a connection hand to the handler came from a
  header list that passed validation, its body has the declared length if a length was declared, none
  of the headers that only the proxy may set and no pseudo-header is among its headers, and unless the
  listener trusts its peer the address handed over with it is the peer's.\<close>

theorem h2_requests_ok:
  assumes "reachable conn_init (conn_step env ip) c" "(req, addr) \<in> set (h_calls c)"
  shows "(\<exists>hs. validate_request_headers hs = Inr () \<and> req = fst (build_request hs (rq_body req)) \<and>
        (\<forall>n. declared_length hs = Some n \<longrightarrow> n = length (rq_body req))) \<and>
     (\<forall>kv \<in> set (rq_headers req). \<not> is_untrusted_inbound (fst kv) \<and> \<not> starts_with '':'' (fst kv)) \<and>
     (h_trust c = TrustNever \<longrightarrow> addr = ip)"
proof -
  have "call_ok ip (h_trust c) (req, addr)"
    using calls.inv_reachable [OF assms(1)] assms(2) by (simp add: calls.kept_def calls_ok_def)
  then show ?thesis by (simp add: call_ok_def)
qed

definition get_frames :: "bytes list" where
  "get_frames = [demo_frame 1 5 1 get_block]"

theorem h2_requests_ok_witness:
  "\<exists>c req. demo_drive get_frames = Val c \<and> h_calls c = [(req, ''192.0.2.1'')] \<and>
     (\<forall>kv \<in> set (rq_headers req). \<not> is_untrusted_inbound (fst kv) \<and> \<not> starts_with '':'' (fst kv))"
proof -
  have "case demo_drive get_frames of Val c \<Rightarrow> map snd (h_calls c) = [''192.0.2.1''] | Panic \<Rightarrow> False" by code_simp
  then obtain c req where c: "demo_drive get_frames = Val c" "h_calls c = [(req, ''192.0.2.1'')]"
    by (auto split: outcome.splits)
  with h2_requests_ok [OF demo_reachable [OF c(1)], of req "''192.0.2.1''"] show ?thesis by auto
qed

section \<open>SETTINGS and the send windows\<close>

lemma shift_windows_Panic:
  "(\<And>sid s. (sid, s) \<in> set ss \<Longrightarrow> i32_min \<le> st_send_window s + delta) \<Longrightarrow>
     shift_windows delta ss = Panic \<longleftrightarrow> (\<exists>sid s. (sid, s) \<in> set ss \<and> MAX_WINDOW < st_send_window s + delta)"
proof (induction delta ss rule: shift_windows.induct)
  case (2 delta sid s rest)
  have lo: "i32_min \<le> st_send_window s + delta" using "2.prems" [of sid s] by simp
  have hi: "i32_max = MAX_WINDOW" by (simp add: i32_max_def MAX_WINDOW_def)
  show ?case
  proof (cases "MAX_WINDOW < st_send_window s + delta")
    case True
    then show ?thesis using hi by (auto simp: i32_checked_def)
  next
    case False
    with lo hi have v: "i32_checked (st_send_window s + delta) = Val (st_send_window s + delta)"
      by (simp add: i32_checked_def)
    have "shift_windows delta rest = Panic \<longleftrightarrow> (\<exists>sid s. (sid, s) \<in> set rest \<and> MAX_WINDOW < st_send_window s + delta)"
      by (rule "2.IH" [OF v]) (use "2.prems" in auto)
    with v False show ?thesis by (auto split: outcome.splits)
  qed
qed simp

lemma apply_setting_Panic:
  assumes "conn_ok c"
  shows "apply_setting env i v c = Panic \<longleftrightarrow>
     i = SETTING_INITIAL_WINDOW_SIZE \<and> v \<le> 0x7fffffff \<and>
     (\<exists>sid s. get_stream c sid = Some s \<and> MAX_WINDOW < st_send_window s + (int v - h_peer_initial_window c))"
proof (cases "i = SETTING_INITIAL_WINDOW_SIZE \<and> v \<le> 0x7fffffff")
  case True
  let ?d = "int v - h_peer_initial_window c"
  have b: "0 \<le> h_peer_initial_window c" "h_peer_initial_window c \<le> MAX_WINDOW"
    using assms by (simp_all add: conn_ok_def bounds_ok_def)
  have d: "i32_checked ?d = Val ?d" using True b by (simp add: i32_checked_def i32_min_def i32_max_def MAX_WINDOW_def)
  have set: "(sid, s) \<in> set (h_streams c) \<longleftrightarrow> get_stream c sid = Some s" for sid s
    using assms by (simp add: conn_ok_def streams_ok_def)
  have "shift_windows ?d (h_streams c) = Panic \<longleftrightarrow> (\<exists>sid s. (sid, s) \<in> set (h_streams c) \<and> MAX_WINDOW < st_send_window s + ?d)"
  proof (rule shift_windows_Panic)
    fix sid s assume "(sid, s) \<in> set (h_streams c)"
    then have "stream_ok (h_peer_initial_window c) s" using assms set by (simp add: conn_ok_def streams_ok_def)
    then show "i32_min \<le> st_send_window s + ?d" by (simp add: stream_ok_def i32_min_def MAX_WINDOW_def)
  qed
  with True d set show ?thesis
    by (auto simp: apply_setting_def SETTING_HEADER_TABLE_SIZE_def SETTING_ENABLE_PUSH_def SETTING_INITIAL_WINDOW_SIZE_def
        split: outcome.splits)
next
  case False
  then show ?thesis by (auto simp: apply_setting_def split: outcome.splits)
qed

text \<open>Exactly one input ends the whole process: a SETTINGS value for the initial window that takes
  the send window of some stream above \<open>2^31 - 1\<close> (the stream's window plus the change of the initial
  window is added without a check). No other frame of any kind panics, in any reachable state.\<close>

theorem h2_panic_iff:
  assumes "reachable conn_init (conn_step env ip) c"
  shows "(fr_type f \<noteq> TYPE_SETTINGS \<longrightarrow> handle_frame env now ip f c \<noteq> Panic) \<and>
    (\<forall>i v. i < 2 ^ 16 \<longrightarrow> v < 2 ^ 32 \<longrightarrow> h_continuation c = None \<longrightarrow>
       (handle_frame env now ip \<lparr>fr_type = TYPE_SETTINGS, fr_flags = 0, fr_stream = 0, fr_payload = setting_bytes i v\<rparr> c = Panic \<longleftrightarrow>
        i = SETTING_INITIAL_WINDOW_SIZE \<and> v \<le> 0x7fffffff \<and>
        (\<exists>sid s. get_stream c sid = Some s \<and> 2 ^ 31 - 1 < st_send_window s + (int v - h_peer_initial_window c))))"
proof (intro conjI allI impI)
  assume "fr_type f \<noteq> TYPE_SETTINGS"
  then have "dispatch_frame env now ip f c \<noteq> Panic" unfolding dispatch_frame_def Let_def by simp
  then show "handle_frame env now ip f c \<noteq> Panic"
    unfolding handle_frame_def Let_def by (simp split: verdict.split)
next
  fix i v :: nat
  assume iv: "i < 2 ^ 16" "v < 2 ^ 32" and cont: "h_continuation c = None"
  let ?f = "\<lparr>fr_type = TYPE_SETTINGS, fr_flags = 0, fr_stream = 0, fr_payload = setting_bytes i v\<rparr>"
  have parts: "from_be (take 2 (setting_bytes i v)) = i" "from_be (take 4 (drop 2 (setting_bytes i v))) = v"
    "from_be (drop 2 (setting_bytes i v)) = v" "length (setting_bytes i v) = 6"
    using iv from_be_be_bytes [of i 2] from_be_be_bytes [of v 4] by (simp_all add: setting_bytes_def)
  have shape: "frame_shape_verdict TYPE_SETTINGS 0 0 6 = Allow" by code_simp
  have "handle_frame env now ip ?f c = handle_settings env 0 (setting_bytes i v) c"
  proof -
    have "TYPE_SETTINGS \<notin> {TYPE_CONTINUATION, TYPE_DATA, TYPE_HEADERS, TYPE_PRIORITY, TYPE_RST_STREAM}" by (simp add: type_defs)
    then have "dispatch_frame env now ip ?f c = handle_settings env 0 (setting_bytes i v) c"
      by (simp add: dispatch_frame_def)
    moreover have "frame_verdict c TYPE_SETTINGS 0 = Allow" by (simp add: frame_verdict_def)
    moreover have "TYPE_SETTINGS \<noteq> TYPE_CONTINUATION" by (simp add: type_defs)
    ultimately show ?thesis using cont by (simp add: handle_frame_def parts(4) shape)
  qed
  moreover have "\<not> has_flag 0 FLAG_ACK" by code_simp
  ultimately have "handle_frame env now ip ?f c = Panic \<longleftrightarrow> settings_loop env (setting_bytes i v) c = Panic"
    by (auto simp: handle_settings_def parts(4) split: outcome.splits sum.splits)
  also have "\<dots> \<longleftrightarrow> apply_setting env i v c = Panic"
    by (subst settings_loop.simps) (auto simp: parts settings_loop.simps [of env "[]"] split: outcome.splits sum.splits)
  finally show "handle_frame env now ip ?f c = Panic \<longleftrightarrow>
        i = SETTING_INITIAL_WINDOW_SIZE \<and> v \<le> 0x7fffffff \<and>
        (\<exists>sid s. get_stream c sid = Some s \<and> 2 ^ 31 - 1 < st_send_window s + (int v - h_peer_initial_window c))"
    using apply_setting_Panic [OF reachable_ok [OF assms]] by (simp add: MAX_WINDOW_def)
qed

theorem h2_panic_iff_witness:
  "\<exists>c. demo_drive post_frames = Val c \<and>
     handle_frame demo_env 0 ''192.0.2.1'' \<lparr>fr_type = TYPE_SETTINGS, fr_flags = 0, fr_stream = 0,
       fr_payload = setting_bytes SETTING_INITIAL_WINDOW_SIZE 65536\<rparr> c = Panic"
proof -
  have "case demo_drive post_frames of Val c \<Rightarrow> (case get_stream c 1 of Some s \<Rightarrow> st_send_window s = 2 ^ 31 - 1 | None \<Rightarrow> False) \<and>
      h_peer_initial_window c = 65535 \<and> h_continuation c = None | Panic \<Rightarrow> False" by code_simp
  then obtain c s where c: "demo_drive post_frames = Val c" "get_stream c 1 = Some s" "st_send_window s = 2 ^ 31 - 1"
    "h_peer_initial_window c = 65535" "h_continuation c = None"
    by (auto split: outcome.splits option.splits)
  have "\<exists>sid s. get_stream c sid = Some s \<and> 2 ^ 31 - 1 < st_send_window s + (int 65536 - h_peer_initial_window c)"
    using c by (intro exI [of _ 1] exI [of _ s]) simp
  with conjunct2 [OF h2_panic_iff [OF demo_reachable [OF c(1)]], rule_format, of SETTING_INITIAL_WINDOW_SIZE 65536 0] c
  show ?thesis by (auto simp: SETTING_INITIAL_WINDOW_SIZE_def)
qed

section \<open>Resets\<close>

lemma push_back_suffix:
  assumes "length q \<le> RESET_MEMORY"
  shows "((\<lambda>q. push_back_bounded q x) ^^ n) q = drop (length q + n - RESET_MEMORY) (q @ replicate n x)"
proof (induction n)
  case 0
  then show ?case using assms by simp
next
  case (Suc n)
  let ?p = "drop (length q + n - RESET_MEMORY) (q @ replicate n x)"
  have len: "length ?p = min RESET_MEMORY (length q + n)" by auto
  have "((\<lambda>q. push_back_bounded q x) ^^ Suc n) q = push_back_bounded ?p x" using Suc.IH by simp
  also have "\<dots> = drop (length q + Suc n - RESET_MEMORY) (q @ replicate n x) @ [x]"
  proof (cases "RESET_MEMORY \<le> length q + n")
    case True
    then have "length q + Suc n - RESET_MEMORY = Suc (length q + n - RESET_MEMORY)" by simp
    moreover have "tl ?p = drop (Suc (length q + n - RESET_MEMORY)) (q @ replicate n x)" by (simp only: drop_Suc tl_drop)
    ultimately show ?thesis using True len by (simp only: push_back_bounded_def min.absorb1 order_refl if_True)
  next
    case False
    with len show ?thesis by (simp add: push_back_bounded_def)
  qed
  also have "\<dots> = drop (length q + Suc n - RESET_MEMORY) (q @ replicate (Suc n) x)"
    using assms by (simp add: replicate_append_same [symmetric] RESET_MEMORY_def)
  finally show ?case .
qed

text \<open>A list of frames handled one after the other, as long as each is accepted.\<close>

fun handle_frames ::
  "('d, 'e) h2_env \<Rightarrow> nat \<Rightarrow> string \<Rightarrow> frame list \<Rightarrow> ('d, 'e) http2_conn \<Rightarrow> ('d, 'e) http2_conn option" where
  "handle_frames env now ip [] c = Some c"
| "handle_frames env now ip (f # fs) c =
     (case handle_frame env now ip f c of Val (Inr _, d) \<Rightarrow> handle_frames env now ip fs d | _ \<Rightarrow> None)"

definition rst_frame :: "nat \<Rightarrow> frame" where
  "rst_frame sid = \<lparr>fr_type = TYPE_RST_STREAM, fr_flags = 0, fr_stream = sid, fr_payload = be_bytes 4 8\<rparr>"

lemma handle_rst_closed:
  assumes "h_continuation c = None" "0 < sid" "sid \<le> h_last_stream_id c" "get_stream c sid = None"
  shows "handle_frame env now ip (rst_frame sid) c = Val (Inr (), note_reset now sid c)"
proof -
  have shape: "frame_shape_verdict TYPE_RST_STREAM 0 sid 4 = Allow"
    using assms(2) by (simp add: frame_shape_verdict_def needs_stream_def needs_connection_def fixed_length_def settings_shape_def type_defs)
  have v: "frame_verdict c TYPE_RST_STREAM sid = Allow"
    using assms by (simp add: frame_verdict_def stream_state_of_def type_defs)
  have "AList.delete sid (h_streams c) = h_streams c" using assms(4) by (simp add: delete_idem map_of_eq_None_iff)
  then have "(remove_stream sid c)\<lparr>h_last_stream_id := max (h_last_stream_id c) sid\<rparr> = c"
    using assms(3) by (simp add: remove_stream_def)
  then have h: "handle_rst_stream now sid c = note_reset now sid c" by (simp add: handle_rst_stream_def)
  have "TYPE_RST_STREAM \<notin> {TYPE_CONTINUATION, TYPE_DATA, TYPE_HEADERS, TYPE_PRIORITY}" by (simp add: type_defs)
  then have "dispatch_frame env now ip (rst_frame sid) c = Val (Inr (), note_reset now sid c)" "TYPE_RST_STREAM \<noteq> TYPE_CONTINUATION"
    by (simp_all add: dispatch_frame_def rst_frame_def h)
  then show ?thesis using assms(1) by (simp add: handle_frame_def) (simp add: rst_frame_def shape v)
qed

lemma note_reset_many:
  assumes "h_continuation c = None" "0 < sid" "sid \<le> h_last_stream_id c" "get_stream c sid = None"
  shows "handle_frames env now ip (replicate n (rst_frame sid)) c = Some ((note_reset now sid ^^ n) c)"
  using assms
proof (induction n arbitrary: c)
  case (Suc n)
  have "handle_frames env now ip (replicate n (rst_frame sid)) (note_reset now sid c) =
      Some ((note_reset now sid ^^ n) (note_reset now sid c))" by (rule Suc.IH) (use Suc.prems in simp_all)
  with handle_rst_closed [OF Suc.prems] show ?case by (simp add: funpow_swap1)
qed simp

lemma note_reset_funpow:
  "(note_reset now sid ^^ n) c = c\<lparr>h_recently_reset := ((\<lambda>q. push_back_bounded q (sid, now)) ^^ n) (h_recently_reset c)\<rparr>"
  by (induction n) (simp_all add: note_reset_def)

text \<open>The memory of reset streams that makes the concurrency cap hold against Rapid Reset can be
  emptied by the peer: RST_STREAM on a closed stream is accepted and recorded even for an even
  id, which the cap does not count, so 128 of them for stream 2 evict every counted record and the
  connection's streams alone are counted again, at any time.\<close>

theorem rapid_reset_evaded:
  assumes "reachable conn_init (conn_step env ip) c" "h_continuation c = None" "2 \<le> h_last_stream_id c"
  shows "\<exists>d. handle_frames env now ip (replicate 128 (rst_frame 2)) c = Some d \<and>
     h_streams d = h_streams c \<and> (\<forall>t. active_streams t d = length (h_streams c))"
proof -
  have ok: "streams_ok c" "bounds_ok c" using reachable_ok [OF assms(1)] by (simp_all add: conn_ok_def)
  have none: "get_stream c 2 = None"
  proof (rule ccontr)
    assume "get_stream c 2 \<noteq> None"
    then obtain s where "get_stream c 2 = Some s" by blast
    with ok(1) have "(2::nat) mod 2 = 1" unfolding streams_ok_def by blast
    then show False by simp
  qed
  let ?d = "(note_reset now 2 ^^ 128) c"
  have run: "handle_frames env now ip (replicate 128 (rst_frame 2)) c = Some ?d"
    by (rule note_reset_many) (use assms none in simp_all)
  have len: "length (h_recently_reset c) \<le> RESET_MEMORY" using ok(2) by (simp add: bounds_ok_def)
  have "h_recently_reset ?d = replicate 128 (2, now)"
    unfolding note_reset_funpow by (simp only: http2_conn.simps push_back_suffix [OF len])
      (simp add: RESET_MEMORY_def)
  then have "active_streams t ?d = length (h_streams c)" for t
    by (simp add: active_streams_def note_reset_funpow filter_replicate)
  with run show ?thesis by (auto simp: note_reset_funpow)
qed

definition reset_frames :: "bytes list" where
  "reset_frames = [demo_frame 1 4 3 post_block, demo_frame 3 0 3 (be_bytes 4 8)]"

theorem rapid_reset_evaded_witness:
  "\<exists>c d. demo_drive reset_frames = Val c \<and> active_streams 5 c = 1 \<and>
     handle_frames demo_env 7 ''192.0.2.1'' (replicate 128 (rst_frame 2)) c = Some d \<and> active_streams 7 d = 0"
proof -
  have "case demo_drive reset_frames of Val c \<Rightarrow> active_streams 5 c = 1 \<and> h_continuation c = None \<and> h_last_stream_id c = 3 \<and>
      h_streams c = [] | Panic \<Rightarrow> False" by code_simp
  then obtain c where c: "demo_drive reset_frames = Val c" "active_streams 5 c = 1" "h_continuation c = None"
    "h_last_stream_id c = 3" "h_streams c = []" by (auto split: outcome.splits)
  with rapid_reset_evaded [OF demo_reachable [OF c(1)] c(3), of 7] show ?thesis by auto
qed

section \<open>Streams and connections that end\<close>

text \<open>A response sent before the request has ended closes the stream twice: the last chunk carries
  END_STREAM and leaves the stream half-closed with its response, and the next flush, at the end of
  the same \<open>drive\<close>, sends an empty DATA frame with END_STREAM again.\<close>

lemma h2_double_end_stream:
  "case demo_drive [demo_frame TYPE_HEADERS FLAG_END_HEADERS 1 get_block] of
     Val c \<Rightarrow> filter (\<lambda>f. fr_type f = TYPE_DATA) (h_out c) =
       [\<lparr>fr_type = TYPE_DATA, fr_flags = FLAG_END_STREAM, fr_stream = 1, fr_payload = ''hi''\<rparr>,
        \<lparr>fr_type = TYPE_DATA, fr_flags = FLAG_END_STREAM, fr_stream = 1, fr_payload = []\<rparr>]
   | Panic \<Rightarrow> False"
  by code_simp

text \<open>A connection error does not stop the loop: a request that follows a frame answered with
  GOAWAY in the same buffer still reaches the handler and is answered.\<close>

lemma h2_serves_after_goaway:
  "case demo_drive [demo_frame TYPE_DATA 0 5 [], demo_frame TYPE_HEADERS (FLAG_END_HEADERS + FLAG_END_STREAM) 1 get_block] of
     Val c \<Rightarrow> map fr_type (h_out c) = [TYPE_SETTINGS, TYPE_GOAWAY, TYPE_HEADERS, TYPE_DATA] \<and> length (h_calls c) = 1
   | Panic \<Rightarrow> False"
  by code_simp

text \<open>A HEADERS frame refused at the concurrency cap is not decoded, so the decoder's table no longer
  follows the peer's; and the cap is applied to the trailers of a stream that is already open, which
  is reset for the peer and stays open here.\<close>

lemma h2_refused_not_decoded:
  assumes "MAX_CONCURRENT \<le> active_streams now c" "sid mod 2 = 1" "\<not> h_peer_goaway c"
    "h_last_stream_id c < sid \<or> get_stream c sid \<noteq> None"
  shows "h_dec (snd (handle_headers env now ip sid flags payload c)) = h_dec c \<and>
     h_streams (snd (handle_headers env now ip sid flags payload c)) = h_streams c"
proof -
  have "sid \<noteq> 0" using assms(2) by (cases sid) auto
  with assms have "handle_headers env now ip sid flags payload c = refuse_stream now sid c"
    by (auto simp: handle_headers_def)
  then show ?thesis
    by (simp add: refuse_stream_def Let_def push_rst_def push_frame_def note_reset_def go_away_def send_goaway_def)
qed

end
