(* ===== verification/Auth_Db.thy ===== *)
theory Auth_Db
  imports Step_System "HOL-Library.List_Lexorder" "HOL-Library.Char_ord"
begin

text \<open>
  The account database of \<open>m6-auth/src/lib.rs\<close>: its five tables, every operation of \<open>Db\<close>, and the
  integrity its schema promises.

  A table is the list of its rows. A statement does what SQL says of it on these tables: an
  \<open>INSERT\<close> that breaks a \<open>PRIMARY KEY\<close>, \<open>UNIQUE\<close> or \<open>REFERENCES\<close> clause is an error and changes
  nothing, a \<open>DELETE\<close> from a referenced table cascades (\<open>PRAGMA foreign_keys=ON\<close>), \<open>ORDER BY\<close>
  sorts by bytes. \<open>adb_fault\<close> is the error every statement returns while the connection is broken.
  bcrypt and the JSON text of the roles are the parameters of \<open>auth_lib\<close>; the UUID a row gets and
  the wall clock are arguments.
\<close>

section \<open>Types\<close>

record user =
  us_id :: string
  us_username :: string
  us_roles :: "string list"
  us_groups :: "string list"
  us_created_at :: int

record group =
  gr_id :: string
  gr_name :: string
  gr_members :: "string list"

record api_token =
  at_id :: string
  at_user_id :: string
  at_username :: string
  at_name :: string
  at_created_at :: int
  at_expires_at :: int

datatype auth_error =
    UserNotFound string
  | UserExists string
  | GroupNotFound string
  | GroupExists string
  | ApiTokenNotFound string
  | DbError string
  | BcryptError string

section \<open>The schema\<close>

record user_row =
  ur_id :: string
  ur_username :: string
  ur_password :: string
  ur_roles :: string
  ur_created_at :: int

record refresh_row =
  rt_token_hash :: string
  rt_user_id :: string
  rt_expires_at :: int

record api_row =
  ar_id :: string
  ar_user_id :: string
  ar_name :: string
  ar_token_hash :: string
  ar_created_at :: int
  ar_expires_at :: int

record auth_db =
  adb_users :: "user_row list"
  adb_groups :: "(string \<times> string) list"
  adb_memberships :: "(string \<times> string) list"
  adb_refresh_tokens :: "refresh_row list"
  adb_api_tokens :: "api_row list"
  adb_fault :: "string option"

definition db_open :: auth_db where
  "db_open = \<lparr>adb_users = [], adb_groups = [], adb_memberships = [], adb_refresh_tokens = [],
     adb_api_tokens = [], adb_fault = None\<rparr>"

record auth_lib =
  al_bcrypt_hash :: "string \<Rightarrow> string + string"
  al_bcrypt_verify :: "string \<Rightarrow> string \<Rightarrow> string + bool"
  al_roles_to_json :: "string list \<Rightarrow> string"
  al_roles_from_json :: "string \<Rightarrow> string list option"

text \<open>A statement on a connection that may be broken.\<close>

definition on_db :: "auth_db \<Rightarrow> (auth_error + 'a) \<Rightarrow> auth_error + 'a" where
  "on_db db r = (case adb_fault db of Some e \<Rightarrow> Inl (DbError e) | None \<Rightarrow> r)"

definition on_db_write :: "auth_db \<Rightarrow> (auth_error + 'a) \<times> auth_db \<Rightarrow> (auth_error + 'a) \<times> auth_db" where
  "on_db_write db r = (case adb_fault db of Some e \<Rightarrow> (Inl (DbError e), db) | None \<Rightarrow> r)"

section \<open>Users\<close>

definition user_groups_by_id :: "auth_db \<Rightarrow> string \<Rightarrow> string list" where
  "user_groups_by_id db user_id =
     [snd g. g \<leftarrow> adb_groups db, m \<leftarrow> adb_memberships db, m = (user_id, fst g)]"

definition row_to_user :: "auth_lib \<Rightarrow> auth_db \<Rightarrow> user_row \<Rightarrow> user" where
  "row_to_user lib db r =
     \<lparr>us_id = ur_id r, us_username = ur_username r,
      us_roles = (case al_roles_from_json lib (ur_roles r) of Some rs \<Rightarrow> rs | None \<Rightarrow> []),
      us_groups = user_groups_by_id db (ur_id r), us_created_at = ur_created_at r\<rparr>"

definition row_by_name :: "auth_db \<Rightarrow> string \<Rightarrow> user_row option" where
  "row_by_name db username = List.find (\<lambda>r. ur_username r = username) (adb_users db)"

definition row_by_id :: "auth_db \<Rightarrow> string \<Rightarrow> user_row option" where
  "row_by_id db user_id = List.find (\<lambda>r. ur_id r = user_id) (adb_users db)"

definition user_create :: "auth_lib \<Rightarrow> string \<Rightarrow> int \<Rightarrow> string \<Rightarrow> string \<Rightarrow> string list \<Rightarrow> auth_db \<Rightarrow>
    (auth_error + user) \<times> auth_db" where
  "user_create lib uuid now username password roles db = on_db_write db
     (if row_by_name db username \<noteq> None then (Inl (UserExists username), db)
      else case al_bcrypt_hash lib password of
        Inl e \<Rightarrow> (Inl (BcryptError e), db)
      | Inr hash \<Rightarrow>
          if row_by_id db uuid \<noteq> None then (Inl (DbError ''UNIQUE constraint failed: users.id''), db)
          else (Inr \<lparr>us_id = uuid, us_username = username, us_roles = roles, us_groups = [],
                     us_created_at = now\<rparr>,
                db\<lparr>adb_users := adb_users db @ [\<lparr>ur_id = uuid, ur_username = username,
                  ur_password = hash, ur_roles = al_roles_to_json lib roles, ur_created_at = now\<rparr>]\<rparr>))"

definition user_get :: "auth_lib \<Rightarrow> string \<Rightarrow> auth_db \<Rightarrow> auth_error + user option" where
  "user_get lib username db = on_db db (Inr (map_option (row_to_user lib db) (row_by_name db username)))"

definition user_get_by_id :: "auth_lib \<Rightarrow> string \<Rightarrow> auth_db \<Rightarrow> auth_error + user option" where
  "user_get_by_id lib user_id db = on_db db (Inr (map_option (row_to_user lib db) (row_by_id db user_id)))"

definition user_list :: "auth_lib \<Rightarrow> auth_db \<Rightarrow> auth_error + user list" where
  "user_list lib db = on_db db (Inr (map (row_to_user lib db) (sort_key ur_username (adb_users db))))"

text \<open>\<open>DELETE FROM users\<close> with the cascade to the three tables that reference it.\<close>

definition user_delete :: "string \<Rightarrow> auth_db \<Rightarrow> (auth_error + unit) \<times> auth_db" where
  "user_delete username db = on_db_write db
     (let gone = map ur_id (filter (\<lambda>r. ur_username r = username) (adb_users db)) in
      if gone = [] then (Inl (UserNotFound username), db)
      else (Inr (), db\<lparr>
        adb_users := filter (\<lambda>r. ur_username r \<noteq> username) (adb_users db),
        adb_memberships := filter (\<lambda>m. fst m \<notin> set gone) (adb_memberships db),
        adb_refresh_tokens := filter (\<lambda>t. rt_user_id t \<notin> set gone) (adb_refresh_tokens db),
        adb_api_tokens := filter (\<lambda>t. ar_user_id t \<notin> set gone) (adb_api_tokens db)\<rparr>))"

definition update_user :: "string \<Rightarrow> (user_row \<Rightarrow> user_row) \<Rightarrow> auth_db \<Rightarrow> (auth_error + unit) \<times> auth_db" where
  "update_user username f db =
     (if row_by_name db username = None then (Inl (UserNotFound username), db)
      else (Inr (), db\<lparr>adb_users := map (\<lambda>r. if ur_username r = username then f r else r) (adb_users db)\<rparr>))"

definition user_set_password :: "auth_lib \<Rightarrow> string \<Rightarrow> string \<Rightarrow> auth_db \<Rightarrow> (auth_error + unit) \<times> auth_db" where
  "user_set_password lib username password db = (case al_bcrypt_hash lib password of
     Inl e \<Rightarrow> (Inl (BcryptError e), db)
   | Inr hash \<Rightarrow> on_db_write db (update_user username (\<lambda>r. r\<lparr>ur_password := hash\<rparr>) db))"

definition user_set_roles :: "auth_lib \<Rightarrow> string \<Rightarrow> string list \<Rightarrow> auth_db \<Rightarrow> (auth_error + unit) \<times> auth_db" where
  "user_set_roles lib username roles db =
     on_db_write db (update_user username (\<lambda>r. r\<lparr>ur_roles := al_roles_to_json lib roles\<rparr>) db)"

definition user_verify_password :: "auth_lib \<Rightarrow> string \<Rightarrow> string \<Rightarrow> auth_db \<Rightarrow> auth_error + user option" where
  "user_verify_password lib username password db = on_db db (case row_by_name db username of
     None \<Rightarrow> Inr None
   | Some r \<Rightarrow> (case al_bcrypt_verify lib password (ur_password r) of
       Inl e \<Rightarrow> Inl (BcryptError e)
     | Inr valid \<Rightarrow> if valid then Inr (Some (row_to_user lib db r)) else Inr None))"

section \<open>Groups\<close>

definition group_id_by_name :: "auth_db \<Rightarrow> string \<Rightarrow> auth_error + string" where
  "group_id_by_name db name = on_db db (case List.find (\<lambda>g. snd g = name) (adb_groups db) of
     Some g \<Rightarrow> Inr (fst g)
   | None \<Rightarrow> Inl (GroupNotFound name))"

definition user_id_by_name :: "auth_db \<Rightarrow> string \<Rightarrow> auth_error + string" where
  "user_id_by_name db username = on_db db (case row_by_name db username of
     Some r \<Rightarrow> Inr (ur_id r)
   | None \<Rightarrow> Inl (UserNotFound username))"

definition member_rows :: "auth_db \<Rightarrow> string \<Rightarrow> user_row list" where
  "member_rows db group_id = sort_key ur_username
     [r. r \<leftarrow> adb_users db, m \<leftarrow> adb_memberships db, m = (ur_id r, group_id)]"

definition group_member_names_by_id :: "auth_db \<Rightarrow> string \<Rightarrow> string list" where
  "group_member_names_by_id db group_id = map ur_username (member_rows db group_id)"

definition group_create :: "string \<Rightarrow> string \<Rightarrow> auth_db \<Rightarrow> (auth_error + group) \<times> auth_db" where
  "group_create uuid name db = on_db_write db
     (if List.find (\<lambda>g. snd g = name) (adb_groups db) \<noteq> None then (Inl (GroupExists name), db)
      else if List.find (\<lambda>g. fst g = uuid) (adb_groups db) \<noteq> None
      then (Inl (DbError ''UNIQUE constraint failed: groups.id''), db)
      else (Inr \<lparr>gr_id = uuid, gr_name = name, gr_members = []\<rparr>,
            db\<lparr>adb_groups := adb_groups db @ [(uuid, name)]\<rparr>))"

definition group_get :: "string \<Rightarrow> auth_db \<Rightarrow> auth_error + group option" where
  "group_get name db = on_db db (Inr (map_option
     (\<lambda>g. \<lparr>gr_id = fst g, gr_name = snd g, gr_members = group_member_names_by_id db (fst g)\<rparr>)
     (List.find (\<lambda>g. snd g = name) (adb_groups db))))"

definition group_list :: "auth_db \<Rightarrow> auth_error + group list" where
  "group_list db = on_db db (Inr (map
     (\<lambda>g. \<lparr>gr_id = fst g, gr_name = snd g, gr_members = group_member_names_by_id db (fst g)\<rparr>)
     (sort_key snd (adb_groups db))))"

definition group_delete :: "string \<Rightarrow> auth_db \<Rightarrow> (auth_error + unit) \<times> auth_db" where
  "group_delete name db = on_db_write db
     (let gone = map fst (filter (\<lambda>g. snd g = name) (adb_groups db)) in
      if gone = [] then (Inl (GroupNotFound name), db)
      else (Inr (), db\<lparr>
        adb_groups := filter (\<lambda>g. snd g \<noteq> name) (adb_groups db),
        adb_memberships := filter (\<lambda>m. snd m \<notin> set gone) (adb_memberships db)\<rparr>))"

definition with_membership :: "string \<Rightarrow> string \<Rightarrow> (string \<times> string \<Rightarrow> auth_db \<Rightarrow> auth_db) \<Rightarrow> auth_db \<Rightarrow>
    (auth_error + unit) \<times> auth_db" where
  "with_membership gname username f db = (case group_id_by_name db gname of
     Inl e \<Rightarrow> (Inl e, db)
   | Inr group_id \<Rightarrow> (case user_id_by_name db username of
       Inl e \<Rightarrow> (Inl e, db)
     | Inr user_id \<Rightarrow> on_db_write db (Inr (), f (user_id, group_id) db)))"

definition group_member_add :: "string \<Rightarrow> string \<Rightarrow> auth_db \<Rightarrow> (auth_error + unit) \<times> auth_db" where
  "group_member_add gname username = with_membership gname username
     (\<lambda>m db. if m \<in> set (adb_memberships db) then db
             else db\<lparr>adb_memberships := adb_memberships db @ [m]\<rparr>)"

definition group_member_remove :: "string \<Rightarrow> string \<Rightarrow> auth_db \<Rightarrow> (auth_error + unit) \<times> auth_db" where
  "group_member_remove gname username = with_membership gname username
     (\<lambda>m db. db\<lparr>adb_memberships := filter (\<lambda>m'. m' \<noteq> m) (adb_memberships db)\<rparr>)"

definition group_members :: "auth_lib \<Rightarrow> string \<Rightarrow> auth_db \<Rightarrow> auth_error + user list" where
  "group_members lib gname db = (case group_id_by_name db gname of
     Inl e \<Rightarrow> Inl e
   | Inr group_id \<Rightarrow> on_db db (Inr (map (row_to_user lib db) (member_rows db group_id))))"

definition user_groups :: "string \<Rightarrow> auth_db \<Rightarrow> auth_error + string list" where
  "user_groups username db = (case user_id_by_name db username of
     Inl e \<Rightarrow> Inl e
   | Inr user_id \<Rightarrow> on_db db (Inr (user_groups_by_id db user_id)))"

section \<open>Refresh tokens\<close>

definition refresh_token_store :: "string \<Rightarrow> string \<Rightarrow> int \<Rightarrow> auth_db \<Rightarrow> (auth_error + unit) \<times> auth_db" where
  "refresh_token_store user_id token_hash expires_at db = on_db_write db
     (if row_by_id db user_id = None then (Inl (DbError ''FOREIGN KEY constraint failed''), db)
      else (Inr (), db\<lparr>adb_refresh_tokens :=
        filter (\<lambda>t. rt_token_hash t \<noteq> token_hash) (adb_refresh_tokens db) @
        [\<lparr>rt_token_hash = token_hash, rt_user_id = user_id, rt_expires_at = expires_at\<rparr>]\<rparr>))"

definition refresh_token_verify :: "int \<Rightarrow> string \<Rightarrow> auth_db \<Rightarrow> auth_error + string option" where
  "refresh_token_verify now token_hash db = on_db db (Inr (map_option rt_user_id
     (List.find (\<lambda>t. rt_token_hash t = token_hash \<and> now < rt_expires_at t) (adb_refresh_tokens db))))"

definition refresh_token_revoke :: "string \<Rightarrow> auth_db \<Rightarrow> (auth_error + unit) \<times> auth_db" where
  "refresh_token_revoke token_hash db = on_db_write db (Inr (),
     db\<lparr>adb_refresh_tokens := filter (\<lambda>t. rt_token_hash t \<noteq> token_hash) (adb_refresh_tokens db)\<rparr>)"

definition refresh_tokens_revoke_all :: "string \<Rightarrow> auth_db \<Rightarrow> (auth_error + unit) \<times> auth_db" where
  "refresh_tokens_revoke_all user_id db = on_db_write db (Inr (),
     db\<lparr>adb_refresh_tokens := filter (\<lambda>t. rt_user_id t \<noteq> user_id) (adb_refresh_tokens db)\<rparr>)"

section \<open>API tokens\<close>

definition api_token_create :: "string \<Rightarrow> int \<Rightarrow> string \<Rightarrow> string \<Rightarrow> string \<Rightarrow> string \<Rightarrow> int \<Rightarrow> auth_db \<Rightarrow>
    (auth_error + api_token) \<times> auth_db" where
  "api_token_create uuid now user_id username name token_hash expires_at db = on_db_write db
     (if List.find (\<lambda>t. ar_id t = uuid) (adb_api_tokens db) \<noteq> None
      then (Inl (DbError ''UNIQUE constraint failed: api_tokens.id''), db)
      else if List.find (\<lambda>t. ar_token_hash t = token_hash) (adb_api_tokens db) \<noteq> None
      then (Inl (DbError ''UNIQUE constraint failed: api_tokens.token_hash''), db)
      else if row_by_id db user_id = None then (Inl (DbError ''FOREIGN KEY constraint failed''), db)
      else (Inr \<lparr>at_id = uuid, at_user_id = user_id, at_username = username, at_name = name,
                 at_created_at = now, at_expires_at = expires_at\<rparr>,
            db\<lparr>adb_api_tokens := adb_api_tokens db @ [\<lparr>ar_id = uuid, ar_user_id = user_id, ar_name = name,
              ar_token_hash = token_hash, ar_created_at = now, ar_expires_at = expires_at\<rparr>]\<rparr>))"

definition api_token_list :: "string \<Rightarrow> auth_db \<Rightarrow> auth_error + api_token list" where
  "api_token_list username db = (case user_id_by_name db username of
     Inl e \<Rightarrow> Inl e
   | Inr user_id \<Rightarrow> on_db db (Inr (map
       (\<lambda>t. \<lparr>at_id = ar_id t, at_user_id = ar_user_id t, at_username = username, at_name = ar_name t,
             at_created_at = ar_created_at t, at_expires_at = ar_expires_at t\<rparr>)
       (sort_key (\<lambda>t. - ar_created_at t) (filter (\<lambda>t. ar_user_id t = user_id) (adb_api_tokens db))))))"

definition api_token_revoke :: "string \<Rightarrow> auth_db \<Rightarrow> (auth_error + unit) \<times> auth_db" where
  "api_token_revoke token_id db = on_db_write db
     (if List.find (\<lambda>t. ar_id t = token_id) (adb_api_tokens db) = None
      then (Inl (ApiTokenNotFound token_id), db)
      else (Inr (), db\<lparr>adb_api_tokens := filter (\<lambda>t. ar_id t \<noteq> token_id) (adb_api_tokens db)\<rparr>))"

section \<open>Integrity\<close>

definition db_ok :: "auth_db \<Rightarrow> bool" where
  "db_ok db \<longleftrightarrow>
     distinct (map ur_id (adb_users db)) \<and> distinct (map ur_username (adb_users db)) \<and>
     distinct (map fst (adb_groups db)) \<and> distinct (map snd (adb_groups db)) \<and>
     distinct (adb_memberships db) \<and>
     (\<forall>(u, g) \<in> set (adb_memberships db). u \<in> ur_id ` set (adb_users db) \<and> g \<in> fst ` set (adb_groups db)) \<and>
     distinct (map rt_token_hash (adb_refresh_tokens db)) \<and>
     rt_user_id ` set (adb_refresh_tokens db) \<subseteq> ur_id ` set (adb_users db) \<and>
     distinct (map ar_id (adb_api_tokens db)) \<and> distinct (map ar_token_hash (adb_api_tokens db)) \<and>
     ar_user_id ` set (adb_api_tokens db) \<subseteq> ur_id ` set (adb_users db)"

text \<open>One operation on the database, by any service or tool; a connection may break and recover.\<close>

inductive db_step :: "auth_db \<Rightarrow> auth_db \<Rightarrow> bool" where
  create_user: "user_create lib uuid now username password roles db = (r, db') \<Longrightarrow> db_step db db'"
| delete_user: "user_delete username db = (r, db') \<Longrightarrow> db_step db db'"
| set_password: "user_set_password lib username password db = (r, db') \<Longrightarrow> db_step db db'"
| set_roles: "user_set_roles lib username roles db = (r, db') \<Longrightarrow> db_step db db'"
| create_group: "group_create uuid name db = (r, db') \<Longrightarrow> db_step db db'"
| delete_group: "group_delete name db = (r, db') \<Longrightarrow> db_step db db'"
| add_member: "group_member_add name username db = (r, db') \<Longrightarrow> db_step db db'"
| remove_member: "group_member_remove name username db = (r, db') \<Longrightarrow> db_step db db'"
| store_refresh: "refresh_token_store user_id token_hash expires_at db = (r, db') \<Longrightarrow> db_step db db'"
| revoke_refresh: "refresh_token_revoke token_hash db = (r, db') \<Longrightarrow> db_step db db'"
| revoke_all_refresh: "refresh_tokens_revoke_all user_id db = (r, db') \<Longrightarrow> db_step db db'"
| create_api: "api_token_create uuid now user_id username name token_hash expires_at db = (r, db') \<Longrightarrow>
    db_step db db'"
| revoke_api: "api_token_revoke token_id db = (r, db') \<Longrightarrow> db_step db db'"
| fault: "db_step db (db\<lparr>adb_fault := f\<rparr>)"

lemma on_db_write_eq [simp]: "on_db_write db (r, db') =
    (case adb_fault db of Some e \<Rightarrow> (Inl (DbError e), db) | None \<Rightarrow> (r, db'))"
  by (simp add: on_db_write_def)

lemma find_None_image: "List.find (\<lambda>r. f r = x) xs = None \<longleftrightarrow> x \<notin> f ` set xs"
  by (auto simp: find_None_iff)

lemma find_Some_distinct:
  "distinct (map f xs) \<Longrightarrow> List.find (\<lambda>r. f r = x) xs = Some r \<longleftrightarrow> r \<in> set xs \<and> f r = x"
  by (induction xs) (auto simp: image_iff)

lemma filter_image_subset: "f ` set (filter P xs) \<subseteq> f ` set xs"
  by auto

lemma db_ok_create_user:
  "user_create lib uuid now username password roles db = (r, db') \<Longrightarrow> db_ok db \<Longrightarrow> db_ok db'"
  by (auto simp: user_create_def on_db_write_def db_ok_def row_by_name_def row_by_id_def find_None_image
      image_subset_iff split: option.splits if_splits sum.splits)

lemma db_ok_users:
  assumes "map ur_id us = map ur_id (adb_users db)" "map ur_username us = map ur_username (adb_users db)"
  shows "db_ok (db\<lparr>adb_users := us\<rparr>) = db_ok db"
proof -
  have "ur_id ` set us = ur_id ` set (adb_users db)" using assms(1) by (metis list.set_map)
  with assms show ?thesis by (simp add: db_ok_def)
qed

lemma db_ok_update:
  "update_user username f db = (r, db') \<Longrightarrow> (\<And>r. ur_id (f r) = ur_id r \<and> ur_username (f r) = ur_username r) \<Longrightarrow>
   db_ok db \<Longrightarrow> db_ok db'"
  by (auto simp: update_user_def db_ok_users split: if_splits)

lemma db_ok_set_password: "user_set_password lib username password db = (r, db') \<Longrightarrow> db_ok db \<Longrightarrow> db_ok db'"
  by (auto simp: user_set_password_def on_db_write_def split: option.splits sum.splits elim!: db_ok_update)

lemma db_ok_set_roles: "user_set_roles lib username roles db = (r, db') \<Longrightarrow> db_ok db \<Longrightarrow> db_ok db'"
  by (auto simp: user_set_roles_def on_db_write_def split: option.splits elim!: db_ok_update)

lemma user_delete_eq:
  assumes "user_delete username db = (r, db')"
  shows "r \<noteq> Inr () \<and> db' = db \<or>
    r = Inr () \<and> filter (\<lambda>r. ur_username r = username) (adb_users db) \<noteq> [] \<and> db' = db\<lparr>
        adb_users := filter (\<lambda>r. ur_username r \<noteq> username) (adb_users db),
        adb_memberships := filter (\<lambda>m. fst m \<notin> ur_id ` {r \<in> set (adb_users db). ur_username r = username}) (adb_memberships db),
        adb_refresh_tokens := filter (\<lambda>t. rt_user_id t \<notin> ur_id ` {r \<in> set (adb_users db). ur_username r = username}) (adb_refresh_tokens db),
        adb_api_tokens := filter (\<lambda>t. ar_user_id t \<notin> ur_id ` {r \<in> set (adb_users db). ur_username r = username}) (adb_api_tokens db)\<rparr>"
  using assms by (auto simp: user_delete_def on_db_write_def Let_def split: option.splits if_splits)

lemma db_ok_delete_user:
  assumes "user_delete username db = (r, db')" "db_ok db"
  shows "db_ok db'"
proof (cases "db' = db")
  case False
  then have db': "db' = db\<lparr>
        adb_users := filter (\<lambda>r. ur_username r \<noteq> username) (adb_users db),
        adb_memberships := filter (\<lambda>m. fst m \<notin> ur_id ` {r \<in> set (adb_users db). ur_username r = username}) (adb_memberships db),
        adb_refresh_tokens := filter (\<lambda>t. rt_user_id t \<notin> ur_id ` {r \<in> set (adb_users db). ur_username r = username}) (adb_refresh_tokens db),
        adb_api_tokens := filter (\<lambda>t. ar_user_id t \<notin> ur_id ` {r \<in> set (adb_users db). ur_username r = username}) (adb_api_tokens db)\<rparr>"
    using user_delete_eq [OF assms(1)] by blast
  have kept: "x \<in> ur_id ` set (adb_users db) \<Longrightarrow> x \<notin> ur_id ` {r \<in> set (adb_users db). ur_username r = username} \<Longrightarrow>
      x \<in> ur_id ` {r \<in> set (adb_users db). ur_username r \<noteq> username}" for x
    by auto
  show ?thesis
    using assms(2) unfolding db' db_ok_def
    by (simp add: distinct_map_filter image_subset_iff) (auto intro!: kept)
qed (use assms(2) in simp)

lemma db_ok_create_group: "group_create uuid name db = (r, db') \<Longrightarrow> db_ok db \<Longrightarrow> db_ok db'"
  by (auto simp: group_create_def db_ok_def find_None_image image_subset_iff split: option.splits if_splits)

lemma db_ok_delete_group:
  assumes "group_delete name db = (r, db')" "db_ok db"
  shows "db_ok db'"
proof (cases "db' = db")
  case False
  let ?gone = "map fst (filter (\<lambda>g. snd g = name) (adb_groups db))"
  have db': "db' = db\<lparr>
        adb_groups := filter (\<lambda>g. snd g \<noteq> name) (adb_groups db),
        adb_memberships := filter (\<lambda>m. snd m \<notin> set ?gone) (adb_memberships db)\<rparr>"
    using assms(1) False by (auto simp: group_delete_def on_db_write_def Let_def split: option.splits if_splits)
  have kept: "x \<in> fst ` set (adb_groups db) \<Longrightarrow> x \<notin> fst ` {g \<in> set (adb_groups db). snd g = name} \<Longrightarrow>
      x \<in> fst ` {g \<in> set (adb_groups db). snd g \<noteq> name}" for x
    by auto
  show ?thesis
    using assms(2) unfolding db' db_ok_def
    by (simp add: distinct_map_filter image_subset_iff) (auto intro!: kept)
qed (use assms(2) in simp)

lemma with_membership_ids:
  assumes "with_membership gname username f db = (r, db')" "db' \<noteq> db"
  obtains u g where "db' = f (u, g) db" "u \<in> ur_id ` set (adb_users db)" "g \<in> fst ` set (adb_groups db)"
  using assms
  by (auto simp: with_membership_def group_id_by_name_def user_id_by_name_def row_by_name_def on_db_def
      find_Some_iff split: sum.splits option.splits if_splits)

lemma db_ok_add_member:
  assumes "group_member_add name username db = (r, db')" "db_ok db"
  shows "db_ok db'"
proof (cases "db' = db")
  case False
  obtain u g where "db' = (if (u, g) \<in> set (adb_memberships db) then db
      else db\<lparr>adb_memberships := adb_memberships db @ [(u, g)]\<rparr>)"
    "u \<in> ur_id ` set (adb_users db)" "g \<in> fst ` set (adb_groups db)"
    using with_membership_ids [OF assms(1) [unfolded group_member_add_def] False] by blast
  then show ?thesis using assms(2) by (simp add: db_ok_def)
qed (use assms(2) in simp)

lemma db_ok_remove_member:
  assumes "group_member_remove name username db = (r, db')" "db_ok db"
  shows "db_ok db'"
proof (cases "db' = db")
  case False
  obtain m where "db' = db\<lparr>adb_memberships := filter (\<lambda>m'. m' \<noteq> m) (adb_memberships db)\<rparr>"
    using with_membership_ids [OF assms(1) [unfolded group_member_remove_def] False] by blast
  then show ?thesis using assms(2) by (simp add: db_ok_def)
qed (use assms(2) in simp)

lemma db_ok_store_refresh:
  "refresh_token_store user_id token_hash expires_at db = (r, db') \<Longrightarrow> db_ok db \<Longrightarrow> db_ok db'"
  by (auto simp: refresh_token_store_def on_db_write_def db_ok_def row_by_id_def find_None_image
      image_subset_iff distinct_map_filter split: option.splits if_splits)

lemma db_ok_revoke_refresh: "refresh_token_revoke token_hash db = (r, db') \<Longrightarrow> db_ok db \<Longrightarrow> db_ok db'"
  by (auto simp: refresh_token_revoke_def db_ok_def image_subset_iff distinct_map_filter split: option.splits)

lemma db_ok_revoke_all_refresh: "refresh_tokens_revoke_all user_id db = (r, db') \<Longrightarrow> db_ok db \<Longrightarrow> db_ok db'"
  by (auto simp: refresh_tokens_revoke_all_def db_ok_def image_subset_iff distinct_map_filter split: option.splits)

lemma db_ok_create_api:
  "api_token_create uuid now user_id username name token_hash expires_at db = (r, db') \<Longrightarrow> db_ok db \<Longrightarrow> db_ok db'"
  by (auto simp: api_token_create_def on_db_write_def db_ok_def row_by_id_def find_None_image
      image_subset_iff split: option.splits if_splits)

lemma db_ok_revoke_api: "api_token_revoke token_id db = (r, db') \<Longrightarrow> db_ok db \<Longrightarrow> db_ok db'"
  by (auto simp: api_token_revoke_def on_db_write_def db_ok_def image_subset_iff distinct_map_filter
      split: option.splits if_splits)

lemmas db_ok_ops = db_ok_create_user db_ok_delete_user db_ok_set_password db_ok_set_roles
  db_ok_create_group db_ok_delete_group db_ok_add_member db_ok_remove_member db_ok_store_refresh
  db_ok_revoke_refresh db_ok_revoke_all_refresh db_ok_create_api db_ok_revoke_api

interpretation accounts: step_invariant "\<lambda>db. db = db_open" db_step db_ok
proof
  fix db assume "db = db_open" then show "db_ok db" by (simp add: db_open_def db_ok_def)
next
  fix db db' assume "db_ok db" "db_step db db'"
  from this(2,1) show "db_ok db'"
    by (cases rule: db_step.cases) (erule (1) db_ok_ops | simp add: db_ok_def)+
qed

section \<open>Sessions\<close>

text \<open>The abstract state of the refresh tokens at a time: whose session each token hash is.\<close>

definition sessions :: "int \<Rightarrow> auth_db \<Rightarrow> string \<Rightarrow> string option" where
  "sessions now db h = map_option rt_user_id
     (List.find (\<lambda>t. rt_token_hash t = h \<and> now < rt_expires_at t) (adb_refresh_tokens db))"

lemma sessions_iff:
  assumes "db_ok db"
  shows "sessions now db h = Some u \<longleftrightarrow>
    (\<exists>t \<in> set (adb_refresh_tokens db). rt_token_hash t = h \<and> rt_user_id t = u \<and> now < rt_expires_at t)"
proof -
  have d: "distinct (map rt_token_hash (adb_refresh_tokens db))" using assms by (simp add: db_ok_def)
  have "List.find (\<lambda>t. rt_token_hash t = h \<and> now < rt_expires_at t) ts = Some t \<longleftrightarrow>
      t \<in> set ts \<and> rt_token_hash t = h \<and> now < rt_expires_at t"
    if "distinct (map rt_token_hash ts)" for ts t
    using that by (induction ts) (auto simp: image_iff)
  from this [OF d] show ?thesis by (auto simp: sessions_def)
qed

lemma refresh_token_verify_sessions: "adb_fault db = None \<Longrightarrow> refresh_token_verify now h db = Inr (sessions now db h)"
  by (simp add: refresh_token_verify_def sessions_def on_db_def)

lemma sessions_upd:
  assumes "db_ok db" "db_ok db'"
    and "\<And>t. t \<in> set (adb_refresh_tokens db') \<longleftrightarrow> t \<in> set (adb_refresh_tokens db) \<and> keep t"
  shows "sessions now db' h = Some u \<longleftrightarrow> sessions now db h = Some u \<and>
    (\<exists>t \<in> set (adb_refresh_tokens db). rt_token_hash t = h \<and> rt_user_id t = u \<and> now < rt_expires_at t \<and> keep t)"
  using assms by (auto simp: sessions_iff)

lemma option_eqI: "(\<And>u. a = Some u \<longleftrightarrow> b = Some u) \<Longrightarrow> a = b"
  by (cases a; cases b) auto

lemma sessions_store:
  assumes ok: "db_ok db" and op: "refresh_token_store user_id token_hash expires_at db = (Inr (), db')"
  shows "sessions now db' = (sessions now db)(token_hash := if now < expires_at then Some user_id else None)"
proof
  fix h
  have db': "db_ok db'" "adb_refresh_tokens db' = filter (\<lambda>t. rt_token_hash t \<noteq> token_hash) (adb_refresh_tokens db) @
        [\<lparr>rt_token_hash = token_hash, rt_user_id = user_id, rt_expires_at = expires_at\<rparr>]"
    using db_ok_store_refresh [OF op ok] op
    by (auto simp: refresh_token_store_def on_db_write_def split: option.splits if_splits)
  show "sessions now db' h = ((sessions now db)(token_hash := if now < expires_at then Some user_id else None)) h"
    by (rule option_eqI) (auto simp: sessions_iff [OF ok] sessions_iff [OF db'(1)] db'(2))
qed

lemma sessions_revoke:
  assumes ok: "db_ok db" and op: "refresh_token_revoke token_hash db = (Inr (), db')"
  shows "sessions now db' = (sessions now db)(token_hash := None)"
proof
  fix h
  have db': "db_ok db'" "adb_refresh_tokens db' = filter (\<lambda>t. rt_token_hash t \<noteq> token_hash) (adb_refresh_tokens db)"
    using db_ok_revoke_refresh [OF op ok] op by (auto simp: refresh_token_revoke_def split: option.splits)
  show "sessions now db' h = ((sessions now db)(token_hash := None)) h"
    by (rule option_eqI) (auto simp: sessions_iff [OF ok] sessions_iff [OF db'(1)] db'(2))
qed

lemma sessions_revoke_all:
  assumes ok: "db_ok db" and op: "refresh_tokens_revoke_all user_id db = (Inr (), db')"
  shows "sessions now db' = (\<lambda>h. if sessions now db h = Some user_id then None else sessions now db h)"
proof
  fix h
  have db': "db_ok db'" "adb_refresh_tokens db' = filter (\<lambda>t. rt_user_id t \<noteq> user_id) (adb_refresh_tokens db)"
    using db_ok_revoke_all_refresh [OF op ok] op by (auto simp: refresh_tokens_revoke_all_def split: option.splits)
  have "inj_on rt_token_hash (set (adb_refresh_tokens db))" using ok by (simp add: db_ok_def distinct_map)
  then show "sessions now db' h = (if sessions now db h = Some user_id then None else sessions now db h)"
    by (intro option_eqI) (auto simp: sessions_iff [OF ok] sessions_iff [OF db'(1)] db'(2) dest: inj_onD)
qed

lemma user_delete_tables:
  assumes op: "user_delete username db = (Inr (), db')" and ok: "db_ok db"
  obtains r where "row_by_name db username = Some r"
    "adb_users db' = filter (\<lambda>r'. ur_id r' \<noteq> ur_id r) (adb_users db)"
    "adb_memberships db' = filter (\<lambda>m. fst m \<noteq> ur_id r) (adb_memberships db)"
    "adb_refresh_tokens db' = filter (\<lambda>t. rt_user_id t \<noteq> ur_id r) (adb_refresh_tokens db)"
    "adb_api_tokens db' = filter (\<lambda>t. ar_user_id t \<noteq> ur_id r) (adb_api_tokens db)"
    "adb_groups db' = adb_groups db" "adb_fault db' = adb_fault db"
proof -
  let ?hit = "\<lambda>r. ur_username r = username"
  obtain r where r: "r \<in> set (adb_users db)" "ur_username r = username"
    using user_delete_eq [OF op] by (auto simp: filter_empty_conv)
  have d: "distinct (map ur_username (adb_users db))" "distinct (map ur_id (adb_users db))"
    using ok by (simp_all add: db_ok_def)
  have hit: "?hit x \<longleftrightarrow> x = r" "ur_id x = ur_id r \<longleftrightarrow> x = r" if "x \<in> set (adb_users db)" for x
    using d r that by (auto simp: distinct_map inj_on_def)
  have one: "ur_id ` {x \<in> set (adb_users db). ?hit x} = {ur_id r}" using hit(1) r by auto
  have rest: "filter (\<lambda>x. \<not> ?hit x) (adb_users db) = filter (\<lambda>r'. ur_id r' \<noteq> ur_id r) (adb_users db)"
    using hit by (intro filter_cong) auto
  have "row_by_name db username = Some r"
    using d(1) r by (simp add: row_by_name_def find_Some_distinct)
  then show thesis
    using user_delete_eq [OF op] unfolding one rest by (intro that [of r]) simp_all
qed

lemma row_by_name_delete:
  assumes "db_ok db" "row_by_name db username = Some r"
    "adb_users db' = filter (\<lambda>r'. ur_id r' \<noteq> ur_id r) (adb_users db)"
  shows "row_by_name db' name = (if name = username then None else row_by_name db name)"
proof -
  have d: "distinct (map ur_username (adb_users db))" "distinct (map ur_id (adb_users db))"
    using assms(1) by (simp_all add: db_ok_def)
  have r: "r \<in> set (adb_users db)" "ur_username r = username"
    using assms(2) d(1) by (simp_all add: row_by_name_def find_Some_distinct)
  have d': "distinct (map ur_username (adb_users db'))" using d(1) by (simp add: assms(3) distinct_map_filter)
  have uniq: "ur_id x = ur_id r \<longleftrightarrow> ur_username x = username" if "x \<in> set (adb_users db)" for x
    using d r that by (auto simp: distinct_map inj_on_def)
  show ?thesis
    by (rule option_eqI) (auto simp: row_by_name_def find_Some_distinct [OF d' [unfolded assms(3)]] find_Some_distinct [OF d(1)] assms(3) uniq)
qed

text \<open>C15. The database keeps the integrity its schema declares through every operation, every error
  and every broken connection: identifiers, user names, group names and token hashes are unique,
  a membership names a user and a group that exist, and every token belongs to a user that exists.\<close>

theorem auth_db_integrity:
  assumes "reachable (\<lambda>db. db = db_open) db_step db"
  shows "db_ok db"
  using accounts.inv_reachable [OF assms] .

definition demo_lib :: auth_lib where
  "demo_lib = \<lparr>al_bcrypt_hash = (\<lambda>p. Inr (''$'' @ p)), al_bcrypt_verify = (\<lambda>p h. Inr (h = ''$'' @ p)),
     al_roles_to_json = concat, al_roles_from_json = (\<lambda>s. Some [s])\<rparr>"

definition demo_db :: auth_db where
  "demo_db = snd (refresh_token_store ''u1'' ''h1'' 100
     (snd (user_create demo_lib ''u1'' 5 ''alice'' ''pw'' [''admin''] db_open)))"

lemma demo_db_reachable: "reachable (\<lambda>db. db = db_open) db_step demo_db"
proof -
  let ?db = "snd (user_create demo_lib ''u1'' 5 ''alice'' ''pw'' [''admin''] db_open)"
  have "db_step db_open ?db" by (rule db_step.create_user) (rule prod.collapse [symmetric])
  moreover have "db_step ?db demo_db"
    unfolding demo_db_def by (rule db_step.store_refresh) (rule prod.collapse [symmetric])
  moreover have "reachable (\<lambda>db. db = db_open) db_step db_open" by (rule reachable_init) (rule refl)
  ultimately show ?thesis using reachable_step by metis
qed

theorem auth_db_integrity_witness: "db_ok demo_db \<and> sessions 7 demo_db ''h1'' = Some ''u1''"
proof
  show "db_ok demo_db" by (rule auth_db_integrity [OF demo_db_reachable])
  show "sessions 7 demo_db ''h1'' = Some ''u1''" by code_simp
qed

text \<open>Deleting a user removes the account and everything that belongs to it, and nothing else:
  the name is free, every session and API token of the user is gone, and every other account, its
  groups and its sessions are as they were.\<close>

theorem user_delete_complete:
  assumes "reachable (\<lambda>db. db = db_open) db_step db" "user_delete username db = (Inr (), db')"
  shows "\<exists>r. row_by_name db username = Some r \<and>
    (\<forall>name. user_get lib name db' = (if name = username then Inr None else user_get lib name db)) \<and>
    (\<forall>now h. sessions now db' h = (if sessions now db h = Some (ur_id r) then None else sessions now db h)) \<and>
    adb_api_tokens db' = filter (\<lambda>t. ar_user_id t \<noteq> ur_id r) (adb_api_tokens db)"
proof -
  have ok: "db_ok db" using accounts.inv_reachable [OF assms(1)] .
  have ok': "db_ok db'" using db_ok_delete_user [OF assms(2) ok] .
  obtain r where r: "row_by_name db username = Some r"
    "adb_users db' = filter (\<lambda>r'. ur_id r' \<noteq> ur_id r) (adb_users db)"
    "adb_memberships db' = filter (\<lambda>m. fst m \<noteq> ur_id r) (adb_memberships db)"
    "adb_refresh_tokens db' = filter (\<lambda>t. rt_user_id t \<noteq> ur_id r) (adb_refresh_tokens db)"
    "adb_api_tokens db' = filter (\<lambda>t. ar_user_id t \<noteq> ur_id r) (adb_api_tokens db)"
    "adb_groups db' = adb_groups db" "adb_fault db' = adb_fault db"
    using user_delete_tables [OF assms(2) ok] .
  have fault: "adb_fault db = None"
    using assms(2) by (auto simp: user_delete_def on_db_write_def split: option.splits)
  have d: "distinct (map ur_username (adb_users db))" "distinct (map ur_id (adb_users db))"
    using ok by (simp_all add: db_ok_def)
  have rr: "r \<in> set (adb_users db)" "ur_username r = username"
    using r(1) d(1) by (simp_all add: row_by_name_def find_Some_distinct)
  have groups: "user_groups_by_id db' (ur_id q) = user_groups_by_id db (ur_id q)" if "ur_id q \<noteq> ur_id r" for q
  proof -
    have "concat (map (\<lambda>m. if m = (ur_id q, fst g) then [snd g] else []) (filter (\<lambda>m. fst m \<noteq> ur_id r) ms)) =
      concat (map (\<lambda>m. if m = (ur_id q, fst g) then [snd g] else []) ms)" for ms :: "(string \<times> string) list" and g :: "string \<times> string"
      using that by (induction ms) auto
    then show ?thesis by (simp add: user_groups_by_id_def r)
  qed
  have "user_get lib name db' = (if name = username then Inr None else user_get lib name db)" for name
  proof (cases "name = username \<or> row_by_name db name = None")
    case False
    then obtain q where q: "row_by_name db name = Some q" by auto
    then have "q \<in> set (adb_users db)" "ur_username q = name"
      using d(1) by (simp_all add: row_by_name_def find_Some_distinct)
    then have "ur_id q \<noteq> ur_id r" using False rr d by (auto simp: distinct_map inj_on_def)
    with False q show ?thesis
      by (simp add: user_get_def on_db_def fault r(7) row_by_name_delete [OF ok r(1,2)] row_to_user_def groups)
  qed (auto simp: user_get_def on_db_def fault r(7) row_by_name_delete [OF ok r(1,2)])
  moreover have "sessions now db' h = (if sessions now db h = Some (ur_id r) then None else sessions now db h)" for now h
  proof -
    have "inj_on rt_token_hash (set (adb_refresh_tokens db))" using ok by (simp add: db_ok_def distinct_map)
    then show ?thesis
      by (intro option_eqI) (auto simp: sessions_iff [OF ok] sessions_iff [OF ok'] r(4) dest: inj_onD)
  qed
  ultimately show ?thesis using r(1,5) by blast
qed

theorem user_delete_complete_witness:
  "fst (user_delete ''alice'' demo_db) = Inr () \<and>
   user_get demo_lib ''alice'' (snd (user_delete ''alice'' demo_db)) = Inr None"
proof -
  have "fst (user_delete ''alice'' demo_db) = Inr ()" by code_simp
  then have "user_delete ''alice'' demo_db = (Inr (), snd (user_delete ''alice'' demo_db))"
    by (metis prod.collapse)
  from user_delete_complete [OF demo_db_reachable this, of demo_lib] show ?thesis
    using \<open>fst (user_delete ''alice'' demo_db) = Inr ()\<close> by auto
qed

end
