(* ===== verification/Rate_Limit.thy ===== *)
theory Rate_Limit
  imports Step_System "HOL-Library.AList"
begin

text \<open>
  The two throttles: \<open>m6-http/src/rate_limit.rs\<close>, which counts every request of an address in a
  fixed window of a minute, and \<open>m6-auth-server/src/rate_limit.rs\<close>, which counts failed logins.
  Both keep a hash map from the address to a count and the start of its window; it is an
  association list with distinct keys here. Instants are nanoseconds.

  The locale \<open>fixed_window\<close> states what both promise, and its lemma bounds what one address can
  get through in any period as long as the window, wherever it starts.
\<close>

type_synonym window_map = "(string \<times> (nat \<times> nat)) list"

section \<open>The throttle of the proxy\<close>

definition WINDOW_SECS :: nat where "WINDOW_SECS = 60"
definition MAX_TRACKED_IPS :: nat where "MAX_TRACKED_IPS = 50000"

record rate_limiter =
  rl_map :: window_map

definition new_rate_limiter :: rate_limiter where
  "new_rate_limiter = \<lparr>rl_map = []\<rparr>"

definition check_and_increment :: "nat \<Rightarrow> string \<Rightarrow> nat \<Rightarrow> rate_limiter \<Rightarrow> (bool \<times> rate_limiter) outcome" where
  "check_and_increment now ip limit_per_min rl =
     (let window = WINDOW_SECS * 1000000000;
          m = (if MAX_TRACKED_IPS < length (rl_map rl)
               then filter (\<lambda>(_, (_, seen)). now - seen < window) (rl_map rl) else rl_map rl);
          entry = (case map_of m ip of Some e \<Rightarrow> e | None \<Rightarrow> (0, now));
          entry = (if window \<le> now - snd entry then (0, now) else entry)
      in bind_outcome (u32_add (fst entry) 1) (\<lambda>n.
           Val (limit_per_min < n, \<lparr>rl_map = AList.update ip (n, snd entry) m\<rparr>)))"

text \<open>\<open>check_rate_limit\<close> of \<open>m6-http/src/main.rs\<close>: the answer, or nothing to go on.\<close>

record rate_limit_config =
  rlc_enabled :: bool
  rlc_requests_per_min :: nat

record ready_response =
  rr_status :: nat
  rr_headers :: "(string \<times> string) list"
  rr_body :: string
  rr_backend :: string

definition check_rate_limit :: "rate_limit_config \<Rightarrow> nat \<Rightarrow> string \<Rightarrow> rate_limiter \<Rightarrow>
    (ready_response option \<times> rate_limiter) outcome" where
  "check_rate_limit cfg now client_ip rl =
     (if \<not> rlc_enabled cfg then Val (None, rl)
      else bind_outcome (check_and_increment now client_ip (rlc_requests_per_min cfg) rl) (\<lambda>(over, rl).
        if \<not> over then Val (None, rl)
        else Val (Some \<lparr>rr_status = 429,
          rr_headers = [(''Content-Type'', ''text/plain; charset=utf-8''), (''Retry-After'', ''60'')],
          rr_body = ''Too Many Requests'', rr_backend = ''rate-limit''\<rparr>, rl)))"

section \<open>The throttle of the login\<close>

definition DEFAULT_MAX_ATTEMPTS :: nat where "DEFAULT_MAX_ATTEMPTS = 5"
definition DEFAULT_WINDOW_SECS :: nat where "DEFAULT_WINDOW_SECS = 15 * 60"

record login_limiter =
  ll_map :: window_map
  ll_max_attempts :: nat
  ll_window_secs :: nat

definition with_limits :: "nat \<Rightarrow> nat \<Rightarrow> login_limiter" where
  "with_limits max_attempts window_secs =
     \<lparr>ll_map = [], ll_max_attempts = max_attempts, ll_window_secs = window_secs\<rparr>"

definition new_login_limiter :: login_limiter where
  "new_login_limiter = with_limits DEFAULT_MAX_ATTEMPTS DEFAULT_WINDOW_SECS"

definition is_blocked :: "nat \<Rightarrow> string \<Rightarrow> login_limiter \<Rightarrow> bool" where
  "is_blocked now ip rl = (case map_of (ll_map rl) ip of
     Some (count, started) \<Rightarrow>
       if ll_window_secs rl \<le> (now - started) div 1000000000 then False else ll_max_attempts rl \<le> count
   | None \<Rightarrow> False)"

definition record_failure :: "nat \<Rightarrow> string \<Rightarrow> login_limiter \<Rightarrow> login_limiter outcome" where
  "record_failure now ip rl =
     (let window = ll_window_secs rl;
          entry = (case map_of (ll_map rl) ip of Some e \<Rightarrow> e | None \<Rightarrow> (0, now));
          entry = (if window \<le> (now - snd entry) div 1000000000 then (0, now) else entry)
      in bind_outcome (u32_add (fst entry) 1) (\<lambda>n.
           Val (rl\<lparr>ll_map := AList.update ip (n, snd entry) (ll_map rl)\<rparr>)))"

definition clear_failures :: "string \<Rightarrow> login_limiter \<Rightarrow> login_limiter" where
  "clear_failures ip rl = rl\<lparr>ll_map := AList.delete ip (ll_map rl)\<rparr>"

text \<open>One wrong password from an address, the way \<open>handle_login\<close> treats it: refused when the
  address is blocked, and counted otherwise.\<close>

definition wrong_password :: "nat \<Rightarrow> string \<Rightarrow> login_limiter \<Rightarrow> (bool \<times> login_limiter) outcome" where
  "wrong_password now ip rl =
     (if is_blocked now ip rl then Val (True, rl)
      else bind_outcome (record_failure now ip rl) (\<lambda>rl. Val (False, rl)))"

section \<open>What gets through a fixed window\<close>

text \<open>How many of the requests of \<open>ip\<close> in the period of length \<open>w\<close> from \<open>a\<close> are let through; the
  run ends where the process does.\<close>

fun admissions :: "(nat \<Rightarrow> string \<Rightarrow> 's \<Rightarrow> (bool \<times> 's) outcome) \<Rightarrow> string \<Rightarrow> nat \<Rightarrow> nat \<Rightarrow>
    (nat \<times> string) list \<Rightarrow> 's \<Rightarrow> nat" where
  "admissions hit ip a w [] s = 0"
| "admissions hit ip a w ((t, k) # evs) s = (case hit t k s of
     Panic \<Rightarrow> 0
   | Val (over, s') \<Rightarrow>
       (if k = ip \<and> \<not> over \<and> a \<le> t \<and> t < a + w then 1 else 0) + admissions hit ip a w evs s')"

text \<open>The entry an address has when it is hit: a new window, or the one still open.\<close>

definition opened :: "nat \<Rightarrow> nat \<Rightarrow> (nat \<times> nat) option \<Rightarrow> nat \<times> nat" where
  "opened w now e = (case e of None \<Rightarrow> (0, now)
     | Some (c, s0) \<Rightarrow> if w \<le> now - s0 then (0, now) else (c, s0))"

lemma opened_eq:
  "(if w \<le> now - snd (case e of Some e \<Rightarrow> e | None \<Rightarrow> (0, now)) then (0, now)
    else (case e of Some e \<Rightarrow> e | None \<Rightarrow> (0, now))) = opened w now e"
  by (auto simp: opened_def split: option.split)

text \<open>The most that can have been let through since \<open>a\<close>, given the entry of the address: the
  window it was in before \<open>a\<close> and at most one that started after it.\<close>

definition spent :: "nat \<Rightarrow> nat \<Rightarrow> (nat \<times> nat) option \<Rightarrow> nat" where
  "spent limit a e = (case e of None \<Rightarrow> limit
     | Some (c, s0) \<Rightarrow> if s0 < a then min c limit else limit + min c limit)"

locale fixed_window =
  fixes hit :: "nat \<Rightarrow> string \<Rightarrow> 's \<Rightarrow> (bool \<times> 's) outcome"
    and entry :: "'s \<Rightarrow> string \<Rightarrow> (nat \<times> nat) option"
    and inv :: "'s \<Rightarrow> bool" and w :: nat and limit :: nat
  assumes inv_hit: "inv s \<Longrightarrow> hit t ip s = Val (over, s') \<Longrightarrow> inv s'"
    and admitted: "inv s \<Longrightarrow> hit t ip s = Val (False, s') \<Longrightarrow>
      \<exists>c s0. opened w t (entry s ip) = (c, s0) \<and> Suc c \<le> limit \<and> entry s' ip = Some (Suc c, s0)"
    and refused: "inv s \<Longrightarrow> hit t ip s = Val (True, s') \<Longrightarrow> limit = 0 \<or>
      (\<exists>c c' s0. entry s ip = Some (c, s0) \<and> c \<le> c' \<and> entry s' ip = Some (c', s0))"
    and others: "inv s \<Longrightarrow> hit t k s = Val (over, s') \<Longrightarrow> k \<noteq> ip \<Longrightarrow>
      entry s' ip = entry s ip \<or>
      (entry s' ip = None \<and> (\<exists>c s0. entry s ip = Some (c, s0) \<and> w \<le> t - s0))"
begin

lemma spent_bound: "spent limit a e \<le> 2 * limit"
  by (auto simp: spent_def split: option.split)

lemma spent_admitted:
  assumes "inv s" "hit t ip s = Val (False, s')" "a \<le> t" "t < a + w" "adm \<le> spent limit a (entry s ip)"
  shows "Suc adm \<le> spent limit a (entry s' ip)"
proof -
  obtain c s0 where e: "opened w t (entry s ip) = (c, s0)" "Suc c \<le> limit" "entry s' ip = Some (Suc c, s0)"
    using admitted [OF assms(1,2)] by blast
  show ?thesis
  proof (cases "entry s ip")
    case None
    then show ?thesis using e assms(3,5) by (auto simp: opened_def spent_def)
  next
    case (Some r)
    obtain c1 s1 where r: "r = (c1, s1)" by (cases r)
    show ?thesis
    proof (cases "w \<le> t - s1")
      case True
      with assms(3,4) have "s1 < a" by linarith
      with True Some r e assms(3,5) show ?thesis by (auto simp: opened_def spent_def)
    next
      case False
      with Some r e assms(5) show ?thesis by (auto simp: opened_def spent_def split: if_splits)
    qed
  qed
qed

lemma spent_other:
  assumes "inv s" "hit t k s = Val (over, s')" "k \<noteq> ip \<or> over" "a \<le> t" "t < a + w" "adm \<le> spent limit a (entry s ip)"
  shows "adm \<le> spent limit a (entry s' ip)"
proof (cases "k = ip")
  case True
  with assms(3) have over by simp
  then consider "limit = 0" | c c' s0 where "entry s ip = Some (c, s0)" "c \<le> c'" "entry s' ip = Some (c', s0)"
    using refused [of s t ip s'] assms(1,2) True by auto
  then show ?thesis
  proof cases
    case 1
    then show ?thesis using assms(6) spent_bound [of a "entry s ip"] by simp
  next
    case 2
    then show ?thesis using assms(6) by (auto simp: spent_def split: if_splits)
  qed
next
  case False
  from others [OF assms(1,2) this] show ?thesis
  proof (elim disjE conjE exE)
    fix c s0 assume "entry s' ip = None" "entry s ip = Some (c, s0)" "w \<le> t - s0"
    then show ?thesis using assms(4-6) by (auto simp: spent_def split: if_splits)
  qed (use assms(6) in simp)
qed

lemma admissions_late:
  "list_all (\<lambda>(t, _). a + w \<le> t) evs \<Longrightarrow> admissions hit ip a w evs s = 0"
  by (induction evs arbitrary: s) (auto split: outcome.split)

lemma admissions_spent:
  "inv s \<Longrightarrow> sorted (map fst evs) \<Longrightarrow> adm = 0 \<or> list_all (\<lambda>(t, _). a \<le> t) evs \<Longrightarrow>
   adm \<le> spent limit a (entry s ip) \<Longrightarrow> adm + admissions hit ip a w evs s \<le> 2 * limit"
proof (induction evs arbitrary: s adm)
  case Nil
  then show ?case using spent_bound [of a "entry s ip"] by simp
next
  case (Cons ev evs)
  obtain t k where ev: "ev = (t, k)" by (cases ev)
  show ?case
  proof (cases "hit t k s")
    case Panic
    then show ?thesis using Cons.prems(4) spent_bound [of a "entry s ip"] by (simp add: ev)
  next
    case (Val r)
    obtain over s' where r: "r = (over, s')" by (cases r)
    have inv': "inv s'" using inv_hit [OF Cons.prems(1)] Val r by blast
    have late: "a + w \<le> t \<Longrightarrow> admissions hit ip a w (ev # evs) s = 0"
      using Cons.prems(2) by (intro admissions_late) (auto simp: ev list_all_iff)
    have rest: "a \<le> t \<Longrightarrow> list_all (\<lambda>(t, _). a \<le> t) evs"
      using Cons.prems(2) by (auto simp: ev list_all_iff)
    consider "a + w \<le> t" | "t < a" "adm = 0" | "a \<le> t" "t < a + w" "k = ip" "\<not> over"
      | "a \<le> t" "t < a + w" "k \<noteq> ip \<or> over"
      using Cons.prems(3) ev by (auto simp: not_le) (meson not_le)+
    then show ?thesis
    proof cases
      case 1
      then show ?thesis using late Cons.prems(4) spent_bound [of a "entry s ip"] by simp
    next
      case 2
      then show ?thesis
        using Cons.IH [OF inv', of 0] Cons.prems(2) by (simp add: ev Val r)
    next
      case 3
      have "Suc adm \<le> spent limit a (entry s' ip)"
        using spent_admitted [OF Cons.prems(1) _ 3(1,2) Cons.prems(4)] Val r 3 by simp
      then show ?thesis
        using Cons.IH [OF inv', of "Suc adm"] Cons.prems(2) 3 rest by (simp add: ev Val [unfolded 3(3)] r)
    next
      case 4
      have "adm \<le> spent limit a (entry s' ip)"
        using spent_other [OF Cons.prems(1) _ 4(3,1,2) Cons.prems(4)] Val r by simp
      then show ?thesis
        using Cons.IH [OF inv', of adm] Cons.prems(2) 4 rest by (auto simp: ev Val r)
    qed
  qed
qed

lemma admissions_bound:
  "inv s \<Longrightarrow> sorted (map fst evs) \<Longrightarrow> admissions hit ip a w evs s \<le> 2 * limit"
  using admissions_spent [of s evs 0] by simp

end

section \<open>Both throttles keep the contract\<close>

lemma map_of_update: "map_of (AList.update k v m) k' = (if k' = k then Some v else map_of m k')"
  by (simp add: update_conv')

text \<open>The map after the sweep of \<open>check_and_increment\<close>: only entries whose window is over are gone.\<close>

definition swept :: "nat \<Rightarrow> rate_limiter \<Rightarrow> window_map" where
  "swept now rl = (if MAX_TRACKED_IPS < length (rl_map rl)
     then filter (\<lambda>(_, (_, seen)). now - seen < WINDOW_SECS * 1000000000) (rl_map rl) else rl_map rl)"

lemma swept_entry:
  assumes "distinct (map fst (rl_map rl))"
  shows "map_of (swept now rl) ip = map_of (rl_map rl) ip \<or>
    (map_of (swept now rl) ip = None \<and>
     (\<exists>c s0. map_of (rl_map rl) ip = Some (c, s0) \<and> WINDOW_SECS * 1000000000 \<le> now - s0))"
  using map_of_filter_distinct [OF assms]
  by (auto simp: swept_def not_less split: option.split)

lemma distinct_swept: "distinct (map fst (rl_map rl)) \<Longrightarrow> distinct (map fst (swept now rl))"
  by (simp add: swept_def distinct_map_filter)

lemma opened_swept:
  "distinct (map fst (rl_map rl)) \<Longrightarrow> opened (WINDOW_SECS * 1000000000) now (map_of (swept now rl) ip) =
     opened (WINDOW_SECS * 1000000000) now (map_of (rl_map rl) ip)"
  using swept_entry [of rl now ip] by (auto simp: opened_def)

lemma check_and_increment_Val:
  "check_and_increment now ip limit rl = Val (over, rl') \<longleftrightarrow>
     (\<exists>c s0. opened (WINDOW_SECS * 1000000000) now (map_of (swept now rl) ip) = (c, s0) \<and>
        Suc c < 2 ^ 32 \<and> over = (limit < Suc c) \<and> rl' = \<lparr>rl_map = AList.update ip (Suc c, s0) (swept now rl)\<rparr>)"
proof -
  have "check_and_increment now ip limit rl =
    (let e = opened (WINDOW_SECS * 1000000000) now (map_of (swept now rl) ip) in
     bind_outcome (u32_add (fst e) 1) (\<lambda>n. Val (limit < n, \<lparr>rl_map = AList.update ip (n, snd e) (swept now rl)\<rparr>)))"
    unfolding check_and_increment_def swept_def [symmetric] Let_def opened_eq by (rule refl)
  then show ?thesis
    by (cases "opened (WINDOW_SECS * 1000000000) now (map_of (swept now rl) ip)")
      (auto simp: bind_outcome_eq_Val u32_add_Val)
qed

interpretation proxy: fixed_window "\<lambda>t ip. check_and_increment t ip limit"
  "\<lambda>rl. map_of (rl_map rl)" "\<lambda>rl. distinct (map fst (rl_map rl))" "WINDOW_SECS * 1000000000" limit
  for limit
proof
  fix s s' :: rate_limiter and t ip over
  assume inv: "distinct (map fst (rl_map s))" and hit: "check_and_increment t ip limit s = Val (over, s')"
  show "distinct (map fst (rl_map s'))"
    using hit distinct_swept [OF inv] by (auto simp: check_and_increment_Val distinct_update)
  fix k assume "ip \<noteq> k"
  then show "map_of (rl_map s') k = map_of (rl_map s) k \<or> map_of (rl_map s') k = None \<and>
      (\<exists>c s0. map_of (rl_map s) k = Some (c, s0) \<and> WINDOW_SECS * 1000000000 \<le> t - s0)"
    using hit swept_entry [OF inv, of t k] by (auto simp: check_and_increment_Val map_of_update)
next
  fix s s' :: rate_limiter and t ip
  assume inv: "distinct (map fst (rl_map s))"
  {
    assume "check_and_increment t ip limit s = Val (False, s')"
    then show "\<exists>c s0. opened (WINDOW_SECS * 1000000000) t (map_of (rl_map s) ip) = (c, s0) \<and>
        Suc c \<le> limit \<and> map_of (rl_map s') ip = Some (Suc c, s0)"
      by (auto simp: check_and_increment_Val opened_swept [OF inv] map_of_update)
  next
    assume "check_and_increment t ip limit s = Val (True, s')"
    then show "limit = 0 \<or> (\<exists>c c' s0. map_of (rl_map s) ip = Some (c, s0) \<and> c \<le> c' \<and>
        map_of (rl_map s') ip = Some (c', s0))"
      using swept_entry [OF inv, of t ip]
      by (auto simp: check_and_increment_Val map_of_update opened_def split: option.splits if_splits)
        (metis le_SucI order_refl)
  }
qed

lemma window_div: "W \<le> d div 1000000000 \<longleftrightarrow> W * 1000000000 \<le> (d :: nat)"
  by (simp add: less_eq_div_iff_mult_less_eq)

lemma wrong_password_Val:
  "wrong_password now ip rl = Val (over, rl') \<longleftrightarrow>
     (if is_blocked now ip rl then over \<and> rl' = rl
      else \<not> over \<and> (\<exists>c s0. opened (ll_window_secs rl * 1000000000) now (map_of (ll_map rl) ip) = (c, s0) \<and>
        Suc c < 2 ^ 32 \<and> rl' = rl\<lparr>ll_map := AList.update ip (Suc c, s0) (ll_map rl)\<rparr>))"
proof -
  have "record_failure now ip rl =
    (let e = opened (ll_window_secs rl * 1000000000) now (map_of (ll_map rl) ip) in
     bind_outcome (u32_add (fst e) 1) (\<lambda>n. Val (rl\<lparr>ll_map := AList.update ip (n, snd e) (ll_map rl)\<rparr>)))"
    unfolding record_failure_def Let_def window_div opened_eq by (rule refl)
  then show ?thesis
    by (cases "opened (ll_window_secs rl * 1000000000) now (map_of (ll_map rl) ip)")
      (auto simp: wrong_password_def bind_outcome_eq_Val u32_add_Val)
qed

interpretation login: fixed_window wrong_password "\<lambda>rl. map_of (ll_map rl)"
  "\<lambda>rl. ll_max_attempts rl = max_attempts \<and> ll_window_secs rl = window_secs"
  "window_secs * 1000000000" "max 1 max_attempts"
  for max_attempts window_secs
proof
  fix s s' :: login_limiter and t ip over
  assume inv: "ll_max_attempts s = max_attempts \<and> ll_window_secs s = window_secs"
    and hit: "wrong_password t ip s = Val (over, s')"
  show "ll_max_attempts s' = max_attempts \<and> ll_window_secs s' = window_secs"
    using hit inv by (auto simp: wrong_password_Val split: if_splits)
  fix k assume "ip \<noteq> k"
  then show "map_of (ll_map s') k = map_of (ll_map s) k \<or> map_of (ll_map s') k = None \<and>
      (\<exists>c s0. map_of (ll_map s) k = Some (c, s0) \<and> window_secs * 1000000000 \<le> t - s0)"
    using hit by (auto simp: wrong_password_Val map_of_update split: if_splits)
next
  fix s s' :: login_limiter and t ip
  assume inv: "ll_max_attempts s = max_attempts \<and> ll_window_secs s = window_secs"
  {
    assume "wrong_password t ip s = Val (False, s')"
    then show "\<exists>c s0. opened (window_secs * 1000000000) t (map_of (ll_map s) ip) = (c, s0) \<and>
        Suc c \<le> max 1 max_attempts \<and> map_of (ll_map s') ip = Some (Suc c, s0)"
      using inv
      by (auto simp: wrong_password_Val is_blocked_def window_div map_of_update opened_def
          split: option.splits if_splits)
  next
    assume "wrong_password t ip s = Val (True, s')"
    then show "max 1 max_attempts = 0 \<or> (\<exists>c c' s0. map_of (ll_map s) ip = Some (c, s0) \<and> c \<le> c' \<and>
        map_of (ll_map s') ip = Some (c', s0))"
      by (auto simp: wrong_password_Val is_blocked_def split: option.splits if_splits)
  }
qed

text \<open>Whatever the order of the requests and whatever other addresses do, one address gets at
  most twice its limit through in any minute: the fixed window can be straddled once and no more.
  The sweep that runs once the map is large never gives an address a new budget.\<close>

theorem check_and_increment_admissions:
  assumes "sorted (map fst requests)"
  shows "admissions (\<lambda>t ip. check_and_increment t ip limit) ip a (60 * 1000000000) requests new_rate_limiter
    \<le> 2 * limit"
  using proxy.admissions_bound [OF _ assms, of new_rate_limiter limit ip a]
  by (simp add: new_rate_limiter_def WINDOW_SECS_def)

theorem check_and_increment_admissions_witness:
  "admissions (\<lambda>t ip. check_and_increment t ip 1) ''a'' 7 (60 * 1000000000)
     [(0, ''a''), (7, ''a''), (60000000000, ''a''), (60000000005, ''a'')] new_rate_limiter \<le> 2"
  using check_and_increment_admissions
    [of "[(0, ''a''), (7, ''a''), (60000000000, ''a''), (60000000005, ''a'')]" 1 "''a''" 7] by simp

text \<open>The login throttle bounds guessing: an address that only sends wrong passwords gets at
  most twice the configured number of attempts checked in any period as long as the window (a
  configured number of zero still lets one attempt through).\<close>

theorem wrong_password_admissions:
  assumes "sorted (map fst attempts)"
  shows "admissions wrong_password ip a (window_secs * 1000000000) attempts (with_limits max_attempts window_secs)
    \<le> 2 * max 1 max_attempts"
  using login.admissions_bound [OF _ assms, of "with_limits max_attempts window_secs" max_attempts window_secs ip a]
  by (simp add: with_limits_def)

theorem wrong_password_admissions_witness:
  "admissions wrong_password ''a'' 0 (900 * 1000000000) [(0, ''a''), (1, ''a''), (2, ''a'')] (with_limits 1 900) \<le> 2"
  using wrong_password_admissions [of "[(0, ''a''), (1, ''a''), (2, ''a'')]" "''a''" 0 900 1] by simp

section \<open>The size of the map\<close>

text \<open>Requests of distinct addresses at one instant: nothing is swept, because no window is over.\<close>

fun burst :: "nat \<Rightarrow> nat \<Rightarrow> string list \<Rightarrow> rate_limiter \<Rightarrow> rate_limiter outcome" where
  "burst now limit [] rl = Val rl"
| "burst now limit (ip # ips) rl =
     bind_outcome (check_and_increment now ip limit rl) (\<lambda>(_, rl). burst now limit ips rl)"

lemma burst_grows:
  assumes "distinct ips" "set ips \<inter> fst ` set (rl_map rl) = {}" "distinct (map fst (rl_map rl))"
    and "\<forall>(_, (_, s0)) \<in> set (rl_map rl). s0 = now"
  shows "\<exists>rl'. burst now limit ips rl = Val rl' \<and> length (rl_map rl') = length (rl_map rl) + length ips"
  using assms
proof (induction ips arbitrary: rl)
  case (Cons ip ips)
  have sw: "swept now rl = rl_map rl"
    using Cons.prems(4) by (auto simp: swept_def WINDOW_SECS_def intro!: filter_True)
  have new: "map_of (rl_map rl) ip = None"
    using Cons.prems(2) by (auto simp: map_of_eq_None_iff)
  let ?rl = "\<lparr>rl_map = rl_map rl @ [(ip, (1, now))]\<rparr>"
  have upd: "ip \<notin> fst ` set m \<Longrightarrow> AList.update ip v m = m @ [(ip, v)]" for v and m :: window_map
    by (induction m) auto
  have "check_and_increment now ip limit rl = Val (limit < Suc 0, ?rl)"
    using Cons.prems(2) by (auto simp: check_and_increment_Val sw new opened_def upd)
  moreover have "\<exists>rl'. burst now limit ips ?rl = Val rl' \<and> length (rl_map rl') = length (rl_map ?rl) + length ips"
    using Cons.prems by (intro Cons.IH) auto
  ultimately show ?case by simp
qed simp

lemma map_not_bounded:
  assumes "distinct ips"
  shows "\<exists>rl. burst now limit ips new_rate_limiter = Val rl \<and> length (rl_map rl) = length ips"
  using burst_grows [OF assms, of new_rate_limiter now limit] by (simp add: new_rate_limiter_def)

end
