(* ===== verification/Request_Text.thy ===== *)
theory Request_Text
  imports M6_Prelude
begin

text \<open>
  The text a request carries: percent coding, query strings, form bodies and cookies, from
  \<open>m6-core/src/request.rs\<close>, and the second percent encoder, \<open>urlencoded\<close> of
  \<open>m6-http/src/main.rs\<close>. A \<open>str\<close> is the list of its bytes; \<open>chars()\<close> walks it with \<open>utf8_chunk\<close>.
\<close>

section \<open>Percent coding\<close>

definition HEX :: string where
  "HEX = ''0123456789ABCDEF''"

definition hex_digit :: "char \<Rightarrow> nat option" where
  "hex_digit b = (let v = byte_val b in
     if 48 \<le> v \<and> v \<le> 57 then Some (v - 48)
     else if 97 \<le> v \<and> v \<le> 102 then Some (v - 97 + 10)
     else if 65 \<le> v \<and> v \<le> 70 then Some (v - 65 + 10)
     else None)"

text \<open>The loop of \<open>url_decode\<close> on the bytes that are left.\<close>

fun decode_loop :: "bytes \<Rightarrow> bytes" where
  "decode_loop [] = []"
| "decode_loop (b # bs) =
     (if b = CHR ''+'' then CHR '' '' # decode_loop bs
      else if b = CHR ''%'' then
        (case bs of
           x # y # r \<Rightarrow>
             (case (hex_digit x, hex_digit y) of
                (Some h, Some l) \<Rightarrow> char_of (h * 16 + l) # decode_loop r
              | _ \<Rightarrow> CHR ''%'' # decode_loop bs)
         | _ \<Rightarrow> b # decode_loop bs)
      else b # decode_loop bs)"

definition url_decode :: "string \<Rightarrow> string" where
  "url_decode s = from_utf8_lossy (decode_loop s)"

definition unreserved :: "char \<Rightarrow> bool" where
  "unreserved b \<longleftrightarrow> is_ascii_alphanumeric b \<or> b \<in> set ''-_.~''"

definition percent :: "char \<Rightarrow> string" where
  "percent b = [CHR ''%'', HEX ! (byte_val b div 16), HEX ! (byte_val b mod 16)]"

fun encode_byte :: "bool \<Rightarrow> char \<Rightarrow> string" where
  "encode_byte keep_slash b =
     (if unreserved b then [b]
      else if b = CHR ''/'' \<and> keep_slash then ''/''
      else percent b)"

definition encode_text :: "string \<Rightarrow> bool \<Rightarrow> string" where
  "encode_text s keep_slash = concat (map (encode_byte keep_slash) s)"

definition url_encode :: "string \<Rightarrow> string" where
  "url_encode s = encode_text s False"

definition url_encode_path :: "string \<Rightarrow> string" where
  "url_encode_path s = encode_text s True"

text \<open>\<open>urlencoded\<close> of \<open>main.rs\<close>: character by character, a character it does not keep as the
  escapes of its UTF-8 bytes.\<close>

function urlencoded :: "string \<Rightarrow> string" where
  "urlencoded s =
     (if s = [] then []
      else let c = take (snd (utf8_chunk s)) s in
        (if length c = 1 \<and> (unreserved (hd c) \<or> hd c = CHR ''/'') then c else concat (map percent c)) @
        urlencoded (drop (snd (utf8_chunk s)) s))"
  by pat_completeness auto
termination
  by (relation "measure length") (auto simp: utf8_chunk_pos)

declare urlencoded.simps [simp del]

section \<open>Query strings and forms\<close>

definition parse_pair :: "string \<Rightarrow> string \<times> string" where
  "parse_pair pair = (case split_once CHR ''='' pair of
     Some (k, v) \<Rightarrow> (url_decode k, url_decode v)
   | None \<Rightarrow> (url_decode pair, url_decode []))"

definition parse_query_string :: "string \<Rightarrow> (string \<times> string) list" where
  "parse_query_string query =
     (if query = [] then [] else map parse_pair (split_on CHR ''&'' query))"

definition parse_form_body :: "bytes \<Rightarrow> (string \<times> string) list" where
  "parse_form_body body = parse_query_string (from_utf8_lossy body)"

datatype repeated_key = RepeatedKey

fun single_query_loop :: "string \<Rightarrow> string option \<Rightarrow> string list \<Rightarrow> repeated_key + string option" where
  "single_query_loop key found [] = Inr found"
| "single_query_loop key found (pair # pairs) =
     (let (k, v) = (case split_once CHR ''='' pair of Some kv \<Rightarrow> kv | None \<Rightarrow> (pair, []))
      in if k = key then
           (if found \<noteq> None then Inl RepeatedKey else single_query_loop key (Some v) pairs)
         else single_query_loop key found pairs)"

definition single_query_value :: "string \<Rightarrow> string \<Rightarrow> repeated_key + string option" where
  "single_query_value query key = single_query_loop key None (split_on CHR ''&'' query)"

section \<open>Cookies\<close>

fun cookie_loop :: "string \<Rightarrow> string list \<Rightarrow> string option" where
  "cookie_loop name [] = None"
| "cookie_loop name (part # parts) =
     (case split_once CHR ''='' (trim part) of
        Some (k, v) \<Rightarrow> if trim k = name then Some (trim v) else cookie_loop name parts
      | None \<Rightarrow> cookie_loop name parts)"

definition cookie :: "string \<Rightarrow> string \<Rightarrow> string option" where
  "cookie header name = cookie_loop name (split_on CHR '';'' header)"

text \<open>\<open>parse_cookies\<close> inserts into a map, so the last cookie of a name wins.\<close>

definition parse_cookies :: "string \<Rightarrow> string \<Rightarrow> string option" where
  "parse_cookies header = fold (\<lambda>part m.
     (case split_once CHR ''='' (trim part) of
        Some (k, v) \<Rightarrow> m(trim k \<mapsto> trim v)
      | None \<Rightarrow> m)) (split_on CHR '';'' header) Map.empty"

section \<open>Lemmas\<close>

lemma utf8_chunk_valid:
  "valid_utf8 s \<Longrightarrow> s \<noteq> [] \<Longrightarrow>
     fst (utf8_chunk s) \<and> snd (utf8_chunk s) \<le> length s \<and> valid_utf8 (drop (snd (utf8_chunk s)) s)"
proof (cases s)
  case (Cons a r)
  assume v: "valid_utf8 s"
  let ?v = "byte_val a"
  note v' = v [unfolded Cons valid_utf8.simps [of "a # r"] list.case Let_def]
  consider "?v < 128" | "194 \<le> ?v" "?v \<le> 223" | "224 \<le> ?v" "?v \<le> 239" | "240 \<le> ?v" "?v \<le> 244"
    using v' by (auto split: if_splits)
  then show ?thesis
  proof cases
    case 1
    with v' show ?thesis unfolding Cons by (simp add: utf8_chunk_def byte_at_def)
  next
    case 2
    with v' obtain b r1 where "r = b # r1" "utf8_cont b" "valid_utf8 r1"
      by (auto split: list.splits)
    with 2 show ?thesis unfolding Cons by (simp add: utf8_chunk_def byte_at_def utf8_cont_def)
  next
    case 3
    with v' obtain b c r1 where "r = b # c # r1" "utf8_cont b" "utf8_cont c" "valid_utf8 r1"
      "?v = 224 \<longrightarrow> 160 \<le> byte_val b" "?v = 237 \<longrightarrow> byte_val b \<le> 159"
      by (auto split: list.splits)
    with 3 show ?thesis unfolding Cons by (simp add: utf8_chunk_def byte_at_def utf8_cont_def)
  next
    case 4
    with v' obtain b c d r1 where "r = b # c # d # r1" "utf8_cont b" "utf8_cont c" "utf8_cont d" "valid_utf8 r1"
      "?v = 240 \<longrightarrow> 144 \<le> byte_val b" "?v = 244 \<longrightarrow> byte_val b \<le> 143"
      by (auto split: list.splits)
    with 4 show ?thesis unfolding Cons by (simp add: utf8_chunk_def byte_at_def utf8_cont_def)
  qed
qed simp

lemma from_utf8_lossy_valid: "valid_utf8 s \<Longrightarrow> from_utf8_lossy s = s"
proof (induction s rule: from_utf8_lossy.induct)
  case (1 s)
  show ?case
  proof (cases "s = []")
    case False
    with utf8_chunk_valid [OF 1(2)] 1(1) show ?thesis
      by (subst from_utf8_lossy.simps) simp
  qed (simp add: from_utf8_lossy.simps)
qed

lemma valid_utf8_ascii: "list_all (\<lambda>c. byte_val c < 128) s \<Longrightarrow> valid_utf8 s"
  by (induction s) (auto simp: valid_utf8.simps)

lemma hex_digit_HEX: "n < 16 \<Longrightarrow> hex_digit (HEX ! n) = Some n"
proof -
  have "\<forall>n \<in> set [0 ..< 16]. hex_digit (HEX ! n) = Some n" by code_simp
  then show "n < 16 \<Longrightarrow> hex_digit (HEX ! n) = Some n" by simp
qed

lemma HEX_class: "n < 16 \<Longrightarrow> byte_val (HEX ! n) < 128 \<and> HEX ! n \<notin> set ''&=+%;''"
proof -
  have "\<forall>n \<in> set [0 ..< 16]. byte_val (HEX ! n) < 128 \<and> HEX ! n \<notin> set ''&=+%;''" by code_simp
  then show "n < 16 \<Longrightarrow> byte_val (HEX ! n) < 128 \<and> HEX ! n \<notin> set ''&=+%;''" by simp
qed

lemma byte_split: "byte_val b div 16 < 16" "byte_val b mod 16 < 16"
  using byte_val_less [of b] by (auto simp: less_mult_imp_div_less)

lemma decode_percent: "decode_loop (percent b @ s) = b # decode_loop s"
proof -
  have "char_of (byte_val b div 16 * 16 + byte_val b mod 16) = b"
    unfolding div_mult_mod_eq by (simp add: byte_val_def)
  then show ?thesis by (simp add: percent_def hex_digit_HEX byte_split)
qed

lemma unreserved_plain: "unreserved b \<Longrightarrow> byte_val b < 128 \<and> b \<notin> set ''&=+%;''"
  by (auto simp: unreserved_def ascii_class_defs byte_val_def)

lemma decode_encode_byte: "decode_loop (encode_byte k b @ s) = b # decode_loop s"
proof (cases "unreserved b")
  case True
  then show ?thesis using unreserved_plain [OF True] by auto
qed (auto simp: decode_percent)

lemma decode_encode: "decode_loop (encode_text s k) = s"
  by (induction s) (simp_all add: encode_text_def decode_encode_byte del: encode_byte.simps)

lemma encode_byte_class:
  "c \<in> set (encode_byte k b) \<Longrightarrow> byte_val c < 128 \<and> c \<notin> set ''&=;''"
  using unreserved_plain [of b] HEX_class byte_split [of b]
  by (auto simp: percent_def byte_val_def split: if_splits)

lemma encode_class: "c \<in> set (encode_text s k) \<Longrightarrow> byte_val c < 128 \<and> c \<notin> set ''&=;''"
  by (auto simp: encode_text_def simp del: encode_byte.simps dest: encode_byte_class)

lemma url_decode_encode: "valid_utf8 s \<Longrightarrow> url_decode (encode_text s k) = s"
  by (simp add: url_decode_def decode_encode from_utf8_lossy_valid)

section \<open>The two encoders agree\<close>

lemma utf8_chunk_high:
  assumes "snd (utf8_chunk s) \<noteq> 1" "i < snd (utf8_chunk s)"
  shows "128 \<le> byte_at s i"
proof -
  have "snd (utf8_chunk s) \<le> 4" by (simp add: utf8_chunk_def Let_def)
  with assms(2) consider "i = 0" | "i = 1" | "i = 2" | "i = 3" by linarith
  then show ?thesis
    using assms by cases (auto simp: utf8_chunk_def Let_def split: if_splits)
qed

lemma utf8_chunk_bytes:
  "snd (utf8_chunk s) = 1 \<or> list_all (\<lambda>c. 128 \<le> byte_val c) (take (snd (utf8_chunk s)) s)"
  using utf8_chunk_high [of s] by (fastforce simp: list_all_length byte_at_def split: if_splits)

lemma encode_byte_high: "128 \<le> byte_val b \<Longrightarrow> encode_byte k b = percent b"
  using unreserved_plain [of b] by (auto simp: byte_val_def)

lemma urlencoded_eq: "urlencoded s = url_encode_path s"
proof (induction s rule: urlencoded.induct)
  case (1 s)
  show ?case
  proof (cases "s = []")
    case False
    let ?n = "snd (utf8_chunk s)"
    let ?c = "take ?n s"
    have "(if length ?c = 1 \<and> (unreserved (hd ?c) \<or> hd ?c = CHR ''/'') then ?c else concat (map percent ?c)) =
      concat (map (encode_byte True) ?c)"
    proof (cases "?n = 1")
      case True
      then show ?thesis using False by (cases s) auto
    next
      case n: False
      then have all: "list_all (\<lambda>c. 128 \<le> byte_val c) ?c" using utf8_chunk_bytes [of s] by blast
      then have "map (encode_byte True) ?c = map percent ?c"
        by (auto simp: list_all_iff encode_byte_high simp del: encode_byte.simps)
      moreover have "\<not> (length ?c = 1 \<and> (unreserved (hd ?c) \<or> hd ?c = CHR ''/''))"
        using all unreserved_plain [of "hd ?c"] False utf8_chunk_pos [of s]
        by (cases s; cases ?n) (auto simp: byte_val_def)
      ultimately show ?thesis by (simp only: if_False)
    qed
    then have "urlencoded s = concat (map (encode_byte True) ?c) @ url_encode_path (drop ?n s)"
      using False 1 by (subst urlencoded.simps) (simp add: Let_def del: encode_byte.simps)
    also have "\<dots> = url_encode_path s"
      by (simp add: url_encode_path_def encode_text_def concat_append [symmetric] map_append [symmetric]
          del: encode_byte.simps concat_append map_append)
    finally show ?thesis .
  qed (simp add: urlencoded.simps url_encode_path_def encode_text_def)
qed

section \<open>Round trips\<close>

definition form_pair :: "string \<times> string \<Rightarrow> string" where
  "form_pair kv = url_encode (fst kv) @ ''='' @ url_encode (snd kv)"

fun form_encode :: "(string \<times> string) list \<Rightarrow> string" where
  "form_encode [] = []"
| "form_encode [kv] = form_pair kv"
| "form_encode (kv # kvs) = form_pair kv @ ''&'' @ form_encode kvs"

lemma form_pair_class: "c \<in> set (form_pair kv) \<Longrightarrow> byte_val c < 128 \<and> c \<noteq> CHR ''&''"
  using encode_class by (auto simp: form_pair_def url_encode_def byte_val_def)

lemma form_pair_amp: "CHR ''&'' \<notin> set (form_pair kv)"
  using form_pair_class by blast

lemma split_form: "split_on CHR ''&'' (form_encode (kv # kvs)) = map form_pair (kv # kvs)"
proof (induction kvs arbitrary: kv)
  case Nil
  show ?case by (simp add: split_on_no_delim form_pair_amp)
next
  case (Cons kv' kvs)
  show ?case
    using Cons.IH [of kv'] by (simp add: split_on_append form_pair_amp)
qed

lemma parse_form_pair: "valid_utf8 (fst kv) \<Longrightarrow> valid_utf8 (snd kv) \<Longrightarrow> parse_pair (form_pair kv) = kv"
proof -
  assume v: "valid_utf8 (fst kv)" "valid_utf8 (snd kv)"
  have "split_once CHR ''='' (form_pair kv) = Some (url_encode (fst kv), url_encode (snd kv))"
    using encode_class [of "CHR ''=''" "fst kv" False]
    by (auto simp: split_once_Some form_pair_def url_encode_def)
  with v show ?thesis by (simp add: parse_pair_def url_encode_def url_decode_encode)
qed

lemma form_encode_ascii: "list_all (\<lambda>c. byte_val c < 128) (form_encode kvs)"
proof (induction kvs rule: form_encode.induct)
  case (3 kv kv' kvs)
  then show ?case using form_pair_class [of _ kv] by (auto simp: list_all_iff byte_val_def)
qed (auto simp: list_all_iff dest: form_pair_class)

lemma form_encode_nonempty: "form_encode (kv # kvs) \<noteq> []"
  by (cases kvs) (simp_all add: form_pair_def)

text \<open>C14. A form or query string built with \<open>url_encode\<close> is read back exactly: the fields in
  their order, duplicates and empty values included, for any text, whatever separators, percent
  signs, spaces or non-ASCII characters it holds.\<close>

theorem form_roundtrip:
  assumes "list_all (\<lambda>(k, v). valid_utf8 k \<and> valid_utf8 v) kvs"
  shows "parse_form_body (form_encode kvs) = kvs \<and> parse_query_string (form_encode kvs) = kvs"
proof -
  have "parse_query_string (form_encode kvs) = kvs"
  proof (cases kvs)
    case (Cons kv rest)
    have "map (parse_pair \<circ> form_pair) kvs = kvs"
      using assms by (intro map_idI) (auto simp: list_all_iff parse_form_pair)
    then show ?thesis
      unfolding Cons parse_query_string_def using form_encode_nonempty [of kv rest] split_form [of kv rest]
      by simp
  qed (simp add: parse_query_string_def)
  moreover have "from_utf8_lossy (form_encode kvs) = form_encode kvs"
    by (intro from_utf8_lossy_valid valid_utf8_ascii form_encode_ascii)
  ultimately show ?thesis by (simp add: parse_form_body_def)
qed

theorem form_roundtrip_witness:
  "parse_form_body (form_encode [(''a&b'', ''1=2 %''), (''a&b'', [CHR 0xC3, CHR 0xA9])]) =
     [(''a&b'', ''1=2 %''), (''a&b'', [CHR 0xC3, CHR 0xA9])]"
proof -
  have "list_all (\<lambda>(k, v). valid_utf8 k \<and> valid_utf8 v) [(''a&b'', ''1=2 %''), (''a&b'', [CHR 0xC3, CHR 0xA9])]"
    by code_simp
  then show ?thesis using form_roundtrip by blast
qed

section \<open>Cookie headers\<close>

definition cookie_char :: "char \<Rightarrow> bool" where
  "cookie_char c \<longleftrightarrow> is_ascii_graphic c \<and> c \<noteq> CHR '';''"

definition cookie_ok :: "string \<times> string \<Rightarrow> bool" where
  "cookie_ok kv \<longleftrightarrow> fst kv \<noteq> [] \<and> CHR ''='' \<notin> set (fst kv) \<and>
     list_all cookie_char (fst kv) \<and> list_all cookie_char (snd kv)"

text \<open>The header a user agent sends (RFC 6265 section 5.4).\<close>

definition cookie_pair :: "string \<times> string \<Rightarrow> string" where
  "cookie_pair kv = fst kv @ ''='' @ snd kv"

fun cookie_header :: "(string \<times> string) list \<Rightarrow> string" where
  "cookie_header [] = []"
| "cookie_header [kv] = cookie_pair kv"
| "cookie_header (kv # kvs) = cookie_pair kv @ ''; '' @ cookie_header kvs"

lemma trim_cookie_chars: "list_all cookie_char s \<Longrightarrow> trim s = s"
  by (cases "s = []") (simp_all add: list_all_iff cookie_char_def trim_graphic_ends)

lemma cookie_pair_chars: "cookie_ok kv \<Longrightarrow> list_all cookie_char (cookie_pair kv)"
  by (auto simp: cookie_ok_def cookie_pair_def cookie_char_def is_ascii_graphic_def byte_val_def)

lemma split_cookie_pair:
  "cookie_ok kv \<Longrightarrow> split_once CHR ''='' (cookie_pair kv) = Some kv \<and> trim (fst kv) = fst kv \<and> trim (snd kv) = snd kv"
  by (cases kv) (auto simp: cookie_ok_def cookie_pair_def split_once_Some trim_cookie_chars)

definition cookie_step :: "string \<Rightarrow> (string \<times> string) option" where
  "cookie_step part = map_option (map_prod trim trim) (split_once CHR ''='' (trim part))"

lemma cookie_step_pair: "cookie_ok kv \<Longrightarrow> cookie_step (cookie_pair kv) = Some kv"
  "cookie_ok kv \<Longrightarrow> cookie_step (CHR '' '' # cookie_pair kv) = Some kv"
  using split_cookie_pair [of kv] trim_cookie_chars [OF cookie_pair_chars, of kv]
  by (auto simp: cookie_step_def trim_space prod_eq_iff)

lemma cookie_steps_header:
  "list_all cookie_ok (kv # kvs) \<Longrightarrow>
     map cookie_step (split_on CHR '';'' (cookie_header (kv # kvs))) = map Some (kv # kvs) \<and>
     map cookie_step (split_on CHR '';'' (CHR '' '' # cookie_header (kv # kvs))) = map Some (kv # kvs)"
proof (induction kvs arbitrary: kv)
  case Nil
  then have "CHR '';'' \<notin> set (cookie_pair kv)" "CHR '';'' \<notin> set (CHR '' '' # cookie_pair kv)"
    using cookie_pair_chars [of kv] by (auto simp: list_all_iff cookie_char_def)
  then show ?case using Nil by (simp add: split_on_no_delim cookie_step_pair)
next
  case (Cons kv' kvs)
  then have n: "CHR '';'' \<notin> set (cookie_pair kv)" "CHR '';'' \<notin> set (CHR '' '' # cookie_pair kv)"
    using cookie_pair_chars [of kv] by (auto simp: list_all_iff cookie_char_def)
  have "split_on CHR '';'' (cookie_header (kv # kv' # kvs)) =
      cookie_pair kv # split_on CHR '';'' (CHR '' '' # cookie_header (kv' # kvs))"
    using split_on_append [OF n(1), of "CHR '' '' # cookie_header (kv' # kvs)"] by simp
  moreover have "split_on CHR '';'' (CHR '' '' # cookie_header (kv # kv' # kvs)) =
      (CHR '' '' # cookie_pair kv) # split_on CHR '';'' (CHR '' '' # cookie_header (kv' # kvs))"
    using split_on_append [OF n(2), of "CHR '' '' # cookie_header (kv' # kvs)"] by simp
  moreover have "map cookie_step (split_on CHR '';'' (CHR '' '' # cookie_header (kv' # kvs))) = map Some (kv' # kvs)"
    using Cons by simp
  ultimately show ?case using Cons.prems by (simp add: cookie_step_pair)
qed

lemma cookie_loop_steps:
  "map cookie_step parts = map Some kvs \<Longrightarrow> cookie_loop name parts = map_of kvs name"
  by (induction parts arbitrary: kvs) (auto simp: cookie_step_def split: option.splits)

lemma cookie_fold_steps:
  "map cookie_step parts = map Some kvs \<Longrightarrow>
   fold (\<lambda>part m. (case split_once CHR ''='' (trim part) of
        Some (k, v) \<Rightarrow> m(trim k \<mapsto> trim v) | None \<Rightarrow> m)) parts m0 = m0 ++ map_of (rev kvs)"
  by (induction parts arbitrary: kvs m0) (auto simp: cookie_step_def map_add_def fun_eq_iff split: option.splits)

text \<open>A well-formed header is read back: \<open>cookie\<close> gives the first cookie of a name and
  \<open>parse_cookies\<close> the last.\<close>

lemma cookie_header_read:
  assumes "list_all cookie_ok kvs"
  shows "cookie (cookie_header kvs) name = map_of kvs name"
    and "parse_cookies (cookie_header kvs) = map_of (rev kvs)"
proof -
  have "cookie (cookie_header kvs) name = map_of kvs name \<and> parse_cookies (cookie_header kvs) = map_of (rev kvs)"
  proof (cases kvs)
    case Nil
    then show ?thesis by (simp add: cookie_def parse_cookies_def)
  next
    case (Cons kv rest)
    then have "map cookie_step (split_on CHR '';'' (cookie_header kvs)) = map Some kvs"
      using cookie_steps_header [of kv rest] assms by simp
    from cookie_loop_steps [OF this] cookie_fold_steps [OF this] show ?thesis
      by (simp add: cookie_def parse_cookies_def)
  qed
  then show "cookie (cookie_header kvs) name = map_of kvs name"
    "parse_cookies (cookie_header kvs) = map_of (rev kvs)" by simp_all
qed

end
