(* ===== verification/Auth_Server.thy ===== *)
theory Auth_Server
  imports Auth_Db Rate_Limit Request_Text H1_Responder
begin

text \<open>
  The authentication service: \<open>m6-auth-server/src/handlers.rs\<close>, \<open>keys.rs\<close> and the parts of
  \<open>main.rs\<close> that build and reload its state, over the database of \<open>Auth_Db\<close>, the throttle of
  \<open>Rate_Limit\<close>, and the token engine of \<open>m6-auth/src/jwt.rs\<close>.

  The jsonwebtoken crate, SHA-256 and serde_json are the parameters of \<open>auth_env\<close>. A request is
  handled at one reading of the wall clock (\<open>wall\<close>, seconds) and of the monotonic clock (\<open>inst\<close>,
  nanoseconds). A lock is poisoned only by a panic, and a panic ends the process here
  (\<open>panic = "abort"\<close>), so the arms for poisoned locks are never taken and are left out.
\<close>

section \<open>Tokens\<close>

record access_claims =
  ac_iss :: string
  ac_sub :: string
  ac_exp :: int
  ac_iat :: int
  ac_username :: string
  ac_groups :: "string list"
  ac_roles :: "string list"

record refresh_claims =
  rc_iss :: string
  rc_sub :: string
  rc_exp :: int
  rc_iat :: int
  rc_username :: string
  rc_token_type :: string

datatype key_algo = Rs256 | Es256

record 'k jwt_engine =
  je_encoding :: 'k
  je_decoding :: 'k
  je_algorithm :: key_algo
  je_issuer :: string

text \<open>The jsonwebtoken crate: PEM readers, and encoding and decoding with the validation the
  source asks for (the algorithm, the issuer and, by default, the expiry at the given time).\<close>

record 'k jwt_lib =
  jl_ec_private :: "string \<Rightarrow> string + 'k"
  jl_rsa_private :: "string \<Rightarrow> string + 'k"
  jl_ec_public :: "string \<Rightarrow> string + 'k"
  jl_rsa_public :: "string \<Rightarrow> string + 'k"
  jl_encode_access :: "key_algo \<Rightarrow> access_claims \<Rightarrow> 'k \<Rightarrow> string + string"
  jl_encode_refresh :: "key_algo \<Rightarrow> refresh_claims \<Rightarrow> 'k \<Rightarrow> string + string"
  jl_decode_access :: "key_algo \<Rightarrow> string \<Rightarrow> int \<Rightarrow> string \<Rightarrow> 'k \<Rightarrow> string + access_claims"
  jl_decode_refresh :: "key_algo \<Rightarrow> string \<Rightarrow> int \<Rightarrow> string \<Rightarrow> 'k \<Rightarrow> string + refresh_claims"
  jl_hash_token :: "string \<Rightarrow> string"

definition jwt_engine_new :: "'k jwt_lib \<Rightarrow> string \<Rightarrow> string \<Rightarrow> string \<Rightarrow> string + 'k jwt_engine" where
  "jwt_engine_new lib private_pem public_pem issuer =
     (case (case jl_ec_private lib private_pem of
              Inr k \<Rightarrow> Inr (k, Es256)
            | Inl _ \<Rightarrow> (case jl_rsa_private lib private_pem of
                Inr k \<Rightarrow> Inr (k, Rs256)
              | Inl e \<Rightarrow> Inl (''invalid private key (tried EC and RSA): '' @ e))) of
        Inl e \<Rightarrow> Inl e
      | Inr (encoding, algorithm) \<Rightarrow>
          (case (case algorithm of
                   Es256 \<Rightarrow> map_sum (\<lambda>e. ''invalid EC public key: '' @ e) (\<lambda>k. k) (jl_ec_public lib public_pem)
                 | Rs256 \<Rightarrow> map_sum (\<lambda>e. ''invalid RSA public key: '' @ e) (\<lambda>k. k) (jl_rsa_public lib public_pem)) of
             Inl e \<Rightarrow> Inl e
           | Inr decoding \<Rightarrow> Inr \<lparr>je_encoding = encoding, je_decoding = decoding,
               je_algorithm = algorithm, je_issuer = issuer\<rparr>))"

definition encode_access :: "'k jwt_lib \<Rightarrow> 'k jwt_engine \<Rightarrow> access_claims \<Rightarrow> string + string" where
  "encode_access lib j claims = map_sum (\<lambda>e. ''JWT encode error: '' @ e) (\<lambda>t. t)
     (jl_encode_access lib (je_algorithm j) claims (je_encoding j))"

definition encode_refresh :: "'k jwt_lib \<Rightarrow> 'k jwt_engine \<Rightarrow> refresh_claims \<Rightarrow> string + string" where
  "encode_refresh lib j claims = map_sum (\<lambda>e. ''JWT encode error: '' @ e) (\<lambda>t. t)
     (jl_encode_refresh lib (je_algorithm j) claims (je_encoding j))"

definition decode_access :: "'k jwt_lib \<Rightarrow> 'k jwt_engine \<Rightarrow> int \<Rightarrow> string \<Rightarrow> string + access_claims" where
  "decode_access lib j now token = map_sum (\<lambda>e. ''JWT decode error: '' @ e) (\<lambda>c. c)
     (jl_decode_access lib (je_algorithm j) (je_issuer j) now token (je_decoding j))"

definition decode_refresh :: "'k jwt_lib \<Rightarrow> 'k jwt_engine \<Rightarrow> int \<Rightarrow> string \<Rightarrow> string + refresh_claims" where
  "decode_refresh lib j now token = map_sum (\<lambda>e. ''JWT decode error: '' @ e) (\<lambda>c. c)
     (jl_decode_refresh lib (je_algorithm j) (je_issuer j) now token (je_decoding j))"

section \<open>The state of the service\<close>

record 'k key_material =
  km_jwt :: "'k jwt_engine"
  km_public_key_pem :: string

record 'k app_state =
  as_db :: auth_db
  as_keys :: "'k key_material"
  as_access_ttl :: nat
  as_refresh_ttl :: nat
  as_issuer :: string
  as_rate_limiter :: login_limiter

datatype json_value = JStr string | JNum nat

record 'k auth_env =
  ae_lib :: auth_lib
  ae_jwt :: "'k jwt_lib"
  ae_login_json :: "bytes \<Rightarrow> (string \<times> string) option"
  ae_refresh_json :: "bytes \<Rightarrow> string option"
  ae_json_text :: "(string \<times> json_value) list \<Rightarrow> string"

text \<open>\<open>x as i64\<close> of a \<open>u64\<close>, and \<open>i64\<close> addition with overflow checks on.\<close>

definition as_i64 :: "nat \<Rightarrow> int" where
  "as_i64 n = (if n < 2 ^ 63 then int n else int n - 2 ^ 64)"

definition i64_add :: "int \<Rightarrow> int \<Rightarrow> int outcome" where
  "i64_add a b = (if - (2 ^ 63) \<le> a + b \<and> a + b < 2 ^ 63 then Val (a + b) else Panic)"

text \<open>\<open>check_pair\<close> of \<open>keys.rs\<close>: a probe token is signed and verified.\<close>

definition check_pair :: "'k jwt_lib \<Rightarrow> int \<Rightarrow> 'k jwt_engine \<Rightarrow> string \<Rightarrow> (string + unit) outcome" where
  "check_pair lib now j issuer = bind_outcome (i64_add now 60) (\<lambda>exp.
     Val (case encode_access lib j \<lparr>ac_iss = issuer, ac_sub = ''key-pair-check'', ac_exp = exp, ac_iat = now,
                ac_username = [], ac_groups = [], ac_roles = []\<rparr> of
            Inl e \<Rightarrow> Inl e
          | Inr token \<Rightarrow> (case decode_access lib j now token of
              Inl e \<Rightarrow> Inl (''the private and public key are not a pair: '' @ e)
            | Inr _ \<Rightarrow> Inr ())))"

text \<open>\<open>KeyMaterial::load\<close>, with what reading the two files gives.\<close>

definition key_material_load :: "'k jwt_lib \<Rightarrow> int \<Rightarrow> string + string \<Rightarrow> string + string \<Rightarrow> string \<Rightarrow>
    (string + 'k key_material) outcome" where
  "key_material_load lib now private_file public_file issuer =
     (case private_file of Inl e \<Rightarrow> Val (Inl (''cannot read private key '' @ e)) | Inr private_pem \<Rightarrow>
     (case public_file of Inl e \<Rightarrow> Val (Inl (''cannot read public key '' @ e)) | Inr public_pem \<Rightarrow>
     (case jwt_engine_new lib private_pem public_pem issuer of Inl e \<Rightarrow> Val (Inl e) | Inr j \<Rightarrow>
      bind_outcome (check_pair lib now j issuer) (\<lambda>r. Val (case r of
        Inl e \<Rightarrow> Inl e
      | Inr _ \<Rightarrow> Inr \<lparr>km_jwt = j, km_public_key_pem = public_pem\<rparr>)))))"

text \<open>\<open>reload_state\<close> of \<open>main.rs\<close>: the keys are swapped only when both files load and pair up;
  nothing else of the running state changes.\<close>

definition reload_state :: "'k jwt_lib \<Rightarrow> int \<Rightarrow> string + string \<Rightarrow> string + string \<Rightarrow> 'k app_state \<Rightarrow>
    ((string + unit) \<times> 'k app_state) outcome" where
  "reload_state lib now private_file public_file st =
     bind_outcome (key_material_load lib now private_file public_file (as_issuer st)) (\<lambda>r. Val (case r of
       Inl e \<Rightarrow> (Inl (''loading key material: '' @ e), st)
     | Inr km \<Rightarrow> (Inr (), st\<lparr>as_keys := km\<rparr>)))"

definition peer_ip :: "raw_request \<Rightarrow> string" where
  "peer_ip req = (case request_header req ''x-forwarded-for'' of
     Some v \<Rightarrow> v
   | None \<Rightarrow> (case request_header req ''x-real-ip'' of Some v \<Rightarrow> v | None \<Rightarrow> ''unix''))"

section \<open>Login\<close>

definition content_type :: "string \<Rightarrow> raw_response \<Rightarrow> raw_response" where
  "content_type ct r = response_header r ''Content-Type'' ct"

definition internal_error :: raw_response where
  "internal_error = response_body (content_type ''application/json'' (response_new 500))
     ''{\"error\":\"internal_error\"}''"

definition form_field :: "(string \<times> string) list \<Rightarrow> string \<Rightarrow> string option" where
  "form_field fs key = map_option snd (List.find (\<lambda>(k, _). k = key) fs)"

definition validate_next :: "string option \<Rightarrow> string" where
  "validate_next nxt = (case nxt of
     Some n \<Rightarrow> if is_same_origin_path n then n else ''/''
   | None \<Rightarrow> ''/'')"

definition note_login_failure :: "nat \<Rightarrow> string \<Rightarrow> 'k app_state \<Rightarrow> 'k app_state outcome" where
  "note_login_failure inst ip st = bind_outcome (record_failure inst ip (as_rate_limiter st))
     (\<lambda>rl. Val (st\<lparr>as_rate_limiter := rl\<rparr>))"

definition note_login_success :: "string \<Rightarrow> 'k app_state \<Rightarrow> 'k app_state" where
  "note_login_success ip st = st\<lparr>as_rate_limiter := clear_failures ip (as_rate_limiter st)\<rparr>"

definition issue_tokens :: "'k auth_env \<Rightarrow> int \<Rightarrow> 'k app_state \<Rightarrow> user \<Rightarrow> (string + string \<times> string) outcome" where
  "issue_tokens env wall st u =
     bind_outcome (i64_add wall (as_i64 (as_access_ttl st))) (\<lambda>access_exp.
     bind_outcome (i64_add wall (as_i64 (as_refresh_ttl st))) (\<lambda>refresh_exp.
       let j = km_jwt (as_keys st) in
       Val (case encode_access (ae_jwt env) j \<lparr>ac_iss = as_issuer st, ac_sub = us_id u, ac_exp = access_exp,
                  ac_iat = wall, ac_username = us_username u, ac_groups = us_groups u, ac_roles = us_roles u\<rparr> of
              Inl e \<Rightarrow> Inl e
            | Inr access_jwt \<Rightarrow>
                (case encode_refresh (ae_jwt env) j \<lparr>rc_iss = as_issuer st, rc_sub = us_id u, rc_exp = refresh_exp,
                       rc_iat = wall, rc_username = us_username u, rc_token_type = ''refresh''\<rparr> of
                   Inl e \<Rightarrow> Inl e
                 | Inr refresh_jwt \<Rightarrow> Inr (access_jwt, refresh_jwt)))))"

definition session_cookie :: "'k app_state \<Rightarrow> string \<Rightarrow> string" where
  "session_cookie st jwt =
     ''session='' @ jwt @ ''; HttpOnly; Secure; SameSite=Lax; Path=/; Max-Age='' @ show_nat (as_access_ttl st)"

definition refresh_cookie :: "'k app_state \<Rightarrow> string \<Rightarrow> string" where
  "refresh_cookie st jwt =
     ''refresh='' @ jwt @ ''; HttpOnly; Secure; SameSite=Lax; Path=/auth/refresh; Max-Age='' @
       show_nat (as_refresh_ttl st)"

text \<open>What the two login handlers share after the password was right: the failures are forgotten,
  the tokens issued and the hash of the refresh token stored.\<close>

definition grant :: "'k auth_env \<Rightarrow> int \<Rightarrow> string \<Rightarrow> user \<Rightarrow> (string \<Rightarrow> string \<Rightarrow> raw_response) \<Rightarrow> 'k app_state \<Rightarrow>
    (raw_response \<times> 'k app_state) outcome" where
  "grant env wall ip u respond st =
     (let st = note_login_success ip st in
      bind_outcome (issue_tokens env wall st u) (\<lambda>r. case r of
        Inl e \<Rightarrow> Val (internal_error, st)
      | Inr (access_jwt, refresh_jwt) \<Rightarrow>
          let refresh_hash = jl_hash_token (ae_jwt env) refresh_jwt in
          bind_outcome (i64_add wall (as_i64 (as_refresh_ttl st))) (\<lambda>expires_at.
            case refresh_token_store (us_id u) refresh_hash expires_at (as_db st) of
              (Inl e, db) \<Rightarrow> Val (internal_error, st\<lparr>as_db := db\<rparr>)
            | (Inr _, db) \<Rightarrow> Val (respond access_jwt refresh_jwt, st\<lparr>as_db := db\<rparr>))))"

definition handle_login_form :: "'k auth_env \<Rightarrow> int \<Rightarrow> nat \<Rightarrow> raw_request \<Rightarrow> string \<Rightarrow> 'k app_state \<Rightarrow>
    (raw_response \<times> 'k app_state) outcome" where
  "handle_login_form env wall inst req ip st =
     (let fs = parse_form_body (rq_body req);
          username = (case form_field fs ''username'' of Some v \<Rightarrow> v | None \<Rightarrow> []);
          password = (case form_field fs ''password'' of Some v \<Rightarrow> v | None \<Rightarrow> []);
          nxt = validate_next (form_field fs ''next'')
      in case user_verify_password (ae_lib env) username password (as_db st) of
           Inl e \<Rightarrow> Val (internal_error, st)
         | Inr None \<Rightarrow>
             bind_outcome (note_login_failure inst ip st) (\<lambda>st.
               Val (response_header (response_new 302) ''Location''
                      (''/login?error=invalid&next='' @ url_encode_path nxt), st))
         | Inr (Some u) \<Rightarrow>
             grant env wall ip u (\<lambda>access_jwt refresh_jwt.
               response_header (response_header (response_header (response_new 302)
                 ''Location'' nxt) ''Set-Cookie'' (session_cookie st access_jwt))
                 ''Set-Cookie'' (refresh_cookie st refresh_jwt)) st)"

definition handle_login_json :: "'k auth_env \<Rightarrow> int \<Rightarrow> nat \<Rightarrow> raw_request \<Rightarrow> string \<Rightarrow> 'k app_state \<Rightarrow>
    (raw_response \<times> 'k app_state) outcome" where
  "handle_login_json env wall inst req ip st = (case ae_login_json env (rq_body req) of
     None \<Rightarrow> Val (response_body (content_type ''application/json'' (response_new 400))
               ''{\"error\":\"bad_request\"}'', st)
   | Some (username, password) \<Rightarrow>
       (case user_verify_password (ae_lib env) username password (as_db st) of
          Inl e \<Rightarrow> Val (internal_error, st)
        | Inr None \<Rightarrow>
            bind_outcome (note_login_failure inst ip st) (\<lambda>st.
              Val (response_body (content_type ''application/json'' (response_new 401))
                     ''{\"error\":\"invalid_credentials\"}'', st))
        | Inr (Some u) \<Rightarrow>
            grant env wall ip u (\<lambda>access_jwt refresh_jwt.
              response_body (content_type ''application/json'' (response_new 200))
                (ae_json_text env [(''access_token'', JStr access_jwt), (''refresh_token'', JStr refresh_jwt),
                   (''expires_in'', JNum (as_access_ttl st))])) st))"

definition is_json_request :: "raw_request \<Rightarrow> bool" where
  "is_json_request req = contains_sub ''application/json''
     (to_ascii_lowercase (case request_header req ''content-type'' of Some v \<Rightarrow> v | None \<Rightarrow> []))"

definition too_many :: "bool \<Rightarrow> raw_response" where
  "too_many is_json = (let r = response_header (response_new 429) ''Retry-After'' ''60'' in
     if is_json then response_body (content_type ''application/json'' r) ''{\"error\":\"rate_limited\"}''
     else response_body r ''Too Many Requests'')"

definition handle_login :: "'k auth_env \<Rightarrow> int \<Rightarrow> nat \<Rightarrow> raw_request \<Rightarrow> string \<Rightarrow> 'k app_state \<Rightarrow>
    (raw_response \<times> 'k app_state) outcome" where
  "handle_login env wall inst req ip st =
     (if is_blocked inst ip (as_rate_limiter st) then Val (too_many (is_json_request req), st)
      else if is_json_request req then handle_login_json env wall inst req ip st
      else handle_login_form env wall inst req ip st)"

section \<open>Refresh\<close>

definition do_refresh :: "'k auth_env \<Rightarrow> int \<Rightarrow> string \<Rightarrow> 'k app_state \<Rightarrow> (string + string \<times> string) outcome" where
  "do_refresh env wall token st = (let j = km_jwt (as_keys st); db = as_db st in
     case decode_refresh (ae_jwt env) j wall token of Inl e \<Rightarrow> Val (Inl e) | Inr claims \<Rightarrow>
     (case refresh_token_verify wall (jl_hash_token (ae_jwt env) token) db of
        Inl e \<Rightarrow> Val (Inl ''database error'')
      | Inr None \<Rightarrow> Val (Inl ''token not found or expired'')
      | Inr (Some stored_user_id) \<Rightarrow>
          if stored_user_id \<noteq> rc_sub claims then Val (Inl ''user_id mismatch'')
          else (case user_get_by_id (ae_lib env) (rc_sub claims) db of
            Inl e \<Rightarrow> Val (Inl ''database error'')
          | Inr None \<Rightarrow> Val (Inl ''user not found'')
          | Inr (Some u) \<Rightarrow>
              bind_outcome (i64_add wall (as_i64 (as_access_ttl st))) (\<lambda>exp.
                Val (case encode_access (ae_jwt env) j \<lparr>ac_iss = as_issuer st, ac_sub = us_id u, ac_exp = exp,
                       ac_iat = wall, ac_username = us_username u, ac_groups = us_groups u,
                       ac_roles = us_roles u\<rparr> of
                     Inl e \<Rightarrow> Inl e
                   | Inr access_jwt \<Rightarrow> Inr (access_jwt, us_id u))))))"

definition refresh_token_of :: "raw_request \<Rightarrow> string option" where
  "refresh_token_of req = Option.bind (request_header req ''cookie'') (\<lambda>h. cookie h ''refresh'')"

definition handle_refresh_browser :: "'k auth_env \<Rightarrow> int \<Rightarrow> raw_request \<Rightarrow> 'k app_state \<Rightarrow> raw_response outcome" where
  "handle_refresh_browser env wall req st = (case refresh_token_of req of
     None \<Rightarrow> Val (response_header (response_new 302) ''Location'' ''/login'')
   | Some token \<Rightarrow> bind_outcome (do_refresh env wall token st) (\<lambda>r. case r of
       Inr (access_jwt, user_id) \<Rightarrow>
         let location = (case request_header req ''referer'' of
               Some v \<Rightarrow> if is_same_origin_path v then v else ''/''
             | None \<Rightarrow> ''/'')
         in Val (response_header (response_header (response_new 302) ''Location'' location)
                   ''Set-Cookie'' (session_cookie st access_jwt))
     | Inl _ \<Rightarrow> Val (response_header (response_new 302) ''Location'' ''/login'')))"

definition handle_refresh_json :: "'k auth_env \<Rightarrow> int \<Rightarrow> raw_request \<Rightarrow> 'k app_state \<Rightarrow> raw_response outcome" where
  "handle_refresh_json env wall req st = (case ae_refresh_json env (rq_body req) of
     None \<Rightarrow> Val (response_body (content_type ''application/json'' (response_new 400))
               ''{\"error\":\"bad_request\"}'')
   | Some token \<Rightarrow> bind_outcome (do_refresh env wall token st) (\<lambda>r. case r of
       Inr (access_jwt, user_id) \<Rightarrow>
         Val (response_body (content_type ''application/json'' (response_new 200))
           (ae_json_text env [(''access_token'', JStr access_jwt), (''expires_in'', JNum (as_access_ttl st))]))
     | Inl _ \<Rightarrow> Val (response_body (content_type ''application/json'' (response_new 401))
                 ''{\"error\":\"invalid_token\"}'')))"

definition handle_refresh :: "'k auth_env \<Rightarrow> int \<Rightarrow> raw_request \<Rightarrow> 'k app_state \<Rightarrow> raw_response outcome" where
  "handle_refresh env wall req st =
     (if is_json_request req then handle_refresh_json env wall req st
      else handle_refresh_browser env wall req st)"

section \<open>Logout\<close>

definition handle_logout_browser :: "'k auth_env \<Rightarrow> raw_request \<Rightarrow> 'k app_state \<Rightarrow> raw_response \<times> 'k app_state" where
  "handle_logout_browser env req st =
     (let st = (case refresh_token_of req of
            Some token \<Rightarrow> st\<lparr>as_db := snd (refresh_token_revoke (jl_hash_token (ae_jwt env) token) (as_db st))\<rparr>
          | None \<Rightarrow> st)
      in (response_header (response_header (response_header (response_new 302) ''Location'' ''/'')
            ''Set-Cookie'' ''session=; HttpOnly; Secure; SameSite=Lax; Path=/; Max-Age=0'')
            ''Set-Cookie'' ''refresh=; HttpOnly; Secure; SameSite=Lax; Path=/auth/refresh; Max-Age=0'', st))"

function trim_start_matches :: "string \<Rightarrow> string \<Rightarrow> string" where
  "trim_start_matches p s = (case strip_prefix p s of
     Some r \<Rightarrow> if length r < length s then trim_start_matches p r else s
   | None \<Rightarrow> s)"
  by pat_completeness auto
termination
  by (relation "measure (\<lambda>(p, s). length s)") auto

declare trim_start_matches.simps [simp del]

lemma trim_start_matches_stop: "strip_prefix p s = None \<Longrightarrow> trim_start_matches p s = s"
  by (subst trim_start_matches.simps) simp

definition handle_logout_api :: "'k auth_env \<Rightarrow> int \<Rightarrow> raw_request \<Rightarrow> 'k app_state \<Rightarrow> raw_response \<times> 'k app_state" where
  "handle_logout_api env wall req st =
     (let st = (case request_header req ''authorization'' of
            None \<Rightarrow> st
          | Some auth \<Rightarrow>
              let token = trim_start_matches ''bearer '' (trim_start_matches ''Bearer '' auth) in
              (case decode_access (ae_jwt env) (km_jwt (as_keys st)) wall token of
                 Inl _ \<Rightarrow> st
               | Inr claims \<Rightarrow> st\<lparr>as_db := snd (refresh_tokens_revoke_all (ac_sub claims) (as_db st))\<rparr>))
      in (response_new 204, st))"

definition handle_logout :: "'k auth_env \<Rightarrow> int \<Rightarrow> raw_request \<Rightarrow> 'k app_state \<Rightarrow> raw_response \<times> 'k app_state" where
  "handle_logout env wall req st =
     (let is_api = (case request_header req ''authorization'' of
            Some v \<Rightarrow> starts_with ''bearer '' (to_ascii_lowercase v)
          | None \<Rightarrow> False)
      in if is_api then handle_logout_api env wall req st else handle_logout_browser env req st)"

definition handle_public_key :: "'k app_state \<Rightarrow> raw_response" where
  "handle_public_key st = response_body (content_type ''application/x-pem-file'' (response_new 200))
     (km_public_key_pem (as_keys st))"

section \<open>What a login can do\<close>

text \<open>The credentials a login request carries, as its handler reads them.\<close>

definition login_credentials :: "'k auth_env \<Rightarrow> raw_request \<Rightarrow> (string \<times> string) option" where
  "login_credentials env req =
     (if is_json_request req then ae_login_json env (rq_body req)
      else let fs = parse_form_body (rq_body req) in
        Some (case form_field fs ''username'' of Some v \<Rightarrow> v | None \<Rightarrow> [],
              case form_field fs ''password'' of Some v \<Rightarrow> v | None \<Rightarrow> []))"

definition grants :: "raw_response \<Rightarrow> bool" where
  "grants r \<longleftrightarrow> rs_status r = 200 \<or> ''Set-Cookie'' \<in> fst ` set (rs_headers r)"

lemmas response_defs = response_new_def response_header_def response_body_def content_type_def

lemma grants_simps [simp]:
  "\<not> grants internal_error" "\<not> grants (too_many j)"
  by (simp_all add: grants_def internal_error_def too_many_def Let_def response_defs)

lemma refresh_token_store_error:
  "refresh_token_store u h e db = (Inl x, db') \<Longrightarrow> db' = db"
  by (auto simp: refresh_token_store_def on_db_write_def split: option.splits if_splits)

lemma i64_add_Val [outcome_simps]: "i64_add a b = Val c \<Longrightarrow> c = a + b"
  by (auto simp: i64_add_def split: if_splits)

lemma note_login_success_simps [simp]:
  "as_db (note_login_success ip st) = as_db st" "as_keys (note_login_success ip st) = as_keys st"
  "as_access_ttl (note_login_success ip st) = as_access_ttl st"
  "as_refresh_ttl (note_login_success ip st) = as_refresh_ttl st"
  "as_issuer (note_login_success ip st) = as_issuer st"
  by (simp_all add: note_login_success_def)

lemma issue_tokens_success [simp]: "issue_tokens env wall (note_login_success ip st) u = issue_tokens env wall st u"
  by (simp only: issue_tokens_def note_login_success_simps)

lemma grant_cases:
  assumes "grant env wall ip u respond st = Val (r, st')"
  obtains "r = internal_error" "st' = note_login_success ip st"
  | a rj db' where "issue_tokens env wall st u = Val (Inr (a, rj))"
    "refresh_token_store (us_id u) (jl_hash_token (ae_jwt env) rj) (wall + as_i64 (as_refresh_ttl st)) (as_db st) = (Inr (), db')"
    "r = respond a rj" "st' = (note_login_success ip st)\<lparr>as_db := db'\<rparr>"
proof -
  obtain t where t: "issue_tokens env wall st u = Val t"
    using assms by (auto simp: grant_def Let_def bind_outcome_eq_Val)
  show thesis
  proof (cases t)
    case (Inl e)
    then show thesis using assms t that(1) by (auto simp: grant_def Let_def)
  next
    case (Inr p)
    obtain a rj where p: "p = (a, rj)" by (cases p)
    obtain e where e: "i64_add wall (as_i64 (as_refresh_ttl st)) = Val e"
      using assms t Inr p by (auto simp: grant_def Let_def bind_outcome_eq_Val)
    let ?store = "refresh_token_store (us_id u) (jl_hash_token (ae_jwt env) rj) e (as_db st)"
    obtain x db' where st: "?store = (x, db')" by (cases ?store)
    have e': "e = wall + as_i64 (as_refresh_ttl st)" using i64_add_Val [OF e] .
    show thesis
    proof (cases x)
      case err: (Inl y)
      then have "db' = as_db st" using st refresh_token_store_error by blast
      moreover have "(note_login_success ip st)\<lparr>as_db := as_db st\<rparr> = note_login_success ip st"
        by (cases st) (simp add: note_login_success_def)
      ultimately show thesis
        using assms t Inr p e st err that(1) by (auto simp: grant_def Let_def)
    next
      case (Inr y)
      then show thesis
        using assms t \<open>t = Inr p\<close> p e st that(2) [of a rj db'] e' by (auto simp: grant_def Let_def)
    qed
  qed
qed

lemma note_login_failure_Val:
  "note_login_failure inst ip st = Val st' \<Longrightarrow>
     \<exists>rl. record_failure inst ip (as_rate_limiter st) = Val rl \<and> st' = st\<lparr>as_rate_limiter := rl\<rparr>"
  by (auto simp: note_login_failure_def bind_outcome_eq_Val)

text \<open>Both handlers are this, with the answers they give to a wrong and to a right password.\<close>

definition login_with :: "'k auth_env \<Rightarrow> int \<Rightarrow> nat \<Rightarrow> string \<Rightarrow> string \<Rightarrow> string \<Rightarrow> raw_response \<Rightarrow>
    (string \<Rightarrow> string \<Rightarrow> raw_response) \<Rightarrow> 'k app_state \<Rightarrow> (raw_response \<times> 'k app_state) outcome" where
  "login_with env wall inst ip username password refuse respond st =
     (case user_verify_password (ae_lib env) username password (as_db st) of
        Inl e \<Rightarrow> Val (internal_error, st)
      | Inr None \<Rightarrow> bind_outcome (note_login_failure inst ip st) (\<lambda>st. Val (refuse, st))
      | Inr (Some u) \<Rightarrow> grant env wall ip u respond st)"

lemma handle_login_with:
  assumes "\<not> is_blocked inst ip (as_rate_limiter st)"
  obtains (malformed) r where "login_credentials env req = None" "handle_login env wall inst req ip st = Val (r, st)"
      "rs_status r = 400" "\<not> grants r"
  | (credentials) username password refuse respond where
      "login_credentials env req = Some (username, password)"
      "handle_login env wall inst req ip st = login_with env wall inst ip username password refuse respond st"
      "\<not> grants refuse" "rs_status refuse \<noteq> 429" "\<And>a rj. grants (respond a rj)"
proof (cases "is_json_request req")
  case True
  then have c: "login_credentials env req = ae_login_json env (rq_body req)" by (simp add: login_credentials_def)
  have h: "handle_login env wall inst req ip st = handle_login_json env wall inst req ip st"
    using assms True by (simp add: handle_login_def)
  show thesis
  proof (cases "ae_login_json env (rq_body req)")
    case None
    then show thesis
      using c h by (intro malformed) (auto simp: handle_login_json_def response_defs grants_def)
  next
    case (Some up)
    obtain username password where up: "up = (username, password)" by (cases up)
    show thesis
      by (rule credentials [OF c [unfolded Some up] h [unfolded handle_login_json_def Some up option.case prod.case login_with_def [symmetric]]])
        (simp_all add: grants_def response_defs)
  qed
next
  case False
  let ?fs = "parse_form_body (rq_body req)"
  have c: "login_credentials env req =
      Some (case form_field ?fs ''username'' of Some v \<Rightarrow> v | None \<Rightarrow> [],
            case form_field ?fs ''password'' of Some v \<Rightarrow> v | None \<Rightarrow> [])"
    using False by (simp add: login_credentials_def Let_def)
  have h: "handle_login env wall inst req ip st = handle_login_form env wall inst req ip st"
    using assms False by (simp add: handle_login_def)
  show thesis
    by (rule credentials [OF c h [unfolded handle_login_form_def Let_def login_with_def [symmetric]]])
      (simp_all add: grants_def response_defs)
qed

lemma login_with_cases:
  assumes "login_with env wall inst ip username password refuse respond st = Val (r, st')"
  obtains (failed) e where
      "user_verify_password (ae_lib env) username password (as_db st) = Inl e" "r = internal_error" "st' = st"
  | (wrong) rl where "user_verify_password (ae_lib env) username password (as_db st) = Inr None"
      "record_failure inst ip (as_rate_limiter st) = Val rl" "st' = st\<lparr>as_rate_limiter := rl\<rparr>" "r = refuse"
  | (right) u where "user_verify_password (ae_lib env) username password (as_db st) = Inr (Some u)"
      "grant env wall ip u respond st = Val (r, st')"
proof (cases "user_verify_password (ae_lib env) username password (as_db st)")
  case (Inl e)
  then have "r = internal_error" "st' = st" using assms by (simp_all add: login_with_def)
  with Inl show thesis by (rule failed)
next
  case (Inr x)
  show thesis
  proof (cases x)
    case None
    then obtain stf where "note_login_failure inst ip st = Val stf" "r = refuse" "st' = stf"
      using assms Inr by (auto simp: login_with_def bind_outcome_eq_Val)
    then show thesis using wrong note_login_failure_Val [of inst ip st stf] Inr None by blast
  next
    case (Some u)
    then have "grant env wall ip u respond st = Val (r, st')" using assms Inr by (simp add: login_with_def)
    with Inr Some show thesis using right by blast
  qed
qed

section \<open>The running service\<close>

inductive auth_step :: "'k auth_env \<Rightarrow> 'k app_state \<Rightarrow> 'k app_state \<Rightarrow> bool" for env where
  login: "handle_login env wall inst req ip st = Val (r, st') \<Longrightarrow> auth_step env st st'"
| logout: "handle_logout env wall req st = (r, st') \<Longrightarrow> auth_step env st st'"
| reload: "reload_state (ae_jwt env) wall private_file public_file st = Val (r, st') \<Longrightarrow> auth_step env st st'"
| admin: "db_step (as_db st) db' \<Longrightarrow> auth_step env st (st\<lparr>as_db := db'\<rparr>)"

text \<open>The service starts on a database that some run of its operations has left.\<close>

definition auth_init :: "'k app_state \<Rightarrow> bool" where
  "auth_init st \<longleftrightarrow> reachable (\<lambda>db. db = db_open) db_step (as_db st) \<and> je_issuer (km_jwt (as_keys st)) = as_issuer st"

definition service_inv :: "'k app_state \<Rightarrow> bool" where
  "service_inv st \<longleftrightarrow> reachable (\<lambda>db. db = db_open) db_step (as_db st) \<and> je_issuer (km_jwt (as_keys st)) = as_issuer st"

lemma grant_db_step:
  assumes "grant env wall ip u respond st = Val (r, st')"
  shows "(as_db st' = as_db st \<or> db_step (as_db st) (as_db st')) \<and> as_keys st' = as_keys st \<and> as_issuer st' = as_issuer st"
  using assms
proof (cases rule: grant_cases)
  case (2 a rj db')
  then show ?thesis using db_step.store_refresh by simp
qed simp

lemma login_db_step:
  assumes "handle_login env wall inst req ip st = Val (r, st')"
  shows "(as_db st' = as_db st \<or> db_step (as_db st) (as_db st')) \<and> as_keys st' = as_keys st \<and> as_issuer st' = as_issuer st"
proof (cases "is_blocked inst ip (as_rate_limiter st)")
  case False
  then show ?thesis
  proof (cases rule: handle_login_with [where env = env and req = req and wall = wall])
    case (credentials username password refuse respond)
    from assms [unfolded credentials(2)] show ?thesis
      by (cases rule: login_with_cases) (simp_all, erule grant_db_step)
  qed (use assms in auto)
qed (use assms in \<open>simp add: handle_login_def\<close>)

lemma logout_db_step:
  assumes "handle_logout env wall req st = (r, st')"
  shows "(as_db st' = as_db st \<or> db_step (as_db st) (as_db st')) \<and> as_keys st' = as_keys st \<and> as_issuer st' = as_issuer st"
proof -
  have "db_step db (snd (refresh_token_revoke h db))" "db_step db (snd (refresh_tokens_revoke_all u db))" for db h u
    by (rule db_step.revoke_refresh, rule prod.collapse [symmetric])
      (rule db_step.revoke_all_refresh, rule prod.collapse [symmetric])
  then show ?thesis
    using assms by (auto simp: handle_logout_def handle_logout_browser_def handle_logout_api_def Let_def
        split: if_splits option.splits sum.splits)
qed

lemma jwt_engine_new_issuer: "jwt_engine_new lib a b issuer = Inr j \<Longrightarrow> je_issuer j = issuer"
  by (auto simp: jwt_engine_new_def split: sum.splits prod.splits key_algo.splits)

lemma key_material_load_issuer:
  "key_material_load lib now f g issuer = Val (Inr km) \<Longrightarrow> je_issuer (km_jwt km) = issuer"
  by (auto simp: key_material_load_def bind_outcome_eq_Val dest: jwt_engine_new_issuer split: sum.splits)
    (metis (full_types) old.unit.exhaust sumE)

lemma reload_keeps:
  assumes "reload_state lib wall f g st = Val (r, st')"
  shows "as_db st' = as_db st \<and> as_issuer st' = as_issuer st \<and>
    (as_keys st' = as_keys st \<or> je_issuer (km_jwt (as_keys st')) = as_issuer st)"
proof -
  obtain x where x: "key_material_load lib wall f g (as_issuer st) = Val x"
    "Val (r, st') = Val (case x of Inl e \<Rightarrow> (Inl (''loading key material: '' @ e), st) | Inr km \<Rightarrow> (Inr (), st\<lparr>as_keys := km\<rparr>))"
    using assms by (auto simp: reload_state_def bind_outcome_eq_Val)
  then show ?thesis by (cases x) (auto dest: key_material_load_issuer)
qed

interpretation service: step_invariant auth_init "auth_step env" service_inv for env :: "'k auth_env"
proof
  fix st :: "'k app_state"
  assume "auth_init st" then show "service_inv st" by (simp add: auth_init_def service_inv_def)
next
  fix st st' :: "'k app_state"
  assume inv: "service_inv st" and "auth_step env st st'"
  have *: "service_inv st'" if "as_db st' = as_db st \<or> db_step (as_db st) (as_db st')"
    "as_issuer st' = as_issuer st" "as_keys st' = as_keys st \<or> je_issuer (km_jwt (as_keys st')) = as_issuer st"
    using inv that reachable_step [of _ db_step "as_db st" "as_db st'"] by (auto simp: service_inv_def)
  from \<open>auth_step env st st'\<close> show "service_inv st'"
  proof cases
    case login then show ?thesis using login_db_step * by blast
  next
    case logout then show ?thesis using logout_db_step * by blast
  next
    case reload then show ?thesis using reload_keeps * by blast
  next
    case admin then show ?thesis by (intro *) auto
  qed
qed

lemma service_db_ok: "reachable auth_init (auth_step env) st \<Longrightarrow> db_ok (as_db st)"
  using service.inv_reachable [of env st] accounts.inv_reachable by (auto simp: service_inv_def)

text \<open>C16. A login hands out tokens only for a password that was verified: when the answer of
  \<open>handle_login\<close> carries a cookie or is a 200, the address was not blocked, the credentials of the
  request were verified against the stored hash, and the database now holds exactly one more live
  session, that user's. Every other answer leaves the database as it was.\<close>

theorem login_grants_verified:
  assumes st: "reachable auth_init (auth_step env) st" and "handle_login env wall inst req ip st = Val (r, st')"
  shows "if grants r then
      (\<exists>username password u refresh_jwt.
         login_credentials env req = Some (username, password) \<and>
         \<not> is_blocked inst ip (as_rate_limiter st) \<and>
         user_verify_password (ae_lib env) username password (as_db st) = Inr (Some u) \<and>
         (\<forall>now. sessions now (as_db st') = (sessions now (as_db st))(jl_hash_token (ae_jwt env) refresh_jwt :=
            if now < wall + as_i64 (as_refresh_ttl st) then Some (us_id u) else None)))
    else as_db st' = as_db st"
proof -
  note ok = service_db_ok [OF st]
  show ?thesis
  proof (cases "is_blocked inst ip (as_rate_limiter st)")
    case True
    then show ?thesis using assms(2) by (auto simp: handle_login_def)
  next
    case nb: False
    then show ?thesis
    proof (cases rule: handle_login_with [where env = env and req = req and wall = wall])
      case (malformed r0)
      then show ?thesis using assms(2) by auto
    next
      case (credentials username password refuse respond)
      from assms(2) [unfolded credentials(2)] show ?thesis
      proof (cases rule: login_with_cases)
        case (right u)
        from right(2) show ?thesis
        proof (cases rule: grant_cases)
          case (2 a rj db')
          have "sessions now (as_db st') = (sessions now (as_db st))(jl_hash_token (ae_jwt env) rj :=
              if now < wall + as_i64 (as_refresh_ttl st) then Some (us_id u) else None)" for now
            using sessions_store [OF ok 2(2), of now] 2(4) by simp
          then show ?thesis using 2(3) credentials nb right(1) by auto
        qed simp
      qed (use credentials in auto)
    qed
  qed
qed

section \<open>Sessions end and live\<close>

lemma do_refresh_ended:
  "adb_fault (as_db st) = None \<Longrightarrow> sessions wall (as_db st) (jl_hash_token (ae_jwt env) token) = None \<Longrightarrow>
     \<exists>e. do_refresh env wall token st = Val (Inl e)"
  by (auto simp: do_refresh_def refresh_token_verify_sessions Let_def split: sum.split)

lemma do_refresh_cong:
  assumes "as_keys st' = as_keys st" "as_access_ttl st' = as_access_ttl st" "as_issuer st' = as_issuer st"
    and "adb_fault (as_db st) = None" "adb_fault (as_db st') = None"
    and "adb_users (as_db st') = adb_users (as_db st)" "adb_groups (as_db st') = adb_groups (as_db st)"
    and "adb_memberships (as_db st') = adb_memberships (as_db st)"
    and "sessions wall (as_db st') (jl_hash_token (ae_jwt env) token) =
      sessions wall (as_db st) (jl_hash_token (ae_jwt env) token)"
  shows "do_refresh env wall token st' = do_refresh env wall token st"
proof -
  have "row_to_user lib (as_db st') = row_to_user lib (as_db st)" for lib
    by (rule ext) (simp add: row_to_user_def user_groups_by_id_def assms)
  moreover have "row_by_id (as_db st') u = row_by_id (as_db st) u" for u by (simp add: row_by_id_def assms)
  ultimately have "user_get_by_id lib u (as_db st') = user_get_by_id lib u (as_db st)" for lib u
    by (simp add: user_get_by_id_def on_db_def assms)
  then show ?thesis
    unfolding do_refresh_def Let_def assms(1-3) by (simp only: refresh_token_verify_sessions assms)
qed

text \<open>Whether a logout request ends the session of a token hash.\<close>

definition is_api_logout :: "raw_request \<Rightarrow> bool" where
  "is_api_logout req = (case request_header req ''authorization'' of
     Some v \<Rightarrow> starts_with ''bearer '' (to_ascii_lowercase v)
   | None \<Rightarrow> False)"

definition logged_out :: "'k auth_env \<Rightarrow> int \<Rightarrow> raw_request \<Rightarrow> 'k app_state \<Rightarrow> int \<Rightarrow> string \<Rightarrow> bool" where
  "logged_out env wall req st now h =
     (if is_api_logout req then
        (case decode_access (ae_jwt env) (km_jwt (as_keys st)) wall
                (trim_start_matches ''bearer '' (trim_start_matches ''Bearer '' (the (request_header req ''authorization'')))) of
           Inl _ \<Rightarrow> False
         | Inr claims \<Rightarrow> sessions now (as_db st) h = Some (ac_sub claims))
      else refresh_token_of req \<noteq> None \<and> h = jl_hash_token (ae_jwt env) (the (refresh_token_of req)))"

lemma handle_logout_state:
  "snd (handle_logout env wall req st) =
     (if is_api_logout req then
        (case decode_access (ae_jwt env) (km_jwt (as_keys st)) wall
                (trim_start_matches ''bearer '' (trim_start_matches ''Bearer '' (the (request_header req ''authorization'')))) of
           Inl _ \<Rightarrow> st
         | Inr claims \<Rightarrow> st\<lparr>as_db := snd (refresh_tokens_revoke_all (ac_sub claims) (as_db st))\<rparr>)
      else (case refresh_token_of req of
         None \<Rightarrow> st
       | Some t \<Rightarrow> st\<lparr>as_db := snd (refresh_token_revoke (jl_hash_token (ae_jwt env) t) (as_db st))\<rparr>))"
  by (auto simp: handle_logout_def is_api_logout_def handle_logout_api_def handle_logout_browser_def Let_def
      split: option.split sum.split)

lemma revoke_succeeds:
  assumes "adb_fault db = None"
  shows "refresh_token_revoke h db = (Inr (), snd (refresh_token_revoke h db))"
    "refresh_tokens_revoke_all u db = (Inr (), snd (refresh_tokens_revoke_all u db))"
  using assms by (simp_all add: refresh_token_revoke_def refresh_tokens_revoke_all_def)

lemma logout_sessions:
  assumes ok: "db_ok (as_db st)" and fault: "adb_fault (as_db st) = None"
    and out: "handle_logout env wall req st = (r, st')"
  shows "sessions now (as_db st') h = (if logged_out env wall req st now h then None else sessions now (as_db st) h)"
    and "\<exists>ts. st' = st\<lparr>as_db := (as_db st)\<lparr>adb_refresh_tokens := ts\<rparr>\<rparr>"
proof -
  have st': "st' = snd (handle_logout env wall req st)" using out by simp
  note rev = revoke_succeeds [OF fault]
  show "sessions now (as_db st') h = (if logged_out env wall req st now h then None else sessions now (as_db st) h)"
    unfolding st' handle_logout_state logged_out_def
    by (auto simp: sessions_revoke [OF ok rev(1)] sessions_revoke_all [OF ok rev(2)] split: option.split sum.split)
  have same: "\<exists>ts. st = st\<lparr>as_db := (as_db st)\<lparr>adb_refresh_tokens := ts\<rparr>\<rparr>"
    by (intro exI [of _ "adb_refresh_tokens (as_db st)"]) simp
  have one: "\<exists>ts. st\<lparr>as_db := snd (refresh_token_revoke k (as_db st))\<rparr> = st\<lparr>as_db := (as_db st)\<lparr>adb_refresh_tokens := ts\<rparr>\<rparr>" for k
    by (intro exI [of _ "filter (\<lambda>t. rt_token_hash t \<noteq> k) (adb_refresh_tokens (as_db st))"])
      (simp add: refresh_token_revoke_def fault)
  have all: "\<exists>ts. st\<lparr>as_db := snd (refresh_tokens_revoke_all u (as_db st))\<rparr> = st\<lparr>as_db := (as_db st)\<lparr>adb_refresh_tokens := ts\<rparr>\<rparr>" for u
    by (intro exI [of _ "filter (\<lambda>t. rt_user_id t \<noteq> u) (adb_refresh_tokens (as_db st))"])
      (simp add: refresh_tokens_revoke_all_def fault)
  show "\<exists>ts. st' = st\<lparr>as_db := (as_db st)\<lparr>adb_refresh_tokens := ts\<rparr>\<rparr>"
    unfolding st' handle_logout_state using same one all by (simp split: option.split sum.split)
qed


text \<open>A user who was verified is found under the identifier of the session.\<close>

lemma verified_user_by_id:
  assumes "db_ok db" "user_verify_password lib username password db = Inr (Some u)"
  shows "user_get_by_id lib (us_id u) db = Inr (Some u)" "adb_fault db = None"
proof -
  obtain r where r: "row_by_name db username = Some r" "u = row_to_user lib db r" and f: "adb_fault db = None"
    using assms(2) by (auto simp: user_verify_password_def on_db_def split: option.splits sum.splits if_splits)
  have "r \<in> set (adb_users db)" "distinct (map ur_id (adb_users db))"
    using r(1) assms(1) by (auto simp: row_by_name_def find_Some_distinct db_ok_def)
  then have "row_by_id db (ur_id r) = Some r" by (simp add: row_by_id_def find_Some_distinct)
  then show "user_get_by_id lib (us_id u) db = Inr (Some u)" using r(2) f
    by (simp add: user_get_by_id_def on_db_def row_to_user_def)
  show "adb_fault db = None" by (rule f)
qed

lemma grant_session:
  assumes "issue_tokens env wall st u = Val (Inr (a, rj))"
  shows "encode_refresh (ae_jwt env) (km_jwt (as_keys st)) \<lparr>rc_iss = as_issuer st, rc_sub = us_id u,
     rc_exp = wall + as_i64 (as_refresh_ttl st), rc_iat = wall, rc_username = us_username u,
     rc_token_type = ''refresh''\<rparr> = Inr rj"
proof -
  obtain e1 e2 where "i64_add wall (as_i64 (as_access_ttl st)) = Val e1" "i64_add wall (as_i64 (as_refresh_ttl st)) = Val e2"
    using assms by (auto simp: issue_tokens_def bind_outcome_eq_Val)
  with assms i64_add_Val [OF this(2)] show ?thesis
    by (auto simp: issue_tokens_def Let_def split: sum.splits)
qed

lemma form_grant_cookies:
  assumes "\<not> is_blocked inst ip (as_rate_limiter st)" "\<not> is_json_request req"
    and "handle_login env wall inst req ip st = Val (r, st')" "grants r"
  obtains u a rj db' where
    "user_verify_password (ae_lib env) (fst (the (login_credentials env req))) (snd (the (login_credentials env req))) (as_db st) = Inr (Some u)"
    "issue_tokens env wall st u = Val (Inr (a, rj))"
    "refresh_token_store (us_id u) (jl_hash_token (ae_jwt env) rj) (wall + as_i64 (as_refresh_ttl st)) (as_db st) = (Inr (), db')"
    "st' = (note_login_success ip st)\<lparr>as_db := db'\<rparr>"
    "rs_headers r = [(''Location'', validate_next (form_field (parse_form_body (rq_body req)) ''next'')),
       (''Set-Cookie'', session_cookie st a), (''Set-Cookie'', refresh_cookie st rj)]" "rs_status r = 302"
proof -
  let ?fs = "parse_form_body (rq_body req)"
  let ?un = "case form_field ?fs ''username'' of Some v \<Rightarrow> v | None \<Rightarrow> []"
  let ?pw = "case form_field ?fs ''password'' of Some v \<Rightarrow> v | None \<Rightarrow> []"
  let ?refuse = "response_header (response_new 302) ''Location''
     (''/login?error=invalid&next='' @ url_encode_path (validate_next (form_field ?fs ''next'')))"
  let ?respond = "\<lambda>a rj. response_header (response_header (response_header (response_new 302)
     ''Location'' (validate_next (form_field ?fs ''next''))) ''Set-Cookie'' (session_cookie st a))
     ''Set-Cookie'' (refresh_cookie st rj)"
  have c: "login_credentials env req = Some (?un, ?pw)" using assms(2) by (simp add: login_credentials_def Let_def)
  have h: "handle_login env wall inst req ip st = login_with env wall inst ip ?un ?pw ?refuse ?respond st"
    using assms(1,2) unfolding handle_login_def handle_login_form_def Let_def login_with_def by simp
  have nr: "\<not> grants ?refuse" by (simp add: grants_def response_defs)
  from assms(3) [unfolded h] show thesis
  proof (cases rule: login_with_cases)
    case (right u)
    from right(2) show thesis
    proof (cases rule: grant_cases)
      case (2 a rj db')
      show thesis
        by (rule that [OF _ 2(1,2,4)]) (use right(1) c 2(3) in \<open>simp_all add: response_defs\<close>)
    qed (use assms(4) in simp)
  qed (use assms(4) nr in auto)
qed

text \<open>A session works: after a form login that set cookies, the refresh token of the cookie is
  exchanged for an access token of the same user at any later time before it expires. What the
  crate is relied on for is that a token it signed is decoded to its claims while it has not
  expired, and that signing does not fail.\<close>

theorem login_then_refresh:
  assumes st: "reachable auth_init (auth_step env) st"
    and login: "\<not> is_json_request req" "handle_login env wall inst req ip st = Val (r, st')" "grants r"
    and decode: "\<And>c tok t. jl_encode_refresh (ae_jwt env) (je_algorithm (km_jwt (as_keys st))) c (je_encoding (km_jwt (as_keys st))) = Inr tok \<Longrightarrow>
      rc_iss c = as_issuer st \<Longrightarrow> t < rc_exp c \<Longrightarrow>
      jl_decode_refresh (ae_jwt env) (je_algorithm (km_jwt (as_keys st))) (as_issuer st) t tok (je_decoding (km_jwt (as_keys st))) = Inr c"
    and encode: "\<And>c. \<exists>tok. jl_encode_access (ae_jwt env) (je_algorithm (km_jwt (as_keys st))) c (je_encoding (km_jwt (as_keys st))) = Inr tok"
    and time: "now < wall + as_i64 (as_refresh_ttl st)" "returns (i64_add now (as_i64 (as_access_ttl st)))"
  shows "\<exists>u refresh_jwt access_jwt. (''Set-Cookie'', refresh_cookie st refresh_jwt) \<in> set (rs_headers r) \<and>
    user_verify_password (ae_lib env) (fst (the (login_credentials env req))) (snd (the (login_credentials env req))) (as_db st) = Inr (Some u) \<and>
    do_refresh env now refresh_jwt st' = Val (Inr (access_jwt, us_id u))"
proof -
  note ok = service_db_ok [OF st]
  have nb: "\<not> is_blocked inst ip (as_rate_limiter st)" using login(2,3) by (auto simp: handle_login_def)
  obtain u a rj db' where g:
    "user_verify_password (ae_lib env) (fst (the (login_credentials env req))) (snd (the (login_credentials env req))) (as_db st) = Inr (Some u)"
    "issue_tokens env wall st u = Val (Inr (a, rj))"
    "refresh_token_store (us_id u) (jl_hash_token (ae_jwt env) rj) (wall + as_i64 (as_refresh_ttl st)) (as_db st) = (Inr (), db')"
    "st' = (note_login_success ip st)\<lparr>as_db := db'\<rparr>"
    "rs_headers r = [(''Location'', validate_next (form_field (parse_form_body (rq_body req)) ''next'')),
       (''Set-Cookie'', session_cookie st a), (''Set-Cookie'', refresh_cookie st rj)]"
    using form_grant_cookies [OF nb login] by metis
  let ?c = "\<lparr>rc_iss = as_issuer st, rc_sub = us_id u, rc_exp = wall + as_i64 (as_refresh_ttl st), rc_iat = wall,
     rc_username = us_username u, rc_token_type = ''refresh''\<rparr>"
  have iss: "je_issuer (km_jwt (as_keys st)) = as_issuer st"
    using service.inv_reachable [OF st] by (simp add: service_inv_def)
  have "jl_encode_refresh (ae_jwt env) (je_algorithm (km_jwt (as_keys st))) ?c (je_encoding (km_jwt (as_keys st))) = Inr rj"
    using grant_session [OF g(2)] by (auto simp: encode_refresh_def map_sum_def split: sum.splits)
  from decode [OF this] time(1) have dec: "decode_refresh (ae_jwt env) (km_jwt (as_keys st)) now rj = Inr ?c"
    by (simp add: decode_refresh_def iss)
  have db': "adb_fault db' = None" "adb_users db' = adb_users (as_db st)" "adb_groups db' = adb_groups (as_db st)"
    "adb_memberships db' = adb_memberships (as_db st)"
    using g(3) verified_user_by_id(2) [OF ok g(1)]
    by (auto simp: refresh_token_store_def on_db_write_def split: option.splits if_splits)
  have "row_to_user lib db' = row_to_user lib (as_db st)" for lib
    by (rule ext) (simp add: row_to_user_def user_groups_by_id_def db')
  then have "user_get_by_id (ae_lib env) (us_id u) db' = Inr (Some u)"
    using verified_user_by_id [OF ok g(1)] by (simp add: user_get_by_id_def on_db_def row_by_id_def db')
  moreover have "refresh_token_verify now (jl_hash_token (ae_jwt env) rj) db' = Inr (Some (us_id u))"
    using sessions_store [OF ok g(3), of now] time(1) by (simp add: refresh_token_verify_sessions db')
  moreover obtain e where "i64_add now (as_i64 (as_access_ttl st)) = Val e" using time(2) by (auto simp: returns_iff_ex)
  moreover obtain tok where "encode_access (ae_jwt env) (km_jwt (as_keys st)) \<lparr>ac_iss = as_issuer st, ac_sub = us_id u,
      ac_exp = e, ac_iat = now, ac_username = us_username u, ac_groups = us_groups u, ac_roles = us_roles u\<rparr> = Inr tok"
    using encode [of "\<lparr>ac_iss = as_issuer st, ac_sub = us_id u, ac_exp = e, ac_iat = now,
      ac_username = us_username u, ac_groups = us_groups u, ac_roles = us_roles u\<rparr>"]
    by (auto simp: encode_access_def)
  ultimately have "do_refresh env now rj st' = Val (Inr (tok, us_id u))"
    using dec by (simp add: do_refresh_def g(4) Let_def)
  then show ?thesis using g(1,5) by auto
qed

section \<open>Guessing\<close>

text \<open>One login attempt as the throttle sees it, with the request the client chose for it.\<close>

definition guess :: "'k auth_env \<Rightarrow> int \<Rightarrow> (nat \<Rightarrow> string \<Rightarrow> raw_request) \<Rightarrow> nat \<Rightarrow> string \<Rightarrow> 'k app_state \<Rightarrow>
    (bool \<times> 'k app_state) outcome" where
  "guess env wall attack t ip st =
     map_outcome_val (\<lambda>(r, st'). (rs_status r = 429, st')) (handle_login env wall t (attack t ip) ip st)"

definition wrong_login :: "'k auth_env \<Rightarrow> auth_db \<Rightarrow> raw_request \<Rightarrow> bool" where
  "wrong_login env db req = (case login_credentials env req of
     Some (username, password) \<Rightarrow> user_verify_password (ae_lib env) username password db = Inr None
   | None \<Rightarrow> False)"

lemma too_many_status: "rs_status (too_many j) = 429"
  by (simp add: too_many_def Let_def response_defs)

lemma guess_wrong:
  assumes "wrong_login env (as_db st) (attack t ip)"
  shows "guess env wall attack t ip st =
    map_outcome_val (\<lambda>(over, rl). (over, st\<lparr>as_rate_limiter := rl\<rparr>)) (wrong_password t ip (as_rate_limiter st))"
proof (cases "is_blocked t ip (as_rate_limiter st)")
  case True
  then show ?thesis by (simp add: guess_def handle_login_def wrong_password_def too_many_status)
next
  case False
  then show ?thesis
  proof (cases rule: handle_login_with [where env = env and req = "attack t ip" and wall = wall])
    case (malformed r)
    then show ?thesis using assms by (simp add: wrong_login_def)
  next
    case (credentials username password refuse respond)
    then show ?thesis
      using assms False
      by (cases "record_failure t ip (as_rate_limiter st)")
        (simp_all add: guess_def wrong_login_def login_with_def note_login_failure_def wrong_password_def)
  qed
qed

lemma admissions_guess:
  assumes "\<And>t k. wrong_login env (as_db st) (attack t k)"
  shows "admissions (guess env wall attack) ip a w evs st = admissions wrong_password ip a w evs (as_rate_limiter st)"
  using assms
proof (induction evs arbitrary: st)
  case (Cons ev evs)
  obtain t k where ev: "ev = (t, k)" by (cases ev)
  show ?case
  proof (cases "wrong_password t k (as_rate_limiter st)")
    case (Val x)
    obtain over rl where x: "x = (over, rl)" by (cases x)
    have "admissions (guess env wall attack) ip a w evs (st\<lparr>as_rate_limiter := rl\<rparr>) = admissions wrong_password ip a w evs rl"
      using Cons.IH [of "st\<lparr>as_rate_limiter := rl\<rparr>"] Cons.prems by simp
    then show ?thesis using guess_wrong [of env st attack t k wall, OF Cons.prems] Val x by (simp add: ev)
  qed (use guess_wrong [of env st attack t k wall, OF Cons.prems] in \<open>simp add: ev\<close>)
qed simp


section \<open>The redirect after a login\<close>

text \<open>The \<open>next\<close> field is decoded and, on success, written into the \<open>Location\<close> line as it is. The
  check that it is a path of this origin looks at its first two bytes only, and the response
  writer writes header values verbatim, so the rest of the field can add lines of its own.\<close>

lemma login_splits_response:
  assumes "\<not> is_blocked inst ip (as_rate_limiter st)" "\<not> is_json_request req"
    and "handle_login env wall inst req ip st = Val (r, st')" "grants r"
    and "form_field (parse_form_body (rq_body req)) ''next'' = Some (''/'' @ CRLF @ evil)"
  shows "\<exists>pre post. head_bytes ka (rs_status r) (rs_headers r) n = pre @ CRLF @ evil @ CRLF @ post"
proof -
  have "validate_next (Some (''/'' @ CRLF @ evil)) = ''/'' @ CRLF @ evil"
    by (simp add: validate_next_def is_same_origin_path_def CRLF_def CR_def)
  moreover obtain a rj where "rs_headers r = [(''Location'', validate_next (form_field (parse_form_body (rq_body req)) ''next'')),
       (''Set-Cookie'', session_cookie st a), (''Set-Cookie'', refresh_cookie st rj)]"
    using form_grant_cookies [OF assms(1-4)] by metis
  ultimately have "caller_lines (rs_headers r) = ''Location: /'' @ CRLF @ evil @ CRLF @
      caller_lines [(''Set-Cookie'', session_cookie st a), (''Set-Cookie'', refresh_cookie st rj)]"
    using assms(5) by (simp add: eq_ignore_ascii_case_def to_ascii_lowercase_def ascii_lower_def ascii_class_defs byte_val_def)
  then show ?thesis
    unfolding head_bytes_def by (intro exI [of _ "status_line (rs_status r) @ ''Location: /''"] exI) (simp only: append_assoc)
qed

section \<open>A concrete service\<close>

definition demo_claims :: refresh_claims where
  "demo_claims = \<lparr>rc_iss = ''m6'', rc_sub = ''u1'', rc_exp = 1600, rc_iat = 1000, rc_username = ''alice'',
     rc_token_type = ''refresh''\<rparr>"

definition demo_jwt :: "unit jwt_lib" where
  "demo_jwt = \<lparr>jl_ec_private = (\<lambda>_. Inr ()), jl_rsa_private = (\<lambda>_. Inr ()), jl_ec_public = (\<lambda>_. Inr ()),
     jl_rsa_public = (\<lambda>_. Inr ()), jl_encode_access = (\<lambda>_ c _. Inr (''A'' @ ac_sub c)),
     jl_encode_refresh = (\<lambda>_ c _. if c = demo_claims then Inr ''R'' else Inl ''no''),
     jl_decode_access = (\<lambda>_ _ _ t _. Inl ''no''),
     jl_decode_refresh = (\<lambda>_ iss now t _. if t = ''R'' \<and> iss = ''m6'' \<and> now < 1600 then Inr demo_claims else Inl ''no''),
     jl_hash_token = (\<lambda>t. ''#'' @ t)\<rparr>"

definition demo_auth :: "unit auth_env" where
  "demo_auth = \<lparr>ae_lib = demo_lib, ae_jwt = demo_jwt, ae_login_json = (\<lambda>_. None), ae_refresh_json = (\<lambda>_. None),
     ae_json_text = (\<lambda>_. [])\<rparr>"

definition demo_state :: "unit app_state" where
  "demo_state = \<lparr>as_db = demo_db, as_keys = \<lparr>km_jwt = \<lparr>je_encoding = (), je_decoding = (), je_algorithm = Es256,
       je_issuer = ''m6''\<rparr>, km_public_key_pem = []\<rparr>, as_access_ttl = 60, as_refresh_ttl = 600,
     as_issuer = ''m6'', as_rate_limiter = with_limits 5 900\<rparr>"

definition demo_login :: "string \<Rightarrow> string \<Rightarrow> raw_request" where
  "demo_login password nxt = \<lparr>rq_method = ''POST'', rq_path = ''/auth/login'', rq_query = None,
     rq_version = ''HTTP/1.1'', rq_headers = [],
     rq_body = form_encode [(''username'', ''alice''), (''password'', password), (''next'', nxt)]\<rparr>"

definition demo_logout :: raw_request where
  "demo_logout = \<lparr>rq_method = ''POST'', rq_path = ''/auth/logout'', rq_query = None,
     rq_version = ''HTTP/1.1'', rq_headers = [(''Cookie'', ''refresh=R'')], rq_body = []\<rparr>"

lemma demo_state_reachable: "reachable auth_init (auth_step demo_auth) demo_state"
  by (rule reachable_init) (simp add: auth_init_def demo_state_def demo_db_reachable)

definition demo_after :: "(raw_response \<times> unit app_state) outcome" where
  "demo_after = handle_login demo_auth 1000 0 (demo_login ''pw'' ''/home'') ''::1'' demo_state"

lemma demo_after_Val:
  obtains r st' where "handle_login demo_auth 1000 0 (demo_login ''pw'' ''/home'') ''::1'' demo_state = Val (r, st')"
    "grants r" "adb_fault (as_db st') = None" "do_refresh demo_auth 1200 ''R'' st' = Val (Inr (''Au1'', ''u1''))"
proof -
  have "(case demo_after of Val (r, st') \<Rightarrow> grants r \<and> adb_fault (as_db st') = None \<and>
      do_refresh demo_auth 1200 ''R'' st' = Val (Inr (''Au1'', ''u1'')) | Panic \<Rightarrow> False)" by code_simp
  then show thesis using that unfolding demo_after_def by (auto split: outcome.splits)
qed

theorem login_grants_verified_witness:
  "\<exists>r st'. handle_login demo_auth 1000 0 (demo_login ''pw'' ''/home'') ''::1'' demo_state = Val (r, st') \<and> grants r \<and>
     (\<exists>u. user_verify_password demo_lib ''alice'' ''pw'' demo_db = Inr (Some u))"
proof -
  obtain r st' where h: "handle_login demo_auth 1000 0 (demo_login ''pw'' ''/home'') ''::1'' demo_state = Val (r, st')" "grants r"
    using demo_after_Val .
  have c: "login_credentials demo_auth (demo_login ''pw'' ''/home'') = Some (''alice'', ''pw'')" by code_simp
  have "\<exists>u. user_verify_password demo_lib ''alice'' ''pw'' demo_db = Inr (Some u)"
    using login_grants_verified [OF demo_state_reachable h(1)] h(2) c by (auto simp: demo_auth_def demo_state_def)
  with h show ?thesis by blast
qed


theorem login_then_refresh_witness:
  "\<exists>r st' jwt. handle_login demo_auth 1000 0 (demo_login ''pw'' ''/home'') ''::1'' demo_state = Val (r, st') \<and>
     (\<exists>(u :: user) token. do_refresh demo_auth 1200 token st' = Val (Inr (jwt, us_id u)))"
proof -
  obtain r st' where h: "handle_login demo_auth 1000 0 (demo_login ''pw'' ''/home'') ''::1'' demo_state = Val (r, st')" "grants r"
    using demo_after_Val .
  have "\<not> is_json_request (demo_login ''pw'' ''/home'')" "returns (i64_add 1200 (as_i64 (as_access_ttl demo_state)))"
    "(1200 :: int) < 1000 + as_i64 (as_refresh_ttl demo_state)" by code_simp+
  note pre = this
  have "\<exists>u refresh_jwt access_jwt. (''Set-Cookie'', refresh_cookie demo_state refresh_jwt) \<in> set (rs_headers r) \<and>
    user_verify_password (ae_lib demo_auth) (fst (the (login_credentials demo_auth (demo_login ''pw'' ''/home''))))
      (snd (the (login_credentials demo_auth (demo_login ''pw'' ''/home'')))) (as_db demo_state) = Inr (Some u) \<and>
    do_refresh demo_auth 1200 refresh_jwt st' = Val (Inr (access_jwt, us_id u))"
    by (rule login_then_refresh [OF demo_state_reachable pre(1) h _ _ pre(3,2)])
      (auto simp: demo_auth_def demo_jwt_def demo_state_def demo_claims_def split: if_splits)
  with h show ?thesis by blast
qed


text \<open>The same login with a \<open>next\<close> that carries a line break gives a response with a line of its own.\<close>

lemma demo_split:
  "\<exists>r st' pre post. handle_login demo_auth 1000 0 (demo_login ''pw'' (''/'' @ CRLF @ ''Set-Cookie: session=evil'')) ''::1'' demo_state =
      Val (r, st') \<and> head_bytes True (rs_status r) (rs_headers r) 0 = pre @ CRLF @ ''Set-Cookie: session=evil'' @ CRLF @ post"
proof -
  let ?req = "demo_login ''pw'' (''/'' @ CRLF @ ''Set-Cookie: session=evil'')"
  have "(case handle_login demo_auth 1000 0 ?req ''::1'' demo_state of Val (r, st') \<Rightarrow> grants r | Panic \<Rightarrow> False)"
    "\<not> is_blocked 0 ''::1'' (as_rate_limiter demo_state)" "\<not> is_json_request ?req"
    "form_field (parse_form_body (rq_body ?req)) ''next'' = Some (''/'' @ CRLF @ ''Set-Cookie: session=evil'')"
    by code_simp+
  note pre = this
  then obtain r st' where h: "handle_login demo_auth 1000 0 ?req ''::1'' demo_state = Val (r, st')" "grants r"
    by (auto split: outcome.splits)
  show ?thesis using login_splits_response [OF pre(2,3) h pre(4), of True 0] h(1) by blast
qed

section \<open>Three edges\<close>

text \<open>The signature of a refresh token is checked with the keys of the moment before the database
  is asked, so a rotation ends every session issued under the keys before it.\<close>

lemma rotated_keys_end_sessions:
  "decode_refresh (ae_jwt env) (km_jwt (as_keys st)) now token = Inl e \<Longrightarrow> do_refresh env now token st = Val (Inl e)"
  by (simp add: do_refresh_def Let_def)

text \<open>A scheme in capitals is recognised as a bearer token and not removed from it, so the token is
  decoded with the scheme in front: the answer is 204 and no session ends.\<close>

lemma capital_bearer_not_stripped:
  "trim_start_matches ''bearer '' (trim_start_matches ''Bearer '' (''BEARER '' @ token)) = ''BEARER '' @ token \<and>
   starts_with ''bearer '' (to_ascii_lowercase (''BEARER '' @ token))"
proof -
  have "strip_prefix ''Bearer '' (''BEARER '' @ token) = None" "strip_prefix ''bearer '' (''BEARER '' @ token) = None"
    by simp_all
  moreover have "to_ascii_lowercase ''BEARER '' = ''bearer ''" by code_simp
  then have "to_ascii_lowercase (''BEARER '' @ token) = ''bearer '' @ to_ascii_lowercase token"
    unfolding to_ascii_lowercase_def map_append by simp
  ultimately show ?thesis
    by (auto simp only: trim_start_matches_stop starts_with_iff)
qed

text \<open>The URL standard removes tabs before a URL is parsed, so a path that starts with a slash, a
  tab and a slash passes the check and names another host.\<close>

lemma same_origin_tab:
  "is_same_origin_path (''/'' @ [CHR 0x09] @ ''/evil.example'') \<and>
   filter (\<lambda>c. c \<notin> {CHR 0x09, LF, CR}) (''/'' @ [CHR 0x09] @ ''/evil.example'') = ''//evil.example''"
  by (simp add: is_same_origin_path_def LF_def CR_def)

end
