(* ===== verification/Path_Param.thy ===== *)
theory Path_Param
  imports Request_Text
begin

text \<open>
  Path parameters, \<open>m6-core/src/path.rs\<close> and the wrappers of \<open>m6-core/src/request.rs\<close>: which values
  a route's parameter may have, and the helper that resolves a file of the site.

  \<open>char::is_alphanumeric\<close> is a table of Unicode: on ASCII it is spelled out, for other characters it
  is the parameter \<open>alnum\<close>, a predicate on their UTF-8 bytes.
\<close>

datatype path_param_error = Traversal | InvalidChars

text \<open>\<open>str::chars\<close>, each character as its bytes.\<close>

function chars_of :: "string \<Rightarrow> string list" where
  "chars_of s = (if s = [] then []
     else take (snd (utf8_chunk s)) s # chars_of (drop (snd (utf8_chunk s)) s))"
  by pat_completeness auto
termination
  by (relation "measure length") (auto simp: utf8_chunk_pos)

declare chars_of.simps [simp del]

definition is_alphanumeric :: "(string \<Rightarrow> bool) \<Rightarrow> string \<Rightarrow> bool" where
  "is_alphanumeric alnum ch = (case ch of
     [b] \<Rightarrow> if byte_val b < 128 then is_ascii_alphanumeric b else alnum ch
   | _ \<Rightarrow> alnum ch)"

definition validate_path_param :: "(string \<Rightarrow> bool) \<Rightarrow> string \<Rightarrow> bool \<Rightarrow> path_param_error + string" where
  "validate_path_param alnum v allow_slash =
     (if v = [] then Inr v
      else if contains_sub ''..'' v then Inl Traversal
      else if allow_slash then
        (if starts_with ''/'' v \<or> ends_with ''/'' v then Inl InvalidChars
         else if list_ex (\<lambda>ch. \<not> is_alphanumeric alnum ch \<and> ch \<noteq> ''-'' \<and> ch \<noteq> ''_'' \<and> ch \<noteq> ''.'' \<and> ch \<noteq> ''/'') (chars_of v)
         then Inl InvalidChars else Inr v)
      else if list_ex (\<lambda>ch. \<not> is_alphanumeric alnum ch \<and> ch \<noteq> ''-'' \<and> ch \<noteq> ''_'' \<and> ch \<noteq> ''.'') (chars_of v)
      then Inl InvalidChars else Inr v)"

datatype request_error = NotFound | Forbidden | BadRequest string | Other string

definition param_error :: "string \<Rightarrow> path_param_error \<Rightarrow> request_error" where
  "param_error name e = (case e of
     Traversal \<Rightarrow> NotFound
   | InvalidChars \<Rightarrow> BadRequest (''path param `'' @ name @ ''` is invalid: invalid characters in path parameter''))"

definition validate_segment_param :: "(string \<Rightarrow> bool) \<Rightarrow> string \<Rightarrow> string \<Rightarrow> request_error + unit" where
  "validate_segment_param alnum name v = map_sum (param_error name) (\<lambda>_. ()) (validate_path_param alnum v False)"

definition validate_wildcard_param :: "(string \<Rightarrow> bool) \<Rightarrow> string \<Rightarrow> string \<Rightarrow> request_error + unit" where
  "validate_wildcard_param alnum name v = map_sum (param_error name) (\<lambda>_. ()) (validate_path_param alnum v True)"

text \<open>\<open>PathBuf::join\<close> and \<open>Path::components\<close> on a Unix path.\<close>

definition path_join :: "string \<Rightarrow> string \<Rightarrow> string" where
  "path_join base rel = (if starts_with ''/'' rel then rel
     else if base = [] \<or> ends_with ''/'' base then base @ rel else base @ ''/'' @ rel)"

definition has_parent_dir :: "string \<Rightarrow> bool" where
  "has_parent_dir rel \<longleftrightarrow> ''..'' \<in> set (split_on CHR ''/'' rel)"

definition validated_path :: "string \<Rightarrow> string \<Rightarrow> request_error + string" where
  "validated_path site_dir rel =
     (let abs = path_join site_dir rel in
      if has_parent_dir rel then Inl (BadRequest ''path traversal not allowed'') else Inr abs)"

section \<open>A validated parameter stays where it is put\<close>

text \<open>How the file system follows the segments of a relative path from a directory.\<close>

fun walk :: "string list \<Rightarrow> string list \<Rightarrow> string list" where
  "walk dir [] = dir"
| "walk dir (seg # segs) =
     (if seg = [] \<or> seg = ''.'' then walk dir segs
      else if seg = ''..'' then walk (butlast dir) segs
      else walk (dir @ [seg]) segs)"

lemma walk_prefix: "''..'' \<notin> set segs \<Longrightarrow> prefix dir (walk dir segs)"
  by (induction dir segs rule: walk.induct) (auto dest: append_prefixD)

lemma split_on_sublist: "s \<in> set (split_on d v) \<Longrightarrow> sublist s v"
proof -
  have "prefix (hd (split_on d v)) v \<and> (\<forall>s \<in> set (tl (split_on d v)). sublist s v)"
  proof (induction v)
    case (Cons c v)
    obtain h t where "split_on d v = h # t" by (cases "split_on d v") auto
    with Cons show ?case by (auto simp: sublist_Cons_right)
  qed simp
  then have "sublist (hd (split_on d v)) v" "\<And>s. s \<in> set (tl (split_on d v)) \<Longrightarrow> sublist s v" by auto
  then show "s \<in> set (split_on d v) \<Longrightarrow> sublist s v"
    by (cases "split_on d v") auto
qed

lemma contains_sub_sublist: "contains_sub p v \<longleftrightarrow> sublist p v"
proof -
  have "find_sub p v = None \<longleftrightarrow> \<not> sublist p v"
    by (induction p v rule: find_sub.induct) (auto simp: sublist_Cons_right starts_with_prefix split: if_splits)
  then show ?thesis by (simp add: contains_sub_def)
qed

lemma ascii_own_char: "b \<in> set v \<Longrightarrow> byte_val b < 128 \<Longrightarrow> [b] \<in> set (chars_of v)"
proof (induction v rule: chars_of.induct)
  case (1 v)
  let ?n = "snd (utf8_chunk v)"
  have v: "v \<noteq> []" using 1(2) by auto
  consider "b \<in> set (take ?n v)" | "b \<in> set (drop ?n v)"
    using 1(2) by (metis append_take_drop_id Un_iff set_append)
  then show ?case
  proof cases
    case 1
    then have "?n = 1" using utf8_chunk_bytes [of v] \<open>byte_val b < 128\<close> by (auto simp: list_all_iff not_less)
    with 1 v have "take ?n v = [b]" by (cases v) auto
    then show ?thesis using v by (subst chars_of.simps) simp
  next
    case 2
    then show ?thesis using 1 v by (subst chars_of.simps) simp
  qed
qed

lemma validate_path_param_Inr:
  "validate_path_param alnum v allow_slash = Inr w \<longleftrightarrow> w = v \<and> (v = [] \<or>
     (\<not> sublist ''..'' v \<and> (allow_slash \<longrightarrow> \<not> starts_with ''/'' v \<and> \<not> ends_with ''/'' v) \<and>
      (\<forall>ch \<in> set (chars_of v). is_alphanumeric alnum ch \<or> ch \<in> {''-'', ''_'', ''.''} \<or> allow_slash \<and> ch = ''/'')))"
  by (auto simp: validate_path_param_def contains_sub_sublist list_ex_iff)

lemma param_bytes:
  assumes "validate_path_param alnum v allow_slash = Inr w" "b \<in> set v" "byte_val b < 128"
  shows "is_ascii_alphanumeric b \<or> b \<in> set ''-_.'' \<or> allow_slash \<and> b = CHR ''/''"
proof -
  have "[b] \<in> set (chars_of v)" using ascii_own_char assms(2,3) by blast
  moreover have "v \<noteq> []" using assms(2) by auto
  ultimately show ?thesis
    using assms(1,3) by (auto simp: validate_path_param_Inr is_alphanumeric_def)
qed

lemma validated_walk:
  assumes "validate_path_param alnum v allow_slash = Inr w"
  shows "prefix dir (walk dir (split_on CHR ''/'' v))" "\<not> starts_with ''/'' v"
proof -
  have "''..'' \<notin> set (split_on CHR ''/'' v)"
    using assms split_on_sublist [of "''..''" "CHR ''/''" v] by (auto simp: validate_path_param_Inr)
  then show "prefix dir (walk dir (split_on CHR ''/'' v))" by (rule walk_prefix)
  have "\<not> is_ascii_alphanumeric CHR ''/''" "byte_val CHR ''/'' < 128"
    by (simp_all add: ascii_class_defs byte_val_def)
  then have "allow_slash \<or> CHR ''/'' \<notin> set v" using param_bytes [OF assms] by fastforce
  then show "\<not> starts_with ''/'' v"
    using assms by (cases allow_slash) (auto simp: validate_path_param_Inr starts_with_iff)
qed

text \<open>A parameter that passes \<open>validate_path_param\<close> is handed on unchanged and stays below the
  directory it is appended to, whatever that is: it is not absolute, following its segments
  never leaves the directory, every ASCII byte of it is a letter, a digit, \<open>-\<close>, \<open>_\<close>, \<open>.\<close> or, for a
  wildcard, \<open>/\<close>, so it holds no NUL, no control byte and no backslash, and an ordinary parameter is
  one segment.\<close>

theorem validate_path_param_confined:
  assumes "validate_path_param alnum v allow_slash = Inr w"
  shows "w = v \<and> prefix dir (walk dir (split_on CHR ''/'' v)) \<and> \<not> starts_with ''/'' v \<and>
    list_all (\<lambda>b. 128 \<le> byte_val b \<or> is_ascii_alphanumeric b \<or> b \<in> set ''-_.'' \<or> allow_slash \<and> b = CHR ''/'') v \<and>
    (allow_slash \<or> split_on CHR ''/'' v = [v])"
proof -
  have bytes: "list_all (\<lambda>b. 128 \<le> byte_val b \<or> is_ascii_alphanumeric b \<or> b \<in> set ''-_.'' \<or> allow_slash \<and> b = CHR ''/'') v"
    using param_bytes [OF assms] by (fastforce simp: list_all_iff not_less)
  have slash: "\<not> is_ascii_alphanumeric CHR ''/''" "byte_val CHR ''/'' < 128"
    by (simp_all add: ascii_class_defs byte_val_def)
  then have one: "allow_slash \<or> CHR ''/'' \<notin> set v" using bytes by (auto simp: list_all_iff)
  then show ?thesis
    using assms validated_walk [OF assms] bytes split_on_no_delim [of "CHR ''/''" v] by (auto simp: validate_path_param_Inr)
qed

theorem validate_path_param_confined_witness:
  "prefix [''srv'', ''site''] (walk [''srv'', ''site''] (split_on CHR ''/'' ''css/main.min.css''))"
proof -
  have "validate_path_param (\<lambda>_. False) ''css/main.min.css'' True = Inr ''css/main.min.css''" by code_simp
  then show ?thesis using validate_path_param_confined [of "\<lambda>_. False" "''css/main.min.css''" True] by blast
qed

text \<open>The file helper looks for \<open>..\<close> only, and joining an absolute path replaces the directory, so an
  absolute name leaves the site.\<close>

lemma validated_path_absolute: "validated_path site_dir ''/etc/passwd'' = Inr ''/etc/passwd''"
  by (simp add: validated_path_def path_join_def has_parent_dir_def starts_with_def)

end
