(* ===== verification/Access_Gate.thy ===== *)
theory Access_Gate
  imports Request_Text Http_Headers
begin

text \<open>
  Who may see what: the token check of the proxy (\<open>m6-http/src/auth.rs\<close>), the route table with its
  \<open>require\<close> entries (\<open>m6-http/src/router.rs\<close>) and the gate of the metrics endpoints
  (\<open>m6-http/src/health.rs\<close>, \<open>m6-core/src/monitoring.rs\<close>).

  The jsonwebtoken crate is the parameter \<open>verify\<close> (a key and a token give the claims or the text of
  an error), the matchit crate a record of its three operations, the glob crate a function from a
  pattern to the paths it finds. \<open>IpAddr::parse\<close> with \<open>to_canonical\<close> is the parameter \<open>ip_of\<close>.
\<close>

section \<open>Tokens\<close>

definition combined_cookie_header :: "headers \<Rightarrow> string option" where
  "combined_cookie_header hs = (case find_all hs ''cookie'' of
     [] \<Rightarrow> None
   | parts \<Rightarrow> Some (join_with ''; '' parts))"

record 'x claims =
  cl_sub :: "string option"
  cl_iss :: "string option"
  cl_exp :: "nat option"
  cl_groups :: "string list option"
  cl_roles :: "string list option"
  cl_extra :: 'x

datatype require = Role string | Group string

definition require_parse :: "string \<Rightarrow> require option" where
  "require_parse r = (case strip_prefix ''group:'' r of
     Some g \<Rightarrow> Some (Group g)
   | None \<Rightarrow> map_option Role (strip_prefix ''role:'' r))"

definition check_require :: "'x claims \<Rightarrow> string \<Rightarrow> bool" where
  "check_require c r = (case require_parse r of
     Some (Group g) \<Rightarrow> (case cl_groups c of Some l \<Rightarrow> g \<in> set l | None \<Rightarrow> False)
   | Some (Role n) \<Rightarrow> (case cl_roles c of Some l \<Rightarrow> n \<in> set l | None \<Rightarrow> False)
   | None \<Rightarrow> False)"

text \<open>The loop over the cookies, which \<open>extract_token\<close> and \<open>extract_refresh_cookie\<close> share: the first
  non-empty value after the prefix.\<close>

fun cookie_scan :: "string \<Rightarrow> string list \<Rightarrow> string option" where
  "cookie_scan p [] = None"
| "cookie_scan p (c # cs) = (case strip_prefix p (trim c) of
     Some val \<Rightarrow> if trim val \<noteq> [] then Some (trim val) else cookie_scan p cs
   | None \<Rightarrow> cookie_scan p cs)"

definition bearer_token :: "string option \<Rightarrow> string option" where
  "bearer_token auth = Option.bind auth (\<lambda>a. Option.bind (strip_prefix ''Bearer '' a) (\<lambda>t.
     if trim t \<noteq> [] then Some (trim t) else None))"

definition extract_token :: "string option \<Rightarrow> string option \<Rightarrow> string option" where
  "extract_token auth_header cookies = (case bearer_token auth_header of
     Some t \<Rightarrow> Some t
   | None \<Rightarrow> Option.bind cookies (\<lambda>cs. cookie_scan ''session='' (split_on CHR '';'' cs)))"

definition extract_refresh_cookie :: "string option \<Rightarrow> string option" where
  "extract_refresh_cookie cookies =
     Option.bind cookies (\<lambda>cs. cookie_scan ''refresh='' (split_on CHR '';'' cs))"

definition is_browser_request :: "string option \<Rightarrow> bool" where
  "is_browser_request accept = (case accept of Some a \<Rightarrow> contains_sub ''text/html'' a | None \<Rightarrow> False)"

datatype refusal = NoToken | Invalid string | Insufficient

definition authorise :: "('k \<Rightarrow> string \<Rightarrow> string + 'x claims) \<Rightarrow> 'k \<Rightarrow> headers \<Rightarrow> string \<Rightarrow> refusal + 'x claims" where
  "authorise verify key hs r =
     (case extract_token (headers_get hs ''authorization'') (combined_cookie_header hs) of
        None \<Rightarrow> Inl NoToken
      | Some t \<Rightarrow> (case verify key t of
          Inl e \<Rightarrow> Inl (Invalid (''invalid token: '' @ e))
        | Inr c \<Rightarrow> if check_require c r then Inr c else Inl Insufficient))"

section \<open>The route table\<close>

record route_entry =
  re_path :: string
  re_backend :: string
  re_require :: "string option"

record 'r matchit =
  mi_new :: 'r
  mi_insert :: "'r \<Rightarrow> string \<Rightarrow> route_entry \<Rightarrow> string + 'r"
  mi_at :: "'r \<Rightarrow> string \<Rightarrow> route_entry option"

record 'r route_table =
  rt_router :: 'r
  rt_entries :: "route_entry list"
  rt_has_protected_routes :: bool

record route_config =
  rc_path :: string
  rc_backend :: string
  rc_require :: "string option"
  rc_cache :: "string option"

record route_group_config =
  rg_glob :: string
  rg_path :: string
  rg_backend :: string
  rg_require :: "string option"

text \<open>The parts of a Unix path that \<open>Path\<close> gives for a path with no trailing
  slash, as the glob crate yields them.\<close>

definition rfind_char :: "char \<Rightarrow> string \<Rightarrow> nat option" where
  "rfind_char c s = map_option (\<lambda>i. length s - 1 - i) (find_char c (rev s))"

definition file_name :: "string \<Rightarrow> string" where
  "file_name p = (let n = last (split_on CHR ''/'' p) in if n = ''..'' \<or> n = ''.'' then [] else n)"

definition file_stem :: "string \<Rightarrow> string" where
  "file_stem p = (let n = file_name p in
     case rfind_char CHR ''.'' n of Some i \<Rightarrow> if i = 0 then n else take i n | None \<Rightarrow> n)"

definition parent_dir :: "string \<Rightarrow> string" where
  "parent_dir p = (case rfind_char CHR ''/'' p of
     Some i \<Rightarrow> if i = 0 then ''/'' else take i p
   | None \<Rightarrow> [])"

definition glob_prefix :: "string \<Rightarrow> string" where
  "glob_prefix g =
     (let star = (case find_char CHR ''*'' g of Some i \<Rightarrow> i | None \<Rightarrow> length g);
          question = (case find_char CHR ''?'' g of Some i \<Rightarrow> i | None \<Rightarrow> length g);
          first_wild = min star question
      in take (case rfind_char CHR ''/'' (take first_wild g) of Some p \<Rightarrow> p + 1 | None \<Rightarrow> 0) g)"

definition expand_glob_vars :: "string \<Rightarrow> string \<Rightarrow> string \<Rightarrow> string" where
  "expand_glob_vars template file_path glob_pattern =
     (let pre = glob_prefix glob_pattern;
          relpath = (case strip_prefix pre file_path of Some r \<Rightarrow> r | None \<Rightarrow> file_path);
          dir = parent_dir file_path;
          rel_dir = (case strip_prefix pre dir of Some r \<Rightarrow> r | None \<Rightarrow> dir)
      in replace_all ''{dir}'' rel_dir (replace_all ''{relpath}'' relpath
           (replace_all ''{filename}'' (file_name file_path) (replace_all ''{stem}'' (file_stem file_path) template))))"

text \<open>\<open>RouteTable::from_config\<close>: the explicit routes, where an insert that fails is an error, and then
  the groups, where it skips the file.\<close>

fun add_routes :: "'r matchit \<Rightarrow> route_config list \<Rightarrow> 'r \<Rightarrow> route_entry list \<Rightarrow> string + ('r \<times> route_entry list)" where
  "add_routes mi [] r es = Inr (r, es)"
| "add_routes mi (c # cs) r es =
     (let e = \<lparr>re_path = rc_path c, re_backend = rc_backend c, re_require = rc_require c\<rparr> in
      case mi_insert mi r (rc_path c) e of
        Inl err \<Rightarrow> Inl (''router insert error for '' @ rc_path c @ '': '' @ err)
      | Inr r \<Rightarrow> add_routes mi cs r (es @ [e]))"

definition add_group_file :: "'r matchit \<Rightarrow> route_group_config \<Rightarrow> string \<Rightarrow> string option \<Rightarrow> 'r \<times> route_entry list \<Rightarrow>
    'r \<times> route_entry list" where
  "add_group_file mi g pattern file res = (case file of
     None \<Rightarrow> res
   | Some file_path \<Rightarrow>
       (let (r, es) = res;
            url_path = expand_glob_vars (rg_path g) file_path pattern;
            e = \<lparr>re_path = url_path, re_backend = rg_backend g, re_require = rg_require g\<rparr>
        in if mi_at mi r url_path \<noteq> None then (r, es)
           else case mi_insert mi r url_path e of Inl _ \<Rightarrow> (r, es) | Inr r \<Rightarrow> (r, es @ [e])))"

definition group_pattern :: "string \<Rightarrow> route_group_config \<Rightarrow> string" where
  "group_pattern site_dir g = (if starts_with ''/'' (rg_glob g) then rg_glob g
     else if site_dir = [] \<or> ends_with ''/'' site_dir then site_dir @ rg_glob g
     else site_dir @ ''/'' @ rg_glob g)"

definition add_group :: "'r matchit \<Rightarrow> (string \<Rightarrow> string option list option) \<Rightarrow> string \<Rightarrow> route_group_config \<Rightarrow>
    'r \<times> route_entry list \<Rightarrow> 'r \<times> route_entry list" where
  "add_group mi glob site_dir g res = (case glob (group_pattern site_dir g) of
     None \<Rightarrow> res
   | Some files \<Rightarrow> fold (add_group_file mi g (group_pattern site_dir g)) files res)"

definition table_from_config :: "'r matchit \<Rightarrow> (string \<Rightarrow> string option list option) \<Rightarrow> string \<Rightarrow>
    route_config list \<Rightarrow> route_group_config list \<Rightarrow> string + 'r route_table" where
  "table_from_config mi glob site_dir routes route_groups =
     (case add_routes mi routes (mi_new mi) [] of
        Inl e \<Rightarrow> Inl e
      | Inr res \<Rightarrow>
          (let (r, es) = fold (add_group mi glob site_dir) route_groups res
           in Inr \<lparr>rt_router = r, rt_entries = es,
                   rt_has_protected_routes = list_ex (\<lambda>e. re_require e \<noteq> None) es\<rparr>))"

definition table_at :: "'r matchit \<Rightarrow> 'r route_table \<Rightarrow> string \<Rightarrow> route_entry option" where
  "table_at mi t path = mi_at mi (rt_router t) path"

definition trailing_slash_redirect :: "'r matchit \<Rightarrow> 'r route_table \<Rightarrow> string \<Rightarrow> string option" where
  "trailing_slash_redirect mi t path = (if path = ''/'' then None
     else let toggled = (case strip_suffix ''/'' path of Some s \<Rightarrow> s | None \<Rightarrow> path @ ''/'') in
       if mi_at mi (rt_router t) toggled \<noteq> None then Some toggled else None)"

definition requires_auth :: "'r matchit \<Rightarrow> 'r route_table \<Rightarrow> string \<Rightarrow> bool" where
  "requires_auth mi t path \<longleftrightarrow> rt_has_protected_routes t \<and>
     (case table_at mi t path of Some e \<Rightarrow> re_require e \<noteq> None | None \<Rightarrow> False)"

section \<open>The gate of the metrics\<close>

text \<open>The comparison of two credentials in constant time, byte by byte.\<close>

definition credential_matches :: "string \<Rightarrow> string \<Rightarrow> bool" where
  "credential_matches presented expected =
     (if length presented \<noteq> length expected \<or> expected = [] then False
      else fold (\<lambda>(x, y) diff. or diff (xor (byte_val x) (byte_val y))) (zip presented expected) (0 :: nat) = 0)"

definition bearer_rest :: "string \<Rightarrow> string option" where
  "bearer_rest v = (case strip_prefix ''Bearer '' v of
     Some r \<Rightarrow> Some r
   | None \<Rightarrow> if 7 \<le> length v \<and> eq_ignore_ascii_case (take 7 v) ''bearer '' then Some (drop 7 v) else None)"

definition metrics_authorised :: "headers \<Rightarrow> string option \<Rightarrow> bool" where
  "metrics_authorised hs configured_token = (case configured_token of
     Some expected \<Rightarrow>
       if expected = [] then False
       else (case Option.bind (headers_get hs ''authorization'') bearer_rest of
         Some r \<Rightarrow> credential_matches (trim r) expected
       | None \<Rightarrow> False)
   | None \<Rightarrow> False)"

datatype perf_outcome = Traffic bytes | TrafficError bytes | Disabled | Unauthorised | Forbidden | PerfOk bytes

definition perf_refusal :: "headers \<Rightarrow> string option \<Rightarrow> perf_outcome option" where
  "perf_refusal hs configured_token = (case configured_token of
     Some t \<Rightarrow>
       if t = [] then Some Disabled
       else if \<not> metrics_authorised hs configured_token then Some Unauthorised else None
   | None \<Rightarrow> Some Disabled)"

text \<open>The bodies of the two reports are the JSON text of what they publish.\<close>

definition perf_response :: "perf_outcome \<Rightarrow> nat \<times> headers \<times> bytes" where
  "perf_response out =
     (let hs = [(''Content-Type'', ''application/json; charset=utf-8''), (''Cache-Control'', ''no-store''),
                (''X-Robots-Tag'', ''noindex, nofollow'')]
      in case out of
        Disabled \<Rightarrow> (404, hs, ''{\"error\":\"not found\"}'')
      | Unauthorised \<Rightarrow> (401, hs @ [(''WWW-Authenticate'', ''Bearer'')], ''{\"error\":\"unauthorised\"}'')
      | Forbidden \<Rightarrow> (403, hs, ''{\"error\":\"forbidden\"}'')
      | PerfOk body \<Rightarrow> (200, hs, body)
      | Traffic body \<Rightarrow> (200, hs, body)
      | TrafficError body \<Rightarrow> (503, hs, body))"

record 'ip health_config =
  hc_enabled :: bool
  hc_path :: string
  hc_perf_path :: string
  hc_traffic_path :: string
  hc_metrics_token :: "string option"
  hc_metrics_require :: "string option"
  hc_metrics_peer_ips :: "'ip list option"

datatype gate = Open | Refused perf_outcome

definition peer_listed :: "(string \<Rightarrow> 'ip option) \<Rightarrow> 'ip health_config \<Rightarrow> string \<Rightarrow> bool \<Rightarrow> bool" where
  "peer_listed ip_of h client_ip from_internal = (case hc_metrics_peer_ips h of
     None \<Rightarrow> True
   | Some peers \<Rightarrow> \<not> from_internal \<and>
       (case ip_of client_ip of Some ip \<Rightarrow> ip \<in> set peers | None \<Rightarrow> False))"

definition metrics_gate :: "('k \<Rightarrow> string \<Rightarrow> string + 'x claims) \<Rightarrow> (string \<Rightarrow> 'ip option) \<Rightarrow> 'ip health_config \<Rightarrow>
    'k option \<Rightarrow> headers \<Rightarrow> string \<Rightarrow> bool \<Rightarrow> gate" where
  "metrics_gate verify ip_of h key hs client_ip from_internal =
     (if \<not> peer_listed ip_of h client_ip from_internal then Refused Disabled
      else case hc_metrics_require h of
        Some r \<Rightarrow> (case key of
            None \<Rightarrow> Refused Unauthorised
          | Some k \<Rightarrow> (case authorise verify k hs r of
              Inr _ \<Rightarrow> Open
            | Inl Insufficient \<Rightarrow> Refused Forbidden
            | Inl NoToken \<Rightarrow> Refused Unauthorised
            | Inl (Invalid _) \<Rightarrow> Refused Unauthorised))
      | None \<Rightarrow> (case perf_refusal hs (hc_metrics_token h) of
            Some refused \<Rightarrow> Refused refused
          | None \<Rightarrow> Open))"

section \<open>Lemmas\<close>

lemma credential_diff_zero:
  "length p = length e \<Longrightarrow>
     fold (\<lambda>(x, y) diff. or diff (xor (byte_val x) (byte_val y))) (zip p e) (d :: nat) = 0 \<longleftrightarrow> d = 0 \<and> p = e"
proof (induction p e arbitrary: d rule: list_induct2)
  case (Cons x xs y ys)
  have z: "or a b = 0 \<longleftrightarrow> a = 0 \<and> b = 0" "xor a b = 0 \<longleftrightarrow> a = b" for a b :: nat
    by (auto simp: bit_eq_iff bit_simps)
  have "byte_val x = byte_val y \<longleftrightarrow> x = y" by (simp add: byte_val_def)
  then show ?case using Cons.IH [of "or d (xor (byte_val x) (byte_val y))"] by (auto simp: z)
qed simp

lemma credential_matches_iff: "credential_matches p e \<longleftrightarrow> e \<noteq> [] \<and> p = e"
  using credential_diff_zero [of p e 0] by (auto simp: credential_matches_def)

lemma authorise_Inr:
  "authorise verify key hs r = Inr c \<longleftrightarrow>
     (\<exists>t. extract_token (headers_get hs ''authorization'') (combined_cookie_header hs) = Some t \<and>
          verify key t = Inr c \<and> check_require c r)"
  by (auto simp: authorise_def split: option.splits sum.splits if_splits)

text \<open>What the route table needs of matchit: a lookup returns an entry that was inserted.\<close>

definition matchit_ok :: "('r \<Rightarrow> route_entry set) \<Rightarrow> 'r matchit \<Rightarrow> bool" where
  "matchit_ok stored mi \<longleftrightarrow> stored (mi_new mi) = {} \<and>
     (\<forall>r p e r'. mi_insert mi r p e = Inr r' \<longrightarrow> stored r' = insert e (stored r)) \<and>
     (\<forall>r p e. mi_at mi r p = Some e \<longrightarrow> e \<in> stored r)"

lemma add_routes_stored:
  "matchit_ok stored mi \<Longrightarrow> stored r = set es \<Longrightarrow> add_routes mi cs r es = Inr (r', es') \<Longrightarrow> stored r' = set es'"
proof (induction mi cs r es rule: add_routes.induct)
  case (2 mi c cs r es)
  then show ?case by (auto simp: Let_def matchit_ok_def split: sum.splits)
qed simp

lemma add_group_file_stored:
  "matchit_ok stored mi \<Longrightarrow> stored (fst res) = set (snd res) \<Longrightarrow>
     stored (fst (add_group_file mi g pat f res)) = set (snd (add_group_file mi g pat f res))"
  by (auto simp: add_group_file_def matchit_ok_def Let_def split: option.splits sum.splits prod.splits)

lemma fold_stored:
  assumes "\<And>x res. stored (fst res) = set (snd res) \<Longrightarrow> stored (fst (f x res)) = set (snd (f x res))"
    and "stored (fst res) = set (snd res)"
  shows "stored (fst (fold f xs res)) = set (snd (fold f xs res))"
  using assms(2) by (induction xs arbitrary: res) (auto simp: assms(1))

lemma add_group_stored:
  "matchit_ok stored mi \<Longrightarrow> stored (fst res) = set (snd res) \<Longrightarrow>
     stored (fst (add_group mi glob dir g res)) = set (snd (add_group mi glob dir g res))"
  by (auto simp: add_group_def split: option.split intro!: fold_stored add_group_file_stored)

lemma table_stored:
  assumes "matchit_ok stored mi" "table_from_config mi glob dir routes groups = Inr t"
  shows "stored (rt_router t) = set (rt_entries t)"
    and "rt_has_protected_routes t = (\<exists>e \<in> set (rt_entries t). re_require e \<noteq> None)"
proof -
  obtain r es where a: "add_routes mi routes (mi_new mi) [] = Inr (r, es)"
    using assms(2) by (auto simp: table_from_config_def split: sum.splits)
  have "stored (fst (r, es)) = set (snd (r, es))"
    using add_routes_stored [OF assms(1) _ a] assms(1) by (simp add: matchit_ok_def)
  then have "stored (fst (fold (add_group mi glob dir) groups (r, es))) = set (snd (fold (add_group mi glob dir) groups (r, es)))"
    by (intro fold_stored add_group_stored [OF assms(1)])
  then show "stored (rt_router t) = set (rt_entries t)"
    "rt_has_protected_routes t = (\<exists>e \<in> set (rt_entries t). re_require e \<noteq> None)"
    using assms(2) a by (simp_all add: table_from_config_def list_ex_iff split: prod.splits)
      (erule subst; simp)+
qed

text \<open>The shortcut of \<open>requires_auth\<close> is exact: with a table built from a configuration, the flag never
  hides a route that has a \<open>require\<close>.\<close>

lemma requires_auth_exact:
  assumes "matchit_ok stored mi" "table_from_config mi glob dir routes groups = Inr t"
  shows "requires_auth mi t path \<longleftrightarrow> (\<exists>e r. table_at mi t path = Some e \<and> re_require e = Some r)"
proof -
  have "e \<in> set (rt_entries t)" if "mi_at mi (rt_router t) path = Some e" for e
    using that table_stored(1) [OF assms] assms(1) unfolding matchit_ok_def by blast
  then show ?thesis
    using table_stored(2) [OF assms] by (auto simp: requires_auth_def table_at_def split: option.splits)
qed

text \<open>A file that lies directly in the directory of the glob has no directory below the prefix; the
  prefix ends with a slash, which the directory has not, so \<open>{dir}\<close> becomes the absolute directory.\<close>

lemma dir_variable_absolute:
  "expand_glob_vars ''/x/{dir}'' ''/srv/site/posts/a.md'' ''/srv/site/posts/*.md'' = ''/x//srv/site/posts''"
  by code_simp

end
