(* ===== verification/Cache_Control.thy ===== *)
theory Cache_Control
  imports Http_Headers
begin

text \<open>
  The \<open>Cache-Control\<close> semantics of \<open>src/m6-http/src/cache.rs\<close>: the directive splitter, the
  response directives (\<open>CacheControl\<close>), the request directives (\<open>RequestDirectives\<close>), and the
  decisions whether a response may be stored (\<open>should_cache\<close>, \<open>status_is_storable\<close>,
  \<open>request_permits_storage\<close>, \<open>strip_set_cookie\<close>, the two method gates).
\<close>

section \<open>Splitting a field into directives\<close>

type_synonym directive = "string \<times> string option"

definition push_directive :: "directive list \<Rightarrow> string \<Rightarrow> directive list" where
  "push_directive out raw =
     (let t = trim raw in
      if t = [] then out
      else
        (case split_once CHR ''='' t of
           Some (n, v) \<Rightarrow>
             (let v = trim v;
                  v = (case Option.bind (strip_prefix [CHR 0x22] v) (strip_suffix [CHR 0x22]) of
                         Some r \<Rightarrow> r | None \<Rightarrow> v)
              in out @ [(to_ascii_lowercase (trim n), Some v)])
         | None \<Rightarrow> out @ [(to_ascii_lowercase t, None)]))"

text \<open>The loop over the characters; \<open>cur\<close>, \<open>in_quotes\<close> and \<open>escaped\<close> are its variables. The bytes
  it looks at are ASCII, so going byte by byte is going character by character.\<close>

fun split_loop :: "directive list \<Rightarrow> string \<Rightarrow> bool \<Rightarrow> bool \<Rightarrow> string \<Rightarrow> directive list" where
  "split_loop out cur in_quotes escaped [] = push_directive out cur"
| "split_loop out cur in_quotes escaped (ch # cs) =
     (if ch = CHR 0x5C \<and> in_quotes \<and> \<not> escaped then split_loop out (cur @ [ch]) in_quotes True cs
      else if ch = CHR 0x22 \<and> \<not> escaped then split_loop out (cur @ [ch]) (\<not> in_quotes) escaped cs
      else if ch = CHR '','' \<and> \<not> in_quotes then split_loop (push_directive out cur) [] in_quotes escaped cs
      else split_loop out (cur @ [ch]) in_quotes False cs)"

definition split_directives :: "string \<Rightarrow> directive list" where
  "split_directives value = split_loop [] [] False False value"

definition directive_secs :: "string option \<Rightarrow> nat option" where
  "directive_secs v = Option.bind v (\<lambda>v. parse_uint 64 (trim v))"

section \<open>Response directives\<close>

record cache_control =
  cc_no_store :: bool
  cc_no_cache :: bool
  cc_private :: bool
  cc_public :: bool
  cc_must_revalidate :: bool
  cc_max_age :: "nat option"
  cc_s_maxage :: "nat option"
  cc_swr :: "nat option"

definition cc_default :: cache_control where
  "cc_default =
     \<lparr>cc_no_store = False, cc_no_cache = False, cc_private = False, cc_public = False,
      cc_must_revalidate = False, cc_max_age = None, cc_s_maxage = None, cc_swr = None\<rparr>"

definition cc_directive :: "cache_control \<Rightarrow> directive \<Rightarrow> cache_control" where
  "cc_directive cc d =
     (let n = fst d; secs = directive_secs (snd d) in
      if n = ''no-store'' then cc\<lparr>cc_no_store := True\<rparr>
      else if n = ''no-cache'' then cc\<lparr>cc_no_cache := True\<rparr>
      else if n = ''private'' then cc\<lparr>cc_private := True\<rparr>
      else if n = ''public'' then cc\<lparr>cc_public := True\<rparr>
      else if n = ''must-revalidate'' then cc\<lparr>cc_must_revalidate := True\<rparr>
      else if n = ''max-age'' then cc\<lparr>cc_max_age := secs\<rparr>
      else if n = ''s-maxage'' then cc\<lparr>cc_s_maxage := secs\<rparr>
      else if n = ''stale-while-revalidate'' then cc\<lparr>cc_swr := secs\<rparr>
      else cc)"

definition cc_line :: "cache_control \<Rightarrow> string \<times> string \<Rightarrow> cache_control" where
  "cc_line cc kv =
     (if \<not> eq_ignore_ascii_case (fst kv) ''cache-control'' then cc
      else foldl cc_directive cc (split_directives (snd kv)))"

definition cache_control_parse :: "headers \<Rightarrow> cache_control" where
  "cache_control_parse hs = foldl cc_line cc_default hs"

text \<open>Durations are nanoseconds.\<close>

definition from_secs :: "nat \<Rightarrow> nat" where
  "from_secs n = n * 1000000000"

definition as_secs :: "nat \<Rightarrow> nat" where
  "as_secs d = d div 1000000000"

definition shared_lifetime :: "cache_control \<Rightarrow> nat option" where
  "shared_lifetime cc =
     (if cc_no_cache cc then Some 0
      else map_option from_secs (case cc_s_maxage cc of Some n \<Rightarrow> Some n | None \<Rightarrow> cc_max_age cc))"

record directives =
  d_lifetime :: "nat option"
  d_swr :: nat
  d_no_cache :: bool

definition cache_directives :: "headers \<Rightarrow> directives" where
  "cache_directives hs =
     (let cc = cache_control_parse hs in
      \<lparr>d_lifetime = shared_lifetime cc,
       d_swr = (case cc_swr cc of Some n \<Rightarrow> from_secs n | None \<Rightarrow> 0),
       d_no_cache = cc_no_cache cc\<rparr>)"

section \<open>Request directives\<close>

record request_directives =
  rd_no_cache :: bool
  rd_no_store :: bool
  rd_max_age :: "nat option"
  rd_max_stale :: "nat option option"
  rd_min_fresh :: "nat option"
  rd_only_if_cached :: bool

definition rd_default :: request_directives where
  "rd_default =
     \<lparr>rd_no_cache = False, rd_no_store = False, rd_max_age = None, rd_max_stale = None,
      rd_min_fresh = None, rd_only_if_cached = False\<rparr>"

definition rd_directive :: "request_directives \<Rightarrow> directive \<Rightarrow> request_directives" where
  "rd_directive d kv =
     (let k = to_ascii_lowercase (fst kv); secs = directive_secs (snd kv) in
      if k = ''no-cache'' then d\<lparr>rd_no_cache := True\<rparr>
      else if k = ''no-store'' then d\<lparr>rd_no_store := True\<rparr>
      else if k = ''max-age'' then d\<lparr>rd_max_age := secs\<rparr>
      else if k = ''min-fresh'' then d\<lparr>rd_min_fresh := secs\<rparr>
      else if k = ''max-stale'' then d\<lparr>rd_max_stale := Some secs\<rparr>
      else if k = ''only-if-cached'' then d\<lparr>rd_only_if_cached := True\<rparr>
      else d)"

definition rd_line :: "request_directives \<times> bool \<Rightarrow> string \<times> string \<Rightarrow> request_directives \<times> bool" where
  "rd_line s kv =
     (if eq_ignore_ascii_case (fst kv) ''cache-control''
      then (foldl rd_directive (fst s) (split_directives (snd kv)), True)
      else s)"

definition pragma_no_cache :: "string \<times> string \<Rightarrow> bool" where
  "pragma_no_cache kv \<longleftrightarrow>
     eq_ignore_ascii_case (fst kv) ''pragma'' \<and>
     list_ex (\<lambda>t. eq_ignore_ascii_case (trim t) ''no-cache'') (split_on CHR '','' (snd kv))"

definition request_directives_parse :: "headers \<Rightarrow> request_directives" where
  "request_directives_parse hs =
     (let (d, saw) = foldl rd_line (rd_default, False) hs in
      if saw then d
      else foldl (\<lambda>d kv. if pragma_no_cache kv then d\<lparr>rd_no_cache := True\<rparr> else d) d hs)"

section \<open>What may be stored\<close>

definition method_may_read_cache :: "string \<Rightarrow> bool" where
  "method_may_read_cache m \<longleftrightarrow> m = ''GET'' \<or> m = ''HEAD''"

definition method_may_write_cache :: "string \<Rightarrow> bool" where
  "method_may_write_cache m \<longleftrightarrow> m = ''GET''"

definition status_is_storable :: "nat \<Rightarrow> bool" where
  "status_is_storable s \<longleftrightarrow> s \<in> set [200, 203, 204, 300, 301, 308, 404, 405, 410, 414, 501]"

definition varies_only_on_encoding :: "string \<Rightarrow> bool" where
  "varies_only_on_encoding value \<longleftrightarrow>
     list_all (\<lambda>f. eq_ignore_ascii_case f ''accept-encoding'')
       (filter (\<lambda>f. f \<noteq> []) (map trim (split_on CHR '','' value)))"

definition vary_blocks :: "headers \<Rightarrow> bool" where
  "vary_blocks hs \<longleftrightarrow>
     list_ex (\<lambda>kv. eq_ignore_ascii_case (fst kv) ''vary'' \<and> \<not> varies_only_on_encoding (snd kv)) hs"

definition should_cache :: "nat \<Rightarrow> headers \<Rightarrow> bool" where
  "should_cache status hs =
     (if \<not> status_is_storable status then False
      else if vary_blocks hs then False
      else
        (let cc = cache_control_parse hs in
         if cc_no_store cc \<or> cc_private cc then False else cc_public cc))"

definition request_permits_storage :: "headers \<Rightarrow> bool" where
  "request_permits_storage hs = (\<not> cc_no_store (cache_control_parse hs))"

definition strip_set_cookie :: "headers \<Rightarrow> headers" where
  "strip_set_cookie hs = filter (\<lambda>kv. \<not> eq_ignore_ascii_case (fst kv) ''set-cookie'') hs"

section \<open>The directives of all the field lines together\<close>

text \<open>Every directive of every \<open>Cache-Control\<close> line, in order.\<close>

definition all_directives :: "headers \<Rightarrow> directive list" where
  "all_directives hs =
     concat (map (\<lambda>kv. if eq_ignore_ascii_case (fst kv) ''cache-control'' then split_directives (snd kv) else []) hs)"

lemma foldl_cc_line: "foldl cc_line cc hs = foldl cc_directive cc (all_directives hs)"
  by (induction hs arbitrary: cc) (simp_all add: all_directives_def cc_line_def)

lemma cc_directive_flags:
  "cc_no_store (cc_directive cc d) \<longleftrightarrow> cc_no_store cc \<or> fst d = ''no-store''"
  "cc_no_cache (cc_directive cc d) \<longleftrightarrow> cc_no_cache cc \<or> fst d = ''no-cache''"
  "cc_private (cc_directive cc d) \<longleftrightarrow> cc_private cc \<or> fst d = ''private''"
  "cc_public (cc_directive cc d) \<longleftrightarrow> cc_public cc \<or> fst d = ''public''"
  by (auto simp: cc_directive_def Let_def)

lemma foldl_cc_flags:
  "cc_no_store (foldl cc_directive cc ds) \<longleftrightarrow> cc_no_store cc \<or> ''no-store'' \<in> fst ` set ds"
  "cc_no_cache (foldl cc_directive cc ds) \<longleftrightarrow> cc_no_cache cc \<or> ''no-cache'' \<in> fst ` set ds"
  "cc_private (foldl cc_directive cc ds) \<longleftrightarrow> cc_private cc \<or> ''private'' \<in> fst ` set ds"
  "cc_public (foldl cc_directive cc ds) \<longleftrightarrow> cc_public cc \<or> ''public'' \<in> fst ` set ds"
  by (induction ds arbitrary: cc) (auto simp: cc_directive_flags)

lemma parse_flags:
  "cc_no_store (cache_control_parse hs) \<longleftrightarrow> ''no-store'' \<in> fst ` set (all_directives hs)"
  "cc_no_cache (cache_control_parse hs) \<longleftrightarrow> ''no-cache'' \<in> fst ` set (all_directives hs)"
  "cc_private (cache_control_parse hs) \<longleftrightarrow> ''private'' \<in> fst ` set (all_directives hs)"
  "cc_public (cache_control_parse hs) \<longleftrightarrow> ''public'' \<in> fst ` set (all_directives hs)"
  by (simp_all add: cache_control_parse_def foldl_cc_line foldl_cc_flags cc_default_def)

text \<open>The names of the directives a field list carries, over all its \<open>Cache-Control\<close> lines.\<close>

definition has_directive :: "headers \<Rightarrow> string \<Rightarrow> bool" where
  "has_directive hs d \<longleftrightarrow>
     (\<exists>kv \<in> set hs. eq_ignore_ascii_case (fst kv) ''cache-control'' \<and> d \<in> fst ` set (split_directives (snd kv)))"

lemma all_directives_has: "d \<in> fst ` set (all_directives hs) \<longleftrightarrow> has_directive hs d"
  by (force simp: all_directives_def has_directive_def image_iff split: if_splits)

lemmas parse_has = parse_flags [unfolded all_directives_has]

section \<open>Properties\<close>

text \<open>Which responses the shared cache stores: one of the listed statuses (never a partial
  206), no \<open>Vary\<close> line that names anything but \<open>Accept-Encoding\<close>, \<open>public\<close> on some
  \<open>Cache-Control\<close> line, and neither \<open>no-store\<close> nor \<open>private\<close> on any of them, in whatever order the
  lines and the directives come.\<close>

theorem should_cache_iff:
  "should_cache status hs \<longleftrightarrow>
     status \<in> {200, 203, 204, 300, 301, 308, 404, 405, 410, 414, 501} \<and>
     (\<forall>kv \<in> set hs. eq_ignore_ascii_case (fst kv) ''vary'' \<longrightarrow>
        (\<forall>f \<in> set (split_on CHR '','' (snd kv)).
           trim f = [] \<or> eq_ignore_ascii_case (trim f) ''accept-encoding'')) \<and>
     has_directive hs ''public'' \<and> \<not> has_directive hs ''no-store'' \<and> \<not> has_directive hs ''private''"
proof -
  have "vary_blocks hs \<longleftrightarrow> \<not> (\<forall>kv \<in> set hs. eq_ignore_ascii_case (fst kv) ''vary'' \<longrightarrow>
        (\<forall>f \<in> set (split_on CHR '','' (snd kv)).
           trim f = [] \<or> eq_ignore_ascii_case (trim f) ''accept-encoding''))"
    by (auto simp: vary_blocks_def varies_only_on_encoding_def list_ex_iff list_all_iff)
  then show ?thesis
    by (auto simp: should_cache_def status_is_storable_def Let_def parse_has)
qed

definition demo_headers :: headers where
  "demo_headers = [(''Vary'', ''Accept-Encoding''), (''Cache-Control'', ''public, max-age=60'')]"

theorem should_cache_iff_witness:
  "should_cache 200 demo_headers \<and> has_directive demo_headers ''public'' \<and>
   \<not> should_cache 200 (demo_headers @ [(''cache-control'', ''No-Store'')]) \<and>
   has_directive (demo_headers @ [(''cache-control'', ''No-Store'')]) ''no-store''"
proof -
  have s: "should_cache 200 demo_headers" by code_simp
  have n: "has_directive (demo_headers @ [(''cache-control'', ''No-Store'')]) ''no-store''" by code_simp
  then have "\<not> should_cache 200 (demo_headers @ [(''cache-control'', ''No-Store'')])"
    by (simp only: should_cache_iff) blast
  with s n should_cache_iff [of 200 demo_headers] show ?thesis by blast
qed

end
