(* ===== verification/Reply_Fields.thy ===== *)
theory Reply_Fields
  imports Access_Gate Cache_Control
begin

text \<open>
  What the proxy adds to a response: the fields of \<open>m6-http/src/main.rs\<close> (\<open>set_alt_svc\<close> to
  \<open>set_describedby_link\<close>), the session cookie of \<open>m6-http/src/analytics.rs\<close>, the error pages of
  \<open>m6-http/src/error.rs\<close> and the redirects of \<open>main.rs\<close> and \<open>redirect.rs\<close>.

  The current date as text and a fresh session id are arguments; the analytics line itself goes to a
  log and is not part of a response.
\<close>

section \<open>Fields\<close>

definition set_alt_svc :: "headers \<Rightarrow> nat \<Rightarrow> headers" where
  "set_alt_svc hs quic_port = filter (\<lambda>kv. \<not> name_is ''alt-svc'' kv) hs @
     [(''alt-svc'', ''h3=\":'' @ show_nat quic_port @ ''\"; ma=86400'')]"

text \<open>The inner loop over the members of one value and the outer loop over the lines; \<open>None\<close> is the
  return at a value that is a star.\<close>

definition vary_push :: "string list \<Rightarrow> string \<Rightarrow> string list" where
  "vary_push names f = (let f = trim f in
     if f = [] then names
     else if list_ex (\<lambda>e. eq_ignore_ascii_case e f) names then names else names @ [f])"

fun vary_fields :: "string list \<Rightarrow> headers \<Rightarrow> string list option" where
  "vary_fields names [] = Some names"
| "vary_fields names (kv # hs) =
     (if \<not> name_is ''vary'' kv then vary_fields names hs
      else if trim (snd kv) = ''*'' then None
      else vary_fields (foldl vary_push names (split_on CHR '','' (snd kv))) hs)"

definition set_vary_accept_encoding :: "headers \<Rightarrow> bool \<Rightarrow> headers" where
  "set_vary_accept_encoding hs backend_compresses =
     (if \<not> backend_compresses \<and> \<not> list_ex (name_is ''vary'') hs then hs
      else case vary_fields [] hs of
        None \<Rightarrow> hs
      | Some names \<Rightarrow>
          (let names = (if list_ex (\<lambda>f. eq_ignore_ascii_case f ''accept-encoding'') names then names
                         else names @ [''Accept-Encoding''])
           in filter (\<lambda>kv. \<not> name_is ''vary'' kv) hs @ [(''vary'', join_with '', '' names)]))"

definition set_date :: "string \<Rightarrow> headers \<Rightarrow> headers" where
  "set_date date hs = (if headers_contains hs ''date'' then hs else hs @ [(''date'', date)])"

definition set_age :: "headers \<Rightarrow> nat \<Rightarrow> headers" where
  "set_age hs age = filter (\<lambda>kv. \<not> name_is ''age'' kv) hs @ [(''age'', show_nat (as_secs age))]"

definition is_html_response :: "headers \<Rightarrow> bool" where
  "is_html_response hs = (case headers_get hs ''content-type'' of
     Some v \<Rightarrow> starts_with ''text/html'' (to_ascii_lowercase v) | None \<Rightarrow> False)"

definition is_describedby :: "string \<times> string \<Rightarrow> bool" where
  "is_describedby kv \<longleftrightarrow> name_is ''link'' kv \<and> contains_sub ''rel=\"describedby\"'' (to_ascii_lowercase (snd kv))"

definition set_describedby_link :: "headers \<Rightarrow> string \<Rightarrow> headers" where
  "set_describedby_link hs target =
     (if target = [] \<or> \<not> is_html_response hs then hs
      else filter (\<lambda>kv. \<not> is_describedby kv) hs @ [(''link'', ''<'' @ target @ ''>; rel=\"describedby\"'')])"

definition add_bearer_challenge :: "headers \<Rightarrow> headers" where
  "add_bearer_challenge hs = (if list_ex (name_is ''www-authenticate'') hs then hs
     else hs @ [(''WWW-Authenticate'', ''Bearer'')])"

section \<open>The session cookie\<close>

definition SESSION_COOKIE :: string where "SESSION_COOKIE = ''_m6sid''"

definition session_pair :: "string \<Rightarrow> string option" where
  "session_pair kv = (case split_once CHR ''='' (trim kv) of
     Some (k, v) \<Rightarrow> if k = SESSION_COOKIE \<and> v \<noteq> [] then Some v else None
   | None \<Rightarrow> None)"

fun find_map :: "('a \<Rightarrow> 'b option) \<Rightarrow> 'a list \<Rightarrow> 'b option" where
  "find_map f [] = None"
| "find_map f (x # xs) = (case f x of Some y \<Rightarrow> Some y | None \<Rightarrow> find_map f xs)"

definition session_from_cookie_header :: "string \<Rightarrow> string option" where
  "session_from_cookie_header c = find_map session_pair (split_on CHR '';'' c)"

definition get_or_create_session :: "string \<Rightarrow> headers \<Rightarrow> string \<times> bool" where
  "get_or_create_session fresh hs =
     (case Option.bind (combined_cookie_header hs) session_from_cookie_header of
        Some sid \<Rightarrow> (sid, False)
      | None \<Rightarrow> (fresh, True))"

definition session_cookie_header_value :: "string \<Rightarrow> string" where
  "session_cookie_header_value sid =
     SESSION_COOKIE @ ''='' @ sid @ ''; Max-Age=1800; Path=/; HttpOnly; Secure; SameSite=Lax''"

definition record_request :: "bool \<Rightarrow> string \<Rightarrow> headers \<Rightarrow> string option" where
  "record_request enabled fresh request_headers =
     (if \<not> enabled then None
      else let (session_id, session_new) = get_or_create_session fresh request_headers in
        if session_new then Some (session_cookie_header_value session_id) else None)"

definition finish_response :: "bool \<Rightarrow> string \<Rightarrow> headers \<Rightarrow> headers \<Rightarrow> headers" where
  "finish_response enabled fresh resp_headers request_headers =
     (case record_request enabled fresh request_headers of
        Some sc \<Rightarrow> if is_html_response resp_headers then resp_headers @ [(''Set-Cookie'', sc)] else resp_headers
      | None \<Rightarrow> resp_headers)"

definition session_from_set_cookie_header :: "string \<Rightarrow> string option" where
  "session_from_set_cookie_header set_cookie = session_pair (hd (split_on CHR '';'' set_cookie))"

definition session_from_response_headers :: "headers \<Rightarrow> string option" where
  "session_from_response_headers hs = find_map session_from_set_cookie_header (get_all hs ''set-cookie'')"

definition finish_proxied_response :: "bool \<Rightarrow> string \<Rightarrow> headers \<Rightarrow> headers \<Rightarrow> headers" where
  "finish_proxied_response enabled fresh resp_headers request_headers =
     (if \<not> enabled then resp_headers
      else if session_from_response_headers resp_headers \<noteq> None then resp_headers
      else finish_response enabled fresh resp_headers request_headers)"

section \<open>Error pages\<close>

datatype error_mode = StatusMode | InternalMode | CustomMode string

record errors_config =
  ec_mode :: string
  ec_path :: "string option"
  ec_verbose_fallback :: bool

definition mode_from_config :: "errors_config \<Rightarrow> error_mode" where
  "mode_from_config c =
     (if ec_mode c = ''status'' then StatusMode
      else if ec_mode c = ''custom'' then
        (case ec_path c of Some p \<Rightarrow> CustomMode p | None \<Rightarrow> InternalMode)
      else InternalMode)"

record error_context =
  ex_route :: "string option"
  ex_backend :: "string option"
  ex_detail :: "string option"

definition em_dash :: string where
  "em_dash = [CHR 0xE2, CHR 0x80, CHR 0x94]"

definition page_reason :: "nat \<Rightarrow> string" where
  "page_reason status = (case map_of [
       (200, ''OK''), (201, ''Created''), (204, ''No Content''), (301, ''Moved Permanently''), (302, ''Found''),
       (304, ''Not Modified''), (400, ''Bad Request''), (401, ''Unauthorized''), (403, ''Forbidden''),
       (404, ''Not Found''), (405, ''Method Not Allowed''), (408, ''Request Timeout''), (409, ''Conflict''),
       (429, ''Too Many Requests''), (500, ''Internal Server Error''), (502, ''Bad Gateway''),
       (503, ''Service Unavailable''), (504, ''Gateway Timeout'')] status of Some r \<Rightarrow> r | None \<Rightarrow> ''Unknown'')"

definition internal_error_detail :: "nat \<Rightarrow> string \<times> string option" where
  "internal_error_detail status =
     (if status = 400 then (''The server could not understand the request '' @ em_dash @ '' malformed syntax or invalid parameters.'',
        Some ''Check the URL and any form data you submitted.'')
      else if status = 401 then (''This page requires a valid login session.'', Some ''Log in and try again.'')
      else if status = 403 then (''Your account does not have permission to access this resource.'',
        Some ''If you believe this is a mistake, contact the site administrator.'')
      else if status = 404 then (''The page or resource you requested does not exist.'',
        Some ''Check the URL for typos, or use the navigation above.'')
      else if status = 405 then (''The HTTP method used is not supported for this URL.'',
        Some (''This is likely a bug '' @ em_dash @ '' please report it.''))
      else if status = 500 then (''The server encountered an unexpected error while processing your request.'',
        Some ''Check the server logs for details.'')
      else if status = 502 then (''A backend service failed to respond or returned an invalid response.'',
        Some ''Check that all backend services are running.'')
      else if status = 503 then (''The service is temporarily unavailable '' @ em_dash @ '' it may be starting up or overloaded.'',
        Some ''Wait a moment and try again.'')
      else if status = 504 then (''A backend service took too long to respond.'',
        Some ''Check backend service health and resource usage.'')
      else (''An unexpected error occurred.'', None))"

definition escape_char :: "char \<Rightarrow> string" where
  "escape_char c =
     (if c = CHR ''&'' then ''&amp;'' else if c = CHR ''<'' then ''&lt;'' else if c = CHR ''>'' then ''&gt;''
      else if c = CHR 0x22 then ''&quot;'' else [c])"

text \<open>\<open>html_escape\<close> is four replacements one after the other, the ampersand first.\<close>

definition html_escape :: "string \<Rightarrow> string" where
  "html_escape s = replace_all [CHR 0x22] ''&quot;'' (replace_all ''>'' ''&gt;'' (replace_all ''<'' ''&lt;''
     (replace_all ''&'' ''&amp;'' s)))"

definition debug_row :: "string \<Rightarrow> string \<Rightarrow> string" where
  "debug_row name v = ''<tr><td style='' @ [CHR 0x27] @ ''padding:2px 12px 2px 0;color:#888'' @ [CHR 0x27] @ ''>'' @
     name @ ''</td><td><code>'' @ v @ ''</code></td></tr>''"

definition internal_error_html :: "nat \<Rightarrow> string \<Rightarrow> bool \<Rightarrow> string \<Rightarrow> error_context option \<Rightarrow> bytes" where
  "internal_error_html status reason verbose path ctx =
     (let head = ''<!DOCTYPE html><html><head><title>'' @ show_nat status @ '' '' @ reason @
            ''</title></head><body><h1>'' @ show_nat status @ '' '' @ reason @ ''</h1>''
      in if verbose then
           (let (detail, hint) = internal_error_detail status;
                hint_html = (case hint of Some h \<Rightarrow> ''<p><em>'' @ h @ ''</em></p>'' | None \<Rightarrow> []);
                shown = (\<lambda>f. html_escape (case Option.bind ctx f of Some t \<Rightarrow> t | None \<Rightarrow> em_dash))
            in head @ ''<p>'' @ detail @ ''</p>'' @ hint_html @
               ''<hr><table style='' @ [CHR 0x27] @ ''font:13px monospace;border-collapse:collapse'' @ [CHR 0x27] @ ''>'' @
               debug_row ''path'' (html_escape path) @ debug_row ''route'' (shown ex_route) @
               debug_row ''backend'' (shown ex_backend) @ debug_row ''cache'' ''miss'' @
               debug_row ''detail'' (shown ex_detail) @ ''</table></body></html>'')
         else head @ ''</body></html>'')"

definition refuses_custom_error_path :: "error_mode \<Rightarrow> string \<Rightarrow> bool \<Rightarrow> bool" where
  "refuses_custom_error_path mode path from_internal =
     (case mode of CustomMode error_path \<Rightarrow> path = error_path \<and> \<not> from_internal | _ \<Rightarrow> False)"

definition make_error_response :: "nat \<Rightarrow> error_mode \<Rightarrow> string \<Rightarrow> nat \<times> headers \<times> bytes" where
  "make_error_response status mode from_path = (case mode of
     StatusMode \<Rightarrow> (status, [(''Content-Type'', ''text/plain'')], [])
   | InternalMode \<Rightarrow> (status, [(''Content-Type'', ''text/html; charset=utf-8'')],
       internal_error_html status (page_reason status) False from_path None)
   | CustomMode _ \<Rightarrow> (status, [], []))"

definition PRESERVED_ERROR_HEADERS :: "string list" where
  "PRESERVED_ERROR_HEADERS = [''retry-after'', ''www-authenticate'', ''proxy-authenticate'', ''allow'']"

definition preserve_one :: "headers \<Rightarrow> string \<Rightarrow> headers \<Rightarrow> headers" where
  "preserve_one backend_headers name page_headers =
     (if list_ex (name_is name) page_headers then page_headers
      else case find (name_is name) backend_headers of
        Some kv \<Rightarrow> page_headers @ [kv]
      | None \<Rightarrow> page_headers)"

definition preserve_actionable_headers :: "headers \<Rightarrow> headers \<Rightarrow> headers" where
  "preserve_actionable_headers backend_headers page_headers =
     fold (preserve_one backend_headers) PRESERVED_ERROR_HEADERS page_headers"

section \<open>Methods and redirects\<close>

definition is_registered_method :: "string \<Rightarrow> bool" where
  "is_registered_method m \<longleftrightarrow> m \<in> set [''GET'', ''HEAD'', ''POST'', ''PUT'', ''DELETE'', ''CONNECT'', ''OPTIONS'',
     ''TRACE'', ''PATCH'']"

record site_config =
  sc_domain :: string
  sc_redirect_www :: bool
  sc_describedby :: string

definition unsafe_bytes :: "string \<Rightarrow> bool" where
  "unsafe_bytes s = list_ex (\<lambda>b. b = CR \<or> b = LF \<or> b = NUL) s"

definition www_redirect_location :: "string option \<Rightarrow> string \<Rightarrow> string option \<Rightarrow> site_config \<Rightarrow> string option" where
  "www_redirect_location host path query site =
     (if \<not> sc_redirect_www site then None
      else case host of
        None \<Rightarrow> None
      | Some host \<Rightarrow>
          (let host = hd (split_on CHR '':'' host) in
           if \<not> (4 < length host \<and> eq_ignore_ascii_case (take 4 host) ''www.'') then None
           else if \<not> eq_ignore_ascii_case (drop 4 host) (sc_domain site) then None
           else if unsafe_bytes path then None
           else case query of
             Some q \<Rightarrow> if unsafe_bytes q then None else Some (''https://'' @ sc_domain site @ path @ ''?'' @ q)
           | None \<Rightarrow> Some (''https://'' @ sc_domain site @ path)))"

definition www_redirect_headers :: "string \<Rightarrow> headers" where
  "www_redirect_headers location = [(''Location'', location), (''Content-Length'', ''0'')]"

definition target_is_safe :: "string \<Rightarrow> bool" where
  "target_is_safe t \<longleftrightarrow> t \<noteq> [] \<and> length t \<le> 2048 \<and> starts_with ''/'' t \<and> \<not> list_ex (\<lambda>b. b \<in> set [CR, LF, NUL]) t"

definition host_is_safe :: "string \<Rightarrow> bool" where
  "host_is_safe h \<longleftrightarrow> h \<noteq> [] \<and> length h \<le> 253 \<and>
     \<not> list_ex (\<lambda>b. b \<in> set [CR, LF, NUL, CHR ''/'', CHR 0x5C, CHR '' '']) h"

definition ALLOW :: string where "ALLOW = ''GET, HEAD, POST, PUT, PATCH, DELETE, OPTIONS''"

definition redirect_for :: "raw_request \<Rightarrow> nat \<times> headers" where
  "redirect_for req =
     (if eq_ignore_ascii_case (rq_method req) ''CONNECT'' then (405, [(''Allow'', ALLOW), (''Content-Length'', ''0'')])
      else if eq_ignore_ascii_case (rq_method req) ''OPTIONS'' \<and> rq_path req = ''*''
      then (200, [(''Allow'', ALLOW), (''Content-Length'', ''0'')])
      else
        (let host = (case headers_get (rq_headers req) ''host'' of Some h \<Rightarrow> trim h | None \<Rightarrow> []);
             target = (case rq_query req of Some q \<Rightarrow> rq_path req @ ''?'' @ q | None \<Rightarrow> rq_path req)
         in if \<not> host_is_safe host \<or> \<not> target_is_safe target then (400, [(''Content-Length'', ''0'')])
            else (301, [(''Location'', ''https://'' @ host @ target), (''Content-Length'', ''0'')])))"

section \<open>The Vary field\<close>

text \<open>The names a header list varies on.\<close>

definition vary_names :: "string \<Rightarrow> string list" where
  "vary_names v = filter (\<lambda>f. f \<noteq> []) (map trim (split_on CHR '','' v))"

definition plain_name :: "string \<Rightarrow> bool" where
  "plain_name f \<longleftrightarrow> f \<noteq> [] \<and> trim f = f \<and> CHR '','' \<notin> set f"

lemma varies_only_iff: "varies_only_on_encoding v \<longleftrightarrow> (\<forall>f \<in> set (vary_names v). eq_ignore_ascii_case f ''accept-encoding'')"
  by (simp add: varies_only_on_encoding_def vary_names_def list_all_iff)

lemma vary_names_plain: "f \<in> set (vary_names v) \<Longrightarrow> plain_name f"
  using split_on_pieces [of _ "CHR '',''" v] set_trim by (fastforce simp: vary_names_def plain_name_def)

lemma vary_names_join:
  assumes "list_all plain_name fs"
  shows "vary_names (join_with '', '' fs) = fs"
proof (cases fs)
  case Nil
  then show ?thesis by (simp add: join_with_def vary_names_def)
next
  case (Cons f gs)
  have t: "split_on CHR '','' (g @ concat (map (\<lambda>y. '', '' @ y) hs)) = g # map (\<lambda>y. CHR '' '' # y) hs"
    if "CHR '','' \<notin> set g" "list_all plain_name hs" for g hs
    using that
  proof (induction hs arbitrary: g)
    case Nil
    then show ?case by (simp add: split_on_no_delim)
  next
    case (Cons h hs)
    have "split_on CHR '','' (g @ CHR '','' # CHR '' '' # h @ concat (map (\<lambda>y. '', '' @ y) hs)) =
        g # split_on CHR '','' ((CHR '' '' # h) @ concat (map (\<lambda>y. '', '' @ y) hs))"
      using split_on_append [OF Cons.prems(1)] by simp
    also have "\<dots> = g # (CHR '' '' # h) # map (\<lambda>y. CHR '' '' # y) hs"
      using Cons.IH [of "CHR '' '' # h"] Cons.prems(2) by (simp add: plain_name_def)
    finally show ?case by simp
  qed
  have "list_all plain_name gs" "plain_name f" using assms Cons by simp_all
  moreover have "filter (\<lambda>f. f \<noteq> []) (map trim hs) = hs" if "list_all plain_name hs" for hs
    using that by (induction hs) (auto simp: plain_name_def)
  moreover have "map trim (map (\<lambda>y. CHR '' '' # y) gs) = map trim gs" by (simp add: trim_space)
  moreover have "split_on CHR '','' (join_with '', '' fs) = f # map (\<lambda>y. CHR '' '' # y) gs"
    unfolding Cons join_with_def list.case by (rule t) (use \<open>plain_name f\<close> \<open>list_all plain_name gs\<close> in \<open>auto simp: plain_name_def\<close>)
  ultimately show ?thesis unfolding vary_names_def Cons by (simp add: plain_name_def del: map_map)
qed

definition named :: "string list \<Rightarrow> string set" where
  "named fs = to_ascii_lowercase ` set fs"

lemma vary_push_named:
  "list_all plain_name fs \<Longrightarrow> CHR '','' \<notin> set f \<Longrightarrow> list_all plain_name (vary_push fs f) \<and>
     named (vary_push fs f) = named fs \<union> (if trim f = [] then {} else {to_ascii_lowercase (trim f)})"
  using set_trim [of f]
  by (auto simp: vary_push_def Let_def named_def plain_name_def list_ex_iff eq_ignore_ascii_case_def intro: rev_image_eqI)

lemma foldl_vary_push:
  "list_all plain_name fs \<Longrightarrow> (\<forall>p \<in> set ps. CHR '','' \<notin> set p) \<Longrightarrow> list_all plain_name (foldl vary_push fs ps) \<and>
     named (foldl vary_push fs ps) = named fs \<union> named (filter (\<lambda>f. f \<noteq> []) (map trim ps))"
proof (induction ps arbitrary: fs)
  case (Cons p ps)
  then show ?case using vary_push_named [of fs p] Cons.IH [of "vary_push fs p"] by (auto simp: named_def)
qed (simp add: named_def)

lemma vary_fields_named:
  "vary_fields fs hs = Some r \<Longrightarrow> list_all plain_name fs \<Longrightarrow> list_all plain_name r \<and>
     named r = named fs \<union> (\<Union>kv \<in> set (filter (name_is ''vary'') hs). named (vary_names (snd kv)))"
proof (induction fs hs rule: vary_fields.induct)
  case (2 fs kv hs)
  show ?case
  proof (cases "name_is ''vary'' kv")
    case True
    have "\<forall>p \<in> set (split_on CHR '','' (snd kv)). CHR '','' \<notin> set p" using split_on_pieces by blast
    with 2 True foldl_vary_push [of fs "split_on CHR '','' (snd kv)"] show ?thesis
      by (auto simp: vary_names_def split: if_splits)
  qed (use 2 in simp)
qed simp

lemma vary_blocks_named:
  "vary_blocks hs \<longleftrightarrow> (\<exists>n \<in> (\<Union>kv \<in> set (filter (name_is ''vary'') hs). named (vary_names (snd kv))). n \<noteq> ''accept-encoding'')"
proof -
  have l: "to_ascii_lowercase ''accept-encoding'' = ''accept-encoding''" by code_simp
  show ?thesis
    unfolding vary_blocks_def list_ex_iff name_is_def varies_only_iff named_def eq_ignore_ascii_case_def l
      set_filter UN_iff Bex_def Ball_def image_iff mem_Collect_eq by blast
qed

text \<open>Adding \<open>Accept-Encoding\<close> never changes whether a response may be stored: every name the backend
  gave is still there.\<close>

lemma set_vary_blocks: "vary_blocks (set_vary_accept_encoding hs b) = vary_blocks hs"
proof (cases "(\<not> b \<and> \<not> list_ex (name_is ''vary'') hs) \<or> vary_fields [] hs = None")
  case True
  then show ?thesis by (auto simp: set_vary_accept_encoding_def)
next
  case False
  then obtain r where r: "vary_fields [] hs = Some r" by auto
  define r' where "r' = (if list_ex (\<lambda>f. eq_ignore_ascii_case f ''accept-encoding'') r then r else r @ [''Accept-Encoding''])"
  have pl: "plain_name ''Accept-Encoding''" by code_simp
  have l: "to_ascii_lowercase ''Accept-Encoding'' = ''accept-encoding''" by code_simp
  note n = vary_fields_named [OF r]
  have r'p: "list_all plain_name r'" "named r' \<union> {''accept-encoding''} = named r \<union> {''accept-encoding''}"
    using n pl l by (auto simp: r'_def named_def)
  have "set_vary_accept_encoding hs b = filter (\<lambda>kv. \<not> name_is ''vary'' kv) hs @ [(''vary'', join_with '', '' r')]"
    using False r by (auto simp: set_vary_accept_encoding_def Let_def r'_def)
  moreover have "name_is ''vary'' (''vary'', v)" for v by (simp add: name_is_def)
  ultimately have "vary_blocks (set_vary_accept_encoding hs b) \<longleftrightarrow> (\<exists>m \<in> named r'. m \<noteq> ''accept-encoding'')"
    using vary_names_join [OF r'p(1)] by (auto simp: vary_blocks_named)
  also have "\<dots> \<longleftrightarrow> (\<exists>m \<in> named r. m \<noteq> ''accept-encoding'')" using r'p(2) by auto
  also have "\<dots> \<longleftrightarrow> vary_blocks hs" using n by (auto simp: vary_blocks_named named_def)
  finally show ?thesis .
qed

section \<open>Redirects stay on the site\<close>

lemma www_redirect_own_site:
  "www_redirect_location host path query site = Some l \<Longrightarrow>
     \<exists>r. l = ''https://'' @ sc_domain site @ path @ r \<and> \<not> unsafe_bytes (path @ r) \<and> (r = [] \<longleftrightarrow> query = None)"
  by (auto simp: www_redirect_location_def Let_def unsafe_bytes_def CR_def LF_def NUL_def split: if_splits option.splits)

lemma redirect_for_safe:
  "redirect_for req = (301, hs) \<Longrightarrow> \<exists>host target. hs = [(''Location'', ''https://'' @ host @ target), (''Content-Length'', ''0'')] \<and>
     host_is_safe host \<and> target_is_safe target"
  by (auto simp: redirect_for_def Let_def split: if_splits)

end
