(* ===== verification/Response_Cache.thy ===== *)
theory Response_Cache
  imports Cache_Control Step_System "HOL-Library.AList" "HOL-Library.Multiset"
begin

text \<open>
  The shared response cache of \<open>src/m6-http/src/cache.rs\<close>: the key, an entry and its deadlines,
  \<open>lookup\<close>, \<open>lookup_with\<close>, \<open>insert\<close> with the byte bound and the eviction of least recently read
  entries, \<open>evict_path\<close>, \<open>evict_paths\<close> and \<open>clear\<close>.

  \<^item> The hash map is an association list in its iteration order, with distinct keys.
  \<^item> \<open>READ_TICK\<close> is the field \<open>ca_tick\<close>; as in the source, its \<open>2 ^ 64\<close> values are taken never to run
    out. \<open>std::mem::size_of::<CacheEntry>()\<close> depends on the compiler and is the argument \<open>esz\<close>.
  \<^item> The clocks are arguments: \<open>now\<close> is \<open>Instant::now()\<close>, \<open>wall\<close> is \<open>SystemTime::now()\<close>, and \<open>pd\<close> is
    \<open>httpdate::parse_http_date\<close> (a crate), all in nanoseconds.
  \<^item> \<open>Instant + Duration\<close> and \<open>Duration + Duration\<close> panic on overflow.
\<close>

type_synonym httpdate = "string \<Rightarrow> nat option"

section \<open>Clock arithmetic\<close>

text \<open>An \<open>Instant\<close> counts seconds in an \<open>i64\<close>, a \<open>Duration\<close> in a \<open>u64\<close>.\<close>

definition instant_add :: "nat \<Rightarrow> nat \<Rightarrow> nat outcome" where
  "instant_add t d = (if as_secs (t + d) < 2 ^ 63 then Val (t + d) else Panic)"

definition duration_add :: "nat \<Rightarrow> nat \<Rightarrow> nat outcome" where
  "duration_add a b = (if as_secs (a + b) < 2 ^ 64 then Val (a + b) else Panic)"

section \<open>Keys\<close>

definition strip_query :: "string \<Rightarrow> string" where
  "strip_query path = (case find_char CHR ''?'' path of Some n \<Rightarrow> take n path | None \<Rightarrow> path)"

definition SEP :: char where "SEP = CHR 0x01"

definition cache_key :: "string \<Rightarrow> string option \<Rightarrow> string \<Rightarrow> string" where
  "cache_key path query enc =
     strip_query path @ SEP # (case query of Some q \<Rightarrow> q | None \<Rightarrow> []) @ SEP # enc"

definition make_lookup_key :: "string \<Rightarrow> string option \<Rightarrow> string \<Rightarrow> string" where
  "make_lookup_key path query enc =
     (let p = strip_query path; q = (case query of Some q \<Rightarrow> q | None \<Rightarrow> []);
          needed = length p + length q + length enc + 2
      in if needed \<le> 512 then p @ [SEP] @ q @ [SEP] @ enc else [])"

section \<open>State\<close>

record cached_response =
  cr_status :: nat
  cr_headers :: headers
  cr_body :: bytes

record cache_entry =
  ce_response :: cached_response
  ce_stored_at :: nat
  ce_upstream_age :: nat
  ce_expires_at :: "nat option"
  ce_serve_stale_until :: "nat option"
  ce_footprint :: nat
  ce_last_read :: nat

record cache =
  ca_map :: "(string \<times> cache_entry) list"
  ca_bytes :: nat
  ca_max_bytes :: nat
  ca_tick :: nat

datatype lookup = Fresh cached_response nat | Stale cached_response nat | Miss

definition REFRESH_MARGIN :: nat where
  "REFRESH_MARGIN = from_secs 1"

definition HEURISTIC_MAX_LIFETIME :: nat where
  "HEURISTIC_MAX_LIFETIME = from_secs (24 * 60 * 60)"

definition DEFAULT_MAX_BYTES :: nat where
  "DEFAULT_MAX_BYTES = 128 * 1024 * 1024"

definition with_max_bytes :: "nat \<Rightarrow> nat \<Rightarrow> cache" where
  "with_max_bytes tick mb = \<lparr>ca_map = [], ca_bytes = 0, ca_max_bytes = mb, ca_tick = tick\<rparr>"

definition cache_new :: "nat \<Rightarrow> cache" where
  "cache_new tick = with_max_bytes tick DEFAULT_MAX_BYTES"

definition bytes_held :: "cache \<Rightarrow> nat" where
  "bytes_held c = ca_bytes c"

definition footprint_sum :: "cache \<Rightarrow> nat" where
  "footprint_sum c = sum_list (map (\<lambda>kv. ce_footprint (snd kv)) (ca_map c))"

definition cache_len :: "cache \<Rightarrow> nat" where
  "cache_len c = length (ca_map c)"

definition cache_is_empty :: "cache \<Rightarrow> bool" where
  "cache_is_empty c = (cache_len c = 0)"

definition entry_footprint :: "nat \<Rightarrow> string \<Rightarrow> cached_response \<Rightarrow> nat" where
  "entry_footprint esz key r =
     length key + length (cr_body r) +
     sum_list (map (\<lambda>kv. length (fst kv) + length (snd kv) + 2) (cr_headers r)) + esz"

section \<open>Reading\<close>

definition entry_age :: "nat \<Rightarrow> cache_entry \<Rightarrow> nat outcome" where
  "entry_age now e = duration_add (ce_upstream_age e) (now - ce_stored_at e)"

definition classify :: "nat \<Rightarrow> cache_entry \<Rightarrow> nat \<Rightarrow> lookup" where
  "classify now e age =
     (case ce_expires_at e of
        None \<Rightarrow> Fresh (ce_response e) age
      | Some x \<Rightarrow>
          if now < x then Fresh (ce_response e) age
          else if (case ce_serve_stale_until e of Some u \<Rightarrow> now < u | None \<Rightarrow> False)
          then Stale (ce_response e) age
          else Miss)"

definition cache_lookup :: "nat \<Rightarrow> string \<Rightarrow> cache \<Rightarrow> (lookup \<times> cache) outcome" where
  "cache_lookup now key c =
     (case map_of (ca_map c) key of
        None \<Rightarrow> Val (Miss, c)
      | Some e \<Rightarrow>
          (let c = c\<lparr>ca_map := AList.update key (e\<lparr>ce_last_read := ca_tick c\<rparr>) (ca_map c),
                    ca_tick := ca_tick c + 1\<rparr> in
           case entry_age now e of
             Panic \<Rightarrow> Panic
           | Val age \<Rightarrow> Val (classify now e age, c)))"

definition cache_get :: "nat \<Rightarrow> string \<Rightarrow> cache \<Rightarrow> (cached_response option \<times> cache) outcome" where
  "cache_get now key c =
     (case cache_lookup now key c of
        Panic \<Rightarrow> Panic
      | Val (Fresh r _, c) \<Rightarrow> Val (Some r, c)
      | Val (_, c) \<Rightarrow> Val (None, c))"

text \<open>\<open>checked_duration_since\<close> is \<open>None\<close> when the other instant is later.\<close>

definition remaining_freshness :: "nat \<Rightarrow> string \<Rightarrow> cache \<Rightarrow> nat option" where
  "remaining_freshness now key c =
     (case map_of (ca_map c) key of
        None \<Rightarrow> None
      | Some e \<Rightarrow>
          (case ce_expires_at e of
             None \<Rightarrow> Some (from_secs (2 ^ 32 - 1))
           | Some x \<Rightarrow> if now \<le> x then Some (x - now) else None))"

definition staleness :: "nat \<Rightarrow> string \<Rightarrow> cache \<Rightarrow> nat option" where
  "staleness now key c =
     (case map_of (ca_map c) key of
        None \<Rightarrow> None
      | Some e \<Rightarrow>
          (case ce_expires_at e of
             None \<Rightarrow> None
           | Some x \<Rightarrow> if x \<le> now then Some (now - x) else None))"

definition or_zero :: "nat option \<Rightarrow> nat" where
  "or_zero o' = (case o' of Some n \<Rightarrow> n | None \<Rightarrow> 0)"

text \<open>The filter of the request's directives on an entry that was found. \<open>t1\<close> and \<open>t2\<close> are the
  instants at which \<open>remaining_freshness\<close> and \<open>staleness\<close> read the clock.\<close>

definition admit :: "nat \<Rightarrow> nat \<Rightarrow> string \<Rightarrow> request_directives \<Rightarrow> cache \<Rightarrow> cached_response \<Rightarrow> nat \<Rightarrow> bool \<Rightarrow> lookup" where
  "admit t1 t2 key req c resp age was_fresh =
     (if (case rd_max_age req of Some m \<Rightarrow> as_secs age > m | None \<Rightarrow> False) then Miss
      else if (case rd_min_fresh req of
                 Some m \<Rightarrow> as_secs (or_zero (remaining_freshness t1 key c)) < m | None \<Rightarrow> False) then Miss
      else if was_fresh then Fresh resp age
      else
        (case rd_max_stale req of
           Some None \<Rightarrow> Stale resp age
         | Some (Some limit) \<Rightarrow>
             if as_secs (or_zero (staleness t2 key c)) \<le> limit then Stale resp age else Miss
         | None \<Rightarrow> Stale resp age))"

definition lookup_with ::
  "nat \<Rightarrow> nat \<Rightarrow> nat \<Rightarrow> string \<Rightarrow> request_directives \<Rightarrow> cache \<Rightarrow> (lookup \<times> cache) outcome" where
  "lookup_with now t1 t2 key req c =
     (if rd_no_cache req then Val (Miss, c)
      else
        (case cache_lookup now key c of
           Panic \<Rightarrow> Panic
         | Val (Miss, c) \<Rightarrow> Val (Miss, c)
         | Val (Fresh r a, c) \<Rightarrow> Val (admit t1 t2 key req c r a True, c)
         | Val (Stale r a, c) \<Rightarrow> Val (admit t1 t2 key req c r a False, c)))"

section \<open>Writing\<close>

definition expires_lifetime :: "httpdate \<Rightarrow> nat \<Rightarrow> headers \<Rightarrow> nat option" where
  "expires_lifetime pd wall hs =
     (let get = (\<lambda>name. Option.bind (headers_get hs name) (\<lambda>v. pd (trim v))) in
      case get ''expires'' of
        None \<Rightarrow> None
      | Some e \<Rightarrow> Some (e - (case get ''date'' of Some d \<Rightarrow> d | None \<Rightarrow> wall)))"

definition upstream_age :: "httpdate \<Rightarrow> nat \<Rightarrow> headers \<Rightarrow> nat" where
  "upstream_age pd wall hs =
     (let age_value = (case Option.bind (headers_get hs ''age'') (\<lambda>v. parse_uint 64 (trim v)) of
                         Some n \<Rightarrow> from_secs n | None \<Rightarrow> 0);
          apparent = (case Option.bind (headers_get hs ''date'') pd of
                        Some d \<Rightarrow> wall - d | None \<Rightarrow> 0)
      in max age_value apparent)"

definition expiry :: "httpdate \<Rightarrow> nat \<Rightarrow> nat \<Rightarrow> headers \<Rightarrow> nat outcome" where
  "expiry pd now wall hs =
     (case (case d_lifetime (cache_directives hs) of Some l \<Rightarrow> Some l | None \<Rightarrow> expires_lifetime pd wall hs) of
        Some l \<Rightarrow> instant_add now (l - REFRESH_MARGIN)
      | None \<Rightarrow> instant_add now HEURISTIC_MAX_LIFETIME)"

definition stale_window :: "headers \<Rightarrow> nat" where
  "stale_window hs = (let d = cache_directives hs in if d_no_cache d then 0 else d_swr d)"

text \<open>The entry that \<open>insert\<close> builds, before it takes the lock.\<close>

definition make_entry :: "httpdate \<Rightarrow> nat \<Rightarrow> nat \<Rightarrow> nat \<Rightarrow> string \<Rightarrow> cached_response \<Rightarrow> nat \<Rightarrow> cache_entry outcome" where
  "make_entry pd esz now wall key r tick =
     (case expiry pd now wall (cr_headers r) of
        Panic \<Rightarrow> Panic
      | Val x \<Rightarrow>
          (case instant_add x (stale_window (cr_headers r)) of
             Panic \<Rightarrow> Panic
           | Val u \<Rightarrow>
               Val \<lparr>ce_response = r, ce_stored_at = now, ce_upstream_age = upstream_age pd wall (cr_headers r),
                    ce_expires_at = Some x, ce_serve_stale_until = Some u,
                    ce_footprint = entry_footprint esz key r, ce_last_read = tick\<rparr>))"

text \<open>The scan of \<open>evict_until_under\<close> over the entries in read order: it yields the cutoff tick.\<close>

fun evict_scan :: "nat \<Rightarrow> nat \<Rightarrow> nat \<Rightarrow> (nat \<times> nat) list \<Rightarrow> nat" where
  "evict_scan target held cutoff [] = cutoff"
| "evict_scan target held cutoff ((tick, footprint) # es) =
     (if held \<le> target then cutoff else evict_scan target (held - footprint) (tick + 1) es)"

definition read_order :: "cache \<Rightarrow> (nat \<times> nat) list" where
  "read_order c = sort_key fst (map (\<lambda>kv. (ce_last_read (snd kv), ce_footprint (snd kv))) (ca_map c))"

definition evict_target :: "cache \<Rightarrow> nat" where
  "evict_target c = ca_max_bytes c - ca_max_bytes c div 8"

definition evict_until_under :: "cache \<Rightarrow> cache" where
  "evict_until_under c =
     (let cutoff = evict_scan (evict_target c) (ca_bytes c) 0 (read_order c);
          kept = filter (\<lambda>kv. cutoff \<le> ce_last_read (snd kv)) (ca_map c);
          freed = sum_list (map (\<lambda>kv. ce_footprint (snd kv))
                    (filter (\<lambda>kv. \<not> cutoff \<le> ce_last_read (snd kv)) (ca_map c)))
      in c\<lparr>ca_map := kept, ca_bytes := ca_bytes c - freed\<rparr>)"

definition insert_entry :: "string \<Rightarrow> cache_entry \<Rightarrow> cache \<Rightarrow> cache" where
  "insert_entry key e c =
     (let freed = (case map_of (ca_map c) key of Some old \<Rightarrow> ce_footprint old | None \<Rightarrow> 0);
          held = ca_bytes c - freed + ce_footprint e;
          c = c\<lparr>ca_map := AList.update key e (ca_map c), ca_bytes := held, ca_tick := ca_tick c + 1\<rparr>
      in if held > ca_max_bytes c then evict_until_under c else c)"

definition cache_insert :: "httpdate \<Rightarrow> nat \<Rightarrow> nat \<Rightarrow> nat \<Rightarrow> string \<Rightarrow> cached_response \<Rightarrow> cache \<Rightarrow> cache outcome" where
  "cache_insert pd esz now wall key r c =
     (case make_entry pd esz now wall key r (ca_tick c) of
        Panic \<Rightarrow> Panic
      | Val e \<Rightarrow> Val (insert_entry key e c))"

text \<open>\<open>evict_path\<close> removes the matching keys one by one, returning the bytes of each. The
  \<open>fetch_sub\<close> is on an atomic, which wraps instead of panicking; lemma \<open>evict_keys_filter\<close> shows
  that it never goes below zero.\<close>

fun evict_keys :: "string list \<Rightarrow> cache \<Rightarrow> cache" where
  "evict_keys [] c = c"
| "evict_keys (k # ks) c =
     evict_keys ks
       (case map_of (ca_map c) k of
          None \<Rightarrow> c
        | Some e \<Rightarrow> c\<lparr>ca_map := AList.delete k (ca_map c), ca_bytes := ca_bytes c - ce_footprint e\<rparr>)"

definition evict_path :: "string \<Rightarrow> cache \<Rightarrow> cache" where
  "evict_path path c =
     evict_keys (filter (starts_with (strip_query path @ [SEP])) (map fst (ca_map c))) c"

definition evict_paths :: "string list \<Rightarrow> cache \<Rightarrow> cache" where
  "evict_paths paths c = foldl (\<lambda>c p. evict_path p c) c paths"

definition clear :: "cache \<Rightarrow> cache" where
  "clear c = c\<lparr>ca_map := [], ca_bytes := 0\<rparr>"

section \<open>Sums over association lists\<close>

lemma sum_list_filter_split:
  "sum_list (map f (filter P xs)) + sum_list (map f (filter (\<lambda>x. \<not> P x) xs)) = (sum_list (map f xs) :: nat)"
  by (induction xs) auto

lemma sum_list_filter_perm:
  "mset xs = mset ys \<Longrightarrow> sum_list (map f (filter P xs)) = (sum_list (map f (filter P ys)) :: nat)"
  by (metis mset_filter mset_map sum_mset_sum_list)

lemma set_update_subset: "set (AList.update k v al) \<subseteq> Set.insert (k, v) (set al)"
  by (induction al) auto

lemma distinct_update_image:
  "distinct (map g al) \<Longrightarrow> g (k, v) \<notin> g ` set al \<Longrightarrow> distinct (map g (AList.update k v al))"
proof (induction al)
  case Nil
  show ?case by simp
next
  case (Cons x al)
  obtain a b where x: "x = (a, b)" by fastforce
  show ?case
  proof (cases "a = k")
    case True
    with Cons.prems x show ?thesis by auto
  next
    case False
    have "g x \<notin> g ` set (AList.update k v al)"
      using Cons.prems set_update_subset [of k v al] by auto
    with Cons False x show ?thesis by auto
  qed
qed

section \<open>The invariant\<close>

text \<open>The byte counter is the sum of the footprints and stays inside the bound; keys and read
  ticks are distinct, and every tick has been handed out by the counter.\<close>

definition cache_wf :: "cache \<Rightarrow> bool" where
  "cache_wf c \<longleftrightarrow>
     distinct (map fst (ca_map c)) \<and> distinct (map (\<lambda>kv. ce_last_read (snd kv)) (ca_map c)) \<and>
     (\<forall>kv \<in> set (ca_map c). ce_last_read (snd kv) < ca_tick c) \<and> ca_bytes c = footprint_sum c"

definition cache_inv :: "cache \<Rightarrow> bool" where
  "cache_inv c \<longleftrightarrow> cache_wf c \<and> ca_bytes c \<le> ca_max_bytes c"

lemma cache_wf_update:
  assumes "cache_wf c" and "ce_last_read e = ca_tick c"
    and "b + (case map_of (ca_map c) k of Some old \<Rightarrow> ce_footprint old | None \<Rightarrow> 0) = ca_bytes c + ce_footprint e"
  shows "cache_wf (c\<lparr>ca_map := AList.update k e (ca_map c), ca_bytes := b, ca_tick := ca_tick c + 1\<rparr>)"
proof -
  let ?t = "\<lambda>kv. ce_last_read (snd kv)"
  have "?t (k, e) \<notin> ?t ` set (ca_map c)" using assms(1,2) by (fastforce simp: cache_wf_def)
  then have "distinct (map ?t (AList.update k e (ca_map c)))"
    using assms(1) by (intro distinct_update_image) (simp_all add: cache_wf_def)
  moreover have "\<forall>kv \<in> set (AList.update k e (ca_map c)). ?t kv < ca_tick c + 1"
    using set_update_subset [of k e "ca_map c"] assms(1,2) by (fastforce simp: cache_wf_def)
  moreover have "b = sum_list (map (\<lambda>kv. ce_footprint (snd kv)) (AList.update k e (ca_map c)))"
    using sum_list_update [of "\<lambda>kv. ce_footprint (snd kv)" k e "ca_map c"] assms(1,3)
    by (cases "map_of (ca_map c) k") (auto simp: cache_wf_def footprint_sum_def)
  ultimately show ?thesis
    using assms(1) by (simp add: cache_wf_def footprint_sum_def distinct_update)
qed

lemma cache_wf_old_footprint:
  "cache_wf c \<Longrightarrow> map_of (ca_map c) k = Some old \<Longrightarrow> ce_footprint old \<le> ca_bytes c"
  using sum_list_map_of [of "ca_map c" k old "\<lambda>kv. ce_footprint (snd kv)"]
  by (simp add: cache_wf_def footprint_sum_def)

lemma cache_wf_filter:
  assumes "cache_wf c"
  shows "cache_wf (c\<lparr>ca_map := filter P (ca_map c),
    ca_bytes := ca_bytes c - sum_list (map (\<lambda>kv. ce_footprint (snd kv)) (filter (\<lambda>kv. \<not> P kv) (ca_map c)))\<rparr>)"
  using assms sum_list_filter_split [of "\<lambda>kv. ce_footprint (snd kv)" P "ca_map c"]
  by (auto simp: cache_wf_def footprint_sum_def distinct_map_filter)

section \<open>Eviction\<close>

text \<open>The scan cuts the entries, in strict read order, after the shortest prefix whose removal
  brings the sum down to the target.\<close>

lemma evict_scan_mono:
  "sorted_wrt (\<lambda>a b. fst a < fst b) es \<Longrightarrow> \<forall>e \<in> set es. cutoff \<le> fst e \<Longrightarrow> cutoff \<le> evict_scan target held cutoff es"
proof (induction es arbitrary: held cutoff)
  case Nil
  show ?case by simp
next
  case (Cons e es)
  obtain t f where e: "e = (t, f)" by fastforce
  have "t + 1 \<le> evict_scan target (held - f) (t + 1) es" using Cons e by (intro Cons.IH) auto
  with Cons.prems e show ?case by auto
qed

lemma evict_scan_split:
  assumes "sorted_wrt (\<lambda>a b. fst a < fst b) es" "held = sum_list (map snd es)" "\<forall>e \<in> set es. cutoff \<le> fst e"
  shows "\<exists>pre suf. es = pre @ suf \<and> sum_list (map snd suf) \<le> target \<and>
    filter (\<lambda>e. evict_scan target held cutoff es \<le> fst e) es = suf \<and>
    (\<forall>e \<in> set pre. fst e < evict_scan target held cutoff es) \<and>
    (pre \<noteq> [] \<longrightarrow> target < snd (last pre) + sum_list (map snd suf))"
  using assms
proof (induction es arbitrary: held cutoff)
  case Nil
  then show ?case by simp
next
  case (Cons e es)
  obtain t f where e: "e = (t, f)" by fastforce
  show ?case
  proof (cases "held \<le> target")
    case True
    have "filter (\<lambda>e. cutoff \<le> fst e) (e # es) = e # es" using Cons.prems(3) by (simp add: filter_id_conv)
    with True Cons.prems(2) e show ?thesis by (intro exI [of _ "[]"] exI [of _ "e # es"]) auto
  next
    case False
    have "\<forall>x \<in> set es. t + 1 \<le> fst x" using Cons.prems(1) e by auto
    moreover have "sorted_wrt (\<lambda>a b. fst a < fst b) es" "held - f = sum_list (map snd es)"
      using Cons.prems(1,2) e by simp_all
    ultimately obtain pre suf where
      ps: "es = pre @ suf" "sum_list (map snd suf) \<le> target"
        "filter (\<lambda>x. evict_scan target (held - f) (t + 1) es \<le> fst x) es = suf"
        "\<forall>x \<in> set pre. fst x < evict_scan target (held - f) (t + 1) es"
        "pre \<noteq> [] \<longrightarrow> target < snd (last pre) + sum_list (map snd suf)"
      using Cons.IH [of "held - f" "t + 1"] by blast
    have lower: "t + 1 \<le> evict_scan target (held - f) (t + 1) es"
      using Cons.prems(1) e by (intro evict_scan_mono) auto
    have "pre = [] \<Longrightarrow> target < f + sum_list (map snd suf)"
      using False Cons.prems(2) e ps(1) by simp
    with ps lower False e show ?thesis
      by (intro exI [of _ "e # pre"] exI [of _ suf]) auto
  qed
qed

lemma read_order_sorted: "cache_wf c \<Longrightarrow> sorted_wrt (\<lambda>a b. fst a < fst b) (read_order c)"
proof -
  assume wf: "cache_wf c"
  let ?xs = "map (\<lambda>kv. (ce_last_read (snd kv), ce_footprint (snd kv))) (ca_map c)"
  have "sorted (map fst (read_order c))" by (simp add: read_order_def)
  moreover have "distinct (map fst (read_order c))"
  proof -
    have "mset (map fst (read_order c)) = mset (map fst ?xs)"
      unfolding mset_map read_order_def mset_sort ..
    moreover have "distinct (map fst ?xs)" using wf by (simp add: cache_wf_def comp_def)
    ultimately show ?thesis using mset_eq_imp_distinct_iff by blast
  qed
  ultimately have "sorted_wrt (<) (map fst (read_order c))" by (simp add: strict_sorted_iff)
  then show ?thesis by (simp add: sorted_wrt_map)
qed

lemma read_order_sum:
  "sum_list (map snd (filter (\<lambda>e. n \<le> fst e) (read_order c))) =
   sum_list (map (\<lambda>kv. ce_footprint (snd kv)) (filter (\<lambda>kv. n \<le> ce_last_read (snd kv)) (ca_map c)))"
proof -
  let ?g = "\<lambda>kv. (ce_last_read (snd kv), ce_footprint (snd kv))"
  have "sum_list (map snd (filter (\<lambda>e. n \<le> fst e) (read_order c))) =
      sum_list (map snd (filter (\<lambda>e. n \<le> fst e) (map ?g (ca_map c))))"
    by (rule sum_list_filter_perm) (simp add: read_order_def)
  then show ?thesis by (simp add: filter_map comp_def)
qed

lemma evict_until_under_wf:
  assumes "cache_wf c"
  shows "cache_wf (evict_until_under c)" and "ca_bytes (evict_until_under c) \<le> evict_target c"
proof -
  define cutoff where "cutoff = evict_scan (evict_target c) (ca_bytes c) 0 (read_order c)"
  have e: "evict_until_under c = c\<lparr>ca_map := filter (\<lambda>kv. cutoff \<le> ce_last_read (snd kv)) (ca_map c),
    ca_bytes := ca_bytes c - sum_list (map (\<lambda>kv. ce_footprint (snd kv)) (filter (\<lambda>kv. \<not> cutoff \<le> ce_last_read (snd kv)) (ca_map c)))\<rparr>"
    by (simp add: evict_until_under_def cutoff_def Let_def)
  show wf: "cache_wf (evict_until_under c)" unfolding e by (rule cache_wf_filter [OF assms])
  have "ca_bytes c = sum_list (map snd (read_order c))"
    using assms read_order_sum [of 0 c] by (simp add: cache_wf_def footprint_sum_def)
  then obtain suf where "filter (\<lambda>e. cutoff \<le> fst e) (read_order c) = suf" "sum_list (map snd suf) \<le> evict_target c"
    using evict_scan_split [OF read_order_sorted [OF assms], of "ca_bytes c" 0 "evict_target c"]
    by (auto simp: cutoff_def)
  then have "footprint_sum (evict_until_under c) \<le> evict_target c"
    using read_order_sum [of cutoff c] by (simp add: e footprint_sum_def)
  with wf show "ca_bytes (evict_until_under c) \<le> evict_target c" by (simp add: cache_wf_def)
qed

section \<open>Every operation keeps the invariant\<close>

lemma cache_lookup_inv:
  assumes "cache_inv c" and "cache_lookup now key c = Val (r, c')"
  shows "cache_inv c'"
proof (cases "map_of (ca_map c) key")
  case None
  with assms show ?thesis by (simp add: cache_lookup_def)
next
  case (Some e)
  then have c': "c' = c\<lparr>ca_map := AList.update key (e\<lparr>ce_last_read := ca_tick c\<rparr>) (ca_map c),
      ca_bytes := ca_bytes c, ca_tick := ca_tick c + 1\<rparr>"
    using assms(2) by (auto simp: cache_lookup_def Let_def split: outcome.splits)
  have "cache_wf c'" unfolding c'
    using assms(1) Some by (intro cache_wf_update) (simp_all add: cache_inv_def)
  with assms(1) c' show ?thesis by (simp add: cache_inv_def)
qed

lemma lookup_with_inv:
  assumes "cache_inv c" and "lookup_with now t1 t2 key req c = Val (r, c')"
  shows "cache_inv c'"
proof (cases "rd_no_cache req")
  case True
  with assms show ?thesis by (simp add: lookup_with_def)
next
  case False
  then obtain r0 where "cache_lookup now key c = Val (r0, c')"
    using assms(2) by (auto simp: lookup_with_def split: outcome.splits lookup.splits)
  with assms(1) show ?thesis by (rule cache_lookup_inv)
qed

lemma insert_entry_wf:
  assumes "cache_inv c" and "ce_last_read e = ca_tick c"
  shows "cache_inv (insert_entry key e c)"
proof -
  let ?freed = "case map_of (ca_map c) key of Some old \<Rightarrow> ce_footprint old | None \<Rightarrow> 0"
  let ?held = "ca_bytes c - ?freed + ce_footprint e"
  let ?c = "c\<lparr>ca_map := AList.update key e (ca_map c), ca_bytes := ?held, ca_tick := ca_tick c + 1\<rparr>"
  have "?freed \<le> ca_bytes c"
    using assms(1) cache_wf_old_footprint by (auto simp: cache_inv_def split: option.split)
  then have wf: "cache_wf ?c"
    using assms by (intro cache_wf_update) (auto simp: cache_inv_def)
  have "evict_target ?c \<le> ca_max_bytes c" by (simp add: evict_target_def)
  with wf evict_until_under_wf [OF wf] show ?thesis
    by (auto simp: insert_entry_def Let_def cache_inv_def not_less evict_until_under_def)
qed

lemma cache_insert_inv:
  assumes "cache_inv c" and "cache_insert pd esz now wall key r c = Val c'"
  shows "cache_inv c'"
proof -
  obtain e where e: "make_entry pd esz now wall key r (ca_tick c) = Val e" "c' = insert_entry key e c"
    using assms(2) by (auto simp: cache_insert_def split: outcome.splits)
  then have "ce_last_read e = ca_tick c" by (auto simp: make_entry_def split: outcome.splits)
  with assms(1) e(2) show ?thesis by (simp add: insert_entry_wf)
qed

text \<open>Removing keys one by one is filtering the map, and the counter follows exactly.\<close>

lemma cache_wf_delete:
  assumes "cache_wf c" "map_of (ca_map c) k = Some e"
  shows "cache_wf (c\<lparr>ca_map := AList.delete k (ca_map c), ca_bytes := ca_bytes c - ce_footprint e\<rparr>)"
proof -
  have "filter (\<lambda>kv. fst kv = k) (ca_map c) = [(k, e)]"
    using assms by (simp add: cache_wf_def filter_distinct_key)
  then show ?thesis
    using cache_wf_filter [OF assms(1), of "\<lambda>kv. fst kv \<noteq> k"] by (simp add: delete_filter)
qed

lemma evict_keys_map:
  "ca_map (evict_keys ks c) = filter (\<lambda>kv. fst kv \<notin> set ks) (ca_map c)"
proof (induction ks arbitrary: c)
  case Nil
  show ?case by simp
next
  case (Cons k ks)
  have miss: "map_of (ca_map c) k = None \<Longrightarrow> filter (\<lambda>kv. fst kv \<noteq> k) (ca_map c) = ca_map c"
    by (auto simp: filter_id_conv map_of_eq_None_iff)
  have split: "filter (\<lambda>kv. fst kv \<notin> set (k # ks)) m = filter (\<lambda>kv. fst kv \<notin> set ks) (filter (\<lambda>kv. fst kv \<noteq> k) m)"
    for m :: "(string \<times> cache_entry) list" by (auto intro: filter_cong)
  have upd: "ca_map (c\<lparr>ca_map := m, ca_bytes := b\<rparr>) = m" for m b by simp
  show ?case unfolding split evict_keys.simps Cons.IH
    by (cases "map_of (ca_map c) k") (simp_all only: option.case miss delete_filter upd)
qed

lemma evict_keys_inv: "cache_inv c \<Longrightarrow> cache_inv (evict_keys ks c)"
proof (induction ks arbitrary: c)
  case (Cons k ks)
  have "cache_inv (c\<lparr>ca_map := AList.delete k (ca_map c), ca_bytes := ca_bytes c - ce_footprint e\<rparr>)"
    if "map_of (ca_map c) k = Some e" for e
    using Cons.prems cache_wf_delete [OF _ that] by (auto simp: cache_inv_def)
  with Cons show ?case by (auto split: option.split)
qed simp

lemma evict_path_inv: "cache_inv c \<Longrightarrow> cache_inv (evict_path p c)"
  by (simp add: evict_path_def evict_keys_inv)

lemma evict_paths_inv: "cache_inv c \<Longrightarrow> cache_inv (evict_paths ps c)"
  by (induction ps arbitrary: c) (simp_all add: evict_paths_def evict_path_inv)

lemma clear_inv: "cache_inv (clear c)"
  by (simp add: cache_inv_def cache_wf_def clear_def footprint_sum_def)

section \<open>The cache as a step system\<close>

inductive cache_step :: "httpdate \<Rightarrow> nat \<Rightarrow> cache \<Rightarrow> cache \<Rightarrow> bool" for pd esz where
  step_lookup: "cache_lookup now key c = Val (r, c') \<Longrightarrow> cache_step pd esz c c'"
| step_lookup_with: "lookup_with now t1 t2 key req c = Val (r, c') \<Longrightarrow> cache_step pd esz c c'"
| step_insert: "cache_insert pd esz now wall key resp c = Val c' \<Longrightarrow> cache_step pd esz c c'"
| step_evict_path: "cache_step pd esz c (evict_path p c)"
| step_evict_paths: "cache_step pd esz c (evict_paths ps c)"
| step_clear: "cache_step pd esz c (clear c)"

definition cache_init :: "cache \<Rightarrow> bool" where
  "cache_init c \<longleftrightarrow> (\<exists>tick mb. c = with_max_bytes tick mb)"

lemma cache_step_inv: "cache_inv c \<Longrightarrow> cache_step pd esz c c' \<Longrightarrow> cache_inv c'"
  by (erule cache_step.cases)
    (auto intro: cache_lookup_inv lookup_with_inv cache_insert_inv evict_path_inv evict_paths_inv clear_inv)

lemma cache_init_inv: "cache_init c \<Longrightarrow> cache_inv c"
  by (auto simp: cache_init_def cache_inv_def cache_wf_def with_max_bytes_def footprint_sum_def)

interpretation rc: step_invariant cache_init "cache_step pd esz" cache_inv
  by unfold_locales (auto intro: cache_init_inv cache_step_inv)

section \<open>Properties\<close>

text \<open>C4. In every state the cache can reach, by any sequence of lookups, inserts, evictions and
  clears, the byte counter is exactly the sum of the footprints of the stored entries and never
  exceeds the bound, no key is stored twice and no two entries share a read tick.\<close>

theorem cache_bounded:
  assumes "reachable cache_init (cache_step pd esz) c"
  shows "bytes_held c = footprint_sum c \<and> footprint_sum c \<le> ca_max_bytes c \<and>
         distinct (map fst (ca_map c)) \<and> distinct (map (\<lambda>kv. ce_last_read (snd kv)) (ca_map c))"
  using rc.inv_reachable [OF assms] by (simp add: cache_inv_def cache_wf_def bytes_held_def)

definition demo_response :: cached_response where
  "demo_response = \<lparr>cr_status = 200, cr_headers = [(''Cache-Control'', ''public, max-age=60'')], cr_body = ''hello''\<rparr>"

definition demo_cache :: cache where
  "demo_cache = (case cache_insert (\<lambda>_. None) 100 0 0 (cache_key ''/a'' None ''gzip'') demo_response (with_max_bytes 0 1000) of
     Val c \<Rightarrow> c | Panic \<Rightarrow> cache_new 0)"

theorem cache_bounded_witness:
  "bytes_held demo_cache = 146 \<and> footprint_sum demo_cache \<le> 1000 \<and> cache_len demo_cache = 1"
proof -
  have "case cache_insert (\<lambda>_. None) 100 0 0 (cache_key ''/a'' None ''gzip'') demo_response (with_max_bytes 0 1000) of
     Val c \<Rightarrow> True | Panic \<Rightarrow> False" by code_simp
  then have ins: "cache_insert (\<lambda>_. None) 100 0 0 (cache_key ''/a'' None ''gzip'') demo_response (with_max_bytes 0 1000) = Val demo_cache"
    by (auto simp: demo_cache_def split: outcome.splits)
  have "reachable cache_init (cache_step (\<lambda>_. None) 100) (with_max_bytes 0 1000)"
    by (rule reachable_init) (auto simp: cache_init_def)
  then have "reachable cache_init (cache_step (\<lambda>_. None) 100) demo_cache"
    using step_insert [OF ins] by (rule reachable_step)
  from cache_bounded [OF this] have "footprint_sum demo_cache \<le> ca_max_bytes demo_cache" by simp
  moreover have "ca_max_bytes demo_cache = 1000" "bytes_held demo_cache = 146" "cache_len demo_cache = 1" by code_simp+
  ultimately show ?thesis by simp
qed

lemma evict_until_under_keeps:
  "kv \<in> set (ca_map (evict_until_under c)) \<longleftrightarrow>
   kv \<in> set (ca_map c) \<and> evict_scan (evict_target c) (ca_bytes c) 0 (read_order c) \<le> ce_last_read (snd kv)"
  by (simp add: evict_until_under_def Let_def)



section \<open>What is found again\<close>

lemma insert_entry_fits:
  assumes "cache_inv c"
    and "ca_bytes c - (case map_of (ca_map c) key of Some old \<Rightarrow> ce_footprint old | None \<Rightarrow> 0) + ce_footprint e \<le> ca_max_bytes c"
  shows "map_of (ca_map (insert_entry key e c)) = (map_of (ca_map c))(key \<mapsto> e)"
  using assms(2) by (simp add: insert_entry_def Let_def update_conv')

lemma insert_entry_map: "\<exists>P. ca_map (insert_entry key e c) = filter P (AList.update key e (ca_map c))"
proof (cases "ca_map (insert_entry key e c) = AList.update key e (ca_map c)")
  case True
  then show ?thesis by (intro exI [of _ "\<lambda>_. True"]) simp
next
  case False
  then show ?thesis by (auto simp: insert_entry_def Let_def evict_until_under_def split: if_splits)
qed

text \<open>After an insert the key is bound to the new entry or, when it was evicted at once, to none.\<close>

lemma insert_entry_get:
  assumes "cache_inv c"
  shows "map_of (ca_map (insert_entry key e c)) key \<in> {None, Some e}"
proof -
  obtain P where P: "ca_map (insert_entry key e c) = filter P (AList.update key e (ca_map c))"
    using insert_entry_map by blast
  have "distinct (map fst (AList.update key e (ca_map c)))"
    using assms by (simp add: cache_inv_def cache_wf_def distinct_update)
  from map_of_filter_distinct [OF this] show ?thesis by (simp add: P update_conv')
qed

lemma make_entry_Val:
  "make_entry pd esz now wall key r tick = Val e \<longleftrightarrow>
     (\<exists>x. expiry pd now wall (cr_headers r) = Val x \<and> as_secs (x + stale_window (cr_headers r)) < 2 ^ 63 \<and>
        e = \<lparr>ce_response = r, ce_stored_at = now, ce_upstream_age = upstream_age pd wall (cr_headers r),
             ce_expires_at = Some x, ce_serve_stale_until = Some (x + stale_window (cr_headers r)),
             ce_footprint = entry_footprint esz key r, ce_last_read = tick\<rparr>)"
  by (auto simp: make_entry_def instant_add_def split: outcome.splits if_splits)

lemma cache_lookup_of:
  assumes "map_of (ca_map c) key = Some e" and "entry_age t e = Val age"
  shows "\<exists>c'. cache_lookup t key c = Val (classify t e age, c')"
  using assms by (simp add: cache_lookup_def)

text \<open>A response stored while there is room is found again: fresh until its expiry, then stale
  until the end of its \<open>stale-while-revalidate\<close> window, then not at all, with the age it arrived
  with plus the time it has been held. The expiry of a response with \<open>max-age\<close> or \<open>s-maxage\<close> is
  one second before the lifetime ends.\<close>

theorem insert_then_lookup:
  assumes "cache_inv c" and "cache_insert pd esz now wall key r c = Val c'"
    and "ca_bytes c - (case map_of (ca_map c) key of Some old \<Rightarrow> ce_footprint old | None \<Rightarrow> 0) +
         entry_footprint esz key r \<le> ca_max_bytes c"
    and "expiry pd now wall (cr_headers r) = Val x"
    and "as_secs (upstream_age pd wall (cr_headers r) + (t - now)) < 2 ^ 64"
  shows "(\<exists>c''. cache_lookup t key c' =
           Val (let age = upstream_age pd wall (cr_headers r) + (t - now) in
                if t < x then Fresh r age
                else if t < x + stale_window (cr_headers r) then Stale r age else Miss, c'')) \<and>
         (shared_lifetime (cache_control_parse (cr_headers r)) = Some l \<longrightarrow> x = now + (l - from_secs 1))"
proof -
  obtain e where e: "make_entry pd esz now wall key r (ca_tick c) = Val e" "c' = insert_entry key e c"
    using assms(2) by (auto simp: cache_insert_def split: outcome.splits)
  then have ev: "e = \<lparr>ce_response = r, ce_stored_at = now, ce_upstream_age = upstream_age pd wall (cr_headers r),
      ce_expires_at = Some x, ce_serve_stale_until = Some (x + stale_window (cr_headers r)),
      ce_footprint = entry_footprint esz key r, ce_last_read = ca_tick c\<rparr>"
    using assms(4) by (auto simp: make_entry_Val)
  have "map_of (ca_map c') key = Some e"
    using insert_entry_fits [OF assms(1), of key e] assms(3) ev e(2) by simp
  moreover have "entry_age t e = Val (upstream_age pd wall (cr_headers r) + (t - now))"
    using assms(5) by (simp add: ev entry_age_def duration_add_def)
  ultimately have "\<exists>c''. cache_lookup t key c' =
      Val (classify t e (upstream_age pd wall (cr_headers r) + (t - now)), c'')"
    by (rule cache_lookup_of)
  moreover have "classify t e age = (if t < x then Fresh r age
      else if t < x + stale_window (cr_headers r) then Stale r age else Miss)" for age
    by (simp add: classify_def ev)
  moreover have "shared_lifetime (cache_control_parse (cr_headers r)) = Some l \<longrightarrow> x = now + (l - from_secs 1)"
    using assms(4) by (auto simp: expiry_def cache_directives_def Let_def REFRESH_MARGIN_def instant_add_def split: if_splits)
  ultimately show ?thesis by (simp only: Let_def)
qed

lemma demo_cache_insert:
  "cache_insert (\<lambda>_. None) 100 0 0 (cache_key ''/a'' None ''gzip'') demo_response (with_max_bytes 0 1000) = Val demo_cache"
proof -
  have "case cache_insert (\<lambda>_. None) 100 0 0 (cache_key ''/a'' None ''gzip'') demo_response (with_max_bytes 0 1000) of
     Val c \<Rightarrow> True | Panic \<Rightarrow> False" by code_simp
  then show ?thesis by (auto simp: demo_cache_def split: outcome.splits)
qed

theorem insert_then_lookup_witness:
  "\<exists>c''. cache_lookup (from_secs 58) (cache_key ''/a'' None ''gzip'') demo_cache =
     Val (Fresh demo_response (from_secs 58), c'')"
proof -
  have inv: "cache_inv (with_max_bytes 0 1000)" by code_simp
  have x: "expiry (\<lambda>_. None) 0 0 (cr_headers demo_response) = Val (from_secs 59)"
    "upstream_age (\<lambda>_. None) 0 (cr_headers demo_response) = 0" by code_simp+
  have fits: "ca_bytes (with_max_bytes 0 1000) - (case map_of (ca_map (with_max_bytes 0 1000)) (cache_key ''/a'' None ''gzip'') of
      Some old \<Rightarrow> ce_footprint old | None \<Rightarrow> 0) + entry_footprint 100 (cache_key ''/a'' None ''gzip'') demo_response
      \<le> ca_max_bytes (with_max_bytes 0 1000)" by code_simp
  have "as_secs (upstream_age (\<lambda>_. None) 0 (cr_headers demo_response) + (from_secs 58 - 0)) < 2 ^ 64"
    by (simp add: x from_secs_def as_secs_def)
  from insert_then_lookup [OF inv demo_cache_insert fits x(1) this, of 0]
  show ?thesis by (simp add: x(2) from_secs_def Let_def)
qed

text \<open>A response marked \<open>no-cache\<close> is never answered from the cache, fresh or stale, whatever
  \<open>max-age\<close>, \<open>s-maxage\<close> or \<open>stale-while-revalidate\<close> it also carries.\<close>

theorem no_cache_never_served:
  assumes "cache_inv c" and "cache_insert pd esz now wall key r c = Val c'"
    and "has_directive (cr_headers r) ''no-cache''" and "now \<le> t" and "cache_lookup t key c' = Val (res, c'')"
  shows "res = Miss"
proof -
  obtain e where e: "make_entry pd esz now wall key r (ca_tick c) = Val e" "c' = insert_entry key e c"
    using assms(2) by (auto simp: cache_insert_def split: outcome.splits)
  have nc: "d_lifetime (cache_directives (cr_headers r)) = Some 0" "stale_window (cr_headers r) = 0"
    using assms(3) by (simp_all add: cache_directives_def stale_window_def shared_lifetime_def parse_has Let_def)
  then have "ce_expires_at e = Some now" "ce_serve_stale_until e = Some now"
    using e(1) by (auto simp: make_entry_Val expiry_def instant_add_def split: if_splits)
  then have cl: "classify t e age = Miss" for age using assms(4) by (simp add: classify_def)
  have "map_of (ca_map c') key \<in> {None, Some e}" unfolding e(2) by (rule insert_entry_get [OF assms(1)])
  then show ?thesis using assms(5) cl by (auto simp: cache_lookup_def Let_def split: outcome.splits)
qed

definition demo_no_cache :: cached_response where
  "demo_no_cache = \<lparr>cr_status = 200, cr_headers = [(''Cache-Control'', ''public, max-age=60''),
     (''Cache-Control'', ''no-cache, stale-while-revalidate=9'')], cr_body = []\<rparr>"

theorem no_cache_never_served_witness:
  "\<exists>c'. cache_insert (\<lambda>_. None) 0 5 0 ''k'' demo_no_cache (cache_new 0) = Val c' \<and>
     (\<forall>res c''. cache_lookup 6 ''k'' c' = Val (res, c'') \<longrightarrow> res = Miss)"
proof -
  have "case cache_insert (\<lambda>_. None) 0 5 0 ''k'' demo_no_cache (cache_new 0) of Val _ \<Rightarrow> True | Panic \<Rightarrow> False"
    by code_simp
  then obtain c' where c': "cache_insert (\<lambda>_. None) 0 5 0 ''k'' demo_no_cache (cache_new 0) = Val c'"
    by (auto split: outcome.splits)
  have "cache_inv (cache_new 0)" "has_directive (cr_headers demo_no_cache) ''no-cache''" "(5::nat) \<le> 6" by code_simp+
  with no_cache_never_served [OF this(1) c' this(2,3)] c' show ?thesis by blast
qed

section \<open>Request directives\<close>

lemma cache_lookup_found:
  assumes "cache_lookup now key c = Val (res, c')" and "res = Fresh resp age \<or> res = Stale resp age"
  shows "\<exists>e. map_of (ca_map c) key = Some e \<and> ce_response e = resp \<and> entry_age now e = Val age \<and>
    map_of (ca_map c') key = Some (e\<lparr>ce_last_read := ca_tick c\<rparr>)"
  using assms
  by (auto simp: cache_lookup_def classify_def Let_def update_conv' split: option.splits outcome.splits if_splits)

lemma admit_answers: "admit t1 t2 key req c r a w \<in> {Fresh r a, Stale r a, Miss}"
  by (simp add: admit_def split: option.split)

lemma as_secs_le: "m \<le> as_secs d \<longleftrightarrow> from_secs m \<le> d"
  by (simp add: as_secs_def from_secs_def less_eq_div_iff_mult_less_eq)

text \<open>C6. The client's own directives are honoured: an answer from the cache is the stored response
  of that key, it is only given when the request did not say \<open>no-cache\<close>, it is no older than the
  request's \<open>max-age\<close>, it has at least \<open>min-fresh\<close> seconds left, and when it is stale it is within
  the \<open>max-stale\<close> bound.\<close>

theorem lookup_with_honours:
  assumes "lookup_with now t1 t2 key req c = Val (res, c')"
    and "res = Fresh resp age \<or> res = Stale resp age"
  shows "\<not> rd_no_cache req \<and>
    (\<exists>e. map_of (ca_map c) key = Some e \<and> ce_response e = resp \<and> entry_age now e = Val age \<and>
      (\<forall>m. rd_max_age req = Some m \<longrightarrow> as_secs age \<le> m) \<and>
      (\<forall>m x. rd_min_fresh req = Some m \<longrightarrow> 0 < m \<longrightarrow> ce_expires_at e = Some x \<longrightarrow> t1 + from_secs m \<le> x) \<and>
      (\<forall>m x. res = Stale resp age \<longrightarrow> rd_max_stale req = Some (Some m) \<longrightarrow> ce_expires_at e = Some x \<longrightarrow>
         x \<le> t2 \<longrightarrow> as_secs (t2 - x) \<le> m))"
proof -
  have nc: "\<not> rd_no_cache req" using assms by (auto simp: lookup_with_def)
  obtain res0 w r0 a0 where l0: "cache_lookup now key c = Val (res0, c')" "res0 = Fresh r0 a0 \<or> res0 = Stale r0 a0"
    and a0: "admit t1 t2 key req c' r0 a0 w = res"
    using assms nc by (auto simp: lookup_with_def split: outcome.splits lookup.splits)
  have "r0 = resp" "a0 = age" using admit_answers [of t1 t2 key req c' r0 a0 w] a0 assms(2) by auto
  then have l: "cache_lookup now key c = Val (res0, c')" "res0 = Fresh resp age \<or> res0 = Stale resp age"
    and a: "admit t1 t2 key req c' resp age w = res" using l0 a0 by auto
  obtain e where e: "map_of (ca_map c) key = Some e" "ce_response e = resp" "entry_age now e = Val age"
    and e': "map_of (ca_map c') key = Some (e\<lparr>ce_last_read := ca_tick c\<rparr>)"
    using cache_lookup_found [OF l] by blast
  have "as_secs age \<le> m" if "rd_max_age req = Some m" for m
    using that a assms(2) by (auto simp: admit_def split: if_splits)
  moreover have "t1 + from_secs m \<le> x" if "rd_min_fresh req = Some m" "0 < m" "ce_expires_at e = Some x" for m x
  proof -
    have "m \<le> as_secs (or_zero (remaining_freshness t1 key c'))"
      using that(1) a assms(2) by (auto simp: admit_def split: if_splits)
    then have "from_secs m \<le> (if t1 \<le> x then x - t1 else 0)"
      using that(3) e' by (simp add: as_secs_le remaining_freshness_def or_zero_def split: if_splits)
    with that(2) show ?thesis by (auto simp: from_secs_def split: if_splits)
  qed
  moreover have "as_secs (t2 - x) \<le> m"
    if "res = Stale resp age" "rd_max_stale req = Some (Some m)" "ce_expires_at e = Some x" "x \<le> t2" for m x
    using that a e' by (auto simp: admit_def staleness_def or_zero_def split: if_splits option.splits)
  ultimately show ?thesis using nc e by blast
qed

theorem lookup_with_honours_witness:
  "\<exists>c'. lookup_with (from_secs 30) (from_secs 30) (from_secs 30) (cache_key ''/a'' None ''gzip'')
     (request_directives_parse [(''cache-control'', ''max-age=30, min-fresh=20'')]) demo_cache =
     Val (Fresh demo_response (from_secs 30), c') \<and> as_secs (from_secs 30) \<le> 30"
proof -
  let ?req = "request_directives_parse [(''cache-control'', ''max-age=30, min-fresh=20'')]"
  let ?k = "cache_key ''/a'' None ''gzip''"
  have "case lookup_with (from_secs 30) (from_secs 30) (from_secs 30) ?k ?req demo_cache of
      Val (Fresh r a, c') \<Rightarrow> r = demo_response \<and> a = from_secs 30 | _ \<Rightarrow> False" by code_simp
  then obtain c' where l: "lookup_with (from_secs 30) (from_secs 30) (from_secs 30) ?k ?req demo_cache =
      Val (Fresh demo_response (from_secs 30), c')"
    by (auto split: outcome.splits lookup.splits prod.splits)
  have m: "rd_max_age ?req = Some 30" by code_simp
  have "as_secs (from_secs 30) \<le> 30" using lookup_with_honours [OF l] m by blast
  with l show ?thesis by blast
qed

section \<open>Keys\<close>

lemma split_sep_eq:
  "SEP \<notin> set a \<Longrightarrow> SEP \<notin> set a' \<Longrightarrow> a @ SEP # b = a' @ SEP # b' \<longleftrightarrow> a = a' \<and> b = b'"
proof -
  assume "SEP \<notin> set a" "SEP \<notin> set a'"
  then have "split_once SEP (a @ SEP # b) = Some (a, b)" "split_once SEP (a' @ SEP # b') = Some (a', b')"
    by (simp_all add: split_once_Some)
  then show ?thesis by (metis option.inject prod.inject)
qed

text \<open>Distinct requests never share an entry: for paths and queries without the separator
  byte, two keys are equal exactly when path (without any query), query and encoding are; the
  allocation-free lookup key is that same key when it fits in 512 bytes and otherwise a string no
  key equals.\<close>

theorem cache_key_injective:
  assumes "SEP \<notin> set (strip_query p)" "SEP \<notin> set (strip_query p')"
    and "SEP \<notin> set (case q of Some s \<Rightarrow> s | None \<Rightarrow> [])" "SEP \<notin> set (case q' of Some s \<Rightarrow> s | None \<Rightarrow> [])"
  shows "(cache_key p q e = cache_key p' q' e' \<longleftrightarrow>
           strip_query p = strip_query p' \<and>
           (case q of Some s \<Rightarrow> s | None \<Rightarrow> []) = (case q' of Some s \<Rightarrow> s | None \<Rightarrow> []) \<and> e = e') \<and>
         make_lookup_key p q e = (if length (cache_key p q e) \<le> 512 then cache_key p q e else []) \<and>
         cache_key p q e \<noteq> []"
proof -
  have "cache_key p q e = cache_key p' q' e' \<longleftrightarrow>
      strip_query p = strip_query p' \<and>
      (case q of Some s \<Rightarrow> s | None \<Rightarrow> []) = (case q' of Some s \<Rightarrow> s | None \<Rightarrow> []) \<and> e = e'"
    unfolding cache_key_def split_sep_eq [OF assms(1,2)] split_sep_eq [OF assms(3,4)] ..
  then show ?thesis by (simp add: cache_key_def make_lookup_key_def Let_def)
qed

theorem cache_key_injective_witness:
  "cache_key ''/s'' (Some ''q=a'') ''br'' \<noteq> cache_key ''/s'' (Some ''q=b'') ''br'' \<and>
   make_lookup_key ''/s?x'' (Some ''q=a'') ''br'' = cache_key ''/s'' (Some ''q=a'') ''br''"
proof -
  have ns: "SEP \<notin> set (strip_query ''/s'')" "SEP \<notin> set (strip_query ''/s?x'')"
    "SEP \<notin> set (case Some ''q=a'' of Some s \<Rightarrow> s | None \<Rightarrow> [])" "SEP \<notin> set (case Some ''q=b'' of Some s \<Rightarrow> s | None \<Rightarrow> [])"
    by code_simp+
  have "length (cache_key ''/s?x'' (Some ''q=a'') ''br'') \<le> 512"
    "cache_key ''/s?x'' (Some ''q=a'') ''br'' = cache_key ''/s'' (Some ''q=a'') ''br''" by code_simp+
  with cache_key_injective [OF ns(2,1,3,4), of "''br''" "''br''"]
    cache_key_injective [OF ns(1,1,3,4), of "''br''" "''br''"] show ?thesis by simp
qed

text \<open>Invalidating a path removes every query and encoding variant of it and nothing else.\<close>

theorem evict_path_exact:
  assumes "cache_inv c" and "SEP \<notin> set (strip_query path)" and "SEP \<notin> set (strip_query p)"
  shows "map_of (ca_map (evict_path path c)) (cache_key p q e) =
         (if strip_query p = strip_query path then None else map_of (ca_map c) (cache_key p q e))"
proof -
  let ?pre = "strip_query path @ [SEP]" and ?k = "cache_key p q e"
  have "starts_with ?pre ?k \<longleftrightarrow> strip_query p = strip_query path"
    using split_sep_eq [OF assms(3,2)] by (auto simp: starts_with_iff cache_key_def)
  moreover have "ca_map (evict_path path c) = filter (\<lambda>kv. \<not> starts_with ?pre (fst kv)) (ca_map c)"
    by (auto simp: evict_path_def evict_keys_map intro!: filter_cong)
  moreover have "distinct (map fst (ca_map c))" using assms(1) by (simp add: cache_inv_def cache_wf_def)
  ultimately show ?thesis by (simp add: map_of_filter_distinct split: option.split)
qed

theorem evict_path_exact_witness:
  "map_of (ca_map (evict_path ''/a?v=2'' demo_cache)) (cache_key ''/a'' None ''gzip'') = None \<and>
   map_of (ca_map (evict_path ''/b'' demo_cache)) (cache_key ''/a'' None ''gzip'') \<noteq> None"
proof -
  have ns: "cache_inv demo_cache" "SEP \<notin> set (strip_query ''/a?v=2'')" "SEP \<notin> set (strip_query ''/b'')"
    "SEP \<notin> set (strip_query ''/a'')" by code_simp+
  have "strip_query ''/a'' = strip_query ''/a?v=2''" "strip_query ''/a'' \<noteq> strip_query ''/b''"
    "map_of (ca_map demo_cache) (cache_key ''/a'' None ''gzip'') \<noteq> None" by code_simp+
  with evict_path_exact [OF ns(1,2,4)] evict_path_exact [OF ns(1,3,4)] show ?thesis by simp
qed

section \<open>Lifetimes out of range\<close>

definition demo_huge :: "string \<Rightarrow> string \<Rightarrow> cached_response" where
  "demo_huge n v = \<lparr>cr_status = 200, cr_headers = [(''Cache-Control'', ''public''), (n, v)], cr_body = []\<rparr>"

text \<open>Header values of the backend that end the process: storing a response with the largest
  64-bit \<open>max-age\<close> overflows the expiry instant, and one with the largest \<open>Age\<close> is stored but the
  first lookup a second later overflows the age.\<close>

theorem cache_overflow_panics:
  "cache_insert pd esz now wall key (demo_huge ''Cache-Control'' ''max-age=18446744073709551615'') c = Panic \<and>
   (\<exists>c'. cache_insert (\<lambda>_. None) 0 0 0 ''k'' (demo_huge ''Age'' ''18446744073709551615'') (cache_new 0) = Val c' \<and>
         cache_lookup (from_secs 1) ''k'' c' = Panic)"
proof -
  have hs: "cr_headers (demo_huge ''Cache-Control'' ''max-age=18446744073709551615'') =
      [(''Cache-Control'', ''public''), (''Cache-Control'', ''max-age=18446744073709551615'')]"
    by (simp add: demo_huge_def)
  have "d_lifetime (cache_directives (cr_headers (demo_huge ''Cache-Control'' ''max-age=18446744073709551615''))) =
      Some (from_secs 18446744073709551615)" unfolding hs by code_simp
  then have "expiry pd now wall (cr_headers (demo_huge ''Cache-Control'' ''max-age=18446744073709551615'')) = Panic"
    by (simp add: expiry_def instant_add_def as_secs_def from_secs_def REFRESH_MARGIN_def)
  then have 1: "cache_insert pd esz now wall key (demo_huge ''Cache-Control'' ''max-age=18446744073709551615'') c = Panic"
    by (simp add: cache_insert_def make_entry_def)
  have "case cache_insert (\<lambda>_. None) 0 0 0 ''k'' (demo_huge ''Age'' ''18446744073709551615'') (cache_new 0) of
      Val c' \<Rightarrow> (case cache_lookup (from_secs 1) ''k'' c' of Panic \<Rightarrow> True | _ \<Rightarrow> False) | Panic \<Rightarrow> False" by code_simp
  with 1 show ?thesis by (auto split: outcome.splits)
qed

text \<open>Freshness is counted from arrival, not from generation: a response that was already as old
  as its own lifetime when it arrived (\<open>Age: 3600\<close> with \<open>max-age=3600\<close>) is served as fresh, ten
  seconds later with an age of 3610 seconds.\<close>

theorem cache_fresh_past_lifetime:
  "\<exists>c' c''. cache_insert (\<lambda>_. None) 0 0 0 ''k''
       \<lparr>cr_status = 200, cr_headers = [(''Cache-Control'', ''public, max-age=3600''), (''Age'', ''3600'')], cr_body = []\<rparr>
       (cache_new 0) = Val c' \<and>
     cache_lookup (from_secs 10) ''k'' c' =
       Val (Fresh \<lparr>cr_status = 200, cr_headers = [(''Cache-Control'', ''public, max-age=3600''), (''Age'', ''3600'')], cr_body = []\<rparr>
         (from_secs 3610), c'')"
proof -
  let ?r = "\<lparr>cr_status = 200, cr_headers = [(''Cache-Control'', ''public, max-age=3600''), (''Age'', ''3600'')], cr_body = []\<rparr>"
  have "case cache_insert (\<lambda>_. None) 0 0 0 ''k'' ?r (cache_new 0) of
      Val c' \<Rightarrow> (case cache_lookup (from_secs 10) ''k'' c' of Val (Fresh r a, c'') \<Rightarrow> r = ?r \<and> a = from_secs 3610 | _ \<Rightarrow> False)
    | Panic \<Rightarrow> False" by code_simp
  then show ?thesis by (auto split: outcome.splits lookup.splits prod.splits)
qed

end
