(* ===== verification/Pool.thy ===== *)
theory Pool
  imports Step_System Forwarding
begin

text \<open>
  The backend pools of \<open>m6-http/src/pool.rs\<close> and the one place of \<open>m6-http/src/main.rs\<close> that
  drives them, \<open>forward_to_backend\<close>.

  \<open>glob::Pattern::matches\<close> and \<open>glob::glob\<close> are parameters (\<open>None\<close> is their \<open>Err\<close>), as are the
  operating system's \<open>connect\<close> and the exchange with the backend. The time read by
  \<open>Instant::now()\<close> is an argument. The shift \<open>1u64 << (failure_count - 1)\<close> panics from a shift
  of 64 on, because the workspace builds with overflow checks.
\<close>

section \<open>A member of a pool\<close>

record pool_member =
  pm_path :: string
  pm_connections :: nat
  pm_retry_at :: "nat option"
  pm_failure_count :: nat

definition new_member :: "string \<Rightarrow> pool_member" where
  "new_member p = \<lparr>pm_path = p, pm_connections = 0, pm_retry_at = None, pm_failure_count = 0\<rparr>"

definition is_available :: "nat \<Rightarrow> pool_member \<Rightarrow> bool" where
  "is_available now m = (case pm_retry_at m of None \<Rightarrow> True | Some t \<Rightarrow> t \<le> now)"

definition shl_u64_one :: "nat \<Rightarrow> nat outcome" where
  "shl_u64_one k = (if k < 64 then Val (2 ^ k) else Panic)"

definition backoff_duration :: "pool_member \<Rightarrow> nat outcome" where
  "backoff_duration m = bind_outcome
     (if pm_failure_count m = 0 then Val 1
      else bind_outcome (shl_u64_one (pm_failure_count m - 1)) (\<lambda>s. Val (min s 30)))
     (\<lambda>secs. Val (secs * 1000000000))"

definition member_mark_failed :: "nat \<Rightarrow> pool_member \<Rightarrow> pool_member outcome" where
  "member_mark_failed now m = bind_outcome (u32_add (pm_failure_count m) 1) (\<lambda>n.
     let m = m\<lparr>pm_failure_count := n\<rparr> in
     bind_outcome (backoff_duration m) (\<lambda>d. Val (m\<lparr>pm_retry_at := Some (now + d)\<rparr>)))"

definition member_mark_success :: "pool_member \<Rightarrow> pool_member" where
  "member_mark_success m = m\<lparr>pm_failure_count := 0, pm_retry_at := None\<rparr>"

section \<open>A pool\<close>

record backend_pool =
  bp_name :: string
  bp_socket_glob :: string
  bp_members :: "pool_member list"

datatype 'e pool_error = Empty | ConnectFailed 'e

definition new_pool :: "string \<Rightarrow> string \<Rightarrow> backend_pool" where
  "new_pool n g = \<lparr>bp_name = n, bp_socket_glob = g, bp_members = []\<rparr>"

definition add_socket :: "string \<Rightarrow> backend_pool \<Rightarrow> backend_pool" where
  "add_socket p b = (if list_ex (\<lambda>m. pm_path m = p) (bp_members b) then b
     else b\<lparr>bp_members := bp_members b @ [new_member p]\<rparr>)"

definition remove_at :: "nat \<Rightarrow> 'a list \<Rightarrow> 'a list" where
  "remove_at i xs = take i xs @ drop (Suc i) xs"

definition remove_socket :: "string \<Rightarrow> backend_pool \<Rightarrow> backend_pool" where
  "remove_socket p b = (case position (\<lambda>m. pm_path m = p) (bp_members b) of
     Some i \<Rightarrow> b\<lparr>bp_members := remove_at i (bp_members b)\<rparr>
   | None \<Rightarrow> b)"

text \<open>The loop of \<open>pick_member\<close>: the index of the next member, the best index so far and its
  number of connections.\<close>

fun pick_loop :: "nat \<Rightarrow> nat \<Rightarrow> nat option \<Rightarrow> nat \<Rightarrow> pool_member list \<Rightarrow> nat option" where
  "pick_loop now i best best_conns [] = best"
| "pick_loop now i best best_conns (m # ms) =
     (if (case pm_retry_at m of None \<Rightarrow> True | Some t \<Rightarrow> t \<le> now) \<and> pm_connections m < best_conns
      then pick_loop now (Suc i) (Some i) (pm_connections m) ms
      else pick_loop now (Suc i) best best_conns ms)"

definition pick_member :: "nat \<Rightarrow> backend_pool \<Rightarrow> nat option" where
  "pick_member now b = pick_loop now 0 None (usize_limit - 1) (bp_members b)"

definition set_member :: "nat \<Rightarrow> pool_member \<Rightarrow> backend_pool \<Rightarrow> backend_pool" where
  "set_member i m b = b\<lparr>bp_members := (bp_members b)[i := m]\<rparr>"

text \<open>\<open>connect\<close>, with what the operating system answers for a path.\<close>

definition connect :: "(string \<Rightarrow> 'e + 's) \<Rightarrow> nat \<Rightarrow> backend_pool \<Rightarrow>
    (('e pool_error + 's \<times> nat) \<times> backend_pool) outcome" where
  "connect dial now b = (case pick_member now b of
     None \<Rightarrow> Val (Inl Empty, b)
   | Some idx \<Rightarrow>
       let m = bp_members b ! idx in
       (case dial (pm_path m) of
          Inr stream \<Rightarrow>
            let m = member_mark_success m in
            bind_outcome (usize_add (pm_connections m) 1) (\<lambda>n.
              Val (Inr (stream, idx), set_member idx (m\<lparr>pm_connections := n\<rparr>) b))
        | Inl e \<Rightarrow>
            bind_outcome (member_mark_failed now m) (\<lambda>m.
              Val (Inl (ConnectFailed e), set_member idx m b))))"

definition pick_socket :: "nat \<Rightarrow> backend_pool \<Rightarrow>
    (('e pool_error + string \<times> nat) \<times> backend_pool) outcome" where
  "pick_socket now b = (case pick_member now b of
     None \<Rightarrow> Val (Inl Empty, b)
   | Some idx \<Rightarrow>
       let m = bp_members b ! idx in
       bind_outcome (usize_add (pm_connections m) 1) (\<lambda>n.
         Val (Inr (pm_path m, idx), set_member idx (m\<lparr>pm_connections := n\<rparr>) b)))"

definition pool_mark_failed :: "nat \<Rightarrow> nat \<Rightarrow> backend_pool \<Rightarrow> backend_pool outcome" where
  "pool_mark_failed now idx b = (if idx < length (bp_members b) then
     let m = bp_members b ! idx in
     bind_outcome (member_mark_failed now (m\<lparr>pm_connections := pm_connections m - 1\<rparr>))
       (\<lambda>m'. Val (set_member idx m' b))
   else Val b)"

definition release :: "nat \<Rightarrow> backend_pool \<Rightarrow> backend_pool" where
  "release idx b = (if idx < length (bp_members b) then
     let m = bp_members b ! idx in
     if 0 < pm_connections m then set_member idx (m\<lparr>pm_connections := pm_connections m - 1\<rparr>) b
     else b
   else b)"

definition matches_glob :: "(string \<Rightarrow> (string \<Rightarrow> bool) option) \<Rightarrow> string \<Rightarrow> backend_pool \<Rightarrow> bool" where
  "matches_glob pattern_new p b = (case pattern_new (bp_socket_glob b) of
     Some matches \<Rightarrow> matches p
   | None \<Rightarrow> False)"

definition rescan :: "(string \<Rightarrow> string list option) \<Rightarrow> backend_pool \<Rightarrow> backend_pool" where
  "rescan glob b = (case glob (bp_socket_glob b) of
     None \<Rightarrow> b
   | Some found \<Rightarrow>
       fold add_socket found
         (b\<lparr>bp_members := filter (\<lambda>m. pm_path m \<in> set found) (bp_members b)\<rparr>))"

definition active_count :: "nat \<Rightarrow> backend_pool \<Rightarrow> nat" where
  "active_count now b = length (filter (is_available now) (bp_members b))"

definition total_count :: "backend_pool \<Rightarrow> nat" where
  "total_count b = length (bp_members b)"

section \<open>The manager of all pools\<close>

record backend_config =
  bc_name :: string
  bc_sockets :: "string option"
  bc_url :: "string option"
  bc_tls_skip_verify :: bool

record 'tls url_backend =
  ub_name :: string
  ub_url :: string
  ub_tls_config :: 'tls
  ub_skip_verify :: bool

record 'tls pool_manager =
  pmg_pools :: "(string \<times> backend_pool) list"
  pmg_url_backends :: "'tls url_backend list"

definition new_manager :: "'tls pool_manager" where
  "new_manager = \<lparr>pmg_pools = [], pmg_url_backends = []\<rparr>"

text \<open>\<open>from_config\<close>: \<open>tls skip alpn\<close> stands for \<open>build_tls_client_config_alpn\<close>, a rustls object.\<close>

definition manager_add :: "(bool \<Rightarrow> string \<Rightarrow> 'tls) \<Rightarrow> (string \<Rightarrow> string list option) \<Rightarrow>
    backend_config \<Rightarrow> 'tls pool_manager \<Rightarrow> 'tls pool_manager" where
  "manager_add tls glob c mgr = (case bc_sockets c of
     Some sockets \<Rightarrow>
       mgr\<lparr>pmg_pools := pmg_pools mgr @ [(bc_name c, rescan glob (new_pool (bc_name c) sockets))]\<rparr>
   | None \<Rightarrow> (case bc_url c of
       Some url \<Rightarrow>
         mgr\<lparr>pmg_url_backends := pmg_url_backends mgr @
           [\<lparr>ub_name = bc_name c, ub_url = url,
             ub_tls_config = (if starts_with ''h2s://'' url then tls (bc_tls_skip_verify c) ''h2''
                              else tls (bc_tls_skip_verify c) ''http/1.1''),
             ub_skip_verify = bc_tls_skip_verify c\<rparr>]\<rparr>
     | None \<Rightarrow> mgr))"

definition from_config :: "(bool \<Rightarrow> string \<Rightarrow> 'tls) \<Rightarrow> (string \<Rightarrow> string list option) \<Rightarrow>
    backend_config list \<Rightarrow> 'tls pool_manager" where
  "from_config tls glob backends = fold (manager_add tls glob) backends new_manager"

definition get_pool :: "string \<Rightarrow> 'tls pool_manager \<Rightarrow> backend_pool option" where
  "get_pool name mgr = map_option snd (List.find (\<lambda>(n, _). n = name) (pmg_pools mgr))"

text \<open>Writing through \<open>get_pool_mut\<close>: the first pool of that name is replaced.\<close>

fun put_first :: "string \<Rightarrow> backend_pool \<Rightarrow> (string \<times> backend_pool) list \<Rightarrow>
    (string \<times> backend_pool) list" where
  "put_first name b [] = []"
| "put_first name b ((n, p) # ps) = (if n = name then (n, b) # ps else (n, p) # put_first name b ps)"

definition put_pool :: "string \<Rightarrow> backend_pool \<Rightarrow> 'tls pool_manager \<Rightarrow> 'tls pool_manager" where
  "put_pool name b mgr = mgr\<lparr>pmg_pools := put_first name b (pmg_pools mgr)\<rparr>"

definition get_url :: "string \<Rightarrow> 'tls pool_manager \<Rightarrow> string option" where
  "get_url name mgr = map_option ub_url (List.find (\<lambda>u. ub_name u = name) (pmg_url_backends mgr))"

definition get_url_info :: "string \<Rightarrow> 'tls pool_manager \<Rightarrow> (string \<times> 'tls \<times> bool) option" where
  "get_url_info name mgr = map_option (\<lambda>u. (ub_url u, ub_tls_config u, ub_skip_verify u))
     (List.find (\<lambda>u. ub_name u = name) (pmg_url_backends mgr))"

definition each_pool :: "(backend_pool \<Rightarrow> backend_pool) \<Rightarrow> 'tls pool_manager \<Rightarrow> 'tls pool_manager" where
  "each_pool f mgr = mgr\<lparr>pmg_pools := map (\<lambda>(n, p). (n, f p)) (pmg_pools mgr)\<rparr>"

definition socket_appeared :: "(string \<Rightarrow> (string \<Rightarrow> bool) option) \<Rightarrow> string \<Rightarrow>
    'tls pool_manager \<Rightarrow> 'tls pool_manager" where
  "socket_appeared pattern_new p =
     each_pool (\<lambda>b. if matches_glob pattern_new p b then add_socket p b else b)"

definition socket_disappeared :: "string \<Rightarrow> 'tls pool_manager \<Rightarrow> 'tls pool_manager" where
  "socket_disappeared p = each_pool (remove_socket p)"

definition rescan_all :: "(string \<Rightarrow> string list option) \<Rightarrow> 'tls pool_manager \<Rightarrow> 'tls pool_manager" where
  "rescan_all glob = each_pool (rescan glob)"

definition total_active_members :: "nat \<Rightarrow> 'tls pool_manager \<Rightarrow> nat" where
  "total_active_members now mgr = sum_list (map (\<lambda>(_, p). active_count now p) (pmg_pools mgr))"

definition pool_health :: "nat \<Rightarrow> 'tls pool_manager \<Rightarrow> (string \<times> nat \<times> nat) list" where
  "pool_health now mgr =
     map (\<lambda>(name, p). (name, active_count now p, total_count p)) (pmg_pools mgr)"

definition url_backend_names :: "'tls pool_manager \<Rightarrow> string list" where
  "url_backend_names mgr = map ub_name (pmg_url_backends mgr)"

definition add_pool :: "backend_pool \<Rightarrow> 'tls pool_manager \<Rightarrow> 'tls pool_manager" where
  "add_pool p mgr = mgr\<lparr>pmg_pools := pmg_pools mgr @ [(bp_name p, p)]\<rparr>"

section \<open>Forwarding through a pool\<close>

text \<open>\<open>forward_to_backend\<close>: the time is read once to pick a member and once, after the exchange,
  to start its backoff. \<open>exchange path\<close> is \<open>forward_request_timeout\<close> on the member's socket,
  with the request and the client address already applied.\<close>

definition forward_to_backend :: "(string \<Rightarrow> string + http_response) \<Rightarrow> nat \<Rightarrow> nat \<Rightarrow> string \<Rightarrow>
    'tls pool_manager \<Rightarrow> ((string + http_response) \<times> 'tls pool_manager) outcome" where
  "forward_to_backend exchange now later backend_name mgr = (case get_pool backend_name mgr of
     None \<Rightarrow> Val (Inl (''unknown backend: '' @ backend_name), mgr)
   | Some pool \<Rightarrow> bind_outcome (pick_socket now pool) (\<lambda>(r, pool). case r of
       Inl Empty \<Rightarrow> Val (Inl ''pool empty'', put_pool backend_name pool mgr)
     | Inl (ConnectFailed e) \<Rightarrow> Val (Inl e, put_pool backend_name pool mgr)
     | Inr (socket_path, member_idx) \<Rightarrow> (case exchange socket_path of
         Inr resp \<Rightarrow> Val (Inr resp, put_pool backend_name (release member_idx pool) mgr)
       | Inl e \<Rightarrow> bind_outcome (pool_mark_failed later member_idx pool)
           (\<lambda>pool. Val (Inl e, put_pool backend_name pool mgr)))))"

section \<open>Picking a member\<close>

lemma pick_loop_least:
  "pick_loop now k best bc ms = r \<Longrightarrow>
     (r = best \<and> (\<forall>m \<in> set ms. is_available now m \<longrightarrow> bc \<le> pm_connections m)) \<or>
     (\<exists>i < length ms. r = Some (k + i) \<and> is_available now (ms ! i) \<and> pm_connections (ms ! i) < bc \<and>
        (\<forall>j < length ms. is_available now (ms ! j) \<longrightarrow>
           pm_connections (ms ! i) \<le> pm_connections (ms ! j) \<and>
           (j < i \<longrightarrow> pm_connections (ms ! i) < pm_connections (ms ! j))))"
proof (induction ms arbitrary: k best bc)
  case (Cons m ms)
  show ?case
  proof (cases "is_available now m \<and> pm_connections m < bc")
    case True
    then have "pick_loop now (Suc k) (Some k) (pm_connections m) ms = r"
      using Cons.prems by (simp add: is_available_def)
    from Cons.IH [OF this] show ?thesis
    proof (elim disjE exE conjE)
      assume "r = Some k" "\<forall>m' \<in> set ms. is_available now m' \<longrightarrow> pm_connections m \<le> pm_connections m'"
      then show ?thesis
        using True by (intro disjI2 exI [of _ 0]) (auto simp: nth_Cons split: nat.splits)
    next
      fix i assume "i < length ms" "r = Some (Suc k + i)" "is_available now (ms ! i)"
        "pm_connections (ms ! i) < pm_connections m"
        "\<forall>j < length ms. is_available now (ms ! j) \<longrightarrow>
           pm_connections (ms ! i) \<le> pm_connections (ms ! j) \<and>
           (j < i \<longrightarrow> pm_connections (ms ! i) < pm_connections (ms ! j))"
      then show ?thesis
        using True by (intro disjI2 exI [of _ "Suc i"]) (auto simp: nth_Cons split: nat.splits)
    qed
  next
    case False
    then have "pick_loop now (Suc k) best bc ms = r"
      using Cons.prems by (auto simp: is_available_def)
    from Cons.IH [OF this] show ?thesis
    proof (elim disjE exE conjE)
      assume "r = best" "\<forall>m' \<in> set ms. is_available now m' \<longrightarrow> bc \<le> pm_connections m'"
      then show ?thesis using False by (intro disjI1) auto
    next
      fix i assume "i < length ms" "r = Some (Suc k + i)" "is_available now (ms ! i)"
        "pm_connections (ms ! i) < bc"
        "\<forall>j < length ms. is_available now (ms ! j) \<longrightarrow>
           pm_connections (ms ! i) \<le> pm_connections (ms ! j) \<and>
           (j < i \<longrightarrow> pm_connections (ms ! i) < pm_connections (ms ! j))"
      then show ?thesis
        using False by (intro disjI2 exI [of _ "Suc i"]) (auto simp: nth_Cons split: nat.splits)
    qed
  qed
qed auto

lemma pick_member_SomeD:
  assumes "pick_member now b = Some i"
  shows "i < length (bp_members b)" "is_available now (bp_members b ! i)"
    "pm_connections (bp_members b ! i) < usize_limit - 1"
    "\<And>j. j < length (bp_members b) \<Longrightarrow> is_available now (bp_members b ! j) \<Longrightarrow>
       pm_connections (bp_members b ! i) \<le> pm_connections (bp_members b ! j) \<and>
       (j < i \<longrightarrow> pm_connections (bp_members b ! i) < pm_connections (bp_members b ! j))"
  using pick_loop_least [OF assms [unfolded pick_member_def]] by auto

lemma pick_member_NoneD:
  assumes "pick_member now b = None" and "m \<in> set (bp_members b)" and "is_available now m"
  shows "usize_limit - 1 \<le> pm_connections m"
  using pick_loop_least [OF assms(1) [unfolded pick_member_def]] assms(2,3) by auto

lemma is_available_new [simp]: "is_available now (new_member p)"
  by (simp add: is_available_def new_member_def)

section \<open>The state of a pool as a map\<close>

text \<open>The abstract state: which sockets are members, and the state of each.\<close>

definition members_map :: "backend_pool \<Rightarrow> string \<Rightarrow> pool_member option" where
  "members_map b p = List.find (\<lambda>m. pm_path m = p) (bp_members b)"

definition distinct_paths :: "backend_pool \<Rightarrow> bool" where
  "distinct_paths b = distinct (map pm_path (bp_members b))"

lemma find_append: "List.find P (xs @ ys) = (case List.find P xs of None \<Rightarrow> List.find P ys | Some x \<Rightarrow> Some x)"
  by (induction xs) auto

lemma find_filter: "List.find P (filter Q xs) = List.find (\<lambda>x. P x \<and> Q x) xs"
  by (induction xs) auto

lemma find_remove_position:
  "position (\<lambda>m. pm_path m = p) ms = Some i \<Longrightarrow> distinct (map pm_path ms) \<Longrightarrow>
     remove_at i ms = filter (\<lambda>m. pm_path m \<noteq> p) ms"
proof (induction ms arbitrary: i)
  case (Cons m ms)
  show ?case
  proof (cases "pm_path m = p")
    case True
    then have "filter (\<lambda>m'. pm_path m' \<noteq> p) ms = ms"
      using Cons.prems(2) by (auto intro!: filter_True) (metis image_eqI)
    with True show ?thesis using Cons.prems by (auto simp: remove_at_def)
  next
    case False
    then obtain j where "position (\<lambda>m. pm_path m = p) ms = Some j" "i = Suc j"
      using Cons.prems(1) by (auto simp: map_option_case split: option.splits)
    with Cons.IH [of j] Cons.prems(2) False show ?thesis by (simp add: remove_at_def)
  qed
qed simp

lemma remove_socket_filter:
  "distinct_paths b \<Longrightarrow>
     remove_socket p b = b\<lparr>bp_members := filter (\<lambda>m. pm_path m \<noteq> p) (bp_members b)\<rparr>"
  by (auto simp: remove_socket_def distinct_paths_def find_remove_position split: option.splits
      intro!: filter_True [symmetric] backend_pool.equality)

lemma members_map_None: "members_map b p = None \<longleftrightarrow> p \<notin> pm_path ` set (bp_members b)"
  by (auto simp: members_map_def find_None_iff)

lemma members_map_add:
  "members_map (add_socket p b) =
     (if p \<in> dom (members_map b) then members_map b else (members_map b)(p \<mapsto> new_member p))"
proof -
  have *: "list_ex (\<lambda>m. pm_path m = p) (bp_members b) \<longleftrightarrow> p \<in> dom (members_map b)"
    using members_map_None [of b p] by (auto simp: list_ex_iff)
  show ?thesis
  proof (cases "p \<in> dom (members_map b)")
    case False
    then have "members_map b p = None" by auto
    then show ?thesis
      using False * by (intro ext)
        (auto simp: add_socket_def members_map_def find_append new_member_def split: option.splits)
  qed (use * in \<open>simp add: add_socket_def\<close>)
qed

lemma members_map_remove:
  "distinct_paths b \<Longrightarrow> members_map (remove_socket p b) = (members_map b)(p := None)"
proof
  fix q assume "distinct_paths b"
  then show "members_map (remove_socket p b) q = ((members_map b)(p := None)) q"
    by (auto simp: members_map_def remove_socket_filter find_filter find_None_iff
        intro!: arg_cong2 [where f = List.find])
qed

lemma distinct_paths_new [simp]: "distinct_paths (new_pool n g)"
  by (simp add: distinct_paths_def new_pool_def)

lemma distinct_paths_add: "distinct_paths b \<Longrightarrow> distinct_paths (add_socket p b)"
  by (auto simp: distinct_paths_def add_socket_def new_member_def list_ex_iff)

lemma distinct_paths_filter:
  "distinct_paths b \<Longrightarrow> distinct_paths (b\<lparr>bp_members := filter P (bp_members b)\<rparr>)"
  by (auto simp: distinct_paths_def distinct_map_filter)

lemma distinct_paths_remove: "distinct_paths b \<Longrightarrow> distinct_paths (remove_socket p b)"
  by (simp add: remove_socket_filter distinct_paths_filter)

text \<open>The contract the registration operations keep, for any number of paths found at once.\<close>

locale member_registry =
  fixes abs :: "'p \<Rightarrow> 'k \<Rightarrow> 'm option" and inv :: "'p \<Rightarrow> bool" and fresh :: "'k \<Rightarrow> 'm"
    and add :: "'k \<Rightarrow> 'p \<Rightarrow> 'p" and remove :: "'k \<Rightarrow> 'p \<Rightarrow> 'p"
  assumes abs_add: "abs (add k b) = (if k \<in> dom (abs b) then abs b else (abs b)(k \<mapsto> fresh k))"
    and inv_add: "inv b \<Longrightarrow> inv (add k b)"
    and abs_remove: "inv b \<Longrightarrow> abs (remove k b) = (abs b)(k := None)"
    and inv_remove: "inv b \<Longrightarrow> inv (remove k b)"
begin

lemma inv_fold_add: "inv b \<Longrightarrow> inv (fold add ks b)"
  by (induction ks arbitrary: b) (auto intro: inv_add)

lemma abs_fold_add:
  "abs (fold add ks b) k = (if k \<in> set ks \<and> abs b k = None then Some (fresh k) else abs b k)"
  by (induction ks arbitrary: b) (auto simp: abs_add)

lemma remove_add: "inv b \<Longrightarrow> abs b k = None \<Longrightarrow> abs (remove k (add k b)) = abs b"
  by (simp add: abs_remove abs_add inv_add fun_upd_idem)

end

interpretation members: member_registry members_map distinct_paths new_member add_socket remove_socket
  by unfold_locales
    (simp_all add: members_map_add distinct_paths_add members_map_remove distinct_paths_remove)

lemma distinct_paths_rescan: "distinct_paths b \<Longrightarrow> distinct_paths (rescan glob b)"
  by (auto simp: rescan_def intro: members.inv_fold_add distinct_paths_filter split: option.splits)

lemma members_map_rescan:
  assumes "glob (bp_socket_glob b) = Some found"
  shows "members_map (rescan glob b) p =
    (if p \<in> set found then Some (case members_map b p of None \<Rightarrow> new_member p | Some m \<Rightarrow> m) else None)"
proof -
  let ?b = "b\<lparr>bp_members := filter (\<lambda>m. pm_path m \<in> set found) (bp_members b)\<rparr>"
  have *: "members_map ?b p = (if p \<in> set found then members_map b p else None)"
    by (auto simp: members_map_def find_filter find_None_iff intro!: arg_cong2 [where f = List.find])
  show ?thesis
    using assms by (simp add: rescan_def members.abs_fold_add * split: option.split)
qed

text \<open>C13. The registration operations implement a map from socket paths to member states: on
  a pool without duplicate paths, a new socket is added with a fresh state and a known one keeps
  its state (its backoff is not forgotten), a removed socket is gone, and a rescan leaves exactly
  the sockets found, those already known with their state.\<close>

theorem pool_members_refine:
  assumes "distinct_paths b"
  shows "distinct_paths (add_socket p b) \<and> distinct_paths (remove_socket p b) \<and>
    distinct_paths (rescan glob b) \<and>
    members_map (add_socket p b) =
      (if p \<in> dom (members_map b) then members_map b else (members_map b)(p \<mapsto> new_member p)) \<and>
    members_map (remove_socket p b) = (members_map b)(p := None) \<and>
    (case glob (bp_socket_glob b) of
       None \<Rightarrow> rescan glob b = b
     | Some found \<Rightarrow> members_map (rescan glob b) = (\<lambda>q. if q \<in> set found
         then Some (case members_map b q of None \<Rightarrow> new_member q | Some m \<Rightarrow> m) else None))"
proof -
  have "case glob (bp_socket_glob b) of None \<Rightarrow> rescan glob b = b
     | Some found \<Rightarrow> members_map (rescan glob b) = (\<lambda>q. if q \<in> set found
         then Some (case members_map b q of None \<Rightarrow> new_member q | Some m \<Rightarrow> m) else None)"
    by (cases "glob (bp_socket_glob b)")
      (simp add: rescan_def, simp add: fun_eq_iff members_map_rescan)
  then show ?thesis
    using assms by (simp only: members.inv_add members.inv_remove distinct_paths_rescan
        members.abs_add members.abs_remove simp_thms)
qed

theorem pool_members_refine_witness:
  "distinct_paths (add_socket ''/a'' (new_pool ''html'' ''/*'')) \<and>
   members_map (rescan (\<lambda>_. Some [''/b'', ''/a'']) (add_socket ''/a'' (new_pool ''html'' ''/*''))) ''/b'' =
     Some (new_member ''/b'')"
  using pool_members_refine [of "add_socket ''/a'' (new_pool ''html'' ''/*'')" "''/a''" "\<lambda>_. Some [''/b'', ''/a'']"]
  by (simp add: distinct_paths_def add_socket_def new_pool_def members_map_def new_member_def)

section \<open>The pools of a running server\<close>

definition member_ok :: "pool_member \<Rightarrow> bool" where
  "member_ok m \<longleftrightarrow> pm_connections m = 0 \<and> pm_failure_count m \<le> 64 \<and>
     (pm_retry_at m = None \<longleftrightarrow> pm_failure_count m = 0)"

definition pool_ok :: "backend_pool \<Rightarrow> bool" where
  "pool_ok b \<longleftrightarrow> distinct_paths b \<and> list_all member_ok (bp_members b)"

definition manager_ok :: "'tls pool_manager \<Rightarrow> bool" where
  "manager_ok mgr \<longleftrightarrow> list_all (\<lambda>(n, b). pool_ok b) (pmg_pools mgr)"

text \<open>What happens to the manager while the server runs: a request forwarded, a socket that
  appears or disappears, the periodic rescan, and a reload of the configuration.\<close>

inductive pool_step :: "'tls pool_manager \<Rightarrow> 'tls pool_manager \<Rightarrow> bool" where
  forward: "forward_to_backend exchange now later name mgr = Val (r, mgr') \<Longrightarrow> pool_step mgr mgr'"
| appeared: "pool_step mgr (socket_appeared pattern_new p mgr)"
| disappeared: "pool_step mgr (socket_disappeared p mgr)"
| rescanned: "pool_step mgr (rescan_all glob mgr)"
| reloaded: "pool_step mgr (from_config tls glob backends)"

definition pool_init :: "'tls pool_manager \<Rightarrow> bool" where
  "pool_init mgr \<longleftrightarrow> (\<exists>tls glob backends. mgr = from_config tls glob backends)"

lemma member_ok_new [simp]: "member_ok (new_member p)"
  by (simp add: member_ok_def new_member_def)

lemma pool_ok_add: "pool_ok b \<Longrightarrow> pool_ok (add_socket p b)"
  by (auto simp: pool_ok_def distinct_paths_add) (simp add: add_socket_def)

lemma pool_ok_remove: "pool_ok b \<Longrightarrow> pool_ok (remove_socket p b)"
  by (auto simp: pool_ok_def distinct_paths_remove) (auto simp: remove_socket_filter list_all_iff)

lemma pool_ok_fold_add: "pool_ok b \<Longrightarrow> pool_ok (fold add_socket ps b)"
  by (induction ps arbitrary: b) (auto intro: pool_ok_add)

lemma pool_ok_rescan: "pool_ok b \<Longrightarrow> pool_ok (rescan glob b)"
  by (auto simp: rescan_def intro!: pool_ok_fold_add split: option.splits)
    (auto simp: pool_ok_def distinct_paths_filter list_all_iff)

lemma pool_ok_new [simp]: "pool_ok (new_pool n g)"
  by (simp add: pool_ok_def new_pool_def distinct_paths_def)

lemma manager_ok_from_config: "manager_ok (from_config tls glob backends)"
proof -
  have "manager_ok mgr \<Longrightarrow> manager_ok (fold (manager_add tls glob) backends mgr)" for mgr
  proof (induction backends arbitrary: mgr)
    case (Cons c cs)
    then have "manager_ok (manager_add tls glob c mgr)"
      by (auto simp: manager_add_def manager_ok_def intro: pool_ok_rescan split: option.split)
    then show ?case using Cons.IH by simp
  qed simp
  then show ?thesis by (simp add: from_config_def new_manager_def manager_ok_def)
qed

lemma manager_ok_each:
  "manager_ok mgr \<Longrightarrow> (\<And>b. pool_ok b \<Longrightarrow> pool_ok (f b)) \<Longrightarrow> manager_ok (each_pool f mgr)"
  by (auto simp: manager_ok_def each_pool_def list_all_iff)

lemma manager_ok_get: "manager_ok mgr \<Longrightarrow> get_pool name mgr = Some b \<Longrightarrow> pool_ok b"
  by (force simp: manager_ok_def get_pool_def list_all_length find_Some_iff)

lemma put_first_subset: "set (put_first name b ps) \<subseteq> insert (name, b) (set ps)"
  by (induction ps) (auto split: if_splits)

lemma manager_ok_put: "manager_ok mgr \<Longrightarrow> pool_ok b \<Longrightarrow> manager_ok (put_pool name b mgr)"
  using put_first_subset [of name b "pmg_pools mgr"] by (auto simp: manager_ok_def put_pool_def list_all_iff)

lemma put_pool_same: "get_pool name mgr = Some b \<Longrightarrow> put_pool name b mgr = mgr"
proof -
  have "map_option snd (List.find (\<lambda>(n, _). n = name) ps) = Some b \<Longrightarrow> put_first name b ps = ps" for ps
    by (induction ps) (auto split: if_splits)
  then show "get_pool name mgr = Some b \<Longrightarrow> put_pool name b mgr = mgr"
    by (simp add: get_pool_def put_pool_def)
qed

lemma pick_loop_zero: "pick_loop now k best 0 ms = best"
  by (induction ms arbitrary: k) auto

lemma pick_loop_first:
  "list_all (\<lambda>m. pm_connections m = 0) ms \<Longrightarrow> 0 < bc \<Longrightarrow>
     pick_loop now k None bc ms = map_option (\<lambda>i. k + i) (position (is_available now) ms)"
proof (induction ms arbitrary: k)
  case (Cons m ms)
  have "(+) (Suc k) = (\<lambda>x. Suc (k + x))" by auto
  with Cons show ?case
    by (cases "is_available now m")
      (simp_all add: pick_loop_zero option.map_comp comp_def is_available_def [symmetric])
qed simp

lemma pick_member_first:
  assumes "pool_ok b" shows "pick_member now b = position (is_available now) (bp_members b)"
proof -
  have "list_all (\<lambda>m. pm_connections m = 0) (bp_members b)"
    using assms by (auto simp: pool_ok_def member_ok_def list_all_iff)
  then show ?thesis
    by (simp add: pick_member_def pick_loop_first option.map_ident)
qed

lemma member_mark_failed_eq:
  "pm_failure_count m \<le> 64 \<Longrightarrow> member_mark_failed now m =
     (if pm_failure_count m = 64 then Panic
      else Val (m\<lparr>pm_failure_count := pm_failure_count m + 1,
                  pm_retry_at := Some (now + min (2 ^ pm_failure_count m) 30 * 1000000000)\<rparr>))"
  by (simp add: member_mark_failed_def u32_add_def backoff_duration_def shl_u64_one_def)

definition forward_reference :: "(string \<Rightarrow> string + http_response) \<Rightarrow> nat \<Rightarrow> nat \<Rightarrow> string \<Rightarrow>
    'tls pool_manager \<Rightarrow> ((string + http_response) \<times> 'tls pool_manager) outcome" where
  "forward_reference exchange now later name mgr = (case get_pool name mgr of
     None \<Rightarrow> Val (Inl (''unknown backend: '' @ name), mgr)
   | Some b \<Rightarrow> (case position (is_available now) (bp_members b) of
       None \<Rightarrow> Val (Inl ''pool empty'', mgr)
     | Some i \<Rightarrow> let m = bp_members b ! i in (case exchange (pm_path m) of
         Inr resp \<Rightarrow> Val (Inr resp, mgr)
       | Inl e \<Rightarrow> if pm_failure_count m = 64 then Panic else
           Val (Inl e, put_pool name (set_member i
             (m\<lparr>pm_failure_count := pm_failure_count m + 1,
                pm_retry_at := Some (later + min (2 ^ pm_failure_count m) 30 * 1000000000)\<rparr>) b) mgr))))"

lemma set_member_shadow [simp]:
  "bp_members (set_member i m b) = (bp_members b)[i := m]"
  "set_member i m (set_member i m' b) = set_member i m b"
  "set_member i (bp_members b ! i) b = b"
  by (simp_all add: set_member_def)

lemma member_back: "pm_connections m = 0 \<Longrightarrow> m\<lparr>pm_connections := 0\<rparr> = m"
  by (cases m) simp

lemma pool_ok_nth: "pool_ok b \<Longrightarrow> i < length (bp_members b) \<Longrightarrow> member_ok (bp_members b ! i)"
  by (simp add: pool_ok_def list_all_length)

lemma pick_socket_ok:
  assumes "pool_ok b"
  shows "pick_socket now b = (case position (is_available now) (bp_members b) of
      None \<Rightarrow> Val (Inl Empty, b)
    | Some i \<Rightarrow> Val (Inr (pm_path (bp_members b ! i), i),
        set_member i ((bp_members b ! i)\<lparr>pm_connections := 1\<rparr>) b))"
proof (cases "position (is_available now) (bp_members b)")
  case (Some i)
  then have "i < length (bp_members b)" using position_SomeD by blast
  then have "pm_connections (bp_members b ! i) = 0"
    using pool_ok_nth [OF assms] by (simp add: member_ok_def)
  then show ?thesis using Some assms by (simp add: pick_socket_def pick_member_first usize_add_def Let_def)
qed (simp add: pick_socket_def pick_member_first assms del: position_None)

lemma forward_eq_reference:
  assumes "manager_ok mgr"
  shows "forward_to_backend exchange now later name mgr = forward_reference exchange now later name mgr"
proof (cases "get_pool name mgr")
  case (Some b)
  then have ok: "pool_ok b" using assms manager_ok_get by blast
  show ?thesis
  proof (cases "position (is_available now) (bp_members b)")
    case None
    then show ?thesis
      using Some ok by (simp add: forward_to_backend_def forward_reference_def pick_socket_ok put_pool_same
          del: position_None)
  next
    case (Some i)
    then have i: "i < length (bp_members b)" using position_SomeD by blast
    let ?m = "bp_members b ! i"
    have m: "pm_connections ?m = 0" "pm_failure_count ?m \<le> 64"
      using pool_ok_nth [OF ok i] by (auto simp: member_ok_def)
    have r: "release i (set_member i (?m\<lparr>pm_connections := Suc 0\<rparr>) b) = b"
      using i m by (simp add: release_def member_back)
    show ?thesis
      using Some \<open>get_pool name mgr = Some b\<close> ok i m
      by (auto simp: forward_to_backend_def forward_reference_def pick_socket_ok put_pool_same r
          pool_mark_failed_def member_mark_failed_eq member_back Let_def split: sum.split)
  qed
qed (simp add: forward_to_backend_def forward_reference_def)

lemma pool_ok_set_member:
  "i < length (bp_members b) \<Longrightarrow> pm_path m = pm_path (bp_members b ! i) \<Longrightarrow> pool_ok b \<Longrightarrow> member_ok m \<Longrightarrow>
     pool_ok (set_member i m b)"
proof -
  assume "i < length (bp_members b)" "pm_path m = pm_path (bp_members b ! i)"
  then have "map pm_path ((bp_members b)[i := m]) = map pm_path (bp_members b)"
    by (simp add: map_update list_update_same_conv)
  then show "pool_ok b \<Longrightarrow> member_ok m \<Longrightarrow> pool_ok (set_member i m b)"
    using set_update_subset_insert [of "bp_members b" i m]
    by (auto simp: pool_ok_def distinct_paths_def list_all_iff)
qed

lemma manager_ok_forward:
  assumes "manager_ok mgr" and "forward_to_backend exchange now later name mgr = Val (r, mgr')"
  shows "manager_ok mgr'"
proof -
  have "forward_reference exchange now later name mgr = Val (r, mgr')"
    using assms by (simp add: forward_eq_reference)
  then show ?thesis
  proof (cases "get_pool name mgr")
    case (Some b)
    with \<open>forward_reference exchange now later name mgr = Val (r, mgr')\<close> show ?thesis
      using manager_ok_get [OF assms(1) Some] assms(1)
      by (auto simp: forward_reference_def Let_def member_ok_def
          intro: manager_ok_get intro!: manager_ok_put pool_ok_set_member dest!: position_SomeD pool_ok_nth
          split: option.splits sum.splits if_splits)
  qed (use assms(1) in \<open>simp add: forward_reference_def\<close>)
qed

interpretation pools: step_invariant pool_init pool_step manager_ok
proof
  fix s :: "'tls pool_manager"
  assume "pool_init s" then show "manager_ok s"
    by (auto simp: pool_init_def manager_ok_from_config)
next
  fix s s' :: "'tls pool_manager"
  assume "manager_ok s" and "pool_step s s'" then show "manager_ok s'"
    by (auto elim!: pool_step.cases intro: manager_ok_forward manager_ok_from_config
        simp: socket_appeared_def socket_disappeared_def rescan_all_def
        intro!: manager_ok_each pool_ok_add pool_ok_remove pool_ok_rescan)
qed

text \<open>\<open>pick_member\<close> is least-connections with the first of equals: it returns the index of
  an available member, no available member has fewer connections, every earlier available member
  has strictly more, and it returns nothing only if every available member is at the limit of
  \<open>usize\<close>. The counter of the member it returns can be incremented without overflow.\<close>

theorem pick_member_least_connections:
  "(case pick_member now b of
      Some i \<Rightarrow> i < length (bp_members b) \<and> is_available now (bp_members b ! i) \<and>
        returns (usize_add (pm_connections (bp_members b ! i)) 1) \<and>
        (\<forall>j < length (bp_members b). is_available now (bp_members b ! j) \<longrightarrow>
           pm_connections (bp_members b ! i) \<le> pm_connections (bp_members b ! j) \<and>
           (j < i \<longrightarrow> pm_connections (bp_members b ! i) < pm_connections (bp_members b ! j)))
    | None \<Rightarrow> \<forall>m \<in> set (bp_members b). is_available now m \<longrightarrow> usize_limit - 1 \<le> pm_connections m)"
proof (cases "pick_member now b")
  case (Some i)
  then show ?thesis
    using pick_member_SomeD [OF Some] by (simp add: usize_add_def)
qed (use pick_member_NoneD in \<open>simp\<close>)

theorem pick_member_least_connections_witness:
  "pick_member 5 \<lparr>bp_name = ''b'', bp_socket_glob = ''g'', bp_members =
     [(new_member ''p'')\<lparr>pm_connections := 2\<rparr>, (new_member ''q'')\<lparr>pm_retry_at := Some 9\<rparr>,
      (new_member ''r'')\<lparr>pm_connections := 1\<rparr>]\<rparr> = Some 2 \<and>
   is_available 5 ((new_member ''r'')\<lparr>pm_connections := 1\<rparr>)"
  using pick_member_least_connections [where now = 5 and b = "\<lparr>bp_name = ''b'', bp_socket_glob = ''g'', bp_members =
     [(new_member ''p'')\<lparr>pm_connections := 2\<rparr>, (new_member ''q'')\<lparr>pm_retry_at := Some 9\<rparr>,
      (new_member ''r'')\<lparr>pm_connections := 1\<rparr>]\<rparr>"]
  by (simp add: pick_member_def new_member_def)

text \<open>C12. In every state the pools of a running server can reach, forwarding is exactly this:
  the request goes to the first available member of the first pool of that name, a success
  leaves the pools as they were (no failure is ever forgotten), a failure keeps the member out
  for 1, 2, 4, 8, 16 and then 30 seconds, and the failure after the 64th of a member's life ends
  the process. Since every exchange is over before the next one is picked, no connection is ever
  counted when a member is chosen, so the choice never balances load.\<close>

theorem forward_to_backend_reachable:
  assumes "reachable pool_init pool_step mgr"
  shows "forward_to_backend exchange now later name mgr = forward_reference exchange now later name mgr"
  using forward_eq_reference [OF pools.inv_reachable [OF assms]] .

definition demo_manager :: "unit pool_manager" where
  "demo_manager = from_config (\<lambda>_ _. ()) (\<lambda>_. Some [''/run/a.sock'', ''/run/b.sock''])
     [\<lparr>bc_name = ''html'', bc_sockets = Some ''/run/*.sock'', bc_url = None, bc_tls_skip_verify = False\<rparr>]"

lemma demo_manager_reachable: "reachable pool_init pool_step demo_manager"
  by (rule reachable_init) (auto simp: pool_init_def demo_manager_def)

theorem forward_to_backend_reachable_witness:
  "map_outcome_val fst (forward_to_backend (\<lambda>p. Inl p) 0 0 ''html'' demo_manager) = Val (Inl ''/run/a.sock'')"
  unfolding forward_to_backend_reachable [OF demo_manager_reachable]
  by (simp add: demo_manager_def forward_reference_def from_config_def manager_add_def new_manager_def
      new_pool_def rescan_def add_socket_def get_pool_def new_member_def is_available_def Let_def)

text \<open>A backend whose socket file is still there but refuses every connection.\<close>

fun refused :: "string \<Rightarrow> nat list \<Rightarrow> 'tls pool_manager \<Rightarrow> 'tls pool_manager outcome" where
  "refused name [] mgr = Val mgr"
| "refused name (t # ts) mgr = bind_outcome
     (forward_to_backend (\<lambda>_. Inl ''connection refused'') t t name mgr) (\<lambda>(_, mgr). refused name ts mgr)"

definition one_pool :: "string \<Rightarrow> pool_member \<Rightarrow> unit pool_manager" where
  "one_pool name m = \<lparr>pmg_pools = [(name, \<lparr>bp_name = name, bp_socket_glob = [], bp_members = [m]\<rparr>)],
     pmg_url_backends = []\<rparr>"

lemma refused_run:
  "member_ok m \<Longrightarrow> (\<forall>t0. pm_retry_at m = Some t0 \<longrightarrow> t0 \<le> t + 30000000000 * k) \<Longrightarrow>
   returns (refused name (map (\<lambda>i. t + 30000000000 * i) [k ..< k + n]) (one_pool name m)) \<longleftrightarrow>
     pm_failure_count m + n \<le> 64"
proof (induction n arbitrary: k m)
  case 0
  then show ?case by (simp add: member_ok_def)
next
  case (Suc n)
  let ?m = "m\<lparr>pm_failure_count := pm_failure_count m + 1,
     pm_retry_at := Some (t + 30000000000 * k + min (2 ^ pm_failure_count m) 30 * 1000000000)\<rparr>"
  have av: "is_available (t + 30000000000 * k) m"
    using Suc.prems(2) by (auto simp: is_available_def split: option.split)
  have ok: "manager_ok (one_pool name m)"
    using Suc.prems(1) by (simp add: one_pool_def manager_ok_def pool_ok_def distinct_paths_def)
  have fwd: "forward_to_backend (\<lambda>_. Inl ''connection refused'') (t + 30000000000 * k)
      (t + 30000000000 * k) name (one_pool name m) =
    (if pm_failure_count m = 64 then Panic else Val (Inl ''connection refused'', one_pool name ?m))"
    unfolding forward_eq_reference [OF ok]
    by (simp add: forward_reference_def one_pool_def get_pool_def av put_pool_def set_member_def Let_def)
  have "[k ..< k + Suc n] = k # [Suc k ..< Suc k + n]" by (simp add: upt_rec)
  then show ?case
  proof (cases "pm_failure_count m = 64")
    case False
    then have "member_ok ?m" using Suc.prems(1) by (simp add: member_ok_def)
    moreover have "min (2 ^ pm_failure_count m) 30 \<le> (30 :: nat)" by simp
    ultimately have "returns (refused name (map (\<lambda>i. t + 30000000000 * i) [Suc k ..< Suc k + n])
        (one_pool name ?m)) \<longleftrightarrow> pm_failure_count ?m + n \<le> 64"
      by (intro Suc.IH) auto
    with False show ?thesis
      using \<open>[k ..< k + Suc n] = _\<close> fwd by simp
  qed (use \<open>[k ..< k + Suc n] = _\<close> fwd in simp)
qed

text \<open>A backend that refuses every connection while its socket file stays in place takes the
  whole proxy down: with one request every 30 seconds, the first 64 are answered with an error
  and the 65th ends the process, because the backoff shifts \<open>1u64\<close> by 64 places.\<close>

theorem refused_backend_aborts:
  "returns (refused name (map (\<lambda>i. t + 30000000000 * i) [0 ..< n]) (one_pool name (new_member p))) \<longleftrightarrow>
     n \<le> 64"
  using refused_run [of "new_member p" t 0 name n] by (simp add: new_member_def member_ok_def)

end
