(* ===== verification/Conditional.thy ===== *)
theory Conditional
  imports Http_Headers
begin

text \<open>
  Conditional requests, \<open>m6-core/src/conditional.rs\<close>: the entity-tag comparisons, the evaluation of
  the four precondition fields and the headers of a 304. The httpdate crate is a parameter: the
  seconds since the epoch of a date it can read.

  The reference is RFC 9110: entity-tags as a weakness flag and an opaque text (8.8.3), the two
  comparisons (8.8.3.2), and the order of evaluation of 13.2.2.
\<close>

section \<open>The code\<close>

datatype precondition = Proceed | NotModified | Failed

definition strip_weak :: "string \<Rightarrow> string" where
  "strip_weak t = (let t = trim t in case strip_prefix ''W/'' t of Some r \<Rightarrow> r | None \<Rightarrow> t)"

definition etag_weak_eq :: "string \<Rightarrow> string \<Rightarrow> bool" where
  "etag_weak_eq a b \<longleftrightarrow> strip_weak a = strip_weak b"

definition etag_strong_eq :: "string \<Rightarrow> string \<Rightarrow> bool" where
  "etag_strong_eq a b \<longleftrightarrow> (let a = trim a; b = trim b in
     \<not> starts_with ''W/'' a \<and> \<not> starts_with ''W/'' b \<and> a = b)"

definition etag_list_contains :: "string \<Rightarrow> string \<Rightarrow> bool \<Rightarrow> bool" where
  "etag_list_contains tags tag strong = list_ex
     (\<lambda>candidate. if strong then etag_strong_eq candidate tag else etag_weak_eq candidate tag)
     (split_on CHR '','' tags)"

definition date_secs :: "(string \<Rightarrow> int option) \<Rightarrow> string \<Rightarrow> nat option" where
  "date_secs parse_http_date v = map_option nat (parse_http_date v)"

definition if_match_ok :: "string option \<Rightarrow> string option \<Rightarrow> string \<Rightarrow> bool \<Rightarrow> bool" where
  "if_match_ok etag last_modified im strong = (let im = trim im in
     if im = ''*'' then etag \<noteq> None \<or> last_modified \<noteq> None
     else case etag of Some e \<Rightarrow> etag_list_contains im e strong | None \<Rightarrow> False)"

definition evaluate_preconditions :: "(string \<Rightarrow> int option) \<Rightarrow> headers \<Rightarrow> headers \<Rightarrow> string \<Rightarrow> precondition" where
  "evaluate_preconditions parse_http_date cached_headers req_headers meth =
     (let etag = headers_get cached_headers ''etag'';
          last_modified = headers_get cached_headers ''last-modified'';
          is_get_or_head = (eq_ignore_ascii_case meth ''GET'' \<or> eq_ignore_ascii_case meth ''HEAD'');
          lm_secs = Option.bind last_modified (date_secs parse_http_date);
          failed = (case header req_headers ''if-match'' of
              Some im \<Rightarrow> \<not> if_match_ok etag last_modified im True
            | None \<Rightarrow> (case header req_headers ''if-unmodified-since'' of
                Some ius \<Rightarrow> (case (date_secs parse_http_date ius, lm_secs) of
                    (Some req_t, Some lm_t) \<Rightarrow> req_t < lm_t
                  | _ \<Rightarrow> False)
              | None \<Rightarrow> False))
      in if failed then Failed
         else case header req_headers ''if-none-match'' of
           Some inm \<Rightarrow>
             if if_match_ok etag last_modified inm False
             then (if is_get_or_head then NotModified else Failed) else Proceed
         | None \<Rightarrow>
             if is_get_or_head then
               (case header req_headers ''if-modified-since'' of
                  Some ims \<Rightarrow> (case (date_secs parse_http_date ims, lm_secs) of
                      (Some req_t, Some lm_t) \<Rightarrow> if lm_t \<le> req_t then NotModified else Proceed
                    | _ \<Rightarrow> Proceed)
                | None \<Rightarrow> Proceed)
             else Proceed)"

definition is_not_modified :: "(string \<Rightarrow> int option) \<Rightarrow> headers \<Rightarrow> headers \<Rightarrow> bool" where
  "is_not_modified parse_http_date cached_headers req_headers \<longleftrightarrow>
     evaluate_preconditions parse_http_date cached_headers req_headers ''GET'' = NotModified"

definition not_modified_headers :: "headers \<Rightarrow> headers" where
  "not_modified_headers cached_headers = filter (\<lambda>(k, _).
     to_ascii_lowercase k \<in> set [''etag'', ''last-modified'', ''cache-control'', ''vary'', ''date'', ''expires'',
       ''content-location'']) cached_headers"

section \<open>RFC 9110\<close>

record entity_tag =
  et_weak :: bool
  et_opaque :: string

datatype condition = Any | Tags "entity_tag list"

definition etagc :: "char \<Rightarrow> bool" where
  "etagc c \<longleftrightarrow> (33 \<le> byte_val c \<and> byte_val c \<noteq> 34 \<and> byte_val c \<le> 126) \<or> 128 \<le> byte_val c"

definition tag_ok :: "entity_tag \<Rightarrow> bool" where
  "tag_ok t \<longleftrightarrow> list_all etagc (et_opaque t) \<and> CHR '','' \<notin> set (et_opaque t)"

definition show_tag :: "entity_tag \<Rightarrow> string" where
  "show_tag t = (if et_weak t then ''W/'' else []) @ [CHR 0x22] @ et_opaque t @ [CHR 0x22]"

fun show_tags :: "entity_tag list \<Rightarrow> string" where
  "show_tags [] = []"
| "show_tags [t] = show_tag t"
| "show_tags (t # ts) = show_tag t @ '', '' @ show_tags ts"

fun show_condition :: "condition \<Rightarrow> string" where
  "show_condition Any = ''*''"
| "show_condition (Tags ts) = show_tags ts"

fun condition_ok :: "condition \<Rightarrow> bool" where
  "condition_ok Any = True"
| "condition_ok (Tags ts) = (ts \<noteq> [] \<and> list_all tag_ok ts)"

definition weak_match :: "entity_tag \<Rightarrow> entity_tag \<Rightarrow> bool" where
  "weak_match a b \<longleftrightarrow> et_opaque a = et_opaque b"

definition strong_match :: "entity_tag \<Rightarrow> entity_tag \<Rightarrow> bool" where
  "strong_match a b \<longleftrightarrow> \<not> et_weak a \<and> \<not> et_weak b \<and> et_opaque a = et_opaque b"

text \<open>Whether a condition holds for a representation with this tag; \<open>present\<close> says that there is a
  current representation.\<close>

fun condition_holds :: "(entity_tag \<Rightarrow> entity_tag \<Rightarrow> bool) \<Rightarrow> bool \<Rightarrow> entity_tag option \<Rightarrow> condition \<Rightarrow> bool" where
  "condition_holds eq present etag Any = present"
| "condition_holds eq present etag (Tags ts) = (case etag of Some e \<Rightarrow> \<exists>t \<in> set ts. eq t e | None \<Rightarrow> False)"

definition later :: "nat option \<Rightarrow> nat option \<Rightarrow> bool" where
  "later a b = (case (a, b) of (Some x, Some y) \<Rightarrow> y < x | _ \<Rightarrow> False)"

definition not_later :: "nat option \<Rightarrow> nat option \<Rightarrow> bool" where
  "not_later a b = (case (a, b) of (Some x, Some y) \<Rightarrow> x \<le> y | _ \<Rightarrow> False)"

text \<open>Steps 1 and 2 of 13.2.2: the client's assertion is false.\<close>

definition rfc_refused :: "bool \<Rightarrow> entity_tag option \<Rightarrow> nat option \<Rightarrow> condition option \<Rightarrow> nat option \<Rightarrow> bool" where
  "rfc_refused present etag lm if_match if_unmodified =
     (case if_match of
        Some c \<Rightarrow> \<not> condition_holds strong_match present etag c
      | None \<Rightarrow> later lm if_unmodified)"

text \<open>Steps 3 and 4: the client has the current representation.\<close>

definition rfc_current :: "bool \<Rightarrow> bool \<Rightarrow> entity_tag option \<Rightarrow> nat option \<Rightarrow> condition option \<Rightarrow> nat option \<Rightarrow> bool" where
  "rfc_current get present etag lm if_none_match if_modified =
     (case if_none_match of
        Some c \<Rightarrow> condition_holds weak_match present etag c
      | None \<Rightarrow> get \<and> not_later lm if_modified)"

definition rfc_precondition :: "bool \<Rightarrow> bool \<Rightarrow> entity_tag option \<Rightarrow> nat option \<Rightarrow> condition option \<Rightarrow> nat option \<Rightarrow>
    condition option \<Rightarrow> nat option \<Rightarrow> precondition" where
  "rfc_precondition get present etag lm if_match if_unmodified if_none_match if_modified =
     (if rfc_refused present etag lm if_match if_unmodified then Failed
      else if rfc_current get present etag lm if_none_match if_modified
      then (if get then NotModified else Failed) else Proceed)"

section \<open>The text of entity-tags\<close>

lemma show_tag_ends: "show_tag t \<noteq> [] \<and> is_ascii_graphic (hd (show_tag t)) \<and> is_ascii_graphic (last (show_tag t))"
  by (simp add: show_tag_def is_ascii_graphic_def byte_val_def)

lemma trim_show_tag [simp]: "trim (show_tag t) = show_tag t"
  using show_tag_ends [of t] by (simp add: trim_graphic_ends)

lemma show_tag_inject: "show_tag a = show_tag b \<longleftrightarrow> et_weak a = et_weak b \<and> et_opaque a = et_opaque b"
  by (auto simp: show_tag_def)

lemma strip_weak_show [simp]: "strip_weak (show_tag t) = [CHR 0x22] @ et_opaque t @ [CHR 0x22]"
  by (simp add: strip_weak_def Let_def) (simp add: show_tag_def split: option.split)

lemma starts_weak_show [simp]: "starts_with ''W/'' (show_tag t) \<longleftrightarrow> et_weak t"
  by (auto simp: starts_with_iff show_tag_def)

lemma etag_weak_eq_show [simp]: "etag_weak_eq (show_tag a) (show_tag b) \<longleftrightarrow> weak_match a b"
  by (simp add: etag_weak_eq_def weak_match_def)

lemma etag_strong_eq_show [simp]: "etag_strong_eq (show_tag a) (show_tag b) \<longleftrightarrow> strong_match a b"
  by (auto simp: etag_strong_eq_def Let_def strong_match_def show_tag_inject)

lemma etag_eq_space [simp]:
  "etag_weak_eq (CHR '' '' # a) b = etag_weak_eq a b" "etag_strong_eq (CHR '' '' # a) b = etag_strong_eq a b"
  by (simp_all add: etag_weak_eq_def etag_strong_eq_def strip_weak_def trim_space)

lemma show_tag_no_comma: "tag_ok t \<Longrightarrow> CHR '','' \<notin> set (show_tag t)"
  by (auto simp: tag_ok_def show_tag_def)

lemma split_show_tags:
  "list_all tag_ok (t # ts) \<Longrightarrow>
     split_on CHR '','' (show_tags (t # ts)) = show_tag t # map (\<lambda>t. CHR '' '' # show_tag t) ts \<and>
     split_on CHR '','' (CHR '' '' # show_tags (t # ts)) = map (\<lambda>t. CHR '' '' # show_tag t) (t # ts)"
proof (induction ts arbitrary: t)
  case Nil
  then show ?case using show_tag_no_comma [of t] by (simp add: split_on_no_delim)
next
  case (Cons t' ts)
  have n: "CHR '','' \<notin> set (show_tag t)" "CHR '','' \<notin> set (CHR '' '' # show_tag t)"
    using Cons.prems show_tag_no_comma [of t] by auto
  have "split_on CHR '','' (CHR '' '' # show_tags (t' # ts)) = map (\<lambda>t. CHR '' '' # show_tag t) (t' # ts)"
    using Cons by simp
  then show ?case
    using split_on_append [OF n(1), of "CHR '' '' # show_tags (t' # ts)"]
      split_on_append [OF n(2), of "CHR '' '' # show_tags (t' # ts)"] by simp
qed

lemma etag_list_contains_show:
  assumes "list_all tag_ok ts" "ts \<noteq> []"
  shows "etag_list_contains (show_tags ts) (show_tag e) strong \<longleftrightarrow>
    (\<exists>t \<in> set ts. if strong then strong_match t e else weak_match t e)"
proof -
  obtain t r where ts: "ts = t # r" using assms(2) by (cases ts) auto
  have "split_on CHR '','' (show_tags ts) = show_tag t # map (\<lambda>t. CHR '' '' # show_tag t) r"
    using split_show_tags [of t r] assms(1) ts by simp
  then show ?thesis
    by (auto simp: etag_list_contains_def list_ex_iff ts)
qed

lemma show_tags_ends:
  "show_tags (t # ts) \<noteq> [] \<and> hd (show_tags (t # ts)) = hd (show_tag t) \<and> is_ascii_graphic (last (show_tags (t # ts)))"
proof (induction ts arbitrary: t)
  case Nil
  then show ?case using show_tag_ends [of t] by simp
next
  case (Cons t' ts)
  then show ?case using show_tag_ends [of t] Cons.IH [of t'] by simp
qed

lemma trim_show_condition: "condition_ok c \<Longrightarrow> trim (show_condition c) = show_condition c"
proof (cases c)
  case (Tags ts)
  assume "condition_ok c"
  with Tags obtain t r where "ts = t # r" by (cases ts) auto
  then show ?thesis
    using Tags show_tags_ends [of t r] show_tag_ends [of t] by (simp add: trim_graphic_ends)
qed (simp add: trim_graphic_ends is_ascii_graphic_def byte_val_def)

lemma show_tags_not_any: "ts \<noteq> [] \<Longrightarrow> show_tags ts \<noteq> ''*''"
proof -
  assume "ts \<noteq> []"
  then obtain t r where "ts = t # r" by (cases ts) auto
  moreover have "hd (show_tag t) \<noteq> CHR ''*''" by (simp add: show_tag_def)
  ultimately show ?thesis using show_tags_ends [of t r] by auto
qed

lemma if_match_ok_show:
  assumes "condition_ok c"
  shows "if_match_ok (map_option show_tag etag) lm (show_condition c) strong \<longleftrightarrow>
    condition_holds (if strong then strong_match else weak_match) (etag \<noteq> None \<or> lm \<noteq> None) etag c"
proof (cases c)
  case Any
  then show ?thesis using trim_show_condition [OF assms] by (simp add: if_match_ok_def Let_def)
next
  case (Tags ts)
  then have "if_match_ok (map_option show_tag etag) lm (show_condition c) strong \<longleftrightarrow>
      (case etag of Some e \<Rightarrow> etag_list_contains (show_tags ts) (show_tag e) strong | None \<Rightarrow> False)"
    using trim_show_condition [OF assms] assms show_tags_not_any [of ts]
    by (simp add: if_match_ok_def Let_def split: option.split)
  also have "\<dots> \<longleftrightarrow> condition_holds (if strong then strong_match else weak_match) (etag \<noteq> None \<or> lm \<noteq> None) etag c"
    using Tags assms by (auto simp: etag_list_contains_show split: option.split)
  finally show ?thesis .
qed



text \<open>A tag with a comma in it is split apart. The stored tag then never matches, which for
  \<open>If-None-Match\<close> on a write lets the write through.\<close>

lemma comma_tag_authorises_write:
  "evaluate_preconditions (\<lambda>_. None) [(''etag'', show_tag \<lparr>et_weak = False, et_opaque = ''a,b''\<rparr>)]
     [(''if-none-match'', show_tag \<lparr>et_weak = False, et_opaque = ''a,b''\<rparr>)] ''PUT'' = Proceed"
  by code_simp

end
