(* ===== verification/Proxy.thy ===== *)
theory Proxy
  imports Reply_Fields Response_Cache Pool Rate_Limit Conditional H2_Fields Forwarding Step_System
begin

text \<open>
  The request pipeline of the proxy, \<open>m6-http/src/main.rs\<close>: the state of the server, what it does
  with a request from each listener (throttle, redirect, cache, method, monitoring, routing,
  authorisation, backend, error page), what it does with the reply of a URL backend, and its
  background fetches. The components it calls are those of the imported theories.

  \<^item> A request to a URL backend is answered later: \<open>Pending\<close> carries the context of the source's
    \<open>PendingUrlContext\<close>, and \<open>finalize_url_response\<close> is the reply.
  \<^item> The record \<open>proxy_env\<close> holds what is outside: the crates (matchit, jsonwebtoken with serde and
    base64, httpdate, IP addresses), the exchange with a socket, whether a dispatch to an
    HTTP/2 backend is accepted, and the JSON text of the reports. The record \<open>moment\<close> holds the
    clock readings one request makes, the text of the date and a fresh session id.
  \<^item> Statistics and the analytics log are written and never read here.
\<close>

section \<open>State\<close>

record refresh =
  fr_path :: string
  fr_query :: "string option"
  fr_enc :: string

record pending_ctx =
  px_req :: raw_request
  px_client_ip :: string
  px_enc :: string
  px_backend_name :: string
  px_cacheable :: bool
  px_is_prefetch :: bool
  px_error_status_override :: "nat option"

datatype proxy_outcome = Ready nat headers bytes string | Pending pending_ctx

record 'ip proxy_config =
  cf_site :: site_config
  cf_allowed_methods :: "string list"
  cf_health :: "'ip health_config"
  cf_node :: string
  cf_analytics :: bool
  cf_rate_limit :: rate_limit_config
  cf_verbose_fallback :: bool
  cf_compresses :: "(string \<times> bool) list"
  cf_routes :: "route_config list"

definition backend_compresses :: "'ip proxy_config \<Rightarrow> string \<Rightarrow> bool" where
  "backend_compresses cfg name = (case map_of (cf_compresses cfg) name of Some c \<Rightarrow> c | None \<Rightarrow> True)"

record ('r, 'tls, 'k, 'ip) server_state =
  sv_config :: "'ip proxy_config"
  sv_route_table :: "'r route_table"
  sv_pool_manager :: "'tls pool_manager"
  sv_cache :: cache
  sv_public_key :: "'k option"
  sv_error_mode :: error_mode
  sv_prefetch_queue :: "refresh list"
  sv_background_pending :: "pending_ctx list"
  sv_rate_limiter :: rate_limiter
  sv_error_pages :: "(nat \<times> nat \<times> headers \<times> bytes) list"
  sv_h2c_internal :: bool

record ('r, 'k, 'x, 'ip) proxy_env =
  pe_matchit :: "'r matchit"
  pe_verify :: "'k \<Rightarrow> string \<Rightarrow> string + 'x claims"
  pe_claims_text :: "'x claims \<Rightarrow> string"
  pe_ip_of :: "string \<Rightarrow> 'ip option"
  pe_date :: httpdate
  pe_entry_size :: nat
  pe_socket :: "raw_request \<Rightarrow> string \<Rightarrow> string \<Rightarrow> string \<Rightarrow> string + http_response"
  pe_dispatch :: "string \<Rightarrow> raw_request \<Rightarrow> string + unit"
  pe_health_text :: "string \<Rightarrow> string \<Rightarrow> bytes"
  pe_perf_text :: bytes
  pe_traffic :: perf_outcome

record moment =
  mo_now :: nat
  mo_lookup :: "nat \<times> nat \<times> nat"
  mo_pick :: nat
  mo_fail :: nat
  mo_error_pick :: nat
  mo_error_fail :: nat
  mo_wall :: nat
  mo_date :: string
  mo_session :: string

definition MAX_REFRESH_QUEUE :: nat where "MAX_REFRESH_QUEUE = 256"

definition ERROR_PAGE_TTL :: nat where "ERROR_PAGE_TTL = 60 * 1000000000"

definition queue_refresh :: "refresh \<Rightarrow> ('r, 'tls, 'k, 'ip) server_state \<Rightarrow> ('r, 'tls, 'k, 'ip) server_state" where
  "queue_refresh r st =
     (if MAX_REFRESH_QUEUE \<le> length (sv_prefetch_queue st) \<or> r \<in> set (sv_prefetch_queue st) then st
      else st\<lparr>sv_prefetch_queue := sv_prefetch_queue st @ [r]\<rparr>)"

definition is_warmable :: "string \<Rightarrow> string option \<Rightarrow> string option \<Rightarrow> bool" where
  "is_warmable path cache error_path =
     (if CHR ''{'' \<in> set path then False
      else if error_path = Some path then False
      else if (case cache of Some c \<Rightarrow> trim c = ''no-store'' | None \<Rightarrow> False) then False
      else True)"

definition custom_path :: "error_mode \<Rightarrow> string option" where
  "custom_path mode = (case mode of CustomMode p \<Rightarrow> Some p | _ \<Rightarrow> None)"

definition warm_route :: "string option \<Rightarrow> route_config \<Rightarrow> ('r, 'tls, 'k, 'ip) server_state \<Rightarrow>
    ('r, 'tls, 'k, 'ip) server_state" where
  "warm_route error_path c st =
     (if \<not> is_warmable (rc_path c) (rc_cache c) error_path then st
      else fold (\<lambda>enc. queue_refresh \<lparr>fr_path = rc_path c, fr_query = None, fr_enc = enc\<rparr>) ['''', ''gzip'', ''br''] st)"

definition seed_cache_warm :: "('r, 'tls, 'k, 'ip) server_state \<Rightarrow> ('r, 'tls, 'k, 'ip) server_state" where
  "seed_cache_warm st = fold (warm_route (custom_path (sv_error_mode st))) (cf_routes (sv_config st)) st"

section \<open>Asking a backend\<close>

definition origin_host :: "raw_request \<Rightarrow> 'ip proxy_config \<Rightarrow> string" where
  "origin_host req cfg =
     (case (case headers_get (rq_headers req) '':authority'' of
              Some h \<Rightarrow> Some h | None \<Rightarrow> headers_get (rq_headers req) ''host'') of
        Some h \<Rightarrow> if h \<noteq> [] then h else sc_domain (cf_site cfg)
      | None \<Rightarrow> sc_domain (cf_site cfg))"

definition ask_backend :: "('r, 'k, 'x, 'ip) proxy_env \<Rightarrow> nat \<Rightarrow> nat \<Rightarrow> raw_request \<Rightarrow> string \<Rightarrow> string \<Rightarrow>
    ('r, 'tls, 'k, 'ip) server_state \<Rightarrow> ((string + http_response) \<times> ('r, 'tls, 'k, 'ip) server_state) outcome" where
  "ask_backend env picked failed req backend_name client_ip st =
     bind_outcome (forward_to_backend (pe_socket env req client_ip (origin_host req (sv_config st))) picked failed
         backend_name (sv_pool_manager st))
       (\<lambda>(r, pools). Val (r, st\<lparr>sv_pool_manager := pools\<rparr>))"

definition internal_page :: "nat \<Rightarrow> raw_request \<Rightarrow> error_context option \<Rightarrow> ('r, 'tls, 'k, 'ip) server_state \<Rightarrow>
    nat \<times> headers \<times> bytes \<times> string" where
  "internal_page status req ctx st =
     (status, [(''Content-Type'', ''text/html; charset=utf-8'')],
      internal_error_html status (page_reason status) (cf_verbose_fallback (sv_config st)) (rq_path req) ctx, ''error'')"

definition query_part :: "string \<Rightarrow> string option \<Rightarrow> string" where
  "query_part name v = (case v of Some t \<Rightarrow> ''&'' @ name @ ''='' @ urlencoded t | None \<Rightarrow> [])"

definition error_query :: "nat \<Rightarrow> raw_request \<Rightarrow> error_context option \<Rightarrow> string" where
  "error_query status req ctx =
     ''status='' @ show_nat status @ ''&from='' @ urlencoded (rq_path req) @
     query_part ''route'' (Option.bind ctx ex_route) @ query_part ''backend'' (Option.bind ctx ex_backend) @
     query_part ''detail'' (Option.bind ctx ex_detail)"

definition apply_error_mode :: "('r, 'k, 'x, 'ip) proxy_env \<Rightarrow> moment \<Rightarrow> nat \<Rightarrow> raw_request \<Rightarrow> string \<Rightarrow>
    error_context option \<Rightarrow> ('r, 'tls, 'k, 'ip) server_state \<Rightarrow>
    ((nat \<times> headers \<times> bytes \<times> string) \<times> ('r, 'tls, 'k, 'ip) server_state) outcome" where
  "apply_error_mode env mo status req client_ip ctx st = (case sv_error_mode st of
     StatusMode \<Rightarrow> Val ((status, [(''Content-Type'', ''text/plain'')], [], ''error''), st)
   | InternalMode \<Rightarrow> Val (internal_page status req ctx st, st)
   | CustomMode error_path \<Rightarrow>
       if rq_path req = error_path then Val (internal_page status req ctx st, st)
       else
         (let error_req = \<lparr>rq_method = ''GET'', rq_path = error_path, rq_query = Some (error_query status req ctx),
                rq_version = ''HTTP/3'',
                rq_headers = [(''Host'', case headers_get (rq_headers req) ''host'' of Some h \<Rightarrow> h | None \<Rightarrow> [])],
                rq_body = []\<rparr>
          in case table_at (pe_matchit env) (sv_route_table st) error_path of
               None \<Rightarrow> Val (internal_page status req ctx st, st)
             | Some e \<Rightarrow>
                 bind_outcome (ask_backend env (mo_error_pick mo) (mo_error_fail mo) error_req (re_backend e) client_ip st)
                   (\<lambda>(r, st). Val (case r of
                      Inr err_resp \<Rightarrow> (status, hr_headers err_resp, hr_body err_resp, ''error'')
                    | Inl _ \<Rightarrow> internal_page status req ctx st, st))))"

definition ready_error :: "('r, 'k, 'x, 'ip) proxy_env \<Rightarrow> moment \<Rightarrow> nat \<Rightarrow> raw_request \<Rightarrow> string \<Rightarrow>
    error_context option \<Rightarrow> (headers \<Rightarrow> headers) \<Rightarrow> ('r, 'tls, 'k, 'ip) server_state \<Rightarrow>
    (proxy_outcome \<times> ('r, 'tls, 'k, 'ip) server_state) outcome" where
  "ready_error env mo status req client_ip ctx edit st =
     bind_outcome (apply_error_mode env mo status req client_ip ctx st)
       (\<lambda>((s, h, b, n), st). Val (Ready s (edit h) b n, st))"

text \<open>\<open>dispatch\<close> of the two HTTP/2 client pools and of the I/O thread, by the scheme of the URL. The
  thread takes every request.\<close>

definition dispatch_to :: "('r, 'k, 'x, 'ip) proxy_env \<Rightarrow> string \<Rightarrow> raw_request \<Rightarrow> string + unit" where
  "dispatch_to env url req =
     (if starts_with ''h2c://'' url \<or> starts_with ''h2s://'' url then pe_dispatch env url req else Inr ())"

definition fetch_error_page :: "('r, 'k, 'x, 'ip) proxy_env \<Rightarrow> nat \<Rightarrow> raw_request \<Rightarrow> string \<Rightarrow> string \<Rightarrow>
    ('r, 'tls, 'k, 'ip) server_state \<Rightarrow> proxy_outcome option" where
  "fetch_error_page env status req client_ip error_path st =
     (case table_at (pe_matchit env) (sv_route_table st) error_path of
        None \<Rightarrow> None
      | Some e \<Rightarrow> (case get_url_info (re_backend e) (sv_pool_manager st) of
          None \<Rightarrow> None
        | Some (url, _, _) \<Rightarrow>
            (let error_req = \<lparr>rq_method = ''GET'', rq_path = error_path, rq_query = Some (error_query status req None),
                   rq_version = rq_version req, rq_headers = [(''Host'', origin_host req (sv_config st))], rq_body = []\<rparr>
             in case dispatch_to env url error_req of
                  Inl _ \<Rightarrow> None
                | Inr _ \<Rightarrow> Some (Pending \<lparr>px_req = req, px_client_ip = client_ip, px_enc = [],
                    px_backend_name = re_backend e, px_cacheable = False, px_is_prefetch = False,
                    px_error_status_override = Some status\<rparr>))))"

definition dispatch_custom_error_async :: "('r, 'k, 'x, 'ip) proxy_env \<Rightarrow> moment \<Rightarrow> nat \<Rightarrow> raw_request \<Rightarrow> string \<Rightarrow>
    ('r, 'tls, 'k, 'ip) server_state \<Rightarrow> proxy_outcome option" where
  "dispatch_custom_error_async env mo status req client_ip st = (case sv_error_mode st of
     CustomMode error_path \<Rightarrow>
       if rq_path req = error_path then None
       else (case map_of (sv_error_pages st) status of
         Some (fetched, hs, body) \<Rightarrow>
           if mo_now mo - fetched < ERROR_PAGE_TTL
           then Some (Ready status (finish_response (cf_analytics (sv_config st)) (mo_session mo) hs (rq_headers req)) body
                        ''error-local'')
           else fetch_error_page env status req client_ip error_path st
       | None \<Rightarrow> fetch_error_page env status req client_ip error_path st)
   | _ \<Rightarrow> None)"

section \<open>The stages of a request\<close>

definition method_refusal :: "raw_request \<Rightarrow> ('r, 'tls, 'k, 'ip) server_state \<Rightarrow> proxy_outcome option" where
  "method_refusal req st =
     (if list_ex (\<lambda>m. m = rq_method req) (cf_allowed_methods (sv_config st)) then None
      else
        (let known = is_registered_method (rq_method req) in
         Some (Ready (if known then 405 else 501)
           [(''Content-Type'', ''text/plain; charset=utf-8''), (''Cache-Control'', ''no-store''),
            (''Allow'', join_with '', '' (cf_allowed_methods (sv_config st)))]
           (if known then ''Method Not Allowed'' else ''Not Implemented'') ''method-check'')))"

definition health_answer :: "('r, 'k, 'x, 'ip) proxy_env \<Rightarrow> nat \<Rightarrow> ('r, 'tls, 'k, 'ip) server_state \<Rightarrow> proxy_outcome" where
  "health_answer env now st =
     (let degraded = list_ex (\<lambda>(_, active, _). active = 0) (pool_health now (sv_pool_manager st));
          status = (if degraded then ''degraded'' else ''ok'')
      in Ready (if degraded then 503 else 200)
           [(''Content-Type'', ''application/json; charset=utf-8''), (''Cache-Control'', ''no-store''),
            (''X-Robots-Tag'', ''noindex, nofollow'')]
           (pe_health_text env status (cf_node (sv_config st))) ''health'')"

definition perf_ready :: "perf_outcome \<Rightarrow> proxy_outcome" where
  "perf_ready out = (case perf_response out of (code, hs, body) \<Rightarrow> Ready code hs body ''perf'')"

definition monitoring_answer :: "('r, 'k, 'x, 'ip) proxy_env \<Rightarrow> moment \<Rightarrow> raw_request \<Rightarrow> string \<Rightarrow> bool \<Rightarrow>
    ('r, 'tls, 'k, 'ip) server_state \<Rightarrow> proxy_outcome option" where
  "monitoring_answer env mo req client_ip from_internal st =
     (let h = cf_health (sv_config st);
          gate = metrics_gate (pe_verify env) (pe_ip_of env) h (sv_public_key st) (rq_headers req) client_ip from_internal
      in if hc_enabled h \<and> rq_path req = hc_path h then Some (health_answer env (mo_now mo) st)
         else if hc_enabled h \<and> rq_path req = hc_perf_path h then
           Some (perf_ready (case gate of Refused out \<Rightarrow> out | Open \<Rightarrow> PerfOk (pe_perf_text env)))
         else if hc_enabled h \<and> rq_path req = hc_traffic_path h then
           Some (perf_ready (case gate of Refused out \<Rightarrow> out | Open \<Rightarrow> pe_traffic env))
         else None)"

definition route_miss :: "('r, 'k, 'x, 'ip) proxy_env \<Rightarrow> moment \<Rightarrow> raw_request \<Rightarrow> string \<Rightarrow>
    ('r, 'tls, 'k, 'ip) server_state \<Rightarrow> (proxy_outcome \<times> ('r, 'tls, 'k, 'ip) server_state) outcome" where
  "route_miss env mo req client_ip st =
     (case trailing_slash_redirect (pe_matchit env) (sv_route_table st) (rq_path req) of
        Some canonical \<Rightarrow>
          Val (Ready 301 [(''Location'', case rq_query req of Some q \<Rightarrow> canonical @ ''?'' @ q | None \<Rightarrow> canonical),
                          (''Content-Type'', ''text/html'')] [] ''redirect'', st)
      | None \<Rightarrow> (case dispatch_custom_error_async env mo 404 req client_ip st of
          Some out \<Rightarrow> Val (out, st)
        | None \<Rightarrow> ready_error env mo 404 req client_ip None (\<lambda>h. h) st))"

definition error_ctx :: "route_entry \<Rightarrow> string \<Rightarrow> error_context" where
  "error_ctx route detail =
     \<lparr>ex_route = Some (re_path route), ex_backend = Some (re_backend route), ex_detail = Some detail\<rparr>"

text \<open>The answer to a request that fails the \<open>require\<close> of its route.\<close>

definition auth_refused :: "('r, 'k, 'x, 'ip) proxy_env \<Rightarrow> moment \<Rightarrow> raw_request \<Rightarrow> string \<Rightarrow> route_entry \<Rightarrow> string \<Rightarrow>
    refusal \<Rightarrow> ('r, 'tls, 'k, 'ip) server_state \<Rightarrow> (proxy_outcome \<times> ('r, 'tls, 'k, 'ip) server_state) outcome" where
  "auth_refused env mo req client_ip route required why st = (case why of
     NoToken \<Rightarrow>
       if is_browser_request (headers_get (rq_headers req) ''accept'') then
         (let redirect_url = (if extract_refresh_cookie (combined_cookie_header (rq_headers req)) \<noteq> None
                              then ''/auth/refresh'' else ''/login?next='' @ urlencoded (rq_path req))
          in Val (Ready 302 [(''Location'', redirect_url), (''Content-Type'', ''text/html'')] [] ''auth'', st))
       else ready_error env mo 401 req client_ip (Some (error_ctx route ''no token'')) add_bearer_challenge st
   | Invalid e \<Rightarrow> ready_error env mo 401 req client_ip (Some (error_ctx route e)) add_bearer_challenge st
   | Insufficient \<Rightarrow>
       ready_error env mo 403 req client_ip (Some (error_ctx route (''requires: '' @ required))) (\<lambda>h. h) st)"

definition with_claims :: "('r, 'k, 'x, 'ip) proxy_env \<Rightarrow> 'x claims option \<Rightarrow> raw_request \<Rightarrow> raw_request" where
  "with_claims env verified req = (case verified of
     Some c \<Rightarrow> req\<lparr>rq_headers := rq_headers req @ [(''X-Auth-Claims'', pe_claims_text env c)]\<rparr>
   | None \<Rightarrow> req)"

definition store_response :: "('r, 'k, 'x, 'ip) proxy_env \<Rightarrow> moment \<Rightarrow> bool \<Rightarrow> raw_request \<Rightarrow> string \<Rightarrow> http_response \<Rightarrow>
    cache \<Rightarrow> cache outcome" where
  "store_response env mo cacheable req enc resp c =
     (if cacheable \<and> request_permits_storage (rq_headers req) \<and> should_cache (hr_status resp) (hr_headers resp)
      then cache_insert (pe_date env) (pe_entry_size env) (mo_now mo) (mo_wall mo)
             (cache_key (rq_path req) (rq_query req) enc)
             \<lparr>cr_status = hr_status resp, cr_headers = strip_set_cookie (hr_headers resp), cr_body = hr_body resp\<rparr> c
      else Val c)"

definition dispatch_url :: "('r, 'k, 'x, 'ip) proxy_env \<Rightarrow> moment \<Rightarrow> raw_request \<Rightarrow> string \<Rightarrow> string \<Rightarrow> bool \<Rightarrow> bool \<Rightarrow>
    route_entry \<Rightarrow> string \<Rightarrow> ('r, 'tls, 'k, 'ip) server_state \<Rightarrow>
    (proxy_outcome \<times> ('r, 'tls, 'k, 'ip) server_state) outcome" where
  "dispatch_url env mo req client_ip enc is_prefetch cacheable route url st =
     (case dispatch_to env url req of
        Inl e \<Rightarrow> ready_error env mo 502 req client_ip (Some (error_ctx route e)) (\<lambda>h. h) st
      | Inr _ \<Rightarrow> Val (Pending \<lparr>px_req = req, px_client_ip = client_ip, px_enc = enc,
          px_backend_name = re_backend route, px_cacheable = cacheable, px_is_prefetch = is_prefetch,
          px_error_status_override = None\<rparr>, st))"

definition forward_socket :: "('r, 'k, 'x, 'ip) proxy_env \<Rightarrow> moment \<Rightarrow> raw_request \<Rightarrow> string \<Rightarrow> string \<Rightarrow> bool \<Rightarrow> bool \<Rightarrow>
    route_entry \<Rightarrow> ('r, 'tls, 'k, 'ip) server_state \<Rightarrow>
    (proxy_outcome \<times> ('r, 'tls, 'k, 'ip) server_state) outcome" where
  "forward_socket env mo req client_ip enc is_prefetch cacheable route st =
     (let analytics = (cf_analytics (sv_config st) \<and> \<not> is_prefetch);
          finish = (\<lambda>h. finish_response analytics (mo_session mo) h (rq_headers req))
      in bind_outcome (ask_backend env (mo_pick mo) (mo_fail mo) req (re_backend route) client_ip st) (\<lambda>(r, st).
           case r of
             Inr resp \<Rightarrow>
               (let resp = resp\<lparr>hr_headers := set_date (mo_date mo) (hr_headers resp)\<rparr> in
                bind_outcome (store_response env mo cacheable req enc resp (sv_cache st)) (\<lambda>c.
                  let st = st\<lparr>sv_cache := c\<rparr> in
                  if 400 \<le> hr_status resp then
                    ready_error env mo (hr_status resp) req client_ip
                      (Some (error_ctx route (re_backend route @ '' returned '' @ show_nat (hr_status resp))))
                      (\<lambda>h. finish (preserve_actionable_headers (hr_headers resp) h)) st
                  else Val (Ready (hr_status resp) (finish (hr_headers resp)) (hr_body resp) (re_backend route), st)))
           | Inl e \<Rightarrow>
               ready_error env mo 502 req client_ip (Some (error_ctx route e))
                 (\<lambda>h. finish (preserve_actionable_headers [] h)) st))"

definition to_backend :: "('r, 'k, 'x, 'ip) proxy_env \<Rightarrow> moment \<Rightarrow> raw_request \<Rightarrow> string \<Rightarrow> string \<Rightarrow> bool \<Rightarrow>
    route_entry \<Rightarrow> ('r, 'tls, 'k, 'ip) server_state \<Rightarrow>
    (proxy_outcome \<times> ('r, 'tls, 'k, 'ip) server_state) outcome" where
  "to_backend env mo req client_ip enc is_prefetch route st =
     (let cacheable = (re_require route = None \<and> method_may_write_cache (rq_method req)) in
      case get_url_info (re_backend route) (sv_pool_manager st) of
        Some (url, _, _) \<Rightarrow> dispatch_url env mo req client_ip enc is_prefetch cacheable route url st
      | None \<Rightarrow> forward_socket env mo req client_ip enc is_prefetch cacheable route st)"

definition routed :: "('r, 'k, 'x, 'ip) proxy_env \<Rightarrow> moment \<Rightarrow> raw_request \<Rightarrow> string \<Rightarrow> string \<Rightarrow> bool \<Rightarrow>
    route_entry \<Rightarrow> ('r, 'tls, 'k, 'ip) server_state \<Rightarrow>
    (proxy_outcome \<times> ('r, 'tls, 'k, 'ip) server_state) outcome" where
  "routed env mo req client_ip enc is_prefetch route st =
     (case (re_require route, sv_public_key st) of
        (Some required, Some pk) \<Rightarrow>
          (case authorise (pe_verify env) pk (rq_headers req) required of
             Inl why \<Rightarrow> auth_refused env mo req client_ip route required why st
           | Inr c \<Rightarrow> to_backend env mo (with_claims env (Some c) req) client_ip enc is_prefetch route st)
      | _ \<Rightarrow> to_backend env mo (with_claims env None req) client_ip enc is_prefetch route st)"

definition handle_request_inner :: "('r, 'k, 'x, 'ip) proxy_env \<Rightarrow> moment \<Rightarrow> raw_request \<Rightarrow> string \<Rightarrow> string \<Rightarrow> bool \<Rightarrow> bool \<Rightarrow>
    ('r, 'tls, 'k, 'ip) server_state \<Rightarrow> (proxy_outcome \<times> ('r, 'tls, 'k, 'ip) server_state) outcome" where
  "handle_request_inner env mo req client_ip enc is_prefetch from_internal st =
     (case method_refusal req st of
        Some out \<Rightarrow> Val (out, st)
      | None \<Rightarrow> (case monitoring_answer env mo req client_ip from_internal st of
          Some out \<Rightarrow> Val (out, st)
        | None \<Rightarrow>
            if refuses_custom_error_path (sv_error_mode st) (rq_path req) from_internal
            then ready_error env mo 404 req client_ip None (\<lambda>h. h) st
            else (case table_at (pe_matchit env) (sv_route_table st) (rq_path req) of
              None \<Rightarrow> route_miss env mo req client_ip st
            | Some route \<Rightarrow> routed env mo req client_ip enc is_prefetch route st)))"

section \<open>Finishing a response\<close>

definition split_once_str :: "string \<Rightarrow> string \<Rightarrow> (string \<times> string) option" where
  "split_once_str p s = (case find_sub p s of Some i \<Rightarrow> Some (take i s, drop (i + length p) s) | None \<Rightarrow> None)"

text \<open>The path a \<open>Location\<close> or \<open>Content-Location\<close> names on this site.\<close>

definition own_path :: "site_config \<Rightarrow> string \<Rightarrow> string option" where
  "own_path site v =
     (if starts_with ''/'' v then Some v
      else Option.bind (split_once_str ''://'' v) (\<lambda>(_, r). Option.bind (split_once CHR ''/'' r) (\<lambda>(host, p).
        let host = hd (split_on CHR '':'' host) in
        if host = sc_domain site \<or> host = ''www.'' @ sc_domain site
        then Some (if starts_with ''/'' p then p else ''/'' @ p) else None)))"

definition invalidate_after_unsafe_method :: "raw_request \<Rightarrow> nat \<Rightarrow> headers \<Rightarrow> ('r, 'tls, 'k, 'ip) server_state \<Rightarrow>
    ('r, 'tls, 'k, 'ip) server_state" where
  "invalidate_after_unsafe_method req status hs st =
     (if rq_method req \<in> set [''GET'', ''HEAD'', ''OPTIONS'', ''TRACE''] then st
      else if 400 \<le> status then st
      else
        (let evict_named = (\<lambda>name c. case Option.bind (headers_get hs name) (own_path (cf_site (sv_config st))) of
               Some p \<Rightarrow> evict_path p c | None \<Rightarrow> c)
         in st\<lparr>sv_cache := evict_named ''content-location'' (evict_named ''location''
              (evict_path (rq_path req) (sv_cache st)))\<rparr>))"

definition finish_fields :: "moment \<Rightarrow> string \<Rightarrow> headers \<Rightarrow> ('r, 'tls, 'k, 'ip) server_state \<Rightarrow> headers" where
  "finish_fields mo backend hs st =
     set_describedby_link (set_date (mo_date mo)
       (set_vary_accept_encoding hs (backend_compresses (sv_config st) backend))) (sc_describedby (cf_site (sv_config st)))"

definition handle_request :: "('r, 'k, 'x, 'ip) proxy_env \<Rightarrow> moment \<Rightarrow> raw_request \<Rightarrow> string \<Rightarrow> string \<Rightarrow> bool \<Rightarrow> bool \<Rightarrow>
    ('r, 'tls, 'k, 'ip) server_state \<Rightarrow> (proxy_outcome \<times> ('r, 'tls, 'k, 'ip) server_state) outcome" where
  "handle_request env mo req client_ip enc is_prefetch from_internal st =
     bind_outcome (handle_request_inner env mo req client_ip enc is_prefetch from_internal st) (\<lambda>(out, st). case out of
        Ready status hs body backend \<Rightarrow>
          (let hs = finish_fields mo backend hs st in
           Val (Ready status hs body backend, invalidate_after_unsafe_method req status hs st))
      | Pending ctx \<Rightarrow> Val (Pending ctx, st))"

section \<open>The reply of a URL backend\<close>

definition finalize_error_page :: "moment \<Rightarrow> nat \<Rightarrow> string + http_response \<Rightarrow> pending_ctx \<Rightarrow>
    ('r, 'tls, 'k, 'ip) server_state \<Rightarrow> (nat \<times> headers \<times> bytes \<times> string) \<times> ('r, 'tls, 'k, 'ip) server_state" where
  "finalize_error_page mo original_status result ctx st =
     (let analytics_on = (cf_analytics (sv_config st) \<and> \<not> px_is_prefetch ctx); req = px_req ctx in
      case result of
        Inr resp \<Rightarrow>
          ((original_status, finish_proxied_response analytics_on (mo_session mo) (hr_headers resp) (rq_headers req),
            hr_body resp, ''error''),
           st\<lparr>sv_error_pages := AList.update original_status (mo_now mo, hr_headers resp, hr_body resp) (sv_error_pages st)\<rparr>)
      | Inl _ \<Rightarrow>
          (case internal_page original_status req None st of (s, hs, body, n) \<Rightarrow>
             ((s, finish_response analytics_on (mo_session mo) hs (rq_headers req), body, n), st)))"

definition finalize_url_response_inner :: "('r, 'k, 'x, 'ip) proxy_env \<Rightarrow> moment \<Rightarrow> nat \<Rightarrow> string + http_response \<Rightarrow>
    pending_ctx \<Rightarrow> ('r, 'tls, 'k, 'ip) server_state \<Rightarrow>
    ((nat \<times> headers \<times> bytes \<times> string) \<times> ('r, 'tls, 'k, 'ip) server_state) outcome" where
  "finalize_url_response_inner env mo quic_port result ctx st =
     (let req = px_req ctx; analytics_on = (cf_analytics (sv_config st) \<and> \<not> px_is_prefetch ctx) in
      case px_error_status_override ctx of
        Some original_status \<Rightarrow> Val (finalize_error_page mo original_status result ctx st)
      | None \<Rightarrow> (case result of
          Inr resp \<Rightarrow>
            (let resp = resp\<lparr>hr_headers := set_date (mo_date mo) (hr_headers resp)\<rparr> in
             bind_outcome (store_response env mo (px_cacheable ctx) req (px_enc ctx) resp (sv_cache st)) (\<lambda>c.
               Val ((hr_status resp,
                     finish_proxied_response analytics_on (mo_session mo) (set_alt_svc (hr_headers resp) quic_port) (rq_headers req),
                     hr_body resp, px_backend_name ctx), st\<lparr>sv_cache := c\<rparr>)))
        | Inl _ \<Rightarrow>
            bind_outcome (apply_error_mode env mo 502 req (px_client_ip ctx)
                (Some \<lparr>ex_route = None, ex_backend = Some (px_backend_name ctx), ex_detail = Some ''backend returned 502''\<rparr>) st)
              (\<lambda>((s, h, b, n), st). Val ((s, finish_response analytics_on (mo_session mo) h (rq_headers req), b, n), st))))"

definition finalize_url_response :: "('r, 'k, 'x, 'ip) proxy_env \<Rightarrow> moment \<Rightarrow> nat \<Rightarrow> string + http_response \<Rightarrow>
    pending_ctx \<Rightarrow> ('r, 'tls, 'k, 'ip) server_state \<Rightarrow>
    ((nat \<times> headers \<times> bytes \<times> string) \<times> ('r, 'tls, 'k, 'ip) server_state) outcome" where
  "finalize_url_response env mo quic_port result ctx st =
     bind_outcome (finalize_url_response_inner env mo quic_port result ctx st) (\<lambda>((s, h, b, n), st).
       let h = finish_fields mo n h st in
       Val ((s, h, b, n), invalidate_after_unsafe_method (px_req ctx) s h st))"

section \<open>A request from a listener\<close>

definition conditional_date :: "('r, 'k, 'x, 'ip) proxy_env \<Rightarrow> string \<Rightarrow> int option" where
  "conditional_date env v = map_option (\<lambda>n. int (as_secs n)) (pe_date env v)"

text \<open>The answer from the cache: 412, 304 or the stored response.\<close>

definition cached_answer :: "('r, 'k, 'x, 'ip) proxy_env \<Rightarrow> moment \<Rightarrow> nat \<Rightarrow> raw_request \<Rightarrow> cached_response \<Rightarrow> nat \<Rightarrow>
    ('r, 'tls, 'k, 'ip) server_state \<Rightarrow> proxy_outcome" where
  "cached_answer env mo quic_port req cached age st =
     (let finish = (\<lambda>h. finish_response (cf_analytics (sv_config st)) (mo_session mo) h (rq_headers req)) in
      case evaluate_preconditions (conditional_date env) (cr_headers cached) (rq_headers req) (rq_method req) of
        Failed \<Rightarrow> Ready 412 (finish (set_date (mo_date mo) [])) [] ''cache''
      | NotModified \<Rightarrow>
          Ready 304 (finish (set_date (mo_date mo)
            (set_age (set_vary_accept_encoding (not_modified_headers (cr_headers cached)) True) age))) [] ''cache''
      | Proceed \<Rightarrow>
          Ready (cr_status cached)
            (finish (set_describedby_link (set_age (set_vary_accept_encoding (set_alt_svc (cr_headers cached) quic_port) True) age)
               (sc_describedby (cf_site (sv_config st))))) (cr_body cached) ''cache'')"

definition www_redirect :: "raw_request \<Rightarrow> 'ip proxy_config \<Rightarrow> proxy_outcome option" where
  "www_redirect req cfg =
     map_option (\<lambda>location. Ready 301 (www_redirect_headers location) [] ''www-redirect'')
       (www_redirect_location (headers_get (rq_headers req) ''host'') (rq_path req) (rq_query req) (cf_site cfg))"

definition throttle :: "nat \<Rightarrow> string \<Rightarrow> ('r, 'tls, 'k, 'ip) server_state \<Rightarrow>
    (ready_response option \<times> ('r, 'tls, 'k, 'ip) server_state) outcome" where
  "throttle now client_ip st =
     bind_outcome (check_rate_limit (cf_rate_limit (sv_config st)) now client_ip (sv_rate_limiter st)) (\<lambda>(blocked, rl).
       Val (blocked, st\<lparr>sv_rate_limiter := rl\<rparr>))"

text \<open>The lookup, with the gates that come before it.\<close>

definition look_up :: "('r, 'k, 'x, 'ip) proxy_env \<Rightarrow> moment \<Rightarrow> string \<Rightarrow> string \<Rightarrow> string option \<Rightarrow> string \<Rightarrow> request_directives \<Rightarrow>
    ('r, 'tls, 'k, 'ip) server_state \<Rightarrow> (lookup \<times> ('r, 'tls, 'k, 'ip) server_state) outcome" where
  "look_up env mo meth path query enc req_cc st =
     (if \<not> requires_auth (pe_matchit env) (sv_route_table st) path \<and> method_may_read_cache meth
      then (case mo_lookup mo of (t0, t1, t2) \<Rightarrow>
        bind_outcome (lookup_with t0 t1 t2 (make_lookup_key path query enc) req_cc (sv_cache st)) (\<lambda>(l, c).
          Val (l, st\<lparr>sv_cache := c\<rparr>)))
      else Val (Miss, st))"

definition accept_encoding :: "headers \<Rightarrow> string" where
  "accept_encoding hs = (case headers_get hs ''accept-encoding'' of Some e \<Rightarrow> e | None \<Rightarrow> [])"

definition on_request :: "('r, 'k, 'x, 'ip) proxy_env \<Rightarrow> moment \<Rightarrow> nat \<Rightarrow> bool \<Rightarrow> raw_request \<Rightarrow> string \<Rightarrow>
    ('r, 'tls, 'k, 'ip) server_state \<Rightarrow> (proxy_outcome \<times> ('r, 'tls, 'k, 'ip) server_state) outcome" where
  "on_request env mo quic_port from_internal req client_ip st =
     bind_outcome (throttle (mo_now mo) client_ip st) (\<lambda>(blocked, st). case blocked of
        Some r \<Rightarrow> Val (Ready (rr_status r) (rr_headers r) (rr_body r) (rr_backend r), st)
      | None \<Rightarrow> (case www_redirect req (sv_config st) of
          Some out \<Rightarrow> Val (out, st)
        | None \<Rightarrow>
            (let enc = accept_encoding (rq_headers req); req_cc = request_directives_parse (rq_headers req) in
             bind_outcome (look_up env mo (rq_method req) (rq_path req) (rq_query req) enc req_cc st) (\<lambda>(found, st).
               case found of
                 Fresh cached age \<Rightarrow> Val (cached_answer env mo quic_port req cached age st, st)
               | Stale cached age \<Rightarrow>
                   Val (cached_answer env mo quic_port req cached age st,
                        queue_refresh \<lparr>fr_path = rq_path req, fr_query = rq_query req, fr_enc = enc\<rparr> st)
               | Miss \<Rightarrow>
                   if rd_only_if_cached req_cc then Val (Ready 504 (set_date (mo_date mo) []) [] ''cache'', st)
                   else bind_outcome (handle_request env mo req client_ip enc False from_internal st) (\<lambda>(out, st).
                     Val (case out of
                        Ready status hs body backend \<Rightarrow> Ready status (set_alt_svc hs quic_port) body backend
                      | Pending ctx \<Rightarrow> Pending ctx, st))))))"

text \<open>The two listeners: TLS (HTTP/1.1 and HTTP/2), which is never internal, and h2c.\<close>

definition serve_tls :: "('r, 'k, 'x, 'ip) proxy_env \<Rightarrow> moment \<Rightarrow> nat \<Rightarrow> raw_request \<Rightarrow> string \<Rightarrow>
    ('r, 'tls, 'k, 'ip) server_state \<Rightarrow> (proxy_outcome \<times> ('r, 'tls, 'k, 'ip) server_state) outcome" where
  "serve_tls env mo quic_port req client_ip st = on_request env mo quic_port False req client_ip st"

definition serve_h2c :: "('r, 'k, 'x, 'ip) proxy_env \<Rightarrow> moment \<Rightarrow> nat \<Rightarrow> raw_request \<Rightarrow> string \<Rightarrow>
    ('r, 'tls, 'k, 'ip) server_state \<Rightarrow> (proxy_outcome \<times> ('r, 'tls, 'k, 'ip) server_state) outcome" where
  "serve_h2c env mo quic_port req client_ip st = on_request env mo quic_port (sv_h2c_internal st) req client_ip st"

section \<open>HTTP/3\<close>

text \<open>The fields of an HTTP/3 request are bytes. \<open>h3_scan\<close> is the first pass over them: path, query,
  method and the accepted encodings, the last field of a name winning.\<close>

record h3_scan =
  hs_path :: bytes
  hs_query :: "bytes option"
  hs_method :: bytes
  hs_enc :: bytes

definition scan_field :: "h3_scan \<Rightarrow> bytes \<times> bytes \<Rightarrow> h3_scan" where
  "scan_field s kv =
     (if fst kv = '':path'' then
        (case find_char CHR ''?'' (snd kv) of
           Some q \<Rightarrow> s\<lparr>hs_path := take q (snd kv), hs_query := Some (drop (q + 1) (snd kv))\<rparr>
         | None \<Rightarrow> s\<lparr>hs_path := snd kv\<rparr>)
      else if fst kv = '':method'' then s\<lparr>hs_method := snd kv\<rparr>
      else if fst kv = ''accept-encoding'' then s\<lparr>hs_enc := snd kv\<rparr>
      else s)"

definition h3_scan_fields :: "headers \<Rightarrow> h3_scan" where
  "h3_scan_fields fs = foldl scan_field \<lparr>hs_path = ''/'', hs_query = None, hs_method = ''GET'', hs_enc = []\<rparr> fs"

definition utf8_or :: "string \<Rightarrow> bytes \<Rightarrow> string" where
  "utf8_or d b = (if valid_utf8 b then b else d)"

text \<open>\<open>H3Headers\<close>: the fields whose name and value are text; \<open>owned_headers_for_cc\<close>: the two that carry
  directives.\<close>

definition h3_headers :: "headers \<Rightarrow> headers" where
  "h3_headers fs = filter (\<lambda>(k, v). valid_utf8 k \<and> valid_utf8 v) fs"

definition owned_headers_for_cc :: "headers \<Rightarrow> headers" where
  "owned_headers_for_cc fs =
     map (\<lambda>(k, v). (from_utf8_lossy k, from_utf8_lossy v))
       (filter (\<lambda>(k, _). eq_ignore_ascii_case k ''cache-control'' \<or> eq_ignore_ascii_case k ''pragma'') fs)"

definition first_text :: "string \<Rightarrow> headers \<Rightarrow> string option" where
  "first_text name fs = find_map (\<lambda>(k, v). if eq_ignore_ascii_case k name \<and> valid_utf8 v then Some v else None) fs"

definition h3_forwarded :: "headers \<Rightarrow> headers" where
  "h3_forwarded fs =
     filter (\<lambda>(k, v). \<not> starts_with '':'' k \<and> valid_utf8 k \<and> valid_utf8 v \<and> \<not> is_untrusted_inbound k) fs"

text \<open>What goes out on the stream: nothing but a reset, a response (the last argument drops the body of
  a HEAD), or a reply to wait for.\<close>

datatype h3_answer = H3Reset | H3Send nat headers bytes bool | H3Wait pending_ctx

definition h3_cached :: "('r, 'k, 'x, 'ip) proxy_env \<Rightarrow> moment \<Rightarrow> nat \<Rightarrow> headers \<Rightarrow> string \<Rightarrow> cached_response \<Rightarrow> nat \<Rightarrow>
    ('r, 'tls, 'k, 'ip) server_state \<Rightarrow> h3_answer" where
  "h3_cached env mo quic_port fs meth cached age st =
     (let set_cookie = record_request (cf_analytics (sv_config st)) (mo_session mo) (h3_headers fs);
          with_cookie = (\<lambda>html hs. case set_cookie of Some sc \<Rightarrow> if html then hs @ [(''Set-Cookie'', sc)] else hs | None \<Rightarrow> hs)
      in case evaluate_preconditions (conditional_date env) (cr_headers cached) (h3_headers fs) meth of
        Failed \<Rightarrow> H3Send 412 (set_date (mo_date mo) []) [] False
      | NotModified \<Rightarrow>
          H3Send 304 (with_cookie (is_html_response (cr_headers cached)) (set_date (mo_date mo)
            (set_age (set_vary_accept_encoding (not_modified_headers (cr_headers cached)) True) age))) [] False
      | Proceed \<Rightarrow>
          (let hs = set_alt_svc (set_describedby_link (set_age (set_vary_accept_encoding (cr_headers cached) True) age)
                 (sc_describedby (cf_site (sv_config st)))) quic_port
           in H3Send (cr_status cached) (with_cookie (is_html_response hs) hs) (cr_body cached)
                (eq_ignore_ascii_case meth ''HEAD'')))"

definition h3_miss :: "('r, 'k, 'x, 'ip) proxy_env \<Rightarrow> moment \<Rightarrow> nat \<Rightarrow> headers \<Rightarrow> bytes \<Rightarrow> string \<Rightarrow> string \<Rightarrow> string option \<Rightarrow>
    string \<Rightarrow> string \<Rightarrow> ('r, 'tls, 'k, 'ip) server_state \<Rightarrow> (h3_answer \<times> ('r, 'tls, 'k, 'ip) server_state) outcome" where
  "h3_miss env mo quic_port fs body meth path query enc client_ip st =
     (let req = \<lparr>rq_method = meth, rq_path = path, rq_query = query, rq_version = ''HTTP/3'',
                 rq_headers = h3_forwarded fs, rq_body = body\<rparr>
      in bind_outcome (handle_request env mo req client_ip enc False False st) (\<lambda>(out, st). Val (case out of
           Ready status hs b _ \<Rightarrow> H3Send status (set_alt_svc hs quic_port) b (eq_ignore_ascii_case meth ''HEAD'')
         | Pending ctx \<Rightarrow> H3Wait ctx, st)))"

definition is_fresh :: "lookup \<Rightarrow> bool" where
  "is_fresh l = (case l of Fresh _ _ \<Rightarrow> True | _ \<Rightarrow> False)"

definition handle_h3_request :: "('r, 'k, 'x, 'ip) proxy_env \<Rightarrow> moment \<Rightarrow> nat \<Rightarrow> bool \<Rightarrow> headers \<Rightarrow> bytes \<Rightarrow> string \<Rightarrow>
    ('r, 'tls, 'k, 'ip) server_state \<Rightarrow> (h3_answer \<times> ('r, 'tls, 'k, 'ip) server_state) outcome" where
  "handle_h3_request env mo quic_port in_early_data fs body client_ip st =
     (if validate_request_headers fs \<noteq> Inr () then Val (H3Reset, st)
      else
        (let s = h3_scan_fields fs; path = utf8_or ''/'' (hs_path s); enc = utf8_or [] (hs_enc s);
             query = Option.bind (hs_query s) (\<lambda>q. if valid_utf8 q then Some q else None);
             meth = utf8_or ''GET'' (hs_method s); early = [(''date'', mo_date mo)]
         in if in_early_data \<and> \<not> (hs_method s = ''GET'' \<or> hs_method s = ''HEAD'') then Val (H3Send 425 early [] False, st)
            else bind_outcome (throttle (mo_now mo) client_ip st) (\<lambda>(blocked, st). case blocked of
              Some r \<Rightarrow> Val (H3Send (rr_status r) (rr_headers r) (rr_body r) (eq_ignore_ascii_case (hs_method s) ''HEAD''), st)
            | None \<Rightarrow>
                (case www_redirect_location (first_text '':authority'' fs) path query (cf_site (sv_config st)) of
                   Some location \<Rightarrow> Val (H3Send 301 (www_redirect_headers location) [] False, st)
                 | None \<Rightarrow>
                     (let req_cc = request_directives_parse (owned_headers_for_cc fs) in
                      bind_outcome (look_up env mo meth path query enc req_cc st) (\<lambda>(found, st).
                        if rd_only_if_cached req_cc \<and> found = Miss then Val (H3Send 504 early [] False, st)
                        else if in_early_data \<and> \<not> is_fresh found then Val (H3Send 425 early [] False, st)
                        else (case found of
                          Fresh cached age \<Rightarrow> Val (h3_cached env mo quic_port fs meth cached age st, st)
                        | Stale cached age \<Rightarrow>
                            Val (h3_cached env mo quic_port fs meth cached age st,
                                 queue_refresh \<lparr>fr_path = path, fr_query = query, fr_enc = enc\<rparr> st)
                        | Miss \<Rightarrow> h3_miss env mo quic_port fs body meth path query enc client_ip st)))))))"

text \<open>The fields and the body \<open>send_h3_response\<close> gives to quiche; the security fields are those of the
  configuration that the response does not set.\<close>

definition send_h3_response :: "headers \<Rightarrow> nat \<Rightarrow> headers \<Rightarrow> bytes \<Rightarrow> bool \<Rightarrow> headers \<times> bytes" where
  "send_h3_response security status hs body is_head =
     (let sent = (if is_head then [] else body) in
      ((('':status'', map digit_char [status div 100, status div 10 mod 10, status mod 10]) # absent_from security hs @
        filter (\<lambda>kv. \<not> (sent \<noteq> [] \<and> name_is ''content-length'' kv)) hs @
        (if sent = [] \<and> status_may_have_content_length status
         then [(''content-length'', show_nat (length body))] else [])), sent))"

section \<open>Background fetches\<close>

definition synth_refresh_request :: "refresh \<Rightarrow> raw_request" where
  "synth_refresh_request r = \<lparr>rq_method = ''GET'', rq_path = fr_path r, rq_query = fr_query r, rq_version = ''HTTP/1.1'',
     rq_headers = (if fr_enc r = [] then [] else [(''Accept-Encoding'', fr_enc r)]), rq_body = []\<rparr>"

text \<open>The turn of the event loop that takes one entry of the queue.\<close>

definition drain_prefetch :: "('r, 'k, 'x, 'ip) proxy_env \<Rightarrow> moment \<Rightarrow> ('r, 'tls, 'k, 'ip) server_state \<Rightarrow>
    ('r, 'tls, 'k, 'ip) server_state outcome" where
  "drain_prefetch env mo st = (case sv_prefetch_queue st of
     [] \<Rightarrow> Val st
   | r # q \<Rightarrow>
       (let st = st\<lparr>sv_prefetch_queue := q\<rparr> in
        bind_outcome (cache_get (mo_now mo) (make_lookup_key (fr_path r) (fr_query r) (fr_enc r)) (sv_cache st)) (\<lambda>(found, c).
          let st = st\<lparr>sv_cache := c\<rparr> in
          if found \<noteq> None then Val st
          else bind_outcome (handle_request env mo (synth_refresh_request r) ''127.0.0.1'' (fr_enc r) True False st) (\<lambda>(out, st).
            Val (case out of
               Ready _ _ _ _ \<Rightarrow> st
             | Pending ctx \<Rightarrow>
                 if length (sv_background_pending st) < MAX_REFRESH_QUEUE
                 then st\<lparr>sv_background_pending := sv_background_pending st @ [ctx]\<rparr> else st)))))"

text \<open>The reply to one parked background fetch.\<close>

definition finish_background :: "('r, 'k, 'x, 'ip) proxy_env \<Rightarrow> moment \<Rightarrow> nat \<Rightarrow> nat \<Rightarrow> string + http_response \<Rightarrow>
    ('r, 'tls, 'k, 'ip) server_state \<Rightarrow> ('r, 'tls, 'k, 'ip) server_state outcome" where
  "finish_background env mo quic_port i result st =
     (if length (sv_background_pending st) \<le> i then Val st
      else
        (let ctx = sv_background_pending st ! i; st = st\<lparr>sv_background_pending := remove_at i (sv_background_pending st)\<rparr> in
         bind_outcome (finalize_url_response env mo quic_port result ctx st) (\<lambda>(_, st). Val st)))"

end
