(* ===== verification/Proxy_Theorems.thy ===== *)
theory Proxy_Theorems
  imports Proxy_Safety
begin

text \<open>
  The properties of the request pipeline, with a small site on which they are applied: what the
  cache holds, what an unauthorised request can learn, what early data can change, what a write
  invalidates and what a held error page replays; at the end, behaviours of the pipeline that a
  comment of the code rules out or a reader would not expect.
\<close>

section \<open>Properties\<close>

text \<open>C21. In every state the server can reach with its routes, through requests on any listener,
  replies of backends in any order, background fetches and evictions, the shared cache is
  well-formed and every entry belongs to a path whose route has no \<open>require\<close>: the response of a
  protected route is never stored.\<close>

theorem cache_holds_public_routes:
  assumes "reachable proxy_init (proxy_step env port) (st, ps)"
  shows "cache_inv (sv_cache st) \<and>
    (\<forall>key \<in> fst ` set (ca_map (sv_cache st)). \<exists>path query enc route. key = cache_key path query enc \<and>
       table_at (pe_matchit env) (sv_route_table st) path = Some route \<and> re_require route = None)"
  using server.inv_reachable [OF assms] by (simp add: proxy_inv_def Let_def keys_def public_key_of_def)

subsection \<open>Requests that do not depend on a backend\<close>

text \<open>The environment with other backends behind it.\<close>

definition with_backends :: "(raw_request \<Rightarrow> string \<Rightarrow> string \<Rightarrow> string \<Rightarrow> string + http_response) \<Rightarrow>
    (string \<Rightarrow> raw_request \<Rightarrow> string + unit) \<Rightarrow> ('r, 'k, 'x, 'ip) proxy_env \<Rightarrow> ('r, 'k, 'x, 'ip) proxy_env" where
  "with_backends socket dispatch env = env\<lparr>pe_socket := socket, pe_dispatch := dispatch\<rparr>"

lemma with_backends_simps [simp]:
  "pe_matchit (with_backends s d env) = pe_matchit env" "pe_verify (with_backends s d env) = pe_verify env"
  "pe_claims_text (with_backends s d env) = pe_claims_text env" "pe_ip_of (with_backends s d env) = pe_ip_of env"
  "pe_date (with_backends s d env) = pe_date env" "pe_entry_size (with_backends s d env) = pe_entry_size env"
  "pe_health_text (with_backends s d env) = pe_health_text env" "pe_perf_text (with_backends s d env) = pe_perf_text env"
  "pe_traffic (with_backends s d env) = pe_traffic env" "pe_socket (with_backends s d env) = s"
  by (simp_all add: with_backends_def)

lemma ready_error_elsewhere:
  assumes "\<And>r. rq_path r \<noteq> rq_path req \<Longrightarrow> s r = pe_socket env r"
  shows "ready_error (with_backends s d env) mo status req ip ctx edit st = ready_error env mo status req ip ctx edit st"
proof -
  have "apply_error_mode (with_backends s d env) mo status req ip ctx st = apply_error_mode env mo status req ip ctx st"
    using assms by (auto simp: apply_error_mode_def ask_backend_def Let_def split: error_mode.split option.split)
  then show ?thesis by (simp add: ready_error_def)
qed

lemma monitoring_elsewhere [simp]:
  "monitoring_answer (with_backends s d env) mo req ip internal st = monitoring_answer env mo req ip internal st"
  unfolding monitoring_answer_def health_answer_def Let_def with_backends_simps by (rule refl)

lemma look_up_elsewhere [simp]: "look_up (with_backends s d env) mo = look_up env mo"
  by (intro ext) (simp add: look_up_def)

lemma cached_elsewhere [simp]: "cached_answer (with_backends s d env) mo = cached_answer env mo"
  "h3_cached (with_backends s d env) mo = h3_cached env mo"
proof -
  have "conditional_date (with_backends s d env) = conditional_date env" by (intro ext) (simp add: conditional_date_def)
  then show "cached_answer (with_backends s d env) mo = cached_answer env mo"
    "h3_cached (with_backends s d env) mo = h3_cached env mo"
    by (intro ext; simp add: cached_answer_def h3_cached_def)+
qed

text \<open>A request without the token its route requires, up to \<open>handle_request\<close>.\<close>

lemma unauthorised_handled:
  assumes route: "table_at (pe_matchit env) (sv_route_table st) (rq_path req) = Some route" "re_require route = Some required"
    and key: "sv_public_key st = Some key" "authorise (pe_verify env) key (rq_headers req) required = Inl why"
    and mon: "monitoring_answer env mo req ip internal st = None"
  shows "handle_request env mo req ip enc pf internal st = Val (out, st') \<Longrightarrow>
      (\<exists>status hs body name. out = Ready status hs body name \<and> status \<in> {302, 401, 403, 404, 405, 501}) \<and>
      keys (sv_cache st') \<subseteq> keys (sv_cache st)"
    and "(\<And>r. rq_path r \<noteq> rq_path req \<Longrightarrow> s r = pe_socket env r) \<Longrightarrow>
      handle_request (with_backends s d env) mo req ip enc pf internal st = handle_request env mo req ip enc pf internal st"
proof -
  have inner: "handle_request_inner e mo req ip enc pf internal st =
      (case method_refusal req st of Some out \<Rightarrow> Val (out, st)
       | None \<Rightarrow> if refuses_custom_error_path (sv_error_mode st) (rq_path req) internal
           then ready_error e mo 404 req ip None (\<lambda>h. h) st
           else auth_refused e mo req ip route required why st)"
    if "e = env \<or> e = with_backends s d env" for e
    using that assms by (auto simp: handle_request_inner_def routed_def split: option.split)
  { assume "handle_request env mo req ip enc pf internal st = Val (out, st')"
    then obtain out1 st1 where i: "handle_request_inner env mo req ip enc pf internal st = Val (out1, st1)"
      by (auto simp: handle_request_def outcome_simps)
    have cache: "ready_error env mo n req ip ctx edit st = Val (x, st1) \<Longrightarrow> sv_cache st1 = sv_cache st" for n ctx edit x
      by (auto simp: ready_error_def apply_error_mode_def ask_backend_def Let_def outcome_simps
          split: error_mode.splits if_splits option.splits)
    have "(\<exists>status hs body name. out1 = Ready status hs body name \<and> status \<in> {302, 401, 403, 404, 405, 501}) \<and> sv_cache st1 = sv_cache st"
    proof (cases "method_refusal req st")
      case (Some o1)
      then show ?thesis using i inner [of env] by (auto simp: method_refusal_def Let_def split: if_splits)
    next
      case None
      have c: "auth_refused env mo req ip route required why st = Val (x, st1) \<Longrightarrow> sv_cache st1 = sv_cache st" for x
        using cache by (auto simp: auth_refused_def Let_def split: refusal.splits if_splits)
      show ?thesis
        using None i inner [of env] c cache by (auto split: if_splits
            dest!: ready_error_keeps [where mi = "pe_matchit env"] auth_refused_keeps [where mi = "pe_matchit env"])
    qed
    then show "(\<exists>status hs body name. out = Ready status hs body name \<and> status \<in> {302, 401, 403, 404, 405, 501}) \<and>
        keys (sv_cache st') \<subseteq> keys (sv_cache st)"
      using \<open>handle_request env mo req ip enc pf internal st = Val (out, st')\<close> i invalidate_keys
      by (fastforce simp: handle_request_def Let_def) }
  assume s: "\<And>r. rq_path r \<noteq> rq_path req \<Longrightarrow> s r = pe_socket env r"
  have "auth_refused (with_backends s d env) mo req ip route required why st = auth_refused env mo req ip route required why st"
    by (simp add: auth_refused_def ready_error_elsewhere [OF s] Let_def split: refusal.split)
  then have "handle_request_inner (with_backends s d env) mo req ip enc pf internal st =
      handle_request_inner env mo req ip enc pf internal st"
    by (simp add: inner ready_error_elsewhere [OF s] split: option.split)
  then show "handle_request (with_backends s d env) mo req ip enc pf internal st = handle_request env mo req ip enc pf internal st"
    by (simp add: handle_request_def)
qed

lemma throttle_state:
  "throttle now ip st = Val (blocked, st') \<Longrightarrow>
     (\<exists>rl. st' = st\<lparr>sv_rate_limiter := rl\<rparr>) \<and> (\<forall>r. blocked = Some r \<longrightarrow> rr_status r = 429)"
proof -
  assume a: "throttle now ip st = Val (blocked, st')"
  then obtain rl where "check_rate_limit (cf_rate_limit (sv_config st)) now ip (sv_rate_limiter st) = Val (blocked, rl)"
    "st' = st\<lparr>sv_rate_limiter := rl\<rparr>" by (auto simp: throttle_def outcome_simps)
  moreover from this(1) have "\<forall>r. blocked = Some r \<longrightarrow> rr_status r = 429"
    by (auto simp: check_rate_limit_def outcome_simps split: if_splits)
  ultimately show ?thesis by blast
qed


text \<open>The same over HTTP/3, where a malformed request is reset.\<close>

definition h3_request :: "headers \<Rightarrow> bytes \<Rightarrow> raw_request" where
  "h3_request fs body = (let s = h3_scan_fields fs in
     \<lparr>rq_method = utf8_or ''GET'' (hs_method s), rq_path = utf8_or ''/'' (hs_path s),
      rq_query = Option.bind (hs_query s) (\<lambda>q. if valid_utf8 q then Some q else None), rq_version = ''HTTP/3'',
      rq_headers = h3_forwarded fs, rq_body = body\<rparr>)"

lemma h3_protected_route_refuses:
  assumes table: "matchit_ok stored (pe_matchit env)"
      "table_from_config (pe_matchit env) glob dir routes groups = Inr (sv_route_table st)"
    and route: "table_at (pe_matchit env) (sv_route_table st) (rq_path (h3_request fs body)) = Some route" "re_require route = Some required"
    and key: "sv_public_key st = Some key" "authorise (pe_verify env) key (rq_headers (h3_request fs body)) required = Inl why"
    and mon: "rq_path (h3_request fs body) \<notin> {hc_path (cf_health (sv_config st)), hc_perf_path (cf_health (sv_config st)),
      hc_traffic_path (cf_health (sv_config st))}"
    and run: "handle_h3_request env mo port early fs body ip st = Val (ans, st')"
  shows "ans = H3Reset \<or> (\<exists>status hs b h. ans = H3Send status hs b h \<and> 300 \<le> status)"
proof -
  let ?req = "h3_request fs body"
  let ?s = "h3_scan_fields fs" and ?cc = "request_directives_parse (owned_headers_for_cc fs)"
  let ?path = "utf8_or ''/'' (hs_path ?s)" and ?enc = "utf8_or [] (hs_enc ?s)" and ?meth = "utf8_or ''GET'' (hs_method ?s)"
  let ?query = "Option.bind (hs_query ?s) (\<lambda>q. if valid_utf8 q then Some q else None)"
  show ?thesis
  proof (cases "validate_request_headers fs \<noteq> Inr () \<or> early \<and> \<not> (hs_method ?s = ''GET'' \<or> hs_method ?s = ''HEAD'')")
    case True
    then show ?thesis using run by (auto simp: handle_h3_request_def Let_def split: if_splits)
  next
    case pass: False
    obtain blocked rl where t: "throttle (mo_now mo) ip st = Val (blocked, st\<lparr>sv_rate_limiter := rl\<rparr>)"
      and b: "\<And>r. blocked = Some r \<Longrightarrow> rr_status r = 429"
    proof -
      obtain blocked st1 where "throttle (mo_now mo) ip st = Val (blocked, st1)"
        using run pass by (auto simp: handle_h3_request_def Let_def outcome_simps split: if_splits)
      with throttle_state [OF this] that show thesis by blast
    qed
    let ?st = "st\<lparr>sv_rate_limiter := rl\<rparr>"
    have "requires_auth (pe_matchit env) (sv_route_table st) ?path"
      using requires_auth_exact [OF table] route by (simp add: h3_request_def Let_def)
    then have l: "look_up env mo ?meth ?path ?query ?enc ?cc ?st = Val (Miss, ?st)" by (simp add: look_up_def)
    have m: "monitoring_answer env mo ?req ip False ?st = None" using mon by (auto simp: monitoring_answer_def Let_def)
    note h = unauthorised_handled(1) [where st = ?st, simplified, OF route key m]
    show ?thesis
    proof (cases "blocked = None \<and> www_redirect_location (first_text '':authority'' fs) ?path ?query (cf_site (sv_config st)) = None \<and>
        \<not> rd_only_if_cached ?cc \<and> \<not> early")
      case False
      then show ?thesis using run pass t b l
        by (auto simp: handle_h3_request_def Let_def is_fresh_def split: if_splits option.splits)
    next
      case True
      then have m3: "h3_miss env mo port fs body ?meth ?path ?query ?enc ip ?st = Val (ans, st')"
        using run pass t l by (auto simp: handle_h3_request_def Let_def is_fresh_def)
      obtain out1 where "handle_request env mo ?req ip ?enc False False ?st = Val (out1, st')"
        using m3 by (auto simp: h3_miss_def h3_request_def Let_def outcome_simps)
      with h [OF this] m3 show ?thesis by (auto simp: h3_miss_def h3_request_def Let_def)
    qed
  qed
qed

section \<open>Early data\<close>

definition stored_responses :: "cache \<Rightarrow> (string \<times> cached_response) list" where
  "stored_responses c = map (\<lambda>(k, e). (k, ce_response e)) (ca_map c)"

lemma update_same_response:
  "map_of al key = Some e \<Longrightarrow> ce_response e' = ce_response e \<Longrightarrow>
     map (\<lambda>(k, e). (k, ce_response e)) (AList.update key e' al) = map (\<lambda>(k, e). (k, ce_response e)) al"
  by (induction al) (auto split: if_splits)

lemma cache_lookup_responses: "cache_lookup now key c = Val (l, c') \<Longrightarrow> stored_responses c' = stored_responses c"
  by (auto simp: cache_lookup_def Let_def stored_responses_def update_same_response split: option.splits outcome.splits)

lemma lookup_with_responses: "lookup_with t0 t1 t2 key req c = Val (l, c') \<Longrightarrow> stored_responses c' = stored_responses c"
  by (auto simp: lookup_with_def split: if_splits outcome.splits lookup.splits dest: cache_lookup_responses)

lemma look_up_responses:
  assumes "look_up env mo meth path q enc cc st = Val (l, st')"
  shows "\<exists>c. st' = st\<lparr>sv_cache := c\<rparr> \<and> stored_responses c = stored_responses (sv_cache st)"
proof (cases "\<not> requires_auth (pe_matchit env) (sv_route_table st) path \<and> method_may_read_cache meth")
  case True
  obtain t0 t1 t2 where m: "mo_lookup mo = (t0, t1, t2)" by (cases "mo_lookup mo") auto
  obtain c where "lookup_with t0 t1 t2 (make_lookup_key path q enc) cc (sv_cache st) = Val (l, c)" "st' = st\<lparr>sv_cache := c\<rparr>"
    using assms True m by (auto simp: look_up_def outcome_simps)
  then show ?thesis using lookup_with_responses by blast
next
  case False
  then have "st' = st\<lparr>sv_cache := sv_cache st\<rparr>" using assms unfolding look_up_def by (simp only: if_False) simp
  then show ?thesis by blast
qed

text \<open>C22. A request in early data, which an attacker can replay, changes nothing that another request
  can see: it is answered at once, whatever the backends would say, and the server differs
  afterwards only in the rate limiter's counters and in when entries of the cache were last read.
  No response is stored, replaced or dropped, no fetch is queued and no backend is asked.\<close>

theorem early_data_changes_nothing:
  assumes "handle_h3_request env mo port True fs body ip st = Val (ans, st')"
  shows "(\<nexists>ctx. ans = H3Wait ctx) \<and>
    handle_h3_request (with_backends socket dispatch env) mo port True fs body ip st = Val (ans, st') \<and>
    (\<exists>c rl. st' = st\<lparr>sv_rate_limiter := rl, sv_cache := c\<rparr> \<and> stored_responses c = stored_responses (sv_cache st))"
proof -
  let ?s = "h3_scan_fields fs" and ?cc = "request_directives_parse (owned_headers_for_cc fs)"
  let ?path = "utf8_or ''/'' (hs_path ?s)" and ?enc = "utf8_or [] (hs_enc ?s)" and ?meth = "utf8_or ''GET'' (hs_method ?s)"
  let ?query = "Option.bind (hs_query ?s) (\<lambda>q. if valid_utf8 q then Some q else None)"
  have id: "st = st\<lparr>sv_rate_limiter := sv_rate_limiter st, sv_cache := sv_cache st\<rparr>" by simp
  show ?thesis
  proof (cases "validate_request_headers fs \<noteq> Inr () \<or> \<not> (hs_method ?s = ''GET'' \<or> hs_method ?s = ''HEAD'')")
    case True
    then have "st' = st \<and> (\<nexists>ctx. ans = H3Wait ctx)" "handle_h3_request (with_backends socket dispatch env) mo port True fs body ip st = Val (ans, st')"
      using assms by (auto simp: handle_h3_request_def Let_def split: if_splits)
    then show ?thesis using id by blast
  next
    case pass: False
    obtain blocked rl where t: "throttle (mo_now mo) ip st = Val (blocked, st\<lparr>sv_rate_limiter := rl\<rparr>)"
    proof -
      obtain blocked st1 where "throttle (mo_now mo) ip st = Val (blocked, st1)"
        using assms pass by (auto simp: handle_h3_request_def Let_def outcome_simps split: if_splits)
      with throttle_state [OF this] that show thesis by blast
    qed
    let ?st = "st\<lparr>sv_rate_limiter := rl\<rparr>"
    have id1: "?st = st\<lparr>sv_rate_limiter := rl, sv_cache := sv_cache st\<rparr>" by simp
    show ?thesis
    proof (cases "blocked = None \<and> www_redirect_location (first_text '':authority'' fs) ?path ?query (cf_site (sv_config st)) = None")
      case False
      then have "st' = ?st \<and> (\<nexists>ctx. ans = H3Wait ctx)" "handle_h3_request (with_backends socket dispatch env) mo port True fs body ip st = Val (ans, st')"
        using assms pass t by (auto simp: handle_h3_request_def Let_def split: if_splits option.splits)
      then show ?thesis using id1 by blast
    next
      case True
      obtain l st2 where l: "look_up env mo ?meth ?path ?query ?enc ?cc ?st = Val (l, st2)"
        using assms pass t True by (auto simp: handle_h3_request_def Let_def outcome_simps split: if_splits)
      have "st' = st2 \<and> (\<nexists>ctx. ans = H3Wait ctx)" "handle_h3_request (with_backends socket dispatch env) mo port True fs body ip st = Val (ans, st')"
        using assms pass t True l by (cases l; auto simp: handle_h3_request_def Let_def is_fresh_def split: if_splits)+
      then show ?thesis using look_up_responses [OF l] by auto
    qed
  qed
qed

section \<open>Writes\<close>


section \<open>The held error page\<close>

lemma finish_fields_keeps_cookie:
  assumes "(''Set-Cookie'', v) \<in> set hs"
  shows "(''Set-Cookie'', v) \<in> set (finish_fields mo b hs st)"
proof -
  have "\<not> eq_ignore_ascii_case ''Set-Cookie'' ''vary''" "\<not> eq_ignore_ascii_case ''Set-Cookie'' ''link''" by code_simp+
  then show ?thesis using assms
    by (auto simp: finish_fields_def set_describedby_link_def set_date_def set_vary_accept_encoding_def name_is_def
        is_describedby_def Let_def split: option.split)
qed

lemma invalidate_state: "\<exists>c. invalidate_after_unsafe_method req status hs st = st\<lparr>sv_cache := c\<rparr>"
proof -
  have "st = st\<lparr>sv_cache := sv_cache st\<rparr>" by simp
  then show ?thesis unfolding invalidate_after_unsafe_method_def Let_def by (simp only: split: if_split) blast
qed

lemma finish_response_keeps: "x \<in> set hs \<Longrightarrow> x \<in> set (finish_response on fresh hs rh)"
  by (simp add: finish_response_def split: option.split)

text \<open>The error page held for a status is the whole response of the backend, its cookies included:
  after one route miss was answered by a page that sets a cookie, every visitor who misses a route
  within the next minute is sent that same cookie.\<close>

theorem error_page_cookie_replayed:
  assumes fetched: "px_error_status_override ctx = Some 404"
      "finalize_url_response env mo port (Inr resp) ctx st = Val (r, st1)"
    and cookie: "(''Set-Cookie'', v) \<in> set (hr_headers resp)"
    and mode: "sv_error_mode st = CustomMode error_path" "rq_path req \<noteq> error_path"
    and miss: "table_at (pe_matchit env) (sv_route_table st) (rq_path req) = None"
      "trailing_slash_redirect (pe_matchit env) (sv_route_table st) (rq_path req) = None"
    and "rq_method req \<in> set (cf_allowed_methods (sv_config st))" "\<not> hc_enabled (cf_health (sv_config st))"
    and "mo_now mo' < mo_now mo + ERROR_PAGE_TTL"
  shows "\<exists>hs st2. handle_request env mo' req ip enc False internal st1 = Val (Ready 404 hs (hr_body resp) ''error-local'', st2) \<and>
    (''Set-Cookie'', v) \<in> set hs"
proof -
  have "\<exists>c. st1 = st\<lparr>sv_error_pages := AList.update 404 (mo_now mo, hr_headers resp, hr_body resp) (sv_error_pages st), sv_cache := c\<rparr>"
    using fetched invalidate_state
    by (auto simp: finalize_url_response_def finalize_url_response_inner_def finalize_error_page_def Let_def)
  then have st1: "sv_config st1 = sv_config st" "sv_route_table st1 = sv_route_table st" "sv_error_mode st1 = sv_error_mode st"
    "map_of (sv_error_pages st1) 404 = Some (mo_now mo, hr_headers resp, hr_body resp)" by (auto simp: update_conv')
  let ?hs = "finish_response (cf_analytics (sv_config st)) (mo_session mo') (hr_headers resp) (rq_headers req)"
  have "dispatch_custom_error_async env mo' 404 req ip st1 = Some (Ready 404 ?hs (hr_body resp) ''error-local'')"
  proof -
    have "mo_now mo' - mo_now mo < ERROR_PAGE_TTL" using assms(10) by (simp add: ERROR_PAGE_TTL_def)
    with st1 mode show ?thesis by (simp add: dispatch_custom_error_async_def)
  qed
  then have "handle_request_inner env mo' req ip enc False internal st1 = Val (Ready 404 ?hs (hr_body resp) ''error-local'', st1)"
    using st1 mode miss assms(8,9)
    by (auto simp: handle_request_inner_def method_refusal_def monitoring_answer_def refuses_custom_error_path_def
        route_miss_def Let_def list_ex_iff)
  then show ?thesis
    by (simp add: handle_request_def Let_def finish_fields_keeps_cookie finish_response_keeps [OF cookie])
qed

section \<open>A small site\<close>

definition demo_matchit :: "(string \<times> route_entry) list matchit" where
  "demo_matchit = \<lparr>mi_new = [], mi_insert = (\<lambda>r p e. if map_of r p \<noteq> None then Inl ''conflict'' else Inr (r @ [(p, e)])),
     mi_at = (\<lambda>r p. map_of r p)\<rparr>"

definition demo_routes :: "route_config list" where
  "demo_routes = [
     \<lparr>rc_path = ''/'', rc_backend = ''html'', rc_require = None, rc_cache = None\<rparr>,
     \<lparr>rc_path = ''/about'', rc_backend = ''html'', rc_require = None, rc_cache = None\<rparr>,
     \<lparr>rc_path = ''/admin'', rc_backend = ''html'', rc_require = Some ''role:admin'', rc_cache = None\<rparr>,
     \<lparr>rc_path = ''/gone'', rc_backend = ''html'', rc_require = None, rc_cache = None\<rparr>,
     \<lparr>rc_path = ''/_errors'', rc_backend = ''origin'', rc_require = None, rc_cache = None\<rparr>]"

definition demo_table :: "(string \<times> route_entry) list route_table" where
  "demo_table = (case table_from_config demo_matchit (\<lambda>_. None) ''/site'' demo_routes [] of Inr t \<Rightarrow> t)"

definition demo_page :: "nat \<Rightarrow> bytes \<Rightarrow> http_response" where
  "demo_page status body = \<lparr>hr_status = status, hr_reason = ''x'',
     hr_headers = [(''Content-Type'', ''text/plain''), (''Cache-Control'', ''public, max-age=60'')], hr_body = body\<rparr>"

definition proxy_demo_env :: "((string \<times> route_entry) list, unit, unit, string) proxy_env" where
  "proxy_demo_env = \<lparr>pe_matchit = demo_matchit,
     pe_verify = (\<lambda>_ t. if t = ''good'' then Inr \<lparr>cl_sub = Some ''a'', cl_iss = None, cl_exp = Some 9, cl_groups = None,
        cl_roles = Some [''admin''], cl_extra = ()\<rparr> else Inl ''bad''),
     pe_claims_text = (\<lambda>_. ''e30=''), pe_ip_of = Some, pe_date = (\<lambda>_. None), pe_entry_size = 100,
     pe_socket = (\<lambda>req _ _ _. Inr (if rq_path req = ''/gone'' then demo_page 404 ''raw'' else demo_page 200 (rq_path req))),
     pe_dispatch = (\<lambda>_ _. Inr ()), pe_health_text = (\<lambda>_ _. []), pe_perf_text = [], pe_traffic = Disabled\<rparr>"

definition demo_health :: "string health_config" where
  "demo_health = \<lparr>hc_enabled = False, hc_path = ''/health'', hc_perf_path = ''/perf'', hc_traffic_path = ''/traffic'',
     hc_metrics_token = None, hc_metrics_require = None, hc_metrics_peer_ips = None\<rparr>"

definition demo_config :: "string proxy_config" where
  "demo_config = \<lparr>cf_site = \<lparr>sc_domain = ''example.com'', sc_redirect_www = True, sc_describedby = []\<rparr>,
     cf_allowed_methods = [''GET'', ''HEAD'', ''POST''], cf_health = demo_health, cf_node = ''n'', cf_analytics = True,
     cf_rate_limit = \<lparr>rlc_enabled = False, rlc_requests_per_min = 0\<rparr>, cf_verbose_fallback = False, cf_compresses = [],
     cf_routes = demo_routes\<rparr>"

definition demo_server :: "error_mode \<Rightarrow> ((string \<times> route_entry) list, unit, unit, string) server_state" where
  "demo_server mode = \<lparr>sv_config = demo_config, sv_route_table = demo_table,
     sv_pool_manager = \<lparr>pmg_pools = [(''html'', add_socket ''/run/html.sock'' (new_pool ''html'' ''g''))],
       pmg_url_backends = [\<lparr>ub_name = ''origin'', ub_url = ''https://origin'', ub_tls_config = (), ub_skip_verify = False\<rparr>]\<rparr>,
     sv_cache = cache_new 0, sv_public_key = Some (), sv_error_mode = mode, sv_prefetch_queue = [],
     sv_background_pending = [], sv_rate_limiter = new_rate_limiter, sv_error_pages = [], sv_h2c_internal = False\<rparr>"

definition demo_moment :: "nat \<Rightarrow> moment" where
  "demo_moment t = \<lparr>mo_now = t, mo_lookup = (t, t, t), mo_pick = t, mo_fail = t, mo_error_pick = t, mo_error_fail = t,
     mo_wall = t, mo_date = ''today'', mo_session = ''s''\<rparr>"

definition demo_request :: "string \<Rightarrow> string \<Rightarrow> raw_request" where
  "demo_request meth path = \<lparr>rq_method = meth, rq_path = path, rq_query = None, rq_version = ''HTTP/1.1'',
     rq_headers = [(''Host'', ''example.com'')], rq_body = []\<rparr>"


lemma demo_matchit_ok: "matchit_ok (\<lambda>r. snd ` set r) demo_matchit"
  by (auto simp: matchit_ok_def demo_matchit_def split: if_splits dest: map_of_SomeD intro: rev_image_eqI)

lemma demo_table_built: "table_from_config demo_matchit (\<lambda>_. None) ''/site'' demo_routes [] = Inr demo_table"
  by code_simp

text \<open>A run on the small site, and its result.\<close>

definition result_state :: "('a \<times> 's) outcome \<Rightarrow> 's" where
  "result_state r = (case r of Val (_, s) \<Rightarrow> s)"

definition result_value :: "('a \<times> 's) outcome \<Rightarrow> 'a" where
  "result_value r = (case r of Val (a, _) \<Rightarrow> a)"

lemma result_Val: "returns r \<Longrightarrow> r = Val (result_value r, result_state r)"
  by (cases r) (auto simp: returns_def result_value_def result_state_def)

definition proxy_demo_get :: "(proxy_outcome \<times> ((string \<times> route_entry) list, unit, unit, string) server_state) outcome" where
  "proxy_demo_get = on_request proxy_demo_env (demo_moment 0) 443 False (demo_request ''GET'' ''/about'') ''1.2.3.4'' (demo_server InternalMode)"

lemma proxy_demo_get_returns: "returns proxy_demo_get"
  by code_simp

theorem cache_holds_public_routes_witness:
  "reachable proxy_init (proxy_step proxy_demo_env 443) (result_state proxy_demo_get, waiting (result_value proxy_demo_get)) \<and>
   ca_map (sv_cache (result_state proxy_demo_get)) \<noteq> [] \<and> cache_inv (sv_cache (result_state proxy_demo_get))"
proof -
  have init: "proxy_init (demo_server InternalMode, [])"
    by (simp add: proxy_init_def demo_server_def cache_init_def cache_new_def) blast
  have run: "on_request proxy_demo_env (demo_moment 0) 443 False (demo_request ''GET'' ''/about'') ''1.2.3.4'' (demo_server InternalMode) =
      Val (result_value proxy_demo_get, result_state proxy_demo_get)"
    using result_Val [OF proxy_demo_get_returns] unfolding proxy_demo_get_def .
  have r: "reachable proxy_init (proxy_step proxy_demo_env 443) (result_state proxy_demo_get, waiting (result_value proxy_demo_get))"
  proof (rule reachable_step)
    show "reachable proxy_init (proxy_step proxy_demo_env 443) (demo_server InternalMode, [])" by (rule reachable_init) (rule init)
    show "proxy_step proxy_demo_env 443 (demo_server InternalMode, []) (result_state proxy_demo_get, waiting (result_value proxy_demo_get))"
      using proxy_step.request [OF run, of "[]"] unfolding append_Nil2 .
  qed
  moreover have "ca_map (sv_cache (result_state proxy_demo_get)) \<noteq> []" by code_simp
  ultimately show ?thesis using cache_holds_public_routes [OF r] by blast
qed

definition demo_admin :: raw_request where
  "demo_admin = demo_request ''GET'' ''/admin''"


definition demo_early :: headers where
  "demo_early = [('':method'', ''GET''), ('':scheme'', ''https''), ('':path'', ''/about''), ('':authority'', ''example.com'')]"

theorem early_data_changes_nothing_witness:
  "\<exists>ans st'. handle_h3_request proxy_demo_env (demo_moment 1) 443 True demo_early [] ''1.2.3.4'' (result_state proxy_demo_get) = Val (ans, st') \<and>
     (\<nexists>ctx. ans = H3Wait ctx) \<and>
     stored_responses (sv_cache st') = stored_responses (sv_cache (result_state proxy_demo_get))"
proof -
  let ?run = "handle_h3_request proxy_demo_env (demo_moment 1) 443 True demo_early [] ''1.2.3.4'' (result_state proxy_demo_get)"
  have "returns ?run" by code_simp
  then obtain ans st' where run: "?run = Val (ans, st')" using result_Val by blast
  obtain c rl where "(\<nexists>ctx. ans = H3Wait ctx)" "st' = (result_state proxy_demo_get)\<lparr>sv_rate_limiter := rl, sv_cache := c\<rparr>"
    "stored_responses c = stored_responses (sv_cache (result_state proxy_demo_get))"
    using early_data_changes_nothing [OF run, of "pe_socket proxy_demo_env" "pe_dispatch proxy_demo_env"] by blast
  then show ?thesis using run by simp
qed


definition demo_error_ctx :: pending_ctx where
  "demo_error_ctx = \<lparr>px_req = demo_request ''GET'' ''/nope'', px_client_ip = ''1.2.3.4'', px_enc = [], px_backend_name = ''origin'',
     px_cacheable = False, px_is_prefetch = False, px_error_status_override = Some 404\<rparr>"

definition demo_error_page :: http_response where
  "demo_error_page = \<lparr>hr_status = 200, hr_reason = ''OK'', hr_headers = [(''Content-Type'', ''text/html''),
     (''Set-Cookie'', session_cookie_header_value ''first-visitor'')], hr_body = ''<h1>404</h1>''\<rparr>"

theorem error_page_cookie_replayed_witness:
  "\<exists>r st1 hs st2.
     finalize_url_response proxy_demo_env (demo_moment 0) 443 (Inr demo_error_page) demo_error_ctx (demo_server (CustomMode ''/_errors'')) = Val (r, st1) \<and>
     handle_request proxy_demo_env (demo_moment 1) (demo_request ''GET'' ''/other'') ''5.6.7.8'' [] False False st1 =
       Val (Ready 404 hs ''<h1>404</h1>'' ''error-local'', st2) \<and>
     (''Set-Cookie'', session_cookie_header_value ''first-visitor'') \<in> set hs"
proof -
  let ?st = "demo_server (CustomMode ''/_errors'')" and ?req = "demo_request ''GET'' ''/other''"
  let ?run = "finalize_url_response proxy_demo_env (demo_moment 0) 443 (Inr demo_error_page) demo_error_ctx ?st"
  have "returns ?run" by code_simp
  then obtain r st1 where run: "?run = Val (r, st1)" using result_Val by blast
  have "px_error_status_override demo_error_ctx = Some 404" "sv_error_mode ?st = CustomMode ''/_errors''" "rq_path ?req \<noteq> ''/_errors''"
    "table_at (pe_matchit proxy_demo_env) (sv_route_table ?st) (rq_path ?req) = None"
    "trailing_slash_redirect (pe_matchit proxy_demo_env) (sv_route_table ?st) (rq_path ?req) = None"
    "rq_method ?req \<in> set (cf_allowed_methods (sv_config ?st))" "\<not> hc_enabled (cf_health (sv_config ?st))"
    "mo_now (demo_moment 1) < mo_now (demo_moment 0) + ERROR_PAGE_TTL"
    "(''Set-Cookie'', session_cookie_header_value ''first-visitor'') \<in> set (hr_headers demo_error_page)" by code_simp+
  from error_page_cookie_replayed [OF this(1) run this(9,2-8), of "''5.6.7.8''" "[]" False]
  obtain hs st2 where "handle_request proxy_demo_env (demo_moment 1) ?req ''5.6.7.8'' [] False False st1 =
      Val (Ready 404 hs (hr_body demo_error_page) ''error-local'', st2)"
    "(''Set-Cookie'', session_cookie_header_value ''first-visitor'') \<in> set hs" by blast
  moreover have "hr_body demo_error_page = ''<h1>404</h1>''" by (simp add: demo_error_page_def)
  ultimately show ?thesis using run by (intro exI conjI) (assumption | simp only:)+
qed

section \<open>What the pipeline does not promise\<close>

text \<open>A 404 of a backend that may be stored is stored as the backend sent it, and then replaced by the
  error page: the first visitor gets the error page, the next one the backend's own body.\<close>

lemma cached_error_skips_error_page:
  "(case on_request proxy_demo_env (demo_moment 0) 443 False (demo_request ''GET'' ''/gone'') ''1.2.3.4'' (demo_server InternalMode) of
      Val (Ready s1 _ b1 n1, st) \<Rightarrow>
        (case on_request proxy_demo_env (demo_moment 1) 443 False (demo_request ''GET'' ''/gone'') ''1.2.3.4'' st of
           Val (Ready s2 _ b2 n2, _) \<Rightarrow>
             s1 = 404 \<and> n1 = ''error'' \<and> b1 = internal_error_html 404 ''Not Found'' False ''/gone'' None \<and>
             s2 = 404 \<and> n2 = ''cache'' \<and> b2 = ''raw''))"
  by code_simp

text \<open>A \<open>POST\<close> to a path with a slash too many is answered with a redirect, which counts as a success,
  and the target of the redirect is dropped from the cache: anybody can empty the entry of a page.\<close>

lemma slash_post_flushes:
  "map_of (ca_map (sv_cache (result_state proxy_demo_get))) (cache_key ''/about'' None []) \<noteq> None \<and>
   (case on_request proxy_demo_env (demo_moment 1) 443 False (demo_request ''POST'' ''/about/'') ''6.6.6.6'' (result_state proxy_demo_get) of
      Val (Ready s _ _ _, st) \<Rightarrow> s = 301 \<and> map_of (ca_map (sv_cache st)) (cache_key ''/about'' None []) = None)"
  by code_simp

text \<open>Over HTTP/3 a response without a body keeps the \<open>Content-Length\<close> it came with and gets a second
  one: the answer to a HEAD that a backend served has two that disagree. Fields that belong to one
  connection, such as \<open>Transfer-Encoding\<close>, are passed on.\<close>

lemma h3_two_lengths:
  "get_all (fst (send_h3_response [] 200 [(''content-length'', ''5000'')] [] True)) ''content-length'' = [''5000'', ''0'']"
  by code_simp

lemma h3_keeps_transfer_encoding:
  "get_all (fst (send_h3_response [] 200 [(''transfer-encoding'', ''chunked'')] ''body'' False)) ''transfer-encoding'' = [''chunked'']"
  by code_simp

end
