(* ===== verification/H1_Listener.thy ===== *)
theory H1_Listener
  imports Proxy H1_Request Io_Model
begin

text \<open>
  The HTTP/1.1 side of \<open>m6-http/src/http11.rs\<close>: a connection as the state machine that \<open>drive_h1\<close>
  advances at every wake of the event loop (reading, waiting for a URL backend, writing, done),
  the bytes of a response, persistence, and the two listeners with what they admit.

  \<^item> \<open>h1_io\<close> is the transport a connection is driven on: \<open>read\<close>, \<open>write\<close> and \<open>advance\<close> on a state of
    their own. \<open>plain_io\<close> is the plaintext arm on a non-blocking socket; the TLS arm is a call of
    rustls, so it stays an argument.
  \<^item> \<open>h1_handler\<close> is the pair of callbacks \<open>on_request\<close> and \<open>on_response\<close>, on the state of the server
    they close over; a receiver is asked through \<open>try_recv\<close>.
  \<^item> \<open>drive_h1\<close> takes the clock reading of its timeout and the one \<open>finish_response\<close> makes.
\<close>

section \<open>State\<close>

datatype h1_state = Reading bytes | WaitingBackend pending_ctx | Writing bytes nat | Done

record h1_conn =
  hc_state :: h1_state
  hc_client_ip :: string
  hc_created :: nat
  hc_keep_alive :: bool
  hc_served :: nat
  hc_expect_handled :: bool

definition READ_TIMEOUT_SECS :: nat where
  "READ_TIMEOUT_SECS = 30"

definition MAX_REQUESTS_PER_CONN :: nat where
  "MAX_REQUESTS_PER_CONN = 100"

definition MAX_REQUEST_BYTES :: nat where
  "MAX_REQUEST_BYTES = 20 * 1024 * 1024"

definition h1_new :: "string \<Rightarrow> nat \<Rightarrow> h1_conn" where
  "h1_new client_ip created =
     \<lparr>hc_state = Reading [], hc_client_ip = client_ip, hc_created = created, hc_keep_alive = False,
      hc_served = 0, hc_expect_handled = False\<rparr>"

definition h1_dead :: "nat \<Rightarrow> h1_conn" where
  "h1_dead now =
     \<lparr>hc_state = Done, hc_client_ip = [], hc_created = now, hc_keep_alive = False,
      hc_served = 0, hc_expect_handled = False\<rparr>"

record 's h1_io =
  io_read :: "nat \<Rightarrow> 's \<Rightarrow> (io_error + bytes) \<times> 's"
  io_write :: "bytes \<Rightarrow> 's \<Rightarrow> (io_error + nat) \<times> 's"
  io_advance :: "'s \<Rightarrow> bool \<times> 's"
  io_zero_read_is_eof :: bool

datatype try_recv = Received "string + http_response" | RecvEmpty | RecvDisconnected

record 'v h1_handler =
  hn_on_request :: "raw_request \<Rightarrow> string \<Rightarrow> 'v \<Rightarrow> (proxy_outcome \<times> 'v) outcome"
  hn_on_response :: "string + http_response \<Rightarrow> pending_ctx \<Rightarrow> 'v \<Rightarrow> ((nat \<times> headers \<times> bytes \<times> string) \<times> 'v) outcome"
  hn_try_recv :: "pending_ctx \<Rightarrow> try_recv"
  hn_security :: headers

section \<open>The plaintext transport\<close>

text \<open>A non-blocking socket: what its reads find, what has gone out, and what each write finds:
  room for a number of bytes, or an error. A write past the end of that list takes everything.\<close>

record socket =
  so_in :: reader
  so_out :: bytes
  so_room :: "(io_error + nat) list"

definition socket_write :: "bytes \<Rightarrow> socket \<Rightarrow> (io_error + nat) \<times> socket" where
  "socket_write b s =
     (case so_room s of
        [] \<Rightarrow> (Inr (length b), s\<lparr>so_out := so_out s @ b\<rparr>)
      | Inl e # rs \<Rightarrow> (Inl e, s\<lparr>so_room := rs\<rparr>)
      | Inr n # rs \<Rightarrow> (Inr (min n (length b)), s\<lparr>so_out := so_out s @ take n b, so_room := rs\<rparr>))"

definition socket_read :: "nat \<Rightarrow> socket \<Rightarrow> (io_error + bytes) \<times> socket" where
  "socket_read m s = (case read_some m (so_in s) of (r, es) \<Rightarrow> (r, s\<lparr>so_in := es\<rparr>))"

definition plain_io :: "socket h1_io" where
  "plain_io = \<lparr>io_read = socket_read, io_write = socket_write, io_advance = Pair True, io_zero_read_is_eof = True\<rparr>"

section \<open>The bytes of a response\<close>

text \<open>The reason phrases of this file; the shared responder has a list of its own.\<close>

definition h1_status_reason :: "nat \<Rightarrow> string" where
  "h1_status_reason s =
     (case map_of
        [(200, ''OK''), (201, ''Created''), (204, ''No Content''), (206, ''Partial Content''),
         (301, ''Moved Permanently''), (302, ''Found''), (304, ''Not Modified''), (400, ''Bad Request''),
         (401, ''Unauthorized''), (403, ''Forbidden''), (404, ''Not Found''), (405, ''Method Not Allowed''),
         (413, ''Payload Too Large''), (429, ''Too Many Requests''), (500, ''Internal Server Error''),
         (501, ''Not Implemented''), (502, ''Bad Gateway''), (503, ''Service Unavailable''),
         (504, ''Gateway Timeout'')] s of
        Some r \<Rightarrow> r
      | None \<Rightarrow> ''Unknown'')"

definition any_overridden :: "headers \<Rightarrow> headers \<Rightarrow> bool" where
  "any_overridden existing pairs = list_ex (\<lambda>(k, _). list_ex (\<lambda>(n, _). eq_ignore_ascii_case k n) pairs) existing"

definition h1_block :: "headers \<Rightarrow> bytes" where
  "h1_block pairs = concat (map (\<lambda>(k, v). k @ '': '' @ v @ CRLF) pairs)"

definition write_h1_headers :: "headers \<Rightarrow> headers \<Rightarrow> bytes" where
  "write_h1_headers pairs existing =
     (if \<not> any_overridden existing pairs then h1_block pairs
      else h1_block (filter (\<lambda>(n, _). \<not> headers_contains existing n) pairs))"

fun response_lines :: "headers \<Rightarrow> bytes" where
  "response_lines [] = []"
| "response_lines ((k, v) # hs) =
     (if eq_ignore_ascii_case k ''content-length'' \<or> eq_ignore_ascii_case k ''connection''
      then response_lines hs else k @ '': '' @ v @ CRLF @ response_lines hs)"

definition response_length :: "headers \<Rightarrow> bytes \<Rightarrow> bool \<Rightarrow> nat" where
  "response_length hs body is_head =
     (if is_head \<and> body = [] then
        (case Option.bind (headers_get hs ''content-length'') (\<lambda>v. parse_uint 64 (trim v)) of Some n \<Rightarrow> n | None \<Rightarrow> 0)
      else length body)"

definition build_response :: "headers \<Rightarrow> nat \<Rightarrow> headers \<Rightarrow> bytes \<Rightarrow> string \<Rightarrow> bool \<Rightarrow> bytes" where
  "build_response security status hs body meth ka =
     (let is_head = eq_ignore_ascii_case meth ''HEAD'';
          framed = status_may_have_content_length status
      in ''HTTP/1.1 '' @ show_nat status @ '' '' @ h1_status_reason status @ CRLF @
         response_lines hs @ write_h1_headers security hs @
         (if framed then ''content-length: '' @ show_nat (response_length hs body is_head) @ CRLF else []) @
         (if ka \<and> framed then ''connection: keep-alive'' else ''connection: close'') @ CRLF @ CRLF @
         (if is_head then [] else body))"

definition canned :: "string \<Rightarrow> bytes" where
  "canned line = ''HTTP/1.1 '' @ line @ CRLF @ ''Content-Length: 0'' @ CRLF @ ''Connection: close'' @ CRLF @ CRLF"

section \<open>Persistence\<close>

definition wants_keep_alive :: "raw_request \<Rightarrow> bool" where
  "wants_keep_alive req =
     (let has = (\<lambda>tok. list_ex (\<lambda>t. eq_ignore_ascii_case (trim t) tok)
            (concat (map (split_on CHR '','') (get_all (rq_headers req) ''connection''))))
      in if eq_ignore_ascii_case (rq_version req) ''HTTP/1.1'' then \<not> has ''close''
         else if eq_ignore_ascii_case (rq_version req) ''HTTP/1.0'' then has ''keep-alive''
         else False)"

definition finish_h1_response :: "nat \<Rightarrow> h1_conn \<Rightarrow> h1_conn" where
  "finish_h1_response now h =
     (let h = h\<lparr>hc_served := min (hc_served h + 1) (2 ^ 32 - 1)\<rparr> in
      if hc_keep_alive h \<and> hc_served h < MAX_REQUESTS_PER_CONN
      then h\<lparr>hc_state := Reading [], hc_created := now, hc_expect_handled := False\<rparr>
      else h\<lparr>hc_state := Done\<rparr>)"

section \<open>One pass of the loop\<close>

text \<open>What a pass ends with: \<open>continue\<close>, or \<open>break\<close> and \<open>return\<close>, which both leave the loop.\<close>

datatype next_pass = Again | Leave

type_synonym ('s, 'v) pass_result = "(next_pass \<times> h1_conn \<times> 's \<times> 'v) outcome"

definition h1_incomplete :: "'s h1_io \<Rightarrow> bytes \<Rightarrow> h1_conn \<Rightarrow> 's \<Rightarrow> next_pass \<times> h1_conn \<times> 's" where
  "h1_incomplete io buf h s =
     (if hc_expect_handled h then (Leave, h, s)
      else
        (case expectation buf of
           None \<Rightarrow> (Leave, h, s)
         | Some ExpNone \<Rightarrow> (Leave, h\<lparr>hc_expect_handled := True\<rparr>, s)
         | Some ExpContinue \<Rightarrow>
             (let (_, s) = io_write io CONTINUE_RESPONSE s; (_, s) = io_advance io s
              in (Leave, h\<lparr>hc_expect_handled := True\<rparr>, s))
         | Some ExpUnsupported \<Rightarrow>
             (Again, h\<lparr>hc_state := Writing (canned ''417 Expectation Failed'') 0, hc_expect_handled := True\<rparr>, s)))"

definition h1_complete :: "'v h1_handler \<Rightarrow> raw_request \<Rightarrow> h1_conn \<Rightarrow> 's \<Rightarrow> 'v \<Rightarrow> ('s, 'v) pass_result" where
  "h1_complete hn req h s v =
     (let req = req\<lparr>rq_headers := strip_untrusted_inbound (rq_headers req)\<rparr>;
          h = h\<lparr>hc_keep_alive := (wants_keep_alive req \<and> hc_served h + 1 < MAX_REQUESTS_PER_CONN)\<rparr>
      in bind_outcome (hn_on_request hn req (hc_client_ip h) v) (\<lambda>(out, v). Val (case out of
           Ready status hs body _ \<Rightarrow>
             (Again, h\<lparr>hc_state := Writing (build_response (hn_security hn) status hs body (rq_method req) (hc_keep_alive h)) 0\<rparr>, s, v)
         | Pending ctx \<Rightarrow> (Leave, h\<lparr>hc_state := WaitingBackend ctx\<rparr>, s, v))))"

definition h1_read_pass :: "httparse \<Rightarrow> 's h1_io \<Rightarrow> 'v h1_handler \<Rightarrow> bytes \<Rightarrow> h1_conn \<Rightarrow> 's \<Rightarrow> 'v \<Rightarrow> ('s, 'v) pass_result" where
  "h1_read_pass hp io hn buf h s v =
     (case io_read io 4096 s of
        (Inl e, s) \<Rightarrow> Val (Leave, if e = WouldBlock then h else h\<lparr>hc_state := Done\<rparr>, s, v)
      | (Inr b, s) \<Rightarrow>
          if b = [] then Val (Leave, if io_zero_read_is_eof io \<and> buf = [] then h\<lparr>hc_state := Done\<rparr> else h, s, v)
          else
            (let buf = buf @ b; h = h\<lparr>hc_state := Reading buf\<rparr> in
             if MAX_REQUEST_BYTES < length buf
             then Val (Again, h\<lparr>hc_state := Writing (canned ''413 Payload Too Large'') 0\<rparr>, s, v)
             else bind_outcome (parse_request hp buf) (\<lambda>parsed. case parsed of
                ReqIncomplete \<Rightarrow> Val (case h1_incomplete io buf h s of (n, h, s) \<Rightarrow> (n, h, s, v))
              | ReqError \<Rightarrow> Val (Again, h\<lparr>hc_state := Writing (canned ''400 Bad Request'') 0\<rparr>, s, v)
              | ReqComplete req \<Rightarrow> h1_complete hn req h s v)))"

text \<open>The reply of a URL backend, once it is there.\<close>

definition h1_answer :: "'s h1_io \<Rightarrow> 'v h1_handler \<Rightarrow> pending_ctx \<Rightarrow> string + http_response \<Rightarrow> h1_conn \<Rightarrow> 's \<Rightarrow> 'v \<Rightarrow> ('s, 'v) pass_result" where
  "h1_answer io hn ctx result h s v =
     bind_outcome (hn_on_response hn result ctx v) (\<lambda>((status, hs, body, _), v).
       let h = h\<lparr>hc_state :=
             Writing (build_response (hn_security hn) status hs body (rq_method (px_req ctx)) (hc_keep_alive h)) 0\<rparr>
       in case io_advance io s of (ok, s) \<Rightarrow>
         Val (if ok then (Again, h, s, v) else (Leave, h\<lparr>hc_state := Done\<rparr>, s, v)))"

definition h1_wait_pass :: "'s h1_io \<Rightarrow> 'v h1_handler \<Rightarrow> pending_ctx \<Rightarrow> h1_conn \<Rightarrow> 's \<Rightarrow> 'v \<Rightarrow> ('s, 'v) pass_result" where
  "h1_wait_pass io hn ctx h s v =
     (case hn_try_recv hn ctx of
        Received r \<Rightarrow> h1_answer io hn ctx r h s v
      | RecvEmpty \<Rightarrow> Val (Leave, h, s, v)
      | RecvDisconnected \<Rightarrow> h1_answer io hn ctx (Inl ''url backend thread died'') h s v)"

definition h1_write_pass :: "'s h1_io \<Rightarrow> nat \<Rightarrow> bytes \<Rightarrow> nat \<Rightarrow> h1_conn \<Rightarrow> 's \<Rightarrow> h1_conn \<times> 's" where
  "h1_write_pass io now buf pos h s =
     (let remaining = drop pos buf in
      if remaining = [] then (finish_h1_response now h, s)
      else
        (case io_write io remaining s of
           (Inl e, s) \<Rightarrow> (if e = WouldBlock then h else h\<lparr>hc_state := Done\<rparr>, s)
         | (Inr w, s) \<Rightarrow>
             if w = 0 then (h\<lparr>hc_state := Done\<rparr>, s)
             else
               (let h = h\<lparr>hc_state := Writing buf (pos + w)\<rparr>; (ok, s) = io_advance io s in
                if \<not> ok then (h\<lparr>hc_state := Done\<rparr>, s)
                else if length buf \<le> pos + w then (finish_h1_response now h, s) else (h, s))))"

definition h1_pass :: "httparse \<Rightarrow> 's h1_io \<Rightarrow> 'v h1_handler \<Rightarrow> nat \<Rightarrow> h1_conn \<Rightarrow> 's \<Rightarrow> 'v \<Rightarrow> ('s, 'v) pass_result" where
  "h1_pass hp io hn now h s v =
     (case hc_state h of
        Reading buf \<Rightarrow> h1_read_pass hp io hn buf h s v
      | WaitingBackend ctx \<Rightarrow> h1_wait_pass io hn ctx h s v
      | Writing buf pos \<Rightarrow> Val (Leave, case h1_write_pass io now buf pos h s of (h, s) \<Rightarrow> (h, s, v))
      | Done \<Rightarrow> Val (Leave, h, s, v))"


section \<open>The loop\<close>

fun h1_rank :: "h1_state \<Rightarrow> nat" where
  "h1_rank (Reading _) = 2"
| "h1_rank (WaitingBackend _) = 2"
| "h1_rank (Writing _ _) = 1"
| "h1_rank Done = 0"

text \<open>The request as the handler sees it, and the connection while it is answered.\<close>

abbreviation ingress :: "raw_request \<Rightarrow> raw_request" where
  "ingress req \<equiv> req\<lparr>rq_headers := strip_untrusted_inbound (rq_headers req)\<rparr>"

abbreviation answering :: "raw_request \<Rightarrow> h1_conn \<Rightarrow> h1_conn" where
  "answering req h \<equiv> h\<lparr>hc_keep_alive := (wants_keep_alive (ingress req) \<and> hc_served h + 1 < MAX_REQUESTS_PER_CONN)\<rparr>"

lemma h1_complete_cases:
  assumes "h1_complete hn req h s v = Val (n, h', s', v')"
  obtains (ready) status hs body name where
      "hn_on_request hn (ingress req) (hc_client_ip h) v = Val (Ready status hs body name, v')" "n = Again" "s' = s"
      "h' = (answering req h)\<lparr>hc_state :=
         Writing (build_response (hn_security hn) status hs body (rq_method req) (hc_keep_alive (answering req h))) 0\<rparr>"
  | (pending) ctx where "hn_on_request hn (ingress req) (hc_client_ip h) v = Val (Pending ctx, v')" "n = Leave" "s' = s"
      "h' = (answering req h)\<lparr>hc_state := WaitingBackend ctx\<rparr>"
proof -
  from assms obtain p where p: "hn_on_request hn (ingress req) (hc_client_ip h) v = Val p"
    by (cases "hn_on_request hn (ingress req) (hc_client_ip h) v") (auto simp: h1_complete_def Let_def)
  obtain out w where "p = (out, w)" by fastforce
  with p assms ready pending show thesis by (cases out) (auto simp: h1_complete_def Let_def)
qed

lemma h1_incomplete_cases:
  assumes "h1_incomplete io buf h s = (n, h', s')"
  obtains (more) e where "n = Leave" "h' = h\<lparr>hc_expect_handled := e\<rparr>"
  | (refuse) "n = Again" "h' = h\<lparr>hc_state := Writing (canned ''417 Expectation Failed'') 0, hc_expect_handled := True\<rparr>"
proof -
  have "h = h\<lparr>hc_expect_handled := hc_expect_handled h\<rparr>" by simp
  with assms more [of "hc_expect_handled h"] more [of True] refuse show thesis
    by (auto simp: h1_incomplete_def Let_def split: if_splits option.splits expect_kind.splits prod.splits)
qed

lemma h1_read_pass_cases:
  assumes "h1_read_pass hp io hn buf h s v = Val (n, h', s', v')" "hc_state h = Reading buf"
  obtains (same) "n = Leave" "h' = h" "v' = v"
  | (closed) "n = Leave" "h' = h\<lparr>hc_state := Done\<rparr>" "v' = v"
  | (more) b e where "n = Leave" "h' = h\<lparr>hc_state := Reading (buf @ b), hc_expect_handled := e\<rparr>" "v' = v"
      "length (buf @ b) \<le> MAX_REQUEST_BYTES"
  | (refused) line e where "n = Again" "h' = h\<lparr>hc_state := Writing (canned line) 0, hc_expect_handled := e\<rparr>" "v' = v"
  | (request) b req where "parse_request hp (buf @ b) = Val (ReqComplete req)" "length (buf @ b) \<le> MAX_REQUEST_BYTES"
      "h1_complete hn req (h\<lparr>hc_state := Reading (buf @ b)\<rparr>) s' v = Val (n, h', s', v')"
proof -
  obtain r t where r: "io_read io 4096 s = (r, t)" by fastforce
  show thesis
  proof (cases r)
    case (Inl e)
    with r assms same closed show thesis by (auto simp: h1_read_pass_def split: if_splits)
  next
    case (Inr b)
    show thesis
    proof (cases "b = [] \<or> MAX_REQUEST_BYTES < length (buf @ b)")
      case True
      with r Inr assms same closed refused [where e = "hc_expect_handled h"] show thesis
        by (auto simp: h1_read_pass_def Let_def split: if_splits)
    next
      case False
      with r Inr assms obtain parsed where parsed: "parse_request hp (buf @ b) = Val parsed"
        by (auto simp: h1_read_pass_def Let_def bind_outcome_eq_Val)
      note eq = r Inr False parsed assms(1)
      show thesis
      proof (cases parsed)
        case ReqIncomplete
        with eq have "h1_incomplete io (buf @ b) (h\<lparr>hc_state := Reading (buf @ b)\<rparr>) t = (n, h', s')" "v' = v"
          by (auto simp: h1_read_pass_def Let_def split: prod.splits)
        then show thesis
          by (cases rule: h1_incomplete_cases) (use False more refused in \<open>auto simp: not_less\<close>)
      next
        case ReqError
        with eq refused [where e = "hc_expect_handled h"] show thesis by (auto simp: h1_read_pass_def Let_def)
      next
        case (ReqComplete req)
        with eq have "h1_complete hn req (h\<lparr>hc_state := Reading (buf @ b)\<rparr>) t v = Val (n, h', s', v')"
          by (auto simp: h1_read_pass_def Let_def)
        moreover from this have "s' = t" by (cases rule: h1_complete_cases) auto
        ultimately show thesis using request eq ReqComplete False by (auto simp: not_less)
      qed
    qed
  qed
qed

lemma h1_answer_cases:
  assumes "h1_answer io hn ctx r h s v = Val (n, h', s', v')"
  obtains (closed) resp where "n = Leave" "h' = h\<lparr>hc_state := Done\<rparr>" "hn_on_response hn r ctx v = Val (resp, v')"
  | (answer) status hs body name where "n = Again" "hn_on_response hn r ctx v = Val ((status, hs, body, name), v')"
      "h' = h\<lparr>hc_state :=
         Writing (build_response (hn_security hn) status hs body (rq_method (px_req ctx)) (hc_keep_alive h)) 0\<rparr>"
proof -
  from assms obtain p where p: "hn_on_response hn r ctx v = Val p"
    by (cases "hn_on_response hn r ctx v") (auto simp: h1_answer_def)
  obtain status hs body name w where "p = ((status, hs, body, name), w)" by (metis surj_pair)
  moreover obtain ok t where "io_advance io s = (ok, t)" by fastforce
  ultimately show thesis using p assms closed answer by (cases ok) (auto simp: h1_answer_def Let_def)
qed

lemma h1_wait_pass_cases:
  assumes "h1_wait_pass io hn ctx h s v = Val (n, h', s', v')"
  obtains (same) "n = Leave" "h' = h" "v' = v"
  | (reply) r where "h1_answer io hn ctx r h s v = Val (n, h', s', v')"
  using assms same reply by (cases "hn_try_recv hn ctx") (auto simp: h1_wait_pass_def)

lemma h1_pass_again:
  assumes "h1_pass hp io hn now h s v = Val (Again, h', s', v')"
  obtains out where "hc_state h' = Writing out 0" "h1_rank (hc_state h) = 2"
proof (cases "hc_state h")
  case (Reading buf)
  with assms have "h1_read_pass hp io hn buf h s v = Val (Again, h', s', v')" by (simp add: h1_pass_def)
  then show thesis using Reading
    by (cases rule: h1_read_pass_cases) (use that Reading in \<open>auto elim: h1_complete_cases\<close>)
next
  case (WaitingBackend ctx)
  with assms have "h1_wait_pass io hn ctx h s v = Val (Again, h', s', v')" by (simp add: h1_pass_def)
  then show thesis
    by (cases rule: h1_wait_pass_cases) (use that WaitingBackend in \<open>auto elim!: h1_answer_cases\<close>)
qed (use assms in \<open>auto simp: h1_pass_def\<close>)

text \<open>A pass that goes on leaves a response to write, and writing is the last pass.\<close>

function h1_loop :: "httparse \<Rightarrow> 's h1_io \<Rightarrow> 'v h1_handler \<Rightarrow> nat \<Rightarrow> h1_conn \<Rightarrow> 's \<Rightarrow> 'v \<Rightarrow> (h1_conn \<times> 's \<times> 'v) outcome" where
  "h1_loop hp io hn now h s v =
     (case h1_pass hp io hn now h s v of
        Panic \<Rightarrow> Panic
      | Val (Leave, h', s', v') \<Rightarrow> Val (h', s', v')
      | Val (Again, h', s', v') \<Rightarrow> h1_loop hp io hn now h' s' v')"
  by pat_completeness auto
termination
  by (relation "measure (\<lambda>(hp, io, hn, now, h, s, v). h1_rank (hc_state h))") (auto elim: h1_pass_again)

declare h1_loop.simps [simp del]

definition drive_h1 :: "httparse \<Rightarrow> 's h1_io \<Rightarrow> 'v h1_handler \<Rightarrow> nat \<Rightarrow> nat \<Rightarrow> h1_conn \<Rightarrow> 's \<Rightarrow> 'v \<Rightarrow> (h1_conn \<times> 's \<times> 'v) outcome" where
  "drive_h1 hp io hn now done_at h s v =
     (if READ_TIMEOUT_SECS < as_secs (now - hc_created h) then Val (h\<lparr>hc_state := Done\<rparr>, s, v)
      else h1_loop hp io hn done_at h s v)"

end
