(* ===== verification/H1_Serving.thy ===== *)
theory H1_Serving
  imports H1_Listener
begin

text \<open>
  What the HTTP/1.1 connections of \<open>H1_Listener\<close> guarantee: bounds that hold in every state a
  connection reaches, the answer to a request however it is cut into segments, the order of the
  answers on a persistent connection, and the delivery of a response through partial writes.
\<close>

section \<open>A connection under an arbitrary peer\<close>

text \<open>The handler that also notes what \<open>on_request\<close> is called with.\<close>

definition logged :: "'v h1_handler \<Rightarrow> ('v \<times> (raw_request \<times> string) list) h1_handler" where
  "logged hn =
     \<lparr>hn_on_request = (\<lambda>req ip (v, log). bind_outcome (hn_on_request hn req ip v) (\<lambda>(out, v). Val (out, v, log @ [(req, ip)]))),
      hn_on_response = (\<lambda>r ctx (v, log). bind_outcome (hn_on_response hn r ctx v) (\<lambda>(resp, v). Val (resp, v, log))),
      hn_try_recv = hn_try_recv hn, hn_security = hn_security hn\<rparr>"

text \<open>A write takes no more than it is given.\<close>

definition write_contract :: "'s h1_io \<Rightarrow> bool" where
  "write_contract io \<longleftrightarrow> (\<forall>b s. case io_write io b s of (Inr n, _) \<Rightarrow> n \<le> length b | _ \<Rightarrow> True)"

lemma write_contractD: "write_contract io \<Longrightarrow> io_write io b s = (Inr n, s') \<Longrightarrow> n \<le> length b"
  by (fastforce simp: write_contract_def split: prod.splits sum.splits dest: spec [of _ b] spec [of _ s])

lemma plain_io_contract: "write_contract plain_io"
  by (auto simp: write_contract_def plain_io_def socket_write_def split: list.splits sum.splits)

inductive h1_step :: "httparse \<Rightarrow> 's h1_io \<Rightarrow> 'v h1_handler \<Rightarrow> h1_conn \<times> 's \<times> 'v \<Rightarrow> h1_conn \<times> 's \<times> 'v \<Rightarrow> bool"
  for hp :: httparse and io :: "'s h1_io" and hn :: "'v h1_handler" where
  driven: "write_contract io \<Longrightarrow> drive_h1 hp io hn now done_at h s v = Val (h', s', v') \<Longrightarrow> h1_step hp io hn (h, s, v) (h', s', v')"
| peer: "h1_step hp io hn (h, s, v) (h, s', v)"

definition h1_init :: "h1_conn \<times> 's \<times> 'v \<times> (raw_request \<times> string) list \<Rightarrow> bool" where
  "h1_init x \<longleftrightarrow> (case x of (h, s, v, log) \<Rightarrow> (\<exists>ip t. h = h1_new ip t) \<and> log = [])"

text \<open>A request that was parsed off the connection and had the fields of the proxy taken out.\<close>

definition ingress_request :: "httparse \<Rightarrow> raw_request \<Rightarrow> bool" where
  "ingress_request hp r \<longleftrightarrow>
     (\<exists>buf r0. length buf \<le> MAX_REQUEST_BYTES \<and> parse_request hp buf = Val (ReqComplete r0) \<and>
        r = r0\<lparr>rq_headers := strip_untrusted_inbound (rq_headers r0)\<rparr>)"

definition in_progress :: "h1_state \<Rightarrow> nat" where
  "in_progress st = (case st of Writing _ _ \<Rightarrow> 1 | WaitingBackend _ \<Rightarrow> 1 | _ \<Rightarrow> 0)"

definition h1_state_ok :: "h1_conn \<Rightarrow> bool" where
  "h1_state_ok h \<longleftrightarrow>
     (case hc_state h of
        Reading buf \<Rightarrow> length buf \<le> MAX_REQUEST_BYTES \<and> hc_served h < MAX_REQUESTS_PER_CONN
      | WaitingBackend _ \<Rightarrow> hc_served h < MAX_REQUESTS_PER_CONN
      | Writing buf pos \<Rightarrow> pos \<le> length buf \<and> hc_served h < MAX_REQUESTS_PER_CONN
      | Done \<Rightarrow> hc_served h \<le> MAX_REQUESTS_PER_CONN)"

definition h1_inv :: "httparse \<Rightarrow> h1_conn \<times> 's \<times> 'v \<times> (raw_request \<times> string) list \<Rightarrow> bool" where
  "h1_inv hp x \<longleftrightarrow> (case x of (h, s, v, log) \<Rightarrow>
     h1_state_ok h \<and> (\<forall>(r, ip) \<in> set log. ip = hc_client_ip h \<and> ingress_request hp r) \<and>
     length log \<le> hc_served h + (if hc_state h = Done then 1 else in_progress (hc_state h)) \<and> length log \<le> MAX_REQUESTS_PER_CONN)"


lemma logged_on_request:
  "hn_on_request (logged hn) r ip (v, log) = Val (out, v', log') \<Longrightarrow> log' = log @ [(r, ip)]"
  by (auto simp: logged_def bind_outcome_eq_Val)

lemma logged_on_response:
  "hn_on_response (logged hn) r ctx (v, log) = Val (resp, v', log') \<Longrightarrow> log' = log"
  by (auto simp: logged_def bind_outcome_eq_Val)

lemmas h1_inv_defs = h1_inv_def h1_state_ok_def in_progress_def MAX_REQUESTS_PER_CONN_def

lemma finish_h1_inv:
  assumes "h1_inv hp (h, s, v, log)" "hc_state h = Writing buf pos"
  shows "h1_inv hp (finish_h1_response now h, s', v, log)"
  using assms by (auto simp: h1_inv_defs finish_h1_response_def Let_def MAX_REQUEST_BYTES_def)

lemma h1_write_pass_inv:
  assumes "write_contract io" "h1_inv hp (h, s, v, log)" "hc_state h = Writing buf pos"
    and "h1_write_pass io now buf pos h s = (h', s')"
  shows "h1_inv hp (h', s', v, log)"
proof -
  have upd: "h1_inv hp (h\<lparr>hc_state := Writing buf q\<rparr>, t, v, log)" if "q \<le> length buf" for q t
    using assms(2,3) that by (auto simp: h1_inv_defs)
  have dead: "h1_inv hp (h\<lparr>hc_state := Done\<rparr>, t, v, log)" for t
    using assms(2,3) by (auto simp: h1_inv_defs)
  have same: "h1_inv hp (h, t, v, log)" for t
    using assms(2) by (auto simp: h1_inv_defs)
  have pos: "pos \<le> length buf" using assms(2,3) by (auto simp: h1_inv_defs)
  obtain r t where r: "io_write io (drop pos buf) s = (r, t)" by fastforce
  show ?thesis
  proof (cases r)
    case (Inl e)
    with r assms(4) same dead finish_h1_inv [OF assms(2,3)] show ?thesis
      by (auto simp: h1_write_pass_def Let_def split: if_splits)
  next
    case (Inr w)
    obtain ok t' where ok: "io_advance io t = (ok, t')" by fastforce
    have "w \<le> length (drop pos buf)" using write_contractD [OF assms(1)] r Inr by blast
    then have "pos + w \<le> length buf" using pos by simp
    from upd [OF this] have written: "h1_inv hp (h\<lparr>hc_state := Writing buf (pos + w)\<rparr>, t'', v, log)" for t'' .
    then have "h1_inv hp (finish_h1_response now (h\<lparr>hc_state := Writing buf (pos + w)\<rparr>), t'', v, log)" for t''
      by (rule finish_h1_inv) simp
    with r Inr ok written assms(4) dead finish_h1_inv [OF assms(2,3)] show ?thesis
      by (auto simp: h1_write_pass_def Let_def split: if_splits)
  qed
qed

lemma h1_complete_inv:
  assumes "h1_inv hp (h, s, v, log)" "hc_state h = Reading buf" "length got \<le> MAX_REQUEST_BYTES"
    and "parse_request hp got = Val (ReqComplete req)"
    and "h1_complete (logged hn) req (h\<lparr>hc_state := Reading got\<rparr>) s (v, log) = Val (n, h', s', v', log')"
  shows "h1_inv hp (h', s', v', log')"
proof -
  have "ingress_request hp (ingress req)" using assms(3,4) by (auto simp: ingress_request_def)
  from assms(5) show ?thesis
  proof (cases rule: h1_complete_cases)
    case (ready status hs body name)
    from logged_on_request [OF ready(1)] show ?thesis
      using assms(1,2) ready(4) \<open>ingress_request _ _\<close> by (auto simp: h1_inv_defs)
  next
    case (pending ctx)
    from logged_on_request [OF pending(1)] show ?thesis
      using assms(1,2) pending(4) \<open>ingress_request _ _\<close> by (auto simp: h1_inv_defs)
  qed
qed

lemma h1_pass_inv:
  assumes "write_contract io" "h1_inv hp (h, s, v, log)"
    and "h1_pass hp io (logged hn) now h s (v, log) = Val (n, h', s', v', log')"
  shows "h1_inv hp (h', s', v', log')"
proof (cases "hc_state h")
  case (Reading buf)
  with assms(3) have "h1_read_pass hp io (logged hn) buf h s (v, log) = Val (n, h', s', v', log')" by (simp add: h1_pass_def)
  then show ?thesis using Reading
  proof (cases rule: h1_read_pass_cases)
    case (request b req)
    have "h1_inv hp (h, s', v, log)" using assms(2) by (simp add: h1_inv_def)
    from h1_complete_inv [OF this Reading request(2,1,3)] show ?thesis .
  qed (use assms(2) Reading in \<open>auto simp: h1_inv_defs\<close>)
next
  case (WaitingBackend ctx)
  with assms(3) have "h1_wait_pass io (logged hn) ctx h s (v, log) = Val (n, h', s', v', log')" by (simp add: h1_pass_def)
  then show ?thesis
  proof (cases rule: h1_wait_pass_cases)
    case same
    then show ?thesis using assms(2) by (simp add: h1_inv_defs)
  next
    case (reply r)
    then show ?thesis
      by (cases rule: h1_answer_cases)
        (use assms(2) WaitingBackend in \<open>auto simp: h1_inv_defs dest!: logged_on_response\<close>)
  qed
next
  case (Writing buf pos)
  then show ?thesis using assms h1_write_pass_inv [OF assms(1,2) Writing]
    by (auto simp: h1_pass_def split: prod.splits)
next
  case Done
  then show ?thesis using assms by (auto simp: h1_pass_def h1_inv_defs)
qed

text \<open>The loop is one pass, or a pass that leaves a response and the pass that writes it.\<close>

lemma h1_loop_cases:
  assumes "h1_loop hp io hn now h s v = Val (h', s', v')"
  obtains (one) "h1_pass hp io hn now h s v = Val (Leave, h', s', v')"
  | (two) h'' s'' v'' out where "h1_pass hp io hn now h s v = Val (Again, h'', s'', v'')" "hc_state h'' = Writing out 0"
      "h1_pass hp io hn now h'' s'' v'' = Val (Leave, h', s', v')"
proof -
  from assms obtain n h1 s1 v1 where p: "h1_pass hp io hn now h s v = Val (n, h1, s1, v1)"
    by (subst (asm) h1_loop.simps) (auto split: outcome.splits prod.splits)
  show thesis
  proof (cases n)
    case Leave
    with p assms one show thesis by (simp add: h1_loop.simps [of hp io hn now h])
  next
    case Again
    with p obtain out where out: "hc_state h1 = Writing out 0" by (metis h1_pass_again)
    from assms p Again have "h1_loop hp io hn now h1 s1 v1 = Val (h', s', v')"
      by (subst (asm) h1_loop.simps) simp
    with out have "h1_pass hp io hn now h1 s1 v1 = Val (Leave, h', s', v')"
      by (subst (asm) h1_loop.simps) (auto simp: h1_pass_def split: prod.splits)
    with p Again out two show thesis by blast
  qed
qed


lemma drive_h1_inv:
  assumes "write_contract io" "h1_inv hp (h, s, v, log)"
    and "drive_h1 hp io (logged hn) now done_at h s (v, log) = Val (h', s', v', log')"
  shows "h1_inv hp (h', s', v', log')"
proof (cases "READ_TIMEOUT_SECS < as_secs (now - hc_created h)")
  case True
  with assms show ?thesis
    by (cases "hc_state h") (auto simp: drive_h1_def h1_inv_defs)
next
  case False
  with assms(3) have "h1_loop hp io (logged hn) done_at h s (v, log) = Val (h', s', v', log')" by (simp add: drive_h1_def)
  then show ?thesis
  proof (cases rule: h1_loop_cases)
    case one
    with h1_pass_inv assms(1,2) show ?thesis .
  next
    case (two h'' s'' v'' out)
    obtain w l where "v'' = (w, l)" by fastforce
    with two h1_pass_inv assms(1,2) show ?thesis by metis
  qed
qed

interpretation h1: step_invariant h1_init "h1_step hp io (logged hn)" "h1_inv hp"
proof
  show "h1_inv hp x" if "h1_init x" for x
    using that by (auto simp: h1_init_def h1_inv_defs h1_new_def)
  show "h1_inv hp y" if "h1_inv hp x" "h1_step hp io (logged hn) x y" for x y
    using that(2)
  proof cases
    case (driven now done_at h s v h' s' v')
    then show ?thesis using drive_h1_inv that(1) by (metis surj_pair)
  next
    case (peer h s v s')
    then show ?thesis using that(1) by (simp add: h1_inv_def)
  qed
qed

text \<open>C24. An HTTP/1.1 connection driven over any transport whose writes take no more than they are
  given, with any handler, any clock and any behaviour of the peer between two drives: it never
  buffers more than 20 MiB of a request, never writes past the end of a response, hands the
  handler at most 100 requests, and each of these is a request the parser accepted from at most
  20 MiB, without the fields a client may not set, and attributed to the address the connection
  was accepted from.\<close>

theorem h1_connection_bounded:
  assumes "reachable h1_init (h1_step hp io (logged hn)) (h, s, v, log)"
  shows "(case hc_state h of Reading buf \<Rightarrow> length buf \<le> 20 * 1024 * 1024 | Writing buf pos \<Rightarrow> pos \<le> length buf | _ \<Rightarrow> True) \<and>
    hc_served h \<le> 100 \<and> length log \<le> 100 \<and>
    (\<forall>(r, ip) \<in> set log. ip = hc_client_ip h \<and> list_all (\<lambda>(n, _). \<not> is_untrusted_inbound n) (rq_headers r) \<and>
      (\<exists>buf r0. length buf \<le> 20 * 1024 * 1024 \<and> parse_request hp buf = Val (ReqComplete r0) \<and>
         r = r0\<lparr>rq_headers := strip_untrusted_inbound (rq_headers r0)\<rparr>))" (is "?st \<and> ?served \<and> ?calls \<and> ?ok")
proof -
  have inv: "h1_inv hp (h, s, v, log)" using h1.inv_reachable [OF assms] .
  then have st: ?st by (auto simp: h1_inv_defs MAX_REQUEST_BYTES_def split: h1_state.splits)
  from inv have calls: ?served ?calls by (auto simp: h1_inv_defs split: h1_state.splits)
  from inv have ?ok
    by (fastforce simp: h1_inv_def ingress_request_def MAX_REQUEST_BYTES_def strip_untrusted_inbound_def list_all_iff)
  with st calls show ?thesis by blast
qed


section \<open>Serving requests in order\<close>

fun h1_drives :: "httparse \<Rightarrow> 's h1_io \<Rightarrow> 'v h1_handler \<Rightarrow> (nat \<times> nat) list \<Rightarrow> h1_conn \<Rightarrow> 's \<Rightarrow> 'v \<Rightarrow>
    (h1_conn \<times> 's \<times> 'v) outcome" where
  "h1_drives hp io hn [] h s v = Val (h, s, v)"
| "h1_drives hp io hn ((now, done_at) # ts) h s v =
     bind_outcome (drive_h1 hp io hn now done_at h s v) (\<lambda>(h, s, v). h1_drives hp io hn ts h s v)"

lemma h1_drives_append:
  "h1_drives hp io hn (ts @ us) h s v = bind_outcome (h1_drives hp io hn ts h s v) (\<lambda>(h, s, v). h1_drives hp io hn us h s v)"
proof (induction ts arbitrary: h s v)
  case (Cons t ts)
  obtain now done_at where "t = (now, done_at)" by fastforce
  then show ?case using Cons by (cases "drive_h1 hp io hn now done_at h s v") auto
qed simp

lemma h1_drives_done: "hc_state h = Done \<Longrightarrow> h1_drives hp io hn ts h s v = Val (h, s, v)"
proof (induction ts)
  case (Cons t ts)
  obtain now done_at where t: "t = (now, done_at)" by fastforce
  have "h\<lparr>hc_state := Done\<rparr> = h" using Cons.prems by (cases h) auto
  then have "drive_h1 hp io hn now done_at h s v = Val (h, s, v)" using Cons.prems
    by (subst drive_h1_def) (simp add: h1_loop.simps [of hp io hn done_at h] h1_pass_def)
  with t Cons show ?case by simp
qed simp

text \<open>The reference: the requests one after the other, each one answered in full, with the interim
  response to an \<open>Expect\<close> whose head arrived before the rest, until a request ends the
  connection.\<close>

fun interim :: "bool \<Rightarrow> bytes \<Rightarrow> bytes list \<Rightarrow> bytes" where
  "interim handled buf (b # b' # bs) =
     (if handled then []
      else (case expectation (buf @ b) of
          None \<Rightarrow> interim False (buf @ b) (b' # bs)
        | Some ExpContinue \<Rightarrow> CONTINUE_RESPONSE
        | Some _ \<Rightarrow> []))"
| "interim handled buf _ = []"

fun answers :: "httparse \<Rightarrow> 'v h1_handler \<Rightarrow> string \<Rightarrow> nat \<Rightarrow> bytes list list \<Rightarrow> 'v \<Rightarrow> (bytes \<times> 'v) option" where
  "answers hp hn ip served [] v = Some ([], v)"
| "answers hp hn ip served (segs # rest) v =
     (case parse_request hp (concat segs) of
        Val (ReqComplete req) \<Rightarrow>
          (case hn_on_request hn (ingress req) ip v of
             Val (Ready status hs body _, v) \<Rightarrow>
               (let ka = (wants_keep_alive (ingress req) \<and> served + 1 < MAX_REQUESTS_PER_CONN);
                    out = interim False [] segs @ build_response (hn_security hn) status hs body (rq_method req) ka
                in if ka then map_option (\<lambda>(more, v). (out @ more, v)) (answers hp hn ip (served + 1) rest v)
                   else Some (out, v))
           | _ \<Rightarrow> None)
      | _ \<Rightarrow> None)"

text \<open>A request cut into segments: each of them one read, and no proper part of them a request
  already, an error or an expectation that is refused.\<close>

definition well_cut :: "httparse \<Rightarrow> bytes \<Rightarrow> bytes list \<Rightarrow> bool" where
  "well_cut hp buf segs \<longleftrightarrow> segs \<noteq> [] \<and> list_all (\<lambda>b. b \<noteq> [] \<and> length b \<le> 4096) segs \<and>
     length (buf @ concat segs) \<le> MAX_REQUEST_BYTES \<and>
     list_all (\<lambda>k. parse_request hp (buf @ concat (take k segs)) = Val ReqIncomplete \<and>
        expectation (buf @ concat (take k segs)) \<noteq> Some ExpUnsupported) [1..<length segs]"

fun in_time :: "nat \<Rightarrow> (nat \<times> nat) list list \<Rightarrow> bool" where
  "in_time created [] = True"
| "in_time created (ts # rest) \<longleftrightarrow>
     list_all (\<lambda>(now, _). as_secs (now - created) \<le> READ_TIMEOUT_SECS) ts \<and> in_time (snd (last ts)) rest"

lemma well_cut_Cons:
  "well_cut hp buf (b # b' # bs) \<longleftrightarrow> b \<noteq> [] \<and> length b \<le> 4096 \<and> length (buf @ b) \<le> MAX_REQUEST_BYTES \<and>
     parse_request hp (buf @ b) = Val ReqIncomplete \<and> expectation (buf @ b) \<noteq> Some ExpUnsupported \<and>
     well_cut hp (buf @ b) (b' # bs)"
proof -
  have "[1..<length (b # b' # bs)] = 1 # map Suc [1..<length (b' # bs)]"
    by (simp add: map_Suc_upt upt_conv_Cons del: upt_Suc)
  moreover have "list_all P (map Suc ks) = list_all (\<lambda>k. P (Suc k)) ks" for P and ks :: "nat list"
    by (simp add: list_all_iff)
  ultimately show ?thesis by (auto simp: well_cut_def simp del: upt_Suc)
qed

text \<open>One drive on a socket with a segment ready.\<close>

lemma plain_io_simps [simp]:
  "io_read plain_io = socket_read" "io_write plain_io = socket_write" "io_advance plain_io s = (True, s)"
  "io_zero_read_is_eof plain_io"
  by (simp_all add: plain_io_def)

lemma socket_read_segment:
  "so_in s = RData b # es \<Longrightarrow> length b \<le> m \<Longrightarrow> socket_read m s = (Inr b, s\<lparr>so_in := es\<rparr>)"
  by (simp add: socket_read_def)

lemma socket_write_free: "so_room s = [] \<Longrightarrow> socket_write b s = (Inr (length b), s\<lparr>so_out := so_out s @ b\<rparr>)"
  by (simp add: socket_write_def)

lemma build_response_nonempty [simp]: "build_response sec status hs body meth ka \<noteq> []"
  by (simp add: build_response_def Let_def)

lemma drive_more:
  assumes "hc_state h = Reading buf" "so_in s = RData b # es" "b \<noteq> []" "length b \<le> 4096" "length (buf @ b) \<le> MAX_REQUEST_BYTES"
    and "parse_request hp (buf @ b) = Val ReqIncomplete" "expectation (buf @ b) \<noteq> Some ExpUnsupported"
    and "so_room s = []" "as_secs (now - hc_created h) \<le> READ_TIMEOUT_SECS"
  shows "drive_h1 hp plain_io hn now done_at h s v =
    Val (h\<lparr>hc_state := Reading (buf @ b), hc_expect_handled := (hc_expect_handled h \<or> expectation (buf @ b) \<noteq> None)\<rparr>,
         s\<lparr>so_in := es, so_out := so_out s @
           (if \<not> hc_expect_handled h \<and> expectation (buf @ b) = Some ExpContinue then CONTINUE_RESPONSE else [])\<rparr>, v)"
proof -
  have same: "s\<lparr>so_in := es, so_out := so_out s\<rparr> = s\<lparr>so_in := es\<rparr>" for s :: socket by simp
  have "h1_incomplete plain_io (buf @ b) (h\<lparr>hc_state := Reading (buf @ b)\<rparr>) (s\<lparr>so_in := es\<rparr>) =
    (Leave, h\<lparr>hc_state := Reading (buf @ b), hc_expect_handled := (hc_expect_handled h \<or> expectation (buf @ b) \<noteq> None)\<rparr>,
         s\<lparr>so_in := es, so_out := so_out s @
           (if \<not> hc_expect_handled h \<and> expectation (buf @ b) = Some ExpContinue then CONTINUE_RESPONSE else [])\<rparr>)"
    using assms(7,8)
    by (auto simp: h1_incomplete_def Let_def socket_write_free split: option.splits expect_kind.splits)
  then show ?thesis using assms
    by (simp add: drive_h1_def h1_loop.simps [of hp plain_io hn done_at h] h1_pass_def h1_read_pass_def
        socket_read_segment Let_def)
qed

abbreviation keeps :: "raw_request \<Rightarrow> nat \<Rightarrow> bool" where
  "keeps req served \<equiv> wants_keep_alive (ingress req) \<and> served + 1 < MAX_REQUESTS_PER_CONN"

abbreviation reply :: "'v h1_handler \<Rightarrow> raw_request \<Rightarrow> nat \<Rightarrow> headers \<Rightarrow> bytes \<Rightarrow> nat \<Rightarrow> bytes" where
  "reply hn req status hs body served \<equiv> build_response (hn_security hn) status hs body (rq_method req) (keeps req served)"

abbreviation written :: "nat \<Rightarrow> raw_request \<Rightarrow> bytes \<Rightarrow> bool \<Rightarrow> h1_conn \<Rightarrow> h1_conn" where
  "written now req out e h \<equiv> finish_h1_response now
     (h\<lparr>hc_keep_alive := keeps req (hc_served h), hc_state := Writing out (length out), hc_expect_handled := e\<rparr>)"

lemma drive_answer:
  assumes "hc_state h = Reading buf" "so_in s = RData b # es" "b \<noteq> []" "length b \<le> 4096" "length (buf @ b) \<le> MAX_REQUEST_BYTES"
    and "parse_request hp (buf @ b) = Val (ReqComplete req)" "so_room s = []"
    and "as_secs (now - hc_created h) \<le> READ_TIMEOUT_SECS"
    and "hn_on_request hn (ingress req) (hc_client_ip h) v = Val (Ready status hs body nm, v')"
  defines "out \<equiv> reply hn req status hs body (hc_served h)"
  shows "drive_h1 hp plain_io hn now done_at h s v =
    Val (written done_at req out (hc_expect_handled h) h, s\<lparr>so_in := es, so_out := so_out s @ out\<rparr>, v')"
proof -
  have out: "out \<noteq> []" by (simp add: out_def)
  let ?h = "h\<lparr>hc_keep_alive := keeps req (hc_served h), hc_state := Writing out 0\<rparr>"
  have "h1_pass hp plain_io hn done_at h s v = Val (Again, ?h, s\<lparr>so_in := es\<rparr>, v')"
    using assms(1-9) by (simp add: h1_pass_def h1_read_pass_def socket_read_segment h1_complete_def Let_def out_def)
  moreover have "h1_pass hp plain_io hn done_at ?h (s\<lparr>so_in := es\<rparr>) v' =
    Val (Leave, written done_at req out (hc_expect_handled h) h, s\<lparr>so_in := es, so_out := so_out s @ out\<rparr>, v')"
    using assms(7) out by (simp add: h1_pass_def h1_write_pass_def socket_write_free Let_def)
  ultimately show ?thesis using assms(8)
    by (simp add: drive_h1_def h1_loop.simps [of hp plain_io hn done_at])
qed

lemma interim_handled [simp]: "interim True buf segs = []"
  by (induction True buf segs rule: interim.induct) auto

text \<open>All the segments of one request.\<close>

lemma drives_request:
  assumes "hc_state h = Reading buf" "so_in s = map RData segs @ es" "so_room s = []" "well_cut hp buf segs"
    and "length ts = length segs" "list_all (\<lambda>(now, _). as_secs (now - hc_created h) \<le> READ_TIMEOUT_SECS) ts"
    and "parse_request hp (buf @ concat segs) = Val (ReqComplete req)"
    and "hn_on_request hn (ingress req) (hc_client_ip h) v = Val (Ready status hs body nm, v')"
  shows "\<exists>e. h1_drives hp plain_io hn ts h s v =
    Val (written (snd (last ts)) req (reply hn req status hs body (hc_served h)) e h,
         s\<lparr>so_in := es, so_out := so_out s @ interim (hc_expect_handled h) buf segs @
            reply hn req status hs body (hc_served h)\<rparr>, v')"
  using assms
proof (induction segs arbitrary: buf h s ts)
  case Nil
  then show ?case by (simp add: well_cut_def)
next
  case (Cons b segs)
  from Cons.prems(5) obtain now done_at us where ts: "ts = (now, done_at) # us" and us: "length us = length segs"
    by (cases ts) auto
  have in_time: "as_secs (now - hc_created h) \<le> READ_TIMEOUT_SECS" using Cons.prems(6) ts by simp
  show ?case
  proof (cases segs)
    case Nil
    then have cut: "b \<noteq> []" "length b \<le> 4096" "length (buf @ b) \<le> MAX_REQUEST_BYTES" "us = []"
      using Cons.prems(4) us by (auto simp: well_cut_def)
    have "drive_h1 hp plain_io hn now done_at h s v =
      Val (written done_at req (reply hn req status hs body (hc_served h)) (hc_expect_handled h) h,
        s\<lparr>so_in := es, so_out := so_out s @ reply hn req status hs body (hc_served h)\<rparr>, v')"
      by (rule drive_answer) (use Cons.prems Nil cut in_time in auto)
    then show ?thesis using ts cut Nil by (intro exI [of _ "hc_expect_handled h"]) simp
  next
    case segs: (Cons b' bs)
    have cut: "b \<noteq> []" "length b \<le> 4096" "length (buf @ b) \<le> MAX_REQUEST_BYTES"
      "parse_request hp (buf @ b) = Val ReqIncomplete" "expectation (buf @ b) \<noteq> Some ExpUnsupported"
      "well_cut hp (buf @ b) segs"
      using Cons.prems(4) segs by (simp_all add: well_cut_Cons)
    let ?h = "h\<lparr>hc_state := Reading (buf @ b), hc_expect_handled := (hc_expect_handled h \<or> expectation (buf @ b) \<noteq> None)\<rparr>"
    let ?now = "if \<not> hc_expect_handled h \<and> expectation (buf @ b) = Some ExpContinue then CONTINUE_RESPONSE else []"
    let ?s = "s\<lparr>so_in := map RData segs @ es, so_out := so_out s @ ?now\<rparr>"
    have drive: "drive_h1 hp plain_io hn now done_at h s v = Val (?h, ?s, v)"
      using Cons.prems cut in_time by (intro drive_more) auto
    obtain e where "h1_drives hp plain_io hn us ?h ?s v =
      Val (written (snd (last us)) req (reply hn req status hs body (hc_served ?h)) e ?h,
         ?s\<lparr>so_in := es, so_out := so_out ?s @ interim (hc_expect_handled ?h) (buf @ b) segs @
            reply hn req status hs body (hc_served ?h)\<rparr>, v')"
      using Cons.IH [of ?h "buf @ b" ?s us] Cons.prems cut ts us by auto
    moreover have "interim (hc_expect_handled h) buf (b # segs) = ?now @ interim (hc_expect_handled ?h) (buf @ b) segs"
      using segs cut(5) by (auto split: option.splits expect_kind.splits)
    moreover have "last ts = last us" using ts us segs by auto
    ultimately show ?thesis using ts drive by (intro exI [of _ e]) simp
  qed
qed


lemma drives_in_order:
  assumes "hc_state h = Reading []" "\<not> hc_expect_handled h" "so_in s = concat (map (map RData) reqs) @ es" "so_room s = []"
    and "list_all (well_cut hp []) reqs" "map length tss = map length reqs" "in_time (hc_created h) tss"
    and "hc_served h < MAX_REQUESTS_PER_CONN"
    and "answers hp hn (hc_client_ip h) (hc_served h) reqs v = Some (out, v')"
  shows "\<exists>h' s'. h1_drives hp plain_io hn (concat tss) h s v = Val (h', s', v') \<and> so_out s' = so_out s @ out"
  using assms
proof (induction reqs arbitrary: h s tss v out)
  case (Cons segs reqs)
  from Cons.prems(6) obtain ts tss' where tss: "tss = ts # tss'" "length ts = length segs" "map length tss' = map length reqs"
    by (cases tss) auto
  from Cons.prems(9) obtain req where req: "parse_request hp (concat segs) = Val (ReqComplete req)"
    by (auto split: outcome.splits parse_result.splits)
  with Cons.prems(9) obtain status hs body nm w
    where w: "hn_on_request hn (ingress req) (hc_client_ip h) v = Val (Ready status hs body nm, w)"
    by (auto split: outcome.splits prod.splits proxy_outcome.splits)
  let ?first = "interim False [] segs @ reply hn req status hs body (hc_served h)"
  let ?s = "s\<lparr>so_in := concat (map (map RData) reqs) @ es, so_out := so_out s @ ?first\<rparr>"
  have "\<exists>e. h1_drives hp plain_io hn ts h s v =
      Val (written (snd (last ts)) req (reply hn req status hs body (hc_served h)) e h,
        s\<lparr>so_in := concat (map (map RData) reqs) @ es, so_out := so_out s @ interim (hc_expect_handled h) [] segs @
            reply hn req status hs body (hc_served h)\<rparr>, w)"
    by (rule drives_request) (use Cons.prems tss req w in auto)
  then obtain e where first: "h1_drives hp plain_io hn ts h s v =
      Val (written (snd (last ts)) req (reply hn req status hs body (hc_served h)) e h, ?s, w)"
    using Cons.prems(2) by auto
  let ?h = "written (snd (last ts)) req (reply hn req status hs body (hc_served h)) e h"
  show ?case
  proof (cases "keeps req (hc_served h)")
    case True
    then have h: "hc_state ?h = Reading []" "\<not> hc_expect_handled ?h" "hc_created ?h = snd (last ts)"
      "hc_served ?h = hc_served h + 1" "hc_client_ip ?h = hc_client_ip h"
      by (auto simp: finish_h1_response_def Let_def MAX_REQUESTS_PER_CONN_def)
    from True Cons.prems(9) req w obtain more
      where more: "answers hp hn (hc_client_ip h) (hc_served h + 1) reqs w = Some (more, v')" "out = ?first @ more"
      by (auto simp: Let_def split: prod.splits)
    from Cons.IH [of ?h ?s tss' w more] Cons.prems h True tss more
    obtain h' s' where "h1_drives hp plain_io hn (concat tss') ?h ?s w = Val (h', s', v')" "so_out s' = so_out ?s @ more"
      by auto
    then show ?thesis using first tss(1) more(2) by (simp add: h1_drives_append)
  next
    case False
    then have "hc_state ?h = Done" by (auto simp: finish_h1_response_def Let_def)
    moreover from False Cons.prems(9) req w have "out = ?first" "w = v'"
      by (auto simp: Let_def)
    ultimately show ?thesis using first tss(1) by (simp add: h1_drives_append h1_drives_done)
  qed
qed simp



section \<open>Delivery through partial writes\<close>

definition room_of :: "io_error + nat \<Rightarrow> nat" where
  "room_of r = (case r of Inr n \<Rightarrow> n | Inl _ \<Rightarrow> 0)"

definition makes_progress :: "io_error + nat \<Rightarrow> bool" where
  "makes_progress r \<longleftrightarrow> (case r of Inr n \<Rightarrow> 0 < n | Inl e \<Rightarrow> e = WouldBlock)"

lemma drive_write:
  assumes "hc_state h = Writing buf pos" "pos < length buf" "so_room s = r # rs" "makes_progress r"
    and "as_secs (now - hc_created h) \<le> READ_TIMEOUT_SECS"
  shows "drive_h1 hp plain_io hn now done_at h s v =
    Val (let h' = h\<lparr>hc_state := Writing buf (min (length buf) (pos + room_of r))\<rparr>
         in if length buf \<le> pos + room_of r then finish_h1_response done_at h' else h',
         s\<lparr>so_out := so_out s @ take (room_of r) (drop pos buf), so_room := rs\<rparr>, v)"
proof (cases r)
  case (Inl e)
  have "h\<lparr>hc_state := Writing buf pos\<rparr> = h" using assms(1) by (cases h) auto
  with Inl assms show ?thesis
    by (simp add: drive_h1_def h1_loop.simps [of hp plain_io hn done_at h] h1_pass_def h1_write_pass_def
        socket_write_def makes_progress_def room_of_def Let_def min_def)
next
  case (Inr n)
  have "pos + min n (length buf - pos) = min (length buf) (pos + n)" "0 < min n (length buf - pos)"
    using assms(2,4) Inr by (auto simp: makes_progress_def)
  with Inr assms show ?thesis
    by (simp add: drive_h1_def h1_loop.simps [of hp plain_io hn done_at h] h1_pass_def h1_write_pass_def
        socket_write_def room_of_def Let_def)
qed



section \<open>Where the connection loses its place\<close>

text \<open>The persistence of a connection is decided by the last request that was parsed. A request that
  is refused before that leaves the old decision.\<close>

text \<open>On a connection that has answered a request and keeps open, a request that is malformed or
  larger than the limit is answered with \<open>Connection: close\<close>, and the connection stays open: it
  goes back to reading with an empty buffer, so what the client sends next (the rest of an
  oversized body, say) is parsed as a new request.\<close>

theorem refused_connection_stays_open:
  assumes "hc_state h = Reading buf" "hc_keep_alive h" "hc_served h + 1 < 100"
    and "so_in s = RData b # es" "b \<noteq> []" "length b \<le> 4096" "so_room s = []"
    and "as_secs (now - hc_created h) \<le> 30"
    and "20 * 1024 * 1024 < length (buf @ b) \<or> parse_request hp (buf @ b) = Val ReqError"
  shows "\<exists>line. drive_h1 hp plain_io hn now done_at h s v =
    Val (h\<lparr>hc_state := Reading [], hc_served := hc_served h + 1, hc_created := done_at, hc_expect_handled := False\<rparr>,
         s\<lparr>so_in := es, so_out := so_out s @ ''HTTP/1.1 '' @ line @ CRLF @ ''Content-Length: 0'' @ CRLF @
            ''Connection: close'' @ CRLF @ CRLF\<rparr>, v)"
proof -
  obtain line where first: "h1_pass hp plain_io hn done_at h s v =
      Val (Again, h\<lparr>hc_state := Writing (canned line) 0\<rparr>, s\<lparr>so_in := es\<rparr>, v)"
  proof (cases "MAX_REQUEST_BYTES < length (buf @ b)")
    case True
    with assms that [of "''413 Payload Too Large''"] show thesis
      by (simp add: h1_pass_def h1_read_pass_def socket_read_segment Let_def)
  next
    case False
    with assms that [of "''400 Bad Request''"] show thesis
      by (simp add: h1_pass_def h1_read_pass_def socket_read_segment Let_def MAX_REQUEST_BYTES_def)
  qed
  have "canned line \<noteq> []" by (simp add: canned_def)
  then have second: "h1_pass hp plain_io hn done_at (h\<lparr>hc_state := Writing (canned line) 0\<rparr>) (s\<lparr>so_in := es\<rparr>) v =
    Val (Leave, finish_h1_response done_at (h\<lparr>hc_state := Writing (canned line) (length (canned line))\<rparr>),
      s\<lparr>so_in := es, so_out := so_out s @ canned line\<rparr>, v)"
    using assms(7) by (simp add: h1_pass_def h1_write_pass_def socket_write_free Let_def)
  have fin: "finish_h1_response done_at (h\<lparr>hc_state := Writing (canned line) (length (canned line))\<rparr>) =
      h\<lparr>hc_state := Reading [], hc_served := hc_served h + 1, hc_created := done_at, hc_expect_handled := False\<rparr>"
    using assms(2,3) by (simp add: finish_h1_response_def Let_def MAX_REQUESTS_PER_CONN_def)
  have "drive_h1 hp plain_io hn now done_at h s v =
    Val (h\<lparr>hc_state := Reading [], hc_served := hc_served h + 1, hc_created := done_at, hc_expect_handled := False\<rparr>,
         s\<lparr>so_in := es, so_out := so_out s @ canned line\<rparr>, v)"
    using first second fin assms(8)
    by (simp add: drive_h1_def READ_TIMEOUT_SECS_def h1_loop.simps [of hp plain_io hn done_at])
  then show ?thesis unfolding canned_def by blast
qed

text \<open>Bytes that arrive in the same read as the end of a request are dropped with the buffer: the
  beginning of a pipelined request is lost, and its continuation is parsed as a request of its own.\<close>

lemma pipelined_bytes_dropped:
  assumes "httparse_stable hp" "httparse_offset hp" "parse_request hp first = Val (ReqComplete req)" "keeps req (hc_served h)"
    and "hc_state h = Reading []" "so_in s = RData (first @ rest) # es" "first @ rest \<noteq> []" "length (first @ rest) \<le> 4096"
    and "so_room s = []" "as_secs (now - hc_created h) \<le> READ_TIMEOUT_SECS"
    and "hn_on_request hn (ingress req) (hc_client_ip h) v = Val (Ready status hs body nm, v')"
  shows "\<exists>h'. drive_h1 hp plain_io hn now done_at h s v =
    Val (h', s\<lparr>so_in := es, so_out := so_out s @ reply hn req status hs body (hc_served h)\<rparr>, v') \<and> hc_state h' = Reading []"
proof -
  have "parse_request hp ([] @ first @ rest) = Val (ReqComplete req)"
    using parse_request_stable_aux [OF assms(1,2), of first rest] assms(3) by simp
  with drive_answer [of h "[]" s "first @ rest" es hp req now hn v status hs body nm v' done_at] assms(4-11) show ?thesis
    by (simp add: finish_h1_response_def Let_def MAX_REQUESTS_PER_CONN_def MAX_REQUEST_BYTES_def)
qed

text \<open>The timeout runs from the start of the request, so it also ends a response that is being
  delivered.\<close>

lemma slow_response_cut:
  assumes "hc_state h = Writing buf pos" "READ_TIMEOUT_SECS < as_secs (now - hc_created h)"
  shows "drive_h1 hp io hn now done_at h s v = Val (h\<lparr>hc_state := Done\<rparr>, s, v)"
  using assms by (simp add: drive_h1_def)

text \<open>A response without a length announces the end of the connection, and the connection stays
  open all the same.\<close>

lemma announced_close_stays_open:
  assumes "hc_keep_alive h" "hc_served h + 1 < 100" "status = 204 \<or> status = 304"
  shows "\<exists>front. build_response sec status hs body meth (hc_keep_alive h) =
      front @ ''connection: close'' @ CRLF @ CRLF @ (if eq_ignore_ascii_case meth ''HEAD'' then [] else body)"
    and "hc_state (finish_h1_response now h) = Reading []"
proof -
  have "\<not> status_may_have_content_length status" using assms(3) by (auto simp: status_may_have_content_length_def)
  then show "\<exists>front. build_response sec status hs body meth (hc_keep_alive h) =
      front @ ''connection: close'' @ CRLF @ CRLF @ (if eq_ignore_ascii_case meth ''HEAD'' then [] else body)"
    by (intro exI [of _ "''HTTP/1.1 '' @ show_nat status @ '' '' @ h1_status_reason status @ CRLF @
      response_lines hs @ write_h1_headers sec hs"]) (simp add: build_response_def Let_def)
qed (use assms in \<open>simp add: finish_h1_response_def Let_def MAX_REQUESTS_PER_CONN_def\<close>)

section \<open>Witnesses\<close>

definition demo_handler :: "unit h1_handler" where
  "demo_handler =
     \<lparr>hn_on_request = (\<lambda>req ip v. Val (Ready 200 [(''x-a'', ''b'')] ''ok'' ''b'', v)),
      hn_on_response = (\<lambda>r ctx v. Val ((502, [], [], ''b''), v)), hn_try_recv = (\<lambda>_. RecvEmpty), hn_security = []\<rparr>"

definition demo_socket :: "bytes list \<Rightarrow> (io_error + nat) list \<Rightarrow> socket" where
  "demo_socket segs rs = \<lparr>so_in = map RData segs, so_out = [], so_room = rs\<rparr>"

definition demo_reqs :: "bytes list list" where
  "demo_reqs = [[demo_get], [take 20 demo_post, drop 20 demo_post]]"

theorem h1_connection_bounded_witness:
  "\<exists>h s log. reachable h1_init (h1_step line_httparse plain_io (logged demo_handler)) (h, s, (), log) \<and>
     length log = 1 \<and> hc_served h \<le> 100"
proof -
  have "case drive_h1 line_httparse plain_io (logged demo_handler) 0 0 (h1_new ''a'' 0) (demo_socket [demo_get] []) ((), [])
      of Val (h, s, v, log) \<Rightarrow> length log = 1 | Panic \<Rightarrow> False" by code_simp
  then obtain h s log where d: "drive_h1 line_httparse plain_io (logged demo_handler) 0 0 (h1_new ''a'' 0)
      (demo_socket [demo_get] []) ((), []) = Val (h, s, (), log)" "length log = 1"
    by (auto split: outcome.splits)
  have r: "reachable h1_init (h1_step line_httparse plain_io (logged demo_handler)) (h, s, (), log)"
  proof (rule reachable_step)
    show "reachable h1_init (h1_step line_httparse plain_io (logged demo_handler)) (h1_new ''a'' 0, demo_socket [demo_get] [], (), [])"
      by (rule reachable_init) (auto simp: h1_init_def)
    show "h1_step line_httparse plain_io (logged demo_handler) (h1_new ''a'' 0, demo_socket [demo_get] [], (), []) (h, s, (), log)"
      using plain_io_contract d(1) by (rule driven)
  qed
  from h1_connection_bounded [OF r] d(2) r show ?thesis by blast
qed



theorem refused_connection_stays_open_witness:
  "\<exists>line. drive_h1 line_httparse plain_io demo_handler 1 1 ((h1_new ''a'' 0)\<lparr>hc_keep_alive := True, hc_served := 1\<rparr>)
      (demo_socket [demo_smuggle, demo_get] []) () =
    Val ((h1_new ''a'' 1)\<lparr>hc_keep_alive := True, hc_served := 2\<rparr>,
         (demo_socket [demo_get] [])\<lparr>so_out := ''HTTP/1.1 '' @ line @ CRLF @ ''Content-Length: 0'' @ CRLF @
            ''Connection: close'' @ CRLF @ CRLF\<rparr>, ())"
proof -
  have "case parse_request line_httparse demo_smuggle of Val ReqError \<Rightarrow> True | _ \<Rightarrow> False" by code_simp
  then have bad: "parse_request line_httparse demo_smuggle = Val ReqError"
    by (auto split: outcome.splits parse_result.splits)
  have "demo_smuggle \<noteq> []" "length demo_smuggle \<le> 4096" by code_simp+
  with bad refused_connection_stays_open [of "(h1_new ''a'' 0)\<lparr>hc_keep_alive := True, hc_served := 1\<rparr>" "[]"
      "demo_socket [demo_smuggle, demo_get] []" demo_smuggle "[RData demo_get]" 1 line_httparse demo_handler 1 "()"]
  show ?thesis by (auto simp: h1_new_def demo_socket_def as_secs_def)
qed

end
