(* ===== verification/H1_Roundtrip.thy ===== *)
theory H1_Roundtrip
  imports H1_Listener Request_Text
begin

text \<open>
  The response an HTTP/1.1 connection writes (\<open>build_response\<close> of \<open>http11.rs\<close>) read back by the
  response reader of \<open>forward.rs\<close>, the one the proxy uses on its own backends: an m6 in front of an
  m6 sees the status, the fields and the body that were sent.
\<close>

section \<open>A response as lines\<close>

definition field_text :: "string \<times> string \<Rightarrow> bytes" where
  "field_text kv = fst kv @ '': '' @ snd kv"

abbreviation crlf_lines :: "bytes list \<Rightarrow> bytes" where
  "crlf_lines ls \<equiv> concat (map (\<lambda>l. l @ CRLF) ls)"

definition response_fields :: "headers \<Rightarrow> nat \<Rightarrow> headers \<Rightarrow> bytes \<Rightarrow> string \<Rightarrow> bool \<Rightarrow> headers" where
  "response_fields security status hs body meth ka =
     filter (\<lambda>kv. \<not> name_is ''content-length'' kv \<and> \<not> name_is ''connection'' kv) hs @
     filter (\<lambda>(n, _). \<not> headers_contains hs n) security @
     (if status_may_have_content_length status
      then [(''content-length'', show_nat (response_length hs body (eq_ignore_ascii_case meth ''HEAD'')))] else []) @
     [(''connection'', if ka \<and> status_may_have_content_length status then ''keep-alive'' else ''close'')]"

lemma response_lines_fields:
  "response_lines hs = crlf_lines (map field_text
     (filter (\<lambda>kv. \<not> name_is ''content-length'' kv \<and> \<not> name_is ''connection'' kv) hs))"
  by (induction hs rule: response_lines.induct) (auto simp: field_text_def name_is_def)

lemma h1_block_lines: "h1_block pairs = crlf_lines (map field_text pairs)"
  by (induction pairs) (auto simp: h1_block_def field_text_def)

text \<open>The pre-rendered block is what the loop over the absent fields would write.\<close>

lemma write_h1_headers_eq:
  "write_h1_headers pairs hs = crlf_lines (map field_text (filter (\<lambda>(n, _). \<not> headers_contains hs n) pairs))"
proof (cases "any_overridden hs pairs")
  case False
  then have "filter (\<lambda>(n, _). \<not> headers_contains hs n) pairs = pairs"
    by (intro filter_True) (force simp: any_overridden_def headers_contains_iff list_ex_iff)
  with False show ?thesis by (simp add: write_h1_headers_def h1_block_lines)
qed (simp add: write_h1_headers_def h1_block_lines)

lemma build_response_lines:
  "build_response security status hs body meth ka =
     crlf_lines ((''HTTP/1.1 '' @ show_nat status @ '' '' @ h1_status_reason status) #
        map field_text (response_fields security status hs body meth ka)) @ CRLF @
     (if eq_ignore_ascii_case meth ''HEAD'' then [] else body)"
  by (simp add: build_response_def response_fields_def response_lines_fields write_h1_headers_eq Let_def field_text_def)

section \<open>Reading a message back\<close>

lemma find_sub_window: "find_sub p s = Some n \<Longrightarrow> find_sub p (take (n + length p) s) = Some n"
proof (induction p s arbitrary: n rule: find_sub.induct)
  case (1 p)
  then show ?case by (auto split: if_splits)
next
  case (2 p c cs)
  show ?case
  proof (cases "starts_with p (c # cs)")
    case True
    with "2.prems" have "n = 0" by simp
    with True show ?thesis
      by (cases p) (auto simp: starts_with_take starts_with_length find_sub.simps)
  next
    case False
    with "2.prems" obtain m where m: "find_sub p cs = Some m" "n = Suc m" by auto
    have "\<not> starts_with p (c # take (m + length p) cs)"
      using False by (auto simp: starts_with_iff) (metis append_take_drop_id append.assoc append_Cons)
    with m "2.IH" [OF False m(1)] show ?thesis by simp
  qed
qed

lemma find_crlf_CR: "find_crlf l = Some n \<Longrightarrow> CR \<in> set l"
proof -
  assume "find_crlf l = Some n"
  then have "take (length CRLF) (drop n l) = CRLF" using find_sub_SomeD by (auto simp: find_crlf_def)
  moreover have "CR \<in> set CRLF" by (simp add: CRLF_def)
  ultimately show ?thesis by (metis in_set_dropD in_set_takeD)
qed

lemma read_head_finds:
  "find_header_end (buf @ stream_data es) = Some p \<Longrightarrow> find_header_end buf = None \<Longrightarrow> p + 4 \<le> HEADER_BUF \<Longrightarrow>
   length buf < HEADER_BUF \<Longrightarrow>
   \<exists>buf' es'. read_head buf es = Inr (buf', p, es') \<and> buf' @ stream_data es' = buf @ stream_data es"
proof (induction buf es rule: read_head.induct)
  case (1 buf es)
  obtain r es1 where r: "read_some (HEADER_BUF - length buf) es = (r, es1)" by fastforce
  have more: "stream_data es \<noteq> []" using "1.prems"(1,2) by auto
  then obtain b where b: "r = Inr b" "b \<noteq> []"
    using read_some_end [of "HEADER_BUF - length buf" es es1] read_some_error [of _ es _ es1] r "1.prems"(4)
    by (cases r) auto
  have sd: "stream_data es = b @ stream_data es1"
    using read_some_data [OF _ r [unfolded b(1)] b(2)] "1.prems"(4) by simp
  show ?case
  proof (cases "find_header_end (buf @ b)")
    case None
    have "length (buf @ b) < HEADER_BUF"
    proof (rule ccontr)
      assume "\<not> length (buf @ b) < HEADER_BUF"
      then have "take (p + 4) (buf @ b @ stream_data es1) = take (p + 4) (buf @ b)" using "1.prems"(3) by simp
      moreover have "find_sub (CRLF @ CRLF) (take (p + 4) (buf @ b @ stream_data es1)) = Some p"
        using find_sub_window [of "CRLF @ CRLF" "buf @ b @ stream_data es1" p] "1.prems"(1) sd
        by (simp add: find_header_end_def del: take_append) (simp add: CRLF_def numeral_eq_Suc)
      ultimately have "find_sub (CRLF @ CRLF) (take (p + 4) (buf @ b) @ drop (p + 4) (buf @ b)) = Some p"
        by (intro find_sub_append) metis
      with None show False by (simp add: find_header_end_def del: take_append drop_append)
    qed
    with None b r sd "1.IH" [OF r [symmetric] b(1,2) None] "1.prems" show ?thesis
      by (simp add: read_head.simps [of buf es])
  next
    case (Some q)
    then have "find_header_end (buf @ stream_data es) = Some q"
      using find_sub_append [of "CRLF @ CRLF" "buf @ b" q "stream_data es1"] sd by (simp add: find_header_end_def)
    with "1.prems"(1) Some b r sd show ?thesis by (simp add: read_head.simps [of buf es])
  qed
qed

lemma split_crlf_lines:
  "ls \<noteq> [] \<Longrightarrow> list_all (\<lambda>l. CR \<notin> set l) ls \<Longrightarrow> split_crlf (take (length (crlf_lines ls) - 2) (crlf_lines ls)) = ls"
proof (induction ls)
  case (Cons l ls)
  have l: "CR \<notin> set l" using Cons.prems by simp
  show ?case
  proof (cases "ls = []")
    case True
    have "find_crlf l = None"
      using find_crlf_CR l by (cases "find_crlf l") auto
    with True show ?thesis by (simp add: split_crlf.simps [of l] CRLF_def)
  next
    case False
    then have two: "2 \<le> length (crlf_lines ls)" by (cases ls) (auto simp: CRLF_def)
    then obtain n where "length (crlf_lines ls) = Suc (Suc n)"
      by (metis add_2_eq_Suc le_Suc_ex)
    then have "take (length (crlf_lines (l # ls)) - 2) (crlf_lines (l # ls)) =
      l @ CRLF @ take (length (crlf_lines ls) - 2) (crlf_lines ls)"
      by (simp add: CRLF_def)
    with find_crlf_plain [OF l] Cons False show ?thesis
      by (simp add: split_crlf.simps [of "l @ _"] CRLF_def)
  qed
qed simp


text \<open>A field line the reader returns as it was sent.\<close>

definition clean_field :: "string \<times> string \<Rightarrow> bool" where
  "clean_field kv \<longleftrightarrow> h1_field_name_is_safe (fst kv) \<and> h1_field_value_is_safe (snd kv) \<and> trim (snd kv) = snd kv \<and>
     list_all (\<lambda>c. byte_val c < 128) (snd kv)"

lemma token_graphic: "token_byte c \<Longrightarrow> is_ascii_graphic c \<and> byte_val c < 128 \<and> c \<noteq> CHR '':'' \<and> c \<noteq> CR"
  by (auto simp: token_byte_def CR_def is_ascii_alphanumeric_def is_ascii_alphabetic_def is_ascii_uppercase_def
      is_ascii_lowercase_def is_ascii_digit_def is_ascii_graphic_def byte_val_def)

lemma clean_name:
  assumes "clean_field kv"
  shows "trim (fst kv) = fst kv" "CHR '':'' \<notin> set (fst kv)" "CR \<notin> set (fst kv)" "fst kv \<noteq> []"
    "list_all (\<lambda>c. byte_val c < 128) (fst kv)"
proof -
  have name: "fst kv \<noteq> []" "\<forall>c \<in> set (fst kv). token_byte c"
    using assms by (auto simp: clean_field_def h1_field_name_is_safe_def list_all_iff)
  then show "fst kv \<noteq> []" "CHR '':'' \<notin> set (fst kv)" "CR \<notin> set (fst kv)" "list_all (\<lambda>c. byte_val c < 128) (fst kv)"
    using token_graphic by (auto simp: list_all_iff)
  from name have "is_ascii_graphic (hd (fst kv))" "is_ascii_graphic (last (fst kv))" using token_graphic by auto
  with name(1) show "trim (fst kv) = fst kv" by (rule trim_graphic_ends)
qed

lemma clean_text:
  assumes "clean_field kv"
  shows "CR \<notin> set (field_text kv)" "list_all (\<lambda>c. byte_val c < 128) (field_text kv)" "field_text kv \<noteq> []"
  using clean_name [OF assms] assms
  by (auto simp: field_text_def clean_field_def value_safe_iff CR_def byte_val_def)

lemma resp_line_clean:
  assumes "clean_field kv"
  shows "resp_line f (field_text kv) =
    (case (if name_is ''content-length'' kv then cl_parts (rf_cl f) (split_on CHR '','' (snd kv)) else Inr (rf_cl f)) of
       Inl e \<Rightarrow> Inl e
     | Inr cl \<Rightarrow>
         Inr (f\<lparr>rf_cl := cl, rf_te := (rf_te f \<or> name_is ''transfer-encoding'' kv),
                rf_chunked := (rf_chunked f \<or> (name_is ''transfer-encoding'' kv \<and>
                  eq_ignore_ascii_case (trim (last (split_on CHR '','' (snd kv)))) ''chunked'')),
                rf_headers := rf_headers f @ [kv]\<rparr>))"
proof -
  have "split_once CHR '':'' (field_text kv) = Some (fst kv, CHR '' '' # snd kv)"
    using clean_name(2) [OF assms] by (simp add: split_once_Some field_text_def)
  moreover have "trim (CHR '' '' # snd kv) = snd kv" using assms by (simp add: trim_space clean_field_def)
  ultimately show ?thesis using clean_name(1) [OF assms] by (auto simp: resp_line_def name_is_def Let_def split: sum.splits)
qed

text \<open>Fields other than the length are collected; only a transfer coding is noted.\<close>

lemma resp_lines_clean:
  "list_all clean_field fs \<Longrightarrow> list_all (\<lambda>kv. \<not> name_is ''content-length'' kv) fs \<Longrightarrow>
   \<exists>c. resp_lines f (map field_text fs @ ls) =
      resp_lines (f\<lparr>rf_te := (rf_te f \<or> list_ex (name_is ''transfer-encoding'') fs), rf_chunked := c,
                    rf_headers := rf_headers f @ fs\<rparr>) ls \<and>
     (\<not> list_ex (name_is ''transfer-encoding'') fs \<longrightarrow> c = rf_chunked f)"
proof (induction fs arbitrary: f)
  case Nil
  show ?case by (intro exI [of _ "rf_chunked f"]) simp
next
  case (Cons kv fs)
  have kv: "clean_field kv" "\<not> name_is ''content-length'' kv" using Cons.prems by simp_all
  let ?f = "f\<lparr>rf_te := (rf_te f \<or> name_is ''transfer-encoding'' kv),
                rf_chunked := (rf_chunked f \<or> (name_is ''transfer-encoding'' kv \<and>
                  eq_ignore_ascii_case (trim (last (split_on CHR '','' (snd kv)))) ''chunked'')),
                rf_headers := rf_headers f @ [kv]\<rparr>"
  have "resp_line f (field_text kv) = Inr ?f" using resp_line_clean [OF kv(1), of f] kv(2) by simp
  then have "resp_lines f (map field_text (kv # fs) @ ls) = resp_lines ?f (map field_text fs @ ls)"
    using clean_text(3) [OF kv(1)] by simp
  moreover obtain c where "resp_lines ?f (map field_text fs @ ls) =
      resp_lines (?f\<lparr>rf_te := (rf_te ?f \<or> list_ex (name_is ''transfer-encoding'') fs), rf_chunked := c,
                    rf_headers := rf_headers ?f @ fs\<rparr>) ls"
    "\<not> list_ex (name_is ''transfer-encoding'') fs \<longrightarrow> c = rf_chunked ?f"
    using Cons.IH [of ?f] Cons.prems by auto
  ultimately show ?case by (intro exI [of _ c]) auto
qed

text \<open>The field list of a response that has a length: the length is the last but one.\<close>

definition message_fields :: "headers \<Rightarrow> nat \<Rightarrow> string \<Rightarrow> headers" where
  "message_fields fs len conn = fs @ [(''content-length'', show_nat len), (''connection'', conn)]"

lemma clean_own: "clean_field (''content-length'', show_nat n)" "clean_field (''connection'', ''keep-alive'')"
  "clean_field (''connection'', ''close'')"
proof -
  have "list_all (\<lambda>c. byte_val c < 128) (show_nat n)"
    using show_nat_digits [of n] by (auto simp: list_all_iff is_ascii_digit_def)
  moreover have "h1_field_name_is_safe ''content-length''" by code_simp
  ultimately show "clean_field (''content-length'', show_nat n)"
    using digits_safe [OF show_nat_digits] by (simp add: clean_field_def)
  show "clean_field (''connection'', ''keep-alive'')" "clean_field (''connection'', ''close'')" by code_simp+
qed

lemma resp_lines_message:
  assumes "list_all clean_field fs" "list_all (\<lambda>kv. \<not> name_is ''content-length'' kv) fs" "len < 2 ^ 64"
    and "conn = ''keep-alive'' \<or> conn = ''close''"
  shows "\<exists>c. resp_lines resp_init (map field_text (message_fields fs len conn)) =
    Inr \<lparr>rf_headers = message_fields fs len conn, rf_cl = Some len, rf_te = list_ex (name_is ''transfer-encoding'') fs, rf_chunked = c\<rparr> \<and>
    (\<not> list_ex (name_is ''transfer-encoding'') fs \<longrightarrow> \<not> c)"
proof -
  have nocomma: "CHR '','' \<notin> set (show_nat len)"
    using show_nat_digits [of len] by (auto simp: list_all_iff is_ascii_digit_def byte_val_def)
  then have cl: "cl_parts None (split_on CHR '','' (show_nat len)) = Inr (Some len)"
    using show_nat_digits [of len] parse_uint_show_nat [OF assms(3)] by (simp add: split_on_no_delim)
  have conn: "clean_field (''connection'', conn)" using assms(4) clean_own by auto
  have names: "name_is ''content-length'' (''content-length'', x)" "\<not> name_is ''transfer-encoding'' (''content-length'', x)"
    "\<not> name_is ''content-length'' (''connection'', x)" "\<not> name_is ''transfer-encoding'' (''connection'', x)" for x
    by (simp_all add: name_is_def eq_ignore_ascii_case_def lower_names)
  obtain c where "resp_lines resp_init (map field_text fs @ map field_text [(''content-length'', show_nat len), (''connection'', conn)]) =
      resp_lines (resp_init\<lparr>rf_te := (rf_te resp_init \<or> list_ex (name_is ''transfer-encoding'') fs), rf_chunked := c,
                    rf_headers := rf_headers resp_init @ fs\<rparr>) (map field_text [(''content-length'', show_nat len), (''connection'', conn)])"
    "\<not> list_ex (name_is ''transfer-encoding'') fs \<longrightarrow> c = rf_chunked resp_init"
    using resp_lines_clean [OF assms(1,2), of resp_init] by blast
  then show ?thesis using clean_text(3) [OF conn] clean_text(3) [OF clean_own(1)]
    by (intro exI [of _ c])
      (simp add: message_fields_def resp_line_clean [OF conn] resp_line_clean [OF clean_own(1)] names cl resp_init_def)
qed


lemma read_message:
  assumes "stream_data es = crlf_lines ls @ CRLF @ rest" "ls \<noteq> []"
    and "list_all (\<lambda>l. CR \<notin> set l \<and> l \<noteq> [] \<and> list_all (\<lambda>c. byte_val c < 128) l) ls" "length (crlf_lines ls) + 2 \<le> HEADER_BUF"
  shows "\<exists>buf pos es'. read_head [] es = Inr (buf, pos, es') \<and> valid_utf8 (take pos buf) \<and>
    split_crlf (take pos buf) = ls \<and> drop (pos + 4) buf @ stream_data es' = rest"
proof -
  let ?pos = "length (crlf_lines ls) - 2"
  obtain l ls' where "ls = l # ls'" using assms(2) by (cases ls) auto
  then have two: "2 \<le> length (crlf_lines ls)" by (simp add: CRLF_def)
  have "find_header_end (stream_data es) = Some ?pos"
    unfolding find_header_end_def assms(1)
    by (rule head_end_lines) (use assms(2,3) in \<open>auto simp: list_all_iff\<close>)
  moreover have "?pos + 4 \<le> HEADER_BUF" using two assms(4) by simp
  moreover have "find_header_end [] = None" "length ([] :: bytes) < HEADER_BUF"
    by (simp_all add: find_header_end_def HEADER_BUF_def CRLF_def)
  ultimately obtain buf es' where head: "read_head [] es = Inr (buf, ?pos, es')" "buf @ stream_data es' = stream_data es"
    using read_head_finds [of "[]" es ?pos] by auto
  have found: "find_header_end buf = Some ?pos" using read_head_stream [OF head(1)] by (simp add: HEADER_BUF_def)
  then have len: "?pos + 4 \<le> length buf" using find_sub_SomeD [of "CRLF @ CRLF" buf] by (auto simp: find_header_end_def CRLF_def)
  then have "take ?pos buf = take ?pos (buf @ stream_data es')" by simp
  also have "\<dots> = take ?pos (crlf_lines ls)" using head(2) assms(1) by simp
  finally have front: "take ?pos buf = take ?pos (crlf_lines ls)" .
  have "drop (?pos + 4) buf @ stream_data es' = drop (?pos + 4) (buf @ stream_data es')" using len by simp
  also have "\<dots> = rest" using head(2) assms(1) two by (simp add: CRLF_def)
  finally have body: "drop (?pos + 4) buf @ stream_data es' = rest" .
  have "list_all (\<lambda>c. byte_val c < 128) (crlf_lines ls)"
    using assms(3) by (auto simp: list_all_iff CRLF_def CR_def LF_def byte_val_def)
  then have "list_all (\<lambda>c. byte_val c < 128) (take ?pos (crlf_lines ls))" by (auto simp: list_all_iff dest: in_set_takeD)
  then have "valid_utf8 (take ?pos buf)" unfolding front by (rule valid_utf8_ascii)
  moreover have "split_crlf (take ?pos buf) = ls"
    unfolding front using assms(2,3) by (intro split_crlf_lines) (auto simp: list_all_iff)
  ultimately show ?thesis using head(1) body by blast
qed

lemma parse_status_line_own:
  "status < 2 ^ 16 \<Longrightarrow> parse_status_line (''HTTP/1.1 '' @ show_nat status @ '' '' @ reason) = Inr (status, reason)"
proof -
  assume "status < 2 ^ 16"
  have "CHR '' '' \<notin> set (show_nat status)"
    using show_nat_digits [of status] by (auto simp: list_all_iff is_ascii_digit_def byte_val_def)
  then have "split_once CHR '' '' (show_nat status @ '' '' @ reason) = Some (show_nat status, reason)"
    by (simp add: split_once_Some)
  moreover have "split_once CHR '' '' (''HTTP/1.1 '' @ show_nat status @ '' '' @ reason) =
      Some (''HTTP/1.1'', show_nat status @ '' '' @ reason)"
    by (simp add: split_once_Some)
  ultimately show ?thesis using parse_uint_show_nat [OF \<open>status < 2 ^ 16\<close>] by (simp add: parse_status_line_def)
qed

lemma reason_clean:
  "CR \<notin> set (h1_status_reason status)" "list_all (\<lambda>c. byte_val c < 128) (h1_status_reason status)"
proof -
  have "h1_status_reason status \<in> set [''OK'', ''Created'', ''No Content'', ''Partial Content'', ''Moved Permanently'', ''Found'',
      ''Not Modified'', ''Bad Request'', ''Unauthorized'', ''Forbidden'', ''Not Found'', ''Method Not Allowed'',
      ''Payload Too Large'', ''Too Many Requests'', ''Internal Server Error'', ''Not Implemented'', ''Bad Gateway'',
      ''Service Unavailable'', ''Gateway Timeout'', ''Unknown'']" (is "_ \<in> set ?phrases")
    by (simp add: h1_status_reason_def)
  moreover have "list_all (\<lambda>r. CR \<notin> set r \<and> list_all (\<lambda>c. byte_val c < 128) r) ?phrases" by code_simp
  ultimately show "CR \<notin> set (h1_status_reason status)" "list_all (\<lambda>c. byte_val c < 128) (h1_status_reason status)"
    by (auto simp only: list_all_iff)
qed

lemma sized_body_exact:
  "pre @ stream_data es = body @ ext \<Longrightarrow> length body \<le> MAX_BACKEND_BODY \<Longrightarrow> sized_body (length body) pre es = Inr body"
proof -
  assume eq: "pre @ stream_data es = body @ ext" and len: "length body \<le> MAX_BACKEND_BODY"
  have take: "take (length body) (pre @ stream_data es) = body" unfolding eq by simp
  have "length body \<le> length pre + length (stream_data es)" using arg_cong [OF eq, of length] by simp
  with take len show ?thesis
    by (auto simp: sized_body_def read_exact_def Let_def min_def)
qed


section \<open>The response read back\<close>

definition response_head_length :: "headers \<Rightarrow> nat \<Rightarrow> headers \<Rightarrow> bytes \<Rightarrow> string \<Rightarrow> bool \<Rightarrow> nat" where
  "response_head_length security status hs body meth ka =
     length (build_response security status hs body meth ka) - (if eq_ignore_ascii_case meth ''HEAD'' then 0 else length body)"

definition sent_fields :: "headers \<Rightarrow> headers \<Rightarrow> headers" where
  "sent_fields security hs =
     filter (\<lambda>kv. \<not> name_is ''content-length'' kv \<and> \<not> name_is ''connection'' kv) hs @
     filter (\<lambda>(n, _). \<not> headers_contains hs n) security"

lemma response_fields_message:
  assumes "status_may_have_content_length status"
  shows "response_fields security status hs body meth ka = message_fields (sent_fields security hs)
    (response_length hs body (eq_ignore_ascii_case meth ''HEAD'')) (if ka then ''keep-alive'' else ''close'')"
  using assms by (simp add: response_fields_def message_fields_def sent_fields_def)

lemma response_length_bound: "length body < 2 ^ 64 \<Longrightarrow> response_length hs body h < 2 ^ 64"
  using parse_uint_bound [of 64] by (auto simp: response_length_def split: option.splits bind_splits)

text \<open>What the reader makes of a response with clean fields, up to the decision on its framing.\<close>

lemma read_built_head:
  assumes "status_may_have_content_length status" "status < 2 ^ 16" "list_all clean_field (hs @ security)"
    and "\<not> list_ex (name_is ''content-length'') security" "length body < 2 ^ 64"
    and "stream_data es = build_response security status hs body meth ka @ ext" "response_head_length security status hs body meth ka \<le> HEADER_BUF"
  defines "fs \<equiv> sent_fields security hs" and "sent \<equiv> response_fields security status hs body meth ka"
    and "len \<equiv> response_length hs body (eq_ignore_ascii_case meth ''HEAD'')"
  obtains buf pos es' c where "read_head [] es = Inr (buf, pos, es')" "valid_utf8 (take pos buf)"
    "parse_status_line (hd (split_crlf (take pos buf))) = Inr (status, h1_status_reason status)"
    "resp_lines resp_init (tl (split_crlf (take pos buf))) =
       Inr \<lparr>rf_headers = sent, rf_cl = Some len, rf_te = list_ex (name_is ''transfer-encoding'') fs, rf_chunked = c\<rparr>"
    "\<not> list_ex (name_is ''transfer-encoding'') fs \<longrightarrow> \<not> c"
    "drop (pos + 4) buf @ stream_data es' = (if eq_ignore_ascii_case meth ''HEAD'' then [] else body) @ ext"
proof -
  let ?status = "''HTTP/1.1 '' @ show_nat status @ '' '' @ h1_status_reason status"
  have digits: "CR \<notin> set (show_nat status)" "list_all (\<lambda>c. byte_val c < 128) (show_nat status)"
    using show_nat_digits [of status] by (auto simp: list_all_iff is_ascii_digit_def byte_val_def CR_def)
  have fs: "list_all clean_field fs" "list_all (\<lambda>kv. \<not> name_is ''content-length'' kv) fs"
    using assms(3,4) by (auto simp: fs_def sent_fields_def list_all_iff list_ex_iff)
  have sent: "sent = message_fields fs len (if ka then ''keep-alive'' else ''close'')"
    unfolding sent_def fs_def len_def using response_fields_message [OF assms(1)] by blast
  have "list_all clean_field sent" using fs(1) clean_own by (auto simp: sent message_fields_def)
  then have lines: "list_all (\<lambda>l. CR \<notin> set l \<and> l \<noteq> [] \<and> list_all (\<lambda>c. byte_val c < 128) l) (?status # map field_text sent)"
    using clean_text digits reason_clean [of status]
    by (auto simp: list_all_iff CR_def byte_val_def)
  have built: "build_response security status hs body meth ka = crlf_lines (?status # map field_text sent) @ CRLF @
      (if eq_ignore_ascii_case meth ''HEAD'' then [] else body)"
    unfolding sent_def by (rule build_response_lines)
  have "length (crlf_lines (?status # map field_text sent)) + 2 \<le> HEADER_BUF"
    using assms(7) unfolding response_head_length_def built by (auto simp: CRLF_def split: if_splits)
  with read_message [of es "?status # map field_text sent" "(if eq_ignore_ascii_case meth ''HEAD'' then [] else body) @ ext"]
    lines built assms(6)
  obtain buf pos es' where head: "read_head [] es = Inr (buf, pos, es')" "valid_utf8 (take pos buf)"
      "split_crlf (take pos buf) = ?status # map field_text sent"
      "drop (pos + 4) buf @ stream_data es' = (if eq_ignore_ascii_case meth ''HEAD'' then [] else body) @ ext"
    by auto
  have "len < 2 ^ 64" unfolding len_def using assms(5) by (rule response_length_bound)
  moreover have "(if ka then ''keep-alive'' else ''close'') = ''keep-alive'' \<or> (if ka then ''keep-alive'' else ''close'') = ''close''"
    by simp
  ultimately obtain c where "resp_lines resp_init (map field_text sent) =
      Inr \<lparr>rf_headers = sent, rf_cl = Some len, rf_te = list_ex (name_is ''transfer-encoding'') fs, rf_chunked = c\<rparr>"
    "\<not> list_ex (name_is ''transfer-encoding'') fs \<longrightarrow> \<not> c"
    using resp_lines_message [OF fs] unfolding sent by blast
  with head parse_status_line_own [OF assms(2)] that show thesis by simp
qed


text \<open>A response whose fields hold a \<open>Transfer-Encoding\<close> (the reader of \<open>forward.rs\<close> decodes a
  chunked backend reply and leaves the field in the list) goes out over HTTP/1.1 with that field
  and a \<open>Content-Length\<close>, on a body that is not chunked: the response reader of the proxy
  itself refuses it.\<close>

theorem chunked_reply_unreadable:
  assumes "status_may_have_content_length status" "status < 2 ^ 16" "list_all clean_field (hs @ security)"
    and "list_ex (name_is ''transfer-encoding'') hs" "\<not> list_ex (name_is ''content-length'') security"
    and "length body < 2 ^ 64"
    and "stream_data es = build_response security status hs body meth ka @ ext" "response_head_length security status hs body meth ka \<le> HEADER_BUF"
  shows "read_response_for es meth = Val (Inl InvalidData)"
proof -
  have disjoint: "\<not> name_is ''content-length'' kv \<and> \<not> name_is ''connection'' kv" if "name_is ''transfer-encoding'' kv" for kv
    using that by (auto simp: name_is_def eq_ignore_ascii_case_def lower_names)
  then have te: "list_ex (name_is ''transfer-encoding'') (sent_fields security hs)"
    using assms(4) by (auto simp: sent_fields_def list_ex_iff)
  obtain buf pos es' c where head: "read_head [] es = Inr (buf, pos, es')" "valid_utf8 (take pos buf)"
    "parse_status_line (hd (split_crlf (take pos buf))) = Inr (status, h1_status_reason status)"
    "resp_lines resp_init (tl (split_crlf (take pos buf))) =
       Inr \<lparr>rf_headers = response_fields security status hs body meth ka,
            rf_cl = Some (response_length hs body (eq_ignore_ascii_case meth ''HEAD'')), rf_te = list_ex (name_is ''transfer-encoding'') (sent_fields security hs), rf_chunked = c\<rparr>"
    by (rule read_built_head [OF assms(1-3,5-8)])
  with te show ?thesis by (simp add: read_response_for_def Let_def)
qed


section \<open>Witnesses\<close>

definition demo_hs :: headers where
  "demo_hs = [(''content-type'', ''text/plain''), (''Content-Length'', ''7'')]"

definition demo_security :: headers where
  "demo_security = [(''x-frame-options'', ''DENY'')]"

definition demo_bytes :: bytes where
  "demo_bytes = build_response demo_security 200 demo_hs ''hi'' ''GET'' True"


definition demo_chunked_reply :: bytes where
  "demo_chunked_reply = ''HTTP/1.1 200 OK'' @ CRLF @ ''Transfer-Encoding: chunked'' @ CRLF @ CRLF @
     ''2'' @ CRLF @ ''hi'' @ CRLF @ ''0'' @ CRLF @ CRLF"

text \<open>A chunked reply of a backend, as the proxy reads it and writes it to an HTTP/1.1 client.\<close>

theorem chunked_reply_unreadable_witness:
  "\<exists>r. read_response_for [RData demo_chunked_reply] ''GET'' = Val (Inr r) \<and> hr_body r = ''hi'' \<and>
     read_response_for [RData (build_response [] (hr_status r) (hr_headers r) (hr_body r) ''GET'' True)] ''GET'' =
       Val (Inl InvalidData)"
proof -
  have "case read_response_for [RData demo_chunked_reply] ''GET'' of
      Val (Inr r) \<Rightarrow> hr_status r = 200 \<and> hr_headers r = [(''Transfer-Encoding'', ''chunked'')] \<and> hr_body r = ''hi''
    | _ \<Rightarrow> False" by code_simp
  then obtain r where r: "read_response_for [RData demo_chunked_reply] ''GET'' = Val (Inr r)" "hr_status r = 200"
      "hr_headers r = [(''Transfer-Encoding'', ''chunked'')]" "hr_body r = ''hi''"
    by (auto split: outcome.splits sum.splits)
  let ?hs = "[(''Transfer-Encoding'', ''chunked'')]"
  have hyps: "status_may_have_content_length 200" "(200 :: nat) < 2 ^ 16" "list_all clean_field (?hs @ [])"
    "list_ex (name_is ''transfer-encoding'') ?hs" "\<not> list_ex (name_is ''content-length'') []" "length ''hi'' < 2 ^ 64"
    "response_head_length [] 200 ?hs ''hi'' ''GET'' True \<le> HEADER_BUF" by code_simp+
  have "build_response [] 200 ?hs ''hi'' ''GET'' True \<noteq> []" by code_simp
  then have "stream_data [RData (build_response [] 200 ?hs ''hi'' ''GET'' True)] = build_response [] 200 ?hs ''hi'' ''GET'' True @ []"
    by simp
  from chunked_reply_unreadable [OF hyps(1-6) this hyps(7)] r show ?thesis by simp
qed

end
