(* ===== verification/Refusal_Log.thy ===== *)
theory Refusal_Log
  imports Forwarding
begin

text \<open>
  What an h2c listener admits, and how it logs what it refuses (\<open>admit_peer\<close>, \<open>RefusalLog\<close> and
  \<open>accept_up_to\<close> of \<open>m6-http/src/http11.rs\<close>).

  \<^item> Addresses are a type of their own; \<open>to_canonical\<close> of the standard library is an argument.
  \<^item> The order in which a hash map yields its entries is an argument too: \<open>evict_stale\<close> takes the
    first of the stalest entries in that order.
  \<^item> Instants and durations are nanoseconds; \<open>duration_since\<close> saturates at zero.
\<close>

section \<open>Admission\<close>

definition admit_peer :: "('ip \<Rightarrow> 'ip) \<Rightarrow> 'ip list option \<Rightarrow> 'ip \<Rightarrow> forwarded_trust option" where
  "admit_peer to_canonical peers peer =
     (case peers of
        None \<Rightarrow> Some TrustNever
      | Some p \<Rightarrow> if to_canonical peer \<in> set p then Some TrustBackbone else None)"

section \<open>The log\<close>

definition REFUSAL_LOG_INTERVAL :: nat where
  "REFUSAL_LOG_INTERVAL = 60 * 1000000000"

definition REFUSAL_LOG_MAX_PEERS :: nat where
  "REFUSAL_LOG_MAX_PEERS = 256"

definition REFUSAL_LOG_MAX_LINES :: nat where
  "REFUSAL_LOG_MAX_LINES = 32"

definition REFUSAL_LOG_MAX_OTHERS :: nat where
  "REFUSAL_LOG_MAX_OTHERS = 1024"

definition MAX_ACCEPTS_PER_WAKE :: nat where
  "MAX_ACCEPTS_PER_WAKE = 64"

record 'ip refusal_summary =
  sm_other_refusals :: nat
  sm_other_addresses :: nat
  sm_sample :: "'ip option"
  sm_over_limit :: nat

definition no_summary :: "'ip refusal_summary" where
  "no_summary = \<lparr>sm_other_refusals = 0, sm_other_addresses = 0, sm_sample = None, sm_over_limit = 0\<rparr>"

record 'ip refusal_verdict =
  vd_peer_line :: "nat option"
  vd_summary :: "'ip refusal_summary option"

record 'ip refusal_log =
  lg_interval :: nat
  lg_max_peers :: nat
  lg_peers :: "('ip \<times> nat option \<times> nat) list"
  lg_window_start :: "nat option"
  lg_lines_in_window :: nat
  lg_summary :: "'ip refusal_summary"
  lg_others :: "'ip list"

definition refusal_log_new :: "nat \<Rightarrow> nat \<Rightarrow> 'ip refusal_log" where
  "refusal_log_new interval max_peers =
     \<lparr>lg_interval = interval, lg_max_peers = max_peers, lg_peers = [], lg_window_start = None,
      lg_lines_in_window = 0, lg_summary = no_summary, lg_others = []\<rparr>"

text \<open>The window that begins when none is open or the open one has lasted its interval.\<close>

definition turn_window :: "nat \<Rightarrow> 'ip refusal_log \<Rightarrow> 'ip refusal_summary option \<times> 'ip refusal_log" where
  "turn_window now lg =
     (let fresh = (\<lambda>lg. lg\<lparr>lg_window_start := Some now, lg_lines_in_window := 0, lg_others := []\<rparr>) in
      case lg_window_start lg of
        Some start \<Rightarrow>
          if now - start < lg_interval lg then (None, lg)
          else if lg_summary lg \<noteq> no_summary then (Some (lg_summary lg), fresh (lg\<lparr>lg_summary := no_summary\<rparr>))
          else (None, fresh lg)
      | None \<Rightarrow> (None, fresh lg))"

fun min_by_key :: "('a \<Rightarrow> nat) \<Rightarrow> 'a list \<Rightarrow> 'a option" where
  "min_by_key f [] = None"
| "min_by_key f (x # xs) = (case min_by_key f xs of None \<Rightarrow> Some x | Some y \<Rightarrow> if f y < f x then Some y else Some x)"

type_synonym 'ip map_order = "('ip \<times> nat option \<times> nat) list \<Rightarrow> ('ip \<times> nat option \<times> nat) list"

definition evict_stale :: "'ip map_order \<Rightarrow> nat \<Rightarrow> 'ip refusal_log \<Rightarrow> bool \<times> 'ip refusal_log" where
  "evict_stale order now lg =
     (let candidates = List.map_filter (\<lambda>(ip, prev, suppressed). case prev of
            Some l \<Rightarrow> if suppressed = 0 \<and> lg_interval lg \<le> now - l then Some (l, ip) else None
          | None \<Rightarrow> None) (order (lg_peers lg))
      in case min_by_key fst candidates of
           Some (_, ip) \<Rightarrow> (True, lg\<lparr>lg_peers := AList.delete ip (lg_peers lg)\<rparr>)
         | None \<Rightarrow> (False, lg))"

definition known_peer :: "'ip \<Rightarrow> nat option \<Rightarrow> nat \<Rightarrow> nat \<Rightarrow> 'ip refusal_log \<Rightarrow> nat option \<times> 'ip refusal_log" where
  "known_peer peer prev suppressed now lg =
     (let put = (\<lambda>e lg. lg\<lparr>lg_peers := AList.update peer e (lg_peers lg)\<rparr>) in
      if (case prev of Some l \<Rightarrow> now - l < lg_interval lg | None \<Rightarrow> False) then (None, put (prev, suppressed + 1) lg)
      else if REFUSAL_LOG_MAX_LINES \<le> lg_lines_in_window lg
      then (None, (put (prev, suppressed + 1) lg)\<lparr>lg_summary := (lg_summary lg)\<lparr>sm_over_limit := sm_over_limit (lg_summary lg) + 1\<rparr>\<rparr>)
      else (Some suppressed, (put (Some now, 0) lg)\<lparr>lg_lines_in_window := lg_lines_in_window lg + 1\<rparr>))"

definition other_peer :: "'ip \<Rightarrow> 'ip refusal_log \<Rightarrow> 'ip refusal_log" where
  "other_peer peer lg =
     (let counted = (length (lg_others lg) < REFUSAL_LOG_MAX_OTHERS \<and> peer \<notin> set (lg_others lg));
          sm = lg_summary lg
      in lg\<lparr>lg_summary := sm\<lparr>sm_other_refusals := sm_other_refusals sm + 1, sm_sample := Some peer,
               sm_other_addresses := sm_other_addresses sm + (if counted then 1 else 0)\<rparr>,
             lg_others := (if counted then peer # lg_others lg else lg_others lg)\<rparr>)"

definition new_peer :: "'ip map_order \<Rightarrow> 'ip \<Rightarrow> nat \<Rightarrow> 'ip refusal_log \<Rightarrow> nat option \<times> 'ip refusal_log" where
  "new_peer order peer now lg =
     (let full = lg_max_peers lg \<le> length (lg_peers lg);
          (evicted, lg) = (if full then evict_stale order now lg else (False, lg))
      in if full \<and> \<not> evicted then (None, other_peer peer lg)
         else if REFUSAL_LOG_MAX_LINES \<le> lg_lines_in_window lg
         then (None, lg\<lparr>lg_peers := AList.update peer (None, 1) (lg_peers lg),
                lg_summary := (lg_summary lg)\<lparr>sm_over_limit := sm_over_limit (lg_summary lg) + 1\<rparr>\<rparr>)
         else (Some 0, lg\<lparr>lg_lines_in_window := lg_lines_in_window lg + 1,
                lg_peers := AList.update peer (Some now, 0) (lg_peers lg)\<rparr>))"

definition record_refusal :: "'ip map_order \<Rightarrow> 'ip \<Rightarrow> nat \<Rightarrow> 'ip refusal_log \<Rightarrow> 'ip refusal_verdict \<times> 'ip refusal_log" where
  "record_refusal order peer now lg =
     (case turn_window now lg of (summary, lg) \<Rightarrow>
        (case (case map_of (lg_peers lg) peer of
                 Some (prev, suppressed) \<Rightarrow> known_peer peer prev suppressed now lg
               | None \<Rightarrow> new_peer order peer now lg) of
           (line, lg) \<Rightarrow> (\<lparr>vd_peer_line = line, vd_summary = summary\<rparr>, lg)))"

section \<open>Accepting\<close>

text \<open>What \<open>accept\<close> yields while connections are pending; the end of the list is \<open>WouldBlock\<close>. A
  refused connection is dropped, one whose socket cannot be made non-blocking is skipped.\<close>

datatype 'ip accepted = Conn 'ip bool | AcceptError

fun accept_up_to :: "'ip map_order \<Rightarrow> ('ip \<Rightarrow> 'ip) \<Rightarrow> 'ip list option \<Rightarrow> nat \<Rightarrow> ('ip accepted \<times> nat) list \<Rightarrow> 'ip refusal_log \<Rightarrow>
    ('ip \<times> forwarded_trust) list \<times> 'ip refusal_verdict list \<times> 'ip refusal_log" where
  "accept_up_to order canon peers budget [] lg = ([], [], lg)"
| "accept_up_to order canon peers 0 evs lg = ([], [], lg)"
| "accept_up_to order canon peers budget ((AcceptError, _) # evs) lg = ([], [], lg)"
| "accept_up_to order canon peers (Suc budget) ((Conn ip nonblocking, now) # evs) lg =
     (case admit_peer canon peers ip of
        None \<Rightarrow>
          (case record_refusal order ip now lg of (v, lg) \<Rightarrow>
             (case accept_up_to order canon peers budget evs lg of (cs, vs, lg) \<Rightarrow> (cs, v # vs, lg)))
      | Some trust \<Rightarrow>
          (case accept_up_to order canon peers budget evs lg of (cs, vs, lg) \<Rightarrow>
             (if nonblocking then (ip, trust) # cs else cs, vs, lg)))"


section \<open>Nothing is lost, and nothing grows\<close>

text \<open>What a verdict reports, and what the log still owes.\<close>

definition reported :: "'ip refusal_verdict \<Rightarrow> nat" where
  "reported v = (case vd_peer_line v of Some n \<Rightarrow> n + 1 | None \<Rightarrow> 0) +
     (case vd_summary v of Some s \<Rightarrow> sm_other_refusals s | None \<Rightarrow> 0)"

definition owed :: "'ip refusal_log \<Rightarrow> nat" where
  "owed lg = sum_list (map (snd \<circ> snd) (lg_peers lg)) + sm_other_refusals (lg_summary lg)"

definition log_ok :: "'ip refusal_log \<Rightarrow> bool" where
  "log_ok lg \<longleftrightarrow> distinct (map fst (lg_peers lg)) \<and> length (lg_peers lg) \<le> lg_max_peers lg \<and>
     lg_lines_in_window lg \<le> REFUSAL_LOG_MAX_LINES \<and> length (lg_others lg) \<le> REFUSAL_LOG_MAX_OTHERS"

definition map_order_ok :: "'ip map_order \<Rightarrow> bool" where
  "map_order_ok order \<longleftrightarrow> (\<forall>m. set (order m) = set m)"

lemma length_update: "length (AList.update k v al) = (if k \<in> fst ` set al then length al else Suc (length al))"
  by (induction al) auto

lemma min_by_key_mem: "min_by_key f xs = Some x \<Longrightarrow> x \<in> set xs"
  by (induction xs arbitrary: x) (auto split: option.splits if_splits)

lemma min_by_key_least: "min_by_key f xs = Some x \<Longrightarrow> y \<in> set xs \<Longrightarrow> f x \<le> f y"
proof (induction xs arbitrary: x)
  case (Cons z xs)
  show ?case
  proof (cases "min_by_key f xs")
    case None
    then have "xs = []" by (cases xs) (auto split: option.splits if_splits)
    with Cons show ?thesis by simp
  next
    case (Some w)
    with Cons.IH [OF this] Cons.prems show ?thesis by (fastforce split: if_splits)
  qed
qed simp

lemma evict_stale_cases:
  assumes "map_order_ok order" "distinct (map fst (lg_peers lg))" "evict_stale order now lg = (b, lg')"
  obtains "\<not> b" "lg' = lg"
  | ip l where "b" "(ip, Some l, 0) \<in> set (lg_peers lg)" "lg_interval lg \<le> now - l" "lg' = lg\<lparr>lg_peers := AList.delete ip (lg_peers lg)\<rparr>"
proof -
  let ?cs = "List.map_filter (\<lambda>(ip, prev, suppressed). case prev of
            Some l \<Rightarrow> if suppressed = 0 \<and> lg_interval lg \<le> now - l then Some (l, ip) else None
          | None \<Rightarrow> None) (order (lg_peers lg))"
  show thesis
  proof (cases "min_by_key fst ?cs")
    case None
    with assms(3) that(1) show thesis by (simp add: evict_stale_def)
  next
    case (Some c)
    obtain l ip where c: "c = (l, ip)" by fastforce
    have "(l, ip) \<in> set ?cs" using min_by_key_mem [OF Some] c by simp
    then have "(ip, Some l, 0) \<in> set (lg_peers lg)" "lg_interval lg \<le> now - l"
      using assms(1) by (auto simp: map_filter_def map_order_ok_def split: option.splits if_splits)
    with Some c assms(3) that(2) show thesis by (simp add: evict_stale_def)
  qed
qed

lemma delete_present:
  assumes "distinct (map fst al)" "(k, v) \<in> set al"
  shows "sum_list (map f (AList.delete k al)) + f (k, v) = (sum_list (map f al) :: nat)"
    and "Suc (length (AList.delete k al)) = length al"
proof -
  have one: "filter (\<lambda>kv. fst kv = k) al = [(k, v)]"
    using filter_distinct_key [OF assms(1)] assms by simp
  have "sum_list (map f (filter (\<lambda>kv. fst kv \<noteq> k) al)) + sum_list (map f (filter (\<lambda>kv. fst kv = k) al)) = sum_list (map f al)"
    by (induction al) auto
  then show "sum_list (map f (AList.delete k al)) + f (k, v) = sum_list (map f al)" using one by (simp add: delete_filter)
  have "length (filter (\<lambda>kv. fst kv \<noteq> k) al) + length (filter (\<lambda>kv. fst kv = k) al) = length al"
    by (induction al) auto
  then show "Suc (length (AList.delete k al)) = length al" using one by (simp add: delete_filter)
qed

lemma turn_window_ok:
  assumes "turn_window now lg = (sm, lg')" "log_ok lg"
  shows "log_ok lg'" "owed lg' + (case sm of Some s \<Rightarrow> sm_other_refusals s | None \<Rightarrow> 0) = owed lg"
    "lg_interval lg' = lg_interval lg" "lg_peers lg' = lg_peers lg" "lg_max_peers lg' = lg_max_peers lg"
  using assms
  by (auto simp: turn_window_def Let_def log_ok_def owed_def no_summary_def split: option.splits if_splits)

lemma known_peer_ok:
  assumes "known_peer peer prev n now lg = (line, lg')" "map_of (lg_peers lg) peer = Some (prev, n)" "log_ok lg"
  shows "log_ok lg'" "owed lg' + (case line of Some k \<Rightarrow> k + 1 | None \<Rightarrow> 0) = owed lg + 1"
proof -
  have "peer \<in> fst ` set (lg_peers lg)" using assms(2) by (force dest: map_of_SomeD)
  then have len: "length (AList.update peer e (lg_peers lg)) = length (lg_peers lg)" for e by (simp add: length_update)
  show "log_ok lg'" using assms(1,3)
    by (auto simp: known_peer_def Let_def log_ok_def len distinct_update split: if_splits)
  have "sum_list (map (snd \<circ> snd) (AList.update peer (p, k) (lg_peers lg))) + n = sum_list (map (snd \<circ> snd) (lg_peers lg)) + k" for p k
    using sum_list_update [of "snd \<circ> snd" peer "(p, k)" "lg_peers lg"] assms(2) by simp
  from this [of prev "n + 1"] this [of "Some now" 0] show "owed lg' + (case line of Some k \<Rightarrow> k + 1 | None \<Rightarrow> 0) = owed lg + 1"
    using assms(1) by (auto simp: known_peer_def Let_def owed_def split: if_splits)
qed

lemma new_entry:
  assumes "peer \<notin> fst ` set al"
  shows "sum_list (map (snd \<circ> snd) (AList.update peer (p, k) al)) = sum_list (map (snd \<circ> snd) al) + (k :: nat)"
    and "length (AList.update peer (p, k) al) = Suc (length al)"
proof -
  have "map_of al peer = None" using assms by (simp add: map_of_eq_None_iff)
  then show "sum_list (map (snd \<circ> snd) (AList.update peer (p, k) al)) = sum_list (map (snd \<circ> snd) al) + k"
    using sum_list_update [of "snd \<circ> snd" peer "(p, k)" al] by simp
  show "length (AList.update peer (p, k) al) = Suc (length al)" using assms by (simp add: length_update)
qed

text \<open>A slot for a new peer: the table has one, or an entry that owes nothing gives its own up.\<close>

lemma slot_for_new_peer:
  assumes "log_ok lg" "map_order_ok order" "peer \<notin> fst ` set (lg_peers lg)"
    and "(if lg_max_peers lg \<le> length (lg_peers lg) then evict_stale order now lg else (False, lg)) = (evicted, lg')"
    and "\<not> (lg_max_peers lg \<le> length (lg_peers lg) \<and> \<not> evicted)"
  shows "\<exists>al. lg' = lg\<lparr>lg_peers := al\<rparr> \<and> distinct (map fst al) \<and> length al < lg_max_peers lg \<and> peer \<notin> fst ` set al \<and>
    sum_list (map (snd \<circ> snd) al) = sum_list (map (snd \<circ> snd) (lg_peers lg))"
proof (cases "lg_max_peers lg \<le> length (lg_peers lg)")
  case False
  then have "lg' = lg\<lparr>lg_peers := lg_peers lg\<rparr>" using assms(4) by simp
  with False assms(1,3) show ?thesis by (intro exI [of _ "lg_peers lg"]) (simp add: log_ok_def)
next
  case True
  have dist: "distinct (map fst (lg_peers lg))" using assms(1) by (simp add: log_ok_def)
  from True assms(4,5) have ev: "evict_stale order now lg = (evicted, lg')" "evicted" by simp_all
  from assms(2) dist ev(1) show ?thesis
  proof (cases rule: evict_stale_cases)
    case 1
    with ev(2) show ?thesis by simp
  next
    case (2 ip l)
    let ?al = "AList.delete ip (lg_peers lg)"
    have "Suc (length ?al) = length (lg_peers lg)"
      and "sum_list (map (snd \<circ> snd) ?al) = sum_list (map (snd \<circ> snd) (lg_peers lg))"
      using delete_present(1) [OF dist 2(2), where f = "snd \<circ> snd"] delete_present(2) [OF dist 2(2)] by simp_all
    moreover have "peer \<notin> fst ` set ?al" using assms(3) by (auto simp: delete_filter)
    ultimately show ?thesis using 2 assms(1) dist
      by (intro exI [of _ ?al]) (simp add: log_ok_def distinct_delete)
  qed
qed

lemma new_peer_ok:
  assumes "new_peer order peer now lg = (line, lg')" "map_of (lg_peers lg) peer = None" "log_ok lg" "map_order_ok order"
  shows "log_ok lg' \<and> owed lg' + (case line of Some k \<Rightarrow> k + 1 | None \<Rightarrow> 0) = owed lg + 1"
proof -
  have new: "peer \<notin> fst ` set (lg_peers lg)" using assms(2) by (simp add: map_of_eq_None_iff)
  obtain evicted lg1 where slot: "(if lg_max_peers lg \<le> length (lg_peers lg) then evict_stale order now lg else (False, lg)) = (evicted, lg1)"
    by fastforce
  show ?thesis
  proof (cases "lg_max_peers lg \<le> length (lg_peers lg) \<and> \<not> evicted")
    case True
    have dist: "distinct (map fst (lg_peers lg))" using assms(3) by (simp add: log_ok_def)
    from True slot have ev: "evict_stale order now lg = (evicted, lg1)" by simp
    have "lg1 = lg" by (rule evict_stale_cases [OF assms(4) dist ev]) (use True in auto)
    with True slot assms(1,3) show ?thesis
      by (auto simp: new_peer_def Let_def other_peer_def log_ok_def owed_def)
  next
    case False
    from slot_for_new_peer [OF assms(3,4) new slot False] obtain al where al: "lg1 = lg\<lparr>lg_peers := al\<rparr>" "distinct (map fst al)"
      "length al < lg_max_peers lg" "peer \<notin> fst ` set al"
      "sum_list (map (snd \<circ> snd) al) = sum_list (map (snd \<circ> snd) (lg_peers lg))" by blast
    have eq: "(line, lg') = (if REFUSAL_LOG_MAX_LINES \<le> lg_lines_in_window lg1
         then (None, lg1\<lparr>lg_peers := AList.update peer (None, 1) (lg_peers lg1),
                lg_summary := (lg_summary lg1)\<lparr>sm_over_limit := sm_over_limit (lg_summary lg1) + 1\<rparr>\<rparr>)
         else (Some 0, lg1\<lparr>lg_lines_in_window := lg_lines_in_window lg1 + 1,
                lg_peers := AList.update peer (Some now, 0) (lg_peers lg1)\<rparr>))"
      using assms(1) slot False by (simp add: new_peer_def Let_def split: if_splits)
    show ?thesis
    proof (cases "REFUSAL_LOG_MAX_LINES \<le> lg_lines_in_window lg")
      case True
      with eq al assms(3) show ?thesis
        by (simp add: log_ok_def owed_def new_entry [OF al(4)] distinct_update)
    next
      case False
      with eq al assms(3) show ?thesis
        by (simp add: log_ok_def owed_def new_entry [OF al(4)] distinct_update)
    qed
  qed
qed

lemma record_refusal_cases:
  assumes "record_refusal order peer now lg = (v, lg')"
  obtains (new) sm lg1 line where "turn_window now lg = (sm, lg1)" "map_of (lg_peers lg1) peer = None"
      "new_peer order peer now lg1 = (line, lg')" "v = \<lparr>vd_peer_line = line, vd_summary = sm\<rparr>"
  | (known) sm lg1 line prev n where "turn_window now lg = (sm, lg1)" "map_of (lg_peers lg1) peer = Some (prev, n)"
      "known_peer peer prev n now lg1 = (line, lg')" "v = \<lparr>vd_peer_line = line, vd_summary = sm\<rparr>"
  using assms new known by (auto simp: record_refusal_def split: prod.splits option.splits)

lemma record_refusal_ok:
  assumes "record_refusal order peer now lg = (v, lg')" "log_ok lg" "map_order_ok order"
  shows "log_ok lg' \<and> owed lg' + reported v = owed lg + 1"
  using assms(1)
proof (cases rule: record_refusal_cases)
  case (new sm lg1 line)
  note turned = turn_window_ok [OF new(1) assms(2)]
  from new_peer_ok [OF new(3,2) turned(1) assms(3)] turned(2) new(4) show ?thesis by (auto simp: reported_def)
next
  case (known sm lg1 line prev n)
  note turned = turn_window_ok [OF known(1) assms(2)]
  from known_peer_ok [OF known(3,2) turned(1)] turned(2) known(4) show ?thesis by (auto simp: reported_def)
qed

section \<open>A run of refusals\<close>

fun refusal_run :: "'ip map_order \<Rightarrow> ('ip \<times> nat) list \<Rightarrow> 'ip refusal_log \<Rightarrow> 'ip refusal_verdict list \<times> 'ip refusal_log" where
  "refusal_run order [] lg = ([], lg)"
| "refusal_run order ((peer, now) # evs) lg =
     (case record_refusal order peer now lg of (v, lg) \<Rightarrow> (case refusal_run order evs lg of (vs, lg) \<Rightarrow> (v # vs, lg)))"

definition has_line :: "'ip refusal_verdict \<Rightarrow> nat" where
  "has_line v = (if vd_peer_line v = None then 0 else 1)"

text \<open>The lines the windows up to now leave room for.\<close>

definition line_budget :: "nat \<Rightarrow> 'ip refusal_log \<Rightarrow> nat" where
  "line_budget t0 lg =
     (case lg_window_start lg of None \<Rightarrow> 0
      | Some w \<Rightarrow> REFUSAL_LOG_MAX_LINES * ((w - t0) div lg_interval lg) + lg_lines_in_window lg)"

lemma known_peer_frame:
  "known_peer peer prev n now lg = (line, lg') \<Longrightarrow>
   lg_window_start lg' = lg_window_start lg \<and> lg_interval lg' = lg_interval lg \<and> lg_max_peers lg' = lg_max_peers lg \<and>
   lg_lines_in_window lg' = lg_lines_in_window lg + (if line = None then 0 else 1)"
  by (auto simp: known_peer_def Let_def split: if_splits)

lemma evict_stale_frame:
  "evict_stale order now lg = (b, lg') \<Longrightarrow>
   lg_window_start lg' = lg_window_start lg \<and> lg_interval lg' = lg_interval lg \<and> lg_max_peers lg' = lg_max_peers lg \<and>
   lg_lines_in_window lg' = lg_lines_in_window lg"
  by (auto simp: evict_stale_def Let_def split: option.splits prod.splits)

lemma new_peer_frame:
  "new_peer order peer now lg = (line, lg') \<Longrightarrow>
   lg_window_start lg' = lg_window_start lg \<and> lg_interval lg' = lg_interval lg \<and> lg_max_peers lg' = lg_max_peers lg \<and>
   lg_lines_in_window lg' = lg_lines_in_window lg + (if line = None then 0 else 1)"
  by (auto simp: new_peer_def other_peer_def Let_def dest!: evict_stale_frame split: if_splits prod.splits)

lemma turn_window_budget:
  assumes "turn_window now lg = (sm, lg')" "log_ok lg" "0 < lg_interval lg" "t0 \<le> now"
    and "\<And>w. lg_window_start lg = Some w \<Longrightarrow> t0 \<le> w \<and> w \<le> now"
  shows "line_budget t0 lg \<le> line_budget t0 lg' \<and> (\<exists>w. lg_window_start lg' = Some w \<and> t0 \<le> w \<and> w \<le> now)"
proof (cases "lg_window_start lg")
  case None
  with assms(1,4) show ?thesis by (auto simp: turn_window_def Let_def line_budget_def)
next
  case (Some w)
  show ?thesis
  proof (cases "now - w < lg_interval lg")
    case True
    with assms(1,5) Some show ?thesis by (auto simp: turn_window_def Let_def)
  next
    case False
    have w: "t0 \<le> w" "w \<le> now" using assms(5) [OF Some] by auto
    then have "w - t0 + lg_interval lg \<le> now - t0" using False by simp
    then have "(w - t0) div lg_interval lg + 1 \<le> (now - t0) div lg_interval lg"
      using assms(3) by (metis div_add_self2 div_le_mono less_numeral_extra(3))
    then have "REFUSAL_LOG_MAX_LINES * ((w - t0) div lg_interval lg + 1) \<le> REFUSAL_LOG_MAX_LINES * ((now - t0) div lg_interval lg)"
      by (rule mult_le_mono2)
    with False Some assms(1,2,4) show ?thesis
      by (auto simp: turn_window_def Let_def line_budget_def log_ok_def split: if_splits)
  qed
qed

lemma record_refusal_budget:
  assumes "record_refusal order peer now lg = (v, lg')" "log_ok lg" "0 < lg_interval lg" "t0 \<le> now"
    and "\<And>w. lg_window_start lg = Some w \<Longrightarrow> t0 \<le> w \<and> w \<le> now"
  shows "line_budget t0 lg + has_line v \<le> line_budget t0 lg'"
    and "\<exists>w. lg_window_start lg' = Some w \<and> t0 \<le> w \<and> w \<le> now"
    and "lg_interval lg' = lg_interval lg" and "lg_max_peers lg' = lg_max_peers lg"
proof -
  obtain sm lg1 line where t: "turn_window now lg = (sm, lg1)" and v: "v = \<lparr>vd_peer_line = line, vd_summary = sm\<rparr>"
    and frame: "lg_window_start lg' = lg_window_start lg1 \<and> lg_interval lg' = lg_interval lg1 \<and> lg_max_peers lg' = lg_max_peers lg1 \<and>
      lg_lines_in_window lg' = lg_lines_in_window lg1 + (if line = None then 0 else 1)"
    using assms(1) by (cases rule: record_refusal_cases) (metis known_peer_frame new_peer_frame)+
  note turned = turn_window_ok [OF t assms(2)]
  from turn_window_budget [OF t assms(2-5)] obtain w where w: "lg_window_start lg1 = Some w" "t0 \<le> w" "w \<le> now"
    and le: "line_budget t0 lg \<le> line_budget t0 lg1" by blast
  show "lg_interval lg' = lg_interval lg" "lg_max_peers lg' = lg_max_peers lg" using frame turned by simp_all
  show "\<exists>w. lg_window_start lg' = Some w \<and> t0 \<le> w \<and> w \<le> now" using frame w by simp
  show "line_budget t0 lg + has_line v \<le> line_budget t0 lg'"
    using le frame w v by (simp add: line_budget_def has_line_def)
qed

lemma refusal_run_ok:
  assumes "refusal_run order evs lg = (vs, lg')" "log_ok lg" "map_order_ok order" "0 < lg_interval lg"
    and "sorted (t0 # map snd evs)" "\<And>w e. lg_window_start lg = Some w \<Longrightarrow> e \<in> set evs \<Longrightarrow> t0 \<le> w \<and> w \<le> snd e"
    and "\<And>w. lg_window_start lg = Some w \<Longrightarrow> w \<le> bound" "\<And>e. e \<in> set evs \<Longrightarrow> snd e \<le> bound"
  shows "log_ok lg' \<and> lg_max_peers lg' = lg_max_peers lg \<and> lg_interval lg' = lg_interval lg \<and>
    owed lg' + sum_list (map reported vs) = owed lg + length evs \<and>
    line_budget t0 lg + sum_list (map has_line vs) \<le> line_budget t0 lg' \<and>
    (\<forall>w. lg_window_start lg' = Some w \<longrightarrow> w \<le> bound)"
  using assms
proof (induction evs arbitrary: lg vs)
  case (Cons e evs)
  obtain peer now where e: "e = (peer, now)" by fastforce
  obtain v lg1 where r: "record_refusal order peer now lg = (v, lg1)" by fastforce
  obtain vs1 lg2 where run: "refusal_run order evs lg1 = (vs1, lg2)" by fastforce
  have vs: "vs = v # vs1" "lg2 = lg'" using Cons.prems(1) e r run by auto
  have now: "t0 \<le> now" "\<And>x. x \<in> set evs \<Longrightarrow> now \<le> snd x" "sorted (t0 # map snd evs)" "now \<le> bound"
    using Cons.prems(5) Cons.prems(8) [of e] e by auto
  have win: "t0 \<le> w \<and> w \<le> now" if "lg_window_start lg = Some w" for w using Cons.prems(6) [OF that, of e] e by simp
  note ok = record_refusal_ok [OF r Cons.prems(2,3)]
  note step = record_refusal_budget [OF r Cons.prems(2,4) now(1) win]
  from step(2) obtain w where w: "lg_window_start lg1 = Some w" "t0 \<le> w" "w \<le> now" by blast
  have "log_ok lg' \<and> lg_max_peers lg' = lg_max_peers lg1 \<and> lg_interval lg' = lg_interval lg1 \<and>
    owed lg' + sum_list (map reported vs1) = owed lg1 + length evs \<and>
    line_budget t0 lg1 + sum_list (map has_line vs1) \<le> line_budget t0 lg' \<and>
    (\<forall>w. lg_window_start lg' = Some w \<longrightarrow> w \<le> bound)"
  proof (rule Cons.IH)
    show "refusal_run order evs lg1 = (vs1, lg')" using run vs by simp
    show "log_ok lg1" "map_order_ok order" "0 < lg_interval lg1" "sorted (t0 # map snd evs)"
      using ok Cons.prems(3,4) step(3) now(3) by auto
    show "t0 \<le> w' \<and> w' \<le> snd x" if "lg_window_start lg1 = Some w'" "x \<in> set evs" for w' x
      using that w now(2) [OF that(2)] by auto
    show "w' \<le> bound" if "lg_window_start lg1 = Some w'" for w' using that w now(4) by auto
    show "snd x \<le> bound" if "x \<in> set evs" for x using that Cons.prems(8) by auto
  qed
  with ok step vs show ?case by auto
qed auto


lemma new_log: "log_ok (refusal_log_new interval max_peers)" "owed (refusal_log_new interval max_peers) = 0"
  "line_budget t0 (refusal_log_new interval max_peers) = 0" "lg_window_start (refusal_log_new interval max_peers) = None"
  by (simp_all add: refusal_log_new_def log_ok_def owed_def line_budget_def no_summary_def)

text \<open>The refusal log loses no refusal and cannot be made to grow or to flood the log. After any
  sequence of refused connections, at increasing times and from any addresses: every refusal is
  counted once, in a line already written (with the count it carries), in a summary already
  written, or in what the next ones owe; at most the configured number of peers and 1024 further
  addresses are held; and at most 32 lines per window have been written.\<close>

theorem refusal_log_accounts:
  assumes "refusal_run order evs (refusal_log_new interval max_peers) = (vs, lg)" "map_order_ok order" "0 < interval"
    and "sorted (map snd evs)" "evs \<noteq> []"
  shows "sum_list (map reported vs) + owed lg = length evs \<and>
    length (lg_peers lg) \<le> max_peers \<and> length (lg_others lg) \<le> 1024 \<and>
    sum_list (map has_line vs) \<le> 32 * (1 + (snd (last evs) - snd (hd evs)) div interval)"
proof -
  let ?t0 = "snd (hd evs)" and ?t1 = "snd (last evs)"
  have t0: "sorted (?t0 # map snd evs)" using assms(4,5) by (cases evs) auto
  have "snd e \<le> ?t1" if "e \<in> set evs" for e
    using assms(4) that by (induction evs) auto
  from refusal_run_ok [OF assms(1) new_log(1) assms(2) _ t0, of ?t1] this assms(3)
  have run: "log_ok lg" "lg_max_peers lg = max_peers" "lg_interval lg = interval"
    "owed lg + sum_list (map reported vs) = length evs" "sum_list (map has_line vs) \<le> line_budget ?t0 lg"
    "\<And>w. lg_window_start lg = Some w \<Longrightarrow> w \<le> ?t1"
    by (auto simp: new_log) (auto simp: refusal_log_new_def)
  have "line_budget ?t0 lg \<le> 32 * (1 + (?t1 - ?t0) div interval)"
  proof (cases "lg_window_start lg")
    case (Some w)
    then have "(w - ?t0) div interval \<le> (?t1 - ?t0) div interval" using run(6) by (simp add: div_le_mono)
    with Some run(1,3) show ?thesis by (simp add: line_budget_def log_ok_def REFUSAL_LOG_MAX_LINES_def)
  qed (simp add: line_budget_def)
  with run show ?thesis by (auto simp: log_ok_def REFUSAL_LOG_MAX_OTHERS_def)
qed

theorem refusal_log_accounts_witness:
  "\<exists>vs lg. refusal_run id [(1, 0), (1, 1), (2, 2), (3, 3), (1, 70)] (refusal_log_new 60 2) = (vs, lg :: nat refusal_log) \<and>
     map reported vs = [1, 0, 1, 0, 3] \<and> sum_list (map reported vs) + owed lg = 5 \<and> length (lg_peers lg) \<le> 2"
proof -
  let ?evs = "[(1, 0), (1, 1), (2, 2), (3, 3), (1, 70)]"
  obtain vs and lg :: "nat refusal_log" where run: "refusal_run id ?evs (refusal_log_new 60 2) = (vs, lg)" by fastforce
  moreover have "map reported (fst (refusal_run id ?evs (refusal_log_new 60 2 :: nat refusal_log))) = [1, 0, 1, 0, 3]"
    by code_simp
  moreover have "map_order_ok (id :: nat map_order)" by (simp add: map_order_ok_def)
  ultimately show ?thesis using refusal_log_accounts [OF run] by auto
qed

text \<open>An internal listener takes a connection only from one of its peers, and only such a
  connection may forward the address of a client.\<close>

lemma accept_up_to_admits:
  "accept_up_to order canon peers budget evs lg = (cs, vs, lg') \<Longrightarrow> (ip, trust) \<in> set cs \<Longrightarrow> admit_peer canon peers ip = Some trust"
  by (induction order canon peers budget evs lg arbitrary: cs vs lg' rule: accept_up_to.induct)
    (auto split: option.splits prod.splits if_splits)

lemma accept_up_to_budget:
  "accept_up_to order canon peers budget evs lg = (cs, vs, lg') \<Longrightarrow> length cs + length vs \<le> budget"
  by (induction order canon peers budget evs lg arbitrary: cs vs lg' rule: accept_up_to.induct)
    (fastforce split: option.splits prod.splits if_splits)+

end
