(* ===== verification/Conn_Driver.thy ===== *)
theory Conn_Driver
  imports H1_Listener
begin

text \<open>
  One accepted connection of \<open>Http11Listener\<close> (\<open>drive_conn\<close>, \<open>drive_all\<close> and \<open>accept_pending\<close> of
  \<open>m6-http/src/http11.rs\<close>): the TLS handshake with the measurement of it, the choice of the protocol,
  and the dispatch to the HTTP/1.1 machine of \<open>H1_Listener\<close> or to the HTTP/2 engine.

  \<^item> \<open>tls_io\<close> is what the driver asks of rustls. \<open>h2_engine\<close> is the interface of \<open>Http2Conn\<close>, whose
    model is that of the HTTP/2 theories.
\<close>

section \<open>State\<close>

datatype 'h2 conn_kind = Handshake string nat | Http1 h1_conn | Http2 'h2

record ('h2, 's) conn =
  cn_handshake_ns :: "nat option"
  cn_handshake_h2 :: bool
  cn_handshake_resumed :: bool
  cn_tls :: bool
  cn_stream :: 's
  cn_kind :: "'h2 conn_kind"

record handshake_sample =
  sp_elapsed_ns :: nat
  sp_is_h2 :: bool
  sp_resumed :: bool

record 's tls_io =
  ti_plain :: "'s h1_io"
  ti_tls :: "'s h1_io"
  ti_is_handshaking :: "'s \<Rightarrow> bool"
  ti_alpn :: "'s \<Rightarrow> bytes option"
  ti_resumed :: "'s \<Rightarrow> bool"

record ('h2, 's, 'v) h2_engine =
  he_new :: 'h2
  he_drive :: "'h2 \<Rightarrow> string \<Rightarrow> 's \<Rightarrow> 'v \<Rightarrow> ('h2 \<times> 's \<times> 'v) outcome"
  he_is_done :: "'h2 \<Rightarrow> bool"
  he_peer_ip :: "'s \<Rightarrow> string"

definition conn_is_done :: "('h2, 's, 'v) h2_engine \<Rightarrow> ('h2, 's) conn \<Rightarrow> bool" where
  "conn_is_done eng c = (case cn_kind c of Http1 h \<Rightarrow> hc_state h = Done | Http2 h2 \<Rightarrow> he_is_done eng h2 | Handshake _ _ \<Rightarrow> False)"

definition accept_conn :: "'s tls_io \<Rightarrow> bool \<Rightarrow> string \<Rightarrow> nat \<Rightarrow> 's \<Rightarrow> ('h2, 's) conn" where
  "accept_conn tio tls ip now s =
     \<lparr>cn_handshake_ns = None, cn_handshake_h2 = False, cn_handshake_resumed = False, cn_tls = tls,
      cn_stream = (if tls then snd (io_advance (ti_tls tio) s) else s),
      cn_kind = (if tls then Handshake ip now else Http1 (h1_new ip now))\<rparr>"

section \<open>One connection\<close>

definition stamp_handshake :: "'s tls_io \<Rightarrow> nat \<Rightarrow> ('h2, 's) conn \<Rightarrow> ('h2, 's) conn" where
  "stamp_handshake tio now c =
     (case (cn_handshake_ns c, cn_kind c) of
        (None, Handshake _ created) \<Rightarrow>
          if ti_is_handshaking tio (cn_stream c) then c
          else c\<lparr>cn_handshake_ns := Some ((now - created) mod 2 ^ 64),
                 cn_handshake_h2 := (ti_alpn tio (cn_stream c) = Some ''h2''),
                 cn_handshake_resumed := ti_resumed tio (cn_stream c)\<rparr>
      | _ \<Rightarrow> c)"

definition run_h1 :: "httparse \<Rightarrow> 's h1_io \<Rightarrow> 'v h1_handler \<Rightarrow> nat \<Rightarrow> nat \<Rightarrow> h1_conn \<Rightarrow> ('h2, 's) conn \<Rightarrow> 'v \<Rightarrow>
    (('h2, 's) conn \<times> 'v) outcome" where
  "run_h1 hp io hn now done_at h c v =
     bind_outcome (drive_h1 hp io hn now done_at h (cn_stream c) v) (\<lambda>(h, s, v). Val (c\<lparr>cn_stream := s, cn_kind := Http1 h\<rparr>, v))"

definition run_h2 :: "('h2, 's, 'v) h2_engine \<Rightarrow> 'h2 \<Rightarrow> string \<Rightarrow> ('h2, 's) conn \<Rightarrow> 'v \<Rightarrow> (('h2, 's) conn \<times> 'v) outcome" where
  "run_h2 eng h2 ip c v =
     bind_outcome (he_drive eng h2 ip (cn_stream c) v) (\<lambda>(h2, s, v). Val (c\<lparr>cn_stream := s, cn_kind := Http2 h2\<rparr>, v))"

definition drive_conn :: "httparse \<Rightarrow> 's tls_io \<Rightarrow> ('h2, 's, 'v) h2_engine \<Rightarrow> 'v h1_handler \<Rightarrow> nat \<Rightarrow> nat \<Rightarrow>
    ('h2, 's) conn \<Rightarrow> 'v \<Rightarrow> (('h2, 's) conn \<times> 'v) outcome" where
  "drive_conn hp tio eng hn now done_at c v =
     (if \<not> cn_tls c then
        (case cn_kind c of Http1 h \<Rightarrow> run_h1 hp (ti_plain tio) hn now done_at h c v | _ \<Rightarrow> Val (c, v))
      else (case cn_kind c of
        Http2 h2 \<Rightarrow> run_h2 eng h2 (he_peer_ip eng (cn_stream c)) c v
      | _ \<Rightarrow>
          (case io_advance (ti_tls tio) (cn_stream c) of (ok, s) \<Rightarrow>
            (let c = stamp_handshake tio now (c\<lparr>cn_stream := s\<rparr>) in
             if \<not> ok then Val (c\<lparr>cn_kind := Http1 (h1_dead now)\<rparr>, v)
             else if ti_is_handshaking tio s then Val (c, v)
             else (case cn_kind c of
               Handshake ip created \<Rightarrow>
                 if ti_alpn tio s = Some ''h2'' then run_h2 eng (he_new eng) ip c v
                 else run_h1 hp (ti_tls tio) hn now done_at (h1_new ip created) c v
             | Http1 h \<Rightarrow> run_h1 hp (ti_tls tio) hn now done_at h c v
             | Http2 _ \<Rightarrow> Val (c, v))))))"

section \<open>All connections\<close>

definition take_sample :: "('h2, 's) conn \<Rightarrow> handshake_sample list \<times> ('h2, 's) conn" where
  "take_sample c = (case cn_handshake_ns c of
     Some ns \<Rightarrow> ([\<lparr>sp_elapsed_ns = ns, sp_is_h2 = cn_handshake_h2 c, sp_resumed = cn_handshake_resumed c\<rparr>], c\<lparr>cn_handshake_ns := None\<rparr>)
   | None \<Rightarrow> ([], c))"

fun drive_each :: "httparse \<Rightarrow> 's tls_io \<Rightarrow> ('h2, 's, 'v) h2_engine \<Rightarrow> 'v h1_handler \<Rightarrow> nat \<Rightarrow> nat \<Rightarrow>
    ('h2, 's) conn list \<Rightarrow> 'v \<Rightarrow> (handshake_sample list \<times> ('h2, 's) conn list \<times> 'v) outcome" where
  "drive_each hp tio eng hn now done_at [] v = Val ([], [], v)"
| "drive_each hp tio eng hn now done_at (c # cs) v =
     bind_outcome (drive_conn hp tio eng hn now done_at c v) (\<lambda>(c, v).
       bind_outcome (drive_each hp tio eng hn now done_at cs v) (\<lambda>(samples, cs, v).
         Val (fst (take_sample c) @ samples, snd (take_sample c) # cs, v)))"

definition drive_all :: "httparse \<Rightarrow> 's tls_io \<Rightarrow> ('h2, 's, 'v) h2_engine \<Rightarrow> 'v h1_handler \<Rightarrow> nat \<Rightarrow> nat \<Rightarrow>
    ('h2, 's) conn list \<Rightarrow> 'v \<Rightarrow> (handshake_sample list \<times> ('h2, 's) conn list \<times> 'v) outcome" where
  "drive_all hp tio eng hn now done_at cs v =
     bind_outcome (drive_each hp tio eng hn now done_at cs v) (\<lambda>(samples, cs, v).
       Val (samples, filter (\<lambda>c. \<not> conn_is_done eng c) cs, v))"

section \<open>A handshake is measured once\<close>

fun in_handshake :: "'h2 conn_kind \<Rightarrow> bool" where
  "in_handshake (Handshake _ _) = True"
| "in_handshake _ = False"

text \<open>Whether a drive finds the handshake of the connection complete.\<close>

definition completes :: "'s tls_io \<Rightarrow> ('h2, 's) conn \<Rightarrow> bool" where
  "completes tio c \<longleftrightarrow> cn_tls c \<and> in_handshake (cn_kind c) \<and> \<not> ti_is_handshaking tio (snd (io_advance (ti_tls tio) (cn_stream c)))"

lemma run_kind:
  "run_h1 hp io hn now done_at h c v = Val (c', v') \<Longrightarrow> \<not> in_handshake (cn_kind c') \<and> cn_handshake_ns c' = cn_handshake_ns c \<and> cn_tls c' = cn_tls c"
  "run_h2 eng h2 ip c v = Val (c', v') \<Longrightarrow> \<not> in_handshake (cn_kind c') \<and> cn_handshake_ns c' = cn_handshake_ns c \<and> cn_tls c' = cn_tls c"
  by (auto simp: run_h1_def run_h2_def bind_outcome_eq_Val)

lemma stamp_handshake_ns:
  assumes "cn_handshake_ns c = None"
  shows "cn_handshake_ns (stamp_handshake tio now c) \<noteq> None \<longleftrightarrow> in_handshake (cn_kind c) \<and> \<not> ti_is_handshaking tio (cn_stream c)"
    and "cn_kind (stamp_handshake tio now c) = cn_kind c" and "cn_tls (stamp_handshake tio now c) = cn_tls c"
  using assms by (auto simp: stamp_handshake_def split: conn_kind.splits)

lemma drive_conn_stamp:
  assumes "drive_conn hp tio eng hn now done_at c v = Val (c', v')" "cn_handshake_ns c = None"
  shows "cn_handshake_ns c' \<noteq> None \<longleftrightarrow> completes tio c"
    and "in_handshake (cn_kind c') \<Longrightarrow> in_handshake (cn_kind c) \<and> \<not> completes tio c"
    and "cn_tls c' = cn_tls c"
proof -
  obtain ok s where adv: "io_advance (ti_tls tio) (cn_stream c) = (ok, s)" by fastforce
  let ?c = "stamp_handshake tio now (c\<lparr>cn_stream := s\<rparr>)"
  have stamp: "cn_handshake_ns ?c \<noteq> None \<longleftrightarrow> in_handshake (cn_kind c) \<and> \<not> ti_is_handshaking tio s"
    "cn_kind ?c = cn_kind c" "cn_tls ?c = cn_tls c"
    using stamp_handshake_ns [of "c\<lparr>cn_stream := s\<rparr>" tio now] assms(2) by simp_all
  have "(cn_handshake_ns c' \<noteq> None \<longleftrightarrow> completes tio c) \<and>
    (in_handshake (cn_kind c') \<longrightarrow> in_handshake (cn_kind c) \<and> \<not> completes tio c) \<and> cn_tls c' = cn_tls c"
  proof (cases "cn_tls c")
    case False
    with assms show ?thesis
      by (auto simp: drive_conn_def completes_def dest: run_kind split: conn_kind.splits)
  next
    case True
    show ?thesis
    proof (cases "cn_kind c")
      case (Http2 h2)
      with True assms show ?thesis by (auto simp: drive_conn_def completes_def dest: run_kind)
    next
      case (Http1 h)
      with True assms adv stamp show ?thesis
        by (auto simp: drive_conn_def completes_def Let_def dest!: run_kind split: if_splits)
    next
      case (Handshake ip created)
      with True assms adv stamp show ?thesis
        by (auto simp: drive_conn_def completes_def Let_def dest!: run_kind split: if_splits)
    qed
  qed
  then show "cn_handshake_ns c' \<noteq> None \<longleftrightarrow> completes tio c"
    "in_handshake (cn_kind c') \<Longrightarrow> in_handshake (cn_kind c) \<and> \<not> completes tio c" "cn_tls c' = cn_tls c" by blast+
qed


text \<open>A connection over its life; between two drives the peer and the network change its stream.\<close>

fun conn_run :: "httparse \<Rightarrow> 's tls_io \<Rightarrow> ('h2, 's, 'v) h2_engine \<Rightarrow> 'v h1_handler \<Rightarrow> (nat \<times> nat \<times> ('s \<Rightarrow> 's)) list \<Rightarrow>
    ('h2, 's) conn \<Rightarrow> 'v \<Rightarrow> (handshake_sample list \<times> ('h2, 's) conn \<times> 'v) outcome" where
  "conn_run hp tio eng hn [] c v = Val ([], c, v)"
| "conn_run hp tio eng hn ((now, done_at, f) # ts) c v =
     bind_outcome (drive_conn hp tio eng hn now done_at (c\<lparr>cn_stream := f (cn_stream c)\<rparr>) v) (\<lambda>(c, v).
       bind_outcome (conn_run hp tio eng hn ts (snd (take_sample c)) v) (\<lambda>(samples, c', v).
         Val (fst (take_sample c) @ samples, c', v)))"

lemma take_sample_frame:
  "cn_handshake_ns (snd (take_sample c)) = None" "cn_kind (snd (take_sample c)) = cn_kind c" "cn_tls (snd (take_sample c)) = cn_tls c"
  "length (fst (take_sample c)) = (if cn_handshake_ns c = None then 0 else 1)"
  by (simp_all add: take_sample_def split: option.splits)

lemma conn_run_handshake:
  "conn_run hp tio eng hn ts c v = Val (samples, c', v') \<Longrightarrow> cn_handshake_ns c = None \<Longrightarrow> in_handshake (cn_kind c') \<Longrightarrow>
   in_handshake (cn_kind c)"
proof (induction ts arbitrary: c v samples)
  case (Cons t ts)
  obtain now done_at f where t: "t = (now, done_at, f)" by (metis surj_pair)
  from Cons.prems(1) t obtain c1 v1 rest
    where step: "drive_conn hp tio eng hn now done_at (c\<lparr>cn_stream := f (cn_stream c)\<rparr>) v = Val (c1, v1)"
    "conn_run hp tio eng hn ts (snd (take_sample c1)) v1 = Val (rest, c', v')"
    by (auto simp: bind_outcome_eq_Val)
  have "in_handshake (cn_kind c1)" using Cons.IH [OF step(2)] Cons.prems(3) by (simp add: take_sample_frame)
  with drive_conn_stamp(2) [OF step(1)] Cons.prems(2) show ?case by simp
qed simp

lemma conn_run_samples:
  "conn_run hp tio eng hn ts c v = Val (samples, c', v') \<Longrightarrow> cn_handshake_ns c = None \<Longrightarrow>
   length samples \<le> (if cn_tls c \<and> in_handshake (cn_kind c) then 1 else 0) \<and> (in_handshake (cn_kind c') \<longrightarrow> samples = [])"
proof (induction ts arbitrary: c v samples)
  case (Cons t ts)
  obtain now done_at f where t: "t = (now, done_at, f)" by (metis surj_pair)
  let ?c = "c\<lparr>cn_stream := f (cn_stream c)\<rparr>"
  from Cons.prems(1) t obtain c1 v1 rest where step: "drive_conn hp tio eng hn now done_at ?c v = Val (c1, v1)"
    "conn_run hp tio eng hn ts (snd (take_sample c1)) v1 = Val (rest, c', v')" "samples = fst (take_sample c1) @ rest"
    by (auto simp: bind_outcome_eq_Val)
  have none: "cn_handshake_ns ?c = None" using Cons.prems(2) by simp
  note stamp = drive_conn_stamp [OF step(1) none]
  have len: "length samples = (if completes tio ?c then 1 else 0) + length rest"
    using stamp(1) step(3) by (auto simp: take_sample_frame)
  have rest: "length rest \<le> (if cn_tls c1 \<and> in_handshake (cn_kind c1) then 1 else 0)" "in_handshake (cn_kind c') \<longrightarrow> rest = []"
    using Cons.IH [OF step(2)] by (simp_all add: take_sample_frame)
  have late: "in_handshake (cn_kind c') \<longrightarrow> \<not> completes tio ?c"
  proof
    assume "in_handshake (cn_kind c')"
    then have "in_handshake (cn_kind (snd (take_sample c1)))" using conn_run_handshake [OF step(2)] by (simp add: take_sample_frame)
    then show "\<not> completes tio ?c" using stamp(2) by (simp add: take_sample_frame)
  qed
  show ?case
  proof (cases "completes tio ?c")
    case True
    then have "\<not> in_handshake (cn_kind c1)" using stamp(2) by blast
    with True rest(1) len late show ?thesis by (auto simp: completes_def)
  next
    case False
    then have "in_handshake (cn_kind c1) \<Longrightarrow> in_handshake (cn_kind c)" using stamp(2) by auto
    with False rest len stamp(3) show ?thesis by (auto split: if_splits)
  qed
qed simp

text \<open>The handshake of a connection is reported at most once, whatever happens to the connection
  (by \<open>drive_conn_stamp\<close>, in the drive that finds it complete, also when the transport fails in the
  same drive), and a plaintext connection reports none.\<close>

theorem handshake_sampled_once:
  assumes "conn_run hp tio eng hn ts (accept_conn tio tls ip now s) v = Val (samples, c', v')"
  shows "length samples \<le> (if tls then 1 else 0)" "in_handshake (cn_kind c') \<Longrightarrow> samples = []"
  using conn_run_samples [OF assms] by (auto simp: accept_conn_def split: if_splits)

text \<open>A connection whose handshake never completes is never dropped: its age is not looked at.\<close>

lemma handshake_never_times_out:
  assumes "cn_tls c" "cn_kind c = Handshake ip created" "io_advance (ti_tls tio) (cn_stream c) = (True, s)"
    and "ti_is_handshaking tio s" "cn_handshake_ns c = None"
  shows "drive_conn hp tio eng hn now done_at c v = Val (c\<lparr>cn_stream := s\<rparr>, v) \<and> \<not> conn_is_done eng (c\<lparr>cn_stream := s\<rparr>)"
  using assms by (simp add: drive_conn_def stamp_handshake_def conn_is_done_def Let_def)

end
