(* ===== verification/App_Dict.thy ===== *)
theory App_Dict
  imports Request_Text "HOL-Library.Char_ord" "HOL-Library.List_Lexorder"
begin

text \<open>
  The request dictionary of \<open>m6-core/src/dict.rs\<close> and the values it holds.

  \<open>serde_json::Map\<close> is a \<open>BTreeMap\<close> here (the feature \<open>preserve_order\<close> is off), so a map is an
  association list in the order of its keys, which is the order its iterators follow. A dictionary is
  a shared base under an overlay of the request: a lookup asks the overlay first.
\<close>

section \<open>JSON values and maps\<close>

datatype json =
    JNull
  | JBool bool
  | JNumber string
  | JString string
  | JArray "json list"
  | JObject "(string \<times> json) list"

type_synonym json_map = "(string \<times> json) list"

fun map_insert :: "string \<Rightarrow> 'v \<Rightarrow> (string \<times> 'v) list \<Rightarrow> (string \<times> 'v) list" where
  "map_insert k v [] = [(k, v)]"
| "map_insert k v ((a, b) # m) =
     (if k < a then (k, v) # (a, b) # m
      else if k = a then (k, v) # m
      else (a, b) # map_insert k v m)"

definition map_extend :: "(string \<times> 'v) list \<Rightarrow> (string \<times> 'v) list \<Rightarrow> (string \<times> 'v) list" where
  "map_extend m entries = foldl (\<lambda>m (k, v). map_insert k v m) m entries"

definition map_ok :: "(string \<times> 'v) list \<Rightarrow> bool" where
  "map_ok m \<longleftrightarrow> sorted_wrt (<) (map fst m)"

fun as_str :: "json \<Rightarrow> string option" where
  "as_str (JString s) = Some s"
| "as_str _ = None"

fun as_object :: "json \<Rightarrow> json_map option" where
  "as_object (JObject m) = Some m"
| "as_object _ = None"

text \<open>\<open>Value::get\<close> with a string index.\<close>

definition json_get :: "json \<Rightarrow> string \<Rightarrow> json option" where
  "json_get v key = (case v of JObject m \<Rightarrow> map_of m key | _ \<Rightarrow> None)"

section \<open>The dictionary\<close>

record dict =
  dict_base :: "json_map option"
  dict_overlay :: json_map

definition with_base :: "json_map \<Rightarrow> dict" where
  "with_base base = \<lparr>dict_base = Some base, dict_overlay = []\<rparr>"

definition dict_new :: dict where
  "dict_new = \<lparr>dict_base = None, dict_overlay = []\<rparr>"

definition dict_insert :: "dict \<Rightarrow> string \<Rightarrow> json \<Rightarrow> dict" where
  "dict_insert d key value = d\<lparr>dict_overlay := map_insert key value (dict_overlay d)\<rparr>"

definition dict_get :: "dict \<Rightarrow> string \<Rightarrow> json option" where
  "dict_get d key = (case map_of (dict_overlay d) key of
     Some v \<Rightarrow> Some v
   | None \<Rightarrow> (case dict_base d of None \<Rightarrow> None | Some base \<Rightarrow> map_of base key))"

definition contains_key :: "dict \<Rightarrow> string \<Rightarrow> bool" where
  "contains_key d key \<longleftrightarrow> dict_get d key \<noteq> None"

definition unshadowed :: "dict \<Rightarrow> json_map" where
  "unshadowed d = (case dict_base d of None \<Rightarrow> []
     | Some base \<Rightarrow> filter (\<lambda>(k, _). map_of (dict_overlay d) k = None) base)"

definition dict_len :: "dict \<Rightarrow> nat" where
  "dict_len d = length (unshadowed d) + length (dict_overlay d)"

definition dict_is_empty :: "dict \<Rightarrow> bool" where
  "dict_is_empty d \<longleftrightarrow> dict_len d = 0"

definition dict_iter :: "dict \<Rightarrow> json_map" where
  "dict_iter d = dict_overlay d @ unshadowed d"

definition to_map :: "dict \<Rightarrow> json_map" where
  "to_map d = map_extend (case dict_base d of None \<Rightarrow> [] | Some base \<Rightarrow> base) (dict_overlay d)"

definition dict_from :: "json_map \<Rightarrow> dict" where
  "dict_from m = \<lparr>dict_base = None, dict_overlay = m\<rparr>"

definition dict_ok :: "dict \<Rightarrow> bool" where
  "dict_ok d \<longleftrightarrow> map_ok (dict_overlay d) \<and> (case dict_base d of None \<Rightarrow> True | Some base \<Rightarrow> map_ok base)"

section \<open>A map is what its lookups say\<close>

lemma map_of_insert [simp]: "map_of (map_insert k v m) = (map_of m)(k \<mapsto> v)"
  by (induction k v m rule: map_insert.induct) (auto simp: fun_eq_iff)

lemma map_of_extend: "map_of (map_extend m es) = map_of m ++ map_of (rev es)"
  unfolding map_extend_def
  by (induction es arbitrary: m) (auto simp: fun_eq_iff map_add_def split: option.splits)

lemma set_map_insert: "fst ` set (map_insert k v m) = insert k (fst ` set m)"
  by (induction k v m rule: map_insert.induct) auto

lemma map_ok_distinct: "map_ok m \<Longrightarrow> distinct (map fst m)"
  by (auto simp: map_ok_def strict_sorted_iff)

lemma map_insert_ok: "map_ok m \<Longrightarrow> map_ok (map_insert k v m)"
proof (induction k v m rule: map_insert.induct)
  case (2 k v a b m)
  have "a < x" if "x \<in> fst ` set (map_insert k v m)" "\<not> k < a" "k \<noteq> a" for x
    using 2(2) that by (auto simp: map_ok_def set_map_insert)
  then show ?case using 2 by (auto simp: map_ok_def)
qed (simp add: map_ok_def)

lemma map_extend_ok: "map_ok m \<Longrightarrow> map_ok (map_extend m es)"
  unfolding map_extend_def by (induction es arbitrary: m) (auto simp: map_insert_ok)

lemma map_of_rev: "distinct (map fst m) \<Longrightarrow> map_of (rev m) = map_of m"
  by (rule map_of_eqI) (auto simp: rev_map [symmetric])

lemma dict_get_insert [simp]: "dict_get (dict_insert d k v) = (dict_get d)(k \<mapsto> v)"
  by (auto simp: dict_get_def dict_insert_def fun_eq_iff split: option.splits)

lemma dict_insert_ok: "dict_ok d \<Longrightarrow> dict_ok (dict_insert d k v)"
  by (simp add: dict_ok_def dict_insert_def map_insert_ok)

text \<open>The three ways to read a dictionary agree, and none of them sees a key twice.\<close>

lemma dict_views:
  assumes "dict_ok d"
  shows "map_of (to_map d) = dict_get d" "map_of (dict_iter d) = dict_get d" "distinct (map fst (dict_iter d))"
    "dict_len d = card (dom (dict_get d))"
proof -
  have o: "distinct (map fst (dict_overlay d))" using assms by (simp add: dict_ok_def map_ok_distinct)
  have b: "distinct (map fst (unshadowed d))"
    using assms by (auto simp: unshadowed_def dict_ok_def distinct_map filter_is_subset inj_on_subset
        dest!: map_ok_distinct split: option.splits)
  show "map_of (to_map d) = dict_get d"
    by (auto simp: to_map_def map_of_extend map_of_rev [OF o] dict_get_def fun_eq_iff map_add_def split: option.splits)
  have f: "map_of (filter (\<lambda>(k, _). P k) m) k = (if P k then map_of m k else None)" for P :: "string \<Rightarrow> bool" and m :: json_map and k
    by (induction m) auto
  show i: "map_of (dict_iter d) = dict_get d"
    by (auto simp: dict_iter_def dict_get_def fun_eq_iff map_add_def unshadowed_def f split: option.splits)
  have "fst ` set (dict_overlay d) \<inter> fst ` set (unshadowed d) = {}"
    by (force simp: unshadowed_def map_of_eq_None_iff split: option.splits)
  then show di: "distinct (map fst (dict_iter d))" using o b by (auto simp: dict_iter_def)
  have "dom (dict_get d) = set (map fst (dict_iter d))" by (simp add: i [symmetric] dom_map_of_conv_image_fst)
  then show "dict_len d = card (dom (dict_get d))"
    using distinct_card [OF di] by (simp add: dict_len_def dict_iter_def)
qed

end
