(* ===== verification/First_Best.thy ===== *)
theory First_Best
  imports M6_Prelude
begin

text \<open>
  The loop that several parts of the program share: walk over candidates, skip those that do not
  qualify, keep one that is strictly better than the best so far. The locale states what the clients
  rely on: the comparison orders the scores that occur. Its theorem says which candidate is kept.
\<close>

fun keep_best :: "('a \<Rightarrow> 'q option) \<Rightarrow> ('q \<Rightarrow> 'q \<Rightarrow> bool) \<Rightarrow> ('a \<times> 'q) option \<Rightarrow> 'a list \<Rightarrow> ('a \<times> 'q) option" where
  "keep_best score better best [] = best"
| "keep_best score better best (c # cs) =
     (case score c of
        None \<Rightarrow> keep_best score better best cs
      | Some q \<Rightarrow>
          (case best of
             None \<Rightarrow> keep_best score better (Some (c, q)) cs
           | Some (b, bq) \<Rightarrow> keep_best score better (if better q bq then Some (c, q) else best) cs))"

text \<open>\<open>b\<close> is the first of the best among the candidates that qualify.\<close>

definition first_best_of :: "('a \<Rightarrow> 'q option) \<Rightarrow> ('q \<Rightarrow> 'q \<Rightarrow> bool) \<Rightarrow> 'a list \<Rightarrow> ('a \<times> 'q) option \<Rightarrow> bool" where
  "first_best_of score better seen best = (case best of
     None \<Rightarrow> \<forall>x \<in> set seen. score x = None
   | Some (b, q) \<Rightarrow> score b = Some q \<and> (\<exists>pre post. seen = pre @ b # post \<and>
       (\<forall>x \<in> set pre. \<forall>p. score x = Some p \<longrightarrow> better q p) \<and>
       (\<forall>x \<in> set post. \<forall>p. score x = Some p \<longrightarrow> \<not> better p q)))"

lemma first_best_of_cases:
  assumes "first_best_of score better seen best"
  obtains (none) "best = None" "\<And>x. x \<in> set seen \<Longrightarrow> score x = None"
  | (some) b q pre post where "best = Some (b, q)" "score b = Some q" "seen = pre @ b # post"
      "\<And>x p. x \<in> set pre \<Longrightarrow> score x = Some p \<Longrightarrow> better q p"
      "\<And>x p. x \<in> set post \<Longrightarrow> score x = Some p \<Longrightarrow> \<not> better p q"
  using assms by (cases best) (auto simp: first_best_of_def)

locale first_best =
  fixes score :: "'a \<Rightarrow> 'q option"
    and better :: "'q \<Rightarrow> 'q \<Rightarrow> bool"
  assumes better_asym: "score c = Some p \<Longrightarrow> score d = Some q \<Longrightarrow> better p q \<Longrightarrow> \<not> better q p"
    and better_trans: "score c = Some p \<Longrightarrow> score d = Some q \<Longrightarrow> score e = Some r \<Longrightarrow>
      better p q \<Longrightarrow> \<not> better r q \<Longrightarrow> better p r"
begin

lemma keep_best_step:
  assumes best: "first_best_of score better seen best"
  obtains best' where "keep_best score better best (c # cs) = keep_best score better best' cs"
    "first_best_of score better (seen @ [c]) best'"
proof (cases "score c")
  case None
  have "first_best_of score better (seen @ [c]) best"
    using best
  proof (cases rule: first_best_of_cases)
    case (some b q pre post)
    then show ?thesis unfolding first_best_of_def some(1) option.case prod.case using None
      by (intro conjI exI [of _ pre] exI [of _ "post @ [c]"]) auto
  qed (use None in \<open>auto simp: first_best_of_def\<close>)
  then show ?thesis using that None by simp
next
  case (Some q)
  have new: "first_best_of score better (seen @ [c]) (Some (c, q))"
    if "\<And>x p. x \<in> set seen \<Longrightarrow> score x = Some p \<Longrightarrow> better q p"
    unfolding first_best_of_def option.case prod.case
    using that Some by (intro conjI exI [of _ seen] exI [of _ "[]"]) auto
  from best show ?thesis
  proof (cases rule: first_best_of_cases)
    case none
    then have "first_best_of score better (seen @ [c]) (Some (c, q))" using new by auto
    then show ?thesis using that Some none(1) by simp
  next
    case (some b bq pre post)
    show ?thesis
    proof (cases "better q bq")
      case True
      have "better q p" if "x \<in> set seen" "score x = Some p" for x p
      proof -
        have "\<not> better p bq"
          using that some better_asym [of b bq x p] by (auto simp: some(3))
        then show ?thesis using better_trans [OF Some some(2) that(2) True] by blast
      qed
      then show ?thesis using that new Some some(1) True by simp
    next
      case False
      have "first_best_of score better (seen @ [c]) best"
        unfolding first_best_of_def some(1) option.case prod.case using some Some False
        by (intro conjI exI [of _ pre] exI [of _ "post @ [c]"]) auto
      then show ?thesis using that Some some(1) False by simp
    qed
  qed
qed

lemma keep_best_from:
  "first_best_of score better seen best \<Longrightarrow>
     first_best_of score better (seen @ cs) (keep_best score better best cs)"
proof (induction cs arbitrary: best seen)
  case (Cons c cs)
  from Cons.prems obtain best' where b: "keep_best score better best (c # cs) = keep_best score better best' cs"
    "first_best_of score better (seen @ [c]) best'" by (rule keep_best_step)
  show ?case using Cons.IH [OF b(2)] unfolding b(1) by simp
qed simp

lemma keep_best_first: "first_best_of score better cs (keep_best score better None cs)"
  using keep_best_from [of "[]" None cs] by (simp add: first_best_of_def)

end

end
