(* ===== verification/App_Routes.thy ===== *)
theory App_Routes
  imports App_Dict First_Best
begin

text \<open>
  The route table of an \<open>App\<close> service, \<open>m6-core/src/app.rs\<close>: patterns, how a path is matched
  against a compiled route, and which of several matching routes answers.
\<close>

datatype route_method = AnyMethod | Get | Post | Put | Patch | Delete

definition method_matches :: "route_method \<Rightarrow> string \<Rightarrow> bool" where
  "method_matches m name = (case m of
     AnyMethod \<Rightarrow> True
   | Get \<Rightarrow> name = ''GET'' \<or> name = ''HEAD''
   | Post \<Rightarrow> name = ''POST''
   | Put \<Rightarrow> name = ''PUT''
   | Patch \<Rightarrow> name = ''PATCH''
   | Delete \<Rightarrow> name = ''DELETE'')"

datatype segment = Literal string | Param string | Wildcard string

record compiled_route =
  cr_pattern :: string
  cr_method :: route_method
  cr_segments :: "segment list"
  cr_template :: "string option"
  cr_params_files :: "string list"
  cr_status :: nat
  cr_cache :: string
  cr_headers :: "(string \<times> string) list"
  cr_specificity :: int
  cr_last_modified :: "int option"
  cr_handler :: "string option"
  cr_settings :: json_map
  cr_base_dict :: json_map

definition is_wildcard_param :: "compiled_route \<Rightarrow> string \<Rightarrow> bool" where
  "is_wildcard_param route name \<longleftrightarrow>
     list_ex (\<lambda>s. case s of Wildcard n \<Rightarrow> n = name | _ \<Rightarrow> False) (cr_segments route)"

definition path_segments :: "string \<Rightarrow> string list" where
  "path_segments path = filter (\<lambda>s. s \<noteq> []) (split_on CHR ''/'' path)"

definition compile_segment :: "bool \<Rightarrow> string \<Rightarrow> segment" where
  "compile_segment is_last s =
     (if starts_with ''{'' s \<and> ends_with ''}'' s then
        (let inner = butlast (tl s) in
         case strip_prefix ''*'' inner of
           Some name \<Rightarrow> if is_last then Wildcard name else Param name
         | None \<Rightarrow> Param inner)
      else Literal s)"

definition compile_pattern :: "string \<Rightarrow> segment list" where
  "compile_pattern pattern =
     (let raw = path_segments pattern
      in map (\<lambda>(i, s). compile_segment (i = length raw - 1) s) (enumerate 0 raw))"

definition route_specificity :: "segment list \<Rightarrow> int" where
  "route_specificity segments = foldl (\<lambda>score seg. case seg of
      Literal _ \<Rightarrow> score + 1 | Param _ \<Rightarrow> score | Wildcard _ \<Rightarrow> score - 1)
     (int (length segments) * 2) segments"

definition route_method_key :: "route_method \<Rightarrow> string" where
  "route_method_key m = (case m of
     AnyMethod \<Rightarrow> ''ANY'' | Get \<Rightarrow> ''GET'' | Post \<Rightarrow> ''POST'' | Put \<Rightarrow> ''PUT'' | Patch \<Rightarrow> ''PATCH''
   | Delete \<Rightarrow> ''DELETE'')"

type_synonym path_params = "(string \<times> string) list"

definition trailing_wildcard :: "segment list \<Rightarrow> bool" where
  "trailing_wildcard segments = (segments \<noteq> [] \<and> (case last segments of Wildcard _ \<Rightarrow> True | _ \<Rightarrow> False))"

fun match_loop :: "string list \<Rightarrow> nat \<Rightarrow> segment list \<Rightarrow> path_params \<Rightarrow> path_params option" where
  "match_loop path_segs ps [] params = Some params"
| "match_loop path_segs ps (Literal lit # segs) params =
     (if path_segs ! ps \<noteq> lit then None else match_loop path_segs (Suc ps) segs params)"
| "match_loop path_segs ps (Param name # segs) params =
     match_loop path_segs (Suc ps) segs (params @ [(name, path_segs ! ps)])"
| "match_loop path_segs ps (Wildcard name # segs) params =
     match_loop path_segs (Suc ps) segs (params @ [(name, join_with ''/'' (drop ps path_segs))])"

definition match_route :: "string list \<Rightarrow> compiled_route \<Rightarrow> path_params option" where
  "match_route path_segs route =
     (if trailing_wildcard (cr_segments route) then
        (if length path_segs < length (cr_segments route) then None
         else match_loop path_segs 0 (cr_segments route) [])
      else if length path_segs \<noteq> length (cr_segments route) then None
      else match_loop path_segs 0 (cr_segments route) [])"

text \<open>What \<open>find_route\<close> compares: the specificity of a route that answers, with its parameters.\<close>

definition route_score :: "string list \<Rightarrow> string \<Rightarrow> compiled_route \<Rightarrow> (int \<times> path_params) option" where
  "route_score path_segs meth route =
     (if \<not> method_matches (cr_method route) meth then None
      else map_option (\<lambda>params. (cr_specificity route, params)) (match_route path_segs route))"

definition find_route :: "string \<Rightarrow> string \<Rightarrow> compiled_route list \<Rightarrow> (compiled_route \<times> path_params) option" where
  "find_route path meth routes =
     map_option (\<lambda>(route, _, params). (route, params))
       (keep_best (route_score (path_segments path) meth) (\<lambda>new best. fst best < fst new) None routes)"

section \<open>Which route answers\<close>

interpretation route_choice: first_best "route_score path_segs meth" "\<lambda>new best. fst best < fst new"
  for path_segs meth
  by unfold_locales auto

text \<open>A route answers a request when its method and its pattern match.\<close>

definition answers :: "string \<Rightarrow> string \<Rightarrow> compiled_route \<Rightarrow> bool" where
  "answers path meth route \<longleftrightarrow>
     method_matches (cr_method route) meth \<and> match_route (path_segments path) route \<noteq> None"

lemma route_score_answers:
  "route_score (path_segments path) meth route = None \<longleftrightarrow> \<not> answers path meth route"
  "route_score (path_segments path) meth route = Some (s, params) \<longleftrightarrow>
     method_matches (cr_method route) meth \<and> s = cr_specificity route \<and>
     match_route (path_segments path) route = Some params"
  by (auto simp: route_score_def answers_def)

text \<open>C34. The route that answers a request is, among the routes whose method and pattern match, the
  first of those with the highest specificity, with the parameters its pattern captures; a request is
  left without a route only when none matches.\<close>

theorem find_route_best:
  "case find_route path meth routes of
     None \<Rightarrow> \<forall>r \<in> set routes. \<not> answers path meth r
   | Some (route, params) \<Rightarrow>
       answers path meth route \<and> match_route (path_segments path) route = Some params \<and>
       (\<exists>before after. routes = before @ route # after \<and>
          (\<forall>r \<in> set before. answers path meth r \<longrightarrow> cr_specificity r < cr_specificity route) \<and>
          (\<forall>r \<in> set after. answers path meth r \<longrightarrow> cr_specificity r \<le> cr_specificity route))"
proof -
  let ?score = "route_score (path_segments path) meth"
  have "first_best_of ?score (\<lambda>new best. fst best < fst new) routes
    (keep_best ?score (\<lambda>new best. fst best < fst new) None routes)"
    by (rule route_choice.keep_best_first)
  then show ?thesis
  proof (cases rule: first_best_of_cases)
    case none
    then show ?thesis by (simp add: find_route_def route_score_answers)
  next
    case (some route q before after)
    obtain s params where q: "q = (s, params)" by (cases q)
    have route: "method_matches (cr_method route) meth" "s = cr_specificity route"
      "match_route (path_segments path) route = Some params"
      using some(2) by (simp_all add: q route_score_answers)
    have score: "?score r = Some (cr_specificity r, the (match_route (path_segments path) r))"
      if "answers path meth r" for r
      using that by (auto simp: answers_def route_score_answers)
    have "cr_specificity r < cr_specificity route" if "r \<in> set before" "answers path meth r" for r
      using some(4) [OF that(1) score [OF that(2)]] by (simp add: q route(2))
    moreover have "cr_specificity r \<le> cr_specificity route" if "r \<in> set after" "answers path meth r" for r
      using some(5) [OF that(1) score [OF that(2)]] by (simp add: q route(2))
    moreover have "find_route path meth routes = Some (route, params)" by (simp add: find_route_def some(1) q)
    moreover have "answers path meth route" using route by (simp add: answers_def)
    ultimately show ?thesis using some(3) route(3) by auto
  qed
qed

section \<open>What a pattern captures\<close>

text \<open>
  A path written from a pattern: each parameter is replaced by a segment, a wildcard by one or
  more segments.
\<close>

fun fill :: "segment list \<Rightarrow> string list list \<Rightarrow> string list" where
  "fill [] vs = []"
| "fill (Literal lit # segs) vs = lit # fill segs vs"
| "fill (Param n # segs) vs = hd vs @ fill segs (tl vs)"
| "fill (Wildcard n # segs) vs = hd vs @ fill segs (tl vs)"

fun captures_ok :: "segment list \<Rightarrow> string list list \<Rightarrow> bool" where
  "captures_ok [] vs \<longleftrightarrow> vs = []"
| "captures_ok (Literal lit # segs) vs \<longleftrightarrow> captures_ok segs vs"
| "captures_ok (Param n # segs) vs \<longleftrightarrow> vs \<noteq> [] \<and> length (hd vs) = 1 \<and> captures_ok segs (tl vs)"
| "captures_ok (Wildcard n # segs) vs \<longleftrightarrow> segs = [] \<and> (\<exists>v. vs = [v] \<and> v \<noteq> [])"

definition param_names :: "segment list \<Rightarrow> string list" where
  "param_names segs = concat (map (\<lambda>s. case s of Literal _ \<Rightarrow> [] | Param n \<Rightarrow> [n] | Wildcard n \<Rightarrow> [n]) segs)"

definition clean_segment :: "string \<Rightarrow> bool" where
  "clean_segment s \<longleftrightarrow> s \<noteq> [] \<and> CHR ''/'' \<notin> set s"

lemma join_one [simp]: "join_with ''/'' [x] = x"
  by (simp add: join_with_def)

lemma split_join_with:
  "list_all clean_segment (x # xs) \<Longrightarrow> split_on CHR ''/'' (join_with ''/'' (x # xs)) = x # xs"
proof (induction xs arbitrary: x)
  case Nil
  then show ?case by (simp add: join_with_def clean_segment_def split_on_no_delim)
next
  case (Cons y ys)
  then have "split_on CHR ''/'' (join_with ''/'' (y # ys)) = y # ys" "CHR ''/'' \<notin> set x" by (auto simp: clean_segment_def)
  then show ?case
    using split_on_append [of "CHR ''/''" x "join_with ''/'' (y # ys)"] by (simp add: join_with_def)
qed

lemma path_segments_join: "list_all clean_segment xs \<Longrightarrow> path_segments (CHR ''/'' # join_with ''/'' xs) = xs"
proof (cases xs)
  case Nil
  then show ?thesis by (simp add: path_segments_def join_with_def)
next
  case (Cons x r)
  assume *: "list_all clean_segment xs"
  then have "filter (\<lambda>s. s \<noteq> []) xs = xs" by (auto simp: list_all_iff clean_segment_def filter_id_conv)
  then show ?thesis using split_join_with [of x r] * by (simp add: path_segments_def Cons)
qed

lemma match_loop_fill:
  "captures_ok segs vs \<Longrightarrow> pre @ fill segs vs = path_segs \<Longrightarrow> length pre = ps \<Longrightarrow>
     match_loop path_segs ps segs params = Some (params @ zip (param_names segs) (map (join_with ''/'') vs))"
proof (induction segs arbitrary: pre vs ps params)
  case Nil
  then show ?case by (simp add: param_names_def)
next
  case (Cons seg segs)
  show ?case
  proof (cases seg)
    case (Literal lit)
    then have "path_segs ! ps = lit" using Cons.prems by auto
    moreover have "match_loop path_segs (Suc ps) segs params = Some (params @ zip (param_names segs) (map (join_with ''/'') vs))"
      using Cons.IH [of vs "pre @ [lit]" "Suc ps"] Cons.prems Literal by simp
    ultimately show ?thesis by (simp add: Literal param_names_def)
  next
    case (Param n)
    then obtain x r where vs: "vs = [x] # r"
      using Cons.prems(1) by (cases vs; cases "hd vs") auto
    have "match_loop path_segs (Suc ps) segs (params @ [(n, x)]) =
      Some ((params @ [(n, x)]) @ zip (param_names segs) (map (join_with ''/'') r))"
      using Cons.IH [of r "pre @ [x]" "Suc ps"] Cons.prems Param vs by simp
    moreover have "path_segs ! ps = x" using Cons.prems Param vs by auto
    ultimately show ?thesis by (simp add: Param vs param_names_def)
  next
    case (Wildcard n)
    then obtain v where "vs = [v]" "segs = []" using Cons.prems(1) by auto
    then show ?thesis using Cons.prems Wildcard by (auto simp: param_names_def)
  qed
qed

lemma fill_length:
  "captures_ok segs vs \<Longrightarrow>
     (if trailing_wildcard segs then length segs \<le> length (fill segs vs) else length (fill segs vs) = length segs)"
proof (induction segs arbitrary: vs)
  case (Cons seg segs)
  have t: "trailing_wildcard (seg # segs) = (if segs = [] then (case seg of Wildcard _ \<Rightarrow> True | _ \<Rightarrow> False) else trailing_wildcard segs)"
    by (simp add: trailing_wildcard_def)
  show ?case
  proof (cases seg)
    case (Wildcard n)
    then show ?thesis using Cons.prems by (auto simp: trailing_wildcard_def Suc_le_eq)
  qed (use Cons.IH [of vs] Cons.IH [of "tl vs"] Cons.prems in \<open>auto simp: t trailing_wildcard_def split: if_splits\<close>)
qed (simp add: trailing_wildcard_def)

text \<open>A path that is written from a route's pattern, with a segment for each parameter and one or
  more for the wildcard, matches the route, and the parameters it captures are the segments that
  were filled in.\<close>

theorem match_route_fill:
  assumes "cr_segments route = compile_pattern pattern" "captures_ok (compile_pattern pattern) vs"
    "list_all (list_all clean_segment) vs"
  shows "match_route (path_segments (CHR ''/'' # join_with ''/'' (fill (compile_pattern pattern) vs))) route =
    Some (zip (param_names (compile_pattern pattern)) (map (join_with ''/'') vs))"
proof -
  let ?segs = "compile_pattern pattern"
  have lit: "clean_segment lit" if "Literal lit \<in> set ?segs" for lit
  proof -
    have "clean_segment s" if "s \<in> set (path_segments pattern)" for s
      using that split_on_pieces by (auto simp: path_segments_def clean_segment_def)
    then show ?thesis using that
      by (auto simp: compile_pattern_def compile_segment_def Let_def in_set_enumerate_eq split: if_splits option.splits)
  qed
  have "list_all clean_segment (fill segs vs)"
    if "captures_ok segs vs" "list_all (list_all clean_segment) vs" "\<forall>lit. Literal lit \<in> set segs \<longrightarrow> clean_segment lit"
    for segs vs
    using that
  proof (induction segs vs rule: captures_ok.induct)
    case (3 n segs vs)
    then show ?case by (cases vs) auto
  qed auto
  then have clean: "list_all clean_segment (fill ?segs vs)" using assms lit by blast
  show ?thesis
    using fill_length [OF assms(2)] match_loop_fill [OF assms(2), of "[]" "fill ?segs vs" 0 "[]"]
    by (auto simp: path_segments_join [OF clean] match_route_def assms(1))
qed

section \<open>Concrete tables\<close>

definition demo_route :: "string \<Rightarrow> compiled_route" where
  "demo_route pattern = \<lparr>cr_pattern = pattern, cr_method = Get, cr_segments = compile_pattern pattern,
     cr_template = None, cr_params_files = [], cr_status = 200, cr_cache = ''public'', cr_headers = [],
     cr_specificity = route_specificity (compile_pattern pattern), cr_last_modified = None,
     cr_handler = Some ''files'', cr_settings = [], cr_base_dict = []\<rparr>"

definition demo_table :: "compiled_route list" where
  "demo_table = [demo_route ''/assets/{*relpath}'', demo_route ''/assets/{name}'', demo_route ''/assets/style.css'']"

theorem find_route_best_witness:
  "find_route ''/assets/style.css'' ''GET'' demo_table = Some (demo_route ''/assets/style.css'', [])"
proof -
  let ?r = "demo_route ''/assets/style.css''"
  have a: "answers ''/assets/style.css'' ''GET'' ?r" by code_simp
  have s: "map cr_specificity demo_table = [4, 5, 6]" by code_simp
  have "?r \<in> set demo_table" by (simp add: demo_table_def)
  then obtain route params where f: "find_route ''/assets/style.css'' ''GET'' demo_table = Some (route, params)"
    using find_route_best [where path = "''/assets/style.css''" and meth = "''GET''" and routes = demo_table] a
    by (cases "find_route ''/assets/style.css'' ''GET'' demo_table") auto
  then obtain before after where "demo_table = before @ route # after"
    "\<forall>r \<in> set after. answers ''/assets/style.css'' ''GET'' r \<longrightarrow> cr_specificity r \<le> cr_specificity route"
    "match_route (path_segments ''/assets/style.css'') route = Some params"
    using find_route_best [where path = "''/assets/style.css''" and meth = "''GET''" and routes = demo_table] by auto
  moreover have "match_route (path_segments ''/assets/style.css'') ?r = Some []" by code_simp
  ultimately have "route = ?r \<and> params = []"
    using a s by (auto simp: demo_table_def Cons_eq_append_conv)
  then show ?thesis using f by simp
qed

theorem match_route_fill_witness:
  "match_route (path_segments ''/assets/css/main.css'') (demo_route ''/assets/{*relpath}'') =
     Some [(''relpath'', ''css/main.css'')]"
proof -
  let ?p = "''/assets/{*relpath}''" and ?vs = "[[''css'', ''main.css'']]"
  have c: "compile_pattern ?p = [Literal ''assets'', Wildcard ''relpath'']" by code_simp
  have "captures_ok (compile_pattern ?p) ?vs" by (simp add: c)
  moreover have "list_all (list_all clean_segment) ?vs" by code_simp
  ultimately show ?thesis
    using match_route_fill [of "demo_route ?p" ?p ?vs]
    by (simp add: c demo_route_def join_with_def param_names_def)
qed

text \<open>A longer pattern of parameters is more specific than a shorter one that names the path's
  directory: the score counts segments before it looks at what they are.\<close>

lemma parameters_shadow_directory:
  "map_option (cr_pattern \<circ> fst)
     (find_route ''/assets/css/main.css'' ''GET'' [demo_route ''/assets/{*relpath}'', demo_route ''/{a}/{b}/{c}'']) =
   Some ''/{a}/{b}/{c}''"
  by code_simp

end
