(* ===== verification/Negotiate.thy ===== *)
theory Negotiate
  imports Http_Headers First_Best
begin

text \<open>
  Content negotiation: \<open>m6-core/src/negotiate.rs\<close> (the quality of a coding in an
  \<open>Accept-Encoding\<close> field and the choice among candidates), \<open>m6-core/src/mime.rs\<close> (the table of
  content types) and \<open>m6-file/src/compress.rs\<close> (the file server's choice).

  A quality is an \<open>f32\<close>. A finite one is a whole number of units of \<open>2 ^ -149\<close>, the smallest
  subnormal, so the values of the type are exact; the two zeros compare equal and are one value here.
  \<open>str::parse::<f32>\<close> is spelled out with its grammar and its rounding (to the nearest, ties to even).
\<close>

section \<open>Single-precision numbers\<close>

datatype f32 = Fin int | Infinity | NegInfinity | NaN

definition f32_one :: f32 where
  "f32_one = Fin (2 ^ 149)"

definition f32_zero :: f32 where
  "f32_zero = Fin 0"

text \<open>The operator \<open><\<close> of \<open>f32\<close>: every comparison with a NaN is false.\<close>

fun f32_less :: "f32 \<Rightarrow> f32 \<Rightarrow> bool" where
  "f32_less (Fin a) (Fin b) \<longleftrightarrow> a < b"
| "f32_less (Fin a) Infinity \<longleftrightarrow> True"
| "f32_less NegInfinity (Fin b) \<longleftrightarrow> True"
| "f32_less NegInfinity Infinity \<longleftrightarrow> True"
| "f32_less _ _ \<longleftrightarrow> False"

definition f32_neg :: "f32 \<Rightarrow> f32" where
  "f32_neg x = (case x of Fin a \<Rightarrow> Fin (- a) | Infinity \<Rightarrow> NegInfinity | NegInfinity \<Rightarrow> Infinity | NaN \<Rightarrow> NaN)"

text \<open>The whole number nearest to \<open>n / d\<close>, the even one of two that are equally near.\<close>

definition round_half_even :: "nat \<Rightarrow> nat \<Rightarrow> nat" where
  "round_half_even n d = (let k = n div d; r = n mod d in
     if 2 * r < d \<or> (2 * r = d \<and> even k) then k else k + 1)"

text \<open>
  The \<open>f32\<close> nearest to \<open>n / d\<close>. A number below \<open>2 ^ (k - 125)\<close>, and not below half of that unless
  \<open>k\<close> is zero, has 24 significant bits in units of \<open>2 ^ (k - 149)\<close>; from \<open>2 ^ 128\<close> on it is infinite.
\<close>

definition f32_of_ratio :: "nat \<Rightarrow> nat \<Rightarrow> f32" where
  "f32_of_ratio n d = (case List.find (\<lambda>k. n * 2 ^ 149 < d * 2 ^ (24 + k)) [0..<254] of
     None \<Rightarrow> Infinity
   | Some k \<Rightarrow> (let m = round_half_even (n * 2 ^ 149) (d * 2 ^ k) * 2 ^ k
       in if m < 2 ^ 277 then Fin (int m) else Infinity))"

definition f32_of_decimal :: "nat \<Rightarrow> int \<Rightarrow> f32" where
  "f32_of_decimal mant ex =
     (if 0 \<le> ex then f32_of_ratio (mant * 10 ^ nat ex) 1 else f32_of_ratio mant (10 ^ nat (- ex)))"

text \<open>The exponent of a literal stops growing once it has passed \<open>0x10000\<close>.\<close>

definition exponent_digits :: "string \<Rightarrow> int" where
  "exponent_digits s = foldl (\<lambda>n c. if n < 65536 then 10 * n + int (digit_val c) else n) 0 s"

definition parse_exponent :: "string \<Rightarrow> int option" where
  "parse_exponent s =
     (let neg = starts_with ''-'' s;
          ds = (if neg \<or> starts_with ''+'' s then tl s else s)
      in if ds = [] \<or> \<not> list_all is_ascii_digit ds then None
         else Some (if neg then - exponent_digits ds else exponent_digits ds))"

definition parse_decimal :: "string \<Rightarrow> f32 option" where
  "parse_decimal s =
     (let whole = takeWhile is_ascii_digit s;
          s1 = dropWhile is_ascii_digit s;
          frac = (case s1 of c # cs \<Rightarrow> (if c = CHR ''.'' then takeWhile is_ascii_digit cs else []) | [] \<Rightarrow> []);
          s2 = (case s1 of c # cs \<Rightarrow> (if c = CHR ''.'' then dropWhile is_ascii_digit cs else s1) | [] \<Rightarrow> []);
          mant = digits_val 0 (whole @ frac);
          scale = - int (length frac)
      in if whole @ frac = [] then None
         else (case s2 of
                 [] \<Rightarrow> Some (f32_of_decimal mant scale)
               | c # cs \<Rightarrow>
                   if c = CHR ''e'' \<or> c = CHR ''E'' then
                     map_option (\<lambda>e. f32_of_decimal mant (scale + e)) (parse_exponent cs)
                   else None))"

definition parse_inf_nan :: "string \<Rightarrow> f32 option" where
  "parse_inf_nan s =
     (if eq_ignore_ascii_case s ''inf'' \<or> eq_ignore_ascii_case s ''infinity'' then Some Infinity
      else if eq_ignore_ascii_case s ''nan'' then Some NaN else None)"

definition parse_f32 :: "string \<Rightarrow> f32 option" where
  "parse_f32 s =
     (let neg = starts_with ''-'' s;
          t = (if neg \<or> starts_with ''+'' s then tl s else s)
      in map_option (if neg then f32_neg else (\<lambda>x. x))
           (case parse_decimal t of Some x \<Rightarrow> Some x | None \<Rightarrow> parse_inf_nan t))"

section \<open>The quality of a coding\<close>

definition q_param :: "f32 \<Rightarrow> string \<Rightarrow> f32" where
  "q_param q param =
     (let param = trim param in
      case (case strip_prefix ''q='' param of Some v \<Rightarrow> Some v | None \<Rightarrow> strip_prefix ''Q='' param) of
        Some v \<Rightarrow> (case parse_f32 (trim v) of Some x \<Rightarrow> x | None \<Rightarrow> f32_one)
      | None \<Rightarrow> q)"

text \<open>One element of the list, on the qualities found for \<open>*\<close> and for the coding by name.\<close>

definition coding_part :: "string \<Rightarrow> f32 option \<times> f32 option \<Rightarrow> string \<Rightarrow> f32 option \<times> f32 option" where
  "coding_part coding found part =
     (let part = trim part in
      if part = [] then found
      else
        let bits = split_on CHR '';'' part;
            name = trim (hd bits);
            q = foldl q_param f32_one (tl bits)
        in if name = ''*'' then (Some q, snd found)
           else if eq_ignore_ascii_case name coding then (fst found, Some q)
           else found)"

definition coding_quality :: "string \<Rightarrow> string \<Rightarrow> f32 option" where
  "coding_quality accept_encoding coding =
     (let (wildcard, explicit) = foldl (coding_part coding) (None, None) (split_on CHR '','' accept_encoding);
          stated = (case (explicit, wildcard) of
              (Some q, _) \<Rightarrow> Some q
            | (None, Some q) \<Rightarrow> Some q
            | (None, None) \<Rightarrow> if eq_ignore_ascii_case coding ''identity'' then Some f32_one else None)
      in case stated of
           None \<Rightarrow> None
         | Some q \<Rightarrow> if f32_less f32_zero q then Some q else None)"

definition preferred_coding :: "string \<Rightarrow> string list \<Rightarrow> string option" where
  "preferred_coding accept_encoding candidates =
     map_option fst (keep_best (coding_quality accept_encoding) (\<lambda>q bq. f32_less bq q) None candidates)"

definition canonical_coding :: "string \<Rightarrow> string" where
  "canonical_coding accept_encoding =
     (case preferred_coding accept_encoding [''br'', ''gzip''] of
        Some c \<Rightarrow> if c = ''br'' then ''br'' else if c = ''gzip'' then ''gzip'' else ''''
      | None \<Rightarrow> '''')"

section \<open>Content types\<close>

text \<open>\<open>Path::path_file_name\<close> and \<open>Path::extension\<close>: the last component that is not \<open>.\<close>; none when it is \<open>..\<close>.\<close>

definition path_file_name :: "string \<Rightarrow> string option" where
  "path_file_name path =
     (case rev (filter (\<lambda>s. s \<noteq> [] \<and> s \<noteq> ''.'') (split_on CHR ''/'' path)) of
        [] \<Rightarrow> None
      | s # _ \<Rightarrow> if s = ''..'' then None else Some s)"

text \<open>What follows the last dot of a name, unless the dot begins the name.\<close>

definition name_extension :: "string \<Rightarrow> string option" where
  "name_extension name =
     (let suffix = rev (takeWhile (\<lambda>c. c \<noteq> CHR ''.'') (rev name))
      in if length suffix < length name - 1 then Some suffix else None)"

definition path_extension :: "string \<Rightarrow> string option" where
  "path_extension path = Option.bind (path_file_name path) name_extension"

definition mime_table :: "(string \<times> string) list" where
  "mime_table =
     [(''html'', ''text/html; charset=utf-8''), (''htm'', ''text/html; charset=utf-8''),
      (''css'', ''text/css; charset=utf-8''),
      (''js'', ''text/javascript; charset=utf-8''), (''mjs'', ''text/javascript; charset=utf-8''),
      (''txt'', ''text/plain; charset=utf-8''), (''csv'', ''text/csv; charset=utf-8''),
      (''xml'', ''application/xml''), (''json'', ''application/json''), (''jsonld'', ''application/ld+json''),
      (''md'', ''text/markdown; charset=utf-8''),
      (''png'', ''image/png''), (''jpg'', ''image/jpeg''), (''jpeg'', ''image/jpeg''), (''gif'', ''image/gif''),
      (''webp'', ''image/webp''), (''svg'', ''image/svg+xml''), (''ico'', ''image/x-icon''),
      (''avif'', ''image/avif''), (''bmp'', ''image/bmp''), (''tiff'', ''image/tiff''), (''tif'', ''image/tiff''),
      (''woff'', ''font/woff''), (''woff2'', ''font/woff2''), (''ttf'', ''font/ttf''), (''otf'', ''font/otf''),
      (''eot'', ''application/vnd.ms-fontobject''),
      (''mp3'', ''audio/mpeg''), (''mp4'', ''video/mp4''), (''webm'', ''video/webm''), (''ogg'', ''audio/ogg''),
      (''ogv'', ''video/ogg''), (''wav'', ''audio/wav''), (''flac'', ''audio/flac''),
      (''zip'', ''application/zip''), (''gz'', ''application/gzip''), (''gzip'', ''application/gzip''),
      (''br'', ''application/x-brotli''), (''zst'', ''application/zstd''), (''tar'', ''application/x-tar''),
      (''pdf'', ''application/pdf''), (''wasm'', ''application/wasm''),
      (''atom'', ''application/atom+xml''), (''rss'', ''application/rss+xml''),
      (''yaml'', ''application/yaml''), (''yml'', ''application/yaml''), (''toml'', ''application/toml'')]"

text \<open>An extension that is not UTF-8 counts as none (\<open>to_str\<close>).\<close>

definition mime_from_path :: "string \<Rightarrow> string" where
  "mime_from_path path =
     (let ext = (case path_extension path of
            Some e \<Rightarrow> if valid_utf8 e then to_ascii_lowercase e else ''''
          | None \<Rightarrow> '''')
      in case map_of mime_table ext of Some m \<Rightarrow> m | None \<Rightarrow> ''application/octet-stream'')"

definition mime_base :: "string \<Rightarrow> string" where
  "mime_base mime = hd (split_on CHR '';'' mime)"

definition should_compress_default :: "string \<Rightarrow> bool" where
  "should_compress_default mime \<longleftrightarrow> trim (mime_base mime) \<in> set
     [''text/html'', ''text/css'', ''text/javascript'', ''text/plain'', ''text/csv'', ''text/markdown'',
      ''text/xml'', ''application/json'', ''application/ld+json'', ''application/xml'',
      ''application/javascript'', ''application/atom+xml'', ''application/rss+xml'', ''application/yaml'',
      ''application/toml'', ''application/wasm'', ''image/svg+xml'', ''font/ttf'', ''font/otf'']"

section \<open>The file server's choice\<close>

datatype encoding = Brotli | Gzip | Identity

record compression_level =
  cl_brotli :: nat
  cl_gzip :: nat

type_synonym compression = "string \<Rightarrow> compression_level option"

definition permitted_levels :: "compression \<Rightarrow> string \<Rightarrow> nat option \<times> nat option" where
  "permitted_levels compression mime =
     (case compression mime of
        Some settings \<Rightarrow>
          (if 0 < cl_brotli settings then Some (cl_brotli settings) else None,
           if 0 < cl_gzip settings then Some (cl_gzip settings) else None)
      | None \<Rightarrow> if should_compress_default mime then (Some 6, Some 6) else (None, None))"

definition encoding_candidates :: "nat option \<times> nat option \<Rightarrow> (encoding \<times> nat option \<times> string) list" where
  "encoding_candidates levels = [(Brotli, fst levels, ''br''), (Gzip, snd levels, ''gzip'')]"

definition candidate_quality :: "string \<Rightarrow> encoding \<times> nat option \<times> string \<Rightarrow> f32 option" where
  "candidate_quality accept_encoding c =
     (case c of (enc, level, name) \<Rightarrow>
        (case level of None \<Rightarrow> None | Some _ \<Rightarrow> coding_quality accept_encoding name))"

definition choose_encoding :: "string \<Rightarrow> string \<Rightarrow> compression \<Rightarrow> encoding \<times> nat option" where
  "choose_encoding mime accept_encoding compression =
     (case keep_best (candidate_quality accept_encoding) (\<lambda>q bq. f32_less bq q) None
             (encoding_candidates (permitted_levels compression (trim (mime_base mime)))) of
        Some ((enc, level, _), _) \<Rightarrow> (enc, level)
      | None \<Rightarrow> (Identity, None))"

lemma find_upt_Some: "List.find P [0..<n] = Some k \<longleftrightarrow> k < n \<and> P k \<and> (\<forall>j<k. \<not> P j)"
  by (auto simp: find_Some_iff)

section \<open>Rounding of a weight\<close>

lemma round_half_even_near:
  assumes "0 < d"
  shows "2 * (d * round_half_even n d) \<le> 2 * n + d" "2 * n \<le> 2 * (d * round_half_even n d) + d"
proof -
  define k r where "k = n div d" and "r = n mod d"
  have n: "n = d * k + r" "r < d" using assms by (simp_all add: k_def r_def)
  show "2 * (d * round_half_even n d) \<le> 2 * n + d" "2 * n \<le> 2 * (d * round_half_even n d) + d"
    unfolding round_half_even_def k_def [symmetric] r_def [symmetric] Let_def
    using n by (auto simp: algebra_simps)
qed

lemma f32_of_ratio_unit:
  assumes "0 < d" "n \<le> d"
  obtains m where "f32_of_ratio n d = Fin (int m)" "2 * (d * m) \<le> 2 * n * 2 ^ 149 + d * 2 ^ 126"
    "2 * n * 2 ^ 149 \<le> 2 * (d * m) + d * 2 ^ 126"
proof -
  let ?P = "\<lambda>k. n * 2 ^ 149 < d * 2 ^ (24 + k)"
  have "n * 2 ^ 149 < d * 2 ^ 150" using mult_le_mono1 [OF assms(2), of "2 ^ 149"] assms(1) by simp
  then have P: "?P 126" by simp
  define k where "k = (LEAST k. ?P k)"
  have "k \<le> 126" unfolding k_def using P by (rule Least_le)
  have k: "List.find ?P [0..<254] = Some k"
    unfolding find_upt_Some k_def using \<open>k \<le> 126\<close> LeastI [of ?P, OF P] not_less_Least [of _ ?P]
    by (auto simp del: power_numeral simp: k_def)
  have kd: "d * 2 ^ k \<le> d * 2 ^ 126" using \<open>k \<le> 126\<close> by (intro mult_le_mono power_increasing) simp_all
  define r where "r = round_half_even (n * 2 ^ 149) (d * 2 ^ k)"
  have near: "2 * (d * 2 ^ k * r) \<le> 2 * (n * 2 ^ 149) + d * 2 ^ k"
    "2 * (n * 2 ^ 149) \<le> 2 * (d * 2 ^ k * r) + d * 2 ^ k"
    using round_half_even_near [of "d * 2 ^ k" "n * 2 ^ 149"] assms by (simp_all add: r_def)
  have eq: "d * 2 ^ k * r = d * (r * 2 ^ k)" by (simp add: algebra_simps)
  have up: "2 * (d * (r * 2 ^ k)) \<le> 2 * n * 2 ^ 149 + d * 2 ^ 126"
    using near(1) kd unfolding eq by linarith
  have lo: "2 * n * 2 ^ 149 \<le> 2 * (d * (r * 2 ^ k)) + d * 2 ^ 126"
    using near(2) kd unfolding eq by linarith
  have "2 * (d * (r * 2 ^ k)) \<le> 2 * d * 2 ^ 149 + d * 2 ^ 126"
    using up assms(2) by (meson add_le_mono1 le_trans mult_le_mono1 mult_le_mono2)
  also have "\<dots> < 2 * d * 2 ^ 150" using assms by simp
  finally have "r * 2 ^ k < 2 ^ 150" by simp
  then have "r * 2 ^ k < 2 ^ 277" by (rule less_le_trans) simp
  then have "f32_of_ratio n d = Fin (int (r * 2 ^ k))"
    unfolding f32_of_ratio_def k by (simp add: r_def Let_def)
  then show ?thesis using that up lo by blast
qed

text \<open>The \<open>f32\<close> of a weight in thousandths keeps the order of the weights.\<close>

lemma weight_order:
  assumes "i \<le> 1000" "j \<le> 1000"
  shows "f32_less (f32_of_ratio i 1000) (f32_of_ratio j 1000) \<longleftrightarrow> i < j"
proof -
  obtain a where a: "f32_of_ratio i 1000 = Fin (int a)"
    "2 * (1000 * a) \<le> 2 * i * 2 ^ 149 + 1000 * 2 ^ 126" "2 * i * 2 ^ 149 \<le> 2 * (1000 * a) + 1000 * 2 ^ 126"
    using f32_of_ratio_unit [of 1000 i] assms by auto
  obtain b where b: "f32_of_ratio j 1000 = Fin (int b)"
    "2 * (1000 * b) \<le> 2 * j * 2 ^ 149 + 1000 * 2 ^ 126" "2 * j * 2 ^ 149 \<le> 2 * (1000 * b) + 1000 * 2 ^ 126"
    using f32_of_ratio_unit [of 1000 j] assms by auto
  show ?thesis
  proof (cases i j rule: linorder_cases)
    case less
    then have "i + 1 \<le> j" by simp
    then have "a < b" using a b by simp
    with less show ?thesis by (simp add: a b)
  next
    case greater
    then have "j + 1 \<le> i" by simp
    then have "b < a" using a b by simp
    with greater show ?thesis by (simp add: a b)
  qed (simp add: b)
qed

lemma f32_of_ratio_0: "0 < d \<Longrightarrow> f32_of_ratio 0 d = f32_zero"
proof -
  assume "0 < d"
  then have "List.find (\<lambda>k. 0 < d * 2 ^ (24 + k)) [0..<254] = Some 0" unfolding find_upt_Some by simp
  then show ?thesis using \<open>0 < d\<close> by (simp add: f32_of_ratio_def f32_zero_def round_half_even_def)
qed

lemma f32_of_ratio_1:
  assumes "0 < d"
  shows "f32_of_ratio d d = f32_one"
proof -
  let ?P = "\<lambda>k. d * 2 ^ 149 < d * 2 ^ (24 + k)"
  have P: "?P k \<longleftrightarrow> 126 \<le> k" for k
  proof -
    have "?P k \<longleftrightarrow> (2::nat) ^ 149 < 2 ^ (24 + k)" using assms by simp
    also have "\<dots> \<longleftrightarrow> 149 < 24 + k" by (rule power_strict_increasing_iff) simp
    finally show ?thesis by auto
  qed
  have "List.find ?P [0..<254] = Some 126" unfolding find_upt_Some P by simp
  moreover have "round_half_even (d * 2 ^ 149) (d * 2 ^ 126) = 2 ^ 23"
  proof -
    have "d * 2 ^ 149 = d * 2 ^ 126 * (2 ^ 23 :: nat)" by simp
    then show ?thesis unfolding round_half_even_def Let_def using assms
      by (metis mod_mult_self1_is_0 mult_0_right mult_pos_pos nonzero_mult_div_cancel_left not_gr_zero zero_less_numeral zero_less_power)
  qed
  ultimately show ?thesis by (simp add: f32_of_ratio_def f32_one_def)
qed

section \<open>The best candidate\<close>

lemma coding_quality_positive: "coding_quality accept_encoding coding = Some q \<Longrightarrow> f32_less f32_zero q"
  by (auto simp: coding_quality_def split: prod.splits option.splits if_splits)

lemma f32_order:
  assumes "f32_less f32_zero p" "f32_less f32_zero q" "f32_less f32_zero r"
  shows "f32_less p q \<Longrightarrow> \<not> f32_less q p" "f32_less q p \<Longrightarrow> \<not> f32_less q r \<Longrightarrow> f32_less r p"
  using assms by (cases p; cases q; cases r; simp add: f32_zero_def)+

interpretation codings: first_best "coding_quality accept_encoding" "\<lambda>q bq. f32_less bq q"
  for accept_encoding
  by unfold_locales (use coding_quality_positive f32_order in blast)+

section \<open>The field as RFC 9110 writes it\<close>

text \<open>
  A list of codings, each with an optional weight in thousandths, and its text: the weight as
  \<open>1\<close> or with three decimals.
\<close>

type_synonym weighted = "string \<times> nat option"

definition weight_text :: "nat \<Rightarrow> string" where
  "weight_text k = (if k = 1000 then ''1''
     else ''0.'' @ [digit_char (k div 100), digit_char (k div 10 mod 10), digit_char (k mod 10)])"

definition weighted_text :: "weighted \<Rightarrow> string" where
  "weighted_text w = fst w @ (case snd w of None \<Rightarrow> [] | Some k \<Rightarrow> '';q='' @ weight_text k)"

fun accept_text :: "weighted list \<Rightarrow> string" where
  "accept_text [] = []"
| "accept_text [w] = weighted_text w"
| "accept_text (w # ws) = weighted_text w @ '', '' @ accept_text ws"

definition coding_name :: "string \<Rightarrow> bool" where
  "coding_name n \<longleftrightarrow> n \<noteq> [] \<and> list_all (\<lambda>c. is_ascii_graphic c \<and> c \<noteq> CHR '','' \<and> c \<noteq> CHR '';'') n"

definition weighted_ok :: "weighted \<Rightarrow> bool" where
  "weighted_ok w \<longleftrightarrow> coding_name (fst w) \<and> (case snd w of None \<Rightarrow> True | Some k \<Rightarrow> k \<le> 1000)"

definition weight_of :: "weighted \<Rightarrow> nat" where
  "weight_of w = (case snd w of None \<Rightarrow> 1000 | Some k \<Rightarrow> k)"

definition named_weight :: "weighted list \<Rightarrow> string \<Rightarrow> nat option" where
  "named_weight ws name = map_of (map (\<lambda>w. (to_ascii_lowercase (fst w), weight_of w)) ws) (to_ascii_lowercase name)"

text \<open>The weight of a coding by RFC 9110 12.5.3, zero when it is not acceptable.\<close>

definition rfc_weight :: "weighted list \<Rightarrow> string \<Rightarrow> nat" where
  "rfc_weight ws name = (case named_weight ws name of
     Some k \<Rightarrow> k
   | None \<Rightarrow> (case named_weight ws ''*'' of
       Some k \<Rightarrow> k
     | None \<Rightarrow> if eq_ignore_ascii_case name ''identity'' then 1000 else 0))"

lemma digit_char_digit: "n < 10 \<Longrightarrow> is_ascii_digit (digit_char n) \<and> digit_val (digit_char n) = n"
  by (simp add: is_ascii_digit_def digit_char_def digit_val_def byte_val_def)

lemma parse_weight:
  assumes "k \<le> 1000"
  shows "parse_f32 (weight_text k) = Some (f32_of_ratio k 1000)"
proof (cases "k = 1000")
  case True
  have "is_ascii_digit CHR ''1''" "digit_val CHR ''1'' = 1"
    by (simp_all add: is_ascii_digit_def byte_val_def digit_val_def)
  then have "parse_f32 (weight_text k) = Some (f32_of_ratio 1 1)"
    by (simp add: True weight_text_def parse_f32_def starts_with_def parse_decimal_def f32_of_decimal_def
        digits_val_def)
  then show ?thesis by (simp add: True f32_of_ratio_1)
next
  case False
  with assms have k: "k < 1000" by simp
  let ?a = "digit_char (k div 100)" and ?b = "digit_char (k div 10 mod 10)" and ?c = "digit_char (k mod 10)"
  have d: "is_ascii_digit ?a" "is_ascii_digit ?b" "is_ascii_digit ?c" "is_ascii_digit CHR ''0''"
    "digit_val ?a = k div 100" "digit_val ?b = k div 10 mod 10" "digit_val ?c = k mod 10" "digit_val CHR ''0'' = 0"
    "\<not> is_ascii_digit CHR ''.''"
    using k by (simp_all add: digit_char_digit) (simp_all add: is_ascii_digit_def byte_val_def digit_val_def)
  have "k div 100 = k div 10 div 10" by (simp add: div_mult2_eq [symmetric])
  then have "k = (k div 100 * 10 + k div 10 mod 10) * 10 + k mod 10" by simp
  then show ?thesis using d False
    by (simp add: weight_text_def parse_f32_def starts_with_def parse_decimal_def f32_of_decimal_def digits_val_def)
qed

lemma weight_text_graphic:
  assumes "k \<le> 1000" "c \<in> set (weight_text k)"
  shows "is_ascii_graphic c \<and> c \<noteq> CHR '','' \<and> c \<noteq> CHR '';''"
proof -
  have "is_ascii_digit c \<or> c = CHR ''.''"
    using assms digit_char_digit [of "k div 100"] digit_char_digit [of "k div 10 mod 10"] digit_char_digit [of "k mod 10"]
    by (auto simp: weight_text_def is_ascii_digit_def byte_val_def split: if_splits)
  then show ?thesis by (auto simp: is_ascii_digit_def is_ascii_graphic_def byte_val_def)
qed

lemma weight_text_nonempty: "weight_text k \<noteq> []"
  by (simp add: weight_text_def)

lemma graphic_text:
  assumes "weighted_ok w"
  shows "weighted_text w \<noteq> []" "list_all (\<lambda>c. is_ascii_graphic c \<and> c \<noteq> CHR '','') (weighted_text w)"
    "split_on CHR '';'' (weighted_text w) = fst w # (case snd w of None \<Rightarrow> [] | Some k \<Rightarrow> [''q='' @ weight_text k])"
proof -
  obtain n v where w: "w = (n, v)" by (cases w)
  have n: "n \<noteq> []" "\<And>c. c \<in> set n \<Longrightarrow> is_ascii_graphic c \<and> c \<noteq> CHR '','' \<and> c \<noteq> CHR '';''"
    using assms by (auto simp: w weighted_ok_def coding_name_def list_all_iff)
  have t: "is_ascii_graphic c \<and> c \<noteq> CHR '','' \<and> c \<noteq> CHR '';''" if "v = Some k" "c \<in> set (weight_text k)" for c k
    using weight_text_graphic [of k c] that assms by (simp add: w weighted_ok_def)
  show "weighted_text w \<noteq> []" using n by (simp add: w weighted_text_def)
  have "is_ascii_graphic CHR '';''" "is_ascii_graphic CHR ''q''" "is_ascii_graphic CHR ''=''"
    by (simp_all add: is_ascii_graphic_def byte_val_def)
  then show "list_all (\<lambda>c. is_ascii_graphic c \<and> c \<noteq> CHR '','') (weighted_text w)"
    using n t by (auto simp: w weighted_text_def list_all_iff split: option.splits)
  have ns: "CHR '';'' \<notin> set n" using n by blast
  have "CHR '';'' \<notin> set (''q='' @ weight_text k)" if "v = Some k" for k using t that by auto
  then show "split_on CHR '';'' (weighted_text w) = fst w # (case snd w of None \<Rightarrow> [] | Some k \<Rightarrow> [''q='' @ weight_text k])"
    using ns split_on_append [OF ns]
    by (auto simp: w weighted_text_def split_on_no_delim split: option.splits)
qed

lemma trim_graphic: "list_all is_ascii_graphic s \<Longrightarrow> trim s = s"
  by (cases "s = []") (auto intro!: trim_graphic_ends simp: list_all_iff)

lemma q_param_weight:
  assumes "k \<le> 1000"
  shows "q_param q (''q='' @ weight_text k) = f32_of_ratio k 1000"
proof -
  have g: "list_all is_ascii_graphic (weight_text k)"
    using weight_text_graphic [OF assms] by (simp add: list_all_iff)
  then have "list_all is_ascii_graphic (''q='' @ weight_text k)"
    by (simp add: is_ascii_graphic_def byte_val_def)
  then show ?thesis using g parse_weight [OF assms] by (simp add: q_param_def trim_graphic)
qed

lemma coding_part_weighted:
  assumes "weighted_ok w"
  shows "coding_part coding found (weighted_text w) =
    (if fst w = ''*'' then (Some (f32_of_ratio (weight_of w) 1000), snd found)
     else if eq_ignore_ascii_case (fst w) coding then (fst found, Some (f32_of_ratio (weight_of w) 1000))
     else found)"
proof -
  have "list_all is_ascii_graphic (weighted_text w)" "list_all is_ascii_graphic (fst w)"
    using graphic_text(2) [OF assms] assms by (auto simp: list_all_iff weighted_ok_def coding_name_def)
  then have "trim (weighted_text w) = weighted_text w" "trim (fst w) = fst w"
    by (simp_all only: trim_graphic)
  moreover have "foldl q_param f32_one (tl (split_on CHR '';'' (weighted_text w))) = f32_of_ratio (weight_of w) 1000"
    using assms by (auto simp: graphic_text(3) weight_of_def q_param_weight [simplified] weighted_ok_def f32_of_ratio_1
        split: option.splits)
  ultimately show ?thesis
    using graphic_text(1,3) [OF assms] by (simp add: coding_part_def Let_def)
qed

lemma coding_part_space: "coding_part coding found (CHR '' '' # s) = coding_part coding found s"
  by (simp add: coding_part_def trim_space)

lemma accept_parts:
  "list_all weighted_ok (w # ws) \<Longrightarrow>
     split_on CHR '','' (accept_text (w # ws)) = weighted_text w # map (\<lambda>w. CHR '' '' # weighted_text w) ws \<and>
     split_on CHR '','' (CHR '' '' # accept_text (w # ws)) = map (\<lambda>w. CHR '' '' # weighted_text w) (w # ws)"
proof (induction ws arbitrary: w)
  case Nil
  then have "CHR '','' \<notin> set (weighted_text w)" using graphic_text(2) [of w] by (auto simp: list_all_iff)
  then show ?case by (simp add: split_on_no_delim)
next
  case (Cons v vs)
  then have "CHR '','' \<notin> set (weighted_text w)" using graphic_text(2) [of w] by (auto simp: list_all_iff)
  with Cons show ?case
    using split_on_append [of "CHR '',''" "weighted_text w" "CHR '' '' # accept_text (v # vs)"]
      split_on_append [of "CHR '',''" "CHR '' '' # weighted_text w" "CHR '' '' # accept_text (v # vs)"]
    by simp
qed

lemma lower_star: "to_ascii_lowercase n = ''*'' \<longleftrightarrow> n = ''*''"
proof
  assume *: "to_ascii_lowercase n = ''*''"
  then obtain z where z: "n = [z]" "ascii_lower z = CHR ''*''" by (auto simp: to_ascii_lowercase_def)
  have "\<not> is_ascii_uppercase z"
  proof
    assume "is_ascii_uppercase z"
    then have "65 \<le> byte_val z" "byte_val z \<le> 90" "byte_val (ascii_lower z) = byte_val z + 32"
      by (auto simp: is_ascii_uppercase_def ascii_lower_def byte_val_def)
    then show False using z by (simp add: byte_val_def)
  qed
  with z show "n = ''*''" by (simp add: ascii_lower_def)
qed (simp add: to_ascii_lowercase_def ascii_lower_def is_ascii_uppercase_def byte_val_def)

lemma lower_eq_star:
  "to_ascii_lowercase n = to_ascii_lowercase ''*'' \<longleftrightarrow> n = ''*''" "to_ascii_lowercase ''*'' = to_ascii_lowercase n \<longleftrightarrow> n = ''*''"
  using lower_star [of n] lower_star [of "''*''"] by auto

lemma found_weights:
  assumes "list_all weighted_ok ws" "distinct (map (to_ascii_lowercase \<circ> fst) ws)" "coding \<noteq> ''*''"
  shows "foldl (coding_part coding) found (map weighted_text ws) =
    (case named_weight ws ''*'' of None \<Rightarrow> fst found | Some k \<Rightarrow> Some (f32_of_ratio k 1000),
     case named_weight ws coding of None \<Rightarrow> snd found | Some k \<Rightarrow> Some (f32_of_ratio k 1000))"
  using assms
proof (induction ws arbitrary: found)
  case Nil
  then show ?case by (simp add: named_weight_def)
next
  case (Cons w ws)
  have "named_weight ws n = None" if "to_ascii_lowercase (fst w) = to_ascii_lowercase n" for n
    using Cons.prems(2) that by (auto simp: named_weight_def map_of_eq_None_iff image_iff)
  with Cons show ?case
    by (auto simp: coding_part_weighted named_weight_def eq_ignore_ascii_case_def lower_eq_star split: option.splits)
qed

lemma coding_quality_weight:
  assumes "list_all weighted_ok ws" "distinct (map (to_ascii_lowercase \<circ> fst) ws)" "coding \<noteq> ''*''"
  shows "coding_quality (accept_text ws) coding =
    (if rfc_weight ws coding = 0 then None else Some (f32_of_ratio (rfc_weight ws coding) 1000))"
    and "rfc_weight ws coding \<le> 1000"
proof -
  have k: "k \<le> 1000" if "named_weight ws n = Some k" for n k
    using map_of_SomeD [OF that [unfolded named_weight_def]] assms(1)
    by (auto simp: weight_of_def list_all_iff weighted_ok_def split: option.splits)
  show "rfc_weight ws coding \<le> 1000" using k by (auto simp: rfc_weight_def split: option.splits)
  have "foldl (coding_part coding) (None, None) (split_on CHR '','' (accept_text ws)) =
    foldl (coding_part coding) (None, None) (map weighted_text ws)"
  proof (cases ws)
    case Nil
    then show ?thesis by (simp add: coding_part_def)
  next
    case (Cons w vs)
    have "foldl (coding_part coding) f (map (\<lambda>w. CHR '' '' # weighted_text w) vs) =
      foldl (coding_part coding) f (map weighted_text vs)" for f
      by (induction vs arbitrary: f) (simp_all add: coding_part_space)
    then show ?thesis using accept_parts [of w vs] assms(1) by (simp add: Cons)
  qed
  then have "foldl (coding_part coding) (None, None) (split_on CHR '','' (accept_text ws)) =
    (map_option (\<lambda>k. f32_of_ratio k 1000) (named_weight ws ''*''),
     map_option (\<lambda>k. f32_of_ratio k 1000) (named_weight ws coding))"
    using found_weights [OF assms] by (simp split: option.splits)
  moreover have "f32_less f32_zero (f32_of_ratio k 1000) \<longleftrightarrow> 0 < k" if "k \<le> 1000" for k
    using weight_order [of 0 k] that by (simp add: f32_of_ratio_0)
  moreover have "f32_less f32_zero f32_one" by (simp add: f32_zero_def f32_one_def)
  ultimately show "coding_quality (accept_text ws) coding =
    (if rfc_weight ws coding = 0 then None else Some (f32_of_ratio (rfc_weight ws coding) 1000))"
    using k by (auto simp: coding_quality_def rfc_weight_def f32_of_ratio_1 split: option.splits)
qed



text \<open>A weight outside the range of RFC 9110 is taken as it stands.\<close>

lemma quality_above_one: "coding_quality ''br;q=5'' ''br'' = Some (Fin (5 * 2 ^ 149))"
proof -
  let ?P = "\<lambda>k. 5 * 2 ^ 149 < (1 * 2 ^ (24 + k) :: nat)"
  have "\<not> ?P j" if "j < 128" for j
    using power_increasing [of "24 + j" 151 "2::nat"] that by simp
  then have "List.find ?P [0..<254] = Some 128" unfolding find_upt_Some by simp
  then have "f32_of_ratio 5 1 = Fin (5 * 2 ^ 149)"
    unfolding f32_of_ratio_def by (simp add: round_half_even_def)
  moreover have "parse_f32 ''5'' = Some (f32_of_ratio 5 1)"
    by (simp add: parse_f32_def starts_with_def parse_decimal_def is_ascii_digit_def byte_val_def digits_val_def
        digit_val_def f32_of_decimal_def)
  moreover have "trim ''br;q=5'' = ''br;q=5''" "trim ''q=5'' = ''q=5''" "trim ''5'' = ''5''" "trim ''br'' = ''br''"
    by (simp_all add: trim_graphic is_ascii_graphic_def byte_val_def)
  ultimately show ?thesis
    by (simp add: coding_quality_def coding_part_def q_param_def f32_zero_def eq_ignore_ascii_case_def)
qed

text \<open>The file server and the request loop of \<open>App\<close> choose the same coding from the same levels.\<close>

definition offered :: "nat option \<times> nat option \<Rightarrow> string list" where
  "offered levels = (if fst levels = None then [] else [''br'']) @ (if snd levels = None then [] else [''gzip''])"

lemma choose_encoding_preferred:
  "fst (choose_encoding mime accept_encoding compression) =
     (case preferred_coding accept_encoding (offered (permitted_levels compression (trim (mime_base mime)))) of
        Some c \<Rightarrow> if c = ''br'' then Brotli else Gzip
      | None \<Rightarrow> Identity)"
  by (cases "permitted_levels compression (trim (mime_base mime))"; cases "coding_quality accept_encoding ''br''";
      cases "coding_quality accept_encoding ''gzip''")
    (auto simp: choose_encoding_def preferred_coding_def offered_def encoding_candidates_def candidate_quality_def
      split: option.splits)

end
