(* ===== verification/App_Request.thy ===== *)
theory App_Request
  imports App_Routes Path_Param Access_Gate Negotiate
begin

text \<open>
  What an \<open>App\<close> service makes of a request before its handler runs: \<open>FrameworkState::build_dict\<close> of
  \<open>m6-core/src/app.rs\<close>, the helpers of \<open>m6-core/src/request.rs\<close> and the flash message of
  \<open>m6-core/src/response.rs\<close> with the cookie builder of \<open>m6-core/src/cookie.rs\<close>.

  Crates are parameters, gathered in \<open>services\<close>: \<open>serde_json\<close>, \<open>base64\<close>, \<open>hmac\<close>, \<open>httpdate\<close> and the \<open>lru\<close>
  cache of params files with its state \<open>'c\<close>. What one request finds outside the process (the clock,
  fresh random bytes, files) is its \<open>app_moment\<close>. The cargo features \<open>csrf\<close> and \<open>flash\<close> are the two flags
  of the framework state. One request draws at most one random token.
\<close>

datatype file_read = Absent | Unreadable string | Contents bytes

record 'c services =
  sv_alnum :: "string \<Rightarrow> bool"
  sv_from_slice :: "bytes \<Rightarrow> string + json"
  sv_b64_std_decode :: "string \<Rightarrow> bytes option"
  sv_b64_url_decode :: "string \<Rightarrow> bytes option"
  sv_b64_url_encode :: "bytes \<Rightarrow> string"
  sv_hmac :: "bytes \<Rightarrow> bytes \<Rightarrow> bytes"
  sv_cache_get :: "'c \<Rightarrow> string \<Rightarrow> json_map option \<times> 'c"
  sv_cache_put :: "'c \<Rightarrow> string \<Rightarrow> json_map \<Rightarrow> 'c"

record app_moment =
  mo_datetime :: string
  mo_year :: string
  mo_token :: string
  mo_file :: "string \<Rightarrow> file_read"

record minification_config =
  mc_enabled :: "string \<Rightarrow> bool option"
  mc_inline_js :: bool

record framework =
  fw_site_dir :: string
  fw_routes :: "compiled_route list"
  fw_compression :: compression
  fw_minification :: minification_config
  fw_flash_secret :: bytes
  fw_csrf :: bool
  fw_flash :: bool

definition is_enabled :: "minification_config \<Rightarrow> string \<Rightarrow> bool" where
  "is_enabled m mime = (case mc_enabled m mime of Some b \<Rightarrow> b | None \<Rightarrow> False)"

definition raw_query :: "raw_request \<Rightarrow> string" where
  "raw_query raw = (case rq_query raw of Some q \<Rightarrow> q | None \<Rightarrow> [])"

section \<open>Cookies\<close>

datatype same_site = Strict | Lax | NoneSite

record set_cookie =
  ck_name :: string
  ck_value :: string
  ck_max_age :: "int option"
  ck_domain :: "string option"
  ck_path :: "string option"
  ck_secure :: bool
  ck_http_only :: bool
  ck_same_site :: "same_site option"

definition cookie_new :: "string \<Rightarrow> string \<Rightarrow> set_cookie" where
  "cookie_new name value = \<lparr>ck_name = name, ck_value = value, ck_max_age = None, ck_domain = None, ck_path = None,
     ck_secure = False, ck_http_only = False, ck_same_site = None\<rparr>"

definition cookie_removal :: "string \<Rightarrow> set_cookie" where
  "cookie_removal name = (cookie_new name [])\<lparr>ck_max_age := Some 0\<rparr>"

definition show_int :: "int \<Rightarrow> string" where
  "show_int n = (if n < 0 then ''-'' @ show_nat (nat (- n)) else show_nat (nat n))"

definition same_site_text :: "same_site \<Rightarrow> string" where
  "same_site_text s = (case s of Strict \<Rightarrow> ''Strict'' | Lax \<Rightarrow> ''Lax'' | NoneSite \<Rightarrow> ''None'')"

definition to_header_value :: "set_cookie \<Rightarrow> string" where
  "to_header_value c = ck_name c @ ''='' @ ck_value c @
     (case ck_max_age c of Some m \<Rightarrow> ''; Max-Age='' @ show_int m | None \<Rightarrow> []) @
     (case ck_domain c of Some d \<Rightarrow> ''; Domain='' @ d | None \<Rightarrow> []) @
     (case ck_path c of Some p \<Rightarrow> ''; Path='' @ p | None \<Rightarrow> []) @
     (if ck_secure c then ''; Secure'' else []) @
     (if ck_http_only c then ''; HttpOnly'' else []) @
     (case ck_same_site c of Some s \<Rightarrow> ''; SameSite='' @ same_site_text s | None \<Rightarrow> [])"

definition to_header :: "set_cookie \<Rightarrow> string \<times> string" where
  "to_header c = (''Set-Cookie'', to_header_value c)"

definition cookies_map :: "string \<Rightarrow> json_map" where
  "cookies_map cookie_hdr = foldl (\<lambda>m part.
     case split_once CHR ''='' (trim part) of
       Some (k, v) \<Rightarrow> map_insert (trim k) (JString (trim v)) m
     | None \<Rightarrow> m) [] (split_on CHR '';'' cookie_hdr)"

section \<open>Claims and flash messages\<close>

definition first_some :: "'a option \<Rightarrow> 'a option \<Rightarrow> 'a option" where
  "first_some a b = (case a of Some x \<Rightarrow> Some x | None \<Rightarrow> b)"

definition insert_some :: "string \<Rightarrow> json option \<Rightarrow> json_map \<Rightarrow> json_map" where
  "insert_some k v m = (case v of Some x \<Rightarrow> map_insert k x m | None \<Rightarrow> m)"

definition parse_auth_claims :: "'c services \<Rightarrow> string \<Rightarrow> json_map" where
  "parse_auth_claims sv hdr =
     (case first_some (sv_b64_std_decode sv (trim hdr)) (sv_b64_url_decode sv (trim hdr)) of
        None \<Rightarrow> []
      | Some data \<Rightarrow>
          (case sv_from_slice sv data of
             Inl _ \<Rightarrow> []
           | Inr v \<Rightarrow>
               (case as_object v of
                  None \<Rightarrow> []
                | Some obj \<Rightarrow>
                    insert_some ''auth_roles'' (map_of obj ''roles'')
                      (insert_some ''auth_groups'' (map_of obj ''groups'')
                        (insert_some ''auth_sub'' (map_of obj ''sub'')
                          (insert_some ''auth_username'' (first_some (map_of obj ''username'') (map_of obj ''sub'')) []))))))"

definition verify_flash_cookie :: "'c services \<Rightarrow> string \<Rightarrow> bytes \<Rightarrow> string option" where
  "verify_flash_cookie sv cookie_val secret =
     (case split_once CHR ''.'' cookie_val of
        None \<Rightarrow> None
      | Some (msg_b64, sig_b64) \<Rightarrow>
          let expected = sv_hmac sv secret msg_b64 in
          (case sv_b64_url_decode sv sig_b64 of
             None \<Rightarrow> None
           | Some provided \<Rightarrow>
               if length expected \<noteq> length provided then None
               else if fold (\<lambda>(a, b) acc. or acc (xor (byte_val a) (byte_val b))) (zip expected provided) (0 :: nat) \<noteq> 0
               then None
               else (case sv_b64_url_decode sv msg_b64 of
                       None \<Rightarrow> None
                     | Some msg_bytes \<Rightarrow> if valid_utf8 msg_bytes then Some msg_bytes else None)))"

text \<open>\<open>Response::flash\<close>: the value of the cookie.\<close>

definition flash_cookie_value :: "'c services \<Rightarrow> string \<Rightarrow> bytes \<Rightarrow> string" where
  "flash_cookie_value sv message secret =
     (let msg_b64 = sv_b64_url_encode sv message;
          sig_b64 = sv_b64_url_encode sv (sv_hmac sv secret msg_b64)
      in msg_b64 @ ''.'' @ sig_b64)"

definition flash_header :: "'c services \<Rightarrow> string \<Rightarrow> bytes \<Rightarrow> string \<times> string" where
  "flash_header sv message secret =
     to_header ((cookie_new ''_flash'' (flash_cookie_value sv message secret))
       \<lparr>ck_max_age := Some 120, ck_path := Some ''/'', ck_http_only := True\<rparr>)"

section \<open>The request dictionary\<close>

definition resolve_path_template :: "string \<Rightarrow> path_params \<Rightarrow> string" where
  "resolve_path_template template params =
     foldl (\<lambda>result (k, v). replace_all (''{'' @ k @ ''}'') v result) template params"

definition dict_extend :: "dict \<Rightarrow> json_map \<Rightarrow> dict" where
  "dict_extend d m = foldl (\<lambda>d (k, v). dict_insert d k v) d m"

text \<open>Step 3b: the params files whose path has a placeholder.\<close>

fun dynamic_params :: "'c services \<Rightarrow> app_moment \<Rightarrow> string \<Rightarrow> path_params \<Rightarrow> string list \<Rightarrow> dict \<Rightarrow> 'c \<Rightarrow>
    (request_error + dict) \<times> 'c" where
  "dynamic_params sv mo site_dir params [] d c = (Inr d, c)"
| "dynamic_params sv mo site_dir params (pf # pfs) d c =
     (if CHR ''{'' \<notin> set pf then dynamic_params sv mo site_dir params pfs d c
      else
        let pf_resolved = resolve_path_template pf params in
        (case sv_cache_get sv c pf_resolved of
           (Some m, c') \<Rightarrow> dynamic_params sv mo site_dir params pfs (dict_extend d m) c'
         | (None, c') \<Rightarrow>
             let abs = path_join site_dir pf_resolved in
             (case mo_file mo abs of
                Absent \<Rightarrow> dynamic_params sv mo site_dir params pfs d c'
              | Unreadable e \<Rightarrow> (Inl (Other (''reading params '' @ abs)), c')
              | Contents data \<Rightarrow>
                  (case sv_from_slice sv data of
                     Inl e \<Rightarrow> (Inl (Other (''parsing params '' @ abs)), c')
                   | Inr v \<Rightarrow>
                       let m = (case as_object v of Some obj \<Rightarrow> map_extend [] obj | None \<Rightarrow> [])
                       in dynamic_params sv mo site_dir params pfs (dict_extend d m)
                            (sv_cache_put sv c' pf_resolved m)))))"

text \<open>Step 4: the path parameters, each validated by the kind of segment that captured it.\<close>

fun insert_path_params :: "'c services \<Rightarrow> compiled_route \<Rightarrow> path_params \<Rightarrow> dict \<Rightarrow> request_error + dict" where
  "insert_path_params sv route [] d = Inr d"
| "insert_path_params sv route ((k, v) # ps) d =
     (case (if is_wildcard_param route k then validate_wildcard_param (sv_alnum sv) k v
            else validate_segment_param (sv_alnum sv) k v) of
        Inl e \<Rightarrow> Inl e
      | Inr _ \<Rightarrow> insert_path_params sv route ps (dict_insert d k (JString v)))"

definition string_pairs :: "(string \<times> string) list \<Rightarrow> json_map" where
  "string_pairs kvs = map (\<lambda>(k, v). (k, JString v)) kvs"

text \<open>Step 5: the query, at the top level and as the map \<open>query\<close>.\<close>

definition insert_query :: "raw_request \<Rightarrow> dict \<Rightarrow> dict" where
  "insert_query raw d =
     (let pairs = string_pairs (parse_query_string (raw_query raw))
      in dict_insert (dict_extend d pairs) ''query'' (JObject (map_extend [] pairs)))"

text \<open>Step 6: the fields of a form.\<close>

definition insert_form :: "raw_request \<Rightarrow> dict \<Rightarrow> dict" where
  "insert_form raw d =
     (if rq_method raw = ''POST'' then
        (case header (rq_headers raw) ''content-type'' of
           Some ct \<Rightarrow>
             if contains_sub ''application/x-www-form-urlencoded'' ct
             then dict_extend d (string_pairs (parse_form_body (rq_body raw))) else d
         | None \<Rightarrow> d)
      else d)"

definition request_cookies :: "raw_request \<Rightarrow> json_map" where
  "request_cookies raw =
     (case header (rq_headers raw) ''cookie'' of Some h \<Rightarrow> cookies_map h | None \<Rightarrow> [])"

text \<open>Steps 7 and 8: cookies and the built-in keys.\<close>

definition insert_builtins :: "raw_request \<Rightarrow> app_moment \<Rightarrow> dict \<Rightarrow> dict" where
  "insert_builtins raw mo d =
     dict_insert (dict_insert (dict_insert (dict_insert d ''cookies'' (JObject (request_cookies raw)))
       ''request_path'' (JString (rq_path raw)))
       ''datetime'' (JString (mo_datetime mo)))
       ''year'' (JString (mo_year mo))"

text \<open>Step 9: the claims the proxy vouches for.\<close>

definition insert_auth :: "'c services \<Rightarrow> raw_request \<Rightarrow> dict \<Rightarrow> dict" where
  "insert_auth sv raw d =
     (case header (rq_headers raw) ''x-auth-claims'' of
        Some h \<Rightarrow> dict_extend d (parse_auth_claims sv h)
      | None \<Rightarrow> d)"

text \<open>Step 11: the flash message.\<close>

definition insert_flash :: "'c services \<Rightarrow> framework \<Rightarrow> raw_request \<Rightarrow> dict \<Rightarrow> dict" where
  "insert_flash sv fw raw d =
     (if \<not> fw_flash fw then d
      else (case Option.bind (map_of (request_cookies raw) ''_flash'') as_str of
              None \<Rightarrow> d
            | Some c \<Rightarrow>
                (case verify_flash_cookie sv c (fw_flash_secret fw) of
                   Some msg \<Rightarrow> dict_insert d ''flash'' (JString msg)
                 | None \<Rightarrow> d)))"

definition csrf_cookie :: "dict \<Rightarrow> string option" where
  "csrf_cookie d = Option.bind (Option.bind (dict_get d ''cookies'') (\<lambda>c. json_get c ''_csrf'')) as_str"

text \<open>Step 12: the CSRF token, as a default.\<close>

definition insert_csrf :: "framework \<Rightarrow> app_moment \<Rightarrow> dict \<Rightarrow> dict" where
  "insert_csrf fw mo d =
     (if \<not> fw_csrf fw \<or> contains_key d ''csrf_token'' then d
      else
        let token = (case csrf_cookie d of
              Some existing \<Rightarrow> if existing \<noteq> [] then existing else mo_token mo
            | None \<Rightarrow> mo_token mo)
        in dict_insert d ''csrf_token'' (JString token))"

definition build_dict :: "'c services \<Rightarrow> framework \<Rightarrow> app_moment \<Rightarrow> raw_request \<Rightarrow> compiled_route \<Rightarrow> path_params \<Rightarrow> 'c \<Rightarrow>
    (request_error + dict) \<times> 'c" where
  "build_dict sv fw mo raw route path_params c =
     (case dynamic_params sv mo (fw_site_dir fw) path_params (cr_params_files route) (with_base (cr_base_dict route)) c of
        (Inl e, c') \<Rightarrow> (Inl e, c')
      | (Inr d, c') \<Rightarrow>
          (case insert_path_params sv route path_params d of
             Inl e \<Rightarrow> (Inl e, c')
           | Inr d \<Rightarrow>
               (Inr (insert_csrf fw mo
                  (insert_flash sv fw raw
                    (insert_auth sv raw
                      (insert_builtins raw mo
                        (insert_form raw (insert_query raw d)))))), c')))"

section \<open>What a handler reads\<close>

record request =
  req_raw :: raw_request
  req_dict :: dict
  req_site_dir :: string
  req_route_pattern :: "string option"
  req_route_settings :: "json_map option"
  req_compression :: "compression option"
  req_minification :: "minification_config option"

definition new_request :: "raw_request \<Rightarrow> dict \<Rightarrow> compiled_route \<Rightarrow> framework \<Rightarrow> request" where
  "new_request raw d route fw = \<lparr>req_raw = raw, req_dict = d, req_site_dir = fw_site_dir fw,
     req_route_pattern = Some (cr_pattern route), req_route_settings = Some (cr_settings route),
     req_compression = Some (fw_compression fw), req_minification = Some (fw_minification fw)\<rparr>"

definition route_setting :: "request \<Rightarrow> string \<Rightarrow> json option" where
  "route_setting req key = Option.bind (req_route_settings req) (\<lambda>m. map_of m key)"

definition route_str :: "request \<Rightarrow> string \<Rightarrow> string option" where
  "route_str req key = Option.bind (route_setting req key) as_str"

definition route_bool :: "request \<Rightarrow> string \<Rightarrow> bool \<Rightarrow> bool" where
  "route_bool req key dflt = (case route_setting req key of Some (JBool b) \<Rightarrow> b | _ \<Rightarrow> dflt)"

definition site_path :: "request \<Rightarrow> string \<Rightarrow> string" where
  "site_path req rel = path_join (req_site_dir req) rel"

definition field :: "request \<Rightarrow> string \<Rightarrow> request_error + string" where
  "field req name =
     (case Option.bind (dict_get (req_dict req) name) as_str of
        Some s \<Rightarrow> Inr s
      | None \<Rightarrow>
          (case List.find (\<lambda>(k, _). k = name) (parse_query_string (raw_query (req_raw req))) of
             Some (_, v) \<Rightarrow> Inr v
           | None \<Rightarrow> Inl (BadRequest (''missing field `'' @ name @ ''`''))))"

definition verify_csrf :: "request \<Rightarrow> request_error + unit" where
  "verify_csrf req =
     (let cookie_token = (case csrf_cookie (req_dict req) of Some t \<Rightarrow> t | None \<Rightarrow> []);
          field_token = (case Option.bind (dict_get (req_dict req) ''csrf_token'') as_str of Some t \<Rightarrow> t | None \<Rightarrow> [])
      in if cookie_token = [] \<or> field_token = [] \<or> cookie_token \<noteq> field_token then Inl request_error.Forbidden else Inr ())"

section \<open>Where a key of the dictionary comes from\<close>

lemma dict_get_extend: "dict_get (dict_extend d m) = dict_get d ++ map_of (rev m)"
  unfolding dict_extend_def
  by (induction m arbitrary: d) (auto simp: fun_eq_iff map_add_def split: option.splits)

lemma insert_some_keys: "fst ` set (insert_some k v m) \<subseteq> insert k (fst ` set m)"
  by (auto simp: insert_some_def image_iff split: option.splits dest!: set_map_insert [THEN equalityD1, THEN subsetD, OF imageI])

definition auth_keys :: "string set" where
  "auth_keys = {''auth_username'', ''auth_sub'', ''auth_groups'', ''auth_roles''}"

lemma claims_keys: "fst ` set (parse_auth_claims sv h) \<subseteq> auth_keys"
proof -
  have "fst ` set (insert_some ''auth_roles'' a (insert_some ''auth_groups'' b
    (insert_some ''auth_sub'' c (insert_some ''auth_username'' e [])))) \<subseteq> auth_keys" for a b c e
    by (rule subset_trans [OF insert_some_keys] insert_subsetI empty_subsetI image_mono | simp add: auth_keys_def)+
  moreover have "parse_auth_claims sv h = [] \<or> (\<exists>a b c e. parse_auth_claims sv h = insert_some ''auth_roles'' a
    (insert_some ''auth_groups'' b (insert_some ''auth_sub'' c (insert_some ''auth_username'' e []))))"
    unfolding parse_auth_claims_def by (auto split: option.splits sum.splits)
  ultimately show ?thesis by (metis empty_subsetI image_empty list.set(1))
qed

lemma insert_auth_other: "k \<notin> auth_keys \<Longrightarrow> dict_get (insert_auth sv raw d) k = dict_get d k"
  using claims_keys by (fastforce simp: insert_auth_def dict_get_extend map_add_def map_of_eq_None_iff
      split: option.splits dest: map_of_SomeD)

lemma insert_flash_other: "k \<noteq> ''flash'' \<Longrightarrow> dict_get (insert_flash sv fw raw d) k = dict_get d k"
  by (auto simp: insert_flash_def split: option.splits)

lemma insert_csrf_other: "k \<noteq> ''csrf_token'' \<Longrightarrow> dict_get (insert_csrf fw mo d) k = dict_get d k"
  by (auto simp: insert_csrf_def Let_def)

lemma insert_builtins_get:
  "dict_get (insert_builtins raw mo d) = (dict_get d)(''cookies'' \<mapsto> JObject (request_cookies raw),
     ''request_path'' \<mapsto> JString (rq_path raw), ''datetime'' \<mapsto> JString (mo_datetime mo),
     ''year'' \<mapsto> JString (mo_year mo))"
  by (simp add: insert_builtins_def)

lemma build_dict_cases:
  assumes "build_dict sv fw mo raw route params c = (Inr d, c')"
  obtains d1 d2 where
    "dynamic_params sv mo (fw_site_dir fw) params (cr_params_files route) (with_base (cr_base_dict route)) c = (Inr d1, c')"
    "insert_path_params sv route params d1 = Inr d2"
    "d = insert_csrf fw mo (insert_flash sv fw raw (insert_auth sv raw (insert_builtins raw mo
       (insert_form raw (insert_query raw d2)))))"
  using assms by (auto simp: build_dict_def split: prod.splits sum.splits)

text \<open>The keys the framework sets itself cannot be overridden: whatever the params files, the path, the query and
  the form hold, the dictionary of a request has its own path, its own cookies and the time under
  \<open>request_path\<close>, \<open>cookies\<close>, \<open>datetime\<close> and \<open>year\<close>.\<close>

theorem builtins_not_overridden:
  assumes "build_dict sv fw mo raw route params c = (Inr d, c')"
  shows "dict_get d ''request_path'' = Some (JString (rq_path raw)) \<and>
    dict_get d ''cookies'' = Some (JObject (request_cookies raw)) \<and>
    dict_get d ''datetime'' = Some (JString (mo_datetime mo)) \<and>
    dict_get d ''year'' = Some (JString (mo_year mo))"
  using assms
  by (auto elim!: build_dict_cases simp: insert_csrf_other insert_flash_other insert_auth_other auth_keys_def
      insert_builtins_get)

lemma insert_path_params_other:
  "insert_path_params sv route ps d = Inr d' \<Longrightarrow> k \<notin> fst ` set ps \<Longrightarrow> dict_get d' k = dict_get d k"
  by (induction sv route ps d rule: insert_path_params.induct) (auto split: sum.splits)

lemma dynamic_params_static:
  "list_all (\<lambda>pf. CHR ''{'' \<notin> set pf) pfs \<Longrightarrow> dynamic_params sv mo site_dir params pfs d c = (Inr d, c)"
  by (induction pfs) auto

text \<open>The pairs a client sends in the query and in a form, in the order they are inserted.\<close>

definition form_pairs :: "raw_request \<Rightarrow> (string \<times> string) list" where
  "form_pairs raw =
     (if rq_method raw = ''POST'' \<and> (case header (rq_headers raw) ''content-type'' of None \<Rightarrow> False
        | Some ct \<Rightarrow> contains_sub ''application/x-www-form-urlencoded'' ct)
      then parse_form_body (rq_body raw) else [])"

definition sent_value :: "raw_request \<Rightarrow> string \<Rightarrow> string option" where
  "sent_value raw k = map_of (rev (parse_query_string (raw_query raw) @ form_pairs raw)) k"

lemma map_of_string_pairs: "map_of (rev (string_pairs kvs)) k = map_option JString (map_of (rev kvs) k)"
  by (simp add: string_pairs_def rev_map map_of_map)

lemma insert_sent:
  assumes "k \<noteq> ''query''"
  shows "dict_get (insert_form raw (insert_query raw d)) k =
    (case sent_value raw k of Some v \<Rightarrow> Some (JString v) | None \<Rightarrow> dict_get d k)"
proof -
  have "dict_get (insert_form raw e) k = (case map_of (rev (form_pairs raw)) k of Some v \<Rightarrow> Some (JString v) | None \<Rightarrow> dict_get e k)" for e
    by (auto simp: insert_form_def form_pairs_def dict_get_extend map_add_def map_of_string_pairs split: option.splits)
  moreover have "dict_get (insert_query raw d) k =
    (case map_of (rev (parse_query_string (raw_query raw))) k of Some v \<Rightarrow> Some (JString v) | None \<Rightarrow> dict_get d k)"
    using assms by (auto simp: insert_query_def dict_get_extend map_add_def map_of_string_pairs Let_def split: option.splits)
  ultimately show ?thesis
    by (auto simp: sent_value_def map_add_def split: option.splits)
qed

text \<open>A route whose own configuration says nothing about a key.\<close>

definition leaves_free :: "compiled_route \<Rightarrow> path_params \<Rightarrow> string \<Rightarrow> bool" where
  "leaves_free route params k \<longleftrightarrow> list_all (\<lambda>pf. CHR ''{'' \<notin> set pf) (cr_params_files route) \<and>
     map_of (cr_base_dict route) k = None \<and> k \<notin> fst ` set params"

lemma sent_to_dict:
  assumes "build_dict sv fw mo raw route params c = (Inr d, c')" "leaves_free route params k"
    "k \<notin> {''query'', ''cookies'', ''request_path'', ''datetime'', ''year''}"
  obtains d0 where "dict_get d0 k = map_option JString (sent_value raw k)"
    "dict_get d0 ''cookies'' = Some (JObject (request_cookies raw))"
    "d = insert_csrf fw mo (insert_flash sv fw raw (insert_auth sv raw d0))"
proof -
  from assms(1) obtain d1 d2 where *:
    "dynamic_params sv mo (fw_site_dir fw) params (cr_params_files route) (with_base (cr_base_dict route)) c = (Inr d1, c')"
    "insert_path_params sv route params d1 = Inr d2"
    "d = insert_csrf fw mo (insert_flash sv fw raw (insert_auth sv raw (insert_builtins raw mo
       (insert_form raw (insert_query raw d2)))))"
    by (rule build_dict_cases)
  have "d1 = with_base (cr_base_dict route)"
    using *(1) assms(2) by (simp add: leaves_free_def dynamic_params_static)
  then have "dict_get d1 k = None" using assms(2) by (simp add: leaves_free_def dict_get_def with_base_def)
  then have d2: "dict_get d2 k = None"
    using insert_path_params_other [OF *(2)] assms(2) by (simp add: leaves_free_def)
  let ?d0 = "insert_builtins raw mo (insert_form raw (insert_query raw d2))"
  have "dict_get ?d0 k = map_option JString (sent_value raw k)"
    using assms(3) d2 by (auto simp: insert_builtins_get insert_sent split: option.splits)
  moreover have "dict_get ?d0 ''cookies'' = Some (JObject (request_cookies raw))" by (simp add: insert_builtins_get)
  ultimately show ?thesis using that *(3) by blast
qed

text \<open>C31. \<open>verify_csrf\<close> accepts a request exactly when it has a \<open>_csrf\<close> cookie and the token sent in
  the query or the form is the cookie's, or no token was sent at all: a request that leaves the
  token out is accepted, because the dictionary takes the cookie's value as the token's default.\<close>

theorem verify_csrf_iff:
  assumes "fw_csrf fw" "build_dict sv fw mo raw route params c = (Inr d, c')"
    "leaves_free route params ''csrf_token''"
  shows "verify_csrf (new_request raw d route fw) = Inr () \<longleftrightarrow>
    (\<exists>t. t \<noteq> [] \<and> map_of (request_cookies raw) ''_csrf'' = Some (JString t) \<and>
         (sent_value raw ''csrf_token'' = Some t \<or> sent_value raw ''csrf_token'' = None))"
proof -
  from sent_to_dict [OF assms(2,3)] obtain d0 where d0:
    "dict_get d0 ''csrf_token'' = map_option JString (sent_value raw ''csrf_token'')"
    "dict_get d0 ''cookies'' = Some (JObject (request_cookies raw))"
    "d = insert_csrf fw mo (insert_flash sv fw raw (insert_auth sv raw d0))" by auto
  let ?e = "insert_flash sv fw raw (insert_auth sv raw d0)"
  have e: "dict_get ?e ''csrf_token'' = map_option JString (sent_value raw ''csrf_token'')"
    "dict_get ?e ''cookies'' = Some (JObject (request_cookies raw))"
    using d0 by (simp_all add: insert_flash_other insert_auth_other auth_keys_def)
  then have c: "csrf_cookie ?e = Option.bind (map_of (request_cookies raw) ''_csrf'') as_str"
    "csrf_cookie d = Option.bind (map_of (request_cookies raw) ''_csrf'') as_str"
    by (simp_all add: csrf_cookie_def json_get_def d0(3) insert_csrf_other)
  have js: "as_str v = Some t \<longleftrightarrow> v = JString t" for v t by (cases v) auto
  show ?thesis
  proof (cases "sent_value raw ''csrf_token''")
    case (Some s)
    then have "d = ?e" using e d0(3) by (simp add: insert_csrf_def contains_key_def)
    then show ?thesis using e c Some
      by (auto simp: verify_csrf_def new_request_def js split: option.splits bind_splits)
  next
    case None
    then have "dict_get d ''csrf_token'' = Some (JString (case csrf_cookie ?e of
        Some x \<Rightarrow> if x \<noteq> [] then x else mo_token mo | None \<Rightarrow> mo_token mo))"
      using e d0(3) assms(1) by (simp add: insert_csrf_def contains_key_def)
    then show ?thesis using c None
      by (auto simp: verify_csrf_def new_request_def js split: option.splits bind_splits)
  qed
qed

lemma insert_some_ok: "map_ok m \<Longrightarrow> map_ok (insert_some k v m)"
  by (auto simp: insert_some_def map_insert_ok split: option.splits)

lemma claims_ok: "map_ok (parse_auth_claims sv h)"
proof -
  have "map_ok ([] :: json_map)" by (simp add: map_ok_def)
  then show ?thesis
    by (auto simp: parse_auth_claims_def intro!: insert_some_ok split: option.splits sum.splits)
qed

text \<open>The keys \<open>auth_username\<close>, \<open>auth_sub\<close>, \<open>auth_groups\<close> and \<open>auth_roles\<close> come from the claims the
  proxy vouches for when the claims have them. Otherwise, and in particular on a request without a valid
  token, they hold whatever the client put under that name in the query or the form.\<close>

theorem auth_keys_source:
  assumes "build_dict sv fw mo raw route params c = (Inr d, c')" "leaves_free route params k" "k \<in> auth_keys"
  shows "dict_get d k =
    (case header (rq_headers raw) ''x-auth-claims'' of
       None \<Rightarrow> map_option JString (sent_value raw k)
     | Some h \<Rightarrow> first_some (map_of (parse_auth_claims sv h) k) (map_option JString (sent_value raw k)))"
proof -
  have k: "k \<notin> {''query'', ''cookies'', ''request_path'', ''datetime'', ''year''}" "k \<noteq> ''csrf_token''" "k \<noteq> ''flash''"
    using assms(3) by (auto simp: auth_keys_def)
  from sent_to_dict [OF assms(1,2) k(1)] obtain d0 where d0:
    "dict_get d0 k = map_option JString (sent_value raw k)"
    "d = insert_csrf fw mo (insert_flash sv fw raw (insert_auth sv raw d0))" by auto
  then have "dict_get d k = dict_get (insert_auth sv raw d0) k" using k by (simp add: insert_csrf_other insert_flash_other)
  then show ?thesis
    using d0(1) by (auto simp: insert_auth_def dict_get_extend map_add_def first_some_def
        map_of_rev [OF map_ok_distinct [OF claims_ok]] split: option.splits)
qed

section \<open>Flash messages\<close>

text \<open>What the code relies on of \<open>base64\<close>'s URL-safe engine without padding: decoding is the inverse of
  encoding, and the alphabet has no dot.\<close>

definition base64_laws :: "'c services \<Rightarrow> bool" where
  "base64_laws sv \<longleftrightarrow> (\<forall>x. sv_b64_url_decode sv (sv_b64_url_encode sv x) = Some x \<and>
     CHR ''.'' \<notin> set (sv_b64_url_encode sv x))"

lemma flash_authentic:
  "verify_flash_cookie sv v secret = Some m \<Longrightarrow>
     \<exists>mb sb. v = mb @ ''.'' @ sb \<and> sv_b64_url_decode sv sb = Some (sv_hmac sv secret mb) \<and>
       sv_b64_url_decode sv mb = Some m"
  by (clarsimp simp: verify_flash_cookie_def Let_def split_once_Some credential_diff_zero
      split: option.splits if_splits) blast

text \<open>A flash message that a response sets is the message the next request shows: the value of the cookie
  verifies under the same secret and gives the message back; and a value verifies only when it carries
  the signature of its message.\<close>

theorem flash_roundtrip:
  assumes "base64_laws sv" "valid_utf8 message"
  shows "verify_flash_cookie sv (flash_cookie_value sv message secret) secret = Some message \<and>
    (verify_flash_cookie sv v secret = Some m \<longrightarrow> (\<exists>mb sb. v = mb @ ''.'' @ sb \<and>
       sv_b64_url_decode sv sb = Some (sv_hmac sv secret mb) \<and> sv_b64_url_decode sv mb = Some m))"
proof -
  let ?mb = "sv_b64_url_encode sv message"
  have "split_once CHR ''.'' (flash_cookie_value sv message secret) =
    Some (?mb, sv_b64_url_encode sv (sv_hmac sv secret ?mb))"
    using assms(1) by (simp add: split_once_Some flash_cookie_value_def Let_def base64_laws_def)
  then show ?thesis
    using assms flash_authentic [of sv v secret m]
    by (simp add: verify_flash_cookie_def base64_laws_def credential_diff_zero)
qed

section \<open>A concrete service\<close>

text \<open>Two letters for each byte stand for base64, reversal for the keyed hash.\<close>

definition demo_encode :: "bytes \<Rightarrow> string" where
  "demo_encode x = concat (map (\<lambda>b. [char_of (65 + byte_val b div 16), char_of (65 + byte_val b mod 16)]) x)"

fun demo_decode :: "string \<Rightarrow> bytes option" where
  "demo_decode [] = Some []"
| "demo_decode [a] = None"
| "demo_decode (a # b # s) = map_option (Cons (char_of ((byte_val a - 65) * 16 + (byte_val b - 65)))) (demo_decode s)"

definition demo_services :: "unit services" where
  "demo_services = \<lparr>sv_alnum = (\<lambda>_. False), sv_from_slice = (\<lambda>_. Inl ''syntax''),
     sv_b64_std_decode = demo_decode, sv_b64_url_decode = demo_decode, sv_b64_url_encode = demo_encode,
     sv_hmac = (\<lambda>key msg. rev msg @ key), sv_cache_get = (\<lambda>c _. (None, c)), sv_cache_put = (\<lambda>c _ _. c)\<rparr>"

definition demo_moment :: app_moment where
  "demo_moment = \<lparr>mo_datetime = ''2026-01-01T00:00:00Z'', mo_year = ''2026'', mo_token = ''cafe'',
     mo_file = (\<lambda>_. Absent)\<rparr>"

definition demo_framework :: framework where
  "demo_framework = \<lparr>fw_site_dir = ''/srv/site'', fw_routes = demo_table, fw_compression = (\<lambda>_. None),
     fw_minification = \<lparr>mc_enabled = (\<lambda>_. None), mc_inline_js = False\<rparr>, fw_flash_secret = ''key'',
     fw_csrf = True, fw_flash = True\<rparr>"

definition demo_get :: "string \<Rightarrow> string \<Rightarrow> headers \<Rightarrow> raw_request" where
  "demo_get path query hs = \<lparr>rq_method = ''GET'', rq_path = path, rq_query = Some query, rq_version = ''HTTP/1.1'',
     rq_headers = hs, rq_body = []\<rparr>"

abbreviation asset_route :: compiled_route where
  "asset_route \<equiv> demo_route ''/assets/{*relpath}''"

definition demo_dict :: "string \<Rightarrow> headers \<Rightarrow> dict" where
  "demo_dict query hs = projr (fst (build_dict demo_services demo_framework demo_moment
     (demo_get ''/assets/a.css'' query hs) asset_route [(''relpath'', ''a.css'')] ()))"

lemma demo_build:
  "build_dict demo_services demo_framework demo_moment (demo_get ''/assets/a.css'' query hs)
     asset_route [(''relpath'', ''a.css'')] () = (Inr (demo_dict query hs), ())"
proof -
  let ?p = "insert_path_params demo_services asset_route [(''relpath'', ''a.css'')] (with_base [])"
  have "isl ?p = False" by code_simp
  then obtain d2 where "?p = Inr d2" by (cases ?p) auto
  then show ?thesis by (simp add: demo_dict_def build_dict_def demo_route_def)
qed

lemma demo_free: "k \<noteq> ''relpath'' \<Longrightarrow> leaves_free asset_route [(''relpath'', ''a.css'')] k"
  by (simp add: leaves_free_def demo_route_def)

lemma demo_base64: "base64_laws demo_services"
proof -
  have nib: "byte_val b div 16 < 16" for b
    by (rule less_mult_imp_div_less) simp
  have "demo_decode (demo_encode x) = Some x" for x
  proof (induction x)
    case (Cons b x)
    then show ?case using nib [of b] by (simp add: demo_encode_def byte_val_def)
  qed (simp add: demo_encode_def)
  moreover have "CHR ''.'' \<notin> set (demo_encode x)" for x
  proof -
    have "char_of (65 + n) \<noteq> CHR ''.''" if "n < 16" for n :: nat
    proof
      assume "char_of (65 + n) = CHR ''.''"
      then have "of_char (char_of (65 + n) :: char) = (of_char CHR ''.'' :: nat)" by simp
      then show False using that by simp
    qed
    then have "CHR ''.'' \<noteq> char_of (65 + byte_val b div 16)" "CHR ''.'' \<noteq> char_of (65 + byte_val b mod 16)" for b
      using nib [of b] by (metis, metis mod_less_divisor zero_less_numeral)
    then show ?thesis by (auto simp: demo_encode_def)
  qed
  ultimately show ?thesis by (simp add: base64_laws_def demo_services_def)
qed

theorem builtins_not_overridden_witness:
  "dict_get (demo_dict ''year=1999&request_path=/admin'' []) ''year'' = Some (JString ''2026'')"
  using builtins_not_overridden [OF demo_build [of "''year=1999&request_path=/admin''" "[]"]]
  by (simp add: demo_moment_def)

theorem auth_keys_source_witness:
  "dict_get (demo_dict ''auth_username=admin'' []) ''auth_username'' = Some (JString ''admin'')"
proof -
  have "header (rq_headers (demo_get ''/assets/a.css'' ''auth_username=admin'' [])) ''x-auth-claims'' = None" by code_simp
  moreover have "sent_value (demo_get ''/assets/a.css'' ''auth_username=admin'' []) ''auth_username'' = Some ''admin''" by code_simp
  ultimately show ?thesis
    using auth_keys_source [OF demo_build [of "''auth_username=admin''" "[]"] demo_free, of "''auth_username''"]
    by (simp add: auth_keys_def)
qed

theorem verify_csrf_iff_witness:
  "verify_csrf (new_request (demo_get ''/assets/a.css'' [] [(''Cookie'', ''_csrf=t0'')])
     (demo_dict [] [(''Cookie'', ''_csrf=t0'')]) asset_route demo_framework) = Inr ()"
proof -
  let ?raw = "demo_get ''/assets/a.css'' [] [(''Cookie'', ''_csrf=t0'')]"
  have "map_of (request_cookies ?raw) ''_csrf'' = Some (JString ''t0'')" by code_simp
  moreover have "sent_value ?raw ''csrf_token'' = None" by code_simp
  moreover have "fw_csrf demo_framework" by (simp add: demo_framework_def)
  ultimately show ?thesis
    using verify_csrf_iff [OF _ demo_build [of "[]" "[(''Cookie'', ''_csrf=t0'')]"] demo_free] by auto
qed

theorem flash_roundtrip_witness:
  "verify_flash_cookie demo_services (flash_cookie_value demo_services ''saved'' ''key'') ''key'' = Some ''saved''"
proof -
  have "valid_utf8 ''saved''" by code_simp
  then show ?thesis using flash_roundtrip [OF demo_base64] by blast
qed

end
