(* ===== verification/App_Serve.thy ===== *)
theory App_Serve
  imports App_Request H1_Responder H1_Chunked
begin

text \<open>
  How an \<open>App\<close> service answers: the \<open>Response\<close> of \<open>m6-core/src/response.rs\<close>, \<open>handle_request\<close> of
  \<open>m6-core/src/app.rs\<close> with its pipeline (defaults, cookies, minification, compression), and the
  CSS minifier of \<open>m6-core/src/minify.rs\<close>.

  The \<open>tools\<close> are parameters: the template engine, the crates \<open>minify-html\<close>, \<open>minify-js\<close>, \<open>brotli\<close>,
  \<open>flate2\<close>, \<open>httpdate\<close> and \<open>serde_json\<close>'s writer, and the hash of \<open>DefaultHasher\<close>, whose algorithm the
  standard library leaves unspecified. A handler is a function from the request to its result.
\<close>

datatype body = Bytes bytes | Stream nat reader

record response =
  rsp_status :: nat
  rsp_headers :: headers
  rsp_body :: body
  rsp_verbatim :: bool
  rsp_template_name :: "string option"
  rsp_template_dict :: "dict option"

type_synonym handler = "request \<Rightarrow> request_error + response"

datatype render_error = RenderNotFound | RenderFailed string

record tools =
  tl_render :: "string \<Rightarrow> dict \<Rightarrow> render_error + string"
  tl_minify_html :: "bytes \<Rightarrow> bool \<Rightarrow> bytes"
  tl_minify_js :: "bytes \<Rightarrow> bytes"
  tl_json_read :: "bytes \<Rightarrow> json option"
  tl_json_write :: "json \<Rightarrow> bytes option"
  tl_brotli :: "bytes \<Rightarrow> nat \<Rightarrow> bytes option"
  tl_gzip :: "bytes \<Rightarrow> nat \<Rightarrow> bytes option"
  tl_content_hash :: "bytes \<Rightarrow> nat"
  tl_http_date :: "int \<Rightarrow> string"

section \<open>Responses\<close>

definition body_is_empty :: "body \<Rightarrow> bool" where
  "body_is_empty b \<longleftrightarrow> b = Bytes []"

fun as_bytes :: "body \<Rightarrow> bytes option" where
  "as_bytes (Bytes b) = Some b"
| "as_bytes (Stream _ _) = None"

fun body_len :: "body \<Rightarrow> nat" where
  "body_len (Bytes b) = length b"
| "body_len (Stream len _) = len"

definition response_status :: "nat \<Rightarrow> response" where
  "response_status code = \<lparr>rsp_status = code, rsp_headers = [], rsp_body = Bytes [], rsp_verbatim = False,
     rsp_template_name = None, rsp_template_dict = None\<rparr>"

definition not_found :: response where "not_found = response_status 404"
definition forbidden :: response where "forbidden = response_status 403"
definition bad_request :: response where "bad_request = response_status 400"

definition with_header :: "response \<Rightarrow> string \<Rightarrow> string \<Rightarrow> response" where
  "with_header r name value = r\<lparr>rsp_headers := rsp_headers r @ [(name, value)]\<rparr>"

definition with_body :: "response \<Rightarrow> bytes \<Rightarrow> response" where
  "with_body r b = r\<lparr>rsp_body := Bytes b\<rparr>"

definition verbatim :: "response \<Rightarrow> response" where
  "verbatim r = r\<lparr>rsp_verbatim := True\<rparr>"

definition with_status :: "response \<Rightarrow> nat \<Rightarrow> response" where
  "with_status r code = r\<lparr>rsp_status := code\<rparr>"

definition stream :: "nat \<Rightarrow> nat \<Rightarrow> reader \<Rightarrow> response" where
  "stream status len reader = (response_status status)\<lparr>rsp_body := Stream len reader, rsp_verbatim := True\<rparr>"

definition redirect :: "string \<Rightarrow> response" where
  "redirect location = with_header (response_status 302) ''Location'' location"

definition redirect_permanent :: "string \<Rightarrow> response" where
  "redirect_permanent location = with_header (response_status 301) ''Location'' location"

definition text_response :: "string \<Rightarrow> response" where
  "text_response s = with_body (with_header (response_status 200) ''Content-Type'' ''text/plain; charset=utf-8'') s"

definition html_response :: "string \<Rightarrow> response" where
  "html_response s = with_body (with_header (response_status 200) ''Content-Type'' ''text/html; charset=utf-8'') s"

definition json_status :: "tools \<Rightarrow> json \<Rightarrow> nat \<Rightarrow> response" where
  "json_status tk value status =
     with_body (with_header (response_status status) ''Content-Type'' ''application/json'')
       (case tl_json_write tk value of Some b \<Rightarrow> b | None \<Rightarrow> [])"

definition refusal_response :: "string \<Rightarrow> response" where
  "refusal_response message =
     with_header (with_header (with_status (text_response (message @ [LF])) 400) ''Cache-Control'' ''no-store'')
       ''X-Content-Type-Options'' ''nosniff''"

definition with_cookie :: "response \<Rightarrow> string \<Rightarrow> string \<Rightarrow> int \<Rightarrow> response" where
  "with_cookie r name value max_age =
     (let c = (if max_age = 0 then cookie_removal name else (cookie_new name value)\<lparr>ck_max_age := Some max_age\<rparr>)
      in r\<lparr>rsp_headers := rsp_headers r @ [to_header (c\<lparr>ck_path := Some ''/'', ck_http_only := True\<rparr>)]\<rparr>)"

definition with_flash :: "'c services \<Rightarrow> response \<Rightarrow> string \<Rightarrow> bytes \<Rightarrow> response" where
  "with_flash sv r message secret = r\<lparr>rsp_headers := rsp_headers r @ [flash_header sv message secret]\<rparr>"

definition render_request_dict :: "string \<Rightarrow> nat \<Rightarrow> response" where
  "render_request_dict template status = (response_status status)\<lparr>rsp_template_name := Some template\<rparr>"

definition render_context :: "string \<Rightarrow> dict \<Rightarrow> nat \<Rightarrow> response" where
  "render_context template d status =
     (response_status status)\<lparr>rsp_template_name := Some template, rsp_template_dict := Some d\<rparr>"

definition render_with :: "string \<Rightarrow> request \<Rightarrow> json \<Rightarrow> response" where
  "render_with template req extra =
     render_context template
       (case as_object extra of Some obj \<Rightarrow> dict_extend (req_dict req) obj | None \<Rightarrow> req_dict req) 200"

definition from_raw :: "raw_response \<Rightarrow> response" where
  "from_raw r = \<lparr>rsp_status = rs_status r, rsp_headers = rs_headers r, rsp_body = Bytes (rs_body r), rsp_verbatim = True,
     rsp_template_name = None, rsp_template_dict = None\<rparr>"

definition error_to_response :: "request_error \<Rightarrow> response" where
  "error_to_response e = (case e of
     NotFound \<Rightarrow> not_found
   | request_error.Forbidden \<Rightarrow> forbidden
   | BadRequest _ \<Rightarrow> bad_request
   | Other _ \<Rightarrow> response_status 500)"

text \<open>\<open>Response::send\<close>, with its two defaults.\<close>

definition send_fields :: "tools \<Rightarrow> response \<Rightarrow> headers" where
  "send_fields tk r =
     (let hs = rsp_headers r;
          hs1 = (if \<not> headers_contains hs ''content-type'' \<and> \<not> body_is_empty (rsp_body r)
                 then hs @ [(''Content-Type'', ''text/html; charset=utf-8'')] else hs)
      in case rsp_body r of
           Stream _ _ \<Rightarrow> hs1
         | Bytes b \<Rightarrow>
             if \<not> headers_contains hs ''etag'' \<and> b \<noteq> []
             then hs1 @ [(''ETag'', [CHR 0x22] @ show_hex (tl_content_hash tk b) @ [CHR 0x22])] else hs1)"

definition send_response :: "tools \<Rightarrow> response \<Rightarrow> responder \<Rightarrow> (io_error + unit) \<times> responder" where
  "send_response tk r w =
     (case rsp_body r of
        Stream len reader \<Rightarrow> send_stream w (rsp_status r) (send_fields tk r) len reader
      | Bytes b \<Rightarrow> send w (rsp_status r) (send_fields tk r) b)"

section \<open>Minification\<close>

fun skip_comment :: "string list \<Rightarrow> string list" where
  "skip_comment (a # b # r) = (if a = ''*'' \<and> b = ''/'' then r else skip_comment (b # r))"
| "skip_comment _ = []"

lemma skip_comment_length: "length (skip_comment s) \<le> length s"
  by (induction s rule: skip_comment.induct) auto

definition css_space :: "string \<Rightarrow> bool" where
  "css_space ch \<longleftrightarrow> (case ch of [c] \<Rightarrow> is_ascii_whitespace c | _ \<Rightarrow> False)"

function css_loop :: "string list \<Rightarrow> bool \<Rightarrow> string \<Rightarrow> string" where
  "css_loop chars last_was_ws out =
     (case chars of
        [] \<Rightarrow> out
      | c # r \<Rightarrow>
          if c = ''/'' \<and> r \<noteq> [] \<and> hd r = ''*'' then css_loop (skip_comment (tl r)) True out
          else if css_space c then
            (if \<not> last_was_ws then css_loop r True (out @ '' '') else css_loop r last_was_ws out)
          else css_loop r False (out @ c))"
  by pat_completeness auto
termination
proof (relation "measure (\<lambda>(s, _, _). length s)")
  fix chars :: "string list" and last_was_ws :: bool and out c r
  assume "chars = c # r" "c = ''/'' \<and> r \<noteq> [] \<and> hd r = ''*''"
  then show "((skip_comment (tl r), True, out), chars, last_was_ws, out) \<in> measure (\<lambda>(s, _, _). length s)"
    using skip_comment_length [of "tl r"] by (cases r) auto
qed auto

declare css_loop.simps [simp del]

definition minify_css :: "bytes \<Rightarrow> bytes" where
  "minify_css data = (if \<not> valid_utf8 data then data else trim (css_loop (chars_of data) False []))"

definition minify_json :: "tools \<Rightarrow> bytes \<Rightarrow> bytes" where
  "minify_json tk data =
     (case tl_json_read tk data of
        Some v \<Rightarrow> (case tl_json_write tk v of Some b \<Rightarrow> b | None \<Rightarrow> data)
      | None \<Rightarrow> data)"

text \<open>The \<open>match\<close> on the content type that both the pipeline and the file server have.\<close>

definition minify_as :: "tools \<Rightarrow> bool \<Rightarrow> string \<Rightarrow> bytes \<Rightarrow> bytes option" where
  "minify_as tk inline_js mime data =
     (if mime = ''text/html'' then Some (tl_minify_html tk data inline_js)
      else if mime = ''text/css'' then Some (minify_css data)
      else if mime = ''application/json'' then Some (minify_json tk data)
      else if mime = ''application/javascript'' \<or> mime = ''text/javascript'' then Some (tl_minify_js tk data)
      else None)"

section \<open>The request loop\<close>

definition handler_key :: "compiled_route \<Rightarrow> string" where
  "handler_key route = cr_pattern route @ '':'' @ route_method_key (cr_method route)"

definition run_handler :: "handler \<Rightarrow> request \<Rightarrow> response" where
  "run_handler h req = (case h req of Inr r \<Rightarrow> r | Inl e \<Rightarrow> error_to_response e)"

type_synonym handlers = "string \<Rightarrow> handler option"

definition dispatch :: "handlers \<Rightarrow> handlers \<Rightarrow> compiled_route \<Rightarrow> request \<Rightarrow> response" where
  "dispatch code_handlers named_handlers route req =
     (case cr_handler route of
        Some name \<Rightarrow>
          (case named_handlers name of
             Some h \<Rightarrow> run_handler h req
           | None \<Rightarrow> response_status 500)
      | None \<Rightarrow>
          (case cr_template route of
             None \<Rightarrow>
               (case code_handlers (handler_key route) of
                  Some h \<Rightarrow> run_handler h req
                | None \<Rightarrow> not_found)
           | Some template \<Rightarrow> render_request_dict template (cr_status route)))"

definition render_response :: "tools \<Rightarrow> response \<Rightarrow> dict \<Rightarrow> render_error + response" where
  "render_response tk resp d =
     (case rsp_template_name resp of
        None \<Rightarrow> Inr resp
      | Some name \<Rightarrow>
          (case tl_render tk name (case rsp_template_dict resp of Some supplied \<Rightarrow> supplied | None \<Rightarrow> d) of
             Inl e \<Rightarrow> Inl e
           | Inr html \<Rightarrow>
               Inr ((with_header (with_body resp html) ''Content-Type'' ''text/html; charset=utf-8'')
                 \<lparr>rsp_template_name := None, rsp_template_dict := None\<rparr>)))"

definition rendered :: "tools \<Rightarrow> response \<Rightarrow> dict \<Rightarrow> response" where
  "rendered tk resp d =
     (case render_response tk resp d of
        Inr r \<Rightarrow> r
      | Inl RenderNotFound \<Rightarrow> not_found
      | Inl (RenderFailed _) \<Rightarrow> response_status 500)"

text \<open>The route's defaults: caching, date and extra fields.\<close>

definition decorate :: "tools \<Rightarrow> compiled_route \<Rightarrow> response \<Rightarrow> response" where
  "decorate tk route resp =
     (let r1 = (if headers_contains (rsp_headers resp) ''cache-control'' then resp
                else with_header resp ''Cache-Control'' (cr_cache route));
          r2 = (case cr_last_modified route of
                  Some lm \<Rightarrow> if rsp_status r1 < 300 then with_header r1 ''Last-Modified'' (tl_http_date tk lm) else r1
                | None \<Rightarrow> r1)
      in r2\<lparr>rsp_headers := rsp_headers r2 @ cr_headers route\<rparr>)"

definition cookie_mentions :: "raw_request \<Rightarrow> string \<Rightarrow> bool" where
  "cookie_mentions raw s = (case header (rq_headers raw) ''cookie'' of Some h \<Rightarrow> contains_sub s h | None \<Rightarrow> False)"

definition csrf_set_cookie :: "string \<Rightarrow> string \<times> string" where
  "csrf_set_cookie token = to_header ((cookie_new ''_csrf'' token)
     \<lparr>ck_path := Some ''/'', ck_same_site := Some Strict, ck_secure := True\<rparr>)"

definition add_csrf_cookie :: "framework \<Rightarrow> app_moment \<Rightarrow> raw_request \<Rightarrow> string option \<Rightarrow> response \<Rightarrow> response" where
  "add_csrf_cookie fw mo raw token resp =
     (if fw_csrf fw \<and> \<not> cookie_mentions raw ''_csrf='' then
        resp\<lparr>rsp_headers := rsp_headers resp @
          [csrf_set_cookie (case token of Some t \<Rightarrow> t | None \<Rightarrow> mo_token mo)]\<rparr>
      else resp)"

definition clear_flash :: "framework \<Rightarrow> raw_request \<Rightarrow> response \<Rightarrow> response" where
  "clear_flash fw raw resp =
     (if fw_flash fw \<and> cookie_mentions raw ''_flash='' then
        resp\<lparr>rsp_headers := rsp_headers resp @
          [to_header ((cookie_removal ''_flash'')\<lparr>ck_path := Some ''/'', ck_http_only := True\<rparr>)]\<rparr>
      else resp)"

definition response_mime :: "response \<Rightarrow> string" where
  "response_mime resp =
     trim (mime_base (case headers_get (rsp_headers resp) ''content-type'' of Some ct \<Rightarrow> ct | None \<Rightarrow> []))"

definition minify_step :: "tools \<Rightarrow> framework \<Rightarrow> response \<Rightarrow> response" where
  "minify_step tk fw resp =
     (if rsp_verbatim resp then resp
      else (case as_bytes (rsp_body resp) of
              None \<Rightarrow> resp
            | Some data \<Rightarrow>
                if data \<noteq> [] \<and> is_enabled (fw_minification fw) (response_mime resp) then
                  (case minify_as tk (mc_inline_js (fw_minification fw)) (response_mime resp) data of
                     Some m \<Rightarrow> with_body resp m
                   | None \<Rightarrow> resp)
                else resp))"

definition compress_step :: "tools \<Rightarrow> framework \<Rightarrow> raw_request \<Rightarrow> response \<Rightarrow> response" where
  "compress_step tk fw raw resp =
     (if rsp_verbatim resp \<or> body_is_empty (rsp_body resp) then resp
      else (case fw_compression fw (response_mime resp) of
              None \<Rightarrow> resp
            | Some level \<Rightarrow>
                let accept_encoding = (case header (rq_headers raw) ''accept-encoding'' of Some h \<Rightarrow> h | None \<Rightarrow> []);
                    candidates = (if 0 < cl_brotli level then [''br''] else []) @ (if 0 < cl_gzip level then [''gzip''] else [])
                in (case (preferred_coding accept_encoding candidates, as_bytes (rsp_body resp)) of
                      (Some coding, Some data) \<Rightarrow>
                        if coding = ''br'' then
                          (case tl_brotli tk data (cl_brotli level) of
                             Some z \<Rightarrow> with_header (with_body resp z) ''Content-Encoding'' ''br''
                           | None \<Rightarrow> resp)
                        else if coding = ''gzip'' then
                          (case tl_gzip tk data (cl_gzip level) of
                             Some z \<Rightarrow> with_header (with_body resp z) ''Content-Encoding'' ''gzip''
                           | None \<Rightarrow> resp)
                        else resp
                    | _ \<Rightarrow> resp)))"

definition finish :: "tools \<Rightarrow> framework \<Rightarrow> app_moment \<Rightarrow> raw_request \<Rightarrow> string option \<Rightarrow> response \<Rightarrow> response" where
  "finish tk fw mo raw token resp =
     compress_step tk fw raw (minify_step tk fw (clear_flash fw raw (add_csrf_cookie fw mo raw token resp)))"

text \<open>The answer to a request, and whether it goes out as it is or through the pipeline.\<close>

definition matched_response :: "'c services \<Rightarrow> tools \<Rightarrow> framework \<Rightarrow> app_moment \<Rightarrow> handlers \<Rightarrow> handlers \<Rightarrow> raw_request \<Rightarrow>
    compiled_route \<Rightarrow> path_params \<Rightarrow> 'c \<Rightarrow> response \<times> 'c" where
  "matched_response sv tk fw mo code_handlers named_handlers raw route params c =
     (case build_dict sv fw mo raw route params c of
        (Inl e, c') \<Rightarrow> (error_to_response e, c')
      | (Inr d, c') \<Rightarrow>
          let token = (if fw_csrf fw then Option.bind (dict_get d ''csrf_token'') as_str else None);
              resp = dispatch code_handlers named_handlers route (new_request raw d route fw)
          in (finish tk fw mo raw token (decorate tk route (rendered tk resp d)), c'))"

definition app_response :: "'c services \<Rightarrow> tools \<Rightarrow> framework \<Rightarrow> app_moment \<Rightarrow> handlers \<Rightarrow> handlers \<Rightarrow> raw_request \<Rightarrow> 'c \<Rightarrow>
    response \<times> 'c" where
  "app_response sv tk fw mo code_handlers named_handlers raw c =
     (case find_route (rq_path raw) (rq_method raw) (fw_routes fw) of
        None \<Rightarrow> (finish tk fw mo raw None not_found, c)
      | Some (route, params) \<Rightarrow> matched_response sv tk fw mo code_handlers named_handlers raw route params c)"

definition app_handle_request :: "'c services \<Rightarrow> tools \<Rightarrow> framework \<Rightarrow> app_moment \<Rightarrow> handlers \<Rightarrow> handlers \<Rightarrow> raw_request \<Rightarrow>
    responder \<Rightarrow> 'c \<Rightarrow> responder \<times> 'c" where
  "app_handle_request sv tk fw mo code_handlers named_handlers raw w c =
     (case app_response sv tk fw mo code_handlers named_handlers raw c of
        (resp, c') \<Rightarrow> (snd (send_response tk resp w), c'))"

section \<open>What the pipeline may change\<close>

lemma preferred_coding_SomeD:
  assumes "preferred_coding accept_encoding candidates = Some c"
  shows "c \<in> set candidates" "coding_quality accept_encoding c \<noteq> None"
proof -
  have "first_best_of (coding_quality accept_encoding) (\<lambda>q bq. f32_less bq q) candidates
    (keep_best (coding_quality accept_encoding) (\<lambda>q bq. f32_less bq q) None candidates)"
    by (rule codings.keep_best_first)
  then show "c \<in> set candidates" "coding_quality accept_encoding c \<noteq> None"
    using assms by (cases rule: first_best_of_cases; auto simp: preferred_coding_def)+
qed

definition accept_encoding_of :: "raw_request \<Rightarrow> string" where
  "accept_encoding_of raw = (case header (rq_headers raw) ''accept-encoding'' of Some h \<Rightarrow> h | None \<Rightarrow> [])"

definition coded :: "tools \<Rightarrow> compression_level \<Rightarrow> string \<Rightarrow> bytes \<Rightarrow> bytes option" where
  "coded tk level coding data =
     (if coding = ''br'' \<and> 0 < cl_brotli level then tl_brotli tk data (cl_brotli level)
      else if coding = ''gzip'' \<and> 0 < cl_gzip level then tl_gzip tk data (cl_gzip level) else None)"

lemma compress_step_cases:
  obtains (plain) "compress_step tk fw raw resp = resp"
  | (coded) level coding data z where "\<not> rsp_verbatim resp" "rsp_body resp = Bytes data"
      "fw_compression fw (response_mime resp) = Some level" "coding_quality (accept_encoding_of raw) coding \<noteq> None"
      "coded tk level coding data = Some z"
      "compress_step tk fw raw resp = with_header (with_body resp z) ''Content-Encoding'' coding"
proof (cases "rsp_verbatim resp \<or> body_is_empty (rsp_body resp) \<or> fw_compression fw (response_mime resp) = None")
  case True
  then show ?thesis using plain by (auto simp: compress_step_def)
next
  case False
  then obtain level where level: "fw_compression fw (response_mime resp) = Some level" by auto
  let ?cands = "(if 0 < cl_brotli level then [''br''] else []) @ (if 0 < cl_gzip level then [''gzip''] else [])"
  have eq: "compress_step tk fw raw resp =
    (case (preferred_coding (accept_encoding_of raw) ?cands, as_bytes (rsp_body resp)) of
       (Some coding, Some data) \<Rightarrow>
         (case coded tk level coding data of
            Some z \<Rightarrow> with_header (with_body resp z) ''Content-Encoding'' coding | None \<Rightarrow> resp)
     | _ \<Rightarrow> resp)"
  proof (cases "preferred_coding (accept_encoding_of raw) ?cands")
    case None
    then show ?thesis using False level by (simp add: compress_step_def Let_def accept_encoding_of_def)
  next
    case (Some c)
    then have "c \<in> set ?cands" by (rule preferred_coding_SomeD)
    then consider "c = ''br''" "0 < cl_brotli level" | "c = ''gzip''" "0 < cl_gzip level" by (auto split: if_splits)
    then show ?thesis
      using False level Some
      by cases (simp_all add: compress_step_def Let_def accept_encoding_of_def coded_def split: option.split)
  qed
  show ?thesis
  proof (cases "preferred_coding (accept_encoding_of raw) ?cands")
    case None
    then show ?thesis using plain eq by simp
  next
    case coding: (Some coding)
    show ?thesis
    proof (cases "rsp_body resp")
      case (Bytes data)
      show ?thesis
      proof (cases "coded tk level coding data")
        case None
        then show ?thesis using plain eq coding Bytes by simp
      next
        case (Some z)
        then show ?thesis
          using coded [of data level coding z] eq coding Bytes level False preferred_coding_SomeD(2) [OF coding] by simp
      qed
    next
      case (Stream n r)
      then show ?thesis using plain eq coding by simp
    qed
  qed
qed

lemma minify_step_frame:
  "rsp_headers (minify_step tk fw r) = rsp_headers r" "rsp_status (minify_step tk fw r) = rsp_status r"
  "rsp_verbatim (minify_step tk fw r) = rsp_verbatim r" "response_mime (minify_step tk fw r) = response_mime r"
  "rsp_verbatim r \<or> as_bytes (rsp_body r) = None \<Longrightarrow> minify_step tk fw r = r"
  by (auto simp: minify_step_def with_body_def response_mime_def split: option.splits)

text \<open>The fields the pipeline adds before the body is touched.\<close>

definition added_cookies :: "framework \<Rightarrow> app_moment \<Rightarrow> raw_request \<Rightarrow> string option \<Rightarrow> headers" where
  "added_cookies fw mo raw token =
     (if fw_csrf fw \<and> \<not> cookie_mentions raw ''_csrf=''
      then [csrf_set_cookie (case token of Some t \<Rightarrow> t | None \<Rightarrow> mo_token mo)] else []) @
     (if fw_flash fw \<and> cookie_mentions raw ''_flash=''
      then [to_header ((cookie_removal ''_flash'')\<lparr>ck_path := Some ''/'', ck_http_only := True\<rparr>)] else [])"

lemma added_cookies_names: "(k, v) \<in> set (added_cookies fw mo raw token) \<Longrightarrow> k = ''Set-Cookie''"
  by (auto simp: added_cookies_def csrf_set_cookie_def to_header_def split: if_splits)

lemma finish_eq:
  "finish tk fw mo raw token resp = compress_step tk fw raw (minify_step tk fw
     (resp\<lparr>rsp_headers := rsp_headers resp @ added_cookies fw mo raw token\<rparr>))"
  by (simp add: finish_def clear_flash_def add_csrf_cookie_def added_cookies_def)

lemma set_cookie_is_not:
  "\<not> eq_ignore_ascii_case ''Set-Cookie'' ''content-encoding''" "\<not> eq_ignore_ascii_case ''Set-Cookie'' ''content-type''"
  by code_simp+

lemma added_cookies_none:
  "get_all (added_cookies fw mo raw token) ''content-encoding'' = []"
  "find_header (hs @ added_cookies fw mo raw token) ''content-type'' = find_header hs ''content-type''"
proof -
  have none: "\<not> eq_ignore_ascii_case (fst kv) ''content-encoding''" "\<not> eq_ignore_ascii_case (fst kv) ''content-type''"
    if "kv \<in> set (added_cookies fw mo raw token)" for kv
    using that set_cookie_is_not added_cookies_names [of "fst kv" "snd kv"] by auto
  then show "get_all (added_cookies fw mo raw token) ''content-encoding'' = []" by (simp add: get_all_def filter_empty_conv)
  have "find_header (added_cookies fw mo raw token) ''content-type'' = None"
    using none by (auto simp: find_header_def find_None_iff name_is_def)
  then show "find_header (hs @ added_cookies fw mo raw token) ''content-type'' = find_header hs ''content-type''"
    by (simp add: find_header_append split: option.split)
qed

lemma minify_step_headers:
  "rsp_body (minify_step tk fw (r\<lparr>rsp_headers := rsp_headers r @ added_cookies fw' mo raw token\<rparr>)) = rsp_body (minify_step tk fw r)"
proof -
  have "response_mime (r\<lparr>rsp_headers := rsp_headers r @ added_cookies fw' mo raw token\<rparr>) = response_mime r"
    by (simp add: response_mime_def headers_get_def added_cookies_none)
  then show ?thesis by (auto simp: minify_step_def with_body_def split: option.splits)
qed

text \<open>C33. What the pipeline does to a body: it sends the bytes of the handler or template, minified when
  the type is configured for it, either as they are and with no \<open>Content-Encoding\<close> of its own, or in one
  coding that the configuration permits for the type and the client accepts, named by the one
  \<open>Content-Encoding\<close> it adds. A response marked verbatim, and a stream, goes out with its body and codings
  untouched.\<close>

theorem finish_representation:
  "let r = finish tk fw mo raw token resp; plain = rsp_body (minify_step tk fw resp);
       codings = (\<lambda>r. get_all (rsp_headers r) ''content-encoding'')
   in (rsp_verbatim resp \<or> as_bytes (rsp_body resp) = None \<longrightarrow> rsp_body r = rsp_body resp \<and> codings r = codings resp) \<and>
      (rsp_body r = plain \<and> codings r = codings resp \<or>
       (\<exists>level coding data z. plain = Bytes data \<and> fw_compression fw (response_mime resp) = Some level \<and>
          coding_quality (accept_encoding_of raw) coding \<noteq> None \<and> coded tk level coding data = Some z \<and>
          rsp_body r = Bytes z \<and> codings r = codings resp @ [coding]))"
proof -
  let ?c = "resp\<lparr>rsp_headers := rsp_headers resp @ added_cookies fw mo raw token\<rparr>"
  let ?m = "minify_step tk fw ?c"
  have m: "rsp_body ?m = rsp_body (minify_step tk fw resp)" "rsp_verbatim ?m = rsp_verbatim resp"
    "get_all (rsp_headers ?m) ''content-encoding'' = get_all (rsp_headers resp) ''content-encoding''"
    "response_mime ?m = response_mime resp"
    by (simp_all add: minify_step_headers minify_step_frame get_all_append added_cookies_none response_mime_def headers_get_def)
  have same: "rsp_body ?m = rsp_body resp" if "rsp_verbatim resp \<or> as_bytes (rsp_body resp) = None"
    using that m(1) by (simp add: minify_step_frame(5))
  show ?thesis
  proof (cases rule: compress_step_cases [where tk = tk and fw = fw and raw = raw and resp = ?m])
    case plain
    then show ?thesis using m same by (simp add: finish_eq)
  next
    case (coded level coding data z)
    have "get_all (rsp_headers (compress_step tk fw raw ?m)) ''content-encoding'' =
      get_all (rsp_headers resp) ''content-encoding'' @ [coding]"
    proof -
      have "eq_ignore_ascii_case ''Content-Encoding'' ''content-encoding''" by code_simp
      then show ?thesis using m(3) by (simp add: coded(6) with_header_def with_body_def get_all_append) (simp add: get_all_def)
    qed
    moreover have "\<not> (rsp_verbatim resp \<or> as_bytes (rsp_body resp) = None)"
      using coded(1,2) m(2) same by force
    ultimately show ?thesis using coded m by (auto simp: finish_eq with_header_def with_body_def)
  qed
qed

section \<open>The CSRF cookie\<close>

lemma with_header_headers [simp]: "rsp_headers (with_header r n v) = rsp_headers r @ [(n, v)]"
  by (simp add: with_header_def)

lemma with_body_headers [simp]: "rsp_headers (with_body r b) = rsp_headers r"
  by (simp add: with_body_def)

lemma finish_headers:
  "\<exists>hs. rsp_headers (finish tk fw mo raw token resp) = rsp_headers resp @ added_cookies fw mo raw token @ hs"
  unfolding finish_eq
  by (cases rule: compress_step_cases [where tk = tk and fw = fw and raw = raw and
        resp = "minify_step tk fw (resp\<lparr>rsp_headers := rsp_headers resp @ added_cookies fw mo raw token\<rparr>)"])
    (simp_all add: minify_step_frame)

lemma csrf_cookie_set:
  assumes "fw_csrf fw" "\<not> cookie_mentions raw ''_csrf=''" "build_dict sv fw mo raw route params c = (Inr d, c')"
    "dict_get d ''csrf_token'' = Some (JString t)"
  shows "csrf_set_cookie t \<in> set (rsp_headers (fst (matched_response sv tk fw mo code_handlers named_handlers raw route params c)))"
proof -
  let ?resp = "decorate tk route (rendered tk (dispatch code_handlers named_handlers route (new_request raw d route fw)) d)"
  have "fst (matched_response sv tk fw mo code_handlers named_handlers raw route params c) = finish tk fw mo raw (Some t) ?resp"
    using assms by (simp add: matched_response_def)
  moreover obtain hs where "rsp_headers (finish tk fw mo raw (Some t) ?resp) = rsp_headers ?resp @ added_cookies fw mo raw (Some t) @ hs"
    using finish_headers [of tk fw mo raw "Some t" ?resp] by blast
  moreover have "csrf_set_cookie t \<in> set (added_cookies fw mo raw (Some t))"
    using assms by (simp add: added_cookies_def)
  ultimately show ?thesis by simp
qed

lemma caller_lines_mem:
  assumes "(k, v) \<in> set hs" "\<not> eq_ignore_ascii_case k ''content-length''" "\<not> eq_ignore_ascii_case k ''connection''"
  shows "\<exists>pre post. caller_lines hs = pre @ k @ '': '' @ v @ CRLF @ post"
  using assms(1)
proof (induction hs rule: caller_lines.induct)
  case (2 a b hs)
  show ?case
  proof (cases "(k, v) = (a, b)")
    case True
    then show ?thesis using assms(2,3) by (auto intro: exI [of _ "[]"])
  next
    case False
    then obtain pre post where "caller_lines hs = pre @ k @ '': '' @ v @ CRLF @ post" using 2 by fastforce
    then show ?thesis by (auto intro: exI [of _ pre] exI [of _ "a @ '': '' @ b @ CRLF @ pre"])
  qed
qed simp

lemma csrf_cookie_text:
  "csrf_set_cookie t = (''Set-Cookie'', ''_csrf='' @ t @ ''; Path=/; Secure; SameSite=Strict'')"
  by (simp add: csrf_set_cookie_def to_header_def to_header_value_def cookie_new_def same_site_text_def)

lemma send_fields_mem: "kv \<in> set (rsp_headers r) \<Longrightarrow> kv \<in> set (send_fields tk r)"
  by (auto simp: send_fields_def Let_def split: body.splits)

text \<open>C32. The token of the page goes into the \<open>_csrf\<close> cookie as the client sent it in the query or form: a link with a
  line break in \<open>csrf_token\<close> makes the service send a header line of the client's choice, followed by
  the attributes of the cookie.\<close>

theorem csrf_token_splits_response:
  assumes "fw_csrf fw" "\<not> cookie_mentions raw ''_csrf=''"
    "find_route (rq_path raw) (rq_method raw) (fw_routes fw) = Some (route, params)"
    "build_dict sv fw mo raw route params c = (Inr d, c')" "leaves_free route params ''csrf_token''"
    "sent_value raw ''csrf_token'' = Some (t @ CRLF @ line)"
  shows "\<exists>r pre post. app_response sv tk fw mo code_handlers named_handlers raw c = (r, c') \<and>
    head_bytes ka (rsp_status r) (send_fields tk r) len =
      pre @ ''Set-Cookie: _csrf='' @ t @ CRLF @ line @ ''; Path=/; Secure; SameSite=Strict'' @ CRLF @ post"
proof -
  from sent_to_dict [OF assms(4,5)] obtain d0 where d0:
    "dict_get d0 ''csrf_token'' = Some (JString (t @ CRLF @ line))"
    "d = insert_csrf fw mo (insert_flash sv fw raw (insert_auth sv raw d0))" using assms(6) by auto
  then have d: "dict_get d ''csrf_token'' = Some (JString (t @ CRLF @ line))"
    by (simp add: insert_csrf_def contains_key_def insert_flash_other insert_auth_other auth_keys_def)
  let ?m = "matched_response sv tk fw mo code_handlers named_handlers raw route params c"
  have mem: "csrf_set_cookie (t @ CRLF @ line) \<in> set (send_fields tk (fst ?m))"
    by (intro send_fields_mem csrf_cookie_set [OF assms(1,2,4) d])
  have "\<not> eq_ignore_ascii_case ''Set-Cookie'' ''content-length''" "\<not> eq_ignore_ascii_case ''Set-Cookie'' ''connection''"
    by code_simp+
  from caller_lines_mem [OF mem [unfolded csrf_cookie_text] this] obtain pre post where
    "caller_lines (send_fields tk (fst ?m)) = pre @ ''Set-Cookie'' @ '': '' @
      (''_csrf='' @ (t @ CRLF @ line) @ ''; Path=/; Secure; SameSite=Strict'') @ CRLF @ post" by blast
  moreover have "?m = (fst ?m, c')" using assms(4) by (simp add: matched_response_def Let_def)
  ultimately show ?thesis
    using assms(3)
    by (intro exI [of _ "fst ?m"] exI [of _ "status_line (rsp_status (fst ?m)) @ pre"]
        exI [of _ "post @ ''Content-Length: '' @ show_nat len @ CRLF @ ''Connection: '' @
          (if ka then ''keep-alive'' else ''close'') @ CRLF @ CRLF"])
      (simp add: app_response_def head_bytes_def)
qed

text \<open>The presence of the cookie is asked of the raw header: a cookie whose name ends in \<open>_csrf\<close> hides that it is
  missing, so none is set and no form of the page can be submitted.\<close>

lemma foreign_cookie_hides_csrf:
  "let raw = demo_get ''/'' [] [(''Cookie'', ''site_csrf=1'')]
   in cookie_mentions raw ''_csrf='' \<and> map_of (request_cookies raw) ''_csrf'' = None"
  by code_simp

section \<open>Style sheets\<close>

text \<open>The minifier does not know strings, and leaves nothing where a comment was.\<close>

lemma minify_css_strings: "minify_css ''a{content:'/*x*/  y'}'' = ''a{content:'y'}''"
  by code_simp

lemma minify_css_joins_tokens: "minify_css ''p{margin:1px/**/2px}'' = ''p{margin:1px2px}''"
  by code_simp

section \<open>A concrete service\<close>

definition demo_tools :: tools where
  "demo_tools = \<lparr>tl_render = (\<lambda>_ _. Inl RenderNotFound), tl_minify_html = (\<lambda>b _. b), tl_minify_js = (\<lambda>b. b),
     tl_json_read = (\<lambda>_. None), tl_json_write = (\<lambda>_. None), tl_brotli = (\<lambda>b _. Some (''br:'' @ b)),
     tl_gzip = (\<lambda>b _. Some (''gz:'' @ b)), tl_content_hash = length, tl_http_date = (\<lambda>_. ''date'')\<rparr>"

definition coding_framework :: framework where
  "coding_framework = demo_framework\<lparr>fw_compression := (\<lambda>m. if m = ''text/plain''
     then Some \<lparr>cl_brotli = 5, cl_gzip = 6\<rparr> else None)\<rparr>"

theorem finish_representation_witness:
  "rsp_body (finish demo_tools coding_framework demo_moment (demo_get ''/'' [] [(''Accept-Encoding'', ''gzip'')]) None
     (verbatim (text_response ''hello''))) = Bytes ''hello''"
  using finish_representation [of demo_tools coding_framework demo_moment
      "demo_get ''/'' [] [(''Accept-Encoding'', ''gzip'')]" None "verbatim (text_response ''hello'')"]
  by (simp add: Let_def verbatim_def text_response_def with_body_def)

theorem csrf_token_splits_response_witness:
  "\<exists>r pre post. app_response demo_services demo_tools demo_framework demo_moment Map.empty Map.empty
       (demo_get ''/assets/css/a.css'' ''csrf_token=x%0D%0ASet-Cookie:+session=evil'' []) () = (r, ()) \<and>
     head_bytes True (rsp_status r) (send_fields demo_tools r) 0 =
       pre @ ''Set-Cookie: _csrf=x'' @ CRLF @ ''Set-Cookie: session=evil; Path=/; Secure; SameSite=Strict'' @ CRLF @ post"
proof -
  let ?raw = "demo_get ''/assets/css/a.css'' ''csrf_token=x%0D%0ASet-Cookie:+session=evil'' []"
  have f: "find_route (rq_path ?raw) (rq_method ?raw) (fw_routes demo_framework) = Some (asset_route, [(''relpath'', ''css/a.css'')])"
    by code_simp
  let ?b = "build_dict demo_services demo_framework demo_moment ?raw asset_route [(''relpath'', ''css/a.css'')] ()"
  have "isl (fst ?b) = False" by code_simp
  then obtain d where "fst ?b = Inr d" by (cases "fst ?b") auto
  then have b: "?b = (Inr d, ())" by (cases ?b) simp
  have free: "leaves_free asset_route [(''relpath'', ''css/a.css'')] ''csrf_token''"
    by (simp add: leaves_free_def demo_route_def)
  have "sent_value ?raw ''csrf_token'' = Some (''x'' @ CRLF @ ''Set-Cookie: session=evil'')" by code_simp
  moreover have "fw_csrf demo_framework" "\<not> cookie_mentions ?raw ''_csrf=''" by code_simp+
  ultimately show ?thesis
    using csrf_token_splits_response [OF _ _ f b free, of "''x''" "''Set-Cookie: session=evil''" demo_tools Map.empty Map.empty True 0]
    by simp
qed

end
