(* ===== verification/Static_Files.thy ===== *)
theory Static_Files
  imports App_Serve Conditional "HOL-Library.Multiset"
begin

text \<open>
  The file server, \<open>m6-file/src/handler.rs\<close>: which file a request addresses, how it is served, and the
  tail mode that follows a growing log.

  The file system is what its calls return: \<open>symlink_metadata\<close>, \<open>canonicalize\<close>, \<open>metadata\<close>, \<open>read\<close> and
  \<open>File::open\<close>, each a function of the path. An open file has the result of \<open>seek(End)\<close>, of \<open>seek(Start)\<close>
  and, from a position on, a reader.
\<close>

record file_meta =
  fm_modified :: "int option"
  fm_len :: nat
  fm_is_file :: bool

record open_file =
  of_seek_end :: "io_error + nat"
  of_seek_start :: "nat \<Rightarrow> io_error option"
  of_read_from :: "nat \<Rightarrow> reader"

record file_system =
  fs_symlink_metadata :: "string \<Rightarrow> bool option"
  fs_canonicalize :: "string \<Rightarrow> string option"
  fs_metadata :: "string \<Rightarrow> file_meta option"
  fs_read :: "string \<Rightarrow> bytes option"
  fs_open :: "string \<Rightarrow> open_file option"

section \<open>The file a request addresses\<close>

definition resolve_fs_path :: "request \<Rightarrow> string \<Rightarrow> string" where
  "resolve_fs_path req site_dir =
     (let root0 = (case route_str req ''root'' of Some r \<Rightarrow> r | None \<Rightarrow> []);
          root = (if CHR ''{'' \<in> set root0 then
                    foldl (\<lambda>root (k, v). case as_str v of
                      Some s \<Rightarrow> replace_all (''{'' @ k @ ''}'') s root
                    | None \<Rightarrow> root) root0 (dict_iter (req_dict req))
                  else root0);
          rel = (case Option.bind (first_some (dict_get (req_dict req) ''relpath'') (dict_get (req_dict req) ''filename'')) as_str of
                   Some s \<Rightarrow> s | None \<Rightarrow> [])
      in if rel = [] then path_join site_dir root else path_join (path_join site_dir root) rel)"

text \<open>\<open>Path::starts_with\<close>: component by component.\<close>

definition path_starts_with :: "string \<Rightarrow> string \<Rightarrow> bool" where
  "path_starts_with p base \<longleftrightarrow> starts_with ''/'' p = starts_with ''/'' base \<and>
     prefix (filter (\<lambda>s. s \<noteq> ''.'') (path_segments base)) (filter (\<lambda>s. s \<noteq> ''.'') (path_segments p))"

definition escapes_site_dir :: "file_system \<Rightarrow> string \<Rightarrow> string \<Rightarrow> bool" where
  "escapes_site_dir fs fs_path site_dir =
     (case fs_symlink_metadata fs fs_path of
        None \<Rightarrow> False
      | Some False \<Rightarrow> False
      | Some True \<Rightarrow>
          (case (fs_canonicalize fs fs_path, fs_canonicalize fs site_dir) of
             (Some real, Some root) \<Rightarrow> \<not> path_starts_with real root
           | _ \<Rightarrow> True))"

definition cache_control_for :: "string \<Rightarrow> string" where
  "cache_control_for query =
     (if list_ex (\<lambda>p. starts_with ''v='' p \<and> length p > 2) (split_on CHR ''&'' query)
      then ''public, max-age=31536000, immutable''
      else ''public, max-age=60, s-maxage=86400, stale-while-revalidate=60'')"

section \<open>Tail mode\<close>

definition TAIL_LOOKBACK :: nat where "TAIL_LOOKBACK = 64 * 1024"
definition MAX_TAIL_BYTES :: nat where "MAX_TAIL_BYTES = 512 * 1024"

definition query_number :: "string \<Rightarrow> string \<Rightarrow> nat" where
  "query_number key query =
     (case List.find (starts_with key) (split_on CHR ''&'' query) of
        None \<Rightarrow> 0
      | Some p \<Rightarrow> (case parse_uint 64 (drop (length key) p) of Some n \<Rightarrow> n | None \<Rightarrow> 0))"

text \<open>The walk backwards over the buffer: \<open>i\<close> bytes are still to be looked at.\<close>

fun cut_loop :: "bytes \<Rightarrow> nat \<Rightarrow> nat \<Rightarrow> nat \<Rightarrow> nat" where
  "cut_loop buf n 0 found = 0"
| "cut_loop buf n (Suc i) found =
     (if buf ! i = LF then
        (if found + 1 \<ge> n then i + 1 else cut_loop buf n i (found + 1))
      else cut_loop buf n i found)"

definition scan_end :: "bytes \<Rightarrow> nat" where
  "scan_end buf = (if buf \<noteq> [] \<and> last buf = LF then length buf - 1 else length buf)"

text \<open>A read of at most \<open>limit\<close> bytes at a position, as \<open>seek\<close>, \<open>take\<close> and \<open>read_to_end\<close> do it.\<close>

definition read_slice :: "open_file \<Rightarrow> nat \<Rightarrow> nat \<Rightarrow> io_error + bytes" where
  "read_slice f pos limit =
     (case of_seek_start f pos of
        Some e \<Rightarrow> Inl e
      | None \<Rightarrow> read_to_end_limited limit (of_read_from f pos))"

definition io_other :: "io_error \<Rightarrow> request_error" where
  "io_other e = Other ''io error''"

definition tail_slice :: "open_file \<Rightarrow> nat \<Rightarrow> nat \<Rightarrow> nat \<Rightarrow> io_error + (bytes \<times> nat)" where
  "tail_slice f file_size offset n =
     (if offset = 0 \<and> 0 < n then
        let lookback = min TAIL_LOOKBACK file_size in
        map_sum (\<lambda>e. e) (\<lambda>buf. (drop (cut_loop buf n (scan_end buf) 0) buf, file_size))
          (read_slice f (file_size - lookback) lookback)
      else
        let read_from = min offset file_size in
        map_sum (\<lambda>e. e) (\<lambda>body. (body, read_from + length body)) (read_slice f read_from MAX_TAIL_BYTES))"

definition serve_tail :: "file_system \<Rightarrow> request \<Rightarrow> string \<Rightarrow> request_error + response" where
  "serve_tail fs req fs_path =
     (let query = raw_query (req_raw req);
          offset = query_number ''offset='' query;
          n = query_number ''n='' query
      in case fs_open fs fs_path of
           None \<Rightarrow> Inr not_found
         | Some f \<Rightarrow>
             (case of_seek_end f of
                Inl e \<Rightarrow> Inl (io_other e)
              | Inr file_size \<Rightarrow>
                  (case tail_slice f file_size offset n of
                     Inl e \<Rightarrow> Inl (io_other e)
                   | Inr (body, end_offset) \<Rightarrow>
                       Inr (verbatim (with_body (with_header (with_header (with_header (response_status 200)
                         ''Content-Type'' (mime_from_path fs_path))
                         ''Cache-Control'' ''no-store'')
                         ''X-Log-End'' (show_nat end_offset)) body)))))"

section \<open>Serving a file\<close>

definition mtime_secs :: "int \<Rightarrow> nat" where
  "mtime_secs t = nat (t div 1000000000)"

definition encoding_suffix :: "encoding \<Rightarrow> string" where
  "encoding_suffix e = (case e of Identity \<Rightarrow> [] | Brotli \<Rightarrow> ''-br'' | Gzip \<Rightarrow> ''-gz'')"

definition file_etag :: "nat \<Rightarrow> nat \<Rightarrow> string \<Rightarrow> string" where
  "file_etag secs len sfx = [CHR 0x22] @ show_hex secs @ ''-'' @ show_hex len @ sfx @ [CHR 0x22]"

definition validator_headers :: "string \<Rightarrow> string \<Rightarrow> string \<Rightarrow> response \<Rightarrow> response" where
  "validator_headers cache_control etag last_modified r =
     with_header (with_header (with_header r ''Cache-Control'' cache_control) ''ETag'' etag) ''Last-Modified'' last_modified"

definition serve_read :: "tools \<Rightarrow> file_system \<Rightarrow> request \<Rightarrow> string \<Rightarrow> file_meta \<Rightarrow> encoding \<times> nat option \<Rightarrow> bool \<Rightarrow>
    string \<Rightarrow> string \<Rightarrow> string \<Rightarrow> string \<Rightarrow> nat \<Rightarrow> response" where
  "serve_read tk fs req fs_path meta enc minify_this mime cache_control etag last_modified secs =
     (case fs_read fs fs_path of
        None \<Rightarrow> not_found
      | Some raw_data \<Rightarrow>
          let data = (if minify_this then
                (case minify_as tk (case req_minification req of Some m \<Rightarrow> mc_inline_js m | None \<Rightarrow> False)
                        (mime_base mime) raw_data of Some m \<Rightarrow> m | None \<Rightarrow> raw_data)
              else raw_data);
              level = (case snd enc of Some l \<Rightarrow> l | None \<Rightarrow> 6);
              identity_tag = file_etag secs (fm_len meta) [];
              (body, content_encoding, tag) = (case fst enc of
                  Identity \<Rightarrow> (data, None, etag)
                | Brotli \<Rightarrow> (case tl_brotli tk data level of
                      Some z \<Rightarrow> (z, Some ''br'', etag) | None \<Rightarrow> (data, None, identity_tag))
                | Gzip \<Rightarrow> (case tl_gzip tk data level of
                      Some z \<Rightarrow> (z, Some ''gzip'', etag) | None \<Rightarrow> (data, None, identity_tag)));
              resp = verbatim (with_body (with_header (with_header (with_header (with_header (response_status 200)
                 ''Content-Type'' mime) ''Cache-Control'' cache_control) ''ETag'' tag)
                 ''Last-Modified'' last_modified) body)
          in (case content_encoding of Some e \<Rightarrow> with_header resp ''Content-Encoding'' e | None \<Rightarrow> resp))"

definition serve_found :: "tools \<Rightarrow> (string \<Rightarrow> int option) \<Rightarrow> file_system \<Rightarrow> request \<Rightarrow> string \<Rightarrow> file_meta \<Rightarrow> response" where
  "serve_found tk parse_http_date fs req fs_path meta =
     (let compression = (case req_compression req of Some c \<Rightarrow> c | None \<Rightarrow> Map.empty);
          mtime = (case fm_modified meta of Some t \<Rightarrow> t | None \<Rightarrow> 0);
          secs = mtime_secs mtime;
          last_modified = tl_http_date tk mtime;
          mime = mime_from_path fs_path;
          accept_encoding = accept_encoding_of (req_raw req);
          enc = choose_encoding mime accept_encoding compression;
          etag = file_etag secs (fm_len meta) (encoding_suffix (fst enc));
          validators = [(''ETag'', etag), (''Last-Modified'', last_modified)];
          precondition = evaluate_preconditions parse_http_date validators (rq_headers (req_raw req)) (rq_method (req_raw req));
          cache_control = cache_control_for (raw_query (req_raw req));
          minify_this = (case req_minification req of Some m \<Rightarrow> is_enabled m (mime_base mime) | None \<Rightarrow> False)
      in if precondition = Failed then verbatim (validator_headers cache_control etag last_modified (response_status 412))
         else if precondition = NotModified then verbatim (validator_headers cache_control etag last_modified (response_status 304))
         else if fm_is_file meta \<and> fst enc = Identity \<and> \<not> minify_this then
           (if rq_method (req_raw req) = ''HEAD'' then
              validator_headers cache_control etag last_modified (with_header (stream 200 (fm_len meta) []) ''Content-Type'' mime)
            else (case fs_open fs fs_path of
                    None \<Rightarrow> not_found
                  | Some f \<Rightarrow>
                      (stream 200 (fm_len meta) (of_read_from f 0))
                        \<lparr>rsp_headers := rsp_headers (with_header
                           (validator_headers cache_control etag last_modified (response_status 200)) ''Content-Type'' mime)\<rparr>))
         else serve_read tk fs req fs_path meta enc minify_this mime cache_control etag last_modified secs)"

definition serve :: "tools \<Rightarrow> (string \<Rightarrow> int option) \<Rightarrow> file_system \<Rightarrow> request \<Rightarrow> request_error + response" where
  "serve tk parse_http_date fs req =
     (if rq_method (req_raw req) \<noteq> ''GET'' \<and> rq_method (req_raw req) \<noteq> ''HEAD'' then Inr (response_status 405)
      else
        let site_dir = site_path req [];
            fs_path = resolve_fs_path req site_dir
        in if escapes_site_dir fs fs_path site_dir then Inr not_found
           else if route_bool req ''tail'' False then serve_tail fs req fs_path
           else (case fs_metadata fs fs_path of
                   None \<Rightarrow> Inr not_found
                 | Some meta \<Rightarrow> Inr (serve_found tk parse_http_date fs req fs_path meta)))"

section \<open>Tail mode on a file that stands still\<close>

definition plain_file :: "bytes \<Rightarrow> open_file" where
  "plain_file content = \<lparr>of_seek_end = Inr (length content), of_seek_start = (\<lambda>_. None),
     of_read_from = (\<lambda>p. [RData (drop p content)])\<rparr>"

lemma read_plain: "read_slice (plain_file content) pos limit = Inr (take limit (drop pos content))"
  by (auto simp: read_slice_def plain_file_def read_to_end_limited_def)

lemma log_end_field:
  "find_header [(''Content-Type'', a), (''Cache-Control'', b), (''X-Log-End'', c)] ''x-log-end'' = Some c"
proof -
  have "\<not> eq_ignore_ascii_case ''Content-Type'' ''x-log-end''" "\<not> eq_ignore_ascii_case ''Cache-Control'' ''x-log-end''"
    "eq_ignore_ascii_case ''X-Log-End'' ''x-log-end''" by code_simp+
  then show ?thesis by (simp add: find_header_def name_is_def)
qed

text \<open>The lines of a file, each with its newline; the last one may lack it.\<close>

fun file_lines :: "bytes \<Rightarrow> bytes list" where
  "file_lines [] = []"
| "file_lines (c # cs) =
     (if c = LF then [LF] # file_lines cs
      else (case file_lines cs of [] \<Rightarrow> [[c]] | l # ls \<Rightarrow> (c # l) # ls))"

lemma concat_file_lines: "concat (file_lines s) = s"
  by (induction s) (auto split: list.splits)

definition full_line :: "bytes \<Rightarrow> bool" where
  "full_line l \<longleftrightarrow> (\<exists>w. l = w @ [LF] \<and> LF \<notin> set w)"

lemma file_lines_shape:
  "file_lines s = [] \<or> (\<exists>ls w. file_lines s = ls @ [w] \<and> list_all full_line ls \<and>
     (full_line w \<or> w \<noteq> [] \<and> LF \<notin> set w))"
proof (induction s)
  case (Cons c cs)
  show ?case
  proof (cases "c = LF")
    case True
    have f: "full_line [LF]" by (simp add: full_line_def)
    from Cons show ?thesis
    proof
      assume "file_lines cs = []"
      then show ?thesis using True f by (intro disjI2 exI [of _ "[]"] exI [of _ "[LF]"]) simp
    next
      assume "\<exists>ls w. file_lines cs = ls @ [w] \<and> list_all full_line ls \<and> (full_line w \<or> w \<noteq> [] \<and> LF \<notin> set w)"
      then obtain ls w where "file_lines cs = ls @ [w]" "list_all full_line ls" "full_line w \<or> w \<noteq> [] \<and> LF \<notin> set w" by blast
      then show ?thesis using True f by (intro disjI2 exI [of _ "[LF] # ls"] exI [of _ w]) simp
    qed
  next
    case False
    have f: "full_line (c # l)" if "full_line l" for l
      using that False by (auto simp: full_line_def)
    from Cons show ?thesis
    proof
      assume "file_lines cs = []"
      then show ?thesis using False by (intro disjI2 exI [of _ "[]"] exI [of _ "[c]"]) simp
    next
      assume "\<exists>ls w. file_lines cs = ls @ [w] \<and> list_all full_line ls \<and> (full_line w \<or> w \<noteq> [] \<and> LF \<notin> set w)"
      then obtain ls w where l: "file_lines cs = ls @ [w]" "list_all full_line ls" "full_line w \<or> w \<noteq> [] \<and> LF \<notin> set w" by blast
      show ?thesis
      proof (cases ls)
        case Nil
        then show ?thesis using l False f by (intro disjI2 exI [of _ "[]"] exI [of _ "c # w"]) auto
      next
        case (Cons x r)
        then show ?thesis using l False f by (intro disjI2 exI [of _ "(c # x) # r"] exI [of _ w]) auto
      qed
    qed
  qed
qed simp

lemma cut_loop_skip:
  "LF \<notin> set w \<Longrightarrow> cut_loop (pre @ w @ post) n (length pre + length w) found = cut_loop (pre @ w @ post) n (length pre) found"
proof (induction w arbitrary: post rule: rev_induct)
  case (snoc x w)
  then have "(pre @ (w @ [x]) @ post) ! (length pre + length w) \<noteq> LF" by (auto simp: nth_append)
  then show ?case using snoc.IH [of "x # post"] snoc.prems by simp
qed simp

lemma cut_loop_lines:
  "list_all full_line ls \<Longrightarrow> found < n \<Longrightarrow>
     cut_loop (concat ls @ post) n (length (concat ls)) found = length (concat (take (length ls + 1 + found - n) ls))"
proof (induction ls arbitrary: post found rule: rev_induct)
  case (snoc l ls)
  then obtain w where l: "l = w @ [LF]" "LF \<notin> set w" by (auto simp: full_line_def)
  have at: "(concat ls @ w @ LF # post) ! (length (concat ls) + length w) = LF"
    using nth_append_length [of "concat ls @ w" LF post] by simp
  show ?case
  proof (cases "found + 1 \<ge> n")
    case True
    then have "found + 1 = n" using snoc.prems by simp
    then show ?thesis using at by (simp add: l)
  next
    case False
    have "cut_loop (concat ls @ w @ LF # post) n (length (concat ls) + length w) (found + 1) =
      length (concat (take (length ls + 1 + (found + 1) - n) ls))"
      using cut_loop_skip [OF l(2), of "concat ls" "LF # post" n "found + 1"]
        snoc.IH [of "found + 1" "w @ LF # post"] snoc.prems False by simp
    then show ?thesis using at False by (simp add: l)
  qed
qed simp

lemma last_lines_cut:
  assumes "0 < n"
  shows "drop (cut_loop buf n (scan_end buf) 0) buf = concat (drop (length (file_lines buf) - n) (file_lines buf))"
proof (cases "buf = []")
  case False
  then have "file_lines buf \<noteq> []" using concat_file_lines [of buf] by force
  then obtain ls l where ls: "file_lines buf = ls @ [l]" "list_all full_line ls" "full_line l \<or> l \<noteq> [] \<and> LF \<notin> set l"
    using file_lines_shape [of buf] by blast
  obtain w e where w: "l = w @ e" "LF \<notin> set w" "e = [LF] \<or> e = []" "l \<noteq> []"
    using ls(3) by (auto simp: full_line_def)
  have buf: "buf = concat ls @ w @ e" using concat_file_lines [of buf] ls(1) w(1) by simp
  have "w \<noteq> [] \<Longrightarrow> last w \<noteq> LF" using w(2) by (metis last_in_set)
  then have "scan_end buf = length (concat ls) + length w" using w by (auto simp: scan_end_def buf)
  then have "cut_loop buf n (scan_end buf) 0 = length (concat (take (length ls + 1 - n) ls))"
    using cut_loop_skip [OF w(2), of "concat ls" e n 0] cut_loop_lines [OF ls(2) assms, of "w @ e"] by (simp add: buf)
  moreover have "take (length ls + 1 - n) ls = take (length ls + 1 - n) (file_lines buf)"
    using assms by (simp add: ls(1))
  moreover have "drop (length (concat (take k xs))) (concat xs) = concat (drop k xs)" for k and xs :: "bytes list"
    using append_take_drop_id [of k xs] by (metis append_eq_conv_conj concat_append)
  ultimately show ?thesis using ls(1) concat_file_lines [of buf] by (metis One_nat_def length_append_singleton Suc_eq_plus1)
qed (simp add: scan_end_def)

text \<open>Asked for the last \<open>n\<close> lines of a file of at most 64 KiB, the tail mode answers with exactly
  those lines, a last line without a newline counting as one, or with the whole file when it has
  fewer, and with the end of the file as the offset to go on from.\<close>

theorem tail_last_lines:
  assumes "fs_open fs path = Some (plain_file content)" "length content \<le> TAIL_LOOKBACK"
    "query_number ''offset='' (raw_query (req_raw req)) = 0" "query_number ''n='' (raw_query (req_raw req)) = n" "0 < n"
  shows "\<exists>r. serve_tail fs req path = Inr r \<and> rsp_status r = 200 \<and>
    rsp_body r = Bytes (concat (drop (length (file_lines content) - n) (file_lines content))) \<and>
    find_header (rsp_headers r) ''x-log-end'' = Some (show_nat (length content))"
proof -
  have "tail_slice (plain_file content) (length content) 0 n =
    Inr (concat (drop (length (file_lines content) - n) (file_lines content)), length content)"
    using assms(2,5) by (simp add: tail_slice_def Let_def read_plain last_lines_cut)
  moreover have "of_seek_end (plain_file content) = Inr (length content)" by (simp add: plain_file_def)
  ultimately show ?thesis using assms
    by (simp add: serve_tail_def verbatim_def with_body_def with_header_def response_status_def log_end_field)
qed

text \<open>A client that follows a log asks from the offset the last answer ended at.\<close>

fun follow :: "(string \<Rightarrow> request_error + response) \<Rightarrow> nat \<Rightarrow> string \<Rightarrow> bytes \<times> string" where
  "follow ask 0 offset = ([], offset)"
| "follow ask (Suc k) offset =
     (case ask (''offset='' @ offset) of
        Inr r \<Rightarrow>
          (case (rsp_body r, find_header (rsp_headers r) ''x-log-end'') of
             (Bytes b, Some e) \<Rightarrow> (let (rest, z) = follow ask k e in (b @ rest, z))
           | _ \<Rightarrow> ([], offset))
      | Inl _ \<Rightarrow> ([], offset))"

definition ask_tail :: "file_system \<Rightarrow> request \<Rightarrow> string \<Rightarrow> string \<Rightarrow> request_error + response" where
  "ask_tail fs req path query = serve_tail fs (req\<lparr>req_raw := (req_raw req)\<lparr>rq_query := Some query\<rparr>\<rparr>) path"

lemma ask_tail_plain:
  assumes "fs_open fs path = Some (plain_file content)" "off \<le> length content" "length content < 2 ^ 64"
  shows "\<exists>r. ask_tail fs req path (''offset='' @ show_nat off) = Inr r \<and>
    rsp_body r = Bytes (take MAX_TAIL_BYTES (drop off content)) \<and>
    find_header (rsp_headers r) ''x-log-end'' = Some (show_nat (min (off + MAX_TAIL_BYTES) (length content)))"
proof -
  have amp: "CHR ''&'' \<notin> set (''offset='' @ show_nat off)"
    using show_nat_digits [of off] by (auto simp: list_all_iff is_ascii_digit_def byte_val_def)
  have q: "query_number ''offset='' (''offset='' @ show_nat off) = off" "query_number ''n='' (''offset='' @ show_nat off) = 0"
    unfolding query_number_def split_on_no_delim [OF amp] using parse_uint_show_nat [of off 64] assms(2,3)
    by (simp_all add: starts_with_def)
  have "tail_slice (plain_file content) (length content) off 0 =
    Inr (take MAX_TAIL_BYTES (drop off content), min (off + MAX_TAIL_BYTES) (length content))"
    using assms(2) by (auto simp: tail_slice_def Let_def read_plain min_def)
  moreover have "of_seek_end (plain_file content) = Inr (length content)" by (simp add: plain_file_def)
  ultimately show ?thesis using assms(1) q
    by (simp add: ask_tail_def serve_tail_def raw_query_def verbatim_def with_body_def with_header_def response_status_def log_end_field)
qed

text \<open>C30. A client that starts at offset zero and always asks from the offset the last answer named has
  the whole file, byte for byte and in order, after at most one request for each 512 KiB begun, and
  every further request brings nothing and leaves it there.\<close>

theorem tail_follow_complete:
  assumes "fs_open fs path = Some (plain_file content)" "length content < 2 ^ 64"
    "length content \<le> k * MAX_TAIL_BYTES"
  shows "follow (ask_tail fs req path) k ''0'' = (content, show_nat (if k = 0 then 0 else length content))"
proof -
  have "follow (ask_tail fs req path) k (show_nat off) =
      (drop off content, show_nat (if k = 0 then off else length content))"
    if "off \<le> length content" "length content - off \<le> k * MAX_TAIL_BYTES" for k off
    using that
  proof (induction k arbitrary: off)
    case (Suc k)
    let ?e = "min (off + MAX_TAIL_BYTES) (length content)"
    obtain r where r: "ask_tail fs req path (''offset='' @ show_nat off) = Inr r"
      "rsp_body r = Bytes (take MAX_TAIL_BYTES (drop off content))"
      "find_header (rsp_headers r) ''x-log-end'' = Some (show_nat ?e)"
      using ask_tail_plain [OF assms(1) Suc.prems(1) assms(2)] by blast
    have "follow (ask_tail fs req path) k (show_nat ?e) = (drop ?e content, show_nat (if k = 0 then ?e else length content))"
      using Suc.IH [of ?e] Suc.prems by (auto simp: min_def)
    moreover have "take MAX_TAIL_BYTES (drop off content) @ drop ?e content = drop off content"
    proof -
      have "take MAX_TAIL_BYTES (drop off content) @ drop MAX_TAIL_BYTES (drop off content) = drop off content"
        by (rule append_take_drop_id)
      moreover have "drop ?e content = drop MAX_TAIL_BYTES (drop off content)"
        by (cases "off + MAX_TAIL_BYTES \<le> length content") (simp_all add: add.commute)
      ultimately show ?thesis by simp
    qed
    moreover have "k = 0 \<Longrightarrow> ?e = length content" using Suc.prems by auto
    ultimately show ?case using r by (cases "k = 0") auto
  qed simp
  from this [of 0 k] assms(3) have "follow (ask_tail fs req path) k (show_nat 0) =
      (content, show_nat (if k = 0 then 0 else length content))" by simp
  moreover have "show_nat 0 = ''0''" by code_simp
  ultimately show ?thesis by (simp only:)
qed

section \<open>Which file is read\<close>

text \<open>A value the client sends in the query or a form replaces a path parameter of the same name.\<close>

definition framework_keys :: "string set" where
  "framework_keys = {''query'', ''cookies'', ''request_path'', ''datetime'', ''year'', ''flash'', ''csrf_token''} \<union> auth_keys"

lemma build_dict_key:
  assumes "build_dict sv fw mo raw route params c = (Inr d, c')" "k \<notin> framework_keys"
  obtains d1 d2 where
    "dynamic_params sv mo (fw_site_dir fw) params (cr_params_files route) (with_base (cr_base_dict route)) c = (Inr d1, c')"
    "insert_path_params sv route params d1 = Inr d2"
    "dict_get d k = (case sent_value raw k of Some v \<Rightarrow> Some (JString v) | None \<Rightarrow> dict_get d2 k)"
proof -
  from assms(1) obtain d1 d2 where *:
    "dynamic_params sv mo (fw_site_dir fw) params (cr_params_files route) (with_base (cr_base_dict route)) c = (Inr d1, c')"
    "insert_path_params sv route params d1 = Inr d2"
    "d = insert_csrf fw mo (insert_flash sv fw raw (insert_auth sv raw (insert_builtins raw mo
       (insert_form raw (insert_query raw d2)))))"
    by (rule build_dict_cases)
  have "dict_get d k = dict_get (insert_form raw (insert_query raw d2)) k"
    using assms(2) by (simp add: *(3) framework_keys_def insert_csrf_other insert_flash_other insert_auth_other insert_builtins_get)
  then show ?thesis using that [OF *(1,2)] assms(2) insert_sent [of k raw d2] by (simp add: framework_keys_def)
qed

lemma relpath_free: "''relpath'' \<notin> framework_keys"
  by (simp add: framework_keys_def auth_keys_def)

lemma path_params_value:
  "insert_path_params sv route [(k, v)] d = Inr d' \<Longrightarrow>
     dict_get d' k = Some (JString v) \<and> (\<exists>slash. validate_path_param (sv_alnum sv) v slash = Inr v)"
  by (auto simp: validate_wildcard_param_def validate_segment_param_def map_sum_def validate_path_param_Inr
      split: sum.splits if_splits)

lemma resolve_relpath:
  assumes "dict_get d ''relpath'' = Some (JString v)" "map_of (cr_settings route) ''root'' = Some (JString root)"
    "CHR ''{'' \<notin> set root"
  shows "resolve_fs_path (new_request raw d route fw) site_dir =
    (if v = [] then path_join site_dir root else path_join (path_join site_dir root) v)"
  using assms by (simp add: resolve_fs_path_def route_str_def route_setting_def new_request_def first_some_def)


lemma no_coding: "coding_quality [] ''br'' = None" "coding_quality [] ''gzip'' = None"
  by code_simp+

lemma choose_identity: "choose_encoding mime [] compression = (Identity, None)"
  by (simp add: choose_encoding_def encoding_candidates_def candidate_quality_def no_coding split: option.splits)

lemma no_conditions: "evaluate_preconditions parse_http_date cached [] meth = Proceed"
proof -
  have "header [] n = None" for n by (simp add: header_def find_header_def)
  then show ?thesis by (simp add: evaluate_preconditions_def Let_def)
qed

text \<open>C28. The query reaches the file system: a \<open>GET\<close> of any path of a file route with an absolute path as
  the query parameter \<open>relpath\<close> is answered with the contents of that file, wherever it is, because the
  query overrides the validated path parameter and joining an absolute path replaces the directory.\<close>

theorem query_reads_any_file:
  assumes "build_dict sv fw mo raw route params c = (Inr d, c')" "rq_method raw = ''GET''" "rq_headers raw = []"
    and "sent_value raw ''relpath'' = Some file" "starts_with ''/'' file"
    and "map_of (cr_settings route) ''root'' = Some (JString root)" "CHR ''{'' \<notin> set root"
      "map_of (cr_settings route) ''tail'' = None"
    and "\<not> is_enabled (fw_minification fw) (mime_base (mime_from_path file))"
    and "fs_symlink_metadata fs file = Some False" "fs_metadata fs file = Some meta" "fm_is_file meta"
      "fs_open fs file = Some f"
  shows "\<exists>r. serve tk parse_http_date fs (new_request raw d route fw) = Inr r \<and> rsp_status r = 200 \<and>
    rsp_body r = Stream (fm_len meta) (of_read_from f 0)"
proof -
  let ?req = "new_request raw d route fw"
  from assms(1) relpath_free obtain d2 where
    "dict_get d ''relpath'' = (case sent_value raw ''relpath'' of Some v \<Rightarrow> Some (JString v) | None \<Rightarrow> dict_get d2 ''relpath'')"
    by (rule build_dict_key)
  then have "dict_get d ''relpath'' = Some (JString file)" using assms(4) by simp
  moreover have "file \<noteq> []" using assms(5) by (auto simp: starts_with_def)
  ultimately have path: "resolve_fs_path ?req site = file" for site
    using resolve_relpath [OF _ assms(6,7)] assms(5) by (simp add: path_join_def)
  have "serve tk parse_http_date fs ?req = Inr (serve_found tk parse_http_date fs ?req file meta)"
    using assms(2,8,10,11) path
    by (simp add: serve_def Let_def new_request_def escapes_site_dir_def route_bool_def route_setting_def)
  moreover have "accept_encoding_of raw = []" using assms(3) by (simp add: accept_encoding_of_def header_def find_header_def)
  ultimately show ?thesis
    using assms(2,3,9,12,13)
    by (simp add: serve_found_def Let_def new_request_def choose_identity no_conditions stream_def response_status_def)
qed

text \<open>A \<open>HEAD\<close> is answered like the \<open>GET\<close> of the same file: the same status, the same fields and the
  same length, as long as a file that has a size can be opened.\<close>

theorem head_agrees_with_get:
  assumes "rq_method (req_raw req) = ''GET''" "\<And>path. fs_metadata fs path \<noteq> None \<Longrightarrow> fs_open fs path \<noteq> None"
    "serve tk parse_http_date fs req = Inr g"
  shows "\<exists>h. serve tk parse_http_date fs (req\<lparr>req_raw := (req_raw req)\<lparr>rq_method := ''HEAD''\<rparr>\<rparr>) = Inr h \<and>
    rsp_status h = rsp_status g \<and> mset (rsp_headers h) = mset (rsp_headers g) \<and> body_len (rsp_body h) = body_len (rsp_body g)"
proof -
  let ?head = "req\<lparr>req_raw := (req_raw req)\<lparr>rq_method := ''HEAD''\<rparr>\<rparr>"
  have parts: "route_str ?head k = route_str req k" "req_dict ?head = req_dict req" "raw_query (req_raw ?head) = raw_query (req_raw req)" for k
    by (simp_all add: route_str_def route_setting_def raw_query_def)
  have same: "resolve_fs_path ?head s = resolve_fs_path req s" "serve_tail fs ?head p = serve_tail fs req p" for s p
    unfolding resolve_fs_path_def serve_tail_def parts by (rule refl)+
  have rest: "site_path ?head r = site_path req r" "route_bool ?head k b = route_bool req k b" for r k b
    by (simp_all add: site_path_def route_bool_def route_setting_def)
  have pre: "evaluate_preconditions parse_http_date v hs ''HEAD'' = evaluate_preconditions parse_http_date v hs ''GET''" for v hs
  proof -
    have "eq_ignore_ascii_case ''HEAD'' ''HEAD''" "eq_ignore_ascii_case ''GET'' ''GET''" by code_simp+
    then show ?thesis by (simp add: evaluate_preconditions_def Let_def)
  qed
  have found: "rsp_status (serve_found tk parse_http_date fs ?head p meta) = rsp_status (serve_found tk parse_http_date fs req p meta) \<and>
    mset (rsp_headers (serve_found tk parse_http_date fs ?head p meta)) = mset (rsp_headers (serve_found tk parse_http_date fs req p meta)) \<and>
    body_len (rsp_body (serve_found tk parse_http_date fs ?head p meta)) = body_len (rsp_body (serve_found tk parse_http_date fs req p meta))"
    if opens: "fs_open fs p \<noteq> None" for p meta
  proof -
    have r: "serve_read tk fs ?head p meta e m mi cc et lm se = serve_read tk fs req p meta e m mi cc et lm se" for e m mi cc et lm se
    proof -
      have "req_minification ?head = req_minification req" by simp
      then show ?thesis unfolding serve_read_def by (simp only:)
    qed
    obtain f where "fs_open fs p = Some f" using opens by blast
    then show ?thesis
      using assms(1) by (simp add: serve_found_def Let_def accept_encoding_of_def raw_query_def pre r validator_headers_def stream_def
          response_status_def with_header_def)
  qed
  show ?thesis
    using assms found
    by (auto simp: serve_def Let_def same rest split: if_splits option.splits)
qed

text \<open>Only the last component is asked whether it is a link: a file below a linked directory is served.\<close>

lemma linked_directory_served: "fs_symlink_metadata fs path = Some False \<Longrightarrow> \<not> escapes_site_dir fs path site_dir"
  by (simp add: escapes_site_dir_def)


section \<open>Concrete files\<close>

definition demo_log :: bytes where
  "demo_log = [CHR ''a'', LF, CHR ''b'', LF, CHR ''c'']"

definition demo_fs :: file_system where
  "demo_fs = \<lparr>fs_symlink_metadata = (\<lambda>_. Some False), fs_canonicalize = Some,
     fs_metadata = (\<lambda>_. Some \<lparr>fm_modified = Some 0, fm_len = 5, fm_is_file = True\<rparr>),
     fs_read = (\<lambda>_. Some demo_log), fs_open = (\<lambda>_. Some (plain_file demo_log))\<rparr>"

definition files_route :: compiled_route where
  "files_route = asset_route\<lparr>cr_settings := [(''root'', JString ''assets'')]\<rparr>"

definition files_raw :: "string \<Rightarrow> raw_request" where
  "files_raw query = demo_get ''/assets/a.log'' query []"

definition files_request :: "string \<Rightarrow> request" where
  "files_request query = new_request (files_raw query) (projr (fst (build_dict demo_services demo_framework demo_moment
     (files_raw query) files_route [(''relpath'', ''a.log'')] ()))) files_route demo_framework"

lemma files_build:
  obtains d where "build_dict demo_services demo_framework demo_moment (files_raw query) files_route [(''relpath'', ''a.log'')] () = (Inr d, ())"
    "files_request query = new_request (files_raw query) d files_route demo_framework"
proof -
  let ?p = "insert_path_params demo_services files_route [(''relpath'', ''a.log'')] (with_base [])"
  have "isl ?p = False" by code_simp
  then obtain d2 where "?p = Inr d2" by (cases ?p) auto
  then have "\<exists>d. build_dict demo_services demo_framework demo_moment (files_raw query) files_route [(''relpath'', ''a.log'')] () = (Inr d, ())"
    by (simp add: build_dict_def files_route_def demo_route_def)
  then show ?thesis using that by (auto simp: files_request_def)
qed

lemma files_settings: "map_of (cr_settings files_route) ''root'' = Some (JString ''assets'')"
  "map_of (cr_settings files_route) ''tail'' = None" "CHR ''{'' \<notin> set ''assets''"
  by (simp_all add: files_route_def)


theorem query_reads_any_file_witness:
  "\<exists>r. serve demo_tools (\<lambda>_. None) demo_fs (files_request ''relpath=/etc/passwd'') = Inr r \<and> rsp_status r = 200 \<and>
     rsp_body r = Stream 5 [RData demo_log]"
proof -
  let ?q = "''relpath=/etc/passwd''"
  obtain d where d: "build_dict demo_services demo_framework demo_moment (files_raw ?q) files_route [(''relpath'', ''a.log'')] () = (Inr d, ())"
    "files_request ?q = new_request (files_raw ?q) d files_route demo_framework" by (rule files_build)
  have sent: "sent_value (files_raw ?q) ''relpath'' = Some ''/etc/passwd''" by code_simp
  have raw: "rq_method (files_raw ?q) = ''GET''" "rq_headers (files_raw ?q) = []" by (simp_all add: files_raw_def demo_get_def)
  have "starts_with ''/'' ''/etc/passwd''" by code_simp
  moreover have "\<not> is_enabled (fw_minification demo_framework) (mime_base (mime_from_path ''/etc/passwd''))"
    by (simp add: demo_framework_def is_enabled_def)
  moreover have "fs_symlink_metadata demo_fs ''/etc/passwd'' = Some False"
    "fs_metadata demo_fs ''/etc/passwd'' = Some \<lparr>fm_modified = Some 0, fm_len = 5, fm_is_file = True\<rparr>"
    "fs_open demo_fs ''/etc/passwd'' = Some (plain_file demo_log)" by (simp_all add: demo_fs_def)
  ultimately have "\<exists>r. serve demo_tools (\<lambda>_. None) demo_fs (new_request (files_raw ?q) d files_route demo_framework) = Inr r \<and>
      rsp_status r = 200 \<and> rsp_body r = Stream (fm_len \<lparr>fm_modified = Some 0, fm_len = 5, fm_is_file = True\<rparr>)
        (of_read_from (plain_file demo_log) 0)"
    by (intro query_reads_any_file [OF d(1) raw sent _ files_settings(1,3,2)]) simp_all
  then show ?thesis by (simp add: d(2) plain_file_def)
qed

theorem tail_last_lines_witness:
  "\<exists>r. serve_tail demo_fs (files_request ''n=2'') ''/srv/site/a.log'' = Inr r \<and> rsp_body r = Bytes [CHR ''b'', LF, CHR ''c'']"
proof -
  have "files_request ''n=2'' = new_request (files_raw ''n=2'') d files_route demo_framework \<Longrightarrow>
    raw_query (req_raw (files_request ''n=2'')) = ''n=2''" for d
    by (simp add: new_request_def files_raw_def demo_get_def raw_query_def)
  then have q: "raw_query (req_raw (files_request ''n=2'')) = ''n=2''" using files_build [of "''n=2''"] by blast
  have "query_number ''offset='' ''n=2'' = 0" "query_number ''n='' ''n=2'' = 2" by code_simp+
  moreover have "concat (drop (length (file_lines demo_log) - 2) (file_lines demo_log)) = [CHR ''b'', LF, CHR ''c'']" by code_simp
  moreover have "fs_open demo_fs ''/srv/site/a.log'' = Some (plain_file demo_log)" by (simp add: demo_fs_def)
  moreover have "length demo_log \<le> TAIL_LOOKBACK" by (simp add: demo_log_def TAIL_LOOKBACK_def)
  ultimately show ?thesis
    using tail_last_lines [of demo_fs "''/srv/site/a.log''" demo_log "files_request ''n=2''" 2] unfolding q by auto
qed

theorem tail_follow_complete_witness:
  "follow (ask_tail demo_fs (files_request []) ''/srv/site/a.log'') 1 ''0'' = (demo_log, ''5'')"
proof -
  have "show_nat (length demo_log) = ''5''" by code_simp
  then show ?thesis
    using tail_follow_complete [of demo_fs "''/srv/site/a.log''" demo_log 1 "files_request []"]
    by (simp add: demo_fs_def demo_log_def MAX_TAIL_BYTES_def)
qed

theorem head_agrees_with_get_witness:
  "\<exists>g h. serve demo_tools (\<lambda>_. None) demo_fs (files_request []) = Inr g \<and>
     serve demo_tools (\<lambda>_. None) demo_fs ((files_request [])\<lparr>req_raw := (req_raw (files_request []))\<lparr>rq_method := ''HEAD''\<rparr>\<rparr>) = Inr h \<and>
     rsp_status h = rsp_status g \<and> body_len (rsp_body h) = body_len (rsp_body g)"
proof -
  obtain d where d: "files_request [] = new_request (files_raw []) d files_route demo_framework" by (rule files_build)
  have get: "rq_method (req_raw (files_request [])) = ''GET''" by (simp add: d new_request_def files_raw_def demo_get_def)
  have "serve demo_tools (\<lambda>_. None) demo_fs (files_request []) \<noteq> Inl e" for e
    by (simp add: get serve_def Let_def demo_fs_def d route_bool_def route_setting_def new_request_def files_settings)
  then obtain g where g: "serve demo_tools (\<lambda>_. None) demo_fs (files_request []) = Inr g"
    by (cases "serve demo_tools (\<lambda>_. None) demo_fs (files_request [])") auto
  have "fs_open demo_fs p \<noteq> None" for p by (simp add: demo_fs_def)
  then show ?thesis using head_agrees_with_get [OF get _ g] g by blast
qed

end
