(* ===== verification/Log_Pages.thy ===== *)
theory Log_Pages
  imports App_Serve
begin

text \<open>
  Rows over HTTP: the JSON Lines files and pages of \<open>m6-core/src/ndjson.rs\<close> and the time range of
  \<open>m6-core/src/time_range.rs\<close>.

  A row reaches this code through \<open>serde_json\<close>: writing one gives its bytes, or \<open>None\<close> when it fails, and
  reading a line gives a record or \<open>None\<close>. A \<open>SystemTime\<close> is a number of nanoseconds since the epoch, a
  \<open>Duration\<close> a natural number of them. \<open>DateTime::parse_from_rfc3339\<close> of chrono is a parameter: it gives the
  seconds since the epoch and the nanoseconds of the second.
\<close>

section \<open>JSON Lines\<close>

text \<open>\<open>str::lines\<close>: the carriage return goes only with a newline.\<close>

definition strip_cr :: "string \<Rightarrow> string" where
  "strip_cr l = (case strip_suffix [CR] l of Some r \<Rightarrow> r | None \<Rightarrow> l)"

definition str_lines :: "string \<Rightarrow> string list" where
  "str_lines s = (let ps = split_on LF s
     in map strip_cr (butlast ps) @ (if last ps = [] then [] else [last ps]))"

definition read_str :: "(string \<Rightarrow> 'a option) \<Rightarrow> string \<Rightarrow> 'a list" where
  "read_str from_str s = List.map_filter from_str (filter (\<lambda>l. trim l \<noteq> []) (str_lines s))"

text \<open>A reader over a stream: the bytes it has not handed out and the error that ends it, if one does.\<close>

record line_reader =
  lr_data :: bytes
  lr_end :: "io_error option"
  lr_skipped :: nat
  lr_read :: nat

definition reader_new :: "reader \<Rightarrow> line_reader" where
  "reader_new inner = \<lparr>lr_data = stream_data inner, lr_end = stream_end inner, lr_skipped = 0, lr_read = 0\<rparr>"

definition read_line :: "line_reader \<Rightarrow> (io_error + string) \<times> line_reader" where
  "read_line rd = (case find_char LF (lr_data rd) of
     Some i \<Rightarrow> (let line = take (Suc i) (lr_data rd)
               in (if valid_utf8 line then Inr line else Inl InvalidData, rd\<lparr>lr_data := drop (Suc i) (lr_data rd)\<rparr>))
   | None \<Rightarrow> (case lr_end rd of
       Some e \<Rightarrow> (Inl e, rd\<lparr>lr_data := []\<rparr>)
     | None \<Rightarrow> (if valid_utf8 (lr_data rd) then Inr (lr_data rd) else Inl InvalidData, rd\<lparr>lr_data := []\<rparr>)))"

lemma read_line_shorter:
  "read_line rd = (Inr line, rd') \<Longrightarrow> line \<noteq> [] \<Longrightarrow> length (lr_data rd') < length (lr_data rd)"
  by (cases "lr_data rd") (auto simp: read_line_def Let_def split: option.splits if_splits)

function reader_next :: "(string \<Rightarrow> 'a option) \<Rightarrow> line_reader \<Rightarrow> 'a option \<times> line_reader" where
  "reader_next from_str rd = (case read_line rd of
     (Inl e, rd') \<Rightarrow> (None, rd')
   | (Inr buf, rd') \<Rightarrow>
       if buf = [] then (None, rd')
       else (let line = trim buf in
         if line = [] then reader_next from_str rd'
         else (case from_str line of
             Some v \<Rightarrow> (Some v, rd'\<lparr>lr_read := lr_read rd' + 1\<rparr>)
           | None \<Rightarrow> reader_next from_str (rd'\<lparr>lr_skipped := lr_skipped rd' + 1\<rparr>))))"
  by pat_completeness auto
termination
proof (relation "measure (\<lambda>(_, rd). length (lr_data rd))", goal_cases)
  case (2 from_str rd x1 y x2 line)
  then have "read_line rd = (Inr x2, y)" by simp
  then show ?case using 2 read_line_shorter by simp
next
  case (3 from_str rd x1 y x2 line)
  then have "read_line rd = (Inr x2, y)" by simp
  then show ?case using 3 read_line_shorter by simp
qed simp

declare reader_next.simps [simp del]

text \<open>Records are written to a \<open>sink\<close>, one \<open>write_all\<close> for a record and its newline.\<close>

definition write_one :: "('a \<Rightarrow> bytes option) \<Rightarrow> sink \<Rightarrow> 'a \<Rightarrow> (io_error + unit) \<times> sink" where
  "write_one to_vec w value = (case to_vec value of
     None \<Rightarrow> (Inl InvalidData, w)
   | Some line \<Rightarrow> write_all w (line @ [LF]))"

fun write_records :: "('a \<Rightarrow> bytes option) \<Rightarrow> sink \<Rightarrow> 'a list \<Rightarrow> (io_error + unit) \<times> sink" where
  "write_records to_vec w [] = (Inr (), w)"
| "write_records to_vec w (v # vs) = (case write_one to_vec w v of
     (Inl e, w') \<Rightarrow> (Inl e, w')
   | (Inr _, w') \<Rightarrow> write_records to_vec w' vs)"

definition records_to_string :: "('a \<Rightarrow> bytes option) \<Rightarrow> 'a list \<Rightarrow> io_error + string" where
  "records_to_string to_vec values = (case write_records to_vec (new_sink None) values of
     (Inl e, w) \<Rightarrow> Inl e
   | (Inr _, w) \<Rightarrow> if valid_utf8 (sk_data w) then Inr (sk_data w) else Inl InvalidData)"

section \<open>Pages\<close>

definition CONTENT_TYPE :: string where "CONTENT_TYPE = ''application/x-ndjson''"
definition DEFAULT_PAGE_BYTES :: nat where "DEFAULT_PAGE_BYTES = 4 * 1024 * 1024"
definition DEFAULT_PAGE_ROWS :: nat where "DEFAULT_PAGE_ROWS = 10000"
definition MAX_PAGE_BYTES :: nat where "MAX_PAGE_BYTES = 64 * 1024 * 1024"
definition CURSOR_PARAM :: string where "CURSOR_PARAM = ''cursor''"
definition MAX_CURSOR_LEN :: nat where "MAX_CURSOR_LEN = 128"

record page_limits =
  max_bytes :: nat
  max_rows :: nat

definition default_limits :: page_limits where
  "default_limits = \<lparr>max_bytes = DEFAULT_PAGE_BYTES, max_rows = DEFAULT_PAGE_ROWS\<rparr>"

definition limits_new :: "nat \<Rightarrow> nat \<Rightarrow> page_limits" where
  "limits_new b r = \<lparr>max_bytes = min (max b 1) MAX_PAGE_BYTES, max_rows = max r 1\<rparr>"

datatype pushed = Added | Full

record page =
  pg_buf :: bytes
  pg_rows :: nat
  pg_limits :: page_limits

definition page_new :: "page_limits \<Rightarrow> page" where
  "page_new l = \<lparr>pg_buf = [], pg_rows = 0, pg_limits = l\<rparr>"

definition push :: "bytes option \<Rightarrow> page \<Rightarrow> (io_error + pushed) \<times> page" where
  "push row p =
     (if max_rows (pg_limits p) \<le> pg_rows p then (Inr Full, p)
      else (case row of
          None \<Rightarrow> (Inl InvalidData, p)
        | Some json \<Rightarrow>
            if json = [] \<or> hd json \<noteq> CHR ''{'' then (Inl InvalidInput, p)
            else (let buf = pg_buf p @ json @ [LF]; row_len = length buf - length (pg_buf p) in
              if pg_rows p = 0 \<and> MAX_PAGE_BYTES < row_len then (Inl InvalidData, p)
              else if pg_rows p \<noteq> 0 \<and> max_bytes (pg_limits p) < length buf then (Inr Full, p)
              else (Inr Added, p\<lparr>pg_buf := buf, pg_rows := pg_rows p + 1\<rparr>))))"

text \<open>The cursor and the link that carries it.\<close>

datatype cursor_error = Repeated | Empty | Malformed

datatype cursor = Cursor (cursor_str: string)

definition cursor_char :: "char \<Rightarrow> bool" where
  "cursor_char b \<longleftrightarrow> is_ascii_alphanumeric b \<or> b \<in> set ''-._~''"

definition cursor_new :: "string \<Rightarrow> cursor_error + cursor" where
  "cursor_new s =
     (if s = [] then Inl Empty
      else if length s \<le> MAX_CURSOR_LEN \<and> list_all cursor_char s then Inr (Cursor s)
      else Inl Malformed)"

definition cursor_from_query :: "string \<Rightarrow> cursor_error + cursor option" where
  "cursor_from_query query = (case single_query_value query CURSOR_PARAM of
     Inl _ \<Rightarrow> Inl Repeated
   | Inr None \<Rightarrow> Inr None
   | Inr (Some v) \<Rightarrow> (case cursor_new v of Inl e \<Rightarrow> Inl e | Inr c \<Rightarrow> Inr (Some c)))"

definition cursor_error_text :: "cursor_error \<Rightarrow> string" where
  "cursor_error_text e = (case e of
     Repeated \<Rightarrow> ''`cursor` given more than once''
   | Empty \<Rightarrow> ''`cursor` is empty''
   | Malformed \<Rightarrow> ''`cursor` is not a cursor this service issued'')"

definition cursor_error_response :: "cursor_error \<Rightarrow> response" where
  "cursor_error_response e = refusal_response (cursor_error_text e)"

definition query_safe :: "char \<Rightarrow> bool" where
  "query_safe b \<longleftrightarrow> is_ascii_alphanumeric b \<or> b \<in> set ''-._~!$'()*+,;=:@/?%''"

definition link_byte :: "char \<Rightarrow> string" where
  "link_byte b = (if query_safe b then [b] else percent b)"

definition link_pair :: "string \<Rightarrow> string" where
  "link_pair pair = concat (map link_byte pair)"

definition pair_key :: "string \<Rightarrow> string" where
  "pair_key pair = (case split_once CHR ''='' pair of Some (k, _) \<Rightarrow> k | None \<Rightarrow> pair)"

definition next_link :: "string \<Rightarrow> cursor \<Rightarrow> string" where
  "next_link req_query c =
     ''<?'' @ concat (map (\<lambda>pair. link_pair pair @ ''&'')
                 (filter (\<lambda>pair. pair_key pair \<noteq> CURSOR_PARAM)
                    (filter (\<lambda>p. p \<noteq> []) (split_on CHR ''&'' req_query)))) @
     CURSOR_PARAM @ ''='' @ cursor_str c @ ''>; rel='' @ [CHR 34] @ ''next'' @ [CHR 34]"

definition into_response :: "page \<Rightarrow> string \<Rightarrow> cursor option \<Rightarrow> response" where
  "into_response p req_query next_cursor =
     (let resp = with_header (with_header (with_header
                   (stream 200 (length (pg_buf p)) [RData (pg_buf p)])
                   ''Content-Type'' CONTENT_TYPE)
                   ''Cache-Control'' ''no-store'')
                   ''X-Content-Type-Options'' ''nosniff''
      in case next_cursor of
           Some c \<Rightarrow> with_header resp ''Link'' (next_link req_query c)
         | None \<Rightarrow> resp)"

section \<open>Time ranges\<close>

type_synonym rfc3339 = "string \<Rightarrow> (int \<times> nat) option"

definition DEFAULT_MAX_SPAN :: nat where
  "DEFAULT_MAX_SPAN = 31 * 86400 * 1000000000"

record time_range =
  tr_from :: int
  tr_to :: int

datatype time_range_error =
  MissingTime string | RepeatedTime string | EmptyTime string | MalformedTime string | NotUtc string
| BeforeEpoch string | NotAfter | TooLong nat

definition single :: "string \<Rightarrow> string \<Rightarrow> time_range_error + string" where
  "single query key = (case single_query_value query key of
     Inl _ \<Rightarrow> Inl (RepeatedTime key)
   | Inr None \<Rightarrow> Inl (MissingTime key)
   | Inr (Some v) \<Rightarrow> Inr (url_decode v))"

definition parse_utc :: "rfc3339 \<Rightarrow> string \<Rightarrow> string \<Rightarrow> time_range_error + int" where
  "parse_utc chrono value name =
     (if value = [] then Inl (EmptyTime name)
      else if \<not> ends_with ''Z'' value then
        Inl (if chrono value \<noteq> None then NotUtc name else MalformedTime name)
      else (case chrono value of
          None \<Rightarrow> Inl (MalformedTime name)
        | Some (secs, sub) \<Rightarrow>
            if length value \<le> 10 \<or> value ! 10 \<noteq> CHR ''T'' \<or> 1000000000 \<le> sub then Inl (MalformedTime name)
            else if secs < 0 then Inl (BeforeEpoch name)
            else Inr (secs * 1000000000 + int sub)))"

definition nanos :: "int \<Rightarrow> nat" where
  "nanos t = nat t"

abbreviation i64_max :: int where
  "i64_max \<equiv> 2 ^ 63 - 1"

definition ceil_div :: "nat \<Rightarrow> nat \<Rightarrow> int" where
  "ceil_div n d = min (int ((n + d - 1) div d)) i64_max"

definition range_from_query :: "rfc3339 \<Rightarrow> string \<Rightarrow> nat \<Rightarrow> time_range_error + time_range" where
  "range_from_query chrono query max_span = (case single query ''from'' of
     Inl e \<Rightarrow> Inl e
   | Inr raw_from \<Rightarrow> (case single query ''to'' of
       Inl e \<Rightarrow> Inl e
     | Inr raw_to \<Rightarrow> (case parse_utc chrono raw_from ''from'' of
         Inl e \<Rightarrow> Inl e
       | Inr f \<Rightarrow> (case parse_utc chrono raw_to ''to'' of
           Inl e \<Rightarrow> Inl e
         | Inr t \<Rightarrow>
             if t < f then Inl NotAfter
             else if t - f = 0 then Inl NotAfter
             else if int max_span < t - f then Inl (TooLong max_span)
             else Inr \<lparr>tr_from = f, tr_to = t\<rparr>))))"

definition range_contains :: "time_range \<Rightarrow> int \<Rightarrow> bool" where
  "range_contains r t \<longleftrightarrow> tr_from r \<le> t \<and> t < tr_to r"

definition range_span :: "time_range \<Rightarrow> nat" where
  "range_span r = (if tr_to r < tr_from r then 0 else nat (tr_to r - tr_from r))"

definition from_unix_ms :: "time_range \<Rightarrow> int" where
  "from_unix_ms r = ceil_div (nanos (tr_from r)) 1000000"

definition to_unix_ms :: "time_range \<Rightarrow> int" where
  "to_unix_ms r = ceil_div (nanos (tr_to r)) 1000000"

definition from_unix_s :: "time_range \<Rightarrow> int" where
  "from_unix_s r = ceil_div (nanos (tr_from r)) 1000000000"

definition to_unix_s :: "time_range \<Rightarrow> int" where
  "to_unix_s r = ceil_div (nanos (tr_to r)) 1000000000"

definition time_range_error_text :: "time_range_error \<Rightarrow> string" where
  "time_range_error_text e = (case e of
     MissingTime n \<Rightarrow> ''missing `'' @ n @ ''`: give from and to as RFC 3339 UTC times, for example ?from=2026-01-01T00:00:00Z&to=2026-01-02T00:00:00Z''
   | RepeatedTime n \<Rightarrow> ''`'' @ n @ ''` given more than once''
   | EmptyTime n \<Rightarrow> ''`'' @ n @ ''` is empty''
   | MalformedTime n \<Rightarrow> ''`'' @ n @ ''` is not an RFC 3339 date-time such as 2026-01-01T00:00:00Z''
   | NotUtc n \<Rightarrow> ''`'' @ n @ ''` must be UTC and end in Z''
   | BeforeEpoch n \<Rightarrow> ''`'' @ n @ ''` is before 1970-01-01T00:00:00Z''
   | NotAfter \<Rightarrow> ''`to` must be later than `from`: the range is [from, to)''
   | TooLong m \<Rightarrow> ''the range is longer than the maximum of '' @ show_nat (m div 1000000000 div 86400) @ '' days'')"

definition time_range_error_response :: "time_range_error \<Rightarrow> response" where
  "time_range_error_response e = refusal_response (time_range_error_text e)"

section \<open>Files of records\<close>

lemma write_records_unbounded:
  "sk_room w = None \<Longrightarrow> (\<forall>v \<in> set vs. to_vec v = Some (line v)) \<Longrightarrow>
   write_records to_vec w vs = (Inr (), w\<lparr>sk_data := sk_data w @ concat (map (\<lambda>v. line v @ [LF]) vs)\<rparr>)"
proof (induction vs arbitrary: w)
  case (Cons v vs)
  then have "write_one to_vec w v = (Inr (), w\<lparr>sk_data := sk_data w @ line v @ [LF]\<rparr>)"
    by (simp add: write_one_def write_all_def)
  then show ?case using Cons by simp
qed simp

lemma split_on_lines:
  "\<forall>l \<in> set ls. LF \<notin> set l \<Longrightarrow> LF \<notin> set torn \<Longrightarrow>
   split_on LF (concat (map (\<lambda>l. l @ [LF]) ls) @ torn) = ls @ [torn]"
  by (induction ls) (simp_all add: split_on_append split_on_no_delim)

lemma str_lines_records:
  assumes "\<forall>l \<in> set ls. LF \<notin> set l \<and> \<not> ends_with [CR] l" "LF \<notin> set torn"
  shows "str_lines (concat (map (\<lambda>l. l @ [LF]) ls) @ torn) = ls @ (if torn = [] then [] else [torn])"
proof -
  have "map strip_cr ls = ls"
    using assms(1) by (intro map_idI) (auto simp: strip_cr_def ends_with_iff strip_suffix_Some split: option.splits)
  then show ?thesis using split_on_lines [of ls torn] assms by (simp add: str_lines_def)
qed

lemma map_filter_append: "List.map_filter f (xs @ ys) = List.map_filter f xs @ List.map_filter f ys"
  by (simp add: List.map_filter_def)

lemma map_filter_single:
  "List.map_filter f [] = []" "List.map_filter f [x] = (case f x of Some v \<Rightarrow> [v] | None \<Rightarrow> [])"
  by (simp_all add: List.map_filter_def split: option.splits)

text \<open>What \<open>serde_json\<close> promises of a compact record: text without control characters that reads back.\<close>

definition json_laws :: "('a \<Rightarrow> bytes option) \<Rightarrow> (string \<Rightarrow> 'a option) \<Rightarrow> 'a \<Rightarrow> bool" where
  "json_laws to_vec from_str v \<longleftrightarrow> (case to_vec v of
     None \<Rightarrow> False
   | Some l \<Rightarrow> from_str l = Some v \<and> trim l \<noteq> [] \<and> list_all (\<lambda>c. 32 \<le> byte_val c) l \<and> valid_utf8 l)"

lemma json_lawsD:
  assumes "json_laws to_vec from_str v"
  shows "to_vec v = Some (the (to_vec v)) \<and> from_str (the (to_vec v)) = Some v \<and> trim (the (to_vec v)) \<noteq> [] \<and>
     LF \<notin> set (the (to_vec v)) \<and> \<not> ends_with [CR] (the (to_vec v)) \<and> valid_utf8 (the (to_vec v))"
proof -
  have "\<not> 32 \<le> byte_val LF" "\<not> 32 \<le> byte_val CR" by (simp_all add: LF_def CR_def byte_val_def)
  then show ?thesis using assms
    by (auto simp: json_laws_def ends_with_iff list_all_iff split: option.splits)
qed

lemma valid_utf8_append: "valid_utf8 a \<Longrightarrow> valid_utf8 b \<Longrightarrow> valid_utf8 (a @ b)"
proof (induction "length a" arbitrary: a rule: less_induct)
  case less
  show ?case
  proof (cases a)
    case (Cons x r)
    let ?v = "byte_val x"
    have ih: "valid_utf8 t \<Longrightarrow> length t < length a \<Longrightarrow> valid_utf8 (t @ b)" for t using less by blast
    note v = less.prems(1) [unfolded Cons valid_utf8.simps [of "x # r"] list.case Let_def]
    note goal = valid_utf8.simps [of "x # r @ b", unfolded list.case Let_def]
    consider "?v < 128" | "194 \<le> ?v" "?v \<le> 223" | "224 \<le> ?v" "?v \<le> 239" | "240 \<le> ?v" "?v \<le> 244"
      using v by (auto split: if_splits)
    then have "valid_utf8 (x # r @ b)"
    proof cases
      case 1
      then show ?thesis unfolding goal using v ih [of r] Cons by simp
    next
      case 2
      then obtain y t where "r = y # t" "utf8_cont y" "valid_utf8 t" using v by (auto split: list.splits)
      then show ?thesis unfolding goal using 2 ih [of t] Cons by simp
    next
      case 3
      then obtain y z t where "r = y # z # t" "valid_utf8 t" using v by (auto split: list.splits)
      then show ?thesis unfolding goal using 3 v ih [of t] Cons by simp
    next
      case 4
      then obtain y z w t where "r = y # z # w # t" "valid_utf8 t" using v by (auto split: list.splits)
      then show ?thesis unfolding goal using 4 v ih [of t] Cons by simp
    qed
    then show ?thesis by (simp add: Cons)
  qed (use less in simp)
qed

lemma valid_utf8_lines:
  "\<forall>l \<in> set ls. valid_utf8 l \<Longrightarrow> valid_utf8 (concat (map (\<lambda>l. l @ [LF]) ls))"
proof (induction ls)
  case Nil
  then show ?case by (simp add: valid_utf8.simps)
next
  case (Cons l ls)
  have "valid_utf8 [LF]" by (rule valid_utf8_ascii) (simp add: LF_def byte_val_def)
  then show ?case using Cons valid_utf8_append [of "[LF]"] by (simp add: valid_utf8_append)
qed

text \<open>A file of records reads back, whatever a writer was in the middle of: the text that
  \<open>ndjson::to_string\<close> gives for a list of records, followed by any unfinished line, is read by \<open>read_str\<close> as
  those records in their order, and then at most one record, which is what the unfinished line parses to.\<close>

theorem records_read_back:
  assumes "\<forall>v \<in> set vs. json_laws to_vec from_str v" "LF \<notin> set torn"
  shows "\<exists>s. records_to_string to_vec vs = Inr s \<and>
     read_str from_str (s @ torn) =
       vs @ (if trim torn = [] then [] else (case from_str torn of Some v \<Rightarrow> [v] | None \<Rightarrow> []))"
proof -
  define ls where "ls = map (\<lambda>v. the (to_vec v)) vs"
  define s where "s = concat (map (\<lambda>l. l @ [LF]) ls)"
  have l: "\<forall>l \<in> set ls. LF \<notin> set l \<and> \<not> ends_with [CR] l \<and> valid_utf8 l \<and> trim l \<noteq> []"
    using assms(1) json_lawsD [of to_vec from_str] by (auto simp: ls_def)
  have "write_records to_vec (new_sink None) vs = (Inr (), (new_sink None)\<lparr>sk_data := s\<rparr>)"
    using write_records_unbounded [of "new_sink None" vs to_vec "\<lambda>v. the (to_vec v)"] assms(1) json_lawsD [of to_vec from_str]
    by (auto simp: new_sink_def s_def ls_def comp_def)
  moreover have "valid_utf8 s" using l by (simp add: s_def valid_utf8_lines)
  ultimately have w: "records_to_string to_vec vs = Inr s" by (simp add: records_to_string_def)
  have "str_lines (s @ torn) = ls @ (if torn = [] then [] else [torn])"
    using str_lines_records [of ls torn] l assms(2) by (simp add: s_def)
  moreover have "filter (\<lambda>l. trim l \<noteq> []) ls = ls" using l by simp
  moreover have "List.map_filter from_str ls = vs"
    using assms(1) json_lawsD [of to_vec from_str] by (simp add: ls_def List.map_filter_def filter_map comp_def map_idI)
  ultimately show ?thesis using w
    by (simp add: read_str_def map_filter_append map_filter_single split: option.splits)
qed

lemma read_line_counts:
  "read_line rd = (x, rd') \<Longrightarrow> lr_read rd' = lr_read rd \<and> lr_skipped rd' = lr_skipped rd"
  by (auto simp: read_line_def Let_def split: option.splits)

text \<open>A record the reader yields is counted once, and nothing else counts as read.\<close>

lemma reader_next_counts:
  "reader_next from_str rd = (v, rd') \<Longrightarrow>
   lr_read rd' = lr_read rd + (if v = None then 0 else 1) \<and> lr_skipped rd \<le> lr_skipped rd'"
proof (induction from_str rd rule: reader_next.induct)
  case (1 from_str rd)
  show ?case
  proof (cases "read_line rd")
    case (Pair x rd1)
    note c = read_line_counts [OF Pair]
    show ?thesis
    proof (cases x)
      case (Inr buf)
      then show ?thesis using 1 Pair c reader_next.simps [of from_str rd]
        by (auto simp: Let_def dest: Suc_leD split: if_splits option.splits)
    qed (use 1 Pair c reader_next.simps [of from_str rd] in auto)
  qed
qed

definition demo_to_vec :: "bool \<Rightarrow> bytes option" where
  "demo_to_vec b = Some (if b then ''{}'' else ''[]'')"

definition demo_from_str :: "string \<Rightarrow> bool option" where
  "demo_from_str s = (if s = ''{}'' then Some True else if s = ''[]'' then Some False else None)"

theorem records_read_back_witness:
  "\<exists>s. records_to_string demo_to_vec [True, False] = Inr s \<and> read_str demo_from_str (s @ ''{'') = [True, False]"
proof -
  have t: "trim ''{}'' = ''{}''" "trim ''[]'' = ''[]''" "trim ''{'' = ''{''"
    by (rule trim_graphic_ends; simp add: is_ascii_graphic_def byte_val_def)+
  have "json_laws demo_to_vec demo_from_str v" for v
    using t by (cases v) (simp_all add: json_laws_def demo_to_vec_def demo_from_str_def valid_utf8_ascii byte_val_def)
  then show ?thesis using records_read_back [of "[True, False]" demo_to_vec demo_from_str "''{''"] t
    by (simp add: demo_from_str_def LF_def)
qed

section \<open>Pages are bounded\<close>

text \<open>What a page is after any pushes: rows that were handed in, each with its newline.\<close>

definition page_holds :: "bytes list \<Rightarrow> page \<Rightarrow> bool" where
  "page_holds js p \<longleftrightarrow> pg_buf p = concat (map (\<lambda>j. j @ [LF]) js) \<and> pg_rows p = length js"

definition page_bounded :: "page \<Rightarrow> bool" where
  "page_bounded p \<longleftrightarrow> pg_rows p \<le> max_rows (pg_limits p) \<and> length (pg_buf p) \<le> MAX_PAGE_BYTES \<and>
     (1 < pg_rows p \<longrightarrow> length (pg_buf p) \<le> max_bytes (pg_limits p))"

lemma push_cases:
  obtains (full) "push row p = (Inr Full, p)"
    "max_rows (pg_limits p) \<le> pg_rows p \<or>
       pg_rows p \<noteq> 0 \<and> (\<exists>json. row = Some json \<and> max_bytes (pg_limits p) < length (pg_buf p) + length json + 1)"
  | (refused) e where "push row p = (Inl e, p)"
    "row = None \<or> (\<exists>json. row = Some json \<and> (json = [] \<or> hd json \<noteq> CHR ''{'' \<or> pg_rows p = 0 \<and> MAX_PAGE_BYTES < length json + 1))"
  | (added) json where "row = Some json" "json \<noteq> []" "hd json = CHR ''{''" "pg_rows p < max_rows (pg_limits p)"
    "pg_rows p = 0 \<Longrightarrow> length json + 1 \<le> MAX_PAGE_BYTES"
    "pg_rows p \<noteq> 0 \<Longrightarrow> length (pg_buf p) + length json + 1 \<le> max_bytes (pg_limits p)"
    "push row p = (Inr Added, p\<lparr>pg_buf := pg_buf p @ json @ [LF], pg_rows := pg_rows p + 1\<rparr>)"
proof -
  let ?rows = "max_rows (pg_limits p) \<le> pg_rows p"
  consider "?rows" | "\<not> ?rows" "row = None"
    | json where "\<not> ?rows" "row = Some json" "json = [] \<or> hd json \<noteq> CHR ''{''"
    | json where "\<not> ?rows" "row = Some json" "json \<noteq> []" "hd json = CHR ''{''" "pg_rows p = 0" "MAX_PAGE_BYTES < length json + 1"
    | json where "\<not> ?rows" "row = Some json" "json \<noteq> []" "hd json = CHR ''{''" "pg_rows p \<noteq> 0"
        "max_bytes (pg_limits p) < length (pg_buf p) + length json + 1"
    | json where "\<not> ?rows" "row = Some json" "json \<noteq> []" "hd json = CHR ''{''"
        "pg_rows p = 0 \<longrightarrow> length json + 1 \<le> MAX_PAGE_BYTES"
        "pg_rows p \<noteq> 0 \<longrightarrow> length (pg_buf p) + length json + 1 \<le> max_bytes (pg_limits p)"
    by (cases row) (force simp: not_less)+
  then show ?thesis
  proof cases
    case 1
    then show ?thesis by (intro full) (simp_all add: push_def)
  next
    case 2
    then show ?thesis by (intro refused) (simp_all add: push_def)
  next
    case (3 json)
    then show ?thesis by (intro refused) (auto simp: push_def)
  next
    case (4 json)
    then show ?thesis by (intro refused) (simp_all add: push_def)
  next
    case (5 json)
    then show ?thesis by (intro full) (simp_all add: push_def)
  next
    case (6 json)
    then show ?thesis by (intro added [of json]) (auto simp: push_def)
  qed
qed

definition push_all :: "bytes option list \<Rightarrow> page \<Rightarrow> page" where
  "push_all rows p = foldl (\<lambda>p row. snd (push row p)) p rows"

lemma push_keeps:
  assumes "page_holds js p" "page_bounded p" "max_bytes (pg_limits p) \<le> MAX_PAGE_BYTES"
  shows "pg_limits (snd (push row p)) = pg_limits p \<and> page_bounded (snd (push row p)) \<and>
     (page_holds js (snd (push row p)) \<or> (\<exists>json. row = Some json \<and> page_holds (js @ [json]) (snd (push row p))))"
proof (cases rule: push_cases [of row p])
  case (added json)
  then have "length (pg_buf p) + length json + 1 \<le> MAX_PAGE_BYTES" using assms
    by (cases "pg_rows p = 0") (auto simp: page_holds_def)
  then show ?thesis using added assms by (auto simp: page_holds_def page_bounded_def)
qed (use assms in auto)

lemma push_all_keeps:
  assumes "page_holds js p" "page_bounded p" "max_bytes (pg_limits p) \<le> MAX_PAGE_BYTES"
  shows "pg_limits (push_all rows p) = pg_limits p \<and> page_bounded (push_all rows p) \<and>
     (\<exists>ks. subseq (map Some ks) rows \<and> page_holds (js @ ks) (push_all rows p))"
  using assms
proof (induction rows arbitrary: js p)
  case Nil
  then show ?case by (auto simp: push_all_def intro: exI [of _ "[]"])
next
  case (Cons row rows)
  let ?q = "snd (push row p)"
  from push_keeps [OF Cons.prems, of row]
  obtain ks where k: "page_holds (js @ ks) ?q" "subseq (map Some ks) [row]"
    and q: "pg_limits ?q = pg_limits p" "page_bounded ?q"
    by (metis append_Nil2 list.map(1) list.map(2) list_emb_Nil subseq_order.order_refl)
  from Cons.IH [OF k(1) q(2)] q(1) Cons.prems(3)
  obtain ms where "pg_limits (push_all rows ?q) = pg_limits p" "page_bounded (push_all rows ?q)"
    "subseq (map Some ms) rows" "page_holds ((js @ ks) @ ms) (push_all rows ?q)" by auto
  moreover have "push_all (row # rows) p = push_all rows ?q" by (simp add: push_all_def)
  moreover have "subseq (map Some (ks @ ms)) (row # rows)"
    using list_emb_append_mono [OF k(2) calculation(3)] by simp
  ultimately show ?case by (metis append.assoc)
qed

text \<open>C39. A page is bounded whatever is pushed: with the limits a service can ask for, and after any
  sequence of rows, it has at most the rows of its limit, its bytes are within the byte limit except for a
  single first row, which is itself within 64 MiB, and it holds nothing but rows that were pushed, in their
  order, each ending in a newline. A push that says full or fails leaves the page as it was.\<close>

theorem page_stays_bounded:
  "let p = push_all rows (page_new (limits_new b r)) in
     pg_rows p \<le> max 1 r \<and> length (pg_buf p) \<le> MAX_PAGE_BYTES \<and>
     (1 < pg_rows p \<longrightarrow> length (pg_buf p) \<le> max 1 b) \<and>
     (\<exists>js. subseq (map Some js) rows \<and> pg_buf p = concat (map (\<lambda>j. j @ [LF]) js) \<and> pg_rows p = length js) \<and>
     (\<forall>row. fst (push row p) \<noteq> Inr Added \<longrightarrow> snd (push row p) = p)"
proof -
  let ?l = "limits_new b r"
  define p where "p = push_all rows (page_new ?l)"
  have "page_holds [] (page_new ?l)" "page_bounded (page_new ?l)" "max_bytes (pg_limits (page_new ?l)) \<le> MAX_PAGE_BYTES"
    by (simp_all add: page_holds_def page_bounded_def page_new_def limits_new_def)
  from push_all_keeps [OF this, of rows]
  have "pg_limits p = ?l" "page_bounded p" "\<exists>js. subseq (map Some js) rows \<and> page_holds js p"
    by (simp_all add: p_def page_new_def)
  moreover have "snd (push row p) = p" if "fst (push row p) \<noteq> Inr Added" for row
    using that by (cases rule: push_cases [of row p]) auto
  ultimately show ?thesis unfolding Let_def p_def [symmetric]
    by (auto simp: page_bounded_def page_holds_def limits_new_def max.commute)
qed

theorem page_stays_bounded_witness:
  "let p = push_all [Some ''{}''] (page_new (limits_new 4 9)) in
     pg_rows p = 1 \<and> length (pg_buf p) \<le> MAX_PAGE_BYTES \<and> push (Some ''{}'') p = (Inr Full, p)"
proof -
  define p where "p = push_all [Some ''{}''] (page_new (limits_new 4 9))"
  have p: "pg_rows p = 1" "fst (push (Some ''{}'') p) = Inr Full"
    by (simp_all add: p_def push_all_def push_def page_new_def limits_new_def MAX_PAGE_BYTES_def)
  from page_stays_bounded [of "[Some ''{}'']" 4 9, folded p_def]
  have "length (pg_buf p) \<le> MAX_PAGE_BYTES" "snd (push (Some ''{}'') p) = p" using p(2) by (simp_all add: Let_def)
  then show ?thesis using p unfolding p_def [symmetric] Let_def by (simp add: prod_eq_iff)
qed

section \<open>The link to the next page\<close>

lemma query_safe_special:
  "query_safe CHR ''%''" "query_safe CHR ''+''" "query_safe CHR ''=''" "\<not> query_safe CHR ''&''" "\<not> query_safe CHR ''>''"
  by (simp_all add: query_safe_def ascii_class_defs byte_val_def)

lemma hex_digit_safe: "hex_digit c = Some n \<Longrightarrow> query_safe c"
  by (auto simp: hex_digit_def query_safe_def ascii_class_defs Let_def split: if_splits)

lemma HEX_safe: "n < 16 \<Longrightarrow> query_safe (HEX ! n)"
  using hex_digit_HEX hex_digit_safe by blast

lemma link_pair_simps [simp]:
  "link_pair [] = []" "link_pair (b # s) = link_byte b @ link_pair s" "link_pair (s @ t) = link_pair s @ link_pair t"
  by (simp_all add: link_pair_def)

lemma link_byte_safe: "c \<in> set (link_byte b) \<Longrightarrow> query_safe c"
  using byte_split [of b] by (auto simp: link_byte_def percent_def HEX_safe query_safe_special split: if_splits)

lemma link_pair_safe: "c \<in> set (link_pair s) \<Longrightarrow> query_safe c"
  by (induction s) (auto dest: link_byte_safe)

lemma link_byte_eq: "CHR ''='' \<in> set (link_byte b) \<longleftrightarrow> b = CHR ''=''"
  using HEX_class [OF byte_split(1), of b] HEX_class [OF byte_split(2), of b]
  by (auto simp: link_byte_def percent_def query_safe_special)

lemma link_pair_eq: "CHR ''='' \<in> set (link_pair s) \<longleftrightarrow> CHR ''='' \<in> set s"
  by (induction s) (auto simp: link_byte_eq)

lemma link_pair_split: "split_once CHR ''='' (link_pair s) = map_option (map_prod link_pair link_pair) (split_once CHR ''='' s)"
proof (cases "split_once CHR ''='' s")
  case None
  then have "split_once CHR ''='' (link_pair s) = None" by (simp add: split_once_None link_pair_eq)
  then show ?thesis using None by simp
next
  case (Some kv)
  then obtain k v where kv: "kv = (k, v)" "s = k @ CHR ''='' # v" "CHR ''='' \<notin> set k"
    by (cases kv) (simp add: split_once_Some)
  then have "link_pair s = link_pair k @ CHR ''='' # link_pair v"
    by (simp add: link_byte_def query_safe_special)
  then have "split_once CHR ''='' (link_pair s) = Some (link_pair k, link_pair v)"
    using kv(3) by (simp add: split_once_Some link_pair_eq)
  then show ?thesis using Some kv(1) by simp
qed

lemma decode_percent_plain:
  "\<nexists>x y r. t = x # y # r \<and> hex_digit x \<noteq> None \<and> hex_digit y \<noteq> None \<Longrightarrow>
   decode_loop (CHR ''%'' # t) = CHR ''%'' # decode_loop t"
  by (subst decode_loop.simps(2)) (auto simp del: decode_loop.simps split: list.splits option.splits)

lemma hex_digit_percent: "hex_digit CHR ''%'' = None"
  by (simp add: hex_digit_def byte_val_def)

lemma link_byte_hd: "\<exists>x t. link_byte b = x # t \<and> (hex_digit x \<noteq> None \<longrightarrow> x = b \<and> t = [])"
  by (auto simp: link_byte_def percent_def hex_digit_percent)

lemma link_pair_hex:
  assumes "link_pair t = x # y # r" "hex_digit x \<noteq> None" "hex_digit y \<noteq> None"
  shows "\<exists>r'. t = x # y # r'"
proof -
  from assms(1) obtain b t1 where t: "t = b # t1" by (cases t) auto
  from link_byte_hd [of b] t assms(1,2) have b: "b = x" "link_pair t1 = y # r" by auto
  from b(2) obtain c t2 where t1: "t1 = c # t2" by (cases t1) auto
  from link_byte_hd [of c] t1 b(2) assms(3) have "c = y" by auto
  then show ?thesis using t t1 b by simp
qed

lemma decode_link: "decode_loop (link_pair s) = decode_loop s"
proof (induction "length s" arbitrary: s rule: less_induct)
  case less
  show ?case
  proof (cases s)
    case (Cons b bs)
    have ih: "decode_loop (link_pair t) = decode_loop t" if "length t < length s" for t using less that by blast
    consider (plain) "query_safe b" "b \<noteq> CHR ''%''" | (escaped) "\<not> query_safe b"
      | (hex) x y r where "b = CHR ''%''" "bs = x # y # r" "hex_digit x \<noteq> None" "hex_digit y \<noteq> None"
      | (percent) "b = CHR ''%''" "\<nexists>x y r. bs = x # y # r \<and> hex_digit x \<noteq> None \<and> hex_digit y \<noteq> None"
      by blast
    then show ?thesis
    proof cases
      case plain
      then show ?thesis using Cons ih [of bs] by (simp add: link_byte_def)
    next
      case escaped
      then have "b \<noteq> CHR ''+''" "b \<noteq> CHR ''%''" by (auto simp: query_safe_special)
      then show ?thesis using Cons ih [of bs] escaped by (simp add: link_byte_def decode_percent)
    next
      case hex
      then have "query_safe x" "query_safe y" by (auto dest: hex_digit_safe)
      then show ?thesis using Cons hex ih [of r] by (auto simp: link_byte_def query_safe_special)
    next
      case percent
      then have "\<nexists>x y r. link_pair bs = x # y # r \<and> hex_digit x \<noteq> None \<and> hex_digit y \<noteq> None"
        using link_pair_hex by blast
      moreover have "link_pair s = CHR ''%'' # link_pair bs" using Cons percent by (simp add: link_byte_def query_safe_special)
      ultimately have "decode_loop (link_pair s) = CHR ''%'' # decode_loop (link_pair bs)"
        by (metis decode_percent_plain)
      then show ?thesis using Cons percent(1) decode_percent_plain [OF percent(2)] ih [of bs] by simp
    qed
  qed simp
qed

lemma url_decode_link: "url_decode (link_pair s) = url_decode s"
  by (simp add: url_decode_def decode_link)

lemma link_pair_key:
  assumes "list_all is_ascii_alphanumeric key"
  shows "link_pair k = key \<longleftrightarrow> k = key"
proof -
  have key: "link_pair key = key" using assms
    by (induction key) (auto simp: link_byte_def query_safe_def)
  have "CHR ''%'' \<notin> set key" using assms by (auto simp: list_all_iff ascii_class_defs byte_val_def)
  moreover have "link_pair k = k" if "CHR ''%'' \<notin> set (link_pair k)"
    using that by (induction k) (auto simp: link_byte_def percent_def split: if_splits)
  ultimately show ?thesis using key by auto
qed

definition pair_value :: "string \<Rightarrow> string" where
  "pair_value pair = (case split_once CHR ''='' pair of Some (_, v) \<Rightarrow> v | None \<Rightarrow> [])"

lemma single_query_loop_Cons:
  "single_query_loop key found (pair # pairs) =
     (if pair_key pair = key then
        (if found \<noteq> None then Inl RepeatedKey else single_query_loop key (Some (pair_value pair)) pairs)
      else single_query_loop key found pairs)"
  by (auto simp: pair_key_def pair_value_def split: option.splits)

declare single_query_loop.simps(2) [simp del]
declare single_query_loop_Cons [simp]

lemma pair_link:
  assumes "list_all is_ascii_alphanumeric key"
  shows "pair_key (link_pair p) = key \<longleftrightarrow> pair_key p = key" "pair_value (link_pair p) = link_pair (pair_value p)"
  using link_pair_key [OF assms]
  by (simp_all add: pair_key_def pair_value_def link_pair_split split: option.splits prod.splits)

lemma single_query_loop_link:
  "list_all is_ascii_alphanumeric key \<Longrightarrow>
   single_query_loop key (map_option link_pair found) (map link_pair ps) =
     map_sum id (map_option link_pair) (single_query_loop key found ps)"
proof (induction ps arbitrary: found)
  case (Cons p ps)
  then show ?case using Cons.IH [of "Some (pair_value p)"] by (simp add: pair_link)
qed simp

lemma single_query_loop_filter:
  "\<forall>p \<in> set ps. \<not> P p \<longrightarrow> pair_key p \<noteq> key \<Longrightarrow> single_query_loop key found (filter P ps) = single_query_loop key found ps"
  by (induction ps arbitrary: found) auto

lemma single_query_loop_other:
  "pair_key p \<noteq> key \<Longrightarrow> single_query_loop key found (ps @ [p]) = single_query_loop key found ps"
  by (induction ps arbitrary: found) auto

lemma single_query_loop_last:
  "\<forall>p \<in> set ps. pair_key p \<noteq> pair_key q \<Longrightarrow> single_query_loop (pair_key q) None (ps @ [q]) = Inr (Some (pair_value q))"
  by (induction ps) auto

text \<open>The client's side: the query of the target of a \<open>Link\<close> field, which ends at the closing bracket.\<close>

definition link_query :: "string \<Rightarrow> string option" where
  "link_query l = map_option (takeWhile (\<lambda>c. c \<noteq> CHR ''>'')) (strip_prefix ''<?'' l)"

definition kept_pairs :: "string \<Rightarrow> string list" where
  "kept_pairs q = filter (\<lambda>p. pair_key p \<noteq> CURSOR_PARAM) (filter (\<lambda>p. p \<noteq> []) (split_on CHR ''&'' q))"

definition next_query :: "string \<Rightarrow> cursor \<Rightarrow> string" where
  "next_query q c = concat (map (\<lambda>p. link_pair p @ ''&'') (kept_pairs q)) @ CURSOR_PARAM @ ''='' @ cursor_str c"

definition cursor_wf :: "cursor \<Rightarrow> bool" where
  "cursor_wf c \<longleftrightarrow> cursor_new (cursor_str c) = Inr c"

lemma cursor_char_safe: "cursor_char b \<Longrightarrow> query_safe b"
  by (auto simp: cursor_char_def query_safe_def)

lemma cursor_wf_chars: "cursor_wf c \<Longrightarrow> list_all cursor_char (cursor_str c)"
  by (auto simp: cursor_wf_def cursor_new_def split: if_splits)

lemma next_query_chars: "cursor_wf c \<Longrightarrow> b \<in> set (next_query q c) \<Longrightarrow> query_safe b \<or> b = CHR ''&''"
proof -
  assume "cursor_wf c" "b \<in> set (next_query q c)"
  then have "b \<in> set CURSOR_PARAM \<or> b = CHR ''='' \<or> cursor_char b \<or> (\<exists>p. b \<in> set (link_pair p)) \<or> b = CHR ''&''"
    using cursor_wf_chars [of c] by (auto simp: next_query_def list_all_iff split: if_splits)
  moreover have "\<forall>b \<in> set CURSOR_PARAM. query_safe b" by (simp add: CURSOR_PARAM_def query_safe_def ascii_class_defs byte_val_def)
  ultimately show ?thesis using cursor_char_safe link_pair_safe query_safe_special(3) by blast
qed

lemma link_query_next_link:
  assumes "cursor_wf c"
  shows "link_query (next_link q c) = Some (next_query q c)"
proof -
  have l: "next_link q c = ''<?'' @ next_query q c @ CHR ''>'' # (''; rel='' @ [CHR 34] @ ''next'' @ [CHR 34])"
    by (simp add: next_link_def next_query_def kept_pairs_def)
  have "CHR ''>'' \<notin> set (next_query q c)" using next_query_chars [OF assms, of "CHR ''>''" q] by (auto simp: query_safe_special)
  then show ?thesis unfolding link_query_def l strip_prefix_append
    by (simp add: takeWhile_append)
qed

lemma split_next_query:
  assumes "cursor_wf c"
  shows "split_on CHR ''&'' (next_query q c) = map link_pair (kept_pairs q) @ [CURSOR_PARAM @ ''='' @ cursor_str c]"
proof -
  have "CHR ''&'' \<notin> set (CURSOR_PARAM @ ''='' @ cursor_str c)"
    using cursor_wf_chars [OF assms] by (auto simp: CURSOR_PARAM_def list_all_iff cursor_char_def ascii_class_defs byte_val_def)
  moreover have "CHR ''&'' \<notin> set (link_pair p)" for p using link_pair_safe query_safe_special by blast
  ultimately have "split_on CHR ''&'' (concat (map (\<lambda>p. link_pair p @ ''&'') ps) @ CURSOR_PARAM @ ''='' @ cursor_str c) =
      map link_pair ps @ [CURSOR_PARAM @ ''='' @ cursor_str c]" for ps
    by (induction ps) (simp_all add: split_on_append split_on_no_delim)
  then show ?thesis by (simp add: next_query_def)
qed

lemma cursor_pair: "pair_key (CURSOR_PARAM @ CHR ''='' # s) = CURSOR_PARAM" "pair_value (CURSOR_PARAM @ CHR ''='' # s) = s"
  by (simp_all add: pair_key_def pair_value_def CURSOR_PARAM_def)

lemma next_query_cursor:
  assumes "cursor_wf c"
  shows "cursor_from_query (next_query q c) = Inr (Some c)"
proof -
  have "\<forall>p \<in> set (map link_pair (kept_pairs q)). pair_key p \<noteq> CURSOR_PARAM"
    using pair_link(1) [of CURSOR_PARAM] by (auto simp: kept_pairs_def CURSOR_PARAM_def ascii_class_defs byte_val_def)
  then have "single_query_value (next_query q c) CURSOR_PARAM = Inr (Some (cursor_str c))"
    using single_query_loop_last [of "map link_pair (kept_pairs q)" "CURSOR_PARAM @ ''='' @ cursor_str c"]
    by (simp add: single_query_value_def split_next_query [OF assms] cursor_pair)
  then show ?thesis using assms by (simp add: cursor_from_query_def cursor_wf_def)
qed

lemma next_query_other:
  assumes "cursor_wf c" "list_all is_ascii_alphanumeric key" "key \<noteq> []" "key \<noteq> CURSOR_PARAM"
  shows "single_query_value (next_query q c) key = map_sum id (map_option link_pair) (single_query_value q key)"
proof -
  have "single_query_loop key None (kept_pairs q) = single_query_value q key"
    using assms(3,4) unfolding kept_pairs_def single_query_value_def
    by (simp add: single_query_loop_filter pair_key_def)
  then show ?thesis
    using single_query_loop_link [OF assms(2), of None "kept_pairs q"] assms(4)
    by (simp add: single_query_value_def split_next_query [OF assms(1)] single_query_loop_other cursor_pair)
qed

lemma next_query_single:
  assumes "cursor_wf c" "list_all is_ascii_alphanumeric key" "key \<noteq> []" "key \<noteq> CURSOR_PARAM"
  shows "single (next_query q c) key = single q key"
  using next_query_other [OF assms]
  by (auto simp: single_def url_decode_link split: sum.splits option.splits)

lemma next_query_range:
  assumes "cursor_wf c"
  shows "range_from_query chrono (next_query q c) m = range_from_query chrono q m"
proof -
  have "single (next_query q c) ''from'' = single q ''from''" "single (next_query q c) ''to'' = single q ''to''"
    by (intro next_query_single [OF assms]; simp add: CURSOR_PARAM_def ascii_class_defs byte_val_def)+
  then show ?thesis unfolding range_from_query_def by (simp only:)
qed

text \<open>Following a page's link asks the same question from where the page stopped: whatever the query of
  the request was, the target of the \<open>Link\<close> field is well formed (only bytes a URI query may carry), its
  query carries exactly the one cursor the service made, and every other single parameter, the time range
  included, is read from it as it was from the query of the request.\<close>

theorem next_link_roundtrip:
  assumes "cursor_new s = Inr c"
  shows "\<exists>q'. link_query (next_link q c) = Some q' \<and> cursor_from_query q' = Inr (Some c) \<and>
     range_from_query chrono q' m = range_from_query chrono q m \<and>
     (\<forall>key. list_all is_ascii_alphanumeric key \<and> key \<noteq> [] \<and> key \<noteq> CURSOR_PARAM \<longrightarrow> single q' key = single q key) \<and>
     (\<forall>b \<in> set q'. query_safe b \<or> b = CHR ''&'')"
proof -
  have "cursor_wf c" using assms by (auto simp: cursor_wf_def cursor_new_def split: if_splits)
  then show ?thesis
    by (intro exI [of _ "next_query q c"])
       (simp add: link_query_next_link next_query_cursor next_query_range next_query_single next_query_chars)
qed

theorem next_link_roundtrip_witness:
  "\<exists>q'. link_query (next_link ''cursor=1-1&node=a b'' (Cursor ''5-7'')) = Some q' \<and>
     cursor_from_query q' = Inr (Some (Cursor ''5-7''))"
  using next_link_roundtrip [of "''5-7''" "Cursor ''5-7''" "''cursor=1-1&node=a b''" "\<lambda>_. None" 0]
  by (auto simp: cursor_new_def MAX_CURSOR_LEN_def cursor_char_def ascii_class_defs byte_val_def)

section \<open>Ranges as integers\<close>

lemma parse_utc_nonneg: "parse_utc chrono v n = Inr t \<Longrightarrow> 0 \<le> t"
  by (auto simp: parse_utc_def split: if_splits option.splits)

lemma range_from_query_Inr:
  assumes "range_from_query chrono q m = Inr r"
  shows "0 \<le> tr_from r \<and> tr_from r < tr_to r \<and> tr_to r \<le> tr_from r + int m"
  using assms by (auto simp: range_from_query_def dest: parse_utc_nonneg split: sum.splits if_splits)

lemma ceil_div_less:
  assumes "0 \<le> n" "0 < d" "t < i64_max"
  shows "t < ceil_div (nanos n) d \<longleftrightarrow> t * int d < n"
proof -
  have "t < int ((nat n + d - 1) div d) \<longleftrightarrow> t * int d < n"
  proof (cases "t < 0")
    case True
    then have "t * int d < 0" using assms(2) by (simp add: mult_neg_pos)
    moreover have "t < int ((nat n + d - 1) div d)" using True by linarith
    ultimately show ?thesis using assms(1) by simp
  next
    case False
    then obtain k where k: "t = int k" using nonneg_int_cases by (metis linorder_not_less)
    obtain j where n: "n = int j" using assms(1) nonneg_int_cases by blast
    have "k < (j + d - 1) div d \<longleftrightarrow> k * d < j"
      using less_eq_div_iff_mult_less_eq [OF assms(2), of "Suc k" "j + d - 1"] assms(2) by auto
    then show ?thesis by (simp add: k n flip: of_nat_mult)
  qed
  then show ?thesis using assms(3) by (simp add: ceil_div_def nanos_def)
qed

lemma ceil_div_le:
  assumes "0 \<le> n" "0 < d" "t < i64_max"
  shows "ceil_div (nanos n) d \<le> t \<longleftrightarrow> n \<le> t * int d"
  using ceil_div_less [OF assms] by (simp add: not_less [symmetric])

text \<open>An accepted time range means what it says: it starts at or after the epoch, is not empty and not
  longer than the limit, and its integer bounds are exact: a timestamp in whole milliseconds (or seconds) is
  between the rounded bounds, the lower one included and the upper one not, exactly when that instant lies in
  the half-open range, up to the largest 64-bit value.\<close>

theorem range_bounds_exact:
  assumes "range_from_query chrono q m = Inr r"
  shows "0 \<le> tr_from r \<and> 0 < range_span r \<and> range_span r \<le> m \<and>
     (\<forall>t < i64_max. (from_unix_ms r \<le> t \<and> t < to_unix_ms r) = range_contains r (t * 1000000) \<and>
                     (from_unix_s r \<le> t \<and> t < to_unix_s r) = range_contains r (t * 1000000000))"
proof -
  note r = range_from_query_Inr [OF assms]
  have "(from_unix_ms r \<le> t \<and> t < to_unix_ms r) = range_contains r (t * 1000000)" if "t < i64_max" for t
    using r ceil_div_le [of "tr_from r" 1000000 t] ceil_div_less [of "tr_to r" 1000000 t] that
    by (simp add: from_unix_ms_def to_unix_ms_def range_contains_def)
  moreover have "(from_unix_s r \<le> t \<and> t < to_unix_s r) = range_contains r (t * 1000000000)" if "t < i64_max" for t
    using r ceil_div_le [of "tr_from r" 1000000000 t] ceil_div_less [of "tr_to r" 1000000000 t] that
    by (simp add: from_unix_s_def to_unix_s_def range_contains_def)
  ultimately show ?thesis using r by (auto simp: range_span_def)
qed

definition demo_chrono :: rfc3339 where
  "demo_chrono v = (if v = ''1970-01-01T00:00:00.0000004Z'' then Some (0, 400)
     else if v = ''1970-01-02T00:00:00Z'' then Some (86400, 0) else None)"

definition demo_query :: string where
  "demo_query = ''from=1970-01-01T00:00:00.0000004Z&to=1970-01-02T00:00:00Z''"

lemma demo_range: "range_from_query demo_chrono demo_query DEFAULT_MAX_SPAN = Inr \<lparr>tr_from = 400, tr_to = 86400000000000\<rparr>"
proof -
  have "url_decode ''1970-01-01T00:00:00.0000004Z'' = ''1970-01-01T00:00:00.0000004Z''"
    "url_decode ''1970-01-02T00:00:00Z'' = ''1970-01-02T00:00:00Z''"
    by (simp_all add: url_decode_def from_utf8_lossy_valid valid_utf8_ascii byte_val_def)
  then have "single demo_query ''from'' = Inr ''1970-01-01T00:00:00.0000004Z''" "single demo_query ''to'' = Inr ''1970-01-02T00:00:00Z''"
    by (simp_all add: single_def single_query_value_def demo_query_def pair_key_def pair_value_def)
  then show ?thesis
    by (simp add: range_from_query_def parse_utc_def demo_chrono_def ends_with_def strip_suffix_def DEFAULT_MAX_SPAN_def)
qed

theorem range_bounds_exact_witness:
  "\<exists>r. range_from_query demo_chrono demo_query DEFAULT_MAX_SPAN = Inr r \<and>
     0 < range_span r \<and> (from_unix_ms r \<le> 0 \<and> 0 < to_unix_ms r) = range_contains r 0"
  using range_bounds_exact [OF demo_range] demo_range by force

end
