(* ===== verification/History_Pages.thy ===== *)
theory History_Pages
  imports Log_Pages "HOL-Library.Product_Lexorder" "HOL-Library.Multiset"
begin

text \<open>
  The read side of the monitor's history: \<open>crawl_page\<close> and \<open>fill_page\<close> of \<open>m6-monitor/src/history.rs\<close> and the
  handler \<open>paged\<close> of \<open>m6-monitor/src/main.rs\<close> that answers \<open>/history\<close> and \<open>/crawlers\<close>.

  The database is its tables, each the list of its rows, and a connection is the database it reads and the
  error its statements fail with, if they do. A query is the list comprehension its SQL text spells. Rows
  become JSON through \<open>serde_json\<close>, which is the parameter \<open>ser\<close>.
\<close>

section \<open>The database\<close>

record window_row =
  cw_id :: int
  cw_poll_id :: int
  cw_at_ms :: int
  cw_node_id :: int
  cw_window_minutes :: int
  cw_total_requests :: int
  cw_forged_bot_requests :: int
  cw_forgers :: string
  cw_sightings_dropped :: int

record status_row =
  cs_window_id :: int
  cs_code :: int
  cs_requests :: int

record sighting_row =
  sg_window_id :: int
  sg_agent_id :: int
  sg_requests :: int
  sg_client_ips :: string
  sg_paths :: string

record history_db =
  db_node :: "(int \<times> string) list"
  db_agent :: "(int \<times> string) list"
  db_crawl_window :: "window_row list"
  db_crawl_status :: "status_row list"
  db_crawl_sighting :: "sighting_row list"

record connection =
  cn_db :: history_db
  cn_fail :: "string option"

type_synonym row_key = "int \<times> int"

section \<open>Crawler windows\<close>

record sighting_out =
  so_user_agent :: string
  so_requests :: int
  so_client_ips :: "string list"
  so_paths :: "string list"

record crawl_out =
  co_id :: int
  co_at :: int
  co_at_unix_ms :: int
  co_node :: string
  co_window_minutes :: int
  co_total_requests :: int
  co_status :: "(int \<times> int) list"
  co_forged_bot_requests :: int
  co_forgers :: "string list"
  co_crawlers :: "sighting_out list"
  co_sightings_dropped :: int

definition crawl_key :: "crawl_out \<Rightarrow> row_key" where
  "crawl_key r = (co_at_unix_ms r, co_id r)"

text \<open>\<open>serde_json::from_str\<close> of a list of strings is the parameter \<open>js\<close>.\<close>

definition json_list :: "(string \<Rightarrow> string list option) \<Rightarrow> string \<Rightarrow> string list" where
  "json_list js s = (case js s of Some l \<Rightarrow> l | None \<Rightarrow> [])"

text \<open>The clauses on the time, the node and the row to start at.\<close>

definition in_page :: "int \<Rightarrow> int \<Rightarrow> int option \<Rightarrow> row_key option \<Rightarrow> int \<Rightarrow> int \<Rightarrow> int \<Rightarrow> bool" where
  "in_page from_ms to_ms node start at_ms i node_id \<longleftrightarrow>
     from_ms \<le> at_ms \<and> at_ms < to_ms \<and> (node = None \<or> Some node_id = node) \<and>
     (case start of None \<Rightarrow> True | Some (a, k) \<Rightarrow> a < at_ms \<or> at_ms = a \<and> k \<le> i)"

definition select_windows :: "history_db \<Rightarrow> int \<Rightarrow> int \<Rightarrow> int option \<Rightarrow> row_key option \<Rightarrow> nat \<Rightarrow> (window_row \<times> string) list" where
  "select_windows db from_ms to_ms node start rows =
     take rows (sort_key (\<lambda>(w, _). (cw_at_ms w, cw_id w))
       [(w, name). w \<leftarrow> db_crawl_window db, (n, name) \<leftarrow> db_node db, n = cw_node_id w,
          in_page from_ms to_ms node start (cw_at_ms w) (cw_id w) (cw_node_id w)])"

definition window_out :: "(string \<Rightarrow> string list option) \<Rightarrow> window_row \<times> string \<Rightarrow> crawl_out" where
  "window_out js = (\<lambda>(w, name).
     \<lparr>co_id = cw_id w, co_at = cw_at_ms w, co_at_unix_ms = cw_at_ms w, co_node = name,
      co_window_minutes = cw_window_minutes w, co_total_requests = cw_total_requests w, co_status = [],
      co_forged_bot_requests = cw_forged_bot_requests w, co_forgers = json_list js (cw_forgers w),
      co_crawlers = [], co_sightings_dropped = cw_sightings_dropped w\<rparr>)"

text \<open>The map from an id to its place in the page, and adding a child to the row it belongs to.\<close>

definition row_index :: "int list \<Rightarrow> int \<Rightarrow> nat option" where
  "row_index ids = map_of (rev (zip ids [0..<length ids]))"

definition attach :: "(int \<Rightarrow> nat option) \<Rightarrow> ('c \<Rightarrow> int) \<Rightarrow> ('c \<Rightarrow> 'r \<Rightarrow> 'r) \<Rightarrow> 'c list \<Rightarrow> 'r list \<Rightarrow> 'r list" where
  "attach index parent add children out = foldl (\<lambda>out c. case index (parent c) of
     Some k \<Rightarrow> out[k := add c (out ! k)]
   | None \<Rightarrow> out) out children"

fun code_insert :: "int \<Rightarrow> int \<Rightarrow> (int \<times> int) list \<Rightarrow> (int \<times> int) list" where
  "code_insert k v [] = [(k, v)]"
| "code_insert k v ((a, b) # m) =
     (if k < a then (k, v) # (a, b) # m
      else if k = a then (k, v) # m
      else (a, b) # code_insert k v m)"

definition add_status :: "status_row \<Rightarrow> crawl_out \<Rightarrow> crawl_out" where
  "add_status s r = r\<lparr>co_status := code_insert (cs_code s) (cs_requests s) (co_status r)\<rparr>"

definition select_status :: "history_db \<Rightarrow> int list \<Rightarrow> status_row list" where
  "select_status db ids = [s \<leftarrow> db_crawl_status db. cs_window_id s \<in> set ids]"

definition status_fits :: "status_row \<Rightarrow> bool" where
  "status_fits s \<longleftrightarrow> 0 \<le> cs_code s \<and> cs_code s < 2 ^ 16"

definition select_sightings :: "history_db \<Rightarrow> int list \<Rightarrow> (sighting_row \<times> string) list" where
  "select_sightings db ids = sort_key (\<lambda>(s, ua). (sg_window_id s, - sg_requests s, ua))
     [(s, ua). s \<leftarrow> db_crawl_sighting db, (a, ua) \<leftarrow> db_agent db, a = sg_agent_id s, sg_window_id s \<in> set ids]"

definition add_sighting :: "(string \<Rightarrow> string list option) \<Rightarrow> sighting_row \<times> string \<Rightarrow> crawl_out \<Rightarrow> crawl_out" where
  "add_sighting js = (\<lambda>(s, ua) r. r\<lparr>co_crawlers := co_crawlers r @
     [\<lparr>so_user_agent = ua, so_requests = sg_requests s, so_client_ips = json_list js (sg_client_ips s),
       so_paths = json_list js (sg_paths s)\<rparr>]\<rparr>)"

definition crawl_page ::
  "(string \<Rightarrow> string list option) \<Rightarrow> connection \<Rightarrow> int \<Rightarrow> int \<Rightarrow> int option \<Rightarrow> row_key option \<Rightarrow> nat \<Rightarrow> string + crawl_out list" where
  "crawl_page js conn from_ms to_ms node start rows = (case cn_fail conn of
     Some e \<Rightarrow> Inl e
   | None \<Rightarrow>
      (let db = cn_db conn;
           out = map (window_out js) (select_windows db from_ms to_ms node start rows);
           ids = map co_id out; index = row_index ids
       in if out = [] then Inr out
          else if \<exists>s \<in> set (select_status db ids). \<not> status_fits s then Inl ''out of range integral type conversion attempted''
          else Inr (attach index (\<lambda>c. sg_window_id (fst c)) (add_sighting js) (select_sightings db ids)
                     (attach index cs_window_id add_status (select_status db ids) out))))"

section \<open>Cursors\<close>

text \<open>\<open>str::parse\<close> for \<open>i64\<close>.\<close>

definition parse_i64 :: "string \<Rightarrow> int option" where
  "parse_i64 s =
     (let (neg, ds) = (case s of
            [] \<Rightarrow> (False, [])
          | c # r \<Rightarrow> if c = CHR ''-'' then (True, r) else if c = CHR ''+'' then (False, r) else (False, s));
          v = (if neg then - int (digits_val 0 ds) else int (digits_val 0 ds))
      in if ds = [] \<or> \<not> list_all is_ascii_digit ds then None
         else if - (2 ^ 63) \<le> v \<and> v \<le> i64_max then Some v else None)"

definition parse_cursor :: "string \<Rightarrow> row_key option" where
  "parse_cursor s = (case split_once CHR ''-'' s of
     None \<Rightarrow> None
   | Some (a, b) \<Rightarrow> (case (parse_i64 a, parse_i64 b) of
       (Some x, Some y) \<Rightarrow> Some (x, y)
     | _ \<Rightarrow> None))"

definition cursor_text :: "row_key \<Rightarrow> string" where
  "cursor_text k = show_int (fst k) @ ''-'' @ show_int (snd k)"

definition node_param :: "string \<Rightarrow> string + string option" where
  "node_param query = (case single_query_value query ''node'' of
     Inl RepeatedKey \<Rightarrow> Inl ''`node` given more than once''
   | Inr (Some []) \<Rightarrow> Inl ''`node` is empty''
   | Inr v \<Rightarrow> Inr (map_option url_decode v))"

definition node_id :: "connection \<Rightarrow> string \<Rightarrow> string + int option" where
  "node_id conn name = (case cn_fail conn of
     Some e \<Rightarrow> Inl e
   | None \<Rightarrow> Inr (map_option fst (find (\<lambda>n. snd n = name) (db_node (cn_db conn)))))"

section \<open>Filling a page\<close>

datatype build_error = RowError io_error | CursorBuild cursor_error

datatype page_error = Db string | Build build_error

definition CHUNK_ROWS :: nat where "CHUNK_ROWS = 256"

type_synonym 'r page_fn = "connection \<Rightarrow> int \<Rightarrow> int \<Rightarrow> int option \<Rightarrow> row_key option \<Rightarrow> nat \<Rightarrow> string + 'r list"

fun push_rows :: "('r \<Rightarrow> bytes option) \<Rightarrow> 'r list \<Rightarrow> page \<Rightarrow> io_error + page \<times> 'r option" where
  "push_rows ser [] p = Inr (p, None)"
| "push_rows ser (r # rs) p = (case push (ser r) p of
     (Inl e, p') \<Rightarrow> Inl e
   | (Inr Full, p') \<Rightarrow> Inr (p', Some r)
   | (Inr Added, p') \<Rightarrow> push_rows ser rs p')"

partial_function (option) fill_loop ::
  "('r \<Rightarrow> bytes option) \<Rightarrow> ('r \<Rightarrow> row_key) \<Rightarrow> 'r page_fn \<Rightarrow> connection \<Rightarrow> int \<times> int \<Rightarrow> int option \<Rightarrow> row_key option \<Rightarrow> page \<Rightarrow>
     (page_error + page \<times> cursor option) option" where
  "fill_loop ser key read conn rng node start p =
     (case read conn (fst rng) (snd rng) node start (CHUNK_ROWS + 1) of
        Inl e \<Rightarrow> Some (Inl (Db e))
      | Inr rows \<Rightarrow> (case push_rows ser (take CHUNK_ROWS rows) p of
          Inl e \<Rightarrow> Some (Inl (Build (RowError e)))
        | Inr (p', Some r) \<Rightarrow> (case cursor_new (cursor_text (key r)) of
            Inl e \<Rightarrow> Some (Inl (Build (CursorBuild e)))
          | Inr c \<Rightarrow> Some (Inr (p', Some c)))
        | Inr (p', None) \<Rightarrow>
            if CHUNK_ROWS < length rows
            then fill_loop ser key read conn rng node (Some (key (rows ! CHUNK_ROWS))) p'
            else Some (Inr (p', None))))"

definition fill_page ::
  "('r \<Rightarrow> bytes option) \<Rightarrow> ('r \<Rightarrow> row_key) \<Rightarrow> 'r page_fn \<Rightarrow> connection \<Rightarrow> int \<times> int \<Rightarrow> int option \<Rightarrow> row_key option \<Rightarrow> page_limits \<Rightarrow>
     (page_error + page \<times> cursor option) option" where
  "fill_page ser key read conn rng node start limits = (case cn_fail conn of
     Some e \<Rightarrow> Some (Inl (Db e))
   | None \<Rightarrow> fill_loop ser key read conn rng node start (page_new limits))"

section \<open>The handler\<close>

definition plain :: "nat \<Rightarrow> string \<Rightarrow> response" where
  "plain status s = with_header (with_header (with_status (text_response s) status) ''Cache-Control'' ''no-store'')
     ''X-Content-Type-Options'' ''nosniff''"

definition unavailable :: "string \<Rightarrow> response" where
  "unavailable e = plain 503 (''history is unavailable: '' @ e @ [LF])"

text \<open>Where the page starts, and which node it is about.\<close>

definition start_of_query :: "string \<Rightarrow> response + row_key option" where
  "start_of_query query = (case cursor_from_query query of
     Inr None \<Rightarrow> Inr None
   | Inr (Some c) \<Rightarrow> (case parse_cursor (cursor_str c) of
       Some k \<Rightarrow> Inr (Some k)
     | None \<Rightarrow> Inl (cursor_error_response Malformed))
   | Inl e \<Rightarrow> Inl (cursor_error_response e))"

definition node_of :: "connection \<Rightarrow> string option \<Rightarrow> response + int option" where
  "node_of conn node = (case node of
     None \<Rightarrow> Inr None
   | Some name \<Rightarrow> (case node_id conn name of
       Inr (Some i) \<Rightarrow> Inr (Some i)
     | Inr None \<Rightarrow> Inl (refusal_response ''`node` names no node in the history'')
     | Inl e \<Rightarrow> Inl (unavailable e)))"

definition paged ::
  "rfc3339 \<Rightarrow> (string \<Rightarrow> string + connection) \<Rightarrow> ('r \<Rightarrow> bytes option) \<Rightarrow> ('r \<Rightarrow> row_key) \<Rightarrow> 'r page_fn \<Rightarrow> string option \<Rightarrow> string \<Rightarrow>
     (build_error + response) option" where
  "paged chrono open_reader ser key read history_file query = (case history_file of
     None \<Rightarrow> Some (Inr (plain 503 (''history is off: set [monitor] history_file to keep one'' @ [LF])))
   | Some path \<Rightarrow> (case range_from_query chrono query DEFAULT_MAX_SPAN of
       Inl e \<Rightarrow> Some (Inr (time_range_error_response e))
     | Inr rng \<Rightarrow> (case start_of_query query of
         Inl resp \<Rightarrow> Some (Inr resp)
       | Inr start \<Rightarrow> (case node_param query of
           Inl msg \<Rightarrow> Some (Inr (refusal_response msg))
         | Inr node \<Rightarrow> (case open_reader path of
             Inl e \<Rightarrow> Some (Inr (unavailable e))
           | Inr conn \<Rightarrow> (case node_of conn node of
               Inl resp \<Rightarrow> Some (Inr resp)
             | Inr nid \<Rightarrow>
                 map_option (\<lambda>filled. case filled of
                     Inr (p, next_cursor) \<Rightarrow> Inr (into_response p query next_cursor)
                   | Inl (Db e) \<Rightarrow> Inr (unavailable e)
                   | Inl (Build e) \<Rightarrow> Inl e)
                   (fill_page ser key read conn (from_unix_ms rng, to_unix_ms rng) nid start default_limits)))))))"

section \<open>Cursors read back\<close>

lemma show_nat_length: "0 < k \<Longrightarrow> n < 10 ^ k \<Longrightarrow> length (show_nat n) \<le> k"
proof (induction k arbitrary: n)
  case (Suc k)
  show ?case
  proof (cases "n < 10")
    case False
    then have "0 < k" using Suc.prems by (cases k) auto
    then show ?thesis using Suc False by (subst show_nat.simps) (simp add: less_mult_imp_div_less)
  qed (simp add: show_nat.simps)
qed simp

definition fits_i64 :: "int \<Rightarrow> bool" where
  "fits_i64 n \<longleftrightarrow> - (2 ^ 63) \<le> n \<and> n \<le> i64_max"

lemma show_nat_head: "show_nat n = c # r \<Longrightarrow> c \<noteq> CHR ''-'' \<and> c \<noteq> CHR ''+''"
  using show_nat_digits [of n] by (auto simp: is_ascii_digit_def byte_val_def)

lemma parse_i64_show_int: "fits_i64 n \<Longrightarrow> parse_i64 (show_int n) = Some n"
proof (cases "n < 0")
  case True
  then show "fits_i64 n \<Longrightarrow> ?thesis" using show_nat_digits [of "nat (- n)"]
    by (simp add: parse_i64_def show_int_def digits_val_show_nat fits_i64_def)
next
  case False
  obtain c r where "show_nat (nat n) = c # r" by (cases "show_nat (nat n)") auto
  then show "fits_i64 n \<Longrightarrow> ?thesis" using False show_nat_head [of "nat n" c r] show_nat_digits [of "nat n"] digits_val_show_nat [of "nat n"]
    by (simp add: parse_i64_def show_int_def fits_i64_def)
qed

lemma show_int_chars: "c \<in> set (show_int n) \<Longrightarrow> is_ascii_digit c \<or> c = CHR ''-'' \<and> n < 0"
  using show_nat_digits [of "nat n"] show_nat_digits [of "nat (- n)"] by (auto simp: show_int_def list_all_iff split: if_splits)

lemma show_int_length: "fits_i64 n \<Longrightarrow> length (show_int n) \<le> 20"
proof -
  assume "fits_i64 n"
  then have "nat n < 10 ^ 19" "nat (- n) < 10 ^ 19" by (auto simp: fits_i64_def)
  then show ?thesis using show_nat_length [of 19 "nat n"] show_nat_length [of 19 "nat (- n)"] by (simp add: show_int_def)
qed

text \<open>A key the database can hold, of a row that is not before the epoch.\<close>

definition key_fits :: "row_key \<Rightarrow> bool" where
  "key_fits k \<longleftrightarrow> 0 \<le> fst k \<and> fits_i64 (fst k) \<and> fits_i64 (snd k)"

lemma parse_cursor_text: "key_fits k \<Longrightarrow> parse_cursor (cursor_text k) = Some k"
proof -
  assume k: "key_fits k"
  then have "CHR ''-'' \<notin> set (show_int (fst k))" using show_int_chars [of "CHR ''-''" "fst k"]
    by (auto simp: key_fits_def is_ascii_digit_def byte_val_def)
  then have "split_once CHR ''-'' (cursor_text k) = Some (show_int (fst k), show_int (snd k))"
    by (simp add: cursor_text_def split_once_Some)
  then show ?thesis using k by (simp add: parse_cursor_def parse_i64_show_int key_fits_def)
qed

lemma cursor_new_text: "key_fits k \<Longrightarrow> cursor_new (cursor_text k) = Inr (Cursor (cursor_text k))"
proof -
  assume k: "key_fits k"
  have "list_all cursor_char (show_int n)" for n using show_int_chars [of _ n]
    by (auto simp: list_all_iff cursor_char_def is_ascii_alphanumeric_def)
  moreover have "cursor_char CHR ''-''" by (simp add: cursor_char_def)
  ultimately show ?thesis using k show_int_length [of "fst k"] show_int_length [of "snd k"]
    by (simp add: cursor_new_def cursor_text_def key_fits_def MAX_CURSOR_LEN_def)
qed

lemma start_of_cursor: "key_fits k \<Longrightarrow> start_of_query (next_query q (Cursor (cursor_text k))) = Inr (Some k)"
  by (simp add: start_of_query_def next_query_cursor cursor_wf_def cursor_new_text parse_cursor_text)

lemma node_param_next: "cursor_wf c \<Longrightarrow> node_param (next_query q c) = node_param q"
proof -
  assume "cursor_wf c"
  then have "single_query_value (next_query q c) ''node'' = map_sum id (map_option link_pair) (single_query_value q ''node'')"
    by (rule next_query_other) (simp_all add: CURSOR_PARAM_def ascii_class_defs byte_val_def)
  note n = this
  have v: "\<exists>y t. link_pair (x # s) = y # t" for x s using link_byte_hd [of x] by auto
  consider "\<exists>e. single_query_value q ''node'' = Inl e" | "single_query_value q ''node'' = Inr None"
    | "single_query_value q ''node'' = Inr (Some [])" | x s where "single_query_value q ''node'' = Inr (Some (x # s))"
    by (metis list.exhaust not_None_eq sum.exhaust)
  then show ?thesis
  proof cases
    case (4 x s)
    obtain y t where "link_pair (x # s) = y # t" using v by blast
    then show ?thesis using 4 n url_decode_link [of "x # s"]
      by (simp add: node_param_def del: link_pair_simps)
  qed (use n in \<open>auto simp: node_param_def\<close>)
qed

section \<open>Filling a page from sorted rows\<close>

definition row_ok :: "('r \<Rightarrow> bytes option) \<Rightarrow> 'r \<Rightarrow> bool" where
  "row_ok ser r \<longleftrightarrow> (case ser r of
     None \<Rightarrow> False
   | Some j \<Rightarrow> j \<noteq> [] \<and> hd j = CHR ''{'' \<and> length j + 1 \<le> MAX_PAGE_BYTES)"

definition row_line :: "('r \<Rightarrow> bytes option) \<Rightarrow> 'r \<Rightarrow> bytes" where
  "row_line ser r = the (ser r) @ [LF]"

definition row_lines :: "('r \<Rightarrow> bytes option) \<Rightarrow> 'r list \<Rightarrow> bytes" where
  "row_lines ser rs = concat (map (row_line ser) rs)"

lemma row_lines_simps [simp]: "row_lines ser [] = []" "row_lines ser (r # rs) = row_line ser r @ row_lines ser rs"
  "row_lines ser (rs @ ss) = row_lines ser rs @ row_lines ser ss"
  by (simp_all add: row_lines_def)

lemma push_row_ok:
  assumes "row_ok ser r" "0 < max_rows (pg_limits p)"
  shows "push (ser r) p = (Inr Full, p) \<and> pg_rows p \<noteq> 0 \<or>
     push (ser r) p = (Inr Added, p\<lparr>pg_buf := pg_buf p @ row_line ser r, pg_rows := pg_rows p + 1\<rparr>)"
  using assms by (cases rule: push_cases [of "ser r" p]) (auto simp: row_ok_def row_line_def split: option.splits)

lemma push_rows_prefix:
  assumes "\<forall>r \<in> set rs. row_ok ser r" "0 < max_rows (pg_limits p)"
  shows "\<exists>n \<le> length rs. push_rows ser rs p =
       Inr (p\<lparr>pg_buf := pg_buf p @ row_lines ser (take n rs), pg_rows := pg_rows p + n\<rparr>,
            if n < length rs then Some (rs ! n) else None) \<and> (pg_rows p = 0 \<and> rs \<noteq> [] \<longrightarrow> 0 < n)"
  using assms
proof (induction rs arbitrary: p)
  case (Cons r rs)
  from push_row_ok [of ser r p] Cons.prems
  consider (full) "push (ser r) p = (Inr Full, p)" "pg_rows p \<noteq> 0"
    | (added) "push (ser r) p = (Inr Added, p\<lparr>pg_buf := pg_buf p @ row_line ser r, pg_rows := pg_rows p + 1\<rparr>)" by auto
  then show ?case
  proof cases
    case full
    then show ?thesis by (intro exI [of _ 0]) simp
  next
    case added
    let ?q = "p\<lparr>pg_buf := pg_buf p @ row_line ser r, pg_rows := pg_rows p + 1\<rparr>"
    from Cons.IH [of ?q] Cons.prems obtain n where "n \<le> length rs"
      "push_rows ser rs ?q = Inr (?q\<lparr>pg_buf := pg_buf ?q @ row_lines ser (take n rs), pg_rows := pg_rows ?q + n\<rparr>,
         if n < length rs then Some (rs ! n) else None)" by auto
    then show ?thesis using added by (intro exI [of _ "Suc n"]) simp
  qed
qed simp

text \<open>The rows of a page from a starting key on.\<close>

definition from_start :: "('r \<Rightarrow> row_key) \<Rightarrow> row_key option \<Rightarrow> 'r list \<Rightarrow> 'r list" where
  "from_start key start rs = filter (\<lambda>r. case start of None \<Rightarrow> True | Some k \<Rightarrow> k \<le> key r) rs"

lemma from_start_None [simp]: "from_start key None rs = rs"
  by (simp add: from_start_def)

lemma from_start_subset: "r \<in> set (from_start key start rs) \<Longrightarrow> r \<in> set rs"
  by (simp add: from_start_def)

lemma from_start_sorted:
  "sorted_wrt (\<lambda>a b. key a < key b) rs \<Longrightarrow> sorted_wrt (\<lambda>a b. key a < key b) (from_start key start rs)"
  by (simp add: from_start_def sorted_wrt_filter)

lemma from_start_nth:
  "sorted_wrt (\<lambda>a b. key a < key b) rs \<Longrightarrow> i < length rs \<Longrightarrow> from_start key (Some (key (rs ! i))) rs = drop i rs"
proof (induction rs arbitrary: i)
  case (Cons r rs)
  show ?case
  proof (cases i)
    case 0
    then show ?thesis using Cons.prems by (auto simp: from_start_def intro!: filter_True less_imp_le)
  next
    case (Suc j)
    then have "\<not> key (rs ! j) \<le> key r" using Cons.prems by (simp add: not_le)
    then show ?thesis using Cons Suc by (simp add: from_start_def)
  qed
qed simp

lemma from_start_drop:
  assumes "sorted_wrt (\<lambda>a b. key a < key b) rs" "i < length (from_start key start rs)"
  shows "from_start key (Some (key (from_start key start rs ! i))) rs = drop i (from_start key start rs)"
proof -
  let ?S = "from_start key start rs"
  have "case start of None \<Rightarrow> True | Some k \<Rightarrow> k \<le> key r" if "r \<in> set ?S" for r
    using that by (simp add: from_start_def)
  then have "case start of None \<Rightarrow> True | Some k \<Rightarrow> k \<le> key (?S ! i)" using assms(2) nth_mem by blast
  then have "from_start key (Some (key (?S ! i))) rs = from_start key (Some (key (?S ! i))) ?S"
    by (auto simp: from_start_def split: option.splits intro!: filter_cong)
  also have "\<dots> = drop i ?S" by (rule from_start_nth [OF from_start_sorted [OF assms(1)] assms(2)])
  finally show ?thesis .
qed

text \<open>What a feed of rows promises: a read gives the first rows from the starting key on, the rows of a feed
  have increasing keys, and their keys are within the range that was asked for and fit the columns.\<close>

locale row_feed =
  fixes read :: "'r page_fn"
    and key :: "'r \<Rightarrow> row_key"
    and feed_ok :: "connection \<Rightarrow> bool"
    and feed :: "connection \<Rightarrow> int \<Rightarrow> int \<Rightarrow> int option \<Rightarrow> 'r list"
  assumes feed_open: "feed_ok conn \<Longrightarrow> cn_fail conn = None"
    and read_feed: "feed_ok conn \<Longrightarrow> read conn f t node start n = Inr (take n (from_start key start (feed conn f t node)))"
    and feed_sorted: "feed_ok conn \<Longrightarrow> sorted_wrt (\<lambda>a b. key a < key b) (feed conn f t node)"
    and feed_keys: "feed_ok conn \<Longrightarrow> 0 \<le> f \<Longrightarrow> r \<in> set (feed conn f t node) \<Longrightarrow> key_fits (key r)"
begin

lemma fill_loop_prefix:
  assumes "feed_ok conn" "0 \<le> fst rng" "\<forall>r \<in> set (feed conn (fst rng) (snd rng) node). row_ok ser r" "0 < max_rows (pg_limits p)"
    "S = from_start key start (feed conn (fst rng) (snd rng) node)"
  shows "\<exists>n \<le> length S. fill_loop ser key read conn rng node start p =
       Some (Inr (p\<lparr>pg_buf := pg_buf p @ row_lines ser (take n S), pg_rows := pg_rows p + n\<rparr>,
             if n < length S then Some (Cursor (cursor_text (key (S ! n)))) else None)) \<and>
       (pg_rows p = 0 \<and> S \<noteq> [] \<longrightarrow> 0 < n)"
  using assms
proof (induction "length S" arbitrary: S start p rule: less_induct)
  case less
  define R where "R = feed conn (fst rng) (snd rng) node"
  define C where "C = take CHUNK_ROWS S"
  note S = less.prems(5) [folded R_def]
  have ok: "\<forall>r \<in> set C. row_ok ser r"
    using less.prems(3) from_start_subset by (fastforce simp: C_def S R_def dest: in_set_takeD)
  have fits: "key_fits (key r)" if "r \<in> set S" for r
    using that feed_keys [OF less.prems(1,2)] from_start_subset S R_def by metis
  have read: "read conn (fst rng) (snd rng) node start (CHUNK_ROWS + 1) = Inr (take (CHUNK_ROWS + 1) S)"
    using read_feed [OF less.prems(1)] by (simp add: S R_def)
  from push_rows_prefix [OF ok less.prems(4)] obtain n where n: "n \<le> length C"
    "push_rows ser C p = Inr (p\<lparr>pg_buf := pg_buf p @ row_lines ser (take n C), pg_rows := pg_rows p + n\<rparr>,
       if n < length C then Some (C ! n) else None)" "pg_rows p = 0 \<and> C \<noteq> [] \<longrightarrow> 0 < n" by blast
  have C: "take CHUNK_ROWS (take (CHUNK_ROWS + 1) S) = C" "take n C = take n S" "C \<noteq> [] \<longleftrightarrow> S \<noteq> []"
    using n(1) by (simp_all add: C_def CHUNK_ROWS_def)
  note step = fill_loop.simps [of ser key read conn rng node start p, unfolded read, simplified C(1) n(2) sum.case prod.case]
  show ?case
  proof (cases "n < length C")
    case True
    then have "C ! n = S ! n" "n < length S" by (auto simp: C_def)
    moreover have "key_fits (key (S ! n))" using calculation(2) fits by simp
    ultimately show ?thesis using step True n(3) C by (intro exI [of _ n]) (simp add: cursor_new_text)
  next
    case False
    then have nC: "n = length C" using n(1) by simp
    show ?thesis
    proof (cases "CHUNK_ROWS < length S")
      case more: True
      let ?p = "p\<lparr>pg_buf := pg_buf p @ row_lines ser C, pg_rows := pg_rows p + length C\<rparr>"
      let ?k = "Some (key (S ! CHUNK_ROWS))"
      have lC: "length C = CHUNK_ROWS" using more by (simp add: C_def)
      have D: "drop CHUNK_ROWS S = from_start key ?k R"
        using from_start_drop [of key R CHUNK_ROWS start] feed_sorted [OF less.prems(1)] more by (simp add: S R_def)
      have short: "length (drop CHUNK_ROWS S) < length S" using more by (simp add: CHUNK_ROWS_def)
      have "0 < max_rows (pg_limits ?p)" using less.prems(4) by simp
      from less.hyps [OF short less.prems(1-3) this D [unfolded R_def]]
      obtain m where m: "m \<le> length (drop CHUNK_ROWS S)"
        "fill_loop ser key read conn rng node ?k ?p =
          Some (Inr (?p\<lparr>pg_buf := pg_buf ?p @ row_lines ser (take m (drop CHUNK_ROWS S)), pg_rows := pg_rows ?p + m\<rparr>,
             if m < length (drop CHUNK_ROWS S) then Some (Cursor (cursor_text (key (drop CHUNK_ROWS S ! m)))) else None))"
        by blast
      have "fill_loop ser key read conn rng node start p = fill_loop ser key read conn rng node ?k ?p"
        using step nC more n(1) by (simp add: C_def)
      moreover have "take (CHUNK_ROWS + m) S = C @ take m (drop CHUNK_ROWS S)" by (simp add: C_def take_add)
      ultimately show ?thesis using m more lC nC n(3) C(3)
        by (intro exI [of _ "CHUNK_ROWS + m"]) (auto simp: CHUNK_ROWS_def)
    next
      case False
      then show ?thesis using step nC n(3) C by (intro exI [of _ n]) (auto simp: C_def)
    qed
  qed
qed

lemma fill_page_prefix:
  assumes "feed_ok conn" "0 \<le> f" "\<forall>r \<in> set (feed conn f t node). row_ok ser r" "0 < max_rows limits"
  shows "let S = from_start key start (feed conn f t node) in \<exists>n \<le> length S.
     fill_page ser key read conn (f, t) node start limits =
       Some (Inr (\<lparr>pg_buf = row_lines ser (take n S), pg_rows = n, pg_limits = limits\<rparr>,
             if n < length S then Some (Cursor (cursor_text (key (S ! n)))) else None)) \<and> (S \<noteq> [] \<longrightarrow> 0 < n)"
  using fill_loop_prefix [of conn "(f, t)" node ser "page_new limits" _ start] assms feed_open [of conn]
  by (simp add: fill_page_def page_new_def)

end

section \<open>A client that follows the links\<close>

definition page_body :: "response \<Rightarrow> bytes" where
  "page_body r = (case rsp_body r of Bytes b \<Rightarrow> b | Stream _ rd \<Rightarrow> stream_data rd)"

text \<open>The client asks, keeps the body of a 200 and goes on at the link, if there is one. \<open>None\<close> is any other
  answer, or more pages than it was told to fetch.\<close>

fun follow_links :: "nat \<Rightarrow> (string \<Rightarrow> (build_error + response) option) \<Rightarrow> string \<Rightarrow> bytes option" where
  "follow_links 0 service q = None"
| "follow_links (Suc n) service q = (case service q of
     Some (Inr resp) \<Rightarrow>
       if rsp_status resp \<noteq> 200 then None
       else (case map_of (rsp_headers resp) ''Link'' of
           None \<Rightarrow> Some (page_body resp)
         | Some l \<Rightarrow> (case link_query l of
             None \<Rightarrow> None
           | Some q' \<Rightarrow> map_option (\<lambda>rest. page_body resp @ rest) (follow_links n service q')))
   | _ \<Rightarrow> None)"

lemma into_response_simps [simp]:
  "rsp_status (into_response p q c) = 200" "page_body (into_response p q c) = pg_buf p"
  "map_of (rsp_headers (into_response p q c)) ''Link'' = map_option (next_link q) c"
  by (simp_all add: into_response_def Let_def page_body_def stream_def with_header_def response_status_def split: option.splits)

context row_feed
begin

lemma follow_feed:
  assumes "open_reader path = Inr conn" "feed_ok conn" "range_from_query chrono q DEFAULT_MAX_SPAN = Inr rng"
    "start_of_query q = Inr start" "node_param q = Inr node" "node_of conn node = Inr nid"
    "F = feed conn (from_unix_ms rng) (to_unix_ms rng) nid" "\<forall>r \<in> set F. row_ok ser r"
    "length (from_start key start F) < k"
  shows "follow_links k (paged chrono open_reader ser key read (Some path)) q = Some (row_lines ser (from_start key start F))"
  using assms
proof (induction "length (from_start key start F)" arbitrary: q start k rule: less_induct)
  case less
  let ?S = "from_start key start F"
  let ?svc = "paged chrono open_reader ser key read (Some path)"
  obtain k' where k: "k = Suc k'" using less.prems(9) by (cases k) auto
  have from0: "0 \<le> from_unix_ms rng" by (simp add: from_unix_ms_def ceil_div_def)
  have "0 < max_rows default_limits" by (simp add: default_limits_def DEFAULT_PAGE_ROWS_def)
  from fill_page_prefix [OF less.prems(2) from0, of "to_unix_ms rng" nid ser default_limits start] this less.prems(7,8)
  obtain n where n: "n \<le> length ?S" "?S \<noteq> [] \<longrightarrow> 0 < n"
    "fill_page ser key read conn (from_unix_ms rng, to_unix_ms rng) nid start default_limits =
       Some (Inr (\<lparr>pg_buf = row_lines ser (take n ?S), pg_rows = n, pg_limits = default_limits\<rparr>,
             if n < length ?S then Some (Cursor (cursor_text (key (?S ! n)))) else None))"
    by (auto simp: Let_def)
  define p where "p = \<lparr>pg_buf = row_lines ser (take n ?S), pg_rows = n, pg_limits = default_limits\<rparr>"
  have p: "pg_buf p = row_lines ser (take n ?S)"
    "?svc q = Some (Inr (into_response p q (if n < length ?S then Some (Cursor (cursor_text (key (?S ! n)))) else None)))"
    using less.prems(1-6) n(3) by (simp_all add: paged_def p_def)
  show ?case
  proof (cases "n < length ?S")
    case False
    then show ?thesis using p n(1) by (simp add: k)
  next
    case True
    let ?c = "Cursor (cursor_text (key (?S ! n)))"
    have "?S ! n \<in> set F" using True nth_mem from_start_subset by metis
    then have fits: "key_fits (key (?S ! n))" using feed_keys [OF less.prems(2) from0] less.prems(7) by blast
    then have c: "cursor_wf ?c" by (simp add: cursor_wf_def cursor_new_text)
    have D: "from_start key (Some (key (?S ! n))) F = drop n ?S"
      using from_start_drop [OF _ True] feed_sorted [OF less.prems(2)] less.prems(7) by simp
    have "follow_links k' ?svc (next_query q ?c) = Some (row_lines ser (drop n ?S))"
      unfolding D [symmetric]
    proof (rule less.hyps)
      show "length (from_start key (Some (key (?S ! n))) F) < length ?S" using True n(2) by (auto simp: D)
      show "length (from_start key (Some (key (?S ! n))) F) < k'" using True n(2) less.prems(9) by (auto simp: D k)
    qed (use less.prems fits c in \<open>simp_all add: next_query_range node_param_next start_of_cursor\<close>)
    moreover have "row_lines ser (take n ?S) @ row_lines ser (drop n ?S) = row_lines ser ?S"
      by (metis append_take_drop_id row_lines_simps(3))
    ultimately show ?thesis using p True c by (simp add: k link_query_next_link)
  qed
qed

end

section \<open>The feed of crawler windows\<close>

lemma row_index_Some: "distinct ids \<Longrightarrow> row_index ids i = Some k \<longleftrightarrow> k < length ids \<and> ids ! k = i"
proof -
  assume "distinct ids"
  then have "distinct (map fst (rev (zip ids [0..<length ids])))" by (simp add: rev_map [symmetric])
  then show ?thesis by (auto simp: row_index_def map_of_eq_Some_iff in_set_zip)
qed

lemma row_index_None: "row_index ids i = None \<longleftrightarrow> i \<notin> set ids"
proof -
  have "fst ` set (zip ids [0..<length ids]) = set ids" by (metis length_upt list.set_map map_fst_zip minus_nat.diff_0)
  then show ?thesis by (simp add: row_index_def map_of_eq_None_iff)
qed

lemma attach_nth:
  assumes "distinct ids" "length out = length ids"
  shows "length (attach (row_index ids) parent add cs out) = length ids \<and>
     (\<forall>i < length ids. attach (row_index ids) parent add cs out ! i =
        foldl (\<lambda>r c. add c r) (out ! i) (filter (\<lambda>c. parent c = ids ! i) cs))"
  using assms(2)
proof (induction cs arbitrary: out)
  case (Cons c cs)
  let ?out = "case row_index ids (parent c) of Some k \<Rightarrow> out[k := add c (out ! k)] | None \<Rightarrow> out"
  have "length ?out = length ids" using Cons.prems by (simp split: option.split)
  moreover have "?out ! i = (if parent c = ids ! i then add c (out ! i) else out ! i)" if "i < length ids" for i
  proof (cases "row_index ids (parent c)")
    case None
    then have "parent c \<noteq> ids ! i" using that nth_mem row_index_None by metis
    then show ?thesis using None by simp
  next
    case (Some k)
    then have "k < length ids" "ids ! k = parent c" by (simp_all add: row_index_Some [OF assms(1)])
    then show ?thesis using that Some Cons.prems assms(1) by (auto simp: nth_list_update nth_eq_iff_index_eq)
  qed
  ultimately show ?case using Cons.IH [of ?out] by (simp add: attach_def)
qed (simp add: attach_def)

lemma attach_map:
  assumes "distinct (map f out)"
  shows "attach (row_index (map f out)) parent add cs out =
     map (\<lambda>r. foldl (\<lambda>r c. add c r) r (filter (\<lambda>c. parent c = f r) cs)) out"
  using attach_nth [OF assms, of out parent add cs] by (intro nth_equalityI) auto

text \<open>The windows of a range with the names of their nodes, and the children of a window.\<close>

definition joined_windows :: "history_db \<Rightarrow> int \<Rightarrow> int \<Rightarrow> int option \<Rightarrow> (window_row \<times> string) list" where
  "joined_windows db f t node = [(w, name). w \<leftarrow> db_crawl_window db, (n, name) \<leftarrow> db_node db, n = cw_node_id w,
     in_page f t node None (cw_at_ms w) (cw_id w) (cw_node_id w)]"

definition joined_sightings :: "history_db \<Rightarrow> (sighting_row \<times> string) list" where
  "joined_sightings db = [(s, ua). s \<leftarrow> db_crawl_sighting db, (a, ua) \<leftarrow> db_agent db, a = sg_agent_id s]"

definition window_key :: "window_row \<times> string \<Rightarrow> row_key" where
  "window_key w = (cw_at_ms (fst w), cw_id (fst w))"

definition complete_window :: "(string \<Rightarrow> string list option) \<Rightarrow> history_db \<Rightarrow> crawl_out \<Rightarrow> crawl_out" where
  "complete_window js db r =
     foldl (\<lambda>r c. add_sighting js c r)
       (foldl (\<lambda>r s. add_status s r) r (filter (\<lambda>s. cs_window_id s = co_id r) (db_crawl_status db)))
       (filter (\<lambda>c. sg_window_id (fst c) = co_id r)
          (sort_key (\<lambda>(s, ua). (sg_window_id s, - sg_requests s, ua)) (joined_sightings db)))"

definition crawl_feed :: "(string \<Rightarrow> string list option) \<Rightarrow> connection \<Rightarrow> int \<Rightarrow> int \<Rightarrow> int option \<Rightarrow> crawl_out list" where
  "crawl_feed js conn f t node =
     map (\<lambda>w. complete_window js (cn_db conn) (window_out js w)) (sort_key window_key (joined_windows (cn_db conn) f t node))"

definition crawl_db_ok :: "connection \<Rightarrow> bool" where
  "crawl_db_ok conn \<longleftrightarrow> cn_fail conn = None \<and> distinct (map cw_id (db_crawl_window (cn_db conn))) \<and>
     distinct (map fst (db_node (cn_db conn))) \<and> (\<forall>s \<in> set (db_crawl_status (cn_db conn)). status_fits s) \<and>
     (\<forall>w \<in> set (db_crawl_window (cn_db conn)). fits_i64 (cw_at_ms w) \<and> fits_i64 (cw_id w))"

lemma filter_join: "filter (\<lambda>x. P (fst x)) [(x, y). x \<leftarrow> xs, (a, y) \<leftarrow> ys, a = g x] = [(x, y). x \<leftarrow> xs, (a, y) \<leftarrow> ys, a = g x, P x]"
proof (induction xs)
  case (Cons x xs)
  have "filter (\<lambda>x. P (fst x)) (concat (map (\<lambda>(a, y). if a = g x then [(x, y)] else []) ys)) =
    concat (map (\<lambda>(a, y). if a = g x then if P x then [(x, y)] else [] else []) ys)"
    by (induction ys) auto
  then show ?case using Cons by simp
qed simp

lemma select_windows_feed:
  "select_windows db f t node start n =
     take n (filter (\<lambda>w. case start of None \<Rightarrow> True | Some k \<Rightarrow> k \<le> window_key w) (sort_key window_key (joined_windows db f t node)))"
proof -
  let ?in = "\<lambda>start w. in_page f t node start (cw_at_ms w) (cw_id w) (cw_node_id w)"
  let ?P = "\<lambda>w. case start of None \<Rightarrow> True | Some k \<Rightarrow> k \<le> (cw_at_ms w, cw_id w)"
  have i: "?in start w \<longleftrightarrow> ?in None w \<and> ?P w" for w by (auto simp: in_page_def split: option.splits)
  have "[(w, name). w \<leftarrow> db_crawl_window db, (m, name) \<leftarrow> db_node db, m = cw_node_id w, ?in start w] =
      filter (\<lambda>w. ?P (fst w)) (joined_windows db f t node)"
    unfolding joined_windows_def filter_join [symmetric, where P = "?in None"] filter_join [symmetric, where P = "?in start"]
    by (simp add: i)
  moreover have "(\<lambda>(w, _). (cw_at_ms w, cw_id w)) = window_key" by (auto simp: window_key_def)
  moreover have "(\<lambda>w. case start of None \<Rightarrow> True | Some k \<Rightarrow> k \<le> window_key w) = (\<lambda>w. ?P (fst w))"
    by (cases start) (simp_all add: window_key_def)
  ultimately show ?thesis unfolding select_windows_def by (simp only: filter_sort)
qed

lemma joined_window_cases:
  assumes "distinct (map fst nodes)"
  shows "concat (map (\<lambda>(n, name). if n = x then if P then [(w, name)] else [] else []) nodes) =
     (case map_of nodes x of Some name \<Rightarrow> if P then [(w, name)] else [] | None \<Rightarrow> [])"
  using assms
proof (induction nodes)
  case (Cons m nodes)
  obtain n name where m: "m = (n, name)" by (cases m)
  show ?case
  proof (cases "n = x")
    case True
    then have "map_of nodes x = None" using Cons.prems m by (auto simp: map_of_eq_None_iff)
    then show ?thesis using Cons True m by simp
  next
    case False
    then show ?thesis using Cons m by simp
  qed
qed simp

lemma join_distinct:
  assumes "distinct (map fst nodes)"
  shows "distinct (map cw_id ws) \<Longrightarrow>
     distinct (map (\<lambda>w. cw_id (fst w)) [(w, name). w \<leftarrow> ws, (n, name) \<leftarrow> nodes, n = cw_node_id w, P w])"
proof (induction ws)
  case (Cons w ws)
  have "cw_id w \<notin> (\<lambda>w. cw_id (fst w)) ` set [(w, name). w \<leftarrow> ws, (n, name) \<leftarrow> nodes, n = cw_node_id w, P w]"
    using Cons.prems by (auto simp: image_iff split: if_splits)
  then show ?case using Cons joined_window_cases [OF assms, of "cw_node_id w" "P w" w]
    by (simp split: option.splits)
qed simp

lemma joined_windows_distinct:
  assumes "distinct (map cw_id (db_crawl_window db))" "distinct (map fst (db_node db))"
  shows "distinct (map (\<lambda>w. cw_id (fst w)) (joined_windows db f t node))"
  using join_distinct [OF assms(2,1)] by (simp add: joined_windows_def)

lemma distinct_sort_key: "distinct (map g (sort_key f xs)) = distinct (map g xs)"
proof -
  have "mset (map g (sort_key f xs)) = mset (map g xs)" by simp
  then show ?thesis by (rule mset_eq_imp_distinct_iff)
qed

lemma sort_key_strict:
  assumes "distinct (map f xs)"
  shows "sorted_wrt (\<lambda>a b. f a < f b) (sort_key f xs)"
proof -
  have "distinct (map f (sort_key f xs))" using assms by (simp add: distinct_sort_key)
  then have "sorted_wrt (<) (map f (sort_key f xs))" by (simp add: strict_sorted_iff)
  then show ?thesis by (simp add: sorted_wrt_map)
qed

lemma foldl_keeps: "(\<And>c r. g (add c r) = g r) \<Longrightarrow> g (foldl (\<lambda>r c. add c r) r cs) = g r"
  by (induction cs arbitrary: r) auto

lemma add_keeps:
  "co_id (add_status s r) = co_id r" "co_at_unix_ms (add_status s r) = co_at_unix_ms r"
  "co_id (add_sighting js c r) = co_id r" "co_at_unix_ms (add_sighting js c r) = co_at_unix_ms r"
  by (simp_all add: add_status_def add_sighting_def split: prod.split)

lemma complete_window_key: "crawl_key (complete_window js db (window_out js w)) = window_key w"
  by (simp add: crawl_key_def complete_window_def foldl_keeps [where g = co_id] foldl_keeps [where g = co_at_unix_ms] add_keeps
      window_out_def window_key_def split: prod.split)

lemma select_children:
  assumes "i \<in> set ids"
  shows "filter (\<lambda>s. cs_window_id s = i) (select_status db ids) = filter (\<lambda>s. cs_window_id s = i) (db_crawl_status db)"
    "filter (\<lambda>c. sg_window_id (fst c) = i) (select_sightings db ids) =
       filter (\<lambda>c. sg_window_id (fst c) = i) (sort_key (\<lambda>(s, ua). (sg_window_id s, - sg_requests s, ua)) (joined_sightings db))"
proof -
  show "filter (\<lambda>s. cs_window_id s = i) (select_status db ids) = filter (\<lambda>s. cs_window_id s = i) (db_crawl_status db)"
    using assms by (auto simp: select_status_def intro!: filter_cong)
  have "select_sightings db ids = sort_key (\<lambda>(s, ua). (sg_window_id s, - sg_requests s, ua))
      (filter (\<lambda>c. sg_window_id (fst c) \<in> set ids) (joined_sightings db))"
    by (simp add: select_sightings_def joined_sightings_def filter_join [where P = "\<lambda>s. sg_window_id s \<in> set ids"])
  moreover have "(sg_window_id (fst c) \<in> set ids \<and> sg_window_id (fst c) = i) = (sg_window_id (fst c) = i)" for c :: "sighting_row \<times> string"
    using assms by auto
  ultimately show "filter (\<lambda>c. sg_window_id (fst c) = i) (select_sightings db ids) =
       filter (\<lambda>c. sg_window_id (fst c) = i) (sort_key (\<lambda>(s, ua). (sg_window_id s, - sg_requests s, ua)) (joined_sightings db))"
    by (simp add: filter_sort conj_commute cong: filter_cong)
qed

lemma crawl_page_feed:
  assumes "crawl_db_ok conn"
  shows "crawl_page js conn f t node start n = Inr (take n (from_start crawl_key start (crawl_feed js conn f t node)))"
proof -
  let ?db = "cn_db conn"
  define L where "L = select_windows ?db f t node start n"
  define out where "out = map (window_out js) L"
  define ids where "ids = map co_id out"
  have "distinct (map (\<lambda>w. cw_id (fst w)) L)"
  proof -
    have "distinct (map (\<lambda>w. cw_id (fst w)) (sort_key window_key (joined_windows ?db f t node)))"
      using joined_windows_distinct [of ?db f t node] assms by (simp add: crawl_db_ok_def distinct_sort_key)
    then show ?thesis unfolding L_def select_windows_feed
      by (metis distinct_map_filter distinct_take take_map)
  qed
  moreover have "co_id (window_out js w) = cw_id (fst w)" for w by (simp add: window_out_def split: prod.split)
  ultimately have d: "distinct (map co_id out)" by (simp add: out_def comp_def)
  let ?st = "\<lambda>r. foldl (\<lambda>r s. add_status s r) r (filter (\<lambda>s. cs_window_id s = co_id r) (select_status ?db ids))"
  have st: "attach (row_index ids) cs_window_id add_status (select_status ?db ids) out = map ?st out"
    unfolding ids_def by (rule attach_map [OF d])
  have k: "co_id (foldl (\<lambda>r s. add_status s r) r cs) = co_id r" for r cs by (rule foldl_keeps) (simp add: add_keeps)
  then have ids1: "ids = map co_id (map ?st out)" by (simp add: ids_def)
  have "attach (row_index ids) (\<lambda>c. sg_window_id (fst c)) (add_sighting js) (select_sightings ?db ids) (map ?st out) =
      map (\<lambda>r. foldl (\<lambda>r c. add_sighting js c r) r (filter (\<lambda>c. sg_window_id (fst c) = co_id r) (select_sightings ?db ids))) (map ?st out)"
    by (subst ids1, rule attach_map) (use d k in \<open>simp add: comp_def\<close>)
  also have "\<dots> = map (complete_window js ?db) out"
    using select_children [of _ ids ?db] by (auto simp: complete_window_def k ids_def)
  finally have "crawl_page js conn f t node start n = Inr (map (complete_window js ?db) out)"
    using assms st unfolding crawl_page_def L_def [symmetric] out_def [symmetric] ids_def [symmetric]
    by (auto simp: crawl_db_ok_def select_status_def Let_def L_def out_def ids_def)
  moreover have "take n (from_start crawl_key start (crawl_feed js conn f t node)) = map (complete_window js ?db) out"
    by (cases start) (simp_all add: out_def L_def select_windows_feed crawl_feed_def from_start_def filter_map comp_def complete_window_key take_map)
  ultimately show ?thesis by simp
qed

lemma crawl_feed_member:
  "r \<in> set (crawl_feed js conn f t node) \<longleftrightarrow> (\<exists>w name. r = complete_window js (cn_db conn) (window_out js (w, name)) \<and>
     w \<in> set (db_crawl_window (cn_db conn)) \<and> (cw_node_id w, name) \<in> set (db_node (cn_db conn)) \<and>
     f \<le> cw_at_ms w \<and> cw_at_ms w < t \<and> (node = None \<or> node = Some (cw_node_id w)))"
  by (auto simp: crawl_feed_def joined_windows_def in_page_def image_iff split: if_splits)

lemma crawl_feed_ids:
  "co_id ` set (crawl_feed js conn f t node) = cw_id ` {w \<in> set (db_crawl_window (cn_db conn)).
     f \<le> cw_at_ms w \<and> cw_at_ms w < t \<and> (node = None \<or> node = Some (cw_node_id w)) \<and> cw_node_id w \<in> fst ` set (db_node (cn_db conn))}"
  (is "_ = cw_id ` ?W")
proof -
  have i: "co_id (complete_window js db (window_out js (w, name))) = cw_id w" for db w name
    using complete_window_key [of js db "(w, name)"] by (simp add: crawl_key_def window_key_def)
  have "cw_id w \<in> co_id ` set (crawl_feed js conn f t node)" if "w \<in> ?W" for w
  proof -
    from that obtain name where "(cw_node_id w, name) \<in> set (db_node (cn_db conn))" by auto
    then have "complete_window js (cn_db conn) (window_out js (w, name)) \<in> set (crawl_feed js conn f t node)"
      using that by (auto simp: crawl_feed_member)
    then show ?thesis using i by (metis image_eqI)
  qed
  moreover have "co_id r \<in> cw_id ` ?W" if "r \<in> set (crawl_feed js conn f t node)" for r
  proof -
    from that obtain w name where "r = complete_window js (cn_db conn) (window_out js (w, name))" "w \<in> ?W"
      unfolding crawl_feed_member by force
    then show ?thesis using i by auto
  qed
  ultimately show ?thesis by blast
qed

interpretation crawls: row_feed "crawl_page js" crawl_key crawl_db_ok "crawl_feed js" for js
proof
  fix conn f t node
  assume ok: "crawl_db_ok conn"
  have "distinct (map (\<lambda>w. cw_id (fst w)) (joined_windows (cn_db conn) f t node))"
    using ok by (simp add: crawl_db_ok_def joined_windows_distinct)
  then have "distinct (map window_key (joined_windows (cn_db conn) f t node))"
    by (fastforce simp: distinct_map inj_on_def window_key_def)
  then show "sorted_wrt (\<lambda>a b. crawl_key a < crawl_key b) (crawl_feed js conn f t node)"
    using sort_key_strict by (simp add: crawl_feed_def sorted_wrt_map complete_window_key)
next
  fix conn f t node r
  assume "crawl_db_ok conn" "0 \<le> f" "r \<in> set (crawl_feed js conn f t node)"
  then show "key_fits (crawl_key r)"
    by (force simp: crawl_feed_member complete_window_key window_key_def key_fits_def crawl_db_ok_def)
qed (simp_all add: crawl_db_ok_def crawl_page_feed)

text \<open>C36. A client that asks for the crawler windows of a time range and follows the links of the answers has,
  when an answer brings no link, every window of the range (and of the node it asked for) exactly once, in the
  order of time and id, as one line each; it needs at most one request more than there are windows. The rows
  are those the database holds throughout, each of them serialises to an object of at most 64 MiB.\<close>

theorem crawlers_walk_complete:
  assumes "open_reader path = Inr conn" "crawl_db_ok conn"
    and "range_from_query chrono q DEFAULT_MAX_SPAN = Inr rng" "cursor_from_query q = Inr None"
    and "node_param q = Inr node" "node_of conn node = Inr nid"
    and "F = crawl_feed js conn (from_unix_ms rng) (to_unix_ms rng) nid" "\<forall>r \<in> set F. row_ok ser r"
  shows "follow_links (Suc (length F)) (paged chrono open_reader ser crawl_key (crawl_page js) (Some path)) q = Some (row_lines ser F) \<and>
     sorted_wrt (\<lambda>a b. crawl_key a < crawl_key b) F \<and>
     co_id ` set F = cw_id ` {w \<in> set (db_crawl_window (cn_db conn)).
        from_unix_ms rng \<le> cw_at_ms w \<and> cw_at_ms w < to_unix_ms rng \<and> (nid = None \<or> nid = Some (cw_node_id w)) \<and>
        cw_node_id w \<in> fst ` set (db_node (cn_db conn))}"
proof -
  have "start_of_query q = Inr None" using assms(4) by (simp add: start_of_query_def)
  then have "follow_links (Suc (length F)) (paged chrono open_reader ser crawl_key (crawl_page js) (Some path)) q = Some (row_lines ser F)"
    using crawls.follow_feed [where open_reader = open_reader and path = path, OF assms(1-3) \<open>start_of_query q = Inr None\<close> assms(5-8), of "Suc (length F)"] by simp
  then show ?thesis using crawls.feed_sorted [OF assms(2)] assms(7) by (simp add: crawl_feed_ids)
qed

definition demo_window :: "int \<Rightarrow> int \<Rightarrow> window_row" where
  "demo_window i at_ms = \<lparr>cw_id = i, cw_poll_id = 1, cw_at_ms = at_ms, cw_node_id = 1, cw_window_minutes = 60,
     cw_total_requests = 9, cw_forged_bot_requests = 0, cw_forgers = ''[]'', cw_sightings_dropped = 0\<rparr>"

definition demo_history :: connection where
  "demo_history = \<lparr>cn_db = \<lparr>db_node = [(1, ''a'')], db_agent = [], db_crawl_window = [demo_window 2 5000, demo_window 1 5000, demo_window 3 0],
     db_crawl_status = [], db_crawl_sighting = []\<rparr>, cn_fail = None\<rparr>"

theorem crawlers_walk_complete_witness:
  "\<exists>n. follow_links n (paged demo_chrono (\<lambda>_. Inr demo_history) (\<lambda>r. Some (''{'' @ show_int (co_id r) @ ''}'')) crawl_key
       (crawl_page (\<lambda>_. None)) (Some ''h'')) demo_query =
     Some (''{1}'' @ [LF] @ ''{2}'' @ [LF])"
proof -
  let ?rng = "\<lparr>tr_from = 400, tr_to = 86400000000000\<rparr>"
  let ?ser = "\<lambda>r. Some (''{'' @ show_int (co_id r) @ ''}'')"
  let ?F = "crawl_feed (\<lambda>_. None) demo_history (from_unix_ms ?rng) (to_unix_ms ?rng) None"
  have s: "show_int 1 = ''1''" "show_int 2 = ''2''" by code_simp+
  have "map co_id ?F = [1, 2]"
    by (simp add: crawl_feed_def demo_history_def demo_window_def joined_windows_def in_page_def window_key_def from_unix_ms_def
        to_unix_ms_def ceil_div_def nanos_def window_out_def complete_window_def joined_sightings_def)
  then obtain a b where F: "?F = [a, b]" "co_id a = 1" "co_id b = 2" by (auto simp: map_eq_Cons_conv)
  have "crawl_db_ok demo_history" by (simp add: crawl_db_ok_def demo_history_def demo_window_def fits_i64_def)
  moreover have "cursor_from_query demo_query = Inr None" "node_param demo_query = Inr None"
    by (simp_all add: cursor_from_query_def node_param_def single_query_value_def demo_query_def pair_key_def CURSOR_PARAM_def)
  moreover have "\<forall>r \<in> set ?F. row_ok ?ser r" by (simp add: F row_ok_def s MAX_PAGE_BYTES_def)
  ultimately have "follow_links (Suc (length ?F)) (paged demo_chrono (\<lambda>_. Inr demo_history) ?ser crawl_key (crawl_page (\<lambda>_. None)) (Some ''h'')) demo_query =
      Some (row_lines ?ser ?F)"
    using crawlers_walk_complete [of "\<lambda>_. Inr demo_history" "''h''" demo_history demo_chrono demo_query ?rng None None ?F "\<lambda>_. None" ?ser] demo_range
    by (simp add: node_of_def)
  moreover have "row_lines ?ser ?F = ''{1}'' @ [LF] @ ''{2}'' @ [LF]" by (simp add: F s row_line_def)
  ultimately show ?thesis by metis
qed

end
