(* ===== verification/History_Writer.thy ===== *)
theory History_Writer
  imports History_Pages Step_System
begin

text \<open>
  The write side of the monitor's history, from \<open>m6-monitor/src/history.rs\<close>: what a crawler window keeps of
  its sightings, how old polls are deleted to stay under the cap, and the writer thread with the status it
  reports.

  The tables and their rows are those of the read side, with the polls beside them. How many bytes a database
  uses, and whether a transaction fails, is what SQLite answers: parameters. For the writer thread, what \<open>Store::open\<close> and \<open>Store::write\<close>
  answered is part of the step. Counters are natural numbers.
\<close>

section \<open>Sightings\<close>

definition MAX_AGENT_BYTES :: nat where "MAX_AGENT_BYTES = 256"
definition MAX_SIGHTINGS :: nat where "MAX_SIGHTINGS = 100"

text \<open>\<open>i64::try_from(v).unwrap_or(i64::MAX)\<close> for \<open>u64\<close> and \<open>usize\<close>, and \<open>i64::saturating_add\<close>.\<close>

definition i_of :: "nat \<Rightarrow> int" where
  "i_of v = (if int v \<le> i64_max then int v else i64_max)"

definition i64_saturating_add :: "int \<Rightarrow> int \<Rightarrow> int" where
  "i64_saturating_add a b = max (- (2 ^ 63)) (min i64_max (a + b))"

record crawler_report =
  cr_user_agent :: string
  cr_requests :: nat
  cr_client_ips :: "string list"
  cr_paths :: "string list"

record capped =
  cp_user_agent :: string
  cp_requests :: int
  cp_client_ips :: "string list"
  cp_paths :: "string list"

definition is_char_boundary :: "string \<Rightarrow> nat \<Rightarrow> bool" where
  "is_char_boundary s n \<longleftrightarrow> n = 0 \<or> n = length s \<or> n < length s \<and> \<not> utf8_cont (s ! n)"

fun boundary_below :: "string \<Rightarrow> nat \<Rightarrow> nat" where
  "boundary_below s 0 = 0"
| "boundary_below s (Suc n) = (if is_char_boundary s (Suc n) then Suc n else boundary_below s n)"

definition truncate_utf8 :: "string \<Rightarrow> nat \<Rightarrow> string" where
  "truncate_utf8 s m = take (boundary_below s (min m (length s))) s"

definition merge_list :: "string list \<Rightarrow> string list \<Rightarrow> string list" where
  "merge_list into others = foldl (\<lambda>v s. if s \<in> set v then v else v @ [s]) into others"

text \<open>The loop of \<open>cap_sightings\<close>: the sightings so far and where each agent is.\<close>

definition cap_step :: "capped list \<times> (string \<Rightarrow> nat option) \<Rightarrow> crawler_report \<Rightarrow> capped list \<times> (string \<Rightarrow> nat option)" where
  "cap_step acc c = (case acc of (out, idx) \<Rightarrow>
     (let ua = truncate_utf8 (cr_user_agent c) MAX_AGENT_BYTES in
      case idx ua of
        Some k \<Rightarrow> (out[k := (out ! k)\<lparr>cp_requests := i64_saturating_add (cp_requests (out ! k)) (i_of (cr_requests c)),
                     cp_client_ips := merge_list (cp_client_ips (out ! k)) (cr_client_ips c),
                     cp_paths := merge_list (cp_paths (out ! k)) (cr_paths c)\<rparr>], idx)
      | None \<Rightarrow> (out @ [\<lparr>cp_user_agent = ua, cp_requests = i_of (cr_requests c), cp_client_ips = cr_client_ips c,
                     cp_paths = cr_paths c\<rparr>], idx(ua \<mapsto> length out))))"

definition cap_sightings :: "crawler_report list \<Rightarrow> capped list \<times> int" where
  "cap_sightings crawlers =
     (let out = sort_key (\<lambda>c. (- cp_requests c, cp_user_agent c)) (fst (foldl cap_step ([], Map.empty) crawlers));
          dropped = length out - MAX_SIGHTINGS
      in (take MAX_SIGHTINGS out, i_of dropped))"

section \<open>Pruning\<close>

definition PRUNE_BATCH :: nat where "PRUNE_BATCH = 256"

record store_db = history_db +
  db_poll :: "(int \<times> int) list"

text \<open>\<open>DELETE FROM poll\<close> with its cascades, and \<open>DELETE FROM agent\<close> for the agents no sighting names.\<close>

definition oldest_polls :: "int \<Rightarrow> store_db \<Rightarrow> int list" where
  "oldest_polls keep_from db = take PRUNE_BATCH (sort (filter (\<lambda>i. i < keep_from) (map fst (db_poll db))))"

definition delete_polls :: "int list \<Rightarrow> store_db \<Rightarrow> store_db" where
  "delete_polls ids db =
     (let ws = filter (\<lambda>w. cw_poll_id w \<notin> set ids) (db_crawl_window db);
          gone = {cw_id w | w. w \<in> set (db_crawl_window db) \<and> cw_poll_id w \<in> set ids}
      in db\<lparr>db_poll := filter (\<lambda>p. fst p \<notin> set ids) (db_poll db), db_crawl_window := ws,
            db_crawl_status := filter (\<lambda>s. cs_window_id s \<notin> gone) (db_crawl_status db),
            db_crawl_sighting := filter (\<lambda>s. sg_window_id s \<notin> gone) (db_crawl_sighting db)\<rparr>)"

definition delete_agents :: "store_db \<Rightarrow> store_db" where
  "delete_agents db = db\<lparr>db_agent := filter (\<lambda>a. fst a \<in> sg_agent_id ` set (db_crawl_sighting db)) (db_agent db)\<rparr>"

lemma polls_deleted_length:
  assumes "oldest_polls keep_from db \<noteq> []"
  shows "length (filter (\<lambda>p. fst p < keep_from) (db_poll (delete_agents (delete_polls (oldest_polls keep_from db) db)))) <
     length (filter (\<lambda>p. fst p < keep_from) (db_poll db))"
proof -
  have db: "db_poll (delete_agents (delete_polls ids db)) = filter (\<lambda>p. fst p \<notin> set ids) (db_poll db)" for ids
    by (simp add: delete_agents_def delete_polls_def Let_def)
  from assms obtain i where i: "i \<in> set (oldest_polls keep_from db)" by (cases "oldest_polls keep_from db") auto
  then have "i \<in> set (sort (filter (\<lambda>i. i < keep_from) (map fst (db_poll db))))"
    unfolding oldest_polls_def by (rule in_set_takeD)
  then obtain p where p: "p \<in> set (db_poll db)" "fst p = i" "i < keep_from" by auto
  have "length (filter (\<lambda>p. fst p \<notin> set ids) (filter (\<lambda>p. fst p < keep_from) (db_poll db))) < length (filter (\<lambda>p. fst p < keep_from) (db_poll db))"
    if "i \<in> set ids" for ids
    using p that by (intro length_filter_less [of p]) auto
  then show ?thesis using i by (simp add: db conj_commute)
qed

text \<open>The loop: the error that stops it, if one does, the database, the bytes used and the polls deleted. A step
  is one transaction, which may fail.\<close>

function prune_loop ::
  "(store_db \<Rightarrow> string + nat) \<Rightarrow> (store_db \<Rightarrow> string option) \<Rightarrow> nat \<Rightarrow> int \<Rightarrow> store_db \<Rightarrow> nat \<Rightarrow> nat \<Rightarrow>
     string option \<times> store_db \<times> nat \<times> nat" where
  "prune_loop used_bytes tx_fail target keep_from db used pruned =
     (if used \<le> target then (None, db, used, pruned)
      else (case tx_fail db of
          Some e \<Rightarrow> (Some e, db, used, pruned)
        | None \<Rightarrow>
            (let ids = oldest_polls keep_from db; db' = delete_agents (delete_polls ids db);
                 pruned' = pruned + length (filter (\<lambda>p. fst p \<in> set ids) (db_poll db)) in
             if ids = [] then (None, db', used, pruned)
             else (case used_bytes db' of
                 Inl e \<Rightarrow> (Some e, db', used, pruned')
               | Inr u \<Rightarrow> prune_loop used_bytes tx_fail target keep_from db' u pruned'))))"
  by pat_completeness auto
termination
  by (relation "measure (\<lambda>(_, _, _, keep_from, db, _, _). length (filter (\<lambda>p. fst p < keep_from) (db_poll db)))")
     (auto intro: polls_deleted_length)

declare prune_loop.simps [simp del]

text \<open>The result: the error, the database, the polls deleted, and whether the cap could not be met.\<close>

definition prune ::
  "(store_db \<Rightarrow> string + nat) \<Rightarrow> (store_db \<Rightarrow> string option) \<Rightarrow> nat \<Rightarrow> int \<Rightarrow> store_db \<Rightarrow> string option \<times> store_db \<times> nat \<times> bool" where
  "prune used_bytes tx_fail cap keep_from db = (case used_bytes db of
     Inl e \<Rightarrow> (Some e, db, 0, False)
   | Inr used \<Rightarrow>
      if cap < used then
        (let target = cap - cap div 20;
             (err, db', used', pruned) = prune_loop used_bytes tx_fail target keep_from db used 0
         in (err, db', pruned, err = None \<and> target < used'))
      else (None, db, 0, False))"

section \<open>The status and the writer thread\<close>

definition QUEUE_POLLS :: nat where "QUEUE_POLLS = 8"

record history_config =
  hc_file :: string
  hc_max_bytes :: nat

record write_report =
  wr_crawl_windows :: nat
  wr_poll_id :: int
  wr_pruned :: nat
  wr_cap_unmet :: bool
  wr_prune_error :: "string option"
  wr_used_bytes :: nat
  wr_file_bytes :: nat
  wr_oldest_ms :: "int option"
  wr_newest_ms :: "int option"

record history_status =
  hs_open_error :: "string option"
  hs_last_error :: "string option"
  hs_prune_error :: "string option"
  hs_over_cap :: bool
  hs_writes :: nat
  hs_crawl_windows :: nat
  hs_failures :: nat
  hs_pruned :: nat
  hs_dropped_acked :: nat
  hs_last_write :: "nat option"
  hs_used_bytes :: "nat option"
  hs_file_bytes :: "nat option"
  hs_oldest_ms :: "int option"
  hs_newest_ms :: "int option"

record shared =
  sh_cfg :: "history_config option"
  sh_status :: history_status
  sh_dropped :: nat
  sh_stopped :: bool

definition status_default :: history_status where
  "status_default = \<lparr>hs_open_error = None, hs_last_error = None, hs_prune_error = None, hs_over_cap = False, hs_writes = 0,
     hs_crawl_windows = 0, hs_failures = 0, hs_pruned = 0, hs_dropped_acked = 0, hs_last_write = None, hs_used_bytes = None,
     hs_file_bytes = None, hs_oldest_ms = None, hs_newest_ms = None\<rparr>"

definition new_shared :: "history_config option \<Rightarrow> shared" where
  "new_shared cfg = \<lparr>sh_cfg = cfg, sh_status = status_default, sh_dropped = 0, sh_stopped = False\<rparr>"

record history_digest =
  hd_state :: string
  hd_file :: "string option"
  hd_max_bytes :: "nat option"
  hd_file_bytes :: "nat option"
  hd_used_bytes :: "nat option"
  hd_oldest_at :: "string option"
  hd_newest_at :: "string option"
  hd_last_write_age_s :: "nat option"
  hd_writes :: nat
  hd_crawl_windows :: nat
  hd_failures :: nat
  hd_dropped :: nat
  hd_pruned :: nat
  hd_last_error :: "string option"

definition OVER_CAP :: string where
  "OVER_CAP = ''the history is over its cap and deleting every earlier poll cannot get under it''"

definition history_state :: "shared \<Rightarrow> string" where
  "history_state sh = (let s = sh_status sh in
     if sh_cfg sh = None then ''off''
     else if sh_stopped sh then ''stopped''
     else if hs_open_error s \<noteq> None then ''not_open''
     else if hs_last_error s \<noteq> None then ''failing''
     else if hs_prune_error s \<noteq> None then ''prune_failed''
     else if hs_over_cap s then ''over_cap''
     else if hs_dropped_acked s < sh_dropped sh then ''behind''
     else ''ok'')"

text \<open>\<open>HistoryHandle::digest\<close>; \<open>rfc3339\<close> formats a millisecond timestamp, and the clock is in seconds.\<close>

definition history_digest_of :: "(int \<Rightarrow> string) \<Rightarrow> nat \<Rightarrow> shared \<Rightarrow> history_digest" where
  "history_digest_of rfc3339 now sh = (let s = sh_status sh in
     \<lparr>hd_state = history_state sh, hd_file = map_option hc_file (sh_cfg sh), hd_max_bytes = map_option hc_max_bytes (sh_cfg sh),
      hd_file_bytes = hs_file_bytes s, hd_used_bytes = hs_used_bytes s, hd_oldest_at = map_option rfc3339 (hs_oldest_ms s),
      hd_newest_at = map_option rfc3339 (hs_newest_ms s), hd_last_write_age_s = map_option (\<lambda>t. now - t) (hs_last_write s),
      hd_writes = hs_writes s, hd_crawl_windows = hs_crawl_windows s, hd_failures = hs_failures s, hd_dropped = sh_dropped sh,
      hd_pruned = hs_pruned s,
      hd_last_error = first_some (hs_open_error s) (first_some (hs_last_error s) (first_some (hs_prune_error s)
        (if hs_over_cap s then Some OVER_CAP else None)))\<rparr>)"

datatype level = LevelOk | Warn | Fault

record finding =
  fi_level :: level
  fi_node :: string
  fi_text :: string

definition history_finding_text :: "history_digest \<Rightarrow> string option" where
  "history_finding_text h =
     (let err = (case hd_last_error h of Some e \<Rightarrow> e | None \<Rightarrow> ''-'') in
      if hd_state h = ''not_open'' then
        Some (''history file '' @ (case hd_file h of Some f \<Rightarrow> f | None \<Rightarrow> ''-'') @
          '' could not be opened, so no history is being kept: '' @ err)
      else if hd_state h = ''failing'' then
        Some (''the last history write failed, so that poll is missing from the history: '' @ err)
      else if hd_state h = ''prune_failed'' then
        Some (''the history could not delete old polls, so the file may grow past its cap: '' @ err)
      else if hd_state h = ''over_cap'' then
        Some (''the history file is over its cap of '' @ show_nat ((case hd_max_bytes h of Some m \<Rightarrow> m | None \<Rightarrow> 0) div 2 ^ 20) @
          '' MB even with every earlier poll deleted, so history_max_mb is too small'')
      else if hd_state h = ''behind'' then
        Some (''the history writer is behind and has dropped '' @ show_nat (hd_dropped h) @
          '' poll(s) since start: is the disk slow or the file locked?'')
      else if hd_state h = ''stopped'' then Some ''the history writer has stopped, so no history is being kept''
      else None)"

definition history_finding :: "history_digest \<Rightarrow> finding option" where
  "history_finding h = map_option (\<lambda>t. \<lparr>fi_level = Warn, fi_node = ''monitor'', fi_text = t\<rparr>) (history_finding_text h)"

definition writer_fail :: "string \<Rightarrow> bool \<Rightarrow> history_status \<Rightarrow> history_status" where
  "writer_fail msg opening st = (let st = st\<lparr>hs_failures := hs_failures st + 1\<rparr> in
     if opening then st\<lparr>hs_open_error := Some msg\<rparr> else st\<lparr>hs_last_error := Some msg\<rparr>)"

definition writer_wrote :: "write_report \<Rightarrow> nat \<Rightarrow> nat \<Rightarrow> history_status \<Rightarrow> history_status" where
  "writer_wrote w now dropped st = st\<lparr>hs_last_error := None, hs_writes := hs_writes st + 1,
     hs_crawl_windows := hs_crawl_windows st + wr_crawl_windows w, hs_pruned := hs_pruned st + wr_pruned w,
     hs_last_write := Some now, hs_used_bytes := Some (wr_used_bytes w), hs_file_bytes := Some (wr_file_bytes w),
     hs_oldest_ms := wr_oldest_ms w, hs_newest_ms := wr_newest_ms w, hs_dropped_acked := dropped,
     hs_prune_error := wr_prune_error w, hs_over_cap := wr_cap_unmet w\<rparr>"

text \<open>\<open>Writer::handle\<close>: whether the store is open, what opening and writing answered, and the clock.\<close>

definition writer_handle ::
  "string option \<Rightarrow> string + write_report \<Rightarrow> nat \<Rightarrow> bool \<times> shared \<Rightarrow> bool \<times> shared" where
  "writer_handle opened wrote now wr = (case wr of (store, sh) \<Rightarrow>
     (let st = sh_status sh in
      if \<not> store \<and> opened \<noteq> None then (False, sh\<lparr>sh_status := writer_fail (the opened) True st\<rparr>)
      else (let st = (if store then st else st\<lparr>hs_open_error := None\<rparr>) in
        case wrote of
          Inr w \<Rightarrow> (True, sh\<lparr>sh_status := writer_wrote w now (sh_dropped sh) st\<rparr>)
        | Inl e \<Rightarrow> (False, sh\<lparr>sh_status := writer_fail e False st\<rparr>))))"

datatype send_result = Sent | QueueFull | Disconnected

text \<open>A recorder has a sender unless history is off.\<close>

definition recorder_record :: "bool \<Rightarrow> send_result \<Rightarrow> shared \<Rightarrow> shared" where
  "recorder_record tx r sh =
     (if \<not> tx then sh
      else (case r of
          Sent \<Rightarrow> sh
        | QueueFull \<Rightarrow> sh\<lparr>sh_dropped := sh_dropped sh + 1\<rparr>
        | Disconnected \<Rightarrow> sh\<lparr>sh_stopped := True\<rparr>))"

text \<open>\<open>start\<close>: \<open>opened\<close> is \<open>None\<close> when the store opened, otherwise the error and whether it is fatal. The result is whether
  there is a sender, whether the store is open, and the shared state; \<open>None\<close> is the error with which the service exits.\<close>

definition history_start :: "history_config option \<Rightarrow> (bool \<times> string) option \<Rightarrow> (bool \<times> bool \<times> shared) option" where
  "history_start cfg opened = (case cfg of
     None \<Rightarrow> Some (False, False, new_shared None)
   | Some _ \<Rightarrow> (case opened of
       None \<Rightarrow> Some (True, True, new_shared cfg)
     | Some (fatal, e) \<Rightarrow>
         if fatal then None
         else Some (True, False, (new_shared cfg)\<lparr>sh_status := status_default\<lparr>hs_open_error := Some e\<rparr>\<rparr>)))"

section \<open>A window keeps its busiest agents\<close>

definition agent_of :: "crawler_report \<Rightarrow> string" where
  "agent_of c = truncate_utf8 (cr_user_agent c) MAX_AGENT_BYTES"

definition agent_requests :: "crawler_report list \<Rightarrow> string \<Rightarrow> nat" where
  "agent_requests cs ua = sum_list (map cr_requests (filter (\<lambda>c. agent_of c = ua) cs))"

lemma boundary_below_le: "boundary_below s n \<le> n"
  by (induction n) auto

lemma boundary_below_boundary: "is_char_boundary s (boundary_below s n)"
  by (induction n) (auto simp: is_char_boundary_def)

lemma truncate_utf8_length: "length (truncate_utf8 s m) \<le> m"
  using boundary_below_le [of s "min m (length s)"] by (simp add: truncate_utf8_def)

lemma i64_saturating_add_total:
  "i64_saturating_add (min i64_max (int a)) (i_of b) = min i64_max (int (a + b))"
  by (auto simp: i64_saturating_add_def i_of_def)

definition cap_inv :: "crawler_report list \<Rightarrow> capped list \<times> (string \<Rightarrow> nat option) \<Rightarrow> bool" where
  "cap_inv cs acc \<longleftrightarrow> (case acc of (out, idx) \<Rightarrow>
     (\<forall>ua k. idx ua = Some k \<longleftrightarrow> k < length out \<and> cp_user_agent (out ! k) = ua) \<and>
     cp_user_agent ` set out = agent_of ` set cs \<and>
     (\<forall>k < length out. cp_requests (out ! k) = min i64_max (int (agent_requests cs (cp_user_agent (out ! k))))))"

lemma agent_requests_snoc: "agent_requests (cs @ [c]) ua = agent_requests cs ua + (if agent_of c = ua then cr_requests c else 0)"
  by (simp add: agent_requests_def)

lemma cap_inv_step:
  assumes "cap_inv cs acc"
  shows "cap_inv (cs @ [c]) (cap_step acc c)"
proof -
  obtain out idx where acc: "acc = (out, idx)" by (cases acc)
  have idx: "idx ua = Some k \<longleftrightarrow> k < length out \<and> cp_user_agent (out ! k) = ua" for ua k
    using assms by (simp add: cap_inv_def acc)
  have uas: "cp_user_agent ` set out = agent_of ` set cs" using assms by (simp add: cap_inv_def acc)
  have req: "cp_requests (out ! k) = min i64_max (int (agent_requests cs (cp_user_agent (out ! k))))" if "k < length out" for k
    using assms that by (simp add: cap_inv_def acc)
  show ?thesis
  proof (cases "idx (agent_of c)")
    case (Some k)
    then have k: "k < length out" "cp_user_agent (out ! k) = agent_of c" by (simp_all add: idx)
    let ?r = "(out ! k)\<lparr>cp_requests := i64_saturating_add (cp_requests (out ! k)) (i_of (cr_requests c)),
       cp_client_ips := merge_list (cp_client_ips (out ! k)) (cr_client_ips c), cp_paths := merge_list (cp_paths (out ! k)) (cr_paths c)\<rparr>"
    have step: "cap_step acc c = (out[k := ?r], idx)" using Some by (simp add: cap_step_def acc agent_of_def Let_def)
    have ua: "cp_user_agent (out[k := ?r] ! j) = cp_user_agent (out ! j)" for j
      using k(1) by (cases "j = k") simp_all
    have "map cp_user_agent (out[k := ?r]) = map cp_user_agent out"
      by (rule nth_equalityI) (use ua in simp_all)
    then have "cp_user_agent ` set (out[k := ?r]) = cp_user_agent ` set out" by (metis list.set_map)
    moreover have "agent_of c \<in> cp_user_agent ` set out" using k by (metis image_eqI nth_mem)
    ultimately have "cp_user_agent ` set (out[k := ?r]) = agent_of ` set (cs @ [c])" using uas by auto
    moreover have "cp_requests (out[k := ?r] ! j) = min i64_max (int (agent_requests (cs @ [c]) (cp_user_agent (out ! j))))" if "j < length out" for j
    proof (cases "j = k")
      case True
      then show ?thesis using k req [of k] i64_saturating_add_total by (simp add: agent_requests_snoc)
    next
      case False
      then have "cp_user_agent (out ! j) \<noteq> agent_of c" using idx that k by (metis option.inject)
      then show ?thesis using False req [OF that] by (simp add: agent_requests_snoc)
    qed
    ultimately show ?thesis unfolding step cap_inv_def prod.case ua length_list_update using idx by blast
  next
    case None
    have new: "agent_of c \<notin> cp_user_agent ` set out"
    proof
      assume "agent_of c \<in> cp_user_agent ` set out"
      then obtain k where "k < length out" "cp_user_agent (out ! k) = agent_of c" by (auto simp: in_set_conv_nth)
      then have "idx (agent_of c) = Some k" by (simp only: idx)
      then show False using None by simp
    qed
    then have "filter (\<lambda>x. agent_of x = agent_of c) cs = []" unfolding uas by (metis (mono_tags, lifting) filter_False image_eqI)
    then have z: "agent_requests cs (agent_of c) = 0" by (simp add: agent_requests_def)
    have step: "cap_step acc c = (out @ [\<lparr>cp_user_agent = agent_of c, cp_requests = i_of (cr_requests c),
        cp_client_ips = cr_client_ips c, cp_paths = cr_paths c\<rparr>], idx(agent_of c \<mapsto> length out))"
      using None by (simp add: cap_step_def acc agent_of_def Let_def)
    have fresh: "cp_user_agent (out ! j) \<noteq> agent_of c" if "j < length out" for j using new that by (metis image_eqI nth_mem)
    then have "agent_of c \<noteq> cp_user_agent (out ! j)" if "j < length out" for j using that by metis
    then show ?thesis unfolding step cap_inv_def
      using uas z req idx fresh by (auto simp: nth_append agent_requests_snoc i_of_def less_Suc_eq)
  qed
qed

lemma cap_inv_fold: "cap_inv cs (foldl cap_step ([], Map.empty) cs)"
proof (induction cs rule: rev_induct)
  case Nil
  then show ?case by (simp add: cap_inv_def)
next
  case (snoc c cs)
  then show ?case by (simp add: cap_inv_step)
qed

lemma cap_fold:
  defines "out cs \<equiv> fst (foldl cap_step ([], Map.empty) cs)"
  shows "distinct (map cp_user_agent (out cs))" "cp_user_agent ` set (out cs) = agent_of ` set cs"
    "\<forall>c \<in> set (out cs). cp_requests c = min i64_max (int (agent_requests cs (cp_user_agent c)))"
proof -
  obtain o' idx where f: "foldl cap_step ([], Map.empty) cs = (o', idx)" by fastforce
  have inv: "cap_inv cs (o', idx)" using cap_inv_fold [of cs] by (simp add: f)
  have idx: "idx ua = Some k \<longleftrightarrow> k < length o' \<and> cp_user_agent (o' ! k) = ua" for ua k using inv by (simp add: cap_inv_def)
  have "i = j" if "i < length o'" "j < length o'" "cp_user_agent (o' ! i) = cp_user_agent (o' ! j)" for i j
    using that idx by (metis option.inject)
  then show "distinct (map cp_user_agent (out cs))" by (auto simp: out_def f distinct_conv_nth)
  show "cp_user_agent ` set (out cs) = agent_of ` set cs" using inv by (simp add: out_def f cap_inv_def)
  show "\<forall>c \<in> set (out cs). cp_requests c = min i64_max (int (agent_requests cs (cp_user_agent c)))"
    using inv by (auto simp: out_def f cap_inv_def in_set_conv_nth)
qed


definition demo_reports :: "crawler_report list" where
  "demo_reports = map (\<lambda>(ua, n). \<lparr>cr_user_agent = ua, cr_requests = n, cr_client_ips = [], cr_paths = []\<rparr>)
     [(''bot'', 2), (''ant'', 4), (''bot'', 3)]"


section \<open>Pruning keeps the newest polls\<close>

text \<open>The rows of a database belong together: a window to a poll, a status and a sighting to a window and a
  sighting to an agent.\<close>

definition references_ok :: "store_db \<Rightarrow> bool" where
  "references_ok db \<longleftrightarrow> (\<forall>w \<in> set (db_crawl_window db). cw_poll_id w \<in> fst ` set (db_poll db)) \<and>
     (\<forall>s \<in> set (db_crawl_status db). cs_window_id s \<in> cw_id ` set (db_crawl_window db)) \<and>
     (\<forall>s \<in> set (db_crawl_sighting db). sg_window_id s \<in> cw_id ` set (db_crawl_window db) \<and> sg_agent_id s \<in> fst ` set (db_agent db))"

text \<open>\<open>pruned_to db db'\<close>: a set of polls is gone with all that belongs to them, the oldest of those that may go.\<close>

definition pruned_to :: "int \<Rightarrow> store_db \<Rightarrow> store_db \<Rightarrow> bool" where
  "pruned_to keep_from db db' \<longleftrightarrow> (\<exists>D. (\<forall>i \<in> D. i < keep_from) \<and>
     db_poll db' = filter (\<lambda>p. fst p \<notin> D) (db_poll db) \<and>
     db_crawl_window db' = filter (\<lambda>w. cw_poll_id w \<notin> D) (db_crawl_window db) \<and>
     (\<forall>p \<in> set (db_poll db'). \<forall>i \<in> D. i < fst p))"

definition prune_once :: "int \<Rightarrow> store_db \<Rightarrow> store_db" where
  "prune_once keep_from db = delete_agents (delete_polls (oldest_polls keep_from db) db)"

lemma prune_once_simps [simp]:
  "db_poll (prune_once k db) = filter (\<lambda>p. fst p \<notin> set (oldest_polls k db)) (db_poll db)"
  "db_crawl_window (prune_once k db) = filter (\<lambda>w. cw_poll_id w \<notin> set (oldest_polls k db)) (db_crawl_window db)"
  by (simp_all add: prune_once_def delete_agents_def delete_polls_def Let_def)

lemma oldest_polls_less: "i \<in> set (oldest_polls k db) \<Longrightarrow> i < k"
  unfolding oldest_polls_def by (drule in_set_takeD) simp

lemma oldest_polls_first:
  assumes "p \<in> set (db_poll db)" "fst p \<notin> set (oldest_polls k db)" "i \<in> set (oldest_polls k db)"
  shows "i < fst p"
proof (cases "fst p < k")
  case True
  let ?L = "sort (filter (\<lambda>i. i < k) (map fst (db_poll db)))"
  have "fst p \<in> set ?L" using assms(1) True by auto
  then have "fst p \<in> set (drop PRUNE_BATCH ?L)"
    using assms(2) by (metis UnE append_take_drop_id oldest_polls_def set_append)
  moreover have "sorted (take PRUNE_BATCH ?L @ drop PRUNE_BATCH ?L)" by (simp del: append_take_drop_id add: append_take_drop_id)
  ultimately have "i \<le> fst p" using assms(3) by (simp only: sorted_append oldest_polls_def)
  then show ?thesis using assms(2,3) by (cases "i = fst p") auto
next
  case False
  then show ?thesis using oldest_polls_less [OF assms(3)] by simp
qed

lemma pruned_to_once: "pruned_to k db (prune_once k db)"
  unfolding pruned_to_def
  by (intro exI [of _ "set (oldest_polls k db)"]) (use oldest_polls_first [of _ db k] in \<open>auto simp: oldest_polls_less\<close>)

lemma pruned_to_refl: "pruned_to k db db"
  by (simp add: pruned_to_def exI [of _ "{}"])

lemma pruned_to_trans:
  assumes "pruned_to k a b" "pruned_to k b c"
  shows "pruned_to k a c"
proof -
  from assms(1) obtain D where D: "\<forall>i \<in> D. i < k" "db_poll b = filter (\<lambda>p. fst p \<notin> D) (db_poll a)"
    "db_crawl_window b = filter (\<lambda>w. cw_poll_id w \<notin> D) (db_crawl_window a)" "\<forall>p \<in> set (db_poll b). \<forall>i \<in> D. i < fst p"
    unfolding pruned_to_def by blast
  from assms(2) obtain E where E: "\<forall>i \<in> E. i < k" "db_poll c = filter (\<lambda>p. fst p \<notin> E) (db_poll b)"
    "db_crawl_window c = filter (\<lambda>w. cw_poll_id w \<notin> E) (db_crawl_window b)" "\<forall>p \<in> set (db_poll c). \<forall>i \<in> E. i < fst p"
    unfolding pruned_to_def by blast
  show ?thesis unfolding pruned_to_def
    by (rule exI [of _ "D \<union> E"]) (use D E in \<open>auto intro!: filter_cong\<close>)
qed

lemma references_once:
  assumes "references_ok db" "distinct (map cw_id (db_crawl_window db))"
  shows "references_ok (prune_once k db) \<and> distinct (map cw_id (db_crawl_window (prune_once k db)))"
proof -
  let ?ids = "set (oldest_polls k db)"
  have "w' = w" if "w \<in> set (db_crawl_window db)" "w' \<in> set (db_crawl_window db)" "cw_id w' = cw_id w" for w w'
    using that assms(2) by (auto simp: distinct_map inj_on_def)
  then have keep: "i \<in> cw_id ` set (db_crawl_window (prune_once k db))"
    if "i \<in> cw_id ` set (db_crawl_window db)" "i \<notin> {cw_id w | w. w \<in> set (db_crawl_window db) \<and> cw_poll_id w \<in> ?ids}" for i
    using that by auto
  have "\<forall>w \<in> set (db_crawl_window (prune_once k db)). cw_poll_id w \<in> fst ` set (db_poll (prune_once k db))"
    using assms(1) by (auto simp: references_ok_def) force
  moreover have "\<forall>s \<in> set (db_crawl_status (prune_once k db)). cs_window_id s \<in> cw_id ` set (db_crawl_window (prune_once k db))"
    using assms(1) keep by (auto simp: references_ok_def prune_once_def delete_agents_def delete_polls_def Let_def)
  moreover have "\<forall>s \<in> set (db_crawl_sighting (prune_once k db)). sg_window_id s \<in> cw_id ` set (db_crawl_window (prune_once k db)) \<and>
      sg_agent_id s \<in> fst ` set (db_agent (prune_once k db))"
    using assms(1) keep by (auto simp: references_ok_def prune_once_def delete_agents_def delete_polls_def Let_def) force
  ultimately show ?thesis using assms(2) by (simp add: references_ok_def distinct_map_filter)
qed

lemma prune_loop_correct:
  assumes "prune_loop used tx target k db u n = (err, db', u', n')" "references_ok db" "distinct (map cw_id (db_crawl_window db))"
  shows "pruned_to k db db' \<and> references_ok db' \<and> n' + length (db_poll db') = n + length (db_poll db) \<and>
     (err = None \<longrightarrow> u' \<le> target \<or> (\<forall>p \<in> set (db_poll db'). k \<le> fst p)) \<and>
     (err = None \<and> used db = Inr u \<and> u' \<le> target \<longrightarrow> used db' = Inr u')"
  using assms
proof (induction used tx target k db u n rule: prune_loop.induct)
  case (1 used tx target k db u n)
  let ?m = "length (filter (\<lambda>p. fst p \<in> set (oldest_polls k db)) (db_poll db))"
  note step = prune_loop.simps [of used tx target k db u n, folded prune_once_def]
  note ref = references_once [OF 1(3,4), of k]
  have m: "?m + length (db_poll (prune_once k db)) = length (db_poll db)"
    by (simp add: sum_length_filter_compl)
  consider "u \<le> target" | e where "\<not> u \<le> target" "tx db = Some e"
    | "\<not> u \<le> target" "tx db = None" "oldest_polls k db = []"
    | e where "\<not> u \<le> target" "tx db = None" "oldest_polls k db \<noteq> []" "used (prune_once k db) = Inl e"
    | v where "\<not> u \<le> target" "tx db = None" "oldest_polls k db \<noteq> []" "used (prune_once k db) = Inr v"
    by (meson not_None_eq sum.exhaust)
  then show ?case
  proof cases
    case 1
    then show ?thesis using "1.prems" step by (simp add: pruned_to_refl)
  next
    case 2
    then have "err = Some e" "db' = db" "n' = n" using "1.prems"(1) step by simp_all
    then show ?thesis using "1.prems"(2) by (simp add: pruned_to_refl)
  next
    case 3
    then have db': "db' = prune_once k db" "u' = u" "n' = n" using "1.prems"(1) step by (simp_all add: Let_def prune_once_def)
    have "sort (filter (\<lambda>i. i < k) (map fst (db_poll db))) = []" using 3(3) by (simp add: oldest_polls_def PRUNE_BATCH_def)
    then have "filter (\<lambda>i. i < k) (map fst (db_poll db)) = []" by (metis set_empty set_sort)
    then have "\<forall>p \<in> set (db_poll db). k \<le> fst p" by (auto simp: filter_empty_conv not_less)
    then show ?thesis using 3 ref pruned_to_once [of k db] db' by simp
  next
    case 4
    then have db': "err = Some e" "db' = prune_once k db" "n' = n + ?m"
      using "1.prems"(1) step by (simp_all add: Let_def prune_once_def)
    show ?thesis using db'(1) ref pruned_to_once [of k db] m unfolding db'(2,3) by simp
  next
    case 5
    have rec: "prune_loop used tx target k (prune_once k db) v (n + ?m) = (err, db', u', n')"
      using "1.prems"(1) step 5 by (simp add: Let_def prune_once_def)
    from "1.IH" [OF 5(1,2) refl refl refl 5(3) 5(4) [unfolded prune_once_def]] rec ref 5(4)
    have ih: "pruned_to k (prune_once k db) db'" "references_ok db'"
      "n' + length (db_poll db') = n + ?m + length (db_poll (prune_once k db))"
      "err = None \<longrightarrow> u' \<le> target \<or> (\<forall>p \<in> set (db_poll db'). k \<le> fst p)"
      "err = None \<and> u' \<le> target \<longrightarrow> used db' = Inr u'"
      by (simp_all add: prune_once_def)
    then show ?thesis using m pruned_to_trans [OF pruned_to_once ih(1)] by simp
  qed
qed


definition demo_store :: store_db where
  "demo_store = \<lparr>db_node = [(1, ''a'')], db_agent = [(1, ''bot''), (2, ''ant'')],
     db_crawl_window = [(demo_window 1 0)\<lparr>cw_poll_id := 1\<rparr>, (demo_window 2 5)\<lparr>cw_poll_id := 2\<rparr>], db_crawl_status = [],
     db_crawl_sighting = [\<lparr>sg_window_id = 1, sg_agent_id = 1, sg_requests = 3, sg_client_ips = ''[]'', sg_paths = ''[]''\<rparr>,
       \<lparr>sg_window_id = 2, sg_agent_id = 2, sg_requests = 3, sg_client_ips = ''[]'', sg_paths = ''[]''\<rparr>],
     db_poll = [(1, 0), (2, 5)]\<rparr>"


section \<open>The writer never fails in silence\<close>

text \<open>The poller, the channel of eight polls and the writer thread, with what has happened so far: the polls handed in,
  those that were lost with the thread, and whether the last poll the thread took was written.\<close>

record history_system =
  hy_alive :: bool
  hy_queue :: nat
  hy_store :: bool
  hy_shared :: shared
  hy_recorded :: nat
  hy_lost :: nat
  hy_last :: "bool option"

definition written_of :: "bool \<Rightarrow> string option \<Rightarrow> string + write_report \<Rightarrow> bool" where
  "written_of store opened wrote \<longleftrightarrow> (store \<or> opened = None) \<and> \<not> isl wrote"

inductive history_step :: "history_system \<Rightarrow> history_system \<Rightarrow> bool" where
  sent: "hy_alive s \<Longrightarrow> hy_queue s < QUEUE_POLLS \<Longrightarrow>
     history_step s (s\<lparr>hy_queue := hy_queue s + 1, hy_shared := recorder_record True Sent (hy_shared s), hy_recorded := hy_recorded s + 1\<rparr>)"
| full: "hy_alive s \<Longrightarrow> hy_queue s = QUEUE_POLLS \<Longrightarrow>
     history_step s (s\<lparr>hy_shared := recorder_record True QueueFull (hy_shared s), hy_recorded := hy_recorded s + 1\<rparr>)"
| gone: "\<not> hy_alive s \<Longrightarrow>
     history_step s (s\<lparr>hy_shared := recorder_record True Disconnected (hy_shared s), hy_recorded := hy_recorded s + 1, hy_lost := hy_lost s + 1\<rparr>)"
| handled: "hy_alive s \<Longrightarrow> 0 < hy_queue s \<Longrightarrow> writer_handle opened wrote now (hy_store s, hy_shared s) = (store, sh) \<Longrightarrow>
     history_step s (s\<lparr>hy_queue := hy_queue s - 1, hy_store := store, hy_shared := sh,
       hy_last := Some (written_of (hy_store s) opened wrote)\<rparr>)"
| ended: "hy_alive s \<Longrightarrow>
     history_step s (s\<lparr>hy_alive := False, hy_queue := 0, hy_lost := hy_lost s + hy_queue s,
       hy_shared := (hy_shared s)\<lparr>sh_stopped := True\<rparr>\<rparr>)"

definition history_init :: "history_config \<Rightarrow> history_system \<Rightarrow> bool" where
  "history_init cfg s \<longleftrightarrow> (\<exists>opened store sh. history_start (Some cfg) opened = Some (True, store, sh) \<and>
     s = \<lparr>hy_alive = True, hy_queue = 0, hy_store = store, hy_shared = sh, hy_recorded = 0, hy_lost = 0, hy_last = None\<rparr>)"

definition history_inv :: "history_system \<Rightarrow> bool" where
  "history_inv s \<longleftrightarrow> (let sh = hy_shared s; st = sh_status sh in
     hy_recorded s = hs_writes st + hs_failures st + sh_dropped sh + hy_queue s + hy_lost s \<and>
     hy_queue s \<le> QUEUE_POLLS \<and> sh_cfg sh \<noteq> None \<and> (sh_stopped sh \<longleftrightarrow> \<not> hy_alive s) \<and>
     (hy_store s \<longrightarrow> hs_open_error st = None) \<and>
     (hy_last s = Some True \<longrightarrow> hs_last_error st = None) \<and>
     (hy_last s = Some False \<longrightarrow> hs_open_error st \<noteq> None \<or> hs_last_error st \<noteq> None))"

lemma history_inv_init: "history_init cfg s \<Longrightarrow> history_inv s"
proof -
  assume "history_init cfg s"
  then obtain opened store sh where o: "history_start (Some cfg) opened = Some (True, store, sh)"
    and s: "s = \<lparr>hy_alive = True, hy_queue = 0, hy_store = store, hy_shared = sh, hy_recorded = 0, hy_lost = 0, hy_last = None\<rparr>"
    by (auto simp: history_init_def)
  show ?thesis
  proof (cases opened)
    case None
    then show ?thesis using o by (auto simp: s history_start_def history_inv_def new_shared_def status_default_def)
  next
    case (Some f)
    then show ?thesis using o
      by (cases f) (auto simp: s history_start_def history_inv_def new_shared_def status_default_def split: if_splits)
  qed
qed

lemma writer_handle_counts:
  assumes "writer_handle opened wrote now (store, sh) = (store', sh')"
  shows "hs_writes (sh_status sh') + hs_failures (sh_status sh') = Suc (hs_writes (sh_status sh) + hs_failures (sh_status sh)) \<and>
    sh_dropped sh' = sh_dropped sh \<and> sh_cfg sh' = sh_cfg sh \<and> sh_stopped sh' = sh_stopped sh \<and>
    (store' \<longrightarrow> (store \<longrightarrow> hs_open_error (sh_status sh) = None) \<longrightarrow> hs_open_error (sh_status sh') = None) \<and>
    (written_of store opened wrote \<longrightarrow> hs_last_error (sh_status sh') = None) \<and>
    (\<not> written_of store opened wrote \<longrightarrow> hs_open_error (sh_status sh') \<noteq> None \<or> hs_last_error (sh_status sh') \<noteq> None)"
proof -
  consider "\<not> store" "opened \<noteq> None" | e where "store \<or> opened = None" "wrote = Inl e" | w where "store \<or> opened = None" "wrote = Inr w"
    by (cases wrote) auto
  then show ?thesis
  proof cases
    case 1
    then have "store' = False" "sh' = sh\<lparr>sh_status := writer_fail (the opened) True (sh_status sh)\<rparr>"
      using assms by (auto simp: writer_handle_def Let_def)
    then show ?thesis using 1 by (auto simp: writer_fail_def written_of_def Let_def)
  next
    case 2
    define st where "st = (if store then sh_status sh else (sh_status sh)\<lparr>hs_open_error := None\<rparr>)"
    have "store' = False" "sh' = sh\<lparr>sh_status := writer_fail e False st\<rparr>"
      using assms 2 by (auto simp: writer_handle_def Let_def st_def)
    then show ?thesis using 2 by (simp add: writer_fail_def written_of_def Let_def st_def)
  next
    case 3
    define st where "st = (if store then sh_status sh else (sh_status sh)\<lparr>hs_open_error := None\<rparr>)"
    have "sh' = sh\<lparr>sh_status := writer_wrote w now (sh_dropped sh) st\<rparr>"
      using assms 3 by (auto simp: writer_handle_def Let_def st_def)
    then show ?thesis using 3 by (simp add: writer_wrote_def written_of_def st_def)
  qed
qed

lemma history_inv_step: "history_inv s \<Longrightarrow> history_step s s' \<Longrightarrow> history_inv s'"
proof -
  assume inv: "history_inv s" and st: "history_step s s'"
  from st show ?thesis
  proof (cases rule: history_step.cases)
    case (handled opened wrote now store sh)
    note c = writer_handle_counts [OF handled(4)]
    show ?thesis using inv c handled(1-3) by (auto simp: history_inv_def Let_def)
  qed (use inv in \<open>auto simp: history_inv_def Let_def recorder_record_def\<close>)
qed

interpretation history: step_invariant "history_init cfg" history_step history_inv for cfg
  by unfold_locales (auto intro: history_inv_init history_inv_step)

lemma history_finding_quiet:
  "history_finding (history_digest_of rfc now sh) = None \<longleftrightarrow> history_state sh = ''off'' \<or> history_state sh = ''ok''"
  by (simp add: history_finding_def history_finding_text_def history_digest_of_def Let_def)
     (simp add: history_state_def Let_def)



end
