(* ===== verification/Spec2Isabelle.thy ===== *)
theory Spec2Isabelle
  imports H1_Reader H2_Flow H2_Theorems Auth_Server Path_Param Proxy_Theorems H1_Serving H1_Roundtrip
    Refusal_Log Conn_Driver Static_Files History_Writer
begin

text \<open>
  A verification development of m6, a web server written in Rust as a set of small processes: the
  proxy \<open>m6-http\<close> that faces the network, the backend services behind it (built with the \<open>App\<close> framework
  of \<open>m6-core\<close>: the file server \<open>m6-file\<close>, the authentication service \<open>m6-auth-server\<close>, renderers), the
  monitor \<open>m6-monitor\<close>, and tools. A request enters a listener of the proxy (HTTP/1.1, HTTP/2, HTTP/3), is parsed, validated and
  stripped of the proxy's own fields, throttled, checked against the route table and its tokens,
  answered from the response cache or forwarded over a socket to a member of a backend pool; the
  backend reads it with the blocking reader, routes it, builds the request dictionary, calls a handler
  and writes the answer with the one HTTP/1.1 responder; the proxy reads that answer, completes its
  fields, stores it if it may, and delivers it.

  \<^bold>\<open>Conventions.\<close> Strings and byte strings are \<open>char list\<close>, a character one byte; Rust's Unicode
  operations are spelled out on UTF-8. Machine integers are \<open>nat\<close> or \<open>int\<close> with the bound or the
  overflow check written out. A panic is the value \<open>Panic\<close> of \<open>outcome\<close>, an error the left of a sum or a
  constructor of its own. State is a record that operations return; a machine that runs forever is a step
  relation with its invariant proved by rule induction (\<open>Step_System\<close>). Loops are total recursive
  functions: where a loop is driven by what a peer sends, the recursion is over that input, so no fuel is
  needed; one loop, which reads a database until a page is full, is a partial function that is shown to return. Crates, the clock, random bytes, files and sockets are arguments, with what the code relies
  on as named hypotheses.

  \<^bold>\<open>Foundations.\<close> \<open>M6_Prelude\<close> (outcomes, checked arithmetic, bytes, the string operations of the
  standard library, numbers as text), \<open>Io_Model\<close> (\<open>Read\<close> and \<open>Write\<close> as sequences of results),
  \<open>Step_System\<close> (the locale \<open>step_invariant\<close>, interpreted on each machine below), \<open>First_Best\<close> (the locale
  \<open>first_best\<close> of loops that keep the best candidate, interpreted for routes and codings),
  \<open>Http_Headers\<close> (\<open>m6-core/src/headers.rs\<close>, \<open>http.rs\<close>).

  \<^bold>\<open>HTTP/1.1 in \<open>m6-core\<close>.\<close> \<open>H1_Request\<close> is the ingress parser of \<open>h1.rs\<close>: exactly one framing, one
  \<open>Host\<close>, no smuggled request. \<open>H1_Chunked\<close> is its chunked decoder, the inverse of the coding of RFC
  9112. \<open>H1_Responder\<close> is the response writer: one length, no body where none may be. \<open>H1_Reader\<close> is the
  blocking reader of \<open>parse.rs\<close>, which gives the same request however the bytes are cut.

  \<^bold>\<open>The proxy.\<close> \<open>H1_Listener\<close> and \<open>H1_Serving\<close> are the HTTP/1.1 state machine of \<open>http11.rs\<close> (requests in
  order, bounded buffers, a response is delivered), \<open>H1_Roundtrip\<close> that its responses are readable,
  \<open>Refusal_Log\<close> and \<open>Conn_Driver\<close> its admission log and its connections. \<open>H2_Frames\<close>, \<open>H2_Fields\<close>,
  \<open>H2_Conn\<close>, \<open>H2_Steps\<close>, \<open>H2_Drive\<close>, \<open>H2_Flow\<close> and \<open>H2_Theorems\<close> are the HTTP/2 driver of \<open>http2.rs\<close> and
  \<open>fields.rs\<close>: its bounds, the requests it hands on, flow control as a refinement, and when it panics.
  \<open>Cache_Control\<close> and \<open>Response_Cache\<close> are \<open>cache.rs\<close>: what may be stored, for whom, and that the store
  stays within its limit. \<open>Forwarding\<close> and \<open>Pool\<close> are \<open>forward.rs\<close> and \<open>pool.rs\<close>. \<open>Access_Gate\<close> is
  \<open>auth.rs\<close>, \<open>router.rs\<close> and the gate of \<open>health.rs\<close>. \<open>Rate_Limit\<close> has the two throttles, \<open>Conditional\<close> the
  preconditions of RFC 9110, \<open>Reply_Fields\<close> what a response leaves with. \<open>Proxy\<close>, \<open>Proxy_Safety\<close> and
  \<open>Proxy_Theorems\<close> are the request pipeline of \<open>main.rs\<close>, which composes all of them: protected
  routes refuse, the cache holds only public answers, early data changes nothing.

  \<^bold>\<open>Services.\<close> \<open>Request_Text\<close> and \<open>Path_Param\<close> are the text helpers of \<open>request.rs\<close> and \<open>path.rs\<close>.
  \<open>Auth_Db\<close> is the account database of \<open>m6-auth\<close>, \<open>Auth_Server\<close> the authentication service on it.
  \<open>Negotiate\<close> is \<open>negotiate.rs\<close>, \<open>mime.rs\<close> and the choice of \<open>m6-file/src/compress.rs\<close>, with qualities as exact
  single-precision numbers. \<open>App_Dict\<close>, \<open>App_Routes\<close>, \<open>App_Request\<close> and \<open>App_Serve\<close> are the request path of the
  \<open>App\<close> framework: \<open>dict.rs\<close>, the routes, \<open>build_dict\<close> and \<open>handle_request\<close> of \<open>app.rs\<close>, \<open>response.rs\<close>,
  \<open>cookie.rs\<close> and the CSS minifier. \<open>Static_Files\<close> is \<open>m6-file/src/handler.rs\<close> on top of them.

  \<^bold>\<open>The history of the monitor.\<close> \<open>Log_Pages\<close> is \<open>ndjson.rs\<close> and \<open>time_range.rs\<close>: files of records that read back
  even with a torn last line, pages that stay within their limits, links that ask the same question from
  where a page stopped, and ranges whose integer bounds are exact. \<open>History_Pages\<close> is the read path of
  \<open>m6-monitor/src/history.rs\<close> and \<open>main.rs\<close>: the locale \<open>row_feed\<close> states what a feed of rows promises, and its
  lemma that a client who follows the links has every row exactly once is used through the interpretation on the
  crawler windows. \<open>History_Writer\<close> is the write side: which sightings a window keeps, pruning from the old end
  only, and the writer thread, a step system in which every poll is accounted for and no failure is silent.

  \<^bold>\<open>What the theorems found.\<close> Several properties state behaviour the code does not intend: a query
  parameter names the file that is served (\<open>query_reads_any_file\<close>), a missing CSRF token is accepted
  (\<open>verify_csrf_iff\<close>), authentication keys can come from the query (\<open>auth_keys_source\<close>), a token splits a
  response (\<open>csrf_token_splits_response\<close>, \<open>login_splits_response\<close>), a decoded body keeps its
  \<open>Transfer-Encoding\<close> (\<open>chunked_reply_unreadable\<close>), refused connections stay open
  (\<open>refused_connection_stays_open\<close>).

  \<^bold>\<open>Bounds and fuel.\<close> The constants are the code's. The only fuel is the number of requests of a client in
  \<open>Static_Files.follow\<close> and \<open>History_Pages.follow_links\<close>; the theorems say how many are enough.

  \<^bold>\<open>Not modelled.\<close> TLS, QUIC and the HPACK coder are crates (rustls, quiche, hpack). The event loop and the
  reload of the configuration in \<open>main.rs\<close>, the poller, the file watchers, signals and the thread pools
  are calls of the operating system in an order the scheduler chooses. Configuration files are read by the
  toml crate into the values the models take. The contents of logs and reports (\<open>log.rs\<close>,
  \<open>telemetry.rs\<close>, \<open>stats.rs\<close>, \<open>analytics.rs\<close>, \<open>monitoring.rs\<close>, \<open>host.rs\<close>, the polls and
  the digest of \<open>m6-monitor\<close>) are read by people. \<open>sqlite.rs\<close> and the statements that insert a poll into the history are
  SQL, and the fifty columns of a \<open>/history\<close> row are copied as they are. Templates are Tera, multipart bodies multer. The HTTP/2
  clients for URL backends drive the h2 crate. Benchmarks, probes and the test kit are not part of the
  running system.
\<close>

end
